(* ===== verification/Sepol_Prelude.thy ===== *)
theory Sepol_Prelude
  imports Main "HOL-Library.Word"
begin

text \<open>
  Shared vocabulary of the development: the machine integers of the C sources, the error
  values, the two small effect types in which the C functions are written, and the list and word
  lemmas that several components use.

  \<^item> \<open>'a res\<close> is the result of a C function that returns an error code (\<open>Inl\<close>) or
    a value (\<open>Inr\<close>). The constructor \<open>Fault\<close> stands for undefined behaviour (an array
    index out of range, a null dereference, an uninitialised read) and \<open>Diverge\<close> for a loop
    that does not end; theorems about well-formed inputs show that neither is reached.
  \<^item> \<open>'a alloc_m\<close> adds the C allocator. The allocator is a list of the outcomes of the
    next calls of malloc, calloc, realloc and strdup (\<open>False\<close> for a null result); when the list
    is used up every further call succeeds. A theorem that quantifies over the allocator
    therefore covers every finite pattern of out-of-memory failures, and the empty list is a
    machine that never runs out of memory.
\<close>

unbundle bit_operations_syntax

section \<open>Machine integers\<close>

type_synonym u8 = "8 word"
type_synonym u16 = "16 word"
type_synonym u32 = "32 word"
type_synonym u64 = "64 word"

section \<open>Errors and results\<close>

datatype err = ENOMEM | EINVAL | EEXIST | ENOENT | EPERM | EACCES | EAGAIN | ERANGE | STATUS_ERR
  | Fault | Diverge

type_synonym 'a res = "err + 'a"

definition bindR :: "'a res \<Rightarrow> ('a \<Rightarrow> 'b res) \<Rightarrow> 'b res" where
  "bindR r f = (case r of Inl e \<Rightarrow> Inl e | Inr v \<Rightarrow> f v)"

definition guardR :: "bool \<Rightarrow> err \<Rightarrow> unit res" where
  "guardR b e = (if b then Inr () else Inl e)"

text \<open>An array read: reading past the end is undefined behaviour in C.\<close>

definition array_get :: "'a list \<Rightarrow> nat \<Rightarrow> 'a res" where
  "array_get xs i = (if i < length xs then Inr (xs ! i) else Inl Fault)"

text \<open>A dereference of a pointer that may be null.\<close>

definition deref :: "'a option \<Rightarrow> 'a res" where
  "deref p = (case p of None \<Rightarrow> Inl Fault | Some v \<Rightarrow> Inr v)"

fun foldR :: "('b \<Rightarrow> 's \<Rightarrow> 's res) \<Rightarrow> 'b list \<Rightarrow> 's \<Rightarrow> 's res" where
  "foldR f [] s = Inr s"
| "foldR f (x # xs) s = bindR (f x s) (foldR f xs)"

lemma bindR_simps [simp]:
  "bindR (Inl e) f = Inl e"
  "bindR (Inr v) f = f v"
  by (simp_all add: bindR_def)

lemma bindR_eq_Inr: "bindR r f = Inr y \<longleftrightarrow> (\<exists>v. r = Inr v \<and> f v = Inr y)"
  by (cases r) auto

lemma bindR_eq_Inl: "bindR r f = Inl e \<longleftrightarrow> r = Inl e \<or> (\<exists>v. r = Inr v \<and> f v = Inl e)"
  by (cases r) auto

lemma bindR_assoc: "bindR (bindR r f) g = bindR r (\<lambda>v. bindR (f v) g)"
  by (cases r) auto

lemma bindR_cong [fundef_cong]:
  "r = r' \<Longrightarrow> (\<And>v. r' = Inr v \<Longrightarrow> f v = f' v) \<Longrightarrow> bindR r f = bindR r' f'"
  by (cases r') auto

lemma guardR_simps [simp]:
  "guardR True e = Inr ()"
  "guardR False e = Inl e"
  by (simp_all add: guardR_def)

lemma guardR_eq [simp]:
  "guardR b e = Inr u \<longleftrightarrow> b"
  "guardR b e = Inl e' \<longleftrightarrow> \<not> b \<and> e' = e"
  by (auto simp: guardR_def)

lemma array_get_in [simp]: "i < length xs \<Longrightarrow> array_get xs i = Inr (xs ! i)"
  by (simp add: array_get_def)

lemma array_get_eq_Inr: "array_get xs i = Inr v \<longleftrightarrow> i < length xs \<and> v = xs ! i"
  by (auto simp: array_get_def)

lemma deref_simps [simp]:
  "deref (Some v) = Inr v"
  "deref None = Inl Fault"
  by (simp_all add: deref_def)

lemma deref_eq_Inr [simp]: "deref p = Inr v \<longleftrightarrow> p = Some v"
  by (cases p) auto

lemma foldR_single [simp]: "foldR f [x] = f x"
proof
  show "foldR f [x] s = f x s" for s by (cases "f x s") auto
qed

lemma foldR_append: "foldR f (xs @ ys) s = bindR (foldR f xs s) (foldR f ys)"
proof (induction xs arbitrary: s)
  case (Cons x xs)
  then show ?case by (cases "f x s") auto
qed simp

lemma foldR_pure:
  "(\<And>x s. x \<in> set xs \<Longrightarrow> f x s = Inr (g x s)) \<Longrightarrow> foldR f xs s = Inr (fold g xs s)"
  by (induction xs arbitrary: s) auto

lemma foldR_invariant:
  assumes "foldR f xs s = Inr t" and "P s"
    and "\<And>x s s'. x \<in> set xs \<Longrightarrow> P s \<Longrightarrow> f x s = Inr s' \<Longrightarrow> P s'"
  shows "P t"
  using assms
proof (induction xs arbitrary: s)
  case (Cons x xs)
  then obtain s' where "f x s = Inr s'" and "foldR f xs s' = Inr t"
    by (auto simp: bindR_eq_Inr)
  with Cons show ?case by (metis list.set_intros(1,2))
qed simp

section \<open>The allocator\<close>

type_synonym alloc = "bool list"
type_synonym 'a alloc_m = "alloc \<Rightarrow> 'a res \<times> alloc"

definition returnE :: "'a \<Rightarrow> 'a alloc_m" where
  "returnE v a = (Inr v, a)"

definition throwE :: "err \<Rightarrow> 'a alloc_m" where
  "throwE e a = (Inl e, a)"

definition liftE :: "'a res \<Rightarrow> 'a alloc_m" where
  "liftE r a = (r, a)"

definition bindE :: "'a alloc_m \<Rightarrow> ('a \<Rightarrow> 'b alloc_m) \<Rightarrow> 'b alloc_m" where
  "bindE m f a = (case m a of (Inl e, a') \<Rightarrow> (Inl e, a') | (Inr v, a') \<Rightarrow> f v a')"

text \<open>One call of malloc: the null result is the error \<open>ENOMEM\<close>.\<close>

fun malloc :: "unit alloc_m" where
  "malloc [] = (Inr (), [])"
| "malloc (ok # a) = ((if ok then Inr () else Inl ENOMEM), a)"

text \<open>Running a computation and turning its error into a value, for callers that test the
  return code instead of propagating it.\<close>

definition tryE :: "'a alloc_m \<Rightarrow> 'a res alloc_m" where
  "tryE m a = (case m a of (r, a') \<Rightarrow> (Inr r, a'))"

text \<open>Running a computation whose error code the caller replaces by its own; undefined behaviour is
  not an error code.\<close>

definition failE :: "'a alloc_m \<Rightarrow> err \<Rightarrow> 'a alloc_m" where
  "failE m e a = (case m a of
     (Inl x, a') \<Rightarrow> (Inl (if x = Fault \<or> x = Diverge then x else e), a')
   | (Inr v, a') \<Rightarrow> (Inr v, a'))"

fun foldE :: "('b \<Rightarrow> 's \<Rightarrow> 's alloc_m) \<Rightarrow> 'b list \<Rightarrow> 's \<Rightarrow> 's alloc_m" where
  "foldE f [] s = returnE s"
| "foldE f (x # xs) s = bindE (f x s) (foldE f xs)"

lemma bindE_run:
  "m a = (Inl e, a') \<Longrightarrow> bindE m f a = (Inl e, a')"
  "m a = (Inr v, a') \<Longrightarrow> bindE m f a = f v a'"
  by (simp_all add: bindE_def)

lemma bindE_cong [fundef_cong]:
  "m = m' \<Longrightarrow> (\<And>v a a'. m' a = (Inr v, a') \<Longrightarrow> f v = f' v) \<Longrightarrow> bindE m f = bindE m' f'"
  by (rule ext) (auto simp: bindE_def split: prod.splits sum.splits)

lemma bindE_eq_Inr:
  "bindE m f a = (Inr y, b) \<longleftrightarrow> (\<exists>v a'. m a = (Inr v, a') \<and> f v a' = (Inr y, b))"
  by (auto simp: bindE_def split: prod.splits sum.splits)

lemma bindE_eq_Inl:
  "bindE m f a = (Inl e, b) \<longleftrightarrow>
     m a = (Inl e, b) \<or> (\<exists>v a'. m a = (Inr v, a') \<and> f v a' = (Inl e, b))"
  by (auto simp: bindE_def split: prod.splits sum.splits)

lemma bindE_pure [simp]:
  "bindE (returnE v) f = f v"
  "bindE (throwE e) f = throwE e"
  "bindE (liftE (Inr v)) f = f v"
  "bindE (liftE (Inl e)) f' = throwE e"
  by (auto simp: fun_eq_iff bindE_def returnE_def throwE_def liftE_def)

lemma returnE_eq [simp]: "returnE v a = (r, b) \<longleftrightarrow> r = Inr v \<and> b = a"
  by (auto simp: returnE_def)

lemma throwE_eq [simp]: "throwE e a = (r, b) \<longleftrightarrow> r = Inl e \<and> b = a"
  by (auto simp: throwE_def)

lemma liftE_eq [simp]: "liftE x a = (r, b) \<longleftrightarrow> r = x \<and> b = a"
  by (auto simp: liftE_def)

lemma malloc_cases: "malloc a = (Inr (), tl a) \<or> malloc a = (Inl ENOMEM, tl a)"
  by (cases a) auto

lemma failE_pure [simp]:
  "failE (returnE v) e = returnE v"
  "m a = (Inr v, b) \<Longrightarrow> failE m e a = (Inr v, b)"
  by (auto simp: fun_eq_iff failE_def returnE_def)

lemma failE_eq_Inr [simp]: "failE m e a = (Inr v, b) \<longleftrightarrow> m a = (Inr v, b)"
  by (auto simp: failE_def split: prod.splits sum.splits)

lemma bindE_returnE [simp]: "bindE m returnE = m"
  by (auto simp: fun_eq_iff bindE_def returnE_def split: prod.splits sum.splits)

lemma bindE_assoc: "bindE (bindE m f) g = bindE m (\<lambda>v. bindE (f v) g)"
  by (rule ext) (auto simp: bindE_def split: prod.splits sum.splits)

lemma foldE_single [simp]: "foldE f [x] = f x"
proof
  show "foldE f [x] s = f x s" for s
  proof -
    have "foldE f [] = returnE" by (rule ext) simp
    then show ?thesis by simp
  qed
qed

lemma foldE_append: "foldE f (xs @ ys) s = bindE (foldE f xs s) (foldE f ys)"
proof (induction xs arbitrary: s)
  case (Cons x xs)
  then show ?case by (auto simp: fun_eq_iff bindE_def split: prod.splits sum.splits)
qed simp

text \<open>A walk over the buckets of a table is a walk over its entries.\<close>

lemma foldE_buckets:
  "n \<le> length t \<Longrightarrow> foldE (\<lambda>i s. bindE (liftE (array_get t i)) (\<lambda>c. foldE f c s)) [0..<n] s = foldE f (concat (take n t)) s"
  by (induction n) (auto simp: foldE_append take_Suc_conv_app_nth)

lemma foldE_invariant:
  assumes "foldE f xs s a = (Inr t, b)" and "P s"
    and "\<And>x s s' a b. x \<in> set xs \<Longrightarrow> P s \<Longrightarrow> f x s a = (Inr s', b) \<Longrightarrow> P s'"
  shows "P t"
  using assms
proof (induction xs arbitrary: s a)
  case (Cons x xs)
  then obtain s' a' where "f x s a = (Inr s', a')" and "foldE f xs s' a' = (Inr t, b)" by (auto simp: bindE_eq_Inr)
  with Cons show ?case by (metis list.set_intros(1,2))
qed simp

text \<open>A check made on every element.\<close>

lemma foldE_checks:
  assumes "foldE f xs () a = (Inr (), b)" and "x \<in> set xs"
  obtains a' b' where "f x () a' = (Inr (), b')"
  using assms by (induction xs arbitrary: a) (auto simp: bindE_eq_Inr)

subsection \<open>Results up to out-of-memory\<close>

text \<open>
  \<open>yields m r\<close>: whatever the allocator does, \<open>m\<close> either returns \<open>r\<close> or fails
  with \<open>ENOMEM\<close>, and it returns \<open>r\<close> when no allocation fails. The introduction rules
  follow the structure of a computation, so the functional content of a C function is
  separated from its out-of-memory exits by applying the collection \<open>yields_intros\<close>.
\<close>

definition yields :: "'a alloc_m \<Rightarrow> 'a res \<Rightarrow> bool" where
  "yields m r \<longleftrightarrow> (\<forall>a. fst (m a) = r \<or> fst (m a) = Inl ENOMEM) \<and> m [] = (r, [])"

named_theorems yields_intros

lemma yields_returnE [yields_intros]: "yields (returnE v) (Inr v)"
  by (simp add: yields_def returnE_def)

lemma yields_throwE [yields_intros]: "yields (throwE e) (Inl e)"
  by (simp add: yields_def throwE_def)

lemma yields_liftE [yields_intros]: "yields (liftE r) r"
  by (simp add: yields_def liftE_def)

lemma yields_malloc [yields_intros]: "yields malloc (Inr ())"
proof -
  have "fst (malloc a) = Inr () \<or> fst (malloc a) = Inl ENOMEM" for a
    by (cases a) auto
  then show ?thesis by (simp add: yields_def)
qed

lemma yields_bindE [yields_intros]:
  assumes "yields m r" and "\<And>v. r = Inr v \<Longrightarrow> yields (f v) (g v)"
  shows "yields (bindE m f) (bindR r g)"
proof -
  have "fst (bindE m f a) = bindR r g \<or> fst (bindE m f a) = Inl ENOMEM" for a
  proof (cases "m a")
    case (Pair x a')
    with assms(1) have "x = r \<or> x = Inl ENOMEM" by (metis fst_conv yields_def)
    with Pair assms(2) show ?thesis
      by (cases x) (auto simp: bindE_def yields_def)
  qed
  moreover have "bindE m f [] = (bindR r g, [])"
    using assms by (cases r) (auto simp: yields_def bindE_def)
  ultimately show ?thesis by (simp add: yields_def)
qed

lemma yields_bindE_Inr:
  assumes "yields m (Inr v)" and "yields (f v) r"
  shows "yields (bindE m f) r"
proof -
  from assms have "yields (bindE m f) (bindR (Inr v) (\<lambda>_. r))"
    by (intro yields_bindE) auto
  then show ?thesis by simp
qed

lemma yields_pure [simp]:
  "yields (returnE v) r \<longleftrightarrow> r = Inr v"
  "yields (throwE e) r \<longleftrightarrow> r = Inl e"
  "yields (liftE x) r \<longleftrightarrow> r = x"
  by (auto simp: yields_def returnE_def throwE_def liftE_def)

lemma yields_malloc_bindE [simp]: "yields (bindE malloc f) r \<longleftrightarrow> yields (f ()) r"
proof
  assume y: "yields (bindE malloc f) r"
  have "f () a = bindE malloc f (True # a)" for a by (simp add: bindE_def)
  moreover have "f () [] = bindE malloc f []" by (simp add: bindE_def)
  ultimately show "yields (f ()) r" using y by (simp add: yields_def)
qed (rule yields_bindE_Inr [OF yields_malloc])

lemma yields_unique: "yields m r \<Longrightarrow> yields m r' \<Longrightarrow> r = r'"
  by (simp add: yields_def)

lemma yields_foldE:
  assumes "\<And>x s. x \<in> set xs \<Longrightarrow> yields (f x s) (g x s)"
  shows "yields (foldE f xs s) (foldR g xs s)"
  using assms by (induction xs arbitrary: s) (auto intro!: yields_intros)

lemma yields_Inr: "yields m r \<Longrightarrow> m a = (Inr v, b) \<Longrightarrow> r = Inr v"
  by (auto simp: yields_def) (metis fst_conv sum.distinct(1))

lemma yields_Inl: "yields m r \<Longrightarrow> m a = (Inl e, b) \<Longrightarrow> e = ENOMEM \<or> r = Inl e"
  by (auto simp: yields_def) (metis fst_conv sum.inject(1))

lemma yields_no_oom: "yields m r \<Longrightarrow> m [] = (r, [])"
  by (simp add: yields_def)

lemma yields_cases:
  assumes "yields m r"
  obtains (ret) b where "m a = (r, b)" | (oom) b where "m a = (Inl ENOMEM, b)"
  using assms by (cases "m a") (auto simp: yields_def, metis fst_conv)

text \<open>
  \<open>returns m r\<close> is the weaker statement for functions that report a failed allocation with an
  error code of their own: \<open>m\<close> returns \<open>r\<close> when no allocation fails, and whatever the allocator does
  it returns \<open>r\<close> or some error code, never another value and never undefined behaviour.
\<close>

abbreviation err_code :: "err \<Rightarrow> bool" where
  "err_code e \<equiv> e \<noteq> Fault \<and> e \<noteq> Diverge"

definition returns :: "'a alloc_m \<Rightarrow> 'a res \<Rightarrow> bool" where
  "returns m r \<longleftrightarrow> (\<forall>a. fst (m a) = r \<or> (\<exists>e. fst (m a) = Inl e \<and> err_code e)) \<and> m [] = (r, [])"

lemma returns_yields: "yields m r \<Longrightarrow> returns m r"
  by (auto simp: yields_def returns_def)

lemma returns_pure [simp]:
  "returns (returnE v) r \<longleftrightarrow> r = Inr v"
  "returns (throwE e) r \<longleftrightarrow> r = Inl e"
  "returns (liftE x) r \<longleftrightarrow> r = x"
  by (auto simp: returns_def returnE_def throwE_def liftE_def)

lemma returns_bindE_Inr:
  assumes "returns m (Inr v)" and "returns (f v) r"
  shows "returns (bindE m f) r"
proof -
  have "fst (bindE m f a) = r \<or> (\<exists>e. fst (bindE m f a) = Inl e \<and> err_code e)" for a
  proof (cases "m a")
    case (Pair x a')
    with assms(1) have "x = Inr v \<or> (\<exists>e. x = Inl e \<and> err_code e)" by (metis fst_conv returns_def)
    with Pair assms(2) show ?thesis by (auto simp: bindE_def returns_def)
  qed
  moreover have "bindE m f [] = (r, [])" using assms by (simp add: returns_def bindE_def)
  ultimately show ?thesis by (simp add: returns_def)
qed

lemma returns_bindE_Inl:
  assumes "returns m (Inl e)" and "err_code e"
  shows "returns (bindE m f) (Inl e)"
proof -
  have "\<exists>e. fst (bindE m f a) = Inl e \<and> err_code e" for a
  proof (cases "m a")
    case (Pair x a')
    with assms have "\<exists>e. x = Inl e \<and> err_code e" by (metis fst_conv returns_def)
    with Pair show ?thesis by (auto simp: bindE_def)
  qed
  moreover have "bindE m f [] = (Inl e, [])" using assms by (simp add: returns_def bindE_def)
  ultimately show ?thesis by (simp add: returns_def)
qed

lemma returns_malloc_bindE [simp]: "returns (f ()) r \<Longrightarrow> returns (bindE malloc f) r"
  by (rule returns_bindE_Inr [OF returns_yields [OF yields_malloc]])

definition recode :: "'a res \<Rightarrow> err \<Rightarrow> 'a res" where
  "recode r e = (case r of Inr v \<Rightarrow> Inr v | Inl x \<Rightarrow> Inl (if err_code x then e else x))"

lemma failE_recode: "failE m e a = (recode (fst (m a)) e, snd (m a))"
  by (auto simp: failE_def recode_def split: prod.splits sum.splits)

lemma recode_simps [simp]:
  "recode (Inr v) e = Inr v"
  "recode (Inl x) e = Inl (if err_code x then e else x)"
  by (simp_all add: recode_def)

lemma returns_failE:
  assumes "returns m r" and "err_code e"
  shows "returns (failE m e) (recode r e)"
proof -
  have "recode (fst (m a)) e = recode r e \<or> (\<exists>e'. recode (fst (m a)) e = Inl e' \<and> err_code e')" for a
  proof -
    have "fst (m a) = r \<or> (\<exists>e. fst (m a) = Inl e \<and> err_code e)" using assms(1) by (simp add: returns_def)
    then show ?thesis using assms(2) by auto
  qed
  moreover have "failE m e [] = (recode r e, [])" using assms(1) by (simp add: failE_recode returns_def)
  ultimately show ?thesis by (simp add: returns_def failE_recode)
qed

lemma returns_failE_Inr: "returns m (Inr v) \<Longrightarrow> err_code e \<Longrightarrow> returns (failE m e) (Inr v)"
  using returns_failE [of m "Inr v" e] by simp

lemma yields_failE_ENOMEM: "returns m (Inr v) \<Longrightarrow> yields (failE m ENOMEM) (Inr v)"
proof -
  assume r: "returns m (Inr v)"
  have "recode (fst (m a)) ENOMEM = Inr v \<or> recode (fst (m a)) ENOMEM = Inl ENOMEM" for a
  proof -
    have "fst (m a) = Inr v \<or> (\<exists>e. fst (m a) = Inl e \<and> err_code e)" using r by (simp add: returns_def)
    then show ?thesis by auto
  qed
  then show ?thesis using r by (simp add: yields_def failE_recode returns_def)
qed

lemma returns_Inr: "returns m r \<Longrightarrow> m a = (Inr v, b) \<Longrightarrow> r = Inr v"
  by (auto simp: returns_def) (metis fst_conv sum.distinct(1))

lemma returns_no_oom: "returns m r \<Longrightarrow> m [] = (r, [])"
  by (simp add: returns_def)

lemma returns_no_fault: "returns m r \<Longrightarrow> r \<noteq> Inl Fault \<Longrightarrow> m a \<noteq> (Inl Fault, b)"
  by (auto simp: returns_def) (metis fst_conv sum.inject(1))

section \<open>Lists\<close>

lemma sorted_wrt_map_eq:
  "sorted_wrt (<) (map f xs) \<longleftrightarrow> sorted_wrt (\<lambda>x y. f x < f y) xs"
  by (simp add: sorted_wrt_map)

lemma last_greatest:
  fixes f :: "'a \<Rightarrow> 'b :: linorder"
  assumes "sorted_wrt (\<lambda>x y. f x < f y) xs" and "x \<in> set xs"
  shows "f x \<le> f (last xs)"
  using assms by (induction xs) (auto intro: less_imp_le split: if_splits)

lemma find_filter: "find P xs = (case filter P xs of [] \<Rightarrow> None | x # _ \<Rightarrow> Some x)"
  by (induction xs) auto

lemma length_concat_upd:
  assumes "i < length t"
  shows "length (concat (t[i := c])) + length (t ! i) = length (concat t) + length c"
proof -
  have "concat t = concat (take i t) @ t ! i @ concat (drop (Suc i) t)"
    using id_take_nth_drop [OF assms] by (metis concat.simps(2) concat_append)
  then show ?thesis using assms by (simp add: upd_conv_take_nth_drop)
qed

lemma keys_insert_ball:
  assumes "fst ` set c' = insert k (fst ` set c)" and "P k" and "\<forall>y \<in> set c. P (fst y)"
  shows "\<forall>y \<in> set c'. P (fst y)"
proof
  fix y assume "y \<in> set c'"
  then have "fst y \<in> insert k (fst ` set c)" using assms(1) by blast
  with assms(2,3) show "P (fst y)" by auto
qed

section \<open>Numbers\<close>

lemma mod_eq_gap:
  fixes x y k :: nat
  assumes "x mod k = 0" and "y mod k = 0" and "x < y"
  shows "x + k \<le> y"
proof -
  from assms obtain a b where ab: "x = k * a" "y = k * b" by (auto elim!: dvdE simp: mod_eq_0_iff_dvd)
  with assms(3) have "a + 1 \<le> b" by (simp add: Suc_le_eq)
  then have "k * (a + 1) \<le> k * b" by (rule mult_le_mono2)
  with ab show ?thesis by simp
qed

section \<open>Words\<close>

lemma word_and_bit_nonzero:
  "(m :: 'a :: len word) AND push_bit k 1 \<noteq> 0 \<longleftrightarrow> k < LENGTH('a) \<and> bit m k"
proof -
  have "(m AND push_bit k 1 \<noteq> 0) \<longleftrightarrow> (\<exists>j < LENGTH('a). bit m j \<and> j = k)"
    by (auto simp: bit_eq_iff bit_simps)
  then show ?thesis by auto
qed

lemma word_and_lt: "sz \<noteq> 0 \<Longrightarrow> w AND (sz - 1) < (sz :: 'a :: len word)"
proof -
  assume nz: "sz \<noteq> 0"
  then have "unat (sz - 1) < unat sz" by (simp add: unat_minus_one unat_gt_0)
  moreover have "w AND (sz - 1) \<le> sz - 1" by (rule word_and_le1)
  ultimately show ?thesis by (simp add: word_less_nat_alt word_le_nat_alt)
qed

lemma unat_u32_lt: "unat (w :: u32) < 4294967296"
proof -
  have "unat w < 2 ^ LENGTH(32)" by (rule unsigned_less)
  then show ?thesis by simp
qed

lemma unat_u16_lt: "unat (w :: u16) < 65536"
proof -
  have "unat w < 2 ^ LENGTH(16)" by (rule unsigned_less)
  then show ?thesis by simp
qed

lemma ucast_u16_u32: "unat (w :: u32) < 65536 \<Longrightarrow> ucast (ucast w :: u16) = w"
  by (simp add: word_unat_eq_iff unsigned_ucast_eq unsigned_take_bit_eq take_bit_nat_eq_self)

lemma unat_of_nat_u32: "n < 4294967296 \<Longrightarrow> unat (of_nat n :: u32) = n"
  by (simp add: unat_of_nat)

lemma sint_nonneg_u32: "unat (w :: u32) < 2147483648 \<Longrightarrow> \<not> sint w < 0"
proof -
  assume "unat w < 2147483648"
  then have "\<not> bit (unat w) 31" by (simp add: bit_iff_odd)
  then have "\<not> bit w 31" by (simp add: bit_unsigned_iff)
  then show ?thesis using bit_last_iff [of w] by simp
qed

lemma word_split_and_not: "(b AND m) + (b AND NOT m) = (b :: 'a :: len word)"
  by (subst disjunctive_add_eq_or) (auto simp: bit_eq_iff bit_simps)

text \<open>Rounding down to a multiple of 64, as the bitmap code does with \<open>bit & ~63\<close>.\<close>

definition chunk_of :: "u32 \<Rightarrow> u32" where
  "chunk_of b = b AND NOT 63"

lemma unat_and_63: "unat ((b :: u32) AND 63) = unat b mod 64"
proof -
  have "b AND 63 = take_bit 6 b" by (simp add: take_bit_eq_mask mask_eq_exp_minus_1)
  also have "unat \<dots> = take_bit 6 (unat b)" by (rule unsigned_take_bit_eq)
  finally show ?thesis by (simp add: take_bit_eq_mod)
qed

lemma unat_chunk_of: "unat (chunk_of b) = unat b - unat b mod 64"
proof -
  have "chunk_of b = b - (b AND 63)"
    unfolding chunk_of_def using word_split_and_not [of b 63] by (metis add_diff_cancel_left')
  moreover have "b AND 63 \<le> b" by (simp add: word_le_nat_alt unat_and_63)
  ultimately show ?thesis by (simp add: unat_sub unat_and_63)
qed

lemma chunk_of_facts:
  "unat (chunk_of b) mod 64 = 0" "unat (chunk_of b) \<le> unat b" "unat b < unat (chunk_of b) + 64"
  "unat b - unat (chunk_of b) = unat b mod 64" "unat (b - chunk_of b) = unat b mod 64"
proof -
  show "unat (chunk_of b) mod 64 = 0" by (simp add: unat_chunk_of minus_mod_eq_mult_div)
  show le: "unat (chunk_of b) \<le> unat b" by (simp add: unat_chunk_of)
  have "unat b mod 64 < 64" "unat b mod 64 \<le> unat b" by simp_all
  then show "unat b < unat (chunk_of b) + 64" unfolding unat_chunk_of by linarith
  show d: "unat b - unat (chunk_of b) = unat b mod 64" by (simp add: unat_chunk_of)
  with le show "unat (b - chunk_of b) = unat b mod 64" by (simp add: unat_sub word_le_nat_alt)
qed

end
