(* ===== verification/Policy_File.thy ===== *)
theory Policy_File
  imports Sepol_Prelude
begin

text \<open>
  The binary policy file: the byte stream behind \<open>next_entry\<close> and \<open>put_entry\<close>
  (libsepol services.c) and the little-endian integers of the format (private.h). A file is
  read from the list of its unread bytes and written by appending to the list of bytes
  produced so far; \<open>pf_len\<close> is the length counter that the memory variant decreases and
  the counting variant increases.
\<close>

unbundle bit_operations_syntax

section \<open>Little-endian integers\<close>

fun get_le :: "u8 list \<Rightarrow> 'a :: len word" where
  "get_le [] = 0"
| "get_le (b # bs) = ucast b OR push_bit 8 (get_le bs)"

fun put_le :: "nat \<Rightarrow> 'a :: len word \<Rightarrow> u8 list" where
  "put_le 0 w = []"
| "put_le (Suc n) w = ucast w # put_le n (drop_bit 8 w)"

lemma length_put_le [simp]: "length (put_le n w) = n"
  by (induction n w rule: put_le.induct) auto

lemma le_byte_step:
  "(ucast (ucast (w :: 'a :: len word) :: u8) :: 'a word)
     OR push_bit 8 (take_bit m (drop_bit 8 w)) = take_bit (8 + m) w"
  by (rule bit_word_eqI) (auto simp: bit_simps)

lemma get_put_le: "get_le (put_le n (w :: 'a :: len word)) = take_bit (8 * n) w"
proof (induction n arbitrary: w)
  case (Suc n)
  have "get_le (put_le (Suc n) w)
      = (ucast (ucast w :: u8) :: 'a word) OR push_bit 8 (take_bit (8 * n) (drop_bit 8 w))"
    by (simp add: Suc)
  also have "\<dots> = take_bit (8 * Suc n) w"
    by (simp add: le_byte_step)
  finally show ?case .
qed simp

lemma get_put_le16 [simp]: "get_le (put_le 2 w) = (w :: u16)"
  by (simp add: get_put_le take_bit_word_eq_self)

lemma get_put_le32 [simp]: "get_le (put_le 4 w) = (w :: u32)"
  by (simp add: get_put_le take_bit_word_eq_self)

lemma get_put_le64 [simp]: "get_le (put_le 8 w) = (w :: u64)"
  by (simp add: get_put_le take_bit_word_eq_self)

section \<open>The file\<close>

datatype pf_kind = PF_USE_MEMORY | PF_USE_STDIO | PF_LEN

record policy_file =
  pf_type :: pf_kind
  pf_data :: "u8 list"
  pf_len :: nat
  pf_out :: "u8 list"

text \<open>
  Reading. With stdio, \<open>fread(buf, bytes, 1, fp)\<close> returns 1 only for a full item of a
  non-zero size; a short read consumes what is left. In memory, a length field larger than the
  buffer would let \<open>memcpy\<close> read past its end, which is a fault.
\<close>

definition next_entry :: "policy_file \<Rightarrow> nat \<Rightarrow> (u8 list \<times> policy_file) res" where
  "next_entry fp bytes = (case pf_type fp of
     PF_USE_STDIO \<Rightarrow>
       (if bytes = 0 \<or> length (pf_data fp) < bytes then Inl STATUS_ERR
        else Inr (take bytes (pf_data fp), fp\<lparr>pf_data := drop bytes (pf_data fp)\<rparr>))
   | PF_USE_MEMORY \<Rightarrow>
       (if pf_len fp < bytes then Inl STATUS_ERR
        else if length (pf_data fp) < bytes then Inl Fault
        else Inr (take bytes (pf_data fp),
                  fp\<lparr>pf_data := drop bytes (pf_data fp), pf_len := pf_len fp - bytes\<rparr>))
   | PF_LEN \<Rightarrow> Inl STATUS_ERR)"

text \<open>Writing \<open>n\<close> items of \<open>sz\<close> bytes; the result is the number of items written.\<close>

definition put_entry :: "u8 list \<Rightarrow> nat \<Rightarrow> nat \<Rightarrow> policy_file \<Rightarrow> nat \<times> policy_file" where
  "put_entry ptr sz n fp = (let bytes = sz * n in
     case pf_type fp of
       PF_USE_STDIO \<Rightarrow> (n, fp\<lparr>pf_out := pf_out fp @ take bytes ptr\<rparr>)
     | PF_USE_MEMORY \<Rightarrow>
         (if pf_len fp < bytes then (0, fp)
          else (n, fp\<lparr>pf_out := pf_out fp @ take bytes ptr, pf_len := pf_len fp - bytes\<rparr>))
     | PF_LEN \<Rightarrow> (n, fp\<lparr>pf_len := pf_len fp + bytes\<rparr>))"

text \<open>A file opened on a byte list, in either of the two readable kinds.\<close>

definition pf_reads :: "policy_file \<Rightarrow> u8 list \<Rightarrow> bool" where
  "pf_reads fp bs \<longleftrightarrow> pf_data fp = bs \<and>
     (pf_type fp = PF_USE_STDIO \<or> pf_type fp = PF_USE_MEMORY \<and> pf_len fp = length bs)"

definition pf_of_bytes :: "u8 list \<Rightarrow> policy_file" where
  "pf_of_bytes bs = \<lparr>pf_type = PF_USE_MEMORY, pf_data = bs, pf_len = length bs, pf_out = []\<rparr>"

lemma pf_reads_of_bytes [simp]: "pf_reads (pf_of_bytes bs) bs"
  by (simp add: pf_reads_def pf_of_bytes_def)

text \<open>A read of the first bytes of the file returns them and leaves a file on the rest.\<close>

lemma next_entry_append:
  assumes "pf_reads fp (bs @ rest)" and "length bs = n" and "0 < n"
  obtains fp' where "next_entry fp n = Inr (bs, fp')" and "pf_reads fp' rest"
proof -
  let ?m = "fp\<lparr>pf_data := rest, pf_len := length rest\<rparr>"
  let ?s = "fp\<lparr>pf_data := rest\<rparr>"
  from assms consider "pf_type fp = PF_USE_STDIO" | "pf_type fp = PF_USE_MEMORY"
    by (auto simp: pf_reads_def)
  then show ?thesis
  proof cases
    case 1
    with assms have "next_entry fp n = Inr (bs, ?s)" and "pf_reads ?s rest"
      by (auto simp: next_entry_def pf_reads_def)
    then show ?thesis by (rule that)
  next
    case 2
    with assms have "next_entry fp n = Inr (bs, ?m)" and "pf_reads ?m rest"
      by (auto simp: next_entry_def pf_reads_def)
    then show ?thesis by (rule that)
  qed
qed

text \<open>A file that was opened properly never faults, whatever is read from it.\<close>

definition pf_ok :: "policy_file \<Rightarrow> bool" where
  "pf_ok fp \<longleftrightarrow> (pf_type fp = PF_USE_MEMORY \<longrightarrow> pf_len fp \<le> length (pf_data fp))"

lemma next_entry_no_fault: "pf_ok fp \<Longrightarrow> next_entry fp n \<noteq> Inl Fault"
  by (auto simp: next_entry_def pf_ok_def split: pf_kind.splits)

lemma next_entry_ok: "pf_ok fp \<Longrightarrow> next_entry fp n = Inr (bs, fp') \<Longrightarrow> pf_ok fp' \<and> length bs = n"
  by (auto simp: next_entry_def pf_ok_def split: pf_kind.splits if_splits)

text \<open>Appending to a writable file with room for the item.\<close>

definition pf_room :: "policy_file \<Rightarrow> nat \<Rightarrow> bool" where
  "pf_room fp n \<longleftrightarrow> pf_type fp = PF_USE_STDIO \<or> pf_type fp = PF_USE_MEMORY \<and> n \<le> pf_len fp"

lemma put_entry_room:
  assumes "pf_room fp (length bs + k)" and "length bs = sz * n"
  obtains fp' where "put_entry bs sz n fp = (n, fp')" and "pf_room fp' k"
    and "pf_out fp' = pf_out fp @ bs"
  using assms
  by (cases "pf_type fp") (auto simp: put_entry_def pf_room_def Let_def)

end
