(* ===== verification/Avtab.thy ===== *)
theory Avtab
  imports Policy_File
begin

text \<open>
  The access vector table of libsepol (avtab.c, avtab.h; the new file format's writer is in write.c):
  a chained hash table from a source type, a target type and a class to access vectors or types, with
  one node for each kind of rule. A node is identified by its address \<open>av_addr\<close>, because the
  conditional rules keep pointers to nodes and switch them on and off; the table record counts the
  addresses handed out. A node pointer that is followed along its chain is the rest of the chain
  that starts at the node. The parser's \<open>parse_context\<close> is not modelled; the writer of the old
  format with its \<open>merged\<close> flag is in \<open>Avtab_Expand\<close>.
\<close>

unbundle bit_operations_syntax

section \<open>Data\<close>

record avtab_key =
  source_type :: u16
  target_type :: u16
  target_class :: u16
  specified :: u16

abbreviation "AVTAB_ALLOWED \<equiv> 1 :: u16"
abbreviation "AVTAB_AUDITALLOW \<equiv> 2 :: u16"
abbreviation "AVTAB_AUDITDENY \<equiv> 4 :: u16"
abbreviation "AVTAB_AV \<equiv> 7 :: u16"
abbreviation "AVTAB_TRANSITION \<equiv> 16 :: u16"
abbreviation "AVTAB_MEMBER \<equiv> 32 :: u16"
abbreviation "AVTAB_CHANGE \<equiv> 64 :: u16"
abbreviation "AVTAB_TYPE \<equiv> 112 :: u16"
abbreviation "AVTAB_ENABLED \<equiv> 0x8000 :: u16"
abbreviation "AVTAB_ENABLED_OLD \<equiv> 0x80000000 :: u32"
abbreviation "MAX_AVTAB_SIZE \<equiv> 8192 :: u32"
abbreviation "POLICYDB_VERSION_AVTAB \<equiv> 20 :: u32"

record avtab_node =
  av_addr :: nat
  av_key :: avtab_key
  av_data :: u32

record avtab =
  av_htable :: "avtab_node list list option"
  av_nel :: u32
  av_nslot :: u32
  av_mask :: u16
  av_next_addr :: nat

section \<open>Operations\<close>

definition avtab_hash :: "avtab_key \<Rightarrow> u16 \<Rightarrow> nat" where
  "avtab_hash keyp m = unat ((ucast (target_class keyp) + push_bit 2 (ucast (target_type keyp))
     + push_bit 9 (ucast (source_type keyp)) :: u32) AND ucast m)"

text \<open>The tests that every walk makes on a node: the same source, target and class, or a key that
  sorts before the node's.\<close>

definition key_same :: "avtab_key \<Rightarrow> avtab_key \<Rightarrow> bool" where
  "key_same key cur \<longleftrightarrow> source_type key = source_type cur \<and> target_type key = target_type cur
     \<and> target_class key = target_class cur"

definition key_before :: "avtab_key \<Rightarrow> avtab_key \<Rightarrow> bool" where
  "key_before key cur \<longleftrightarrow> source_type key < source_type cur
     \<or> source_type key = source_type cur \<and> target_type key < target_type cur
     \<or> source_type key = source_type cur \<and> target_type key = target_type cur
         \<and> target_class key < target_class cur"

text \<open>\<open>specified & ~(AVTAB_ENABLED | AVTAB_ENABLED_OLD)\<close>.\<close>

definition spec_mask :: "u16 \<Rightarrow> u16" where
  "spec_mask s = s AND NOT AVTAB_ENABLED"

definition spec_match :: "avtab_key \<Rightarrow> avtab_key \<Rightarrow> bool" where
  "spec_match key cur \<longleftrightarrow> key_same key cur \<and> spec_mask (specified key) AND specified cur \<noteq> 0"

definition av_bucket :: "avtab \<Rightarrow> avtab_node list list \<Rightarrow> avtab_key \<Rightarrow> nat res" where
  "av_bucket h t key = (let i = avtab_hash key (av_mask h) in
     if i < length t then Inr i else Inl Fault)"

text \<open>\<open>None\<close> is the result when a node for the key exists.\<close>

fun insert_walk :: "avtab_node \<Rightarrow> avtab_node list \<Rightarrow> avtab_node list option" where
  "insert_walk new [] = Some [new]"
| "insert_walk new (cur # c) =
     (if spec_match (av_key new) (av_key cur) then None
      else if key_before (av_key new) (av_key cur) then Some (new # cur # c)
      else map_option (Cons cur) (insert_walk new c))"

fun nonunique_walk :: "avtab_node \<Rightarrow> avtab_node list \<Rightarrow> avtab_node list" where
  "nonunique_walk new [] = [new]"
| "nonunique_walk new (cur # c) =
     (if spec_match (av_key new) (av_key cur) \<or> key_before (av_key new) (av_key cur)
      then new # cur # c else cur # nonunique_walk new c)"

definition new_av_node :: "avtab \<Rightarrow> avtab_key \<Rightarrow> u32 \<Rightarrow> avtab_node" where
  "new_av_node h key datum = \<lparr>av_addr = av_next_addr h, av_key = key, av_data = datum\<rparr>"

text \<open>\<open>avtab_insert_node\<close>: allocate the node, link it into its chain (which the walk has
  prepared) and count it.\<close>

definition avtab_insert_node :: "avtab \<Rightarrow> avtab_node list list \<Rightarrow> nat \<Rightarrow> avtab_node list \<Rightarrow> avtab alloc_m" where
  "avtab_insert_node h t i c = bindE malloc (\<lambda>_.
     returnE (h\<lparr>av_htable := Some (t[i := c]), av_nel := av_nel h + 1, av_next_addr := av_next_addr h + 1\<rparr>))"

definition avtab_insert :: "avtab \<Rightarrow> avtab_key \<Rightarrow> u32 \<Rightarrow> avtab alloc_m" where
  "avtab_insert h key datum = (case av_htable h of
     None \<Rightarrow> throwE ENOMEM
   | Some t \<Rightarrow> bindE (liftE (av_bucket h t key)) (\<lambda>i.
       case insert_walk (new_av_node h key datum) (t ! i) of
         None \<Rightarrow> throwE EEXIST
       | Some c \<Rightarrow> avtab_insert_node h t i c))"

text \<open>The result is the table and the address of the new node; a null result is \<open>ENOMEM\<close>.\<close>

definition avtab_insert_nonunique :: "avtab \<Rightarrow> avtab_key \<Rightarrow> u32 \<Rightarrow> (avtab \<times> nat) alloc_m" where
  "avtab_insert_nonunique h key datum = (case av_htable h of
     None \<Rightarrow> throwE ENOMEM
   | Some t \<Rightarrow> bindE (liftE (av_bucket h t key)) (\<lambda>i.
       bindE (avtab_insert_node h t i (nonunique_walk (new_av_node h key datum) (t ! i)))
         (\<lambda>h'. returnE (h', av_next_addr h))))"

text \<open>A walk to the first matching node; the result is the chain from that node on, or empty.\<close>

fun search_walk :: "avtab_key \<Rightarrow> avtab_node list \<Rightarrow> avtab_node list" where
  "search_walk key [] = []"
| "search_walk key (cur # c) =
     (if spec_match key (av_key cur) then cur # c
      else if key_before key (av_key cur) then []
      else search_walk key c)"

definition avtab_search_node :: "avtab \<Rightarrow> avtab_key \<Rightarrow> avtab_node list res" where
  "avtab_search_node h key = (case av_htable h of
     None \<Rightarrow> Inr []
   | Some t \<Rightarrow> bindR (av_bucket h t key) (\<lambda>i. Inr (search_walk key (t ! i))))"

definition avtab_search :: "avtab \<Rightarrow> avtab_key \<Rightarrow> u32 option res" where
  "avtab_search h key = (case av_htable h of
     None \<Rightarrow> Inr None
   | Some t \<Rightarrow> bindR (av_bucket h t key) (\<lambda>i.
       Inr (case search_walk key (t ! i) of [] \<Rightarrow> None | n # _ \<Rightarrow> Some (av_data n))))"

definition avtab_search_node_next :: "avtab_node list \<Rightarrow> u16 \<Rightarrow> avtab_node list" where
  "avtab_search_node_next node spec = (case node of
     [] \<Rightarrow> []
   | n # c \<Rightarrow> search_walk ((av_key n)\<lparr>specified := spec\<rparr>) c)"

lemma search_walk_length: "length (search_walk key c) \<le> length c"
  by (induction c) auto

text \<open>The loop \<open>for (node = avtab_search_node(h, &key); node; node = avtab_search_node_next(node,
  key.specified))\<close>: the nodes it visits.\<close>

function node_loop :: "u16 \<Rightarrow> avtab_node list \<Rightarrow> avtab_node list" where
  "node_loop spec [] = []"
| "node_loop spec (n # c) = n # node_loop spec (avtab_search_node_next (n # c) spec)"
  by pat_completeness auto
termination
  by (relation "measure (length \<circ> snd)")
    (auto simp: avtab_search_node_next_def less_Suc_eq_le intro: search_walk_length)

definition avtab_each_node :: "avtab \<Rightarrow> avtab_key \<Rightarrow> avtab_node list res" where
  "avtab_each_node h key = bindR (avtab_search_node h key) (\<lambda>node. Inr (node_loop (specified key) node))"

text \<open>Assignment through a node pointer.\<close>

definition avtab_update_node :: "nat \<Rightarrow> (avtab_node \<Rightarrow> avtab_node) \<Rightarrow> avtab \<Rightarrow> avtab" where
  "avtab_update_node a f h = h\<lparr>av_htable :=
     map_option (map (map (\<lambda>n. if av_addr n = a then f n else n))) (av_htable h)\<rparr>"

definition avtab_destroy :: "avtab \<Rightarrow> avtab" where
  "avtab_destroy h = (case av_htable h of
     None \<Rightarrow> h | Some _ \<Rightarrow> h\<lparr>av_htable := None, av_nslot := 0, av_mask := 0\<rparr>)"

definition avtab_map :: "avtab \<Rightarrow> (avtab_key \<Rightarrow> u32 \<Rightarrow> 's \<Rightarrow> 's alloc_m) \<Rightarrow> 's \<Rightarrow> 's alloc_m" where
  "avtab_map h app args = foldE (\<lambda>i s.
     bindE (liftE (bindR (deref (av_htable h)) (\<lambda>t. array_get t i))) (\<lambda>c.
       foldE (\<lambda>n. app (av_key n) (av_data n)) c s)) [0..<unat (av_nslot h)] args"

definition avtab_init :: "avtab \<Rightarrow> avtab" where
  "avtab_init h = h\<lparr>av_htable := None, av_nel := 0\<rparr>"

function alloc_shift :: "u32 \<Rightarrow> nat \<Rightarrow> nat" where
  "alloc_shift work shift = (if work \<noteq> 0 then alloc_shift (drop_bit 1 work) (shift + 1) else shift)"
  by auto
termination
proof (relation "measure (unat \<circ> fst)")
  fix work :: u32 and shift :: nat
  assume "work \<noteq> 0"
  then have "unat (drop_bit 1 work) < unat work"
    by (simp add: drop_bit_eq_div unat_div unat_gt_0)
  then show "((drop_bit 1 work, shift + 1), work, shift) \<in> measure (unat \<circ> fst)" by simp
qed simp

declare alloc_shift.simps [simp del]

definition avtab_nslot :: "u32 \<Rightarrow> u32" where
  "avtab_nslot nrules = (let shift = alloc_shift nrules 0;
       shift = (if shift > 2 then shift - 2 else shift);
       nslot = push_bit shift 1 in
     if nslot > MAX_AVTAB_SIZE then MAX_AVTAB_SIZE else nslot)"

definition avtab_alloc :: "avtab \<Rightarrow> u32 \<Rightarrow> avtab alloc_m" where
  "avtab_alloc h nrules =
     (if nrules = 0 then returnE (h\<lparr>av_nel := 0, av_nslot := 0, av_mask := 0\<rparr>)
      else let nslot = avtab_nslot nrules in
        bindE (failE malloc STATUS_ERR) (\<lambda>_.
          returnE (h\<lparr>av_htable := Some (replicate (unat nslot) []), av_nel := 0, av_nslot := nslot,
                     av_mask := ucast (nslot - 1)\<rparr>)))"

definition avtab_hash_eval :: "avtab \<Rightarrow> (u32 \<times> nat \<times> u32 \<times> nat) res" where
  "avtab_hash_eval h = bindR
     (foldR (\<lambda>i (slots_used, max_chain_len). bindR (bindR (deref (av_htable h)) (\<lambda>t. array_get t i)) (\<lambda>c.
        if c \<noteq> [] then Inr (slots_used + 1, if length c > max_chain_len then length c else max_chain_len)
        else Inr (slots_used, max_chain_len)))
      [0..<unat (av_nslot h)] (0, 0))
     (\<lambda>(slots_used, max_chain_len). Inr (av_nel h, slots_used, av_nslot h, max_chain_len))"

section \<open>Reading and writing\<close>

definition spec_order :: "u16 list" where
  "spec_order = [AVTAB_ALLOWED, AVTAB_AUDITDENY, AVTAB_AUDITALLOW, AVTAB_TRANSITION, AVTAB_CHANGE, AVTAB_MEMBER]"

text \<open>A \<open>uint32_t\<close> of the file that has to fit in a \<open>uint16_t\<close>.\<close>

definition narrow16 :: "u32 \<Rightarrow> u16 res" where
  "narrow16 val = (if ucast (ucast val :: u16) \<noteq> val then Inl STATUS_ERR else Inr (ucast val))"

text \<open>The element \<open>i\<close> of a buffer of little-endian 32-bit integers; the elements beyond the bytes read
  are not initialised.\<close>

definition buf32_get :: "u8 list \<Rightarrow> nat \<Rightarrow> u32 res" where
  "buf32_get buf i = (if 4 * i + 4 \<le> length buf then Inr (get_le (take 4 (drop (4 * i) buf))) else Inl Fault)"

definition read_item_old ::
  "policy_file \<Rightarrow> ('s \<Rightarrow> avtab_key \<Rightarrow> u32 \<Rightarrow> 's alloc_m) \<Rightarrow> 's \<Rightarrow> ('s \<times> policy_file) alloc_m"
where
  "read_item_old fp insertf a =
     bindE (liftE (next_entry fp 4)) (\<lambda>(cnt, fp1).
       let items2 = get_le cnt :: u32 in
       if items2 < 5 \<or> items2 > 7 then throwE STATUS_ERR
       else bindE (liftE (next_entry fp1 (4 * unat items2))) (\<lambda>(buf, fp2).
         bindE (liftE (bindR (buf32_get buf 0) narrow16)) (\<lambda>src.
         bindE (liftE (bindR (buf32_get buf 1) narrow16)) (\<lambda>tgt.
         bindE (liftE (bindR (buf32_get buf 2) narrow16)) (\<lambda>cls.
         bindE (liftE (buf32_get buf 3)) (\<lambda>val.
           let enabled = (if val AND AVTAB_ENABLED_OLD \<noteq> 0 then AVTAB_ENABLED else 0);
               key = \<lparr>source_type = src, target_type = tgt, target_class = cls, specified = 0\<rparr> in
           if val AND ucast (AVTAB_AV OR AVTAB_TYPE) = 0 then throwE STATUS_ERR
           else if val AND ucast AVTAB_AV \<noteq> 0 \<and> val AND ucast AVTAB_TYPE \<noteq> 0 then throwE STATUS_ERR
           else bindE
             (foldE (\<lambda>sp (items, a).
                if val AND ucast sp \<noteq> 0 then
                  bindE (liftE (buf32_get buf items)) (\<lambda>d.
                    bindE (insertf a (key\<lparr>specified := sp OR enabled\<rparr>) d) (\<lambda>a'. returnE (items + 1, a')))
                else returnE (items, a)) spec_order (4, a))
             (\<lambda>(items, a'). if items \<noteq> unat items2 then throwE STATUS_ERR else returnE (a', fp2))))))))"

definition read_item_new ::
  "policy_file \<Rightarrow> ('s \<Rightarrow> avtab_key \<Rightarrow> u32 \<Rightarrow> 's alloc_m) \<Rightarrow> 's \<Rightarrow> ('s \<times> policy_file) alloc_m"
where
  "read_item_new fp insertf a =
     bindE (liftE (next_entry fp 8)) (\<lambda>(buf, fp1).
       let key = \<lparr>source_type = get_le (take 2 buf), target_type = get_le (take 2 (drop 2 buf)),
                  target_class = get_le (take 2 (drop 4 buf)), specified = get_le (drop 6 buf)\<rparr>;
           set = length (filter (\<lambda>sp. specified key AND sp \<noteq> 0) spec_order) in
       if set \<noteq> 1 then throwE STATUS_ERR
       else bindE (liftE (next_entry fp1 4)) (\<lambda>(buf2, fp2).
         bindE (insertf a key (get_le buf2)) (\<lambda>a'. returnE (a', fp2))))"

definition avtab_read_item ::
  "policy_file \<Rightarrow> u32 \<Rightarrow> ('s \<Rightarrow> avtab_key \<Rightarrow> u32 \<Rightarrow> 's alloc_m) \<Rightarrow> 's \<Rightarrow> ('s \<times> policy_file) alloc_m"
where
  "avtab_read_item fp vers insertf a =
     (if vers < POLICYDB_VERSION_AVTAB then read_item_old fp insertf a else read_item_new fp insertf a)"

definition avtab_insertf :: "avtab \<Rightarrow> avtab_key \<Rightarrow> u32 \<Rightarrow> avtab alloc_m" where
  "avtab_insertf a k d = avtab_insert a k d"

fun avtab_read_items :: "nat \<Rightarrow> u32 \<Rightarrow> avtab \<Rightarrow> policy_file \<Rightarrow> (avtab \<times> policy_file) alloc_m" where
  "avtab_read_items 0 vers a fp = returnE (a, fp)"
| "avtab_read_items (Suc n) vers a fp =
     bindE (avtab_read_item fp vers avtab_insertf a) (\<lambda>(a', fp'). avtab_read_items n vers a' fp')"

definition avtab_read :: "avtab \<Rightarrow> policy_file \<Rightarrow> u32 \<Rightarrow> (avtab \<times> policy_file) alloc_m" where
  "avtab_read a fp vers = failE
     (bindE (liftE (next_entry fp 4)) (\<lambda>(buf, fp1).
        let nel = get_le buf :: u32 in
        if nel = 0 then throwE STATUS_ERR
        else bindE (avtab_alloc a nel) (\<lambda>a1. avtab_read_items (unat nel) vers a1 fp1)))
     STATUS_ERR"

text \<open>The new format: one item for each node.\<close>

definition avtab_write_item :: "avtab_node \<Rightarrow> policy_file \<Rightarrow> policy_file res" where
  "avtab_write_item cur fp =
     (let k = av_key cur;
          (items, fp1) = put_entry (put_le 2 (source_type k) @ put_le 2 (target_type k)
             @ put_le 2 (target_class k) @ put_le 2 (specified k)) 2 4 fp in
      if items \<noteq> 4 then Inl STATUS_ERR
      else let (items2, fp2) = put_entry (put_le 4 (av_data cur)) 4 1 fp1 in
        if items2 \<noteq> 1 then Inl STATUS_ERR else Inr fp2)"

definition avtab_write :: "avtab \<Rightarrow> policy_file \<Rightarrow> policy_file res" where
  "avtab_write a fp =
     (let (items, fp1) = put_entry (put_le 4 (av_nel a)) 4 1 fp in
      if items \<noteq> 1 then Inl STATUS_ERR
      else foldR (\<lambda>i fp. bindR (bindR (deref (av_htable a)) (\<lambda>t. array_get t i)) (\<lambda>c.
             foldR avtab_write_item c fp)) [0..<unat (av_nslot a)] fp1)"

section \<open>The order of a chain\<close>

definition key_rank :: "avtab_key \<Rightarrow> nat" where
  "key_rank k = unat (source_type k) * 4294967296 + unat (target_type k) * 65536 + unat (target_class k)"

lemma lex_rank:
  fixes a b c a' b' c' :: nat
  assumes "b < 65536" "c < 65536" "b' < 65536" "c' < 65536"
  shows "a * 4294967296 + b * 65536 + c < a' * 4294967296 + b' * 65536 + c'
      \<longleftrightarrow> a < a' \<or> a = a' \<and> b < b' \<or> a = a' \<and> b = b' \<and> c < c'"
    and "a * 4294967296 + b * 65536 + c = a' * 4294967296 + b' * 65536 + c' \<longleftrightarrow> a = a' \<and> b = b' \<and> c = c'"
proof -
  consider "a < a'" | "a' < a" | "a = a'" by linarith
  then show "a * 4294967296 + b * 65536 + c < a' * 4294967296 + b' * 65536 + c'
      \<longleftrightarrow> a < a' \<or> a = a' \<and> b < b' \<or> a = a' \<and> b = b' \<and> c < c'"
    by cases (use assms in linarith)+
  consider "a < a'" | "a' < a" | "a = a'" "b < b'" | "a = a'" "b' < b" | "a = a'" "b = b'" by linarith
  then show "a * 4294967296 + b * 65536 + c = a' * 4294967296 + b' * 65536 + c' \<longleftrightarrow> a = a' \<and> b = b' \<and> c = c'"
    by cases (use assms in linarith)+
qed

lemma key_rank_less: "key_before k c \<longleftrightarrow> key_rank k < key_rank c"
  unfolding key_before_def key_rank_def
  by (subst lex_rank(1)) (simp_all add: unat_u16_lt word_less_nat_alt word_unat_eq_iff)

lemma key_rank_eq: "key_same k c \<longleftrightarrow> key_rank k = key_rank c"
  unfolding key_same_def key_rank_def
  by (subst lex_rank(2)) (simp_all add: unat_u16_lt word_unat_eq_iff)

definition av_sorted :: "avtab_node list \<Rightarrow> bool" where
  "av_sorted c \<longleftrightarrow> sorted_wrt (\<lambda>x y. key_rank (av_key x) \<le> key_rank (av_key y)) c"

lemma av_sorted_simps [simp]:
  "av_sorted []"
  "av_sorted (n # c) \<longleftrightarrow> (\<forall>m \<in> set c. key_rank (av_key n) \<le> key_rank (av_key m)) \<and> av_sorted c"
  by (simp_all add: av_sorted_def)

text \<open>The observation that the table operations are specified by: the nodes with a given source,
  target and class, in chain order.\<close>

definition nodes_at :: "avtab_key \<Rightarrow> avtab_node list \<Rightarrow> avtab_node list" where
  "nodes_at k c = filter (\<lambda>n. key_same k (av_key n)) c"

lemma nodes_at_simps [simp]:
  "nodes_at k [] = []"
  "nodes_at k (n # c) = (if key_same k (av_key n) then n # nodes_at k c else nodes_at k c)"
  "nodes_at k (c @ c') = nodes_at k c @ nodes_at k c'"
  by (simp_all add: nodes_at_def)

lemma spec_match_same: "spec_match k c \<Longrightarrow> key_same k c"
  by (simp add: spec_match_def)

lemma search_walk_cong:
  assumes "key_same k k'" and "specified k = specified k'"
  shows "search_walk k c = search_walk k' c"
proof -
  have "spec_match k = spec_match k'" "key_before k = key_before k'"
    using assms by (auto simp: fun_eq_iff spec_match_def key_rank_eq key_rank_less)
  then show ?thesis by (induction c) auto
qed

lemma search_walk_filter:
  "av_sorted c \<Longrightarrow> node_loop (specified key) (search_walk key c) = filter (\<lambda>n. spec_match key (av_key n)) c"
proof (induction c)
  case (Cons n c)
  consider (hit) "spec_match key (av_key n)" | (stop) "\<not> spec_match key (av_key n)" "key_before key (av_key n)"
    | (on) "\<not> spec_match key (av_key n)" "\<not> key_before key (av_key n)" by blast
  then show ?case
  proof cases
    case hit
    then have "search_walk ((av_key n)\<lparr>specified := specified key\<rparr>) c = search_walk key c"
      by (intro search_walk_cong) (auto simp: spec_match_def key_same_def)
    with hit Cons show ?thesis by (simp add: avtab_search_node_next_def)
  next
    case stop
    then have "\<forall>m \<in> set (n # c). \<not> spec_match key (av_key m)"
      using Cons.prems by (fastforce simp: key_rank_less key_rank_eq dest: spec_match_same)
    with stop show ?thesis by simp
  next
    case on
    with Cons show ?thesis by simp
  qed
qed simp

lemma search_walk_hd: "search_walk key c = n # c' \<Longrightarrow> node_loop spec (search_walk key c) = n # node_loop spec (avtab_search_node_next (n # c') spec)"
  by simp

lemma insert_walk_spec:
  assumes "av_sorted c"
  shows "case insert_walk new c of
      None \<Rightarrow> \<exists>n \<in> set c. spec_match (av_key new) (av_key n)
    | Some c' \<Rightarrow> (\<forall>n \<in> set c. \<not> spec_match (av_key new) (av_key n)) \<and> av_sorted c'
        \<and> (\<exists>xs ys. c = xs @ ys \<and> c' = xs @ new # ys \<and> (\<forall>y \<in> set ys. key_before (av_key new) (av_key y)))"
  using assms
proof (induction c)
  case (Cons n c)
  consider (hit) "spec_match (av_key new) (av_key n)"
    | (here) "\<not> spec_match (av_key new) (av_key n)" "key_before (av_key new) (av_key n)"
    | (on) "\<not> spec_match (av_key new) (av_key n)" "\<not> key_before (av_key new) (av_key n)" by blast
  then show ?case
  proof cases
    case hit
    then show ?thesis by simp
  next
    case here
    then have after: "\<forall>m \<in> set (n # c). key_before (av_key new) (av_key m)"
      using Cons.prems by (fastforce simp: key_rank_less)
    then have "\<forall>m \<in> set (n # c). \<not> spec_match (av_key new) (av_key m)"
      by (auto simp: key_rank_less key_rank_eq spec_match_def)
    moreover have "av_sorted (new # n # c)" using after Cons.prems by (auto simp: key_rank_less less_imp_le)
    moreover have "n # c = [] @ n # c" "new # n # c = [] @ new # n # c" by simp_all
    ultimately show ?thesis using here after by (simp only: insert_walk.simps if_False if_True option.case) blast
  next
    case on
    show ?thesis
    proof (cases "insert_walk new c")
      case None
      with on Cons show ?thesis by simp
    next
      case (Some c')
      with Cons obtain xs ys where
        r: "\<forall>n \<in> set c. \<not> spec_match (av_key new) (av_key n)" "av_sorted c'" "c = xs @ ys" "c' = xs @ new # ys"
        "\<forall>y \<in> set ys. key_before (av_key new) (av_key y)" by auto
      have "av_sorted (n # c')" using Cons.prems on r by (auto simp: key_rank_less)
      with on r Some show ?thesis
        by (simp del: av_sorted_simps) (intro exI [of _ "n # xs"] exI [of _ ys], simp)
    qed
  qed
qed simp

lemma nodes_at_after: "\<forall>y \<in> set ys. key_before k (av_key y) \<Longrightarrow> nodes_at k ys = []"
  by (auto simp: nodes_at_def filter_empty_conv key_rank_less key_rank_eq)

lemma nodes_at_insert:
  assumes "\<forall>y \<in> set ys. key_before (av_key new) (av_key y)"
  shows "nodes_at k (xs @ new # ys)
     = (if key_same k (av_key new) then nodes_at k (xs @ ys) @ [new] else nodes_at k (xs @ ys))"
proof (cases "key_same k (av_key new)")
  case True
  then have "\<forall>y \<in> set ys. key_before k (av_key y)" using assms by (simp add: key_rank_less key_rank_eq)
  then have "nodes_at k ys = []" by (rule nodes_at_after)
  with True show ?thesis by simp
qed simp

lemma nonunique_walk_spec:
  assumes "av_sorted c"
  shows "av_sorted (nonunique_walk new c) \<and> (\<exists>xs ys. c = xs @ ys \<and> nonunique_walk new c = xs @ new # ys)"
  using assms
proof (induction c)
  case (Cons n c)
  consider (hit) "spec_match (av_key new) (av_key n)"
    | (here) "\<not> spec_match (av_key new) (av_key n)" "key_before (av_key new) (av_key n)"
    | (on) "\<not> spec_match (av_key new) (av_key n)" "\<not> key_before (av_key new) (av_key n)" by blast
  then show ?case
  proof cases
    case hit
    then have "key_rank (av_key new) = key_rank (av_key n)" by (auto simp: spec_match_def key_rank_eq)
    with hit Cons.prems show ?thesis by (intro conjI exI [of _ "[]"] exI [of _ "n # c"]) auto
  next
    case here
    with Cons.prems have "av_sorted (new # n # c)" by (fastforce simp: key_rank_less)
    with here show ?thesis by (intro conjI exI [of _ "[]"] exI [of _ "n # c"]) auto
  next
    case on
    from Cons obtain xs ys where
      r: "av_sorted (nonunique_walk new c)" "c = xs @ ys" "nonunique_walk new c = xs @ new # ys" by auto
    have "av_sorted (n # nonunique_walk new c)" using Cons.prems on r by (auto simp: key_rank_less)
    with on r show ?thesis
      by (simp del: av_sorted_simps) (intro exI [of _ "n # xs"] exI [of _ ys], simp)
  qed
qed simp

section \<open>Invariant\<close>

definition av_entries :: "avtab \<Rightarrow> avtab_node list" where
  "av_entries h = (case av_htable h of None \<Rightarrow> [] | Some t \<Rightarrow> concat t)"

definition avtab_ok :: "avtab \<Rightarrow> bool" where
  "avtab_ok h \<longleftrightarrow> (\<exists>t. av_htable h = Some t \<and> length t = unat (av_nslot h) \<and> av_nslot h \<noteq> 0
     \<and> av_nslot h \<le> MAX_AVTAB_SIZE \<and> av_mask h = ucast (av_nslot h - 1)
     \<and> (\<forall>i < length t. av_sorted (t ! i) \<and> (\<forall>n \<in> set (t ! i). avtab_hash (av_key n) (av_mask h) = i))
     \<and> av_nel h = of_nat (length (concat t))
     \<and> distinct (map av_addr (concat t)) \<and> (\<forall>n \<in> set (concat t). av_addr n < av_next_addr h))"

text \<open>At most one node for each key and kind of rule: what \<open>avtab_insert\<close> maintains in the
  unconditional table.\<close>

definition av_unique :: "avtab \<Rightarrow> bool" where
  "av_unique h \<longleftrightarrow> (\<forall>k. sorted_wrt (\<lambda>old new. \<not> spec_match new old) (map av_key (nodes_at k (av_entries h))))"

lemma avtab_hash_less:
  assumes "n \<noteq> 0" and "n \<le> 8192"
  shows "avtab_hash key (ucast (n - 1 :: u32)) < unat n"
proof -
  have "unat (n - 1) < unat n" using assms(1) by (simp add: unat_minus_one unat_gt_0)
  moreover from this assms(2) have "unat (n - 1) < 65536" by (simp add: word_le_nat_alt)
  then have "(ucast (ucast (n - 1) :: u16) :: u32) = n - 1" by (rule ucast_u16_u32)
  moreover have "unat (w AND (n - 1)) \<le> unat (n - 1)" for w
    using word_and_le1 [of w "n - 1"] by (simp add: word_le_nat_alt)
  ultimately show ?thesis unfolding avtab_hash_def by (simp only:) (rule le_less_trans)
qed

lemma avtab_okE:
  assumes "avtab_ok h"
  obtains t where "av_htable h = Some t" "length t = unat (av_nslot h)"
    "\<And>k. avtab_hash k (av_mask h) < length t"
    "\<And>k. av_bucket h t k = Inr (avtab_hash k (av_mask h))"
    "\<And>i. i < length t \<Longrightarrow> av_sorted (t ! i)"
    "\<And>i n. i < length t \<Longrightarrow> n \<in> set (t ! i) \<Longrightarrow> avtab_hash (av_key n) (av_mask h) = i"
    "av_nel h = of_nat (length (concat t))" "distinct (map av_addr (concat t))"
    "\<And>n. n \<in> set (concat t) \<Longrightarrow> av_addr n < av_next_addr h" "av_entries h = concat t"
proof -
  from assms obtain t where t: "av_htable h = Some t" "length t = unat (av_nslot h)" "av_nslot h \<noteq> 0"
     "av_nslot h \<le> MAX_AVTAB_SIZE" "av_mask h = ucast (av_nslot h - 1)"
     "\<forall>i < length t. av_sorted (t ! i) \<and> (\<forall>n \<in> set (t ! i). avtab_hash (av_key n) (av_mask h) = i)"
     "av_nel h = of_nat (length (concat t))" "distinct (map av_addr (concat t))"
     "\<forall>n \<in> set (concat t). av_addr n < av_next_addr h" unfolding avtab_ok_def by blast
  have "avtab_hash k (av_mask h) < length t" for k using avtab_hash_less [OF t(3,4)] t(2,5) by simp
  moreover from this have "av_bucket h t k = Inr (avtab_hash k (av_mask h))" for k by (simp add: av_bucket_def Let_def)
  ultimately show ?thesis using t by (intro that [of t]) (auto simp: av_entries_def)
qed

lemma nodes_at_concat:
  assumes "i < length t" and "\<And>j n. j < length t \<Longrightarrow> n \<in> set (t ! j) \<Longrightarrow> key_same k (av_key n) \<Longrightarrow> j = i"
  shows "nodes_at k (concat t) = nodes_at k (t ! i)"
proof -
  have none: "nodes_at k (concat u) = []" if "\<And>c. c \<in> set u \<Longrightarrow> \<exists>j < length t. j \<noteq> i \<and> t ! j = c" for u
    using that assms(2) by (fastforce simp: nodes_at_def filter_empty_conv)
  have "t = take i t @ t ! i # drop (Suc i) t" using assms(1) by (rule id_take_nth_drop)
  then have "nodes_at k (concat t) = nodes_at k (concat (take i t)) @ nodes_at k (t ! i) @ nodes_at k (concat (drop (Suc i) t))"
    by (metis concat.simps(2) concat_append nodes_at_simps(3))
  moreover have "nodes_at k (concat (take i t)) = []"
  proof (rule none)
    fix c assume "c \<in> set (take i t)"
    then obtain j where "j < i" "c = t ! j" using assms(1) by (auto simp: in_set_conv_nth)
    with assms(1) show "\<exists>j < length t. j \<noteq> i \<and> t ! j = c" by (intro exI [of _ j]) simp
  qed
  moreover have "nodes_at k (concat (drop (Suc i) t)) = []"
  proof (rule none)
    fix c assume "c \<in> set (drop (Suc i) t)"
    then obtain j where "j < length t - Suc i" "c = t ! (Suc i + j)" by (auto simp: in_set_conv_nth)
    then have "Suc i + j < length t" "c = t ! (Suc i + j)" by simp_all
    then show "\<exists>j < length t. j \<noteq> i \<and> t ! j = c" by (intro exI [of _ "Suc i + j"]) simp
  qed
  ultimately show ?thesis by simp
qed

lemma avtab_hash_same: "key_same k c \<Longrightarrow> avtab_hash k m = avtab_hash c m"
  by (simp add: key_same_def avtab_hash_def)

lemma nodes_at_bucket:
  assumes "avtab_ok h" and "av_htable h = Some t"
  shows "nodes_at k (av_entries h) = nodes_at k (t ! avtab_hash k (av_mask h))"
proof -
  from assms obtain "\<And>k. avtab_hash k (av_mask h) < length t" "av_entries h = concat t"
    "\<And>i n. i < length t \<Longrightarrow> n \<in> set (t ! i) \<Longrightarrow> avtab_hash (av_key n) (av_mask h) = i"
    by (auto elim!: avtab_okE)
  then show ?thesis using avtab_hash_same [of k] by (metis nodes_at_concat)
qed

lemma filter_spec_nodes_at: "filter (\<lambda>n. spec_match k (av_key n)) c = filter (\<lambda>n. spec_match k (av_key n)) (nodes_at k c)"
  by (induction c) (auto simp: spec_match_def)

text \<open>The walk over a bucket visits exactly the nodes of the table that match the key.\<close>

lemma avtab_each_node_filter:
  assumes "avtab_ok h"
  shows "avtab_each_node h key = Inr (filter (\<lambda>n. spec_match key (av_key n)) (av_entries h))"
proof -
  from assms obtain t where t: "av_htable h = Some t" "\<And>k. avtab_hash k (av_mask h) < length t"
    "\<And>k. av_bucket h t k = Inr (avtab_hash k (av_mask h))" "\<And>i. i < length t \<Longrightarrow> av_sorted (t ! i)"
    by (auto elim!: avtab_okE)
  let ?c = "t ! avtab_hash key (av_mask h)"
  have "avtab_each_node h key = Inr (filter (\<lambda>n. spec_match key (av_key n)) ?c)"
    using t by (simp add: avtab_each_node_def avtab_search_node_def search_walk_filter)
  then show ?thesis
    using nodes_at_bucket [OF assms t(1), of key] filter_spec_nodes_at [of key ?c] filter_spec_nodes_at [of key "av_entries h"]
    by simp
qed

lemma avtab_search_first:
  assumes "avtab_ok h"
  shows "avtab_search h key = Inr (map_option av_data (find (\<lambda>n. spec_match key (av_key n)) (av_entries h)))"
proof -
  from assms obtain t where t: "av_htable h = Some t"
    "\<And>k. av_bucket h t k = Inr (avtab_hash k (av_mask h))" by (auto elim!: avtab_okE)
  let ?w = "search_walk key (t ! avtab_hash key (av_mask h))"
  have "node_loop (specified key) ?w = filter (\<lambda>n. spec_match key (av_key n)) (av_entries h)"
    using avtab_each_node_filter [OF assms, of key] t by (simp add: avtab_each_node_def avtab_search_node_def)
  then have "(case ?w of [] \<Rightarrow> None | n # _ \<Rightarrow> Some n) = find (\<lambda>n. spec_match key (av_key n)) (av_entries h)"
    unfolding find_filter by (cases ?w) (auto split: list.split)
  then show ?thesis using t by (cases ?w) (auto simp: avtab_search_def dest: sym)
qed

section \<open>Insertion\<close>

lemma concat_upd:
  assumes "i < length t" and "t ! i = xs @ ys"
  shows "\<exists>us vs. concat t = us @ vs \<and> concat (t[i := xs @ n # ys]) = us @ n # vs
     \<and> us = concat (take i t) @ xs \<and> vs = ys @ concat (drop (Suc i) t)"
proof -
  have "concat t = concat (take i t) @ t ! i @ concat (drop (Suc i) t)"
    using id_take_nth_drop [OF assms(1)] by (metis concat.simps(2) concat_append)
  with assms show ?thesis by (simp add: upd_conv_take_nth_drop)
qed

lemma avtab_ok_link:
  assumes "avtab_ok h" and "av_htable h = Some t" and "i = avtab_hash key (av_mask h)"
    and "t ! i = xs @ ys" and "new = new_av_node h key d" and "av_sorted (xs @ new # ys)"
    and "h' = h\<lparr>av_htable := Some (t[i := xs @ new # ys]), av_nel := av_nel h + 1, av_next_addr := av_next_addr h + 1\<rparr>"
  shows "avtab_ok h'" and "\<exists>us vs. av_entries h = us @ vs \<and> av_entries h' = us @ new # vs"
proof -
  from assms(1) obtain t' where t': "av_htable h = Some t'" "length t' = unat (av_nslot h)"
    "\<And>k. avtab_hash k (av_mask h) < length t'" "\<And>i. i < length t' \<Longrightarrow> av_sorted (t' ! i)"
    "\<And>i n. i < length t' \<Longrightarrow> n \<in> set (t' ! i) \<Longrightarrow> avtab_hash (av_key n) (av_mask h) = i"
    "av_nel h = of_nat (length (concat t'))" "distinct (map av_addr (concat t'))"
    "\<And>n. n \<in> set (concat t') \<Longrightarrow> av_addr n < av_next_addr h" by (rule avtab_okE) blast
  have [simp]: "t' = t" using t'(1) assms(2) by simp
  have i: "i < length t" using t'(3) assms(3) by simp
  from concat_upd [OF i assms(4), of new] obtain us vs where
    uv: "concat t = us @ vs" "concat (t[i := xs @ new # ys]) = us @ new # vs" by blast
  then show "\<exists>us vs. av_entries h = us @ vs \<and> av_entries h' = us @ new # vs"
    using assms(2,7) by (auto simp: av_entries_def)
  have addr: "av_addr new = av_next_addr h" "avtab_hash (av_key new) (av_mask h) = i"
    using assms(3,5) by (simp_all add: new_av_node_def)
  have "\<forall>n \<in> set (us @ vs). av_addr n < av_next_addr h" using t'(8) uv(1) by auto
  then have "distinct (map av_addr (us @ new # vs))" "\<forall>n \<in> set (us @ new # vs). av_addr n < Suc (av_next_addr h)"
    using t'(7) addr uv(1) by (auto simp: less_Suc_eq)
  moreover have "\<forall>j < length t. av_sorted (t[i := xs @ new # ys] ! j)
      \<and> (\<forall>n \<in> set (t[i := xs @ new # ys] ! j). avtab_hash (av_key n) (av_mask h) = j)"
  proof (intro allI impI)
    fix j assume j: "j < length t"
    show "av_sorted (t[i := xs @ new # ys] ! j)
      \<and> (\<forall>n \<in> set (t[i := xs @ new # ys] ! j). avtab_hash (av_key n) (av_mask h) = j)"
    proof (cases "j = i")
      case True
      have "\<forall>n \<in> set (xs @ ys). avtab_hash (av_key n) (av_mask h) = i" using t'(5) [of i] i assms(4) by simp
      with True assms(6) addr i show ?thesis by auto
    next
      case False
      with t'(4,5) j show ?thesis by simp
    qed
  qed
  moreover have "av_nel h + 1 = of_nat (length (us @ new # vs))" using t'(6) uv(1) by simp
  moreover have "av_nslot h \<noteq> 0" "av_nslot h \<le> MAX_AVTAB_SIZE" "av_mask h = ucast (av_nslot h - 1)"
    using assms(1) by (auto simp: avtab_ok_def)
  ultimately show "avtab_ok h'" using assms(7) t'(2) unfolding avtab_ok_def
    by (intro exI [of _ "t[i := xs @ new # ys]"]) (simp add: uv(2) del: set_concat)
qed

lemma avtab_insert_new:
  assumes ok: "avtab_ok h" and fresh: "\<forall>n \<in> set (av_entries h). \<not> spec_match key (av_key n)"
  shows "\<exists>h'. yields (avtab_insert h key d) (Inr h') \<and> avtab_ok h'
     \<and> (\<forall>k. nodes_at k (av_entries h')
          = nodes_at k (av_entries h) @ (if key_same k key then [new_av_node h key d] else []))
     \<and> av_nslot h' = av_nslot h \<and> length (av_entries h') = Suc (length (av_entries h))"
proof -
  from ok obtain t where t: "av_htable h = Some t" "\<And>k. avtab_hash k (av_mask h) < length t"
    "\<And>k. av_bucket h t k = Inr (avtab_hash k (av_mask h))" "\<And>i. i < length t \<Longrightarrow> av_sorted (t ! i)"
    "av_entries h = concat t" by (rule avtab_okE) blast
  let ?i = "avtab_hash key (av_mask h)"
  let ?new = "new_av_node h key d"
  have k: "av_key ?new = key" by (simp add: new_av_node_def)
  have "\<forall>n \<in> set (t ! ?i). \<not> spec_match key (av_key n)" using fresh t(2) [of key] by (auto simp: t(5))
  with insert_walk_spec [OF t(4) [OF t(2) [of key]], of ?new] obtain xs ys where
    w: "insert_walk ?new (t ! ?i) = Some (xs @ ?new # ys)" "av_sorted (xs @ ?new # ys)" "t ! ?i = xs @ ys"
    "\<forall>y \<in> set ys. key_before key (av_key y)" by (auto simp: k split: option.splits)
  define h' where "h' = h\<lparr>av_htable := Some (t[?i := xs @ ?new # ys]), av_nel := av_nel h + 1,
    av_next_addr := av_next_addr h + 1\<rparr>"
  note link = avtab_ok_link [OF ok t(1) refl w(3) refl w(2) h'_def]
  have y: "yields (avtab_insert h key d) (Inr h')"
    by (simp add: avtab_insert_def t(1,3) w(1) avtab_insert_node_def h'_def)
  have at: "nodes_at q (av_entries h') = nodes_at q (av_entries h) @ (if key_same q key then [?new] else [])" for q
  proof -
    have ts: "(t[?i := xs @ ?new # ys]) ! avtab_hash q (av_mask h)
        = (if avtab_hash q (av_mask h) = ?i then xs @ ?new # ys else t ! avtab_hash q (av_mask h))"
      using t(2) by (simp add: nth_list_update)
    have "av_mask h' = av_mask h" "av_htable h' = Some (t[?i := xs @ ?new # ys])" by (simp_all add: h'_def)
    then have "nodes_at q (av_entries h') = nodes_at q ((t[?i := xs @ ?new # ys]) ! avtab_hash q (av_mask h))"
      using nodes_at_bucket [OF link(1)] by metis
    also have "\<dots> = nodes_at q (t ! avtab_hash q (av_mask h)) @ (if key_same q key then [?new] else [])"
      using nodes_at_insert [of ys ?new q xs] w(3,4) avtab_hash_same [of q key] by (auto simp: ts k)
    finally show ?thesis using nodes_at_bucket [OF ok t(1)] by simp
  qed
  from link(2) have "length (av_entries h') = Suc (length (av_entries h))" by auto
  moreover have "av_nslot h' = av_nslot h" by (simp add: h'_def)
  ultimately show ?thesis using y link(1) at by blast
qed

lemma avtab_insert_dup:
  assumes ok: "avtab_ok h" and "\<exists>n \<in> set (av_entries h). spec_match key (av_key n)"
  shows "avtab_insert h key d = throwE EEXIST"
proof -
  from ok obtain t where t: "av_htable h = Some t" "\<And>k. avtab_hash k (av_mask h) < length t"
    "\<And>k. av_bucket h t k = Inr (avtab_hash k (av_mask h))" "\<And>i. i < length t \<Longrightarrow> av_sorted (t ! i)"
    by (rule avtab_okE) blast
  let ?i = "avtab_hash key (av_mask h)"
  from assms(2) have "filter (\<lambda>n. spec_match key (av_key n)) (av_entries h) \<noteq> []" by (auto simp: filter_empty_conv)
  then have "filter (\<lambda>n. spec_match key (av_key n)) (t ! ?i) \<noteq> []"
    using nodes_at_bucket [OF ok t(1), of key] filter_spec_nodes_at [of key] by metis
  then have "\<exists>n \<in> set (t ! ?i). spec_match (av_key (new_av_node h key d)) (av_key n)"
    by (auto simp: filter_empty_conv new_av_node_def)
  then have "insert_walk (new_av_node h key d) (t ! ?i) = None"
    using insert_walk_spec [OF t(4) [OF t(2) [of key]], of "new_av_node h key d"] by (auto split: option.splits)
  then show ?thesis by (simp add: avtab_insert_def t(1,3))
qed

lemma avtab_insert_nonunique_ok:
  assumes ok: "avtab_ok h"
  shows "\<exists>h' us vs. yields (avtab_insert_nonunique h key d) (Inr (h', av_next_addr h)) \<and> avtab_ok h'
     \<and> av_entries h = us @ vs \<and> av_entries h' = us @ new_av_node h key d # vs
     \<and> av_next_addr h' = Suc (av_next_addr h)"
proof -
  from ok obtain t where t: "av_htable h = Some t" "\<And>k. avtab_hash k (av_mask h) < length t"
    "\<And>k. av_bucket h t k = Inr (avtab_hash k (av_mask h))" "\<And>i. i < length t \<Longrightarrow> av_sorted (t ! i)"
    by (rule avtab_okE) blast
  let ?i = "avtab_hash key (av_mask h)"
  let ?new = "new_av_node h key d"
  from nonunique_walk_spec [OF t(4) [OF t(2) [of key]], of ?new] obtain xs ys where
    w: "t ! ?i = xs @ ys" "nonunique_walk ?new (t ! ?i) = xs @ ?new # ys" "av_sorted (xs @ ?new # ys)" by auto
  define h' where "h' = h\<lparr>av_htable := Some (t[?i := xs @ ?new # ys]), av_nel := av_nel h + 1,
    av_next_addr := av_next_addr h + 1\<rparr>"
  have "yields (avtab_insert_node h t ?i (nonunique_walk ?new (t ! ?i))) (Inr h')"
    by (simp add: avtab_insert_node_def h'_def w(2))
  then have "yields (avtab_insert_nonunique h key d) (Inr (h', av_next_addr h))"
    by (simp add: avtab_insert_nonunique_def t(1,3) yields_bindE_Inr)
  moreover have "av_next_addr h' = Suc (av_next_addr h)" by (simp add: h'_def)
  ultimately show ?thesis using avtab_ok_link [OF ok t(1) refl w(1) refl w(3) h'_def] by blast
qed

lemma av_unique_insert:
  assumes "av_unique h" and "\<forall>n \<in> set (av_entries h). \<not> spec_match key (av_key n)"
    and "\<And>k. nodes_at k (av_entries h')
          = nodes_at k (av_entries h) @ (if key_same k key then [new_av_node h key d] else [])"
  shows "av_unique h'"
  using assms by (auto simp: av_unique_def sorted_wrt_append nodes_at_def new_av_node_def)

section \<open>Allocation\<close>

lemma alloc_shift_le: "unat w < 2 ^ k \<Longrightarrow> alloc_shift w s \<le> s + k"
proof (induction k arbitrary: w s)
  case 0
  then have "w = 0" by (simp add: unat_eq_0)
  then show ?case by (simp add: alloc_shift.simps)
next
  case (Suc k)
  have "unat (drop_bit 1 w) < 2 ^ k" using Suc.prems by (simp add: drop_bit_eq_div unat_div)
  from Suc.IH [OF this, of "Suc s"] show ?case by (subst alloc_shift.simps) simp
qed

lemma avtab_nslot_ok: "avtab_nslot nrules \<noteq> 0" "avtab_nslot nrules \<le> MAX_AVTAB_SIZE"
proof -
  show "avtab_nslot nrules \<le> MAX_AVTAB_SIZE" by (auto simp: avtab_nslot_def Let_def not_less)
  have "alloc_shift nrules 0 \<le> 32" using alloc_shift_le [of nrules 32 0] unat_u32_lt [of nrules] by simp
  then have "(if alloc_shift nrules 0 > 2 then alloc_shift nrules 0 - 2 else alloc_shift nrules 0) < 32" by auto
  moreover have "(push_bit k 1 :: u32) \<noteq> 0" if "k < 32" for k
    using that by (auto simp: bit_eq_iff bit_simps simp del: push_bit_of_1)
  ultimately show "avtab_nslot nrules \<noteq> 0" by (simp add: avtab_nslot_def Let_def del: push_bit_of_1)
qed

lemma avtab_alloc_ok:
  assumes "nrules \<noteq> 0"
  shows "\<exists>h'. avtab_alloc h nrules [] = (Inr h', []) \<and> avtab_ok h' \<and> av_entries h' = []"
proof -
  let ?n = "avtab_nslot nrules"
  let ?h = "h\<lparr>av_htable := Some (replicate (unat ?n) []), av_nel := 0, av_nslot := ?n, av_mask := ucast (?n - 1)\<rparr>"
  have "avtab_alloc h nrules [] = (Inr ?h, [])"
    using assms by (simp add: avtab_alloc_def Let_def bindE_def returnE_def)
  moreover have "avtab_ok ?h" using avtab_nslot_ok [of nrules] by (simp add: avtab_ok_def)
  moreover have "av_entries ?h = []" by (simp add: av_entries_def)
  ultimately show ?thesis by blast
qed

section \<open>The new file format\<close>

definition av_view :: "avtab_node \<Rightarrow> avtab_key \<times> u32" where
  "av_view n = (av_key n, av_data n)"

definition av_image :: "avtab_node \<Rightarrow> u8 list" where
  "av_image n = (put_le 2 (source_type (av_key n)) @ put_le 2 (target_type (av_key n))
     @ put_le 2 (target_class (av_key n)) @ put_le 2 (specified (av_key n))) @ put_le 4 (av_data n)"

text \<open>The reader accepts exactly one kind of rule in a node.\<close>

definition spec_single :: "avtab_key \<Rightarrow> bool" where
  "spec_single k \<longleftrightarrow> length (filter (\<lambda>sp. specified k AND sp \<noteq> 0) spec_order) = 1"

lemma avtab_write_item_image:
  assumes "pf_room fp (12 + k)"
  shows "\<exists>fp'. avtab_write_item n fp = Inr fp' \<and> pf_room fp' k \<and> pf_out fp' = pf_out fp @ av_image n"
proof -
  let ?b = "put_le 2 (source_type (av_key n)) @ put_le 2 (target_type (av_key n))
     @ put_le 2 (target_class (av_key n)) @ put_le 2 (specified (av_key n))"
  have "pf_room fp (length ?b + (4 + k))" using assms by (simp add: add.assoc)
  from put_entry_room [OF this, of 2 4] obtain fp1 where
    1: "put_entry ?b 2 4 fp = (4, fp1)" "pf_room fp1 (4 + k)" "pf_out fp1 = pf_out fp @ ?b" by auto
  from 1(2) have "pf_room fp1 (length (put_le 4 (av_data n)) + k)" by simp
  from put_entry_room [OF this, of 4 1] obtain fp2 where
    "put_entry (put_le 4 (av_data n)) 4 1 fp1 = (1, fp2)" "pf_room fp2 k"
    "pf_out fp2 = pf_out fp1 @ put_le 4 (av_data n)" by auto
  with 1 show ?thesis by (simp add: avtab_write_item_def av_image_def Let_def)
qed

lemma write_items_image:
  "pf_room fp (12 * length ns + k) \<Longrightarrow>
     \<exists>fp'. foldR avtab_write_item ns fp = Inr fp' \<and> pf_room fp' k \<and> pf_out fp' = pf_out fp @ concat (map av_image ns)"
proof (induction ns arbitrary: fp)
  case (Cons n ns)
  from Cons.prems have "pf_room fp (12 + (12 * length ns + k))" by (simp add: add.assoc)
  from avtab_write_item_image [OF this, of n] obtain fp1 where
    1: "avtab_write_item n fp = Inr fp1" "pf_room fp1 (12 * length ns + k)" "pf_out fp1 = pf_out fp @ av_image n" by blast
  from Cons.IH [OF 1(2)] 1 show ?case by auto
qed simp

lemma foldR_concat_upt:
  assumes "n \<le> length t"
  shows "foldR (\<lambda>i s. bindR (array_get t i) (\<lambda>c. foldR f c s)) [0..<n] s = foldR f (concat (take n t)) s"
  using assms by (induction n) (auto simp: foldR_append take_Suc_conv_app_nth bindR_assoc)

lemma avtab_write_image:
  assumes "avtab_ok a" and "pf_room fp (4 + 12 * length (av_entries a) + k)"
  shows "\<exists>fp'. avtab_write a fp = Inr fp' \<and> pf_room fp' k
     \<and> pf_out fp' = pf_out fp @ put_le 4 (av_nel a) @ concat (map av_image (av_entries a))"
proof -
  from assms(1) obtain t where t: "av_htable a = Some t" "length t = unat (av_nslot a)" "av_entries a = concat t"
    by (rule avtab_okE) blast
  have "pf_room fp (length (put_le 4 (av_nel a)) + (12 * length (av_entries a) + k))"
    using assms(2) by (simp add: add.assoc)
  from put_entry_room [OF this, of 4 1] obtain fp1 where
    1: "put_entry (put_le 4 (av_nel a)) 4 1 fp = (1, fp1)" "pf_room fp1 (12 * length (av_entries a) + k)"
    "pf_out fp1 = pf_out fp @ put_le 4 (av_nel a)" by auto
  from write_items_image [OF 1(2)] 1 t show ?thesis
    by (auto simp: avtab_write_def foldR_concat_upt t(2) [symmetric])
qed

lemma key_eta:
  "\<lparr>source_type = source_type k, target_type = target_type k, target_class = target_class k,
     specified = specified k\<rparr> = k"
  by simp

lemma read_item_image:
  assumes "avtab_ok h" and "spec_single (av_key n)" and "20 \<le> vers"
    and "\<forall>m \<in> set (av_entries h). \<not> spec_match (av_key n) (av_key m)"
    and "pf_reads fp (av_image n @ rest)"
  shows "\<exists>h' fp'. yields (avtab_read_item fp vers avtab_insertf h) (Inr (h', fp')) \<and> avtab_ok h' \<and> pf_reads fp' rest
     \<and> (\<forall>k. map av_view (nodes_at k (av_entries h'))
          = map av_view (nodes_at k (av_entries h)) @ map av_view (nodes_at k [n]))"
proof -
  let ?k = "av_key n"
  let ?b = "put_le 2 (source_type ?k) @ put_le 2 (target_type ?k) @ put_le 2 (target_class ?k) @ put_le 2 (specified ?k)"
  from assms(5) have "pf_reads fp (?b @ (put_le 4 (av_data n) @ rest))" by (simp add: av_image_def)
  from next_entry_append [OF this, of 8] obtain fp1 where
    1: "next_entry fp 8 = Inr (?b, fp1)" "pf_reads fp1 (put_le 4 (av_data n) @ rest)" by auto
  from next_entry_append [OF 1(2), of 4] obtain fp2 where
    2: "next_entry fp1 4 = Inr (put_le 4 (av_data n), fp2)" "pf_reads fp2 rest" by auto
  from avtab_insert_new [OF assms(1,4), of "av_data n"] obtain h' where
    h': "yields (avtab_insert h ?k (av_data n)) (Inr h')" "avtab_ok h'"
    "\<forall>k. nodes_at k (av_entries h')
          = nodes_at k (av_entries h) @ (if key_same k ?k then [new_av_node h ?k (av_data n)] else [])" by blast
  have "\<not> vers < 20" using assms(3) by (simp add: not_less)
  then have "yields (avtab_read_item fp vers avtab_insertf h) (Inr (h', fp2))"
    using assms(2) h'(1) unfolding spec_single_def
    by (simp add: avtab_read_item_def read_item_new_def 1(1) 2(1) Let_def avtab_insertf_def key_eta
        yields_bindE_Inr [OF h'(1)])
  moreover have "\<forall>k. map av_view (nodes_at k (av_entries h'))
      = map av_view (nodes_at k (av_entries h)) @ map av_view (nodes_at k [n])"
    using h'(3) by (simp add: av_view_def new_av_node_def)
  ultimately show ?thesis using h'(2) 2(2) by blast
qed

lemma read_items_image:
  assumes "avtab_ok h" and "\<forall>n \<in> set ns. spec_single (av_key n)" and "20 \<le> vers"
    and "\<And>k. sorted_wrt (\<lambda>old new. \<not> spec_match new old) (map fst (map av_view (nodes_at k (av_entries h)) @ map av_view (nodes_at k ns)))"
    and "pf_reads fp (concat (map av_image ns) @ rest)"
  shows "\<exists>h' fp'. yields (avtab_read_items (length ns) vers h fp) (Inr (h', fp')) \<and> avtab_ok h' \<and> pf_reads fp' rest
     \<and> (\<forall>k. map av_view (nodes_at k (av_entries h'))
          = map av_view (nodes_at k (av_entries h)) @ map av_view (nodes_at k ns))"
  using assms
proof (induction ns arbitrary: h fp)
  case (Cons n ns)
  have fresh: "\<forall>m \<in> set (av_entries h). \<not> spec_match (av_key n) (av_key m)"
  proof (intro ballI notI)
    fix m assume m: "m \<in> set (av_entries h)" "spec_match (av_key n) (av_key m)"
    then have "av_key m \<in> set (map fst (map av_view (nodes_at (av_key n) (av_entries h))))"
      by (force simp: nodes_at_def spec_match_def av_view_def)
    with Cons.prems(4) [of "av_key n"] m(2) show False
      by (auto simp: sorted_wrt_append key_same_def av_view_def)
  qed
  from Cons.prems(5) have "pf_reads fp (av_image n @ (concat (map av_image ns) @ rest))" by simp
  from read_item_image [OF Cons.prems(1) _ Cons.prems(3) fresh this] Cons.prems(2) obtain h1 fp1 where
    1: "yields (avtab_read_item fp vers avtab_insertf h) (Inr (h1, fp1))" "avtab_ok h1"
    "pf_reads fp1 (concat (map av_image ns) @ rest)"
    "\<And>k. map av_view (nodes_at k (av_entries h1))
          = map av_view (nodes_at k (av_entries h)) @ map av_view (nodes_at k [n])" by auto
  have "sorted_wrt (\<lambda>old new. \<not> spec_match new old)
      (map fst (map av_view (nodes_at k (av_entries h1)) @ map av_view (nodes_at k ns)))" for k
    using Cons.prems(4) [of k] unfolding 1(4) by (simp split: if_splits)
  from Cons.IH [OF 1(2) _ Cons.prems(3) this 1(3)] Cons.prems(2) obtain h2 fp2 where
    2: "yields (avtab_read_items (length ns) vers h1 fp1) (Inr (h2, fp2))" "avtab_ok h2" "pf_reads fp2 rest"
    "\<forall>k. map av_view (nodes_at k (av_entries h2))
          = map av_view (nodes_at k (av_entries h1)) @ map av_view (nodes_at k ns)" by auto
  have "yields (avtab_read_items (length (n # ns)) vers h fp) (Inr (h2, fp2))"
    using 2(1) by (simp add: yields_bindE_Inr [OF 1(1)])
  with 2 show ?case by (intro exI [of _ h2] exI [of _ fp2]) (simp add: 1(4))
qed simp

lemma avtab_search_views:
  assumes "avtab_ok h"
  shows "avtab_search h key = Inr (map_option snd (find (\<lambda>x. spec_match key (fst x)) (map av_view (nodes_at key (av_entries h)))))"
proof -
  have "find (\<lambda>n. spec_match key (av_key n)) ns = find (\<lambda>n. spec_match key (av_key n)) (nodes_at key ns)" for ns
    by (induction ns) (auto simp: spec_match_def)
  moreover have "map_option av_data (find (\<lambda>n. spec_match key (av_key n)) ms)
      = map_option snd (find (\<lambda>x. spec_match key (fst x)) (map av_view ms))" for ms
    by (induction ms) (auto simp: av_view_def)
  ultimately show ?thesis by (metis avtab_search_first [OF assms])
qed

lemma avtab_read_image:
  assumes "avtab_ok h" and "av_unique h" and "\<forall>n \<in> set (av_entries h). spec_single (av_key n)"
    and "0 < length (av_entries h)" and "length (av_entries h) < 2 ^ 32" and "20 \<le> vers"
    and "pf_reads fp ((put_le 4 (av_nel h) @ concat (map av_image (av_entries h))) @ rest)"
  shows "\<exists>h' r. avtab_read a0 fp vers [] = (Inr (h', r), []) \<and> pf_reads r rest \<and> avtab_ok h'
    \<and> (\<forall>k. map av_view (nodes_at k (av_entries h')) = map av_view (nodes_at k (av_entries h)))"
proof -
  let ?img = "concat (map av_image (av_entries h))"
  let ?n = "length (av_entries h)"
  have nel: "av_nel h = of_nat ?n" using assms(1) by (rule avtab_okE) simp
  then have un: "unat (av_nel h) = ?n" using assms(5) by (simp add: unat_of_nat_u32)
  then have nz: "av_nel h \<noteq> 0" using assms(4) by auto
  from assms(7) have "pf_reads fp (put_le 4 (av_nel h) @ (?img @ rest))" by simp
  from next_entry_append [OF this, of 4] obtain fp1 where
    1: "next_entry fp 4 = Inr (put_le 4 (av_nel h), fp1)" "pf_reads fp1 (?img @ rest)" by auto
  from avtab_alloc_ok [OF nz, of a0] obtain a1 where
    a1: "avtab_alloc a0 (av_nel h) [] = (Inr a1, [])" "avtab_ok a1" "av_entries a1 = []" by blast
  have "sorted_wrt (\<lambda>old new. \<not> spec_match new old)
      (map fst (map av_view (nodes_at k (av_entries a1)) @ map av_view (nodes_at k (av_entries h))))" for k
    using assms(2) by (simp add: a1(3) av_unique_def comp_def av_view_def)
  from read_items_image [OF a1(2) assms(3,6) this 1(2)] obtain h' r where
    r: "yields (avtab_read_items ?n vers a1 fp1) (Inr (h', r))" "avtab_ok h'" "pf_reads r rest"
    "\<forall>k. map av_view (nodes_at k (av_entries h')) = map av_view (nodes_at k (av_entries h))" by (auto simp: a1(3))
  have "avtab_read a0 fp vers [] = (Inr (h', r), [])"
    using nz by (simp add: avtab_read_def 1(1) Let_def un bindE_run(2) [of "avtab_alloc a0 (av_nel h)", OF a1(1)] yields_no_oom [OF r(1)])
  with r show ?thesis by blast
qed

section \<open>Properties\<close>

text \<open>Claim C35. On a well-formed table \<open>avtab_insert\<close> reports \<open>EEXIST\<close> exactly when a rule of that kind
  exists for the source, target and class; otherwise it appends the rule to the rules of that key and
  changes no other key's rules, keeping the table well formed and, if it was so before, free of
  duplicate rules.\<close>

theorem avtab_insert_correct:
  assumes "avtab_ok h"
  shows "if \<exists>n \<in> set (av_entries h). spec_match key (av_key n) then avtab_insert h key d = throwE EEXIST
    else \<exists>h'. yields (avtab_insert h key d) (Inr h') \<and> avtab_ok h' \<and> (av_unique h \<longrightarrow> av_unique h') \<and>
       (\<forall>k. map av_view (nodes_at k (av_entries h'))
          = map av_view (nodes_at k (av_entries h)) @ (if key_same k key then [(key, d)] else []))"
proof (cases "\<exists>n \<in> set (av_entries h). spec_match key (av_key n)")
  case True
  with avtab_insert_dup [OF assms] show ?thesis by simp
next
  case False
  then have f: "\<forall>n \<in> set (av_entries h). \<not> spec_match key (av_key n)" by blast
  from avtab_insert_new [OF assms f, of d] obtain h' where h': "yields (avtab_insert h key d) (Inr h')" "avtab_ok h'"
    "\<And>k. nodes_at k (av_entries h')
          = nodes_at k (av_entries h) @ (if key_same k key then [new_av_node h key d] else [])" by blast
  have "av_unique h \<longrightarrow> av_unique h'" using av_unique_insert [OF _ f h'(3)] by blast
  with h' False show ?thesis by (auto simp: av_view_def new_av_node_def intro!: exI [of _ h'])
qed

text \<open>The loop of \<open>avtab_search_node\<close> and \<open>avtab_search_node_next\<close> ends and visits exactly the nodes
  of the whole table that match the key, although it looks at one bucket only and stops at the first
  key that sorts after; \<open>avtab_search\<close> returns the datum of the first of them.\<close>

theorem avtab_search_complete:
  assumes "avtab_ok h"
  shows "avtab_each_node h key = Inr (filter (\<lambda>n. spec_match key (av_key n)) (av_entries h))
    \<and> avtab_search h key = Inr (map_option av_data (find (\<lambda>n. spec_match key (av_key n)) (av_entries h)))"
  by (simp add: avtab_each_node_filter avtab_search_first assms)

text \<open>A table with at least one rule that is written in the current file format and read back
  answers every search as before, whatever number of hash slots the two tables have.\<close>

theorem avtab_write_read:
  assumes "avtab_ok h" and "av_unique h" and "\<forall>n \<in> set (av_entries h). spec_single (av_key n)"
    and "0 < length (av_entries h)" and "length (av_entries h) < 2 ^ 32" and "20 \<le> vers"
    and "pf_room fp (4 + 12 * length (av_entries h))" and "pf_out fp = []"
  shows "\<exists>fp' h' r. avtab_write h fp = Inr fp' \<and>
     avtab_read a0 (pf_of_bytes (pf_out fp' @ rest)) vers [] = (Inr (h', r), []) \<and> pf_reads r rest \<and>
     (\<forall>key. avtab_search h' key = avtab_search h key)"
proof -
  let ?img = "concat (map av_image (av_entries h))"
  from avtab_write_image [OF assms(1), of fp 0] assms(7,8) obtain fp' where
    w: "avtab_write h fp = Inr fp'" "pf_out fp' = put_le 4 (av_nel h) @ ?img" by auto
  from avtab_read_image [OF assms(1-6) pf_reads_of_bytes, where rest = rest and ?a0.0 = a0] obtain h' r where
    r: "avtab_read a0 (pf_of_bytes (pf_out fp' @ rest)) vers [] = (Inr (h', r), [])" "pf_reads r rest" "avtab_ok h'"
    "\<forall>k. map av_view (nodes_at k (av_entries h')) = map av_view (nodes_at k (av_entries h))" unfolding w(2) by blast
  have "\<forall>key. avtab_search h' key = avtab_search h key" using r(3,4) assms(1) by (simp add: avtab_search_views)
  with r w(1) show ?thesis by blast
qed

section \<open>Witnesses\<close>

definition av_key_a :: avtab_key where
  "av_key_a = \<lparr>source_type = 3, target_type = 5, target_class = 2, specified = AVTAB_ALLOWED\<rparr>"

definition av_tab_a :: avtab where
  "av_tab_a = \<lparr>av_htable = Some [[\<lparr>av_addr = 0, av_key = av_key_a, av_data = 6\<rparr>], []], av_nel = 1, av_nslot = 2,
     av_mask = 1, av_next_addr = 1\<rparr>"

lemma av_tab_a_ok: "avtab_ok av_tab_a"
proof -
  have "avtab_hash av_key_a 1 = 0" by code_simp
  moreover have "(\<forall>i < Suc (Suc 0). P i) \<longleftrightarrow> P 0 \<and> P (Suc 0)" for P :: "nat \<Rightarrow> bool"
    by (auto simp: less_Suc_eq)
  ultimately show ?thesis by (simp add: avtab_ok_def av_tab_a_def)
qed

lemma av_tab_a_entries: "av_entries av_tab_a = [\<lparr>av_addr = 0, av_key = av_key_a, av_data = 6\<rparr>]"
  by (simp add: av_entries_def av_tab_a_def)

lemma av_tab_a_unique: "av_unique av_tab_a"
  by (simp add: av_unique_def av_tab_a_entries)

theorem avtab_insert_correct_witness:
  "avtab_insert av_tab_a av_key_a 9 = throwE EEXIST"
proof -
  have "spec_match av_key_a av_key_a" by code_simp
  then show ?thesis using avtab_insert_correct [OF av_tab_a_ok, of av_key_a 9] by (simp add: av_tab_a_entries)
qed

theorem avtab_search_complete_witness:
  "avtab_search av_tab_a av_key_a = Inr (Some 6)"
proof -
  have "spec_match av_key_a av_key_a" by code_simp
  then show ?thesis using avtab_search_complete [OF av_tab_a_ok, of av_key_a] by (simp add: av_tab_a_entries)
qed

theorem avtab_write_read_witness:
  "\<exists>fp' h' r. avtab_write av_tab_a \<lparr>pf_type = PF_USE_STDIO, pf_data = [], pf_len = 0, pf_out = []\<rparr> = Inr fp' \<and>
     avtab_read av_tab_a (pf_of_bytes (pf_out fp' @ [])) 26 [] = (Inr (h', r), []) \<and> pf_reads r [] \<and>
     (\<forall>key. avtab_search h' key = avtab_search av_tab_a key)"
proof -
  have "spec_single av_key_a" by code_simp
  then show ?thesis
    by (intro avtab_write_read av_tab_a_ok av_tab_a_unique) (auto simp: av_tab_a_entries pf_room_def)
qed

end
