(* ===== verification/Hashtab.thy ===== *)
theory Hashtab
  imports Sepol_Prelude
begin

text \<open>
  The chained hash table of libsepol (hashtab.c, hashtab.h) and the symbol table built on it
  (symtab.c). Each bucket is a list of key and datum pairs sorted by the comparison function; the
  walks through a bucket are the \<open>chain_\<close> functions, which the SID table shares (sidtab.c walks
  its buckets in the same way, with the order of the SIDs).

  Two interfaces are stated as locales. \<open>key_order\<close> is what a walk needs of the comparison: a
  strict linear order. \<open>map_store\<close> is what clients need of a table: looking up and inserting
  behave as on a finite map. The first is interpreted on the string comparison of the symbol
  tables, the second on the symbol table operations.
\<close>

unbundle bit_operations_syntax

section \<open>Walking a sorted bucket\<close>

fun chain_search :: "('k \<Rightarrow> 'k \<Rightarrow> bool) \<Rightarrow> ('k \<Rightarrow> 'k \<Rightarrow> bool) \<Rightarrow> 'k \<Rightarrow> ('k \<times> 'd) list \<Rightarrow> 'd option" where
  "chain_search after same k [] = None"
| "chain_search after same k ((k', d') # c) =
     (if after k k' then chain_search after same k c
      else if same k k' then Some d' else None)"

text \<open>\<open>None\<close> is the result when the key is present.\<close>

fun chain_insert ::
  "('k \<Rightarrow> 'k \<Rightarrow> bool) \<Rightarrow> ('k \<Rightarrow> 'k \<Rightarrow> bool) \<Rightarrow> 'k \<Rightarrow> 'd \<Rightarrow> ('k \<times> 'd) list \<Rightarrow> ('k \<times> 'd) list option"
where
  "chain_insert after same k d [] = Some [(k, d)]"
| "chain_insert after same k d ((k', d') # c) =
     (if after k k' then map_option (Cons (k', d')) (chain_insert after same k d c)
      else if same k k' then None else Some ((k, d) # (k', d') # c))"

text \<open>\<open>None\<close> is the result when the key is missing; otherwise the shorter chain and the pair
  that was unlinked.\<close>

fun chain_remove ::
  "('k \<Rightarrow> 'k \<Rightarrow> bool) \<Rightarrow> ('k \<Rightarrow> 'k \<Rightarrow> bool) \<Rightarrow> 'k \<Rightarrow> ('k \<times> 'd) list
     \<Rightarrow> (('k \<times> 'd) list \<times> ('k \<times> 'd)) option"
where
  "chain_remove after same k [] = None"
| "chain_remove after same k ((k', d') # c) =
     (if after k k' then map_option (\<lambda>(c', x). ((k', d') # c', x)) (chain_remove after same k c)
      else if same k k' then Some (c, (k', d')) else None)"

text \<open>The overwritten pair is returned when there is one.\<close>

fun chain_replace ::
  "('k \<Rightarrow> 'k \<Rightarrow> bool) \<Rightarrow> ('k \<Rightarrow> 'k \<Rightarrow> bool) \<Rightarrow> 'k \<Rightarrow> 'd \<Rightarrow> ('k \<times> 'd) list
     \<Rightarrow> ('k \<times> 'd) list \<times> ('k \<times> 'd) option"
where
  "chain_replace after same k d [] = ([(k, d)], None)"
| "chain_replace after same k d ((k', d') # c) =
     (if after k k' then (let (c', x) = chain_replace after same k d c in ((k', d') # c', x))
      else if same k k' then ((k, d) # c, Some (k', d')) else ((k, d) # (k', d') # c, None))"

definition chain_sorted :: "('k \<Rightarrow> 'k \<Rightarrow> bool) \<Rightarrow> ('k \<times> 'd) list \<Rightarrow> bool" where
  "chain_sorted after c \<longleftrightarrow> sorted_wrt (\<lambda>x y. after (fst y) (fst x)) c"

lemma chain_sorted_simps [simp]:
  "chain_sorted after []"
  "chain_sorted after (x # c) \<longleftrightarrow> (\<forall>y \<in> set c. after (fst y) (fst x)) \<and> chain_sorted after c"
  by (simp_all add: chain_sorted_def)

locale key_order =
  fixes after :: "'k \<Rightarrow> 'k \<Rightarrow> bool"
    and same :: "'k \<Rightarrow> 'k \<Rightarrow> bool"
  assumes same_iff: "same a b \<longleftrightarrow> a = b"
    and after_irrefl: "\<not> after a a"
    and after_trans: "after a b \<Longrightarrow> after b c \<Longrightarrow> after a c"
    and after_total: "a \<noteq> b \<Longrightarrow> \<not> after a b \<Longrightarrow> after b a"
begin

lemma chain_fresh:
  "chain_sorted after ((k', d') # c) \<Longrightarrow> \<not> after k k' \<Longrightarrow> k \<notin> fst ` set c"
  using after_trans after_irrefl by fastforce

lemma search_map_of: "chain_sorted after c \<Longrightarrow> chain_search after same k c = map_of c k"
proof (induction c)
  case (Cons x c)
  obtain k' d' where x: "x = (k', d')" by force
  show ?case
  proof (cases "after k k'")
    case True
    with Cons x show ?thesis using after_irrefl by auto
  next
    case False
    then have "map_of c k = None" using chain_fresh [of k' d' c k] Cons.prems x
      by (simp add: map_of_eq_None_iff)
    with False x show ?thesis by (auto simp: same_iff)
  qed
qed simp

lemma insert_spec:
  assumes "chain_sorted after c"
  shows "case chain_insert after same k d c of
      None \<Rightarrow> map_of c k \<noteq> None
    | Some c' \<Rightarrow> map_of c k = None \<and> chain_sorted after c' \<and> map_of c' = (map_of c)(k \<mapsto> d)
        \<and> fst ` set c' = insert k (fst ` set c) \<and> length c' = Suc (length c)"
  using assms
proof (induction c)
  case (Cons x c)
  obtain k' d' where x: "x = (k', d')" by force
  consider (further) "after k k'" | (found) "k = k'" "\<not> after k k'" | (here) "\<not> after k k'" "k \<noteq> k'" by blast
  then show ?case
  proof cases
    case further
    then have "k \<noteq> k'" using after_irrefl by auto
    show ?thesis
    proof (cases "chain_insert after same k d c")
      case None
      with further Cons x \<open>k \<noteq> k'\<close> show ?thesis by simp
    next
      case (Some a)
      with Cons have a: "map_of c k = None" "chain_sorted after a" "map_of a = (map_of c)(k \<mapsto> d)"
        "fst ` set a = insert k (fst ` set c)" "length a = Suc (length c)" by simp_all
      have "\<forall>y \<in> set a. after (fst y) k'"
        using further Cons.prems x by (intro keys_insert_ball [OF a(4)]) auto
      with a Some further x \<open>k \<noteq> k'\<close> show ?thesis by (simp add: fun_upd_twist insert_commute)
    qed
  next
    case found
    then show ?thesis using x by (simp add: same_iff)
  next
    case here
    then have "after k' k" using after_total by blast
    moreover have "k \<notin> fst ` set c" using chain_fresh [of k' d' c k] here Cons.prems x by simp
    ultimately show ?thesis using here x Cons.prems
      by (auto simp: same_iff map_of_eq_None_iff intro: after_trans)
  qed
qed simp

lemma remove_spec:
  assumes "chain_sorted after c"
  shows "case chain_remove after same k c of
      None \<Rightarrow> map_of c k = None
    | Some (c', x) \<Rightarrow> fst x = k \<and> map_of c k = Some (snd x) \<and> chain_sorted after c'
        \<and> map_of c' = (map_of c)(k := None) \<and> set c' \<subseteq> set c \<and> length c = Suc (length c')"
  using assms
proof (induction c)
  case (Cons x c)
  obtain k' d' where x: "x = (k', d')" by force
  consider (further) "after k k'" | (found) "k = k'" "\<not> after k k'" | (here) "\<not> after k k'" "k \<noteq> k'" by blast
  then show ?case
  proof cases
    case further
    then have "k \<noteq> k'" using after_irrefl by auto
    with further Cons x show ?thesis
      by (cases "chain_remove after same k c") (auto simp: fun_upd_twist, force)
  next
    case found
    then have "map_of c k = None" using chain_fresh [of k' d' c k] Cons.prems x
      by (simp add: map_of_eq_None_iff)
    then show ?thesis using x found Cons.prems by (auto simp: same_iff)
  next
    case here
    then show ?thesis using chain_fresh [of k' d' c k] Cons.prems x
      by (simp add: same_iff map_of_eq_None_iff)
  qed
qed simp

lemma replace_spec:
  assumes "chain_sorted after c"
  shows "case chain_replace after same k d c of (c', x) \<Rightarrow>
      chain_sorted after c' \<and> map_of c' = (map_of c)(k \<mapsto> d) \<and> fst ` set c' = insert k (fst ` set c)
      \<and> map_option snd x = map_of c k
      \<and> length c' = (if map_of c k = None then Suc (length c) else length c)"
  using assms
proof (induction c)
  case (Cons x c)
  obtain k' d' where x: "x = (k', d')" by force
  consider (further) "after k k'" | (found) "k = k'" "\<not> after k k'" | (here) "\<not> after k k'" "k \<noteq> k'" by blast
  then show ?case
  proof cases
    case further
    then have "k \<noteq> k'" using after_irrefl by auto
    obtain a r where ar: "chain_replace after same k d c = (a, r)" by force
    with Cons have a: "chain_sorted after a" "map_of a = (map_of c)(k \<mapsto> d)"
      "fst ` set a = insert k (fst ` set c)" "map_option snd r = map_of c k"
      "length a = (if map_of c k = None then Suc (length c) else length c)"
      by (simp_all add: fun_upd_def)
    have "\<forall>y \<in> set a. after (fst y) k'"
      using further Cons.prems x by (intro keys_insert_ball [OF a(3)]) auto
    with a ar further x \<open>k \<noteq> k'\<close> show ?thesis by (auto simp: fun_eq_iff insert_commute)
  next
    case found
    then show ?thesis using x Cons.prems by (auto simp: same_iff)
  next
    case here
    then have "after k' k" using after_total by blast
    moreover have "map_of c k = None" using chain_fresh [of k' d' c k] here Cons.prems x
      by (simp add: map_of_eq_None_iff)
    ultimately show ?thesis using here x Cons.prems
      by (auto simp: same_iff intro: after_trans)
  qed
qed simp

lemma distinct_keys: "chain_sorted after c \<Longrightarrow> distinct (map fst c)"
  by (induction c) (use after_irrefl in force)+

end

section \<open>The hash table\<close>

record ('k, 'd) hashtab_val =
  htable :: "('k \<times> 'd) list list"
  ht_size :: u32
  ht_nel :: u32
  ht_hash_value :: "u32 \<Rightarrow> 'k \<Rightarrow> u32"
  ht_keycmp :: "'k \<Rightarrow> 'k \<Rightarrow> int"

type_synonym ('k, 'd) hashtab_t = "('k, 'd) hashtab_val option"

abbreviation ht_after :: "('k, 'd) hashtab_val \<Rightarrow> 'k \<Rightarrow> 'k \<Rightarrow> bool" where
  "ht_after h a b \<equiv> ht_keycmp h a b > 0"

abbreviation ht_same :: "('k, 'd) hashtab_val \<Rightarrow> 'k \<Rightarrow> 'k \<Rightarrow> bool" where
  "ht_same h a b \<equiv> ht_keycmp h a b = 0"

definition hashtab_create ::
  "(u32 \<Rightarrow> 'k \<Rightarrow> u32) \<Rightarrow> ('k \<Rightarrow> 'k \<Rightarrow> int) \<Rightarrow> u32 \<Rightarrow> ('k, 'd) hashtab_val alloc_m"
where
  "hashtab_create hash_value keycmp sz =
     bindE malloc (\<lambda>_. bindE malloc (\<lambda>_.
       returnE \<lparr>htable = replicate (unat sz) [], ht_size = sz, ht_nel = 0,
                ht_hash_value = hash_value, ht_keycmp = keycmp\<rparr>))"

text \<open>The index is an \<open>int\<close> in the C code, so a hash value of \<open>2 ^ 31\<close> or more is a negative
  index.\<close>

definition ht_index :: "('k, 'd) hashtab_val \<Rightarrow> 'k \<Rightarrow> nat res" where
  "ht_index h key = (let hvalue = ht_hash_value h (ht_size h) key in
     if sint hvalue < 0 \<or> unat hvalue \<ge> length (htable h) then Inl Fault else Inr (unat hvalue))"

definition hashtab_insert :: "('k, 'd) hashtab_t \<Rightarrow> 'k \<Rightarrow> 'd \<Rightarrow> ('k, 'd) hashtab_t alloc_m" where
  "hashtab_insert hp key datum = (case hp of
     None \<Rightarrow> throwE ENOMEM
   | Some h \<Rightarrow> bindE (liftE (ht_index h key)) (\<lambda>i.
       case chain_insert (ht_after h) (ht_same h) key datum (htable h ! i) of
         None \<Rightarrow> throwE EEXIST
       | Some c \<Rightarrow> bindE malloc (\<lambda>_.
           returnE (Some (h\<lparr>htable := (htable h)[i := c], ht_nel := ht_nel h + 1\<rparr>)))))"

text \<open>The pair in the result is the one handed to the \<open>destroy\<close> callback.\<close>

definition hashtab_remove :: "('k, 'd) hashtab_t \<Rightarrow> 'k \<Rightarrow> (('k, 'd) hashtab_t \<times> ('k \<times> 'd)) res" where
  "hashtab_remove hp key = (case hp of
     None \<Rightarrow> Inl ENOENT
   | Some h \<Rightarrow> bindR (ht_index h key) (\<lambda>i.
       case chain_remove (ht_after h) (ht_same h) key (htable h ! i) of
         None \<Rightarrow> Inl ENOENT
       | Some (c, x) \<Rightarrow> Inr (Some (h\<lparr>htable := (htable h)[i := c], ht_nel := ht_nel h - 1\<rparr>), x)))"

definition hashtab_replace ::
  "('k, 'd) hashtab_t \<Rightarrow> 'k \<Rightarrow> 'd \<Rightarrow> (('k, 'd) hashtab_t \<times> ('k \<times> 'd) option) alloc_m"
where
  "hashtab_replace hp key datum = (case hp of
     None \<Rightarrow> throwE ENOMEM
   | Some h \<Rightarrow> bindE (liftE (ht_index h key)) (\<lambda>i.
       let (c, x) = chain_replace (ht_after h) (ht_same h) key datum (htable h ! i);
           h' = Some (h\<lparr>htable := (htable h)[i := c]\<rparr>) in
       (case x of
          Some _ \<Rightarrow> returnE (h', x)
        | None \<Rightarrow> bindE malloc (\<lambda>_. returnE (h', None)))))"

definition hashtab_search :: "('k, 'd) hashtab_t \<Rightarrow> 'k \<Rightarrow> 'd option res" where
  "hashtab_search hp key = (case hp of
     None \<Rightarrow> Inr None
   | Some h \<Rightarrow> bindR (ht_index h key) (\<lambda>i.
       Inr (chain_search (ht_after h) (ht_same h) key (htable h ! i))))"

text \<open>Every bucket is emptied and the table is freed: nothing of it is left.\<close>

definition hashtab_destroy :: "('k, 'd) hashtab_t \<Rightarrow> ('k, 'd) hashtab_t res" where
  "hashtab_destroy hp = (case hp of
     None \<Rightarrow> Inr None
   | Some h \<Rightarrow> bindR
       (foldR (\<lambda>i t. bindR (array_get t i) (\<lambda>_. Inr (t[i := []]))) [0..<unat (ht_size h)] (htable h))
       (\<lambda>_. Inr None))"

definition hashtab_map :: "('k, 'd) hashtab_t \<Rightarrow> ('k \<Rightarrow> 'd \<Rightarrow> 's \<Rightarrow> 's alloc_m) \<Rightarrow> 's \<Rightarrow> 's alloc_m" where
  "hashtab_map hp app args = (case hp of
     None \<Rightarrow> returnE args
   | Some h \<Rightarrow> foldE (\<lambda>i s. bindE (liftE (array_get (htable h) i))
       (\<lambda>c. foldE (\<lambda>(k, d). app k d) c s)) [0..<unat (ht_size h)] args)"

text \<open>The walk that unlinks the nodes for which the callback fails: the kept chain, the nodes handed
  to \<open>destroy\<close> and the callback's state.\<close>

fun chain_remove_on_error ::
  "('k \<Rightarrow> 'd \<Rightarrow> 's \<Rightarrow> bool \<times> 's) \<Rightarrow> ('k \<times> 'd) list \<Rightarrow> 's \<Rightarrow> ('k \<times> 'd) list \<times> ('k \<times> 'd) list \<times> 's"
where
  "chain_remove_on_error app [] s = ([], [], s)"
| "chain_remove_on_error app ((k, d) # c) s =
     (let (ret, s1) = app k d s; (kept, gone, s2) = chain_remove_on_error app c s1 in
      if ret then (kept, (k, d) # gone, s2) else ((k, d) # kept, gone, s2))"

definition hashtab_map_remove_on_error ::
  "('k, 'd) hashtab_t \<Rightarrow> ('k \<Rightarrow> 'd \<Rightarrow> 's \<Rightarrow> bool \<times> 's) \<Rightarrow> 's
     \<Rightarrow> (('k, 'd) hashtab_t \<times> ('k \<times> 'd) list \<times> 's) res"
where
  "hashtab_map_remove_on_error hp app args = (case hp of
     None \<Rightarrow> Inr (None, [], args)
   | Some h \<Rightarrow> bindR
       (foldR (\<lambda>i (h, gone, s). bindR (array_get (htable h) i) (\<lambda>c.
          let (kept, g, s') = chain_remove_on_error app c s in
          Inr (h\<lparr>htable := (htable h)[i := kept], ht_nel := ht_nel h - of_nat (length g)\<rparr>, gone @ g, s')))
        [0..<unat (ht_size h)] (h, [], args))
       (\<lambda>(h, gone, s). Inr (Some h, gone, s)))"

text \<open>The figures that \<open>hashtab_hash_eval\<close> prints: entries, buckets used, buckets, longest
  chain.\<close>

definition hashtab_hash_eval :: "('k, 'd) hashtab_val \<Rightarrow> (u32 \<times> nat \<times> u32 \<times> nat) res" where
  "hashtab_hash_eval h = bindR
     (foldR (\<lambda>i (slots_used, max_chain_len). bindR (array_get (htable h) i) (\<lambda>c.
        if c \<noteq> [] then Inr (slots_used + 1, if length c > max_chain_len then length c else max_chain_len)
        else Inr (slots_used, max_chain_len)))
      [0..<unat (ht_size h)] (0, 0))
     (\<lambda>(slots_used, max_chain_len). Inr (ht_nel h, slots_used, ht_size h, max_chain_len))"

section \<open>Symbol tables\<close>

text \<open>\<open>char\<close> is signed on some of the targets and unsigned on others; \<open>sc\<close> says which.\<close>

definition char_promote :: "bool \<Rightarrow> char \<Rightarrow> u32" where
  "char_promote sc c = (if sc then scast (of_char c :: u8) else ucast (of_char c :: u8))"

definition symhash :: "bool \<Rightarrow> u32 \<Rightarrow> string \<Rightarrow> u32" where
  "symhash sc sz key =
     fold (\<lambda>c val. (push_bit 4 val OR drop_bit 28 val) XOR char_promote sc c) key 0 AND (sz - 1)"

text \<open>C's \<open>strcmp\<close>, of which only the sign is specified: bytes compare as \<open>unsigned char\<close>.\<close>

fun strcmp :: "string \<Rightarrow> string \<Rightarrow> int" where
  "strcmp [] [] = 0"
| "strcmp [] (d # ds) = -1"
| "strcmp (c # cs) [] = 1"
| "strcmp (c # cs) (d # ds) = (if c = d then strcmp cs ds else of_char c - of_char d)"

definition symcmp :: "string \<Rightarrow> string \<Rightarrow> int" where
  "symcmp key1 key2 = strcmp key1 key2"

record 'd symtab =
  table :: "(string, 'd) hashtab_t"
  nprim :: u32

definition symtab_init :: "bool \<Rightarrow> u32 \<Rightarrow> 'd symtab alloc_m" where
  "symtab_init sc sz = bindE (failE (hashtab_create (symhash sc) symcmp sz) STATUS_ERR) (\<lambda>t.
     returnE \<lparr>table = Some t, nprim = 0\<rparr>)"

definition symtab_destroy :: "'d symtab option \<Rightarrow> unit res" where
  "symtab_destroy s = (case s of None \<Rightarrow> Inr () | Some s \<Rightarrow>
     (case table s of None \<Rightarrow> Inr () | Some h \<Rightarrow> bindR (hashtab_destroy (Some h)) (\<lambda>_. Inr ())))"

section \<open>Invariant and abstraction\<close>

text \<open>
  A table is well formed when its order is a strict linear order, the hash function stays within the
  array, each bucket is sorted and holds only keys that hash to it, and the element counter counts
  the elements (modulo \<open>2 ^ 32\<close>).
\<close>

definition ht_slot :: "('k, 'd) hashtab_val \<Rightarrow> 'k \<Rightarrow> nat" where
  "ht_slot h k = unat (ht_hash_value h (ht_size h) k)"

definition ht_entries :: "('k, 'd) hashtab_val \<Rightarrow> ('k \<times> 'd) list" where
  "ht_entries h = concat (htable h)"

definition ht_buckets_ok :: "('k, 'd) hashtab_val \<Rightarrow> bool" where
  "ht_buckets_ok h \<longleftrightarrow> length (htable h) = unat (ht_size h) \<and>
     (\<forall>i < length (htable h). chain_sorted (ht_after h) (htable h ! i)
        \<and> (\<forall>k \<in> fst ` set (htable h ! i). ht_slot h k = i))"

definition ht_funs_ok :: "('k, 'd) hashtab_val \<Rightarrow> bool" where
  "ht_funs_ok h \<longleftrightarrow> key_order (ht_after h) (ht_same h) \<and> unat (ht_size h) \<le> 2 ^ 31
     \<and> (\<forall>k. ht_slot h k < unat (ht_size h))"

definition hashtab_ok :: "('k, 'd) hashtab_t \<Rightarrow> bool" where
  "hashtab_ok hp \<longleftrightarrow> (\<exists>h. hp = Some h \<and> ht_funs_ok h \<and> ht_buckets_ok h
     \<and> ht_nel h = of_nat (length (ht_entries h)))"

definition hashtab_abs :: "('k, 'd) hashtab_t \<Rightarrow> 'k \<Rightarrow> 'd option" where
  "hashtab_abs hp k = (case hp of None \<Rightarrow> None | Some h \<Rightarrow> map_of (htable h ! ht_slot h k) k)"

lemma ht_index_slot:
  assumes "ht_funs_ok h" and "ht_buckets_ok h"
  shows "ht_index h k = Inr (ht_slot h k)" and "ht_slot h k < length (htable h)"
proof -
  show lt: "ht_slot h k < length (htable h)"
    using assms by (simp add: ht_funs_ok_def ht_buckets_ok_def)
  have "ht_slot h k < 2147483648" using assms by (auto simp: ht_funs_ok_def intro: less_le_trans)
  then have "\<not> sint (ht_hash_value h (ht_size h) k) < 0"
    unfolding ht_slot_def by (rule sint_nonneg_u32)
  with lt show "ht_index h k = Inr (ht_slot h k)" by (simp add: ht_index_def ht_slot_def Let_def)
qed

lemma ht_chain:
  assumes "ht_funs_ok h" and "ht_buckets_ok h"
  shows "chain_sorted (ht_after h) (htable h ! ht_slot h k)"
  using ht_index_slot(2) [OF assms] assms(2) by (simp add: ht_buckets_ok_def)

lemma ht_upd_bucket:
  assumes "ht_funs_ok h" and "ht_buckets_ok h"
    and "chain_sorted (ht_after h) c" and "fst ` set c \<subseteq> insert k (fst ` set (htable h ! ht_slot h k))"
  shows "ht_buckets_ok (h\<lparr>htable := (htable h)[ht_slot h k := c], ht_nel := n\<rparr>)"
proof -
  let ?i = "ht_slot h k"
  note i = ht_index_slot(2) [OF assms(1,2), of k]
  have "\<forall>q \<in> fst ` set (htable h ! ?i). ht_slot h q = ?i"
    using assms(2) i unfolding ht_buckets_ok_def by blast
  with assms(4) have "\<forall>q \<in> fst ` set c. ht_slot h q = ?i" by blast
  with assms i show ?thesis by (simp add: ht_buckets_ok_def nth_list_update) (simp add: ht_slot_def)
qed

lemma ht_entries_upd:
  assumes "i < length (htable h)"
  shows "length (concat ((htable h)[i := c])) + length (htable h ! i) = length (ht_entries h) + length c"
  unfolding ht_entries_def using assms by (rule length_concat_upd)

lemma ht_funs_ok_upd [simp]:
  "ht_funs_ok (h\<lparr>htable := t, ht_nel := n\<rparr>) = ht_funs_ok h"
  "ht_funs_ok (h\<lparr>htable := t\<rparr>) = ht_funs_ok h"
  by (simp_all add: ht_funs_ok_def ht_slot_def)

lemma ht_slot_upd [simp]:
  "ht_slot (h\<lparr>htable := t, ht_nel := n\<rparr>) = ht_slot h"
  "ht_slot (h\<lparr>htable := t\<rparr>) = ht_slot h"
  by (simp_all add: ht_slot_def fun_eq_iff)

lemma hashtab_abs_upd:
  assumes "ht_funs_ok h" and "ht_buckets_ok h" and "map_of c = (map_of (htable h ! ht_slot h k))(k := v)"
  shows "hashtab_abs (Some (h\<lparr>htable := (htable h)[ht_slot h k := c], ht_nel := n\<rparr>))
     = (hashtab_abs (Some h))(k := v)"
  using ht_index_slot(2) [OF assms(1,2)] assms(3)
  by (auto simp: hashtab_abs_def fun_eq_iff nth_list_update)

lemma hashtab_search_abs: "hashtab_ok hp \<Longrightarrow> hashtab_search hp k = Inr (hashtab_abs hp k)"
  by (auto simp: hashtab_ok_def hashtab_search_def hashtab_abs_def ht_index_slot ht_funs_ok_def
      intro!: key_order.search_map_of ht_chain)

lemma hashtab_insert_new:
  assumes "hashtab_ok hp" and "hashtab_abs hp k = None"
  shows "\<exists>hp'. yields (hashtab_insert hp k d) (Inr hp') \<and> hashtab_ok hp'
     \<and> hashtab_abs hp' = (hashtab_abs hp)(k \<mapsto> d)"
proof -
  from assms(1) obtain h where h: "hp = Some h" "ht_funs_ok h" "ht_buckets_ok h"
    "ht_nel h = of_nat (length (ht_entries h))" by (auto simp: hashtab_ok_def)
  then have ko: "key_order (ht_after h) (ht_same h)" by (simp add: ht_funs_ok_def)
  let ?i = "ht_slot h k"
  from key_order.insert_spec [OF ko ht_chain [OF h(2,3)], of k k d] assms(2) obtain c where
    c: "chain_insert (ht_after h) (ht_same h) k d (htable h ! ?i) = Some c" "chain_sorted (ht_after h) c"
    "map_of c = (map_of (htable h ! ?i))(k \<mapsto> d)" "fst ` set c = insert k (fst ` set (htable h ! ?i))"
    "length c = Suc (length (htable h ! ?i))"
    by (auto simp: hashtab_abs_def h(1) split: option.splits)
  let ?h = "h\<lparr>htable := (htable h)[?i := c], ht_nel := ht_nel h + 1\<rparr>"
  have "yields (hashtab_insert hp k d) (Inr (Some ?h))"
    by (simp add: hashtab_insert_def h(1) ht_index_slot [OF h(2,3)] c(1))
  moreover have "length (ht_entries ?h) = Suc (length (ht_entries h))"
    using ht_entries_upd [OF ht_index_slot(2) [OF h(2,3)], of k c] c(5) by (simp add: ht_entries_def)
  then have "hashtab_ok (Some ?h)"
    using h c ht_upd_bucket [OF h(2,3) c(2), of k] by (simp add: hashtab_ok_def)
  ultimately show ?thesis using hashtab_abs_upd [OF h(2,3) c(3)] h(1) by blast
qed

lemma hashtab_insert_dup:
  assumes "hashtab_ok hp" and "hashtab_abs hp k \<noteq> None"
  shows "hashtab_insert hp k d = throwE EEXIST"
proof -
  from assms(1) obtain h where h: "hp = Some h" "ht_funs_ok h" "ht_buckets_ok h"
    by (auto simp: hashtab_ok_def)
  then have ko: "key_order (ht_after h) (ht_same h)" by (simp add: ht_funs_ok_def)
  have "chain_insert (ht_after h) (ht_same h) k d (htable h ! ht_slot h k) = None"
    using key_order.insert_spec [OF ko ht_chain [OF h(2,3)], of k k d] assms(2)
    by (auto simp: hashtab_abs_def h(1) split: option.splits)
  then show ?thesis by (simp add: hashtab_insert_def h(1) ht_index_slot [OF h(2,3)])
qed

lemma hashtab_remove_spec:
  assumes "hashtab_ok hp"
  shows "case hashtab_abs hp k of
      None \<Rightarrow> hashtab_remove hp k = Inl ENOENT
    | Some d \<Rightarrow> \<exists>hp'. hashtab_remove hp k = Inr (hp', (k, d)) \<and> hashtab_ok hp'
        \<and> hashtab_abs hp' = (hashtab_abs hp)(k := None)"
proof -
  from assms obtain h where h: "hp = Some h" "ht_funs_ok h" "ht_buckets_ok h"
    "ht_nel h = of_nat (length (ht_entries h))" by (auto simp: hashtab_ok_def)
  then have ko: "key_order (ht_after h) (ht_same h)" by (simp add: ht_funs_ok_def)
  let ?i = "ht_slot h k"
  note spec = key_order.remove_spec [OF ko ht_chain [OF h(2,3)], of k k]
  show ?thesis
  proof (cases "chain_remove (ht_after h) (ht_same h) k (htable h ! ?i)")
    case None
    with spec show ?thesis by (simp add: hashtab_abs_def h(1) hashtab_remove_def ht_index_slot [OF h(2,3)])
  next
    case (Some r)
    then obtain c d where r: "chain_remove (ht_after h) (ht_same h) k (htable h ! ?i) = Some (c, (k, d))"
      using spec by (cases r) auto
    with spec have c: "map_of (htable h ! ?i) k = Some d" "chain_sorted (ht_after h) c"
      "map_of c = (map_of (htable h ! ?i))(k := None)" "set c \<subseteq> set (htable h ! ?i)"
      "length (htable h ! ?i) = Suc (length c)" by auto
    let ?h = "h\<lparr>htable := (htable h)[?i := c], ht_nel := ht_nel h - 1\<rparr>"
    have "length (ht_entries h) = Suc (length (ht_entries ?h))"
      using ht_entries_upd [OF ht_index_slot(2) [OF h(2,3)], of k c] c(5) by (simp add: ht_entries_def)
    then have "ht_nel ?h = of_nat (length (ht_entries ?h))" using h(4) by (simp add: ht_entries_def)
    moreover have "fst ` set c \<subseteq> insert k (fst ` set (htable h ! ?i))" using c(4) by auto
    ultimately have "hashtab_ok (Some ?h)"
      using h(2) ht_upd_bucket [OF h(2,3) c(2), of k] by (simp add: hashtab_ok_def)
    moreover have "hashtab_remove hp k = Inr (Some ?h, (k, d))"
      by (simp add: hashtab_remove_def h(1) ht_index_slot [OF h(2,3)] r)
    moreover have "hashtab_abs hp k = Some d" by (simp add: hashtab_abs_def h(1) c(1))
    ultimately show ?thesis using hashtab_abs_upd [OF h(2,3) c(3)] h(1) by auto
  qed
qed

lemma hashtab_replace_spec:
  assumes "hashtab_ok hp"
  shows "\<exists>hp' x. yields (hashtab_replace hp k d) (Inr (hp', x)) \<and> hashtab_abs hp' = (hashtab_abs hp)(k \<mapsto> d)
     \<and> map_option snd x = hashtab_abs hp k \<and> (hashtab_ok hp' \<longleftrightarrow> hashtab_abs hp k \<noteq> None)"
proof -
  from assms obtain h where h: "hp = Some h" "ht_funs_ok h" "ht_buckets_ok h"
    "ht_nel h = of_nat (length (ht_entries h))" by (auto simp: hashtab_ok_def)
  then have ko: "key_order (ht_after h) (ht_same h)" by (simp add: ht_funs_ok_def)
  let ?i = "ht_slot h k"
  obtain c x where r: "chain_replace (ht_after h) (ht_same h) k d (htable h ! ?i) = (c, x)" by force
  with key_order.replace_spec [OF ko ht_chain [OF h(2,3)], of k k d] have
    c: "chain_sorted (ht_after h) c" "map_of c = (map_of (htable h ! ?i))(k \<mapsto> d)"
    "fst ` set c = insert k (fst ` set (htable h ! ?i))" "map_option snd x = map_of (htable h ! ?i) k"
    "length c = (if map_of (htable h ! ?i) k = None then Suc (length (htable h ! ?i)) else length (htable h ! ?i))"
    by (simp_all add: fun_upd_def)
  let ?h = "h\<lparr>htable := (htable h)[?i := c], ht_nel := ht_nel h\<rparr>"
  have "yields (hashtab_replace hp k d) (Inr (Some ?h, x))"
    by (cases x) (simp_all add: hashtab_replace_def h(1) ht_index_slot [OF h(2,3)] r Let_def)
  moreover have "length (ht_entries ?h) = length (ht_entries h) + (if map_of (htable h ! ?i) k = None then 1 else 0)"
    using ht_entries_upd [OF ht_index_slot(2) [OF h(2,3)], of k c] c(5)
    by (auto simp: ht_entries_def split: if_splits)
  then have "hashtab_ok (Some ?h) \<longleftrightarrow> map_of (htable h ! ?i) k \<noteq> None"
    using h c(3) ht_upd_bucket [OF h(2,3) c(1), of k] by (simp add: hashtab_ok_def)
  moreover have "hashtab_abs (Some ?h) = (hashtab_abs hp)(k \<mapsto> d)"
    unfolding h(1) by (rule hashtab_abs_upd [OF h(2,3) c(2)])
  moreover have "hashtab_abs hp k = map_of (htable h ! ?i) k" by (simp add: hashtab_abs_def h(1))
  ultimately show ?thesis using c(4) by (intro exI [of _ "Some ?h"] exI [of _ x]) simp
qed

lemma ht_entries_abs:
  assumes "hashtab_ok (Some h)"
  shows "(k, d) \<in> set (ht_entries h) \<longleftrightarrow> hashtab_abs (Some h) k = Some d"
proof -
  have h: "ht_funs_ok h" "ht_buckets_ok h" using assms by (simp_all add: hashtab_ok_def)
  note slot = ht_index_slot(2) [OF h, of k]
  have "(k, d) \<in> set (ht_entries h) \<longleftrightarrow> (k, d) \<in> set (htable h ! ht_slot h k)"
  proof
    assume "(k, d) \<in> set (ht_entries h)"
    then obtain i where i: "i < length (htable h)" "(k, d) \<in> set (htable h ! i)" by (auto simp: ht_entries_def set_conv_nth [of "htable h"])
    moreover have "ht_slot h k = i" using h(2) i by (force simp: ht_buckets_ok_def)
    ultimately show "(k, d) \<in> set (htable h ! ht_slot h k)" by simp
  next
    assume "(k, d) \<in> set (htable h ! ht_slot h k)"
    then show "(k, d) \<in> set (ht_entries h)" using slot unfolding ht_entries_def set_concat by (meson UN_I nth_mem)
  qed
  moreover have "distinct (map fst (htable h ! ht_slot h k))"
    using h slot by (intro key_order.distinct_keys [of "ht_after h" "ht_same h"]) (simp_all add: ht_funs_ok_def ht_buckets_ok_def)
  ultimately show ?thesis by (simp add: hashtab_abs_def)
qed

lemma ht_entries_distinct:
  assumes "hashtab_ok (Some h)"
  shows "distinct (map fst (ht_entries h))" "map_of (ht_entries h) = hashtab_abs (Some h)"
proof -
  have h: "ht_funs_ok h" "ht_buckets_ok h" using assms by (simp_all add: hashtab_ok_def)
  have "distinct (map fst (concat (take n (htable h)))) \<and> (\<forall>x \<in> set (concat (take n (htable h))). ht_slot h (fst x) < n)" if "n \<le> length (htable h)" for n
    using that
  proof (induction n)
    case (Suc n)
    have b: "distinct (map fst (htable h ! n))" "\<forall>x \<in> set (htable h ! n). ht_slot h (fst x) = n"
      using h Suc.prems by (auto simp: ht_funs_ok_def ht_buckets_ok_def intro: key_order.distinct_keys [of "ht_after h" "ht_same h"])
    have eq: "concat (take (Suc n) (htable h)) = concat (take n (htable h)) @ htable h ! n" using Suc.prems by (simp add: take_Suc_conv_app_nth)
    have IH: "distinct (map fst (concat (take n (htable h))))" "\<forall>x \<in> set (concat (take n (htable h))). ht_slot h (fst x) < n" using Suc by simp_all
    have "fst ` set (concat (take n (htable h))) \<inter> fst ` set (htable h ! n) = {}" using IH(2) b(2) by fastforce
    then show ?case unfolding eq using IH b by (auto simp: less_Suc_eq)
  qed simp
  from this [of "length (htable h)"] show d: "distinct (map fst (ht_entries h))" by (simp add: ht_entries_def)
  show "map_of (ht_entries h) = hashtab_abs (Some h)"
  proof
    fix k
    have "map_of (ht_entries h) k = Some d \<longleftrightarrow> hashtab_abs (Some h) k = Some d" for d
      unfolding map_of_eq_Some_iff [OF d] by (rule ht_entries_abs [OF assms])
    then show "map_of (ht_entries h) k = hashtab_abs (Some h) k" by (metis not_Some_eq)
  qed
qed

lemma hashtab_map_entries:
  assumes "hashtab_ok (Some h)"
  shows "hashtab_map (Some h) app s = foldE (\<lambda>(k, d). app k d) (ht_entries h) s"
proof -
  have len: "length (htable h) = unat (ht_size h)" using assms by (simp add: hashtab_ok_def ht_buckets_ok_def)
  then show ?thesis
    using foldE_buckets [OF order_refl, of "htable h"] by (simp add: hashtab_map_def ht_entries_def len [symmetric])
qed

section \<open>The map interface\<close>

text \<open>\<open>adm\<close> is the set of bindings that may be inserted. What a lookup of an unbound key returns is
  left open (the SID table answers with a default) and fixed in the extension.\<close>

locale map_store =
  fixes absm :: "'s \<Rightarrow> 'k \<Rightarrow> 'd option"
    and inv :: "'s \<Rightarrow> bool"
    and adm :: "'k \<Rightarrow> 'd \<Rightarrow> bool"
    and lookup :: "'s \<Rightarrow> 'k \<Rightarrow> 'd option res"
    and ins :: "'s \<Rightarrow> 'k \<Rightarrow> 'd \<Rightarrow> 's alloc_m"
  assumes lookup_bound: "inv s \<Longrightarrow> absm s k = Some d \<Longrightarrow> lookup s k = Inr (Some d)"
    and ins_new: "inv s \<Longrightarrow> absm s k = None \<Longrightarrow> adm k d \<Longrightarrow>
      \<exists>s'. yields (ins s k d) (Inr s') \<and> inv s' \<and> absm s' = (absm s)(k \<mapsto> d)"
    and ins_dup: "inv s \<Longrightarrow> absm s k \<noteq> None \<Longrightarrow> yields (ins s k d) (Inl EEXIST)"
begin

lemma ins_Inr:
  assumes "inv s" and "adm k d" and "ins s k d a = (Inr s', a')"
  shows "inv s'" and "absm s k = None" and "absm s' = (absm s)(k \<mapsto> d)"
proof -
  show none: "absm s k = None"
  proof (rule ccontr)
    assume "absm s k \<noteq> None"
    from yields_Inr [OF ins_dup [OF assms(1) this] assms(3)] show False by simp
  qed
  from ins_new [OF assms(1) none assms(2)] obtain s2 where
    s2: "yields (ins s k d) (Inr s2)" "inv s2" "absm s2 = (absm s)(k \<mapsto> d)" by blast
  with yields_Inr [OF s2(1) assms(3)] show "inv s'" "absm s' = (absm s)(k \<mapsto> d)" by simp_all
qed

lemma lookup_after_ins:
  assumes "inv s" and "adm k d" and "ins s k d a = (Inr s', a')"
  shows "lookup s' k = Inr (Some d)" and "absm s k' = Some d' \<Longrightarrow> lookup s' k' = Inr (Some d')"
  using ins_Inr [OF assms] by (auto intro!: lookup_bound)

text \<open>Loading a list of bindings with distinct new keys.\<close>

lemma ins_all:
  assumes "inv s" and "distinct (map fst xs)" and "\<forall>k \<in> fst ` set xs. absm s k = None"
    and "\<forall>x \<in> set xs. adm (fst x) (snd x)"
  shows "\<exists>s'. yields (foldE (\<lambda>(k, d) s. ins s k d) xs s) (Inr s') \<and> inv s' \<and> absm s' = absm s ++ map_of xs"
  using assms
proof (induction xs arbitrary: s)
  case (Cons x xs)
  obtain k d where x: "x = (k, d)" by force
  from Cons.prems x have "absm s k = None" "adm k d" by simp_all
  from ins_new [OF Cons.prems(1) this] obtain s1 where
    s1: "yields (ins s k d) (Inr s1)" "inv s1" "absm s1 = (absm s)(k \<mapsto> d)" by blast
  have "\<forall>k' \<in> fst ` set xs. absm s1 k' = None" using Cons.prems x s1(3) by auto
  with Cons.IH [OF s1(2)] Cons.prems x obtain s2 where
    s2: "yields (foldE (\<lambda>(k, d) s. ins s k d) xs s1) (Inr s2)" "inv s2" "absm s2 = absm s1 ++ map_of xs" by auto
  have "map_of xs k = None" using Cons.prems(2) x by (simp add: map_of_eq_None_iff)
  then have "absm s1 ++ map_of xs = absm s ++ map_of (x # xs)"
    using x s1(3) by (auto simp: fun_eq_iff map_add_def split: option.splits)
  moreover have "yields (foldE (\<lambda>(k, d) s. ins s k d) (x # xs) s) (Inr s2)"
    using s2(1) x by (simp add: yields_bindE_Inr [OF s1(1)])
  ultimately show ?case using s2 by metis
qed simp

end

locale exact_map_store = map_store +
  assumes lookup_unbound: "inv s \<Longrightarrow> absm s k = None \<Longrightarrow> lookup s k = Inr None"
begin

lemma lookup_abs: "inv s \<Longrightarrow> lookup s k = Inr (absm s k)"
  by (cases "absm s k") (simp_all add: lookup_bound lookup_unbound)

end

interpretation ht: exact_map_store hashtab_abs hashtab_ok "\<lambda>_ _. True" hashtab_search hashtab_insert
  by unfold_locales (simp_all add: hashtab_search_abs hashtab_insert_new hashtab_insert_dup)

section \<open>Symbol tables are well formed\<close>

lemma strcmp_eq_0 [simp]: "strcmp a b = 0 \<longleftrightarrow> a = b"
  by (induction a b rule: strcmp.induct) auto

lemma strcmp_refl [simp]: "strcmp a a = 0"
  by simp

lemma strcmp_trans: "strcmp a b > 0 \<Longrightarrow> strcmp b c > 0 \<Longrightarrow> strcmp a c > 0"
proof (induction a b arbitrary: c rule: strcmp.induct)
  case (3 x xs)
  then show ?case by (cases c) auto
next
  case (4 x xs y ys)
  show ?case
  proof (cases c)
    case (Cons z zs)
    with 4 show ?thesis by (auto split: if_splits)
  qed simp
qed auto

lemma strcmp_swap: "strcmp a b > 0 \<longleftrightarrow> strcmp b a < 0"
  by (induction a b rule: strcmp.induct) auto

interpretation sym: key_order "\<lambda>a b. symcmp a b > 0" "\<lambda>a b. symcmp a b = 0"
proof unfold_locales
  show "symcmp a b > 0 \<Longrightarrow> symcmp b c > 0 \<Longrightarrow> symcmp a c > 0" for a b c
    unfolding symcmp_def by (rule strcmp_trans)
  show "a \<noteq> b \<Longrightarrow> \<not> symcmp a b > 0 \<Longrightarrow> symcmp b a > 0" for a b
    unfolding symcmp_def using strcmp_swap [of b a] strcmp_eq_0 [of a b] by linarith
qed (simp_all add: symcmp_def)

lemma hashtab_create_sym:
  fixes sz :: u32
  assumes "0 < unat sz" and "unat sz \<le> 2 ^ 31"
  shows "\<exists>h :: (string, 'd) hashtab_val. yields (hashtab_create (symhash sc) symcmp sz) (Inr h) \<and> hashtab_ok (Some h)
     \<and> hashtab_abs (Some h) = Map.empty"
proof -
  let ?h = "\<lparr>htable = replicate (unat sz) [], ht_size = sz, ht_nel = 0,
    ht_hash_value = symhash sc, ht_keycmp = symcmp\<rparr> :: (string, 'd) hashtab_val"
  have slot: "ht_slot ?h k < unat sz" for k
    using assms(1) word_and_lt [of sz] by (simp add: ht_slot_def symhash_def word_less_nat_alt unat_gt_0)
  then have "ht_funs_ok ?h" using assms(2) sym.key_order_axioms by (simp add: ht_funs_ok_def)
  moreover have "ht_buckets_ok ?h" by (simp add: ht_buckets_ok_def)
  moreover have "ht_entries ?h = []" by (simp add: ht_entries_def)
  ultimately have "hashtab_ok (Some ?h)" by (simp add: hashtab_ok_def)
  moreover have "hashtab_abs (Some ?h) = Map.empty" using slot by (simp add: hashtab_abs_def fun_eq_iff)
  moreover have "yields (hashtab_create (symhash sc) symcmp sz) (Inr ?h)" by (simp add: hashtab_create_def)
  ultimately show ?thesis by blast
qed

lemma symtab_init_no_oom:
  assumes "0 < unat sz" and "unat sz \<le> 2 ^ 31"
  shows "\<exists>s :: 'd symtab. symtab_init sc sz [] = (Inr s, []) \<and> hashtab_ok (table s)
     \<and> hashtab_abs (table s) = Map.empty \<and> nprim s = 0"
proof -
  from hashtab_create_sym [OF assms, of sc] obtain h :: "(string, 'd) hashtab_val" where
    h: "yields (hashtab_create (symhash sc) symcmp sz) (Inr h)" "hashtab_ok (Some h)"
    "hashtab_abs (Some h) = Map.empty" by blast
  have "symtab_init sc sz [] = (Inr \<lparr>table = Some h, nprim = 0\<rparr>, [])"
    using yields_no_oom [OF h(1)] by (simp add: symtab_init_def bindE_def returnE_def)
  with h show ?thesis by (intro exI [of _ "\<lparr>table = Some h, nprim = 0\<rparr>"]) simp
qed

section \<open>Properties\<close>

text \<open>Claim C40. On every well-formed table the operations are those of a finite map: \<open>hashtab_search\<close>
  is lookup; \<open>hashtab_insert\<close> fails with \<open>EEXIST\<close> on a bound key and otherwise adds the binding (or
  fails with \<open>ENOMEM\<close>); \<open>hashtab_remove\<close> fails with \<open>ENOENT\<close> on an unbound key and otherwise removes
  the binding and hands it to the destructor. All of them keep the table well formed, element
  counter included.\<close>

theorem hashtab_refines_map:
  assumes "hashtab_ok h"
  shows "hashtab_search h k = Inr (hashtab_abs h k)
    \<and> (hashtab_abs h k \<noteq> None \<longrightarrow> hashtab_insert h k d = throwE EEXIST)
    \<and> (hashtab_abs h k = None \<longrightarrow> (\<exists>h'. yields (hashtab_insert h k d) (Inr h') \<and> hashtab_ok h'
          \<and> hashtab_abs h' = (hashtab_abs h)(k \<mapsto> d)))
    \<and> (case hashtab_abs h k of None \<Rightarrow> hashtab_remove h k = Inl ENOENT
        | Some v \<Rightarrow> \<exists>h'. hashtab_remove h k = Inr (h', (k, v)) \<and> hashtab_ok h'
            \<and> hashtab_abs h' = (hashtab_abs h)(k := None))"
  using hashtab_search_abs [OF assms] hashtab_insert_dup [OF assms] hashtab_insert_new [OF assms]
    hashtab_remove_spec [OF assms] by simp

text \<open>\<open>hashtab_replace\<close> binds the key to the new datum and returns the old one, but when the
  key is new it adds a node without counting it: the table is then no longer well formed.\<close>

theorem hashtab_replace_miscounts:
  assumes "hashtab_ok h"
  shows "\<exists>h' x. yields (hashtab_replace h k d) (Inr (h', x)) \<and> hashtab_abs h' = (hashtab_abs h)(k \<mapsto> d)
     \<and> map_option snd x = hashtab_abs h k \<and> (hashtab_ok h' \<longleftrightarrow> hashtab_abs h k \<noteq> None)"
  by (rule hashtab_replace_spec [OF assms])

text \<open>Loading a symbol table: after \<open>symtab_init\<close> with a usable size and the insertion of any
  list of symbols with distinct names, \<open>hashtab_search\<close> finds exactly those symbols, whatever their hash
  values.\<close>

lemma symtab_load:
  assumes "0 < unat sz" and "unat sz \<le> 2 ^ 31" and "distinct (map fst xs)"
  shows "\<exists>s h. symtab_init sc sz [] = (Inr s, []) \<and>
     yields (foldE (\<lambda>(k, d) h. hashtab_insert h k d) xs (table s)) (Inr h) \<and>
     (\<forall>k. hashtab_search h k = Inr (map_of xs k))"
proof -
  from symtab_init_no_oom [OF assms(1,2), of sc] obtain s :: "'a symtab" where
    s: "symtab_init sc sz [] = (Inr s, [])" "hashtab_ok (table s)" "hashtab_abs (table s) = Map.empty" by blast
  from ht.ins_all [OF s(2) assms(3)] s(3) obtain h where
    "yields (foldE (\<lambda>(k, d) h. hashtab_insert h k d) xs (table s)) (Inr h)" "hashtab_ok h"
    "hashtab_abs h = map_of xs" by auto
  with s(1) show ?thesis using ht.lookup_abs by metis
qed

section \<open>Witnesses\<close>

lemma symtab_example: "\<exists>s :: nat symtab. symtab_init True 16 [] = (Inr s, []) \<and> hashtab_ok (table s)
    \<and> hashtab_abs (table s) = Map.empty"
  using symtab_init_no_oom [of 16 True] by auto

theorem hashtab_refines_map_witness:
  "\<exists>h h' :: (string, nat) hashtab_t. hashtab_ok h \<and> yields (hashtab_insert h ''init_t'' 1) (Inr h')
     \<and> hashtab_abs h' ''init_t'' = Some 1"
proof -
  from symtab_example obtain s :: "nat symtab" where s: "hashtab_ok (table s)" "hashtab_abs (table s) = Map.empty"
    by blast
  from hashtab_refines_map [OF s(1), of "''init_t''" 1] s(2) obtain h' where
    "yields (hashtab_insert (table s) ''init_t'' 1) (Inr h')"
    "hashtab_abs h' = [''init_t'' \<mapsto> 1]" by auto
  with s(1) show ?thesis by (intro exI [of _ "table s"] exI [of _ h']) simp
qed

theorem hashtab_replace_miscounts_witness:
  "\<exists>h h' :: (string, nat) hashtab_t. \<exists>x. hashtab_ok h \<and> yields (hashtab_replace h ''init_t'' 1) (Inr (h', x)) \<and> \<not> hashtab_ok h'"
proof -
  from symtab_example obtain s :: "nat symtab" where s: "hashtab_ok (table s)" "hashtab_abs (table s) = Map.empty"
    by blast
  from hashtab_replace_miscounts [OF s(1), of "''init_t''" 1] s(2) obtain h' x where
    "yields (hashtab_replace (table s) ''init_t'' 1) (Inr (h', x))" "\<not> hashtab_ok h'" by auto
  with s(1) show ?thesis by blast
qed

lemma symtab_load_witness:
  "\<exists>s h. symtab_init True 16 [] = (Inr s, []) \<and>
     yields (foldE (\<lambda>(k, d) h. hashtab_insert h k d) [(''object_r'', 1 :: nat), (''system_r'', 2)] (table s)) (Inr h) \<and>
     (\<forall>k. hashtab_search h k = Inr (map_of [(''object_r'', 1), (''system_r'', 2)] k))"
  by (rule symtab_load) auto

end
