(* ===== verification/Ebitmap.thy ===== *)
theory Ebitmap
  imports Policy_File
begin

text \<open>
  The extensible bitmap of libsepol (ebitmap.c, ebitmap.h; \<open>ebitmap_write\<close> is in write.c):
  a set of 32-bit numbers as a linked list of 64-bit chunks in increasing order. The list of
  nodes is the record field \<open>node\<close>, the C field \<open>map\<close> is \<open>nmap\<close>. The definitions come first,
  then the abstraction \<open>ebitmap_bits\<close> to a set of naturals, the representation invariant
  \<open>ebitmap_ok\<close> and the lemmas that every operation implements the set operation it is
  named after. Sums of a \<open>uint32_t\<close> with the \<open>size_t\<close> constant \<open>MAPSIZE\<close> are computed at 64 bits
  in the C code and as naturals here; \<open>ebitmap_ok_no_wrap\<close> shows that a 32-bit \<open>size_t\<close>
  would give the same sums.
\<close>

unbundle bit_operations_syntax

section \<open>Data and operations\<close>

abbreviation MAPSIZE :: nat where
  "MAPSIZE \<equiv> 64"

record ebitmap_node =
  startbit :: u32
  nmap :: u64

record ebitmap =
  node :: "ebitmap_node list"
  highbit :: u32

definition ebitmap_init :: ebitmap where
  "ebitmap_init = \<lparr>node = [], highbit = 0\<rparr>"

definition ebitmap_length :: "ebitmap \<Rightarrow> u32" where
  "ebitmap_length e = highbit e"

definition ebitmap_startbit :: "ebitmap \<Rightarrow> u32" where
  "ebitmap_startbit e = (case node e of [] \<Rightarrow> 0 | n # _ \<Rightarrow> startbit n)"

text \<open>The bit \<open>MAPBIT << (bit - n->startbit)\<close> of a node.\<close>

definition node_mapbit :: "ebitmap_node \<Rightarrow> u32 \<Rightarrow> u64" where
  "node_mapbit n b = push_bit (unat (b - startbit n)) 1"

definition ebitmap_node_get_bit :: "ebitmap_node \<Rightarrow> u32 \<Rightarrow> bool" where
  "ebitmap_node_get_bit n b \<longleftrightarrow> nmap n AND node_mapbit n b \<noteq> 0"

fun get_bit_nodes :: "ebitmap_node list \<Rightarrow> u32 \<Rightarrow> bool" where
  "get_bit_nodes [] b = False"
| "get_bit_nodes (n # ns) b =
     (if startbit n \<le> b then
        if unat (startbit n) + MAPSIZE > unat b then nmap n AND node_mapbit n b \<noteq> 0
        else get_bit_nodes ns b
      else False)"

definition ebitmap_get_bit :: "ebitmap \<Rightarrow> u32 \<Rightarrow> bool" where
  "ebitmap_get_bit e b = (if highbit e < b then False else get_bit_nodes (node e) b)"

definition new_node :: "u32 \<Rightarrow> ebitmap_node" where
  "new_node b = (let s = chunk_of b in
     \<lparr>startbit = s, nmap = push_bit (unat (b - s)) 1\<rparr>)"

text \<open>
  The walk of \<open>ebitmap_set_bit\<close>: \<open>prev\<close> is the node before the list; the result is the new
  list and, when the last node appears or disappears, the new \<open>highbit\<close>.
\<close>

fun set_bit_nodes ::
  "ebitmap_node option \<Rightarrow> ebitmap_node list \<Rightarrow> u32 \<Rightarrow> bool \<Rightarrow> (ebitmap_node list \<times> u32 option) alloc_m"
where
  "set_bit_nodes prev [] b value =
     (if \<not> value then returnE ([], None)
      else bindE malloc (\<lambda>_. returnE ([new_node b], Some ((chunk_of b) + 64))))"
| "set_bit_nodes prev (n # ns) b value =
     (if startbit n \<le> b then
        if unat (startbit n) + MAPSIZE > unat b then
          if value then returnE (n\<lparr>nmap := nmap n OR node_mapbit n b\<rparr> # ns, None)
          else (let m = nmap n AND NOT (node_mapbit n b) in
            if m \<noteq> 0 then returnE (n\<lparr>nmap := m\<rparr> # ns, None)
            else returnE (ns,
              if ns = [] then Some (case prev of None \<Rightarrow> 0 | Some p \<Rightarrow> startbit p + 64) else None))
        else bindE (set_bit_nodes (Some n) ns b value) (\<lambda>(ns', h). returnE (n # ns', h))
      else if \<not> value then returnE (n # ns, None)
      else bindE malloc (\<lambda>_. returnE (new_node b # n # ns, None)))"

definition ebitmap_set_bit :: "ebitmap \<Rightarrow> u32 \<Rightarrow> bool \<Rightarrow> ebitmap alloc_m" where
  "ebitmap_set_bit e b value =
     (let s = chunk_of b; h = s + 64 in
      if h = 0 then throwE EINVAL
      else bindE (set_bit_nodes None (node e) b value) (\<lambda>(ns, h').
        returnE \<lparr>node = ns, highbit = (case h' of None \<Rightarrow> highbit e | Some x \<Rightarrow> x)\<rparr>))"

definition ebitmap_destroy :: "ebitmap \<Rightarrow> ebitmap" where
  "ebitmap_destroy e = e\<lparr>highbit := 0, node := []\<rparr>"

fun or_nodes :: "ebitmap_node list \<Rightarrow> ebitmap_node list \<Rightarrow> ebitmap_node list alloc_m" where
  "or_nodes [] [] = returnE []"
| "or_nodes (n1 # ns1) [] =
     bindE malloc (\<lambda>_. bindE (or_nodes ns1 []) (\<lambda>r.
       returnE (\<lparr>startbit = startbit n1, nmap = nmap n1\<rparr> # r)))"
| "or_nodes [] (n2 # ns2) =
     bindE malloc (\<lambda>_. bindE (or_nodes [] ns2) (\<lambda>r.
       returnE (\<lparr>startbit = startbit n2, nmap = nmap n2\<rparr> # r)))"
| "or_nodes (n1 # ns1) (n2 # ns2) =
     bindE malloc (\<lambda>_.
       if startbit n1 = startbit n2 then
         bindE (or_nodes ns1 ns2) (\<lambda>r.
           returnE (\<lparr>startbit = startbit n1, nmap = nmap n1 OR nmap n2\<rparr> # r))
       else if startbit n1 < startbit n2 then
         bindE (or_nodes ns1 (n2 # ns2)) (\<lambda>r.
           returnE (\<lparr>startbit = startbit n1, nmap = nmap n1\<rparr> # r))
       else
         bindE (or_nodes (n1 # ns1) ns2) (\<lambda>r.
           returnE (\<lparr>startbit = startbit n2, nmap = nmap n2\<rparr> # r)))"

definition ebitmap_or :: "ebitmap \<Rightarrow> ebitmap \<Rightarrow> ebitmap alloc_m" where
  "ebitmap_or e1 e2 = bindE (or_nodes (node e1) (node e2)) (\<lambda>ns.
     returnE \<lparr>node = ns, highbit = (if highbit e1 > highbit e2 then highbit e1 else highbit e2)\<rparr>)"

text \<open>\<open>ebitmap_union\<close> returns -1 for every failure of \<open>ebitmap_or\<close>, and then leaves its
  destination as it was.\<close>

definition ebitmap_union :: "ebitmap \<Rightarrow> ebitmap \<Rightarrow> ebitmap alloc_m" where
  "ebitmap_union dst e1 = bindE (failE (ebitmap_or dst e1) STATUS_ERR) (\<lambda>tmp.
     returnE \<lparr>node = node tmp, highbit = highbit tmp\<rparr>)"

definition ebitmap_and :: "ebitmap \<Rightarrow> ebitmap \<Rightarrow> ebitmap alloc_m" where
  "ebitmap_and e1 e2 =
     foldE (\<lambda>i dst. if ebitmap_get_bit e1 (of_nat i) \<and> ebitmap_get_bit e2 (of_nat i)
                    then ebitmap_set_bit dst (of_nat i) True else returnE dst)
       [0..<unat (min (ebitmap_length e1) (ebitmap_length e2))] ebitmap_init"

definition ebitmap_xor :: "ebitmap \<Rightarrow> ebitmap \<Rightarrow> ebitmap alloc_m" where
  "ebitmap_xor e1 e2 =
     foldE (\<lambda>i dst. ebitmap_set_bit dst (of_nat i)
              (ebitmap_get_bit e1 (of_nat i) \<noteq> ebitmap_get_bit e2 (of_nat i)))
       [0..<unat (max (ebitmap_length e1) (ebitmap_length e2))] ebitmap_init"

definition ebitmap_not :: "ebitmap \<Rightarrow> u32 \<Rightarrow> ebitmap alloc_m" where
  "ebitmap_not e1 maxbit =
     foldE (\<lambda>i dst. ebitmap_set_bit dst (of_nat i) (\<not> ebitmap_get_bit e1 (of_nat i)))
       [0..<unat maxbit] ebitmap_init"

definition ebitmap_andnot :: "ebitmap \<Rightarrow> ebitmap \<Rightarrow> u32 \<Rightarrow> ebitmap alloc_m" where
  "ebitmap_andnot e1 e2 maxbit =
     bindE (ebitmap_not e2 maxbit) (\<lambda>e3. ebitmap_and e1 e3)"

definition ebitmap_cardinality :: "ebitmap \<Rightarrow> u32" where
  "ebitmap_cardinality e1 =
     fold (\<lambda>i count. if ebitmap_get_bit e1 (of_nat i) then count + 1 else count)
       [unat (ebitmap_startbit e1)..<unat (ebitmap_length e1)] 0"

fun cmp_nodes :: "ebitmap_node list \<Rightarrow> ebitmap_node list \<Rightarrow> bool" where
  "cmp_nodes (n1 # ns1) (n2 # ns2) =
     (if startbit n1 = startbit n2 \<and> nmap n1 = nmap n2 then cmp_nodes ns1 ns2 else False)"
| "cmp_nodes [] [] = True"
| "cmp_nodes _ _ = False"

definition ebitmap_cmp :: "ebitmap \<Rightarrow> ebitmap \<Rightarrow> bool" where
  "ebitmap_cmp e1 e2 = (if highbit e1 \<noteq> highbit e2 then False else cmp_nodes (node e1) (node e2))"

text \<open>The distance is an \<open>int\<close>; -1 reports the failure of \<open>ebitmap_xor\<close>.\<close>

definition ebitmap_hamming_distance :: "ebitmap \<Rightarrow> ebitmap \<Rightarrow> int alloc_m" where
  "ebitmap_hamming_distance e1 e2 =
     (if ebitmap_cmp e1 e2 then returnE 0
      else bindE (failE (ebitmap_xor e1 e2) STATUS_ERR) (\<lambda>tmp.
        returnE (uint (ebitmap_cardinality tmp))))"

fun cpy_nodes :: "ebitmap_node list \<Rightarrow> ebitmap_node list alloc_m" where
  "cpy_nodes [] = returnE []"
| "cpy_nodes (n # ns) = bindE malloc (\<lambda>_. bindE (cpy_nodes ns) (\<lambda>r.
     returnE (\<lparr>startbit = startbit n, nmap = nmap n\<rparr> # r)))"

definition ebitmap_cpy :: "ebitmap \<Rightarrow> ebitmap alloc_m" where
  "ebitmap_cpy src = bindE (cpy_nodes (node src)) (\<lambda>ns. returnE \<lparr>node = ns, highbit = highbit src\<rparr>)"

fun contains_nodes :: "ebitmap_node list \<Rightarrow> ebitmap_node list \<Rightarrow> bool" where
  "contains_nodes (n1 # ns1) (n2 # ns2) =
     (if startbit n1 \<le> startbit n2 then
        if startbit n1 < startbit n2 then contains_nodes ns1 (n2 # ns2)
        else if nmap n1 AND nmap n2 \<noteq> nmap n2 then False
        else contains_nodes ns1 ns2
      else False)"
| "contains_nodes ns1 [] = True"
| "contains_nodes [] (n2 # ns2) = False"

definition ebitmap_contains :: "ebitmap \<Rightarrow> ebitmap \<Rightarrow> bool" where
  "ebitmap_contains e1 e2 =
     (if highbit e1 < highbit e2 then False else contains_nodes (node e1) (node e2))"

text \<open>
  The macro \<open>ebitmap_for_each_bit\<close>: the cursor is the rest of the node list. The loop visits
  every bit of every chunk; it is a fault to read the current node when there is none, or to
  shift by the chunk width or more (both happen only when \<open>highbit\<close> is not the end of the
  last chunk).
\<close>

definition ebitmap_next :: "ebitmap_node list \<Rightarrow> u32 \<Rightarrow> ebitmap_node list \<times> u32" where
  "ebitmap_next ns b = (case ns of
     n # n' # ns' \<Rightarrow> if b = startbit n + 63 then (n' # ns', startbit n') else (ns, b + 1)
   | _ \<Rightarrow> (ns, b + 1))"

partial_function (option) for_each_loop ::
  "u32 \<Rightarrow> ebitmap_node list \<Rightarrow> u32 \<Rightarrow> (u32 \<times> bool) list res option"
where
  "for_each_loop len ns b =
     (if b < len then
        case ns of
          [] \<Rightarrow> Some (Inl Fault)
        | n # _ \<Rightarrow>
            if unat (b - startbit n) \<ge> MAPSIZE then Some (Inl Fault)
            else Option.bind (for_each_loop len (fst (ebitmap_next ns b)) (snd (ebitmap_next ns b)))
                   (\<lambda>r. Some (bindR r (\<lambda>bs. Inr ((b, ebitmap_node_get_bit n b) # bs))))
      else Some (Inr []))"

declare for_each_loop.simps [code]

definition ebitmap_for_each_bit :: "ebitmap \<Rightarrow> (u32 \<times> bool) list res" where
  "ebitmap_for_each_bit e =
     (case for_each_loop (ebitmap_length e) (node e) (ebitmap_startbit e) of
        None \<Rightarrow> Inl Diverge | Some r \<Rightarrow> r)"

text \<open>Most loops over a bitmap skip the clear bits with \<open>ebitmap_node_get_bit\<close>.\<close>

definition ebitmap_positive_bits :: "ebitmap \<Rightarrow> u32 list res" where
  "ebitmap_positive_bits e = bindR (ebitmap_for_each_bit e) (\<lambda>bs. Inr (map fst (filter snd bs)))"

fun read_nodes ::
  "nat \<Rightarrow> u32 \<Rightarrow> ebitmap_node option \<Rightarrow> policy_file \<Rightarrow> (ebitmap_node list \<times> policy_file) alloc_m"
where
  "read_nodes 0 hb l fp = returnE ([], fp)"
| "read_nodes (Suc c) hb l fp =
     bindE (liftE (next_entry fp 4)) (\<lambda>(buf, fp1).
     bindE malloc (\<lambda>_.
       let s = get_le buf :: u32 in
       if s AND 63 \<noteq> 0 then throwE EINVAL
       else if unat s > unat hb - MAPSIZE then throwE EINVAL
       else bindE (liftE (next_entry fp1 8)) (\<lambda>(buf2, fp2).
         let n = \<lparr>startbit = s, nmap = get_le buf2\<rparr> in
         if nmap n = 0 then throwE EINVAL
         else if (case l of None \<Rightarrow> False | Some p \<Rightarrow> startbit n \<le> startbit p) then throwE EINVAL
         else bindE (read_nodes c hb (Some n) fp2) (\<lambda>(ns, fp3). returnE (n # ns, fp3)))))"

definition ebitmap_read :: "policy_file \<Rightarrow> (ebitmap \<times> policy_file) alloc_m" where
  "ebitmap_read fp =
     bindE (liftE (next_entry fp 12)) (\<lambda>(buf, fp1).
       let mapsize = get_le (take 4 buf) :: u32;
           hb = get_le (take 4 (drop 4 buf)) :: u32;
           count = get_le (drop 8 buf) :: u32 in
       if mapsize \<noteq> 64 then throwE EINVAL
       else if hb = 0 then returnE (\<lparr>node = [], highbit = hb\<rparr>, fp1)
       else if hb AND 63 \<noteq> 0 then throwE EINVAL
       else bindE (read_nodes (unat count) hb None fp1) (\<lambda>(ns, fp2).
         returnE (\<lparr>node = ns, highbit = hb\<rparr>, fp2)))"

fun write_nodes :: "ebitmap_node list \<Rightarrow> policy_file \<Rightarrow> policy_file res" where
  "write_nodes [] fp = Inr fp"
| "write_nodes (n # ns) fp =
     (let (items, fp1) = put_entry (put_le 4 (startbit n)) 4 1 fp in
      if items \<noteq> 1 then Inl STATUS_ERR
      else let (items2, fp2) = put_entry (put_le 8 (nmap n)) 8 1 fp1 in
        if items2 \<noteq> 1 then Inl STATUS_ERR else write_nodes ns fp2)"

definition ebitmap_write :: "ebitmap \<Rightarrow> policy_file \<Rightarrow> policy_file res" where
  "ebitmap_write e fp =
     (let (items, fp1) = put_entry
            (put_le 4 (64 :: u32) @ put_le 4 (highbit e) @ put_le 4 (of_nat (length (node e)) :: u32))
            4 3 fp in
      if items \<noteq> 3 then Inl STATUS_ERR else write_nodes (node e) fp1)"

section \<open>Abstraction and invariant\<close>

definition node_has :: "ebitmap_node \<Rightarrow> nat \<Rightarrow> bool" where
  "node_has n i \<longleftrightarrow> unat (startbit n) \<le> i \<and> i < unat (startbit n) + MAPSIZE
     \<and> bit (nmap n) (i - unat (startbit n))"

definition nodes_bits :: "ebitmap_node list \<Rightarrow> nat set" where
  "nodes_bits ns = {i. \<exists>n \<in> set ns. node_has n i}"

definition ebitmap_bits :: "ebitmap \<Rightarrow> nat set" where
  "ebitmap_bits e = nodes_bits (node e)"

definition node_ok :: "ebitmap_node \<Rightarrow> bool" where
  "node_ok n \<longleftrightarrow> unat (startbit n) mod 64 = 0 \<and> unat (startbit n) + 64 < 2 ^ 32 \<and> nmap n \<noteq> 0"

definition nodes_ok :: "ebitmap_node list \<Rightarrow> bool" where
  "nodes_ok ns \<longleftrightarrow> sorted_wrt (\<lambda>a b. startbit a < startbit b) ns \<and> (\<forall>n \<in> set ns. node_ok n)"

text \<open>\<open>nodes_end\<close> is the value \<open>highbit\<close> has to have: the end of the last chunk.\<close>

definition nodes_end :: "ebitmap_node list \<Rightarrow> u32" where
  "nodes_end ns = (if ns = [] then 0 else startbit (last ns) + 64)"

definition ebitmap_ok :: "ebitmap \<Rightarrow> bool" where
  "ebitmap_ok e \<longleftrightarrow> nodes_ok (node e) \<and> highbit e = nodes_end (node e)"

section \<open>Chunks\<close>

lemma nodes_ok_simps [simp]:
  "nodes_ok []"
  "nodes_ok (n # ns) \<longleftrightarrow> node_ok n \<and> nodes_ok ns \<and> (\<forall>m \<in> set ns. startbit n < startbit m)"
  by (auto simp: nodes_ok_def)

lemma nodes_bits_simps [simp]:
  "nodes_bits [] = {}"
  "nodes_bits (n # ns) = {i. node_has n i} \<union> nodes_bits ns"
  by (auto simp: nodes_bits_def)

lemma unat_startbit_end: "node_ok n \<Longrightarrow> unat (startbit n + 64) = unat (startbit n) + 64"
  by (simp add: node_ok_def unat_word_ariths)

lemma chunk_gap:
  assumes "node_ok n" and "node_ok m" and "startbit n < startbit m"
  shows "unat (startbit n) + 64 \<le> unat (startbit m)"
proof -
  have "unat (startbit n) < unat (startbit m)" using assms(3) by (simp add: word_less_nat_alt)
  moreover from assms(1,2) have "unat (startbit n) mod 64 = 0" "unat (startbit m) mod 64 = 0"
    by (simp_all add: node_ok_def)
  ultimately show ?thesis by (metis mod_eq_gap)
qed

lemma chunk_unique:
  assumes "node_ok n" and "node_ok m" and "node_has n i"
    and "unat (startbit m) \<le> i" and "i < unat (startbit m) + 64"
  shows "startbit n = startbit m"
  using assms chunk_gap [of n m] chunk_gap [of m n]
  by (force simp: node_has_def)

lemma node_nonempty: "node_ok n \<Longrightarrow> \<exists>i. node_has n i"
proof -
  assume ok: "node_ok n"
  then obtain k where "bit (nmap n) k" unfolding node_ok_def by (auto simp: bit_eq_iff)
  moreover from this have "k < 64" using bit_imp_le_length by fastforce
  ultimately have "node_has n (unat (startbit n) + k)" by (simp add: node_has_def)
  then show ?thesis ..
qed

lemma nodes_bits_lower:
  assumes "nodes_ok (n # ns)" and "i \<in> nodes_bits ns"
  shows "unat (startbit n) + 64 \<le> i"
proof -
  from assms(2) obtain m where m: "m \<in> set ns" "node_has m i" by (auto simp: nodes_bits_def)
  with assms(1) have "unat (startbit n) + 64 \<le> unat (startbit m)"
    by (intro chunk_gap) (auto simp: nodes_ok_def)
  with m show ?thesis by (simp add: node_has_def)
qed

lemma mapbit_iff:
  assumes "startbit n \<le> b" and "unat b < unat (startbit n) + 64"
  shows "nmap n AND node_mapbit n b \<noteq> 0 \<longleftrightarrow> node_has n (unat b)"
proof -
  from assms(1) have le: "unat (startbit n) \<le> unat b" by (simp add: word_le_nat_alt)
  have "unat (b - startbit n) = unat b - unat (startbit n)" using assms(1) by (rule unat_sub)
  with le assms(2) show ?thesis
    by (auto simp: node_mapbit_def word_and_bit_nonzero node_has_def simp del: push_bit_of_1)
qed

lemma get_bit_nodes_iff: "nodes_ok ns \<Longrightarrow> get_bit_nodes ns b \<longleftrightarrow> unat b \<in> nodes_bits ns"
proof (induction ns)
  case (Cons n ns)
  have low: "unat b \<notin> nodes_bits ns" if "unat b < unat (startbit n) + 64"
    using nodes_bits_lower [OF Cons.prems] that by fastforce
  have out: "\<not> node_has n (unat b)" if "\<not> (startbit n \<le> b \<and> unat b < unat (startbit n) + 64)"
    using that by (auto simp: node_has_def word_le_nat_alt)
  show ?case
  proof (cases "startbit n \<le> b \<and> unat b < unat (startbit n) + 64")
    case True
    with low mapbit_iff [of n b] show ?thesis by simp
  next
    case False
    with out have no: "\<not> node_has n (unat b)" by simp
    show ?thesis
    proof (cases "startbit n \<le> b")
      case True
      with False no Cons show ?thesis by auto
    next
      case lt: False
      then have "unat b < unat (startbit n)" by (simp add: word_le_nat_alt)
      with low no lt show ?thesis by simp
    qed
  qed
qed simp

lemma nodes_end_bound: "nodes_ok ns \<Longrightarrow> i \<in> nodes_bits ns \<Longrightarrow> i < unat (nodes_end ns)"
proof -
  assume ok: "nodes_ok ns" and i: "i \<in> nodes_bits ns"
  then obtain n where n: "n \<in> set ns" "node_has n i" by (auto simp: nodes_bits_def)
  then have ne: "ns \<noteq> []" by auto
  from ok n have "startbit n \<le> startbit (last ns)"
    by (auto simp: nodes_ok_def intro: last_greatest)
  moreover from ok ne have "node_ok (last ns)" by (simp add: nodes_ok_def)
  ultimately show ?thesis using n ne
    by (auto simp: nodes_end_def unat_startbit_end node_has_def word_le_nat_alt)
qed

lemma ebitmap_bits_bound: "ebitmap_ok e \<Longrightarrow> i \<in> ebitmap_bits e \<Longrightarrow> i < unat (highbit e)"
  by (simp add: ebitmap_ok_def ebitmap_bits_def nodes_end_bound)

lemma nodes_end_le: "nodes_ok ns \<Longrightarrow> unat (nodes_end ns) \<le> 2 ^ 32 - 64 \<and> unat (nodes_end ns) mod 64 = 0"
proof (cases "ns = []")
  case False
  moreover assume "nodes_ok ns"
  ultimately have "node_ok (last ns)" by (simp add: nodes_ok_def)
  then have "unat (startbit (last ns)) mod 64 = 0" "unat (startbit (last ns)) + 64 < 2 ^ 32"
    by (simp_all add: node_ok_def)
  then have "unat (startbit (last ns)) + 64 \<le> 2 ^ 32 - 64 \<and> (unat (startbit (last ns)) + 64) mod 64 = 0"
    using mod_eq_gap [of "unat (startbit (last ns)) + 64" 64 "2 ^ 32"] by simp
  with False \<open>node_ok (last ns)\<close> show ?thesis by (simp add: nodes_end_def unat_startbit_end)
qed (simp add: nodes_end_def)

lemma ebitmap_length_le: "ebitmap_ok e \<Longrightarrow> unat (ebitmap_length e) \<le> 2 ^ 32 - 64"
  using nodes_end_le by (simp add: ebitmap_ok_def ebitmap_length_def)

lemma finite_ebitmap_bits: "ebitmap_ok e \<Longrightarrow> finite (ebitmap_bits e)"
  by (rule finite_subset [of _ "{..<unat (highbit e)}"]) (auto dest: ebitmap_bits_bound)

lemma ebitmap_ok_no_wrap:
  "ebitmap_ok e \<Longrightarrow> n \<in> set (node e) \<Longrightarrow> unat (startbit n + 64) = unat (startbit n) + MAPSIZE"
  by (simp add: ebitmap_ok_def nodes_ok_def unat_startbit_end)

lemma ebitmap_init_ok [simp]: "ebitmap_ok ebitmap_init" "ebitmap_bits ebitmap_init = {}"
  by (simp_all add: ebitmap_ok_def ebitmap_init_def nodes_end_def ebitmap_bits_def)

lemma ebitmap_get_bit_iff: "ebitmap_ok e \<Longrightarrow> ebitmap_get_bit e b \<longleftrightarrow> unat b \<in> ebitmap_bits e"
  using ebitmap_bits_bound [of e "unat b"]
  by (auto simp: ebitmap_get_bit_def ebitmap_ok_def ebitmap_bits_def get_bit_nodes_iff word_less_nat_alt)

section \<open>Setting a bit\<close>

definition bit_settable :: "u32 \<Rightarrow> bool" where
  "bit_settable b \<longleftrightarrow> unat b < 2 ^ 32 - 64"

lemma chunk_end_cases:
  "unat (chunk_of b) + 64 < 2 ^ 32 \<longleftrightarrow> bit_settable b"
  "chunk_of b + 64 = 0 \<longleftrightarrow> \<not> bit_settable b"
proof -
  have lt: "unat (chunk_of b) < 4294967296" by (rule unat_u32_lt)
  then have le: "unat (chunk_of b) \<le> 4294967232"
    using mod_eq_gap [of "unat (chunk_of b)" 64 4294967296] chunk_of_facts(1) by simp
  have gap: "unat (chunk_of b) < 4294967232 \<Longrightarrow> unat (chunk_of b) + 64 \<le> 4294967232"
    using mod_eq_gap [of "unat (chunk_of b)" 64 4294967232] chunk_of_facts(1) by simp
  have iff: "bit_settable b \<longleftrightarrow> unat (chunk_of b) < 4294967232"
    using gap chunk_of_facts(2,3) [of b] by (auto simp: bit_settable_def)
  then show "unat (chunk_of b) + 64 < 2 ^ 32 \<longleftrightarrow> bit_settable b" by auto
  have "chunk_of b + 64 = 0 \<longleftrightarrow> (unat (chunk_of b) + 64) mod 4294967296 = 0"
    by (simp add: unat_eq_0 [symmetric] unat_word_ariths)
  also have "\<dots> \<longleftrightarrow> unat (chunk_of b) = 4294967232"
    using le by (cases "unat (chunk_of b) = 4294967232") auto
  finally show "chunk_of b + 64 = 0 \<longleftrightarrow> \<not> bit_settable b" using iff le by auto
qed

lemma new_node_ok:
  assumes "bit_settable b"
  shows "node_ok (new_node b)" and "node_has (new_node b) i \<longleftrightarrow> i = unat b"
    and "startbit (new_node b) = chunk_of b"
proof -
  show st: "startbit (new_node b) = chunk_of b" by (simp add: new_node_def Let_def)
  have nm: "nmap (new_node b) = push_bit (unat b mod 64) 1"
    by (simp add: new_node_def Let_def chunk_of_facts)
  have "bit (nmap (new_node b)) j \<longleftrightarrow> j = unat b mod 64" for j
    by (auto simp: nm bit_simps simp del: push_bit_of_1)
  then show "node_has (new_node b) i \<longleftrightarrow> i = unat b"
    using chunk_of_facts(2-4) [of b] by (auto simp: node_has_def st)
  have "nmap (new_node b) \<noteq> 0"
    using \<open>\<And>j. bit (nmap (new_node b)) j \<longleftrightarrow> j = unat b mod 64\<close> by (metis bit_0_eq bot_apply bot_bool_def)
  then show "node_ok (new_node b)"
    using assms chunk_end_cases(1) [of b] by (simp add: node_ok_def st chunk_of_facts)
qed

lemma node_set_bit:
  assumes "node_ok n" and "startbit n \<le> b" and "unat b < unat (startbit n) + 64"
  shows "node_has (n\<lparr>nmap := nmap n OR node_mapbit n b\<rparr>) i \<longleftrightarrow> i = unat b \<or> node_has n i"
    and "node_ok (n\<lparr>nmap := nmap n OR node_mapbit n b\<rparr>)"
    and "node_has (n\<lparr>nmap := nmap n AND NOT (node_mapbit n b)\<rparr>) i \<longleftrightarrow> i \<noteq> unat b \<and> node_has n i"
proof -
  have le: "unat (startbit n) \<le> unat b" using assms(2) by (simp add: word_le_nat_alt)
  have mb: "bit (node_mapbit n b) j \<longleftrightarrow> j = unat b - unat (startbit n)" for j
    using le assms(2,3) by (auto simp: node_mapbit_def bit_simps unat_sub simp del: push_bit_of_1)
  show "node_has (n\<lparr>nmap := nmap n OR node_mapbit n b\<rparr>) i \<longleftrightarrow> i = unat b \<or> node_has n i"
    using le assms(3) by (auto simp: node_has_def bit_simps mb)
  show "node_has (n\<lparr>nmap := nmap n AND NOT (node_mapbit n b)\<rparr>) i \<longleftrightarrow> i \<noteq> unat b \<and> node_has n i"
    using le assms(3) by (auto simp: node_has_def bit_simps mb)
  show "node_ok (n\<lparr>nmap := nmap n OR node_mapbit n b\<rparr>)"
    using assms(1) by (simp add: node_ok_def or_eq_0_iff)
qed

text \<open>What the walk returns: \<open>h\<close> tells the caller where the list now ends.\<close>

definition prev_end :: "ebitmap_node option \<Rightarrow> u32" where
  "prev_end prev = (case prev of None \<Rightarrow> 0 | Some p \<Rightarrow> startbit p + 64)"

definition walk_result :: "ebitmap_node option \<Rightarrow> ebitmap_node list \<Rightarrow> ebitmap_node list \<Rightarrow> u32 option \<Rightarrow> bool" where
  "walk_result prev ns ns' h \<longleftrightarrow> (case h of
     None \<Rightarrow> (ns' = [] \<longleftrightarrow> ns = []) \<and> nodes_end ns' = nodes_end ns
   | Some x \<Rightarrow> x = (if ns' = [] then prev_end prev else nodes_end ns'))"

lemma walk_result_step:
  "walk_result (Some n) ns ns' h \<Longrightarrow> walk_result prev (n # ns) (n # ns') h"
  by (auto simp: walk_result_def nodes_end_def prev_end_def split: option.splits if_splits)

lemma walk_result_same_end: "ns' \<noteq> [] \<Longrightarrow> ns \<noteq> [] \<Longrightarrow> startbit (last ns') = startbit (last ns)
    \<Longrightarrow> walk_result prev ns ns' None"
  by (simp add: walk_result_def nodes_end_def)

lemma set_bit_nodes_spec:
  assumes "nodes_ok ns" and "bit_settable b"
  shows "\<exists>ns' h. yields (set_bit_nodes prev ns b v) (Inr (ns', h)) \<and> nodes_ok ns'
     \<and> nodes_bits ns' = (if v then insert (unat b) (nodes_bits ns) else nodes_bits ns - {unat b})
     \<and> startbit ` set ns' \<subseteq> insert (chunk_of b) (startbit ` set ns) \<and> walk_result prev ns ns' h"
  using assms
proof (induction ns arbitrary: prev)
  case Nil
  then show ?case
    by (cases v) (auto simp: walk_result_def nodes_end_def new_node_ok
        intro!: exI [of _ "[new_node b]"] exI [of _ "Some (chunk_of b + 64)"])
next
  case (Cons n ns)
  from Cons.prems have n: "node_ok n" "nodes_ok ns" "\<forall>m \<in> set ns. startbit n < startbit m" by auto
  note low = nodes_bits_lower [OF Cons.prems(1)]
  consider (inside) "startbit n \<le> b" "unat b < unat (startbit n) + 64"
    | (after) "startbit n \<le> b" "\<not> unat b < unat (startbit n) + 64" | (before) "\<not> startbit n \<le> b" by blast
  then show ?case
  proof cases
    case inside
    note upd = node_set_bit [OF n(1) inside]
    let ?set = "n\<lparr>nmap := nmap n OR node_mapbit n b\<rparr>"
    let ?clr = "n\<lparr>nmap := nmap n AND NOT (node_mapbit n b)\<rparr>"
    have low_b: "unat b \<notin> nodes_bits ns" using low inside by fastforce
    consider (set) v | (clear) "\<not> v" "nmap ?clr \<noteq> 0" | (drop) "\<not> v" "nmap ?clr = 0" by blast
    then show ?thesis
    proof cases
      case set
      with inside n upd show ?thesis
        by (intro exI [of _ "?set # ns"] exI [of _ None]) (auto intro: walk_result_same_end)
    next
      case clear
      with n have "node_ok ?clr" by (simp add: node_ok_def)
      with clear inside n upd low_b show ?thesis
        by (intro exI [of _ "?clr # ns"] exI [of _ None]) (auto intro: walk_result_same_end)
    next
      case drop
      have "\<not> node_has ?clr i" for i using drop by (simp add: node_has_def)
      with upd(3) have only: "node_has n i \<Longrightarrow> i = unat b" for i by blast
      let ?h = "if ns = [] then Some (prev_end prev) else None"
      have "yields (set_bit_nodes prev (n # ns) b v) (Inr (ns, ?h))"
        using drop inside by (auto simp: prev_end_def split: option.split)
      moreover have "walk_result prev (n # ns) ns ?h" by (simp add: walk_result_def nodes_end_def)
      moreover have "nodes_bits ns = nodes_bits (n # ns) - {unat b}"
        using only low_b by auto
      ultimately show ?thesis using drop n by (intro exI [of _ ns] exI [of _ ?h]) auto
    qed
  next
    case after
    from Cons.IH [OF n(2) Cons.prems(2), of "Some n"] obtain ns' h where
      IH: "yields (set_bit_nodes (Some n) ns b v) (Inr (ns', h))" "nodes_ok ns'"
      "nodes_bits ns' = (if v then insert (unat b) (nodes_bits ns) else nodes_bits ns - {unat b})"
      "startbit ` set ns' \<subseteq> insert (chunk_of b) (startbit ` set ns)" "walk_result (Some n) ns ns' h"
      by blast
    have "startbit n < chunk_of b"
      using n after chunk_of_facts(2,3) [of b] by (simp add: word_less_nat_alt)
    with n(3) IH(4) have "\<forall>m \<in> set ns'. startbit n < startbit m" by (auto simp: image_subset_iff)
    moreover have "\<not> node_has n (unat b)" using after by (simp add: node_has_def)
    moreover have "yields (set_bit_nodes prev (n # ns) b v) (Inr (n # ns', h))"
      using after by (simp add: yields_bindE_Inr [OF IH(1)])
    ultimately show ?thesis using n IH walk_result_step [OF IH(5)]
      by (intro exI [of _ "n # ns'"] exI [of _ h]) auto
  next
    case before
    then have lt: "unat b < unat (startbit n)" by (simp add: word_le_nat_alt)
    with n(1) have "chunk_of b < startbit n"
      using chunk_of_facts(2) [of b] by (simp add: word_less_nat_alt)
    moreover have "unat b \<notin> nodes_bits (n # ns)" using low [of "unat b"] lt by (auto simp: node_has_def)
    moreover note n new_node_ok [OF Cons.prems(2)]
    moreover have "walk_result prev (n # ns) (new_node b # n # ns) None" "walk_result prev (n # ns) (n # ns) None"
      by (simp_all add: walk_result_same_end)
    moreover from before have "yields (set_bit_nodes prev (n # ns) b v)
        (Inr (if v then new_node b # n # ns else n # ns, None))" by simp
    ultimately show ?thesis
      by (intro exI [of _ "if v then new_node b # n # ns else n # ns"] exI [of _ None] conjI)
        (auto simp del: set_bit_nodes.simps)
  qed
qed

lemma ebitmap_set_bit_spec:
  assumes "ebitmap_ok e" and "bit_settable b"
  shows "\<exists>e'. yields (ebitmap_set_bit e b v) (Inr e') \<and> ebitmap_ok e'
     \<and> ebitmap_bits e' = (if v then insert (unat b) (ebitmap_bits e) else ebitmap_bits e - {unat b})"
proof -
  from assms set_bit_nodes_spec [of "node e" b None v] obtain ns' h where
    w: "yields (set_bit_nodes None (node e) b v) (Inr (ns', h))" "nodes_ok ns'"
    "nodes_bits ns' = (if v then insert (unat b) (nodes_bits (node e)) else nodes_bits (node e) - {unat b})"
    "walk_result None (node e) ns' h" by (auto simp: ebitmap_ok_def)
  let ?e' = "\<lparr>node = ns', highbit = (case h of None \<Rightarrow> highbit e | Some x \<Rightarrow> x)\<rparr>"
  have "yields (ebitmap_set_bit e b v) (Inr ?e')"
    using assms(2) by (simp add: ebitmap_set_bit_def chunk_of_def [symmetric] chunk_end_cases
        Let_def yields_bindE_Inr [OF w(1)])
  moreover have "ebitmap_ok ?e'" using assms(1) w(2,4)
    by (auto simp: ebitmap_ok_def walk_result_def prev_end_def nodes_end_def split: option.splits)
  ultimately show ?thesis using w(3) by (intro exI [of _ ?e']) (simp add: ebitmap_bits_def)
qed

lemma ebitmap_set_bit_einval: "\<not> bit_settable b \<Longrightarrow> ebitmap_set_bit e b v a = (Inl EINVAL, a)"
  by (simp add: ebitmap_set_bit_def chunk_of_def [symmetric] chunk_end_cases Let_def)

section \<open>Comparing and containing\<close>

text \<open>The representation is canonical: two well-formed bitmaps with the same bits are the
  same value, so the node-wise comparison decides equality of the sets.\<close>

lemma nodes_bits_cons_split:
  assumes "nodes_ok (n # ns)"
  shows "{i. node_has n i} = {i \<in> nodes_bits (n # ns). i < unat (startbit n) + 64}"
    and "nodes_bits ns = {i \<in> nodes_bits (n # ns). unat (startbit n) + 64 \<le> i}"
  using nodes_bits_lower [OF assms] by (fastforce simp: node_has_def)+

lemma node_eqI:
  assumes "startbit n = startbit m" and "\<And>i. node_has n i \<longleftrightarrow> node_has m i"
  shows "n = (m :: ebitmap_node)"
proof -
  have "bit (nmap n) k \<longleftrightarrow> bit (nmap m) k" if "k < 64" for k
    using assms(2) [of "unat (startbit n) + k"] that by (simp add: node_has_def assms(1))
  then have "nmap n = nmap m" by (auto intro!: bit_word_eqI)
  with assms(1) show ?thesis by (simp add: ebitmap_node.equality)
qed

lemma nodes_canonical:
  "nodes_ok ns \<Longrightarrow> nodes_ok ms \<Longrightarrow> nodes_bits ns = nodes_bits ms \<Longrightarrow> ns = ms"
proof (induction ns ms rule: list_induct2')
  case (4 n ns m ms)
  have first: "unat (startbit x) \<le> unat (startbit y)" if
    "nodes_ok (x # xs)" "nodes_ok (y # ys)" "nodes_bits (x # xs) = nodes_bits (y # ys)" for x y xs ys
  proof (rule ccontr)
    assume "\<not> ?thesis"
    with that have g: "unat (startbit y) + 64 \<le> unat (startbit x)"
      by (intro chunk_gap) (auto simp: word_less_nat_alt)
    from that node_nonempty [of y] obtain i where i: "node_has y i" by auto
    with that(3) have "i \<in> nodes_bits (x # xs)" by auto
    with nodes_bits_lower [OF that(1), of i] i g show False by (auto simp: node_has_def)
  qed
  from first [OF 4(2,3,4)] first [OF 4(3,2) 4(4) [symmetric]] have st: "startbit n = startbit m"
    by (simp add: word_unat_eq_iff)
  with 4 nodes_bits_cons_split [OF 4(2)] nodes_bits_cons_split [OF 4(3)]
  have "{i. node_has n i} = {i. node_has m i}" "nodes_bits ns = nodes_bits ms" by metis+
  with st 4 show ?case by (auto intro!: node_eqI)
qed (use node_nonempty in \<open>auto simp: nodes_ok_def\<close>)

lemma cmp_nodes_iff: "cmp_nodes ns ms \<longleftrightarrow> ns = ms"
  by (induction ns ms rule: cmp_nodes.induct) (auto intro: ebitmap_node.equality)

lemma ebitmap_cmp_iff:
  assumes "ebitmap_ok e1" and "ebitmap_ok e2"
  shows "ebitmap_cmp e1 e2 \<longleftrightarrow> ebitmap_bits e1 = ebitmap_bits e2"
  using assms nodes_canonical [of "node e1" "node e2"]
  by (auto simp: ebitmap_cmp_def cmp_nodes_iff ebitmap_ok_def ebitmap_bits_def)

lemma ebitmap_ok_eqI:
  "ebitmap_ok e1 \<Longrightarrow> ebitmap_ok e2 \<Longrightarrow> ebitmap_bits e1 = ebitmap_bits e2 \<Longrightarrow> e1 = e2"
  using nodes_canonical [of "node e1" "node e2"]
  by (auto simp: ebitmap_ok_def ebitmap_bits_def intro: ebitmap.equality)

lemma chunk_subset_iff:
  assumes "startbit n = startbit m"
  shows "nmap n AND nmap m = nmap m \<longleftrightarrow> (\<forall>i. node_has m i \<longrightarrow> node_has n i)"
proof
  assume "nmap n AND nmap m = nmap m"
  then have "bit (nmap m) k \<Longrightarrow> bit (nmap n) k" for k by (metis bit_and_iff)
  with assms show "\<forall>i. node_has m i \<longrightarrow> node_has n i" by (simp add: node_has_def)
next
  assume all: "\<forall>i. node_has m i \<longrightarrow> node_has n i"
  have "bit (nmap m) k \<Longrightarrow> bit (nmap n) k" if "k < 64" for k
    using all [rule_format, of "unat (startbit m) + k"] that assms by (simp add: node_has_def)
  then show "nmap n AND nmap m = nmap m" by (auto intro!: bit_word_eqI simp: bit_and_iff)
qed

lemma contains_nodes_iff:
  "nodes_ok ns \<Longrightarrow> nodes_ok ms \<Longrightarrow> contains_nodes ns ms \<longleftrightarrow> nodes_bits ms \<subseteq> nodes_bits ns"
proof (induction ns ms rule: contains_nodes.induct)
  case (1 n ns m ms)
  from 1 have ok: "node_ok n" "nodes_ok ns" "node_ok m" "nodes_ok ms" by auto
  note lown = nodes_bits_lower [OF 1(3)] and lowm = nodes_bits_lower [OF 1(4)]
  consider (lt) "startbit n < startbit m" | (eq) "startbit n = startbit m" | (gt) "startbit m < startbit n"
    by force
  then show ?case
  proof cases
    case lt
    then have gap: "unat (startbit n) + 64 \<le> unat (startbit m)" by (intro chunk_gap ok)
    then have "\<not> node_has n i" if "i \<in> nodes_bits (m # ms)" for i
      using that lowm [of i] by (auto simp: node_has_def)
    then have "nodes_bits (m # ms) \<subseteq> nodes_bits (n # ns) \<longleftrightarrow> nodes_bits (m # ms) \<subseteq> nodes_bits ns" by auto
    with lt 1 ok show ?thesis by (simp add: less_imp_le)
  next
    case eq
    have "nodes_bits (m # ms) \<subseteq> nodes_bits (n # ns) \<longleftrightarrow>
        (\<forall>i. node_has m i \<longrightarrow> node_has n i) \<and> nodes_bits ms \<subseteq> nodes_bits ns"
      using lown lowm eq by (fastforce simp: node_has_def)
    with eq 1 ok show ?thesis by (simp add: chunk_subset_iff)
  next
    case gt
    then have gap: "unat (startbit m) + 64 \<le> unat (startbit n)" by (intro chunk_gap ok)
    from node_nonempty [OF ok(3)] obtain i where i: "node_has m i" ..
    with gap lown [of i] have "i \<notin> nodes_bits (n # ns)" by (auto simp: node_has_def)
    with gt i show ?thesis by auto
  qed
next
  case (3 m ms)
  with node_nonempty [of m] show ?case by auto
qed simp

lemma nodes_end_upper:
  assumes "nodes_ok ns" and "n \<in> set ns"
  shows "startbit n + 64 \<le> nodes_end ns"
proof -
  have ne: "ns \<noteq> []" using assms by auto
  have "startbit n \<le> startbit (last ns)" using assms by (auto simp: nodes_ok_def intro: last_greatest)
  moreover have "node_ok n" "node_ok (last ns)" using assms ne by (auto simp: nodes_ok_def)
  ultimately show ?thesis using ne by (simp add: nodes_end_def word_le_nat_alt unat_startbit_end)
qed

lemma nodes_end_mono:
  assumes "nodes_ok ns" and "nodes_ok ms" and "nodes_bits ms \<subseteq> nodes_bits ns"
  shows "nodes_end ms \<le> nodes_end ns"
proof (cases "ms = []")
  case False
  with assms(2) have last: "last ms \<in> set ms" "node_ok (last ms)" by (simp_all add: nodes_ok_def)
  from node_nonempty [OF last(2)] obtain i where i: "node_has (last ms) i" ..
  with last assms(3) have "i \<in> nodes_bits ns" by (auto simp: nodes_bits_def)
  then have lt: "i < unat (nodes_end ns)" by (rule nodes_end_bound [OF assms(1)])
  have "unat (startbit (last ms)) < unat (nodes_end ns)" using i lt by (simp add: node_has_def)
  moreover have "unat (startbit (last ms)) mod 64 = 0" using last by (simp add: node_ok_def)
  ultimately have "unat (startbit (last ms)) + 64 \<le> unat (nodes_end ns)"
    using nodes_end_le [OF assms(1)] by (intro mod_eq_gap) auto
  with False last show ?thesis by (simp add: nodes_end_def unat_startbit_end word_le_nat_alt)
qed (simp add: nodes_end_def)

lemma ebitmap_contains_iff:
  assumes "ebitmap_ok e1" and "ebitmap_ok e2"
  shows "ebitmap_contains e1 e2 \<longleftrightarrow> ebitmap_bits e2 \<subseteq> ebitmap_bits e1"
  using assms nodes_end_mono [of "node e1" "node e2"]
  by (auto simp: ebitmap_contains_def ebitmap_ok_def ebitmap_bits_def contains_nodes_iff)

section \<open>Union, copy\<close>

text \<open>The merge that \<open>ebitmap_or\<close> computes, without the allocator.\<close>

fun merge_nodes :: "ebitmap_node list \<Rightarrow> ebitmap_node list \<Rightarrow> ebitmap_node list" where
  "merge_nodes ns [] = ns"
| "merge_nodes [] ms = ms"
| "merge_nodes (n # ns) (m # ms) =
     (if startbit n = startbit m then n\<lparr>nmap := nmap n OR nmap m\<rparr> # merge_nodes ns ms
      else if startbit n < startbit m then n # merge_nodes ns (m # ms)
      else m # merge_nodes (n # ns) ms)"

lemma cpy_node [simp]: "\<lparr>startbit = startbit n, nmap = nmap n\<rparr> = n"
  by simp

lemma or_nodes_merge: "yields (or_nodes ns ms) (Inr (merge_nodes ns ms))"
proof (induction ns ms rule: merge_nodes.induct)
  case (1 ns)
  show ?case by (induction ns) (auto intro: yields_bindE_Inr)
next
  case (2 m ms)
  have "yields (or_nodes [] ks) (Inr ks)" for ks by (induction ks) (auto intro: yields_bindE_Inr)
  then show ?case by (simp del: or_nodes.simps)
next
  case (3 n ns m ms)
  consider "startbit n = startbit m" | "startbit n \<noteq> startbit m" "startbit n < startbit m"
    | "startbit n \<noteq> startbit m" "\<not> startbit n < startbit m" by blast
  then show ?case
    by cases (use 3 in \<open>auto intro: yields_bindE_Inr
      simp: ebitmap_node.equality\<close>)
qed

lemma node_has_or:
  "startbit n = startbit m \<Longrightarrow>
     node_has (n\<lparr>nmap := nmap n OR nmap m\<rparr>) i \<longleftrightarrow> node_has n i \<or> node_has m i"
  by (auto simp: node_has_def bit_or_iff)

lemma merge_nodes_startbits: "startbit ` set (merge_nodes ns ms) = startbit ` set ns \<union> startbit ` set ms"
  by (induction ns ms rule: merge_nodes.induct) auto

lemma merge_nodes_bits: "nodes_bits (merge_nodes ns ms) = nodes_bits ns \<union> nodes_bits ms"
  by (induction ns ms rule: merge_nodes.induct) (auto simp: node_has_or)

lemma merge_nodes_above:
  "(\<forall>x \<in> set (merge_nodes ns ms). s < startbit x) \<longleftrightarrow> (\<forall>x \<in> set ns \<union> set ms. s < startbit x)"
proof -
  have "(\<forall>x \<in> A. s < startbit x) \<longleftrightarrow> (\<forall>y \<in> startbit ` A. s < y)" for A :: "ebitmap_node set" by blast
  then show ?thesis by (simp only: merge_nodes_startbits image_Un)
qed

lemma merge_nodes_ok: "nodes_ok ns \<Longrightarrow> nodes_ok ms \<Longrightarrow> nodes_ok (merge_nodes ns ms)"
proof (induction ns ms rule: merge_nodes.induct)
  case (3 n ns m ms)
  have "startbit n = startbit m \<Longrightarrow> node_ok (n\<lparr>nmap := nmap n OR nmap m\<rparr>)"
    using 3(4,5) by (simp add: node_ok_def or_eq_0_iff)
  with 3 show ?case by (auto simp: merge_nodes_above neq_iff intro: less_trans)
qed simp_all

lemma ebitmap_or_spec:
  assumes "ebitmap_ok e1" and "ebitmap_ok e2"
  shows "\<exists>d. yields (ebitmap_or e1 e2) (Inr d) \<and> ebitmap_ok d
     \<and> ebitmap_bits d = ebitmap_bits e1 \<union> ebitmap_bits e2"
proof -
  let ?ns = "merge_nodes (node e1) (node e2)"
  let ?d = "\<lparr>node = ?ns, highbit = (if highbit e1 > highbit e2 then highbit e1 else highbit e2)\<rparr>"
  have ok: "nodes_ok (node e1)" "nodes_ok (node e2)" using assms by (simp_all add: ebitmap_ok_def)
  then have nok: "nodes_ok ?ns" by (rule merge_nodes_ok)
  have "nodes_end ?ns = max (nodes_end (node e1)) (nodes_end (node e2))"
  proof (rule antisym)
    show "max (nodes_end (node e1)) (nodes_end (node e2)) \<le> nodes_end ?ns"
      using nodes_end_mono [OF nok ok(1)] nodes_end_mono [OF nok ok(2)] by (simp add: merge_nodes_bits)
    show "nodes_end ?ns \<le> max (nodes_end (node e1)) (nodes_end (node e2))"
    proof (cases "?ns = []")
      case False
      then have "startbit (last ?ns) \<in> startbit ` set (node e1) \<union> startbit ` set (node e2)"
        using merge_nodes_startbits by (metis image_eqI last_in_set)
      then have "startbit (last ?ns) + 64 \<le> nodes_end (node e1) \<or> startbit (last ?ns) + 64 \<le> nodes_end (node e2)"
        using nodes_end_upper [OF ok(1)] nodes_end_upper [OF ok(2)] by fastforce
      with False show ?thesis by (auto simp: nodes_end_def le_max_iff_disj)
    qed (simp add: nodes_end_def)
  qed
  then have "ebitmap_ok ?d" using nok assms by (auto simp: ebitmap_ok_def max_def)
  moreover have "yields (ebitmap_or e1 e2) (Inr ?d)"
    by (simp add: ebitmap_or_def yields_bindE_Inr [OF or_nodes_merge])
  ultimately show ?thesis by (intro exI [of _ ?d]) (simp add: ebitmap_bits_def merge_nodes_bits)
qed

lemma ebitmap_union_no_oom:
  assumes "ebitmap_ok e1" and "ebitmap_ok e2"
  shows "\<exists>d. ebitmap_union e1 e2 [] = (Inr d, []) \<and> ebitmap_ok d
     \<and> ebitmap_bits d = ebitmap_bits e1 \<union> ebitmap_bits e2"
proof -
  from ebitmap_or_spec [OF assms] obtain d where
    d: "yields (ebitmap_or e1 e2) (Inr d)" "ebitmap_ok d" "ebitmap_bits d = ebitmap_bits e1 \<union> ebitmap_bits e2"
    by blast
  have "ebitmap_union e1 e2 [] = (Inr d, [])"
    using yields_no_oom [OF d(1)] by (simp add: ebitmap_union_def bindE_def returnE_def)
  with d show ?thesis by blast
qed

lemma cpy_nodes_yields: "yields (cpy_nodes ns) (Inr ns)"
  by (induction ns) (auto intro: yields_bindE_Inr)

lemma ebitmap_cpy_yields: "yields (ebitmap_cpy e) (Inr e)"
  by (simp add: ebitmap_cpy_def yields_bindE_Inr [OF cpy_nodes_yields])

section \<open>Bit-by-bit construction\<close>

text \<open>Building a bitmap by setting or clearing the bits \<open>0 ..< n\<close> one after the other.\<close>

lemma foldE_build:
  assumes "n \<le> 2 ^ 32 - 64"
    and step: "\<And>i d. i < n \<Longrightarrow> f i d = ebitmap_set_bit d (of_nat i) (p i) \<or> (\<not> p i \<and> f i d = returnE d)"
  shows "\<exists>d. yields (foldE f [0..<n] ebitmap_init) (Inr d) \<and> ebitmap_ok d
     \<and> ebitmap_bits d = {i. i < n \<and> p i}"
  using assms
proof (induction n)
  case (Suc n)
  then obtain d where d: "yields (foldE f [0..<n] ebitmap_init) (Inr d)" "ebitmap_ok d"
    "ebitmap_bits d = {i. i < n \<and> p i}" by auto
  have un: "unat (of_nat n :: u32) = n" using Suc.prems(1) by (simp add: unat_of_nat_u32)
  then have "bit_settable (of_nat n)" using Suc.prems(1) by (simp add: bit_settable_def)
  from ebitmap_set_bit_spec [OF d(2) this, of "p n"] obtain d' where
    d': "yields (ebitmap_set_bit d (of_nat n) (p n)) (Inr d')" "ebitmap_ok d'" and
    bits': "ebitmap_bits d' = (if p n then insert n (ebitmap_bits d) else ebitmap_bits d - {n})"
    using un by auto
  from bits' d(3) have d'': "ebitmap_bits d' = {i. i < Suc n \<and> p i}" by (auto simp: less_Suc_eq)
  have "\<not> p n \<Longrightarrow> {i. i < Suc n \<and> p i} = {i. i < n \<and> p i}" by (auto simp: less_Suc_eq)
  then have "\<exists>d''. yields (f n d) (Inr d'') \<and> ebitmap_ok d'' \<and> ebitmap_bits d'' = {i. i < Suc n \<and> p i}"
    using Suc.prems(2) [of n d] d d' d'' by auto
  then obtain d2 where d2: "yields (f n d) (Inr d2)" "ebitmap_ok d2" "ebitmap_bits d2 = {i. i < Suc n \<and> p i}"
    by blast
  have "yields (foldE f [0..<Suc n] ebitmap_init) (Inr d2)"
    by (simp add: foldE_append yields_bindE_Inr [OF d(1)] d2(1))
  with d2 show ?case by blast
qed simp

lemma ebitmap_get_bit_of_nat:
  "ebitmap_ok e \<Longrightarrow> i < 4294967296 \<Longrightarrow> ebitmap_get_bit e (of_nat i) \<longleftrightarrow> i \<in> ebitmap_bits e"
  by (simp add: ebitmap_get_bit_iff unat_of_nat_u32)

lemma ebitmap_and_spec:
  assumes "ebitmap_ok e1" and "ebitmap_ok e2"
  shows "\<exists>d. yields (ebitmap_and e1 e2) (Inr d) \<and> ebitmap_ok d
     \<and> ebitmap_bits d = ebitmap_bits e1 \<inter> ebitmap_bits e2"
proof -
  let ?p = "\<lambda>i. i \<in> ebitmap_bits e1 \<and> i \<in> ebitmap_bits e2"
  let ?n = "unat (min (ebitmap_length e1) (ebitmap_length e2))"
  have n: "?n \<le> 2 ^ 32 - 64" using ebitmap_length_le [OF assms(1)] ebitmap_length_le [OF assms(2)]
    by (simp add: min_def)
  have "{i. i < ?n \<and> ?p i} = ebitmap_bits e1 \<inter> ebitmap_bits e2"
    using ebitmap_bits_bound assms by (auto simp: min_def ebitmap_length_def)
  moreover have "\<exists>d. yields (ebitmap_and e1 e2) (Inr d) \<and> ebitmap_ok d \<and> ebitmap_bits d = {i. i < ?n \<and> ?p i}"
    unfolding ebitmap_and_def using n by (intro foldE_build) (auto simp: ebitmap_get_bit_of_nat assms)
  ultimately show ?thesis by simp
qed

lemma ebitmap_xor_spec:
  assumes "ebitmap_ok e1" and "ebitmap_ok e2"
  shows "\<exists>d. yields (ebitmap_xor e1 e2) (Inr d) \<and> ebitmap_ok d
     \<and> ebitmap_bits d = (ebitmap_bits e1 - ebitmap_bits e2) \<union> (ebitmap_bits e2 - ebitmap_bits e1)"
proof -
  let ?p = "\<lambda>i. (i \<in> ebitmap_bits e1) \<noteq> (i \<in> ebitmap_bits e2)"
  let ?n = "unat (max (ebitmap_length e1) (ebitmap_length e2))"
  have n: "?n \<le> 2 ^ 32 - 64" using ebitmap_length_le [OF assms(1)] ebitmap_length_le [OF assms(2)]
    by (simp add: max_def)
  have "i < ?n" if "i \<in> ebitmap_bits e1 \<union> ebitmap_bits e2" for i
    using that ebitmap_bits_bound [OF assms(1), of i] ebitmap_bits_bound [OF assms(2), of i]
    by (auto simp: max_def ebitmap_length_def word_le_nat_alt)
  then have "{i. i < ?n \<and> ?p i} = (ebitmap_bits e1 - ebitmap_bits e2) \<union> (ebitmap_bits e2 - ebitmap_bits e1)"
    by auto
  moreover have "\<exists>d. yields (ebitmap_xor e1 e2) (Inr d) \<and> ebitmap_ok d \<and> ebitmap_bits d = {i. i < ?n \<and> ?p i}"
    unfolding ebitmap_xor_def using n by (intro foldE_build) (auto simp: ebitmap_get_bit_of_nat assms)
  ultimately show ?thesis by simp
qed

lemma ebitmap_not_spec:
  assumes "ebitmap_ok e" and "unat maxbit \<le> 2 ^ 32 - 64"
  shows "\<exists>d. yields (ebitmap_not e maxbit) (Inr d) \<and> ebitmap_ok d
     \<and> ebitmap_bits d = {..<unat maxbit} - ebitmap_bits e"
proof -
  have "\<exists>d. yields (ebitmap_not e maxbit) (Inr d) \<and> ebitmap_ok d
      \<and> ebitmap_bits d = {i. i < unat maxbit \<and> i \<notin> ebitmap_bits e}"
    unfolding ebitmap_not_def using assms by (intro foldE_build) (auto simp: ebitmap_get_bit_of_nat)
  moreover have "{i. i < unat maxbit \<and> i \<notin> ebitmap_bits e} = {..<unat maxbit} - ebitmap_bits e" by auto
  ultimately show ?thesis by simp
qed

lemma ebitmap_andnot_spec:
  assumes "ebitmap_ok e1" and "ebitmap_ok e2" and "unat maxbit \<le> 2 ^ 32 - 64"
  shows "\<exists>d. yields (ebitmap_andnot e1 e2 maxbit) (Inr d) \<and> ebitmap_ok d
     \<and> ebitmap_bits d = ebitmap_bits e1 \<inter> {..<unat maxbit} - ebitmap_bits e2"
proof -
  from ebitmap_not_spec [OF assms(2,3)] obtain e3 where
    e3: "yields (ebitmap_not e2 maxbit) (Inr e3)" "ebitmap_ok e3"
    "ebitmap_bits e3 = {..<unat maxbit} - ebitmap_bits e2" by blast
  from ebitmap_and_spec [OF assms(1) e3(2)] obtain d where
    "yields (ebitmap_and e1 e3) (Inr d)" "ebitmap_ok d" "ebitmap_bits d = ebitmap_bits e1 \<inter> ebitmap_bits e3"
    by blast
  with e3 show ?thesis
    by (intro exI [of _ d]) (auto simp: ebitmap_andnot_def intro: yields_bindE_Inr)
qed

section \<open>Counting\<close>

lemma fold_count:
  "fold (\<lambda>i count. if p i then count + 1 else count) xs c
     = c + (of_nat (length (filter p xs)) :: 'a :: len word)"
  by (induction xs arbitrary: c) (auto simp: algebra_simps)

lemma ebitmap_startbit_le: "ebitmap_ok e \<Longrightarrow> i \<in> ebitmap_bits e \<Longrightarrow> unat (ebitmap_startbit e) \<le> i"
  using nodes_bits_lower [of "hd (node e)" "tl (node e)" i]
  by (cases "node e") (auto simp: ebitmap_ok_def ebitmap_bits_def ebitmap_startbit_def node_has_def)

lemma ebitmap_cardinality_card:
  assumes "ebitmap_ok e"
  shows "unat (ebitmap_cardinality e) = card (ebitmap_bits e)"
proof -
  let ?is = "[unat (ebitmap_startbit e)..<unat (ebitmap_length e)]"
  let ?fs = "filter (\<lambda>i. ebitmap_get_bit e (of_nat i)) ?is"
  have len: "unat (ebitmap_length e) \<le> 4294967232" using ebitmap_length_le [OF assms] by simp
  have bound: "i \<in> ebitmap_bits e \<Longrightarrow> i < unat (ebitmap_length e)" for i
    using ebitmap_bits_bound [OF assms] by (simp add: ebitmap_length_def)
  have "set ?fs = {i. unat (ebitmap_startbit e) \<le> i \<and> i < unat (ebitmap_length e) \<and> i \<in> ebitmap_bits e}"
    using len by (auto simp: ebitmap_get_bit_of_nat assms)
  also have "\<dots> = ebitmap_bits e" using bound ebitmap_startbit_le [OF assms] by auto
  finally have "set ?fs = ebitmap_bits e" .
  moreover have "distinct ?fs" by simp
  ultimately have "length ?fs = card (ebitmap_bits e)" by (metis distinct_card)
  moreover have "length ?fs < 4294967296"
    using len le_less_trans [OF length_filter_le [of "\<lambda>i. ebitmap_get_bit e (of_nat i)" ?is]] by simp
  ultimately show ?thesis by (simp add: ebitmap_cardinality_def fold_count unat_of_nat_u32)
qed

lemma ebitmap_hamming_distance_no_oom:
  assumes "ebitmap_ok e1" and "ebitmap_ok e2"
  shows "ebitmap_hamming_distance e1 e2 [] =
     (Inr (int (card ((ebitmap_bits e1 - ebitmap_bits e2) \<union> (ebitmap_bits e2 - ebitmap_bits e1)))), [])"
proof (cases "ebitmap_cmp e1 e2")
  case True
  with assms show ?thesis by (simp add: ebitmap_hamming_distance_def ebitmap_cmp_iff returnE_def)
next
  case False
  from ebitmap_xor_spec [OF assms] obtain d where d: "yields (ebitmap_xor e1 e2) (Inr d)" "ebitmap_ok d"
    "ebitmap_bits d = (ebitmap_bits e1 - ebitmap_bits e2) \<union> (ebitmap_bits e2 - ebitmap_bits e1)" by blast
  have "uint (ebitmap_cardinality d) = int (card (ebitmap_bits d))"
    unfolding uint_nat by (simp only: ebitmap_cardinality_card [OF d(2)])
  with False yields_no_oom [OF d(1)] d(3) show ?thesis
    by (simp add: ebitmap_hamming_distance_def bindE_def returnE_def)
qed

section \<open>Iterating over the bits\<close>

text \<open>The loop visits all 64 positions of every chunk, in order; it ends, and it reads no node
  outside the list.\<close>

definition chunk_bits :: "nat \<Rightarrow> ebitmap_node \<Rightarrow> (u32 \<times> bool) list" where
  "chunk_bits k n = map (\<lambda>k. (startbit n + of_nat k, bit (nmap n) k)) [k..<64]"

lemma chunk_bits_step: "k < 64 \<Longrightarrow> chunk_bits k n = (startbit n + of_nat k, bit (nmap n) k) # chunk_bits (Suc k) n"
  by (simp add: chunk_bits_def upt_conv_Cons)

lemma unat_chunk_pos: "node_ok n \<Longrightarrow> k \<le> 64 \<Longrightarrow> unat (startbit n + of_nat k) = unat (startbit n) + k"
  by (simp add: node_ok_def unat_word_ariths unat_of_nat)

lemma for_each_nodes:
  assumes "nodes_ok (n # ns)" and "k < 64" and "len = nodes_end (n # ns)"
  shows "for_each_loop len (n # ns) (startbit n + of_nat k)
     = Some (Inr (chunk_bits k n @ concat (map (chunk_bits 0) ns)))"
  using assms
proof (induction "63 - k + 64 * length ns" arbitrary: n ns k rule: less_induct)
  case less
  let ?b = "startbit n + of_nat k"
  from less.prems have n: "node_ok n" "nodes_ok ns" by auto
  have b: "unat ?b = unat (startbit n) + k" using n less.prems by (intro unat_chunk_pos) auto
  have "startbit n + 64 \<le> len" unfolding less.prems(3) by (rule nodes_end_upper) (use less.prems in auto)
  then have lt: "?b < len" using b less.prems n by (simp add: word_le_nat_alt word_less_nat_alt unat_startbit_end)
  have off: "?b - startbit n = of_nat k" by simp
  have ku: "unat (of_nat k :: u32) = k" using less.prems by (simp add: unat_of_nat_u32)
  have get: "ebitmap_node_get_bit n ?b \<longleftrightarrow> bit (nmap n) k"
    using less.prems(2) by (simp add: ebitmap_node_get_bit_def node_mapbit_def off ku
        word_and_bit_nonzero del: push_bit_of_1)
  have rest: "for_each_loop len (fst (ebitmap_next (n # ns) ?b)) (snd (ebitmap_next (n # ns) ?b))
      = Some (Inr (chunk_bits (Suc k) n @ concat (map (chunk_bits 0) ns)))"
  proof (cases "k = 63")
    case False
    with less.prems have k': "Suc k < 64" by simp
    have "startbit n + of_nat k \<noteq> startbit n + 63"
      using False ku by (metis add_left_cancel unat_of_nat_u32 of_nat_numeral numeral_less_iff semiring_norm(76,78,79,80,81))
    then have "ebitmap_next (n # ns) ?b = (n # ns, startbit n + of_nat (Suc k))"
      by (simp add: ebitmap_next_def algebra_simps split: list.split)
    then show ?thesis using less.hyps [of "Suc k" ns n] less.prems k' by simp
  next
    case True
    show ?thesis
    proof (cases ns)
      case Nil
      have "for_each_loop len [n] (startbit n + 64) = Some (Inr [])"
        by (subst for_each_loop.simps) (simp add: less.prems(3) Nil nodes_end_def)
      then show ?thesis using True Nil by (simp add: ebitmap_next_def chunk_bits_def add.commute)
    next
      case (Cons m ms)
      have "for_each_loop len (m # ms) (startbit m + of_nat 0)
          = Some (Inr (chunk_bits 0 m @ concat (map (chunk_bits 0) ms)))"
        using less.prems Cons True by (intro less.hyps) (auto simp: nodes_end_def)
      then show ?thesis using True Cons by (simp add: ebitmap_next_def chunk_bits_def)
    qed
  qed
  show ?case
    by (subst for_each_loop.simps)
      (use lt off ku less.prems(2) rest get in \<open>simp add: chunk_bits_step\<close>)
qed

lemma ebitmap_for_each_bit_eq:
  assumes "ebitmap_ok e"
  shows "ebitmap_for_each_bit e = Inr (concat (map (chunk_bits 0) (node e)))"
proof (cases "node e")
  case Nil
  with assms have "highbit e = 0" by (simp add: ebitmap_ok_def nodes_end_def)
  with Nil show ?thesis
    by (simp add: ebitmap_for_each_bit_def ebitmap_length_def ebitmap_startbit_def for_each_loop.simps)
next
  case (Cons n ns)
  with assms for_each_nodes [of n ns 0 "highbit e"] show ?thesis
    by (simp add: ebitmap_for_each_bit_def ebitmap_length_def ebitmap_startbit_def ebitmap_ok_def)
qed

lemma chunk_bits_set:
  assumes "node_ok n"
  shows "unat ` fst ` {x \<in> set (chunk_bits 0 n). snd x} = {i. node_has n i}"
proof -
  have "unat ` fst ` {x \<in> set (chunk_bits 0 n). snd x}
      = (\<lambda>k. unat (startbit n + of_nat k)) ` {k. k < 64 \<and> bit (nmap n) k}"
    by (force simp: chunk_bits_def)
  also have "\<dots> = (\<lambda>k. unat (startbit n) + k) ` {k. k < 64 \<and> bit (nmap n) k}"
    using unat_chunk_pos [OF assms] by (intro image_cong) auto
  also have "\<dots> = {i. node_has n i}"
    by (force simp: node_has_def image_iff intro!: exI [where x = "x - unat (startbit n)" for x])
  finally show ?thesis .
qed

lemma chunk_bits_range:
  assumes "node_ok n" and "x \<in> set (chunk_bits 0 n)"
  shows "unat (startbit n) \<le> unat (fst x)" and "unat (fst x) < unat (startbit n) + 64"
  using assms unat_chunk_pos [OF assms(1)] by (auto simp: chunk_bits_def)

lemma chunk_sorted: "node_ok n \<Longrightarrow> sorted_wrt (<) (map fst (chunk_bits 0 n))"
proof -
  assume n: "node_ok n"
  have "sorted_wrt (\<lambda>j k. startbit n + of_nat j < startbit n + (of_nat k :: u32)) [0..<64]"
    by (rule sorted_wrt_mono_rel [OF _ sorted_wrt_upt])
      (use n in \<open>auto simp: word_less_nat_alt unat_chunk_pos\<close>)
  then show ?thesis unfolding chunk_bits_def by (simp only: map_map comp_def fst_conv sorted_wrt_map)
qed

lemma chunks_sorted: "nodes_ok ns \<Longrightarrow> sorted_wrt (<) (map fst (concat (map (chunk_bits 0) ns)))"
proof (induction ns)
  case (Cons n ns)
  have "fst x < fst y" if "x \<in> set (chunk_bits 0 n)" "m \<in> set ns" "y \<in> set (chunk_bits 0 m)" for x m y
  proof -
    from Cons.prems that have m: "node_ok n" "node_ok m" "unat (startbit n) + 64 \<le> unat (startbit m)"
      by (auto simp: nodes_ok_def intro: chunk_gap)
    with chunk_bits_range(2) [OF m(1) that(1)] chunk_bits_range(1) [OF m(2) that(3)] show ?thesis
      by (simp add: word_less_nat_alt)
  qed
  with Cons show ?case by (auto simp: sorted_wrt_append chunk_sorted)
qed simp

text \<open>The loop over the set bits visits exactly the bits of the set, in increasing order.\<close>

lemma ebitmap_positive_bits_eq:
  assumes "ebitmap_ok e"
  shows "\<exists>bs. ebitmap_positive_bits e = Inr bs \<and> unat ` set bs = ebitmap_bits e \<and> sorted_wrt (<) bs"
proof -
  let ?bs = "map fst (filter snd (concat (map (chunk_bits 0) (node e))))"
  have ok: "nodes_ok (node e)" using assms by (simp add: ebitmap_ok_def)
  have "unat ` set ?bs = (\<Union>n \<in> set (node e). unat ` fst ` {x \<in> set (chunk_bits 0 n). snd x})"
    by auto
  also have "\<dots> = ebitmap_bits e"
    using ok by (auto simp: nodes_ok_def ebitmap_bits_def nodes_bits_def chunk_bits_set)
  finally have "unat ` set ?bs = ebitmap_bits e" .
  moreover have "sorted_wrt (<) (map fst (concat (map (chunk_bits 0) (node e))))"
    by (rule chunks_sorted [OF ok])
  then have "sorted_wrt (<) ?bs"
    unfolding sorted_wrt_map by (rule sorted_wrt_filter)
  moreover have "ebitmap_positive_bits e = Inr ?bs"
    by (simp add: ebitmap_positive_bits_def ebitmap_for_each_bit_eq [OF assms])
  ultimately show ?thesis by blast
qed

section \<open>Reading and writing\<close>

text \<open>The bytes of a bitmap in the policy file.\<close>

definition node_image :: "ebitmap_node \<Rightarrow> u8 list" where
  "node_image n = put_le 4 (startbit n) @ put_le 8 (nmap n)"

definition ebitmap_image :: "ebitmap \<Rightarrow> u8 list" where
  "ebitmap_image e = (put_le 4 (64 :: u32) @ put_le 4 (highbit e) @ put_le 4 (of_nat (length (node e)) :: u32))
     @ concat (map node_image (node e))"

lemma length_node_image [simp]: "length (node_image n) = 12"
  by (simp add: node_image_def)

lemma write_nodes_image:
  "pf_room fp (length (concat (map node_image ns)) + k) \<Longrightarrow>
   \<exists>fp'. write_nodes ns fp = Inr fp' \<and> pf_room fp' k \<and> pf_out fp' = pf_out fp @ concat (map node_image ns)"
proof (induction ns arbitrary: fp)
  case (Cons n ns)
  let ?rest = "length (concat (map node_image ns)) + k"
  from Cons.prems have "pf_room fp (length (put_le 4 (startbit n)) + (8 + ?rest))" by (simp add: add.assoc)
  from put_entry_room [OF this, of 4 1] obtain fp1 where
    1: "put_entry (put_le 4 (startbit n)) 4 1 fp = (1, fp1)" "pf_room fp1 (8 + ?rest)"
    "pf_out fp1 = pf_out fp @ put_le 4 (startbit n)" by auto
  from 1(2) have "pf_room fp1 (length (put_le 8 (nmap n)) + ?rest)" by simp
  from put_entry_room [OF this, of 8 1] obtain fp2 where
    2: "put_entry (put_le 8 (nmap n)) 8 1 fp1 = (1, fp2)" "pf_room fp2 ?rest"
    "pf_out fp2 = pf_out fp1 @ put_le 8 (nmap n)" by auto
  from Cons.IH [OF 2(2)] 1 2 show ?case by (auto simp: node_image_def)
qed simp

lemma ebitmap_write_image:
  assumes "pf_room fp (length (ebitmap_image e) + k)"
  shows "\<exists>fp'. ebitmap_write e fp = Inr fp' \<and> pf_room fp' k \<and> pf_out fp' = pf_out fp @ ebitmap_image e"
proof -
  let ?hd = "put_le 4 (64 :: u32) @ put_le 4 (highbit e) @ put_le 4 (of_nat (length (node e)) :: u32)"
  let ?rest = "length (concat (map node_image (node e))) + k"
  have "pf_room fp (length ?hd + ?rest)" using assms by (simp add: ebitmap_image_def add.assoc)
  from put_entry_room [OF this, of 4 3] obtain fp1 where
    "put_entry ?hd 4 3 fp = (3, fp1)" "pf_room fp1 ?rest" "pf_out fp1 = pf_out fp @ ?hd" by auto
  with write_nodes_image [of fp1 "node e" k] show ?thesis
    by (auto simp: ebitmap_write_def ebitmap_image_def)
qed

lemma node_ok_and_63: "node_ok n \<Longrightarrow> startbit n AND 63 = 0"
  using unat_and_63 [of "startbit n"] by (simp add: node_ok_def unat_eq_0 [symmetric] del: unat_eq_0)

lemma read_nodes_image:
  assumes "nodes_ok ns" and "\<forall>n \<in> set ns. startbit n + 64 \<le> hb \<and> (\<forall>p. l = Some p \<longrightarrow> startbit p < startbit n)"
    and "pf_reads fp (concat (map node_image ns) @ rest)"
  shows "\<exists>fp'. yields (read_nodes (length ns) hb l fp) (Inr (ns, fp')) \<and> pf_reads fp' rest"
  using assms
proof (induction ns arbitrary: l fp)
  case (Cons n ns)
  let ?rest = "concat (map node_image ns) @ rest"
  from Cons.prems(3) have "pf_reads fp (put_le 4 (startbit n) @ (put_le 8 (nmap n) @ ?rest))"
    by (simp add: node_image_def [of n])
  from next_entry_append [OF this, of 4] obtain fp1 where
    1: "next_entry fp 4 = Inr (put_le 4 (startbit n), fp1)" "pf_reads fp1 (put_le 8 (nmap n) @ ?rest)" by auto
  from next_entry_append [OF 1(2), of 8] obtain fp2 where
    2: "next_entry fp1 8 = Inr (put_le 8 (nmap n), fp2)" "pf_reads fp2 ?rest" by auto
  have n: "node_ok n" "nodes_ok ns" using Cons.prems by auto
  from Cons.IH [OF n(2) _ 2(2), of "Some n"] Cons.prems obtain fp3 where
    3: "yields (read_nodes (length ns) hb (Some n) fp2) (Inr (ns, fp3))" "pf_reads fp3 rest" by auto
  have "startbit n + 64 \<le> hb" using Cons.prems by simp
  then have "unat (startbit n) \<le> unat hb - 64" using unat_startbit_end [OF n(1)] by (simp add: word_le_nat_alt)
  moreover have "\<not> (case l of None \<Rightarrow> False | Some p \<Rightarrow> startbit n \<le> startbit p)"
    using Cons.prems(2) by (auto split: option.split)
  moreover have "nmap n \<noteq> 0" using n by (simp add: node_ok_def)
  ultimately have "yields (read_nodes (length (n # ns)) hb l fp) (Inr (n # ns, fp3))"
    by (cases l) (simp_all add: 1 2 Let_def node_ok_and_63 [OF n(1)] yields_bindE_Inr [OF 3(1)])
  with 3(2) show ?case by blast
qed simp

lemma nodes_length_le:
  "nodes_ok (n # ns) \<Longrightarrow> unat (startbit n) + 64 * length (n # ns) \<le> unat (nodes_end (n # ns))"
proof (induction ns arbitrary: n)
  case (Cons m ms)
  from Cons.prems have "unat (startbit n) + 64 \<le> unat (startbit m)" by (intro chunk_gap) auto
  moreover have "unat (startbit m) + 64 * length (m # ms) \<le> unat (nodes_end (m # ms))"
    using Cons.prems by (intro Cons.IH) auto
  ultimately show ?case by (simp add: nodes_end_def)
qed (simp add: nodes_end_def unat_startbit_end)

lemma nodes_length_u32: "nodes_ok ns \<Longrightarrow> unat (of_nat (length ns) :: u32) = length ns"
proof -
  assume "nodes_ok ns"
  then have "length ns < 4294967296"
    using nodes_length_le [of "hd ns" "tl ns"] unat_u32_lt [of "nodes_end ns"] by (cases ns) auto
  then show ?thesis by (rule unat_of_nat_u32)
qed

lemma ebitmap_read_image:
  assumes "ebitmap_ok e" and "pf_reads fp (ebitmap_image e @ rest)"
  shows "\<exists>fp'. yields (ebitmap_read fp) (Inr (e, fp')) \<and> pf_reads fp' rest"
proof -
  let ?hd = "put_le 4 (64 :: u32) @ put_le 4 (highbit e) @ put_le 4 (of_nat (length (node e)) :: u32)"
  have ok: "nodes_ok (node e)" and hb: "highbit e = nodes_end (node e)" using assms by (simp_all add: ebitmap_ok_def)
  have "pf_reads fp (?hd @ (concat (map node_image (node e)) @ rest))"
    using assms by (simp add: ebitmap_image_def)
  from next_entry_append [OF this, of 12] obtain fp1 where
    1: "next_entry fp 12 = Inr (?hd, fp1)" "pf_reads fp1 (concat (map node_image (node e)) @ rest)" by auto
  have "\<forall>n \<in> set (node e). startbit n + 64 \<le> highbit e" using nodes_end_upper [OF ok] hb by simp
  then obtain fp2 where 2: "yields (read_nodes (length (node e)) (highbit e) None fp1) (Inr (node e, fp2))"
    "pf_reads fp2 rest" using read_nodes_image [OF ok _ 1(2), of "highbit e" None] by auto
  have al: "highbit e AND 63 = 0"
    using unat_and_63 [of "highbit e"] nodes_end_le [OF ok] by (simp add: hb unat_eq_0 [symmetric] del: unat_eq_0)
  have empty: "highbit e = 0 \<Longrightarrow> node e = []"
    using nodes_end_upper [OF ok] hb ok unat_startbit_end [of "hd (node e)"]
    by (cases "node e") (auto simp: word_le_nat_alt)
  show ?thesis
  proof (cases "highbit e = 0")
    case True
    with 1 empty show ?thesis
      by (intro exI [of _ fp1]) (auto simp: ebitmap_read_def Let_def intro!: ebitmap.equality)
  next
    case False
    with 2 al show ?thesis
      by (intro exI [of _ fp2])
        (simp add: ebitmap_read_def 1(1) Let_def nodes_length_u32 [OF ok] yields_bindE_Inr [OF 2(1)])
  qed
qed

section \<open>Properties\<close>

text \<open>\<open>ebitmap_set_bit\<close> rejects exactly the bits of the last chunk, whose end would not fit
  in \<open>highbit\<close>. For every other bit it keeps the bitmap well formed, and afterwards
  \<open>ebitmap_get_bit\<close> returns the new value for that bit and the old value for every other bit; the only
  other outcome is \<open>ENOMEM\<close>, and it does not occur when no allocation fails.\<close>

theorem ebitmap_set_then_get:
  assumes "ebitmap_ok e"
  shows "if unat b < 2 ^ 32 - 64
    then \<exists>e'. yields (ebitmap_set_bit e b v) (Inr e') \<and> ebitmap_ok e'
       \<and> (\<forall>b'. ebitmap_get_bit e' b' = (if b' = b then v else ebitmap_get_bit e b'))
    else ebitmap_set_bit e b v = throwE EINVAL"
proof (cases "bit_settable b")
  case True
  from ebitmap_set_bit_spec [OF assms True, of v] obtain e' where
    e': "yields (ebitmap_set_bit e b v) (Inr e')" "ebitmap_ok e'"
    "ebitmap_bits e' = (if v then insert (unat b) (ebitmap_bits e) else ebitmap_bits e - {unat b})" by blast
  then have "\<forall>b'. ebitmap_get_bit e' b' = (if b' = b then v else ebitmap_get_bit e b')"
    by (auto simp: ebitmap_get_bit_iff assms word_unat_eq_iff)
  with e' True show ?thesis by (auto simp: bit_settable_def)
next
  case False
  then have "ebitmap_set_bit e b v = throwE EINVAL"
    by (rule_tac ext) (simp add: ebitmap_set_bit_einval throwE_def)
  with False show ?thesis by (simp add: bit_settable_def)
qed

text \<open>Claim C37. The Boolean operations compute union, intersection, symmetric difference and
  difference of the sets their arguments represent, with a well-formed result, or fail with
  \<open>ENOMEM\<close>.\<close>

theorem ebitmap_boolean_ops:
  assumes "ebitmap_ok e1" and "ebitmap_ok e2" and "unat maxbit \<le> 2 ^ 32 - 64"
  shows "(\<exists>d. yields (ebitmap_or e1 e2) (Inr d) \<and> ebitmap_ok d \<and> ebitmap_bits d = ebitmap_bits e1 \<union> ebitmap_bits e2)
    \<and> (\<exists>d. yields (ebitmap_and e1 e2) (Inr d) \<and> ebitmap_ok d \<and> ebitmap_bits d = ebitmap_bits e1 \<inter> ebitmap_bits e2)
    \<and> (\<exists>d. yields (ebitmap_xor e1 e2) (Inr d) \<and> ebitmap_ok d \<and>
          ebitmap_bits d = (ebitmap_bits e1 - ebitmap_bits e2) \<union> (ebitmap_bits e2 - ebitmap_bits e1))
    \<and> (\<exists>d. yields (ebitmap_andnot e1 e2 maxbit) (Inr d) \<and> ebitmap_ok d \<and>
          ebitmap_bits d = ebitmap_bits e1 \<inter> {..<unat maxbit} - ebitmap_bits e2)"
  by (intro conjI ebitmap_or_spec ebitmap_and_spec ebitmap_xor_spec ebitmap_andnot_spec assms)


text \<open>Claim C39. The iteration macros end on every well-formed bitmap, never read outside the node list,
  and enumerate exactly the members of the set, each once and in increasing order.\<close>

theorem ebitmap_iteration:
  assumes "ebitmap_ok e"
  shows "\<exists>bs. ebitmap_positive_bits e = Inr bs \<and> unat ` set bs = ebitmap_bits e \<and> sorted_wrt (<) bs"
  by (rule ebitmap_positive_bits_eq [OF assms])

text \<open>Writing a well-formed bitmap to a policy file with enough room and reading the bytes
  back gives the same bitmap and consumes exactly the bytes written.\<close>

theorem ebitmap_write_read:
  assumes "ebitmap_ok e" and "pf_room fp (length (ebitmap_image e))" and "pf_out fp = []"
  shows "\<exists>fp' r. ebitmap_write e fp = Inr fp' \<and>
     yields (ebitmap_read (pf_of_bytes (pf_out fp' @ rest))) (Inr (e, r)) \<and> pf_reads r rest"
proof -
  from ebitmap_write_image [of fp e 0] assms obtain fp' where
    fp': "ebitmap_write e fp = Inr fp'" "pf_out fp' = ebitmap_image e" by auto
  from ebitmap_read_image [OF assms(1) pf_reads_of_bytes, of rest] obtain r where
    "yields (ebitmap_read (pf_of_bytes (ebitmap_image e @ rest))) (Inr (e, r))" "pf_reads r rest" by blast
  with fp' show ?thesis by auto
qed

section \<open>Witnesses\<close>

definition eb_a :: ebitmap where
  "eb_a = \<lparr>node = [\<lparr>startbit = 0, nmap = 6\<rparr>, \<lparr>startbit = 128, nmap = 1\<rparr>], highbit = 192\<rparr>"

definition eb_b :: ebitmap where
  "eb_b = \<lparr>node = [\<lparr>startbit = 0, nmap = 2\<rparr>], highbit = 64\<rparr>"

lemma eb_ok: "ebitmap_ok eb_a" "ebitmap_ok eb_b"
  by (simp_all add: eb_a_def eb_b_def ebitmap_ok_def node_ok_def nodes_end_def)

theorem ebitmap_set_then_get_witness:
  "\<exists>e'. yields (ebitmap_set_bit eb_a 70 True) (Inr e') \<and> ebitmap_ok e' \<and> ebitmap_get_bit e' 70 \<and> ebitmap_get_bit e' 1"
proof -
  have "ebitmap_get_bit eb_a 1" by code_simp
  then show ?thesis using ebitmap_set_then_get [OF eb_ok(1), of 70 True] by auto
qed

theorem ebitmap_boolean_ops_witness:
  "\<exists>d. yields (ebitmap_and eb_a eb_b) (Inr d) \<and> ebitmap_ok d \<and> ebitmap_bits d = ebitmap_bits eb_a \<inter> ebitmap_bits eb_b"
  using ebitmap_boolean_ops [OF eb_ok, of 64] by simp


theorem ebitmap_iteration_witness:
  "\<exists>bs. ebitmap_positive_bits eb_a = Inr bs \<and> unat ` set bs = ebitmap_bits eb_a \<and> sorted_wrt (<) bs"
  by (rule ebitmap_iteration [OF eb_ok(1)])

theorem ebitmap_write_read_witness:
  "\<exists>fp' r. ebitmap_write eb_a \<lparr>pf_type = PF_USE_MEMORY, pf_data = [], pf_len = 36, pf_out = []\<rparr> = Inr fp'
     \<and> yields (ebitmap_read (pf_of_bytes (pf_out fp' @ []))) (Inr (eb_a, r)) \<and> pf_reads r []"
  by (rule ebitmap_write_read [OF eb_ok(1)])
    (simp_all add: pf_room_def ebitmap_image_def eb_a_def)

end
