(* ===== verification/Context_Struct.thy ===== *)
theory Context_Struct
  imports Ebitmap
begin

text \<open>
  Security levels, ranges and contexts (mls_types.h, context.h) with the relations between them.
  The range of the C code is an array of two levels; here it is a record with the fields
  \<open>low\<close> (\<open>level[0]\<close>) and \<open>high\<close> (\<open>level[1]\<close>). The dominance relation is an interface: the locale
  \<open>dominance\<close> states the laws of a partial order up to the equality test of the code, its lemmas are
  proved once, and it is interpreted on levels and on ranges.
\<close>

section \<open>Levels, ranges, contexts\<close>

record mls_level =
  sens :: u32
  cat :: ebitmap

record mls_range =
  low :: mls_level
  high :: mls_level

record context_struct =
  c_user :: u32
  c_role :: u32
  c_type :: u32
  c_range :: mls_range

definition mls_level_init :: mls_level where
  "mls_level_init = \<lparr>sens = 0, cat = ebitmap_init\<rparr>"

text \<open>\<open>mls_level_cpy\<close> returns -1 for every failure of \<open>ebitmap_cpy\<close>.\<close>

definition mls_level_cpy :: "mls_level \<Rightarrow> mls_level alloc_m" where
  "mls_level_cpy src = bindE (failE (ebitmap_cpy (cat src)) STATUS_ERR)
     (\<lambda>c. returnE \<lparr>sens = sens src, cat = c\<rparr>)"

definition mls_level_destroy :: "mls_level \<Rightarrow> mls_level" where
  "mls_level_destroy level = (let level = level\<lparr>cat := ebitmap_destroy (cat level)\<rparr> in mls_level_init)"

definition mls_level_eq :: "mls_level \<Rightarrow> mls_level \<Rightarrow> bool" where
  "mls_level_eq l1 l2 \<longleftrightarrow> sens l1 = sens l2 \<and> ebitmap_cmp (cat l1) (cat l2)"

definition mls_level_dom :: "mls_level \<Rightarrow> mls_level \<Rightarrow> bool" where
  "mls_level_dom l1 l2 \<longleftrightarrow> sens l1 \<ge> sens l2 \<and> ebitmap_contains (cat l1) (cat l2)"

definition mls_level_incomp :: "mls_level \<Rightarrow> mls_level \<Rightarrow> bool" where
  "mls_level_incomp l1 l2 \<longleftrightarrow> \<not> mls_level_dom l1 l2 \<and> \<not> mls_level_dom l2 l1"

definition mls_level_between :: "mls_level \<Rightarrow> mls_level \<Rightarrow> mls_level \<Rightarrow> bool" where
  "mls_level_between l1 l2 l3 \<longleftrightarrow> mls_level_dom l1 l2 \<and> mls_level_dom l3 l1"

definition mls_range_contains :: "mls_range \<Rightarrow> mls_range \<Rightarrow> bool" where
  "mls_range_contains r1 r2 \<longleftrightarrow> mls_level_dom (low r2) (low r1) \<and> mls_level_dom (high r1) (high r2)"

definition mls_range_init :: mls_range where
  "mls_range_init = \<lparr>low = mls_level_init, high = mls_level_init\<rparr>"

definition mls_range_cpy :: "mls_range \<Rightarrow> mls_range alloc_m" where
  "mls_range_cpy src = bindE (mls_level_cpy (low src)) (\<lambda>l0.
     bindE (mls_level_cpy (high src)) (\<lambda>l1. returnE \<lparr>low = l0, high = l1\<rparr>))"

definition mls_range_destroy :: "mls_range \<Rightarrow> mls_range" where
  "mls_range_destroy r = \<lparr>low = mls_level_destroy (low r), high = mls_level_destroy (high r)\<rparr>"

definition mls_range_eq :: "mls_range \<Rightarrow> mls_range \<Rightarrow> bool" where
  "mls_range_eq r1 r2 \<longleftrightarrow> mls_level_eq (low r1) (low r2) \<and> mls_level_eq (high r1) (high r2)"

definition mls_context_init :: "context_struct \<Rightarrow> context_struct" where
  "mls_context_init c = c\<lparr>c_range := mls_range_init\<rparr>"

definition mls_context_cpy :: "context_struct \<Rightarrow> context_struct \<Rightarrow> context_struct alloc_m" where
  "mls_context_cpy dst src = bindE (mls_range_cpy (c_range src)) (\<lambda>r. returnE (dst\<lparr>c_range := r\<rparr>))"

definition mls_context_cmp :: "context_struct \<Rightarrow> context_struct \<Rightarrow> bool" where
  "mls_context_cmp c1 c2 \<longleftrightarrow> mls_level_eq (low (c_range c1)) (low (c_range c2))
     \<and> mls_level_eq (high (c_range c1)) (high (c_range c2))"

definition mls_context_destroy :: "context_struct \<Rightarrow> context_struct" where
  "mls_context_destroy c = mls_context_init (c\<lparr>c_range := mls_range_destroy (c_range c)\<rparr>)"

definition context_init :: context_struct where
  "context_init = \<lparr>c_user = 0, c_role = 0, c_type = 0, c_range = mls_range_init\<rparr>"

definition context_cpy :: "context_struct \<Rightarrow> context_struct \<Rightarrow> context_struct alloc_m" where
  "context_cpy dst src =
     mls_context_cpy (dst\<lparr>c_user := c_user src, c_role := c_role src, c_type := c_type src\<rparr>) src"

definition context_destroy :: "context_struct \<Rightarrow> context_struct" where
  "context_destroy c = mls_context_destroy (c\<lparr>c_user := 0, c_role := 0, c_type := 0\<rparr>)"

definition context_cmp :: "context_struct \<Rightarrow> context_struct \<Rightarrow> bool" where
  "context_cmp c1 c2 \<longleftrightarrow> c_user c1 = c_user c2 \<and> c_role c1 = c_role c2 \<and> c_type c1 = c_type c2
     \<and> mls_context_cmp c1 c2"

section \<open>Well-formed values\<close>

definition level_ok :: "mls_level \<Rightarrow> bool" where
  "level_ok l \<longleftrightarrow> ebitmap_ok (cat l)"

definition range_ok :: "mls_range \<Rightarrow> bool" where
  "range_ok r \<longleftrightarrow> level_ok (low r) \<and> level_ok (high r)"

definition context_ok :: "context_struct \<Rightarrow> bool" where
  "context_ok c \<longleftrightarrow> range_ok (c_range c)"

lemma level_init_ok [simp]: "level_ok mls_level_init" "range_ok mls_range_init" "context_ok context_init"
  by (simp_all add: level_ok_def mls_level_init_def mls_range_init_def range_ok_def context_ok_def context_init_def)

lemma mls_level_eq_iff: "level_ok l1 \<Longrightarrow> level_ok l2 \<Longrightarrow> mls_level_eq l1 l2 \<longleftrightarrow> l1 = l2"
  using ebitmap_ok_eqI [of "cat l1" "cat l2"]
  by (auto simp: mls_level_eq_def level_ok_def ebitmap_cmp_iff intro!: mls_level.equality)

lemma mls_level_dom_iff:
  "level_ok l1 \<Longrightarrow> level_ok l2 \<Longrightarrow>
     mls_level_dom l1 l2 \<longleftrightarrow> sens l2 \<le> sens l1 \<and> ebitmap_bits (cat l2) \<subseteq> ebitmap_bits (cat l1)"
  by (auto simp: mls_level_dom_def level_ok_def ebitmap_contains_iff)

lemma mls_range_eq_iff: "range_ok r1 \<Longrightarrow> range_ok r2 \<Longrightarrow> mls_range_eq r1 r2 \<longleftrightarrow> r1 = r2"
  by (auto simp: mls_range_eq_def range_ok_def mls_level_eq_iff intro!: mls_range.equality)

lemma context_cmp_iff: "context_ok c1 \<Longrightarrow> context_ok c2 \<Longrightarrow> context_cmp c1 c2 \<longleftrightarrow> c1 = c2"
  using mls_range_eq_iff [of "c_range c1" "c_range c2"]
  by (auto simp: context_cmp_def mls_context_cmp_def context_ok_def mls_range_eq_def
      intro!: context_struct.equality)

lemma mls_level_cpy_returns: "returns (mls_level_cpy l) (Inr l)"
proof -
  have "returns (failE (ebitmap_cpy (cat l)) STATUS_ERR) (Inr (cat l))"
    by (intro returns_failE_Inr returns_yields ebitmap_cpy_yields) auto
  then show ?thesis unfolding mls_level_cpy_def by (rule returns_bindE_Inr) simp
qed

lemma mls_range_cpy_returns: "returns (mls_range_cpy r) (Inr r)"
  unfolding mls_range_cpy_def
  by (rule returns_bindE_Inr [OF mls_level_cpy_returns])+ simp

lemma context_cpy_returns: "returns (context_cpy dst src) (Inr src)"
  unfolding context_cpy_def mls_context_cpy_def
  by (rule returns_bindE_Inr [OF mls_range_cpy_returns]) simp

section \<open>Dominance\<close>

locale dominance =
  fixes dom :: "'l \<Rightarrow> 'l \<Rightarrow> bool"
    and eq :: "'l \<Rightarrow> 'l \<Rightarrow> bool"
    and ok :: "'l \<Rightarrow> bool"
  assumes dom_refl: "ok a \<Longrightarrow> dom a a"
    and dom_trans: "ok a \<Longrightarrow> ok b \<Longrightarrow> ok c \<Longrightarrow> dom a b \<Longrightarrow> dom b c \<Longrightarrow> dom a c"
    and dom_antisym: "ok a \<Longrightarrow> ok b \<Longrightarrow> dom a b \<Longrightarrow> dom b a \<Longrightarrow> eq a b"
    and eq_dom: "ok a \<Longrightarrow> ok b \<Longrightarrow> eq a b \<Longrightarrow> dom a b"
begin

text \<open>The interval order of a dominance relation: \<open>(l, h)\<close> contains \<open>(l', h')\<close>.\<close>

definition contains :: "'l \<times> 'l \<Rightarrow> 'l \<times> 'l \<Rightarrow> bool" where
  "contains x y \<longleftrightarrow> dom (fst y) (fst x) \<and> dom (snd x) (snd y)"

lemma contains_trans:
  assumes "ok (fst x)" "ok (snd x)" "ok (fst y)" "ok (snd y)" "ok (fst z)" "ok (snd z)"
    and "contains x y" and "contains y z"
  shows "contains x z"
  using assms dom_trans [of "fst z" "fst y" "fst x"] dom_trans [of "snd x" "snd y" "snd z"]
  by (simp add: contains_def)

lemma member_of_contained:
  assumes "ok (fst x)" "ok (snd x)" "ok (fst y)" "ok (snd y)" "ok l"
    and "contains x y" and "dom l (fst y)" and "dom (snd y) l"
  shows "dom l (fst x)" and "dom (snd x) l"
  using assms dom_trans [of l "fst y" "fst x"] dom_trans [of "snd x" "snd y" l]
  by (auto simp: contains_def)

lemma between_bounds:
  assumes "ok a" "ok b" "ok c" and "dom a b" and "dom c a"
  shows "dom c b"
  using assms dom_trans by blast

end

interpretation lvl: dominance mls_level_dom mls_level_eq level_ok
proof unfold_locales
  fix a b c :: mls_level
  show "level_ok a \<Longrightarrow> mls_level_dom a a" by (simp add: mls_level_dom_iff)
  show "level_ok a \<Longrightarrow> level_ok b \<Longrightarrow> level_ok c \<Longrightarrow> mls_level_dom a b \<Longrightarrow> mls_level_dom b c
      \<Longrightarrow> mls_level_dom a c" by (auto simp: mls_level_dom_iff)
  assume ok: "level_ok a" "level_ok b"
  show "mls_level_dom a b \<Longrightarrow> mls_level_dom b a \<Longrightarrow> mls_level_eq a b"
    using ok ebitmap_ok_eqI [of "cat a" "cat b"]
    by (auto simp: mls_level_dom_iff mls_level_eq_iff level_ok_def intro!: mls_level.equality)
  show "mls_level_eq a b \<Longrightarrow> mls_level_dom a b"
    using ok by (simp add: mls_level_eq_iff mls_level_dom_iff)
qed

lemma mls_range_contains_lvl:
  "mls_range_contains r1 r2 \<longleftrightarrow> lvl.contains (low r1, high r1) (low r2, high r2)"
  by (simp add: mls_range_contains_def lvl.contains_def)

text \<open>Containment of ranges is itself a dominance relation.\<close>

interpretation rng: dominance mls_range_contains mls_range_eq range_ok
proof unfold_locales
  fix a b c :: mls_range
  show "range_ok a \<Longrightarrow> mls_range_contains a a"
    by (simp add: mls_range_contains_def range_ok_def lvl.dom_refl)
  show "range_ok a \<Longrightarrow> range_ok b \<Longrightarrow> range_ok c \<Longrightarrow> mls_range_contains a b \<Longrightarrow> mls_range_contains b c
      \<Longrightarrow> mls_range_contains a c"
    unfolding mls_range_contains_lvl range_ok_def by (rule lvl.contains_trans [rotated -2]) auto
  show "range_ok a \<Longrightarrow> range_ok b \<Longrightarrow> mls_range_contains a b \<Longrightarrow> mls_range_contains b a \<Longrightarrow> mls_range_eq a b"
    by (simp add: mls_range_contains_def range_ok_def mls_range_eq_def lvl.dom_antisym)
  show "range_ok a \<Longrightarrow> range_ok b \<Longrightarrow> mls_range_eq a b \<Longrightarrow> mls_range_contains a b"
    by (simp add: mls_range_eq_iff) (simp add: mls_range_contains_def range_ok_def lvl.dom_refl)
qed

section \<open>Properties\<close>



end
