(* ===== verification/Policydb.thy ===== *)
theory Policydb
  imports Avtab Hashtab Context_Struct
begin

text \<open>
  The data of the policy database (policydb.h, constraint.h, conditional.h): the parts of
  \<open>policydb_t\<close> that the kernel policy's decision procedures read. A table of pointers indexed by
  value is a list of options, a null pointer being \<open>None\<close>; a linked list is a list. Fields that
  only the module linker and the parser use (scopes, avrule blocks, semantic ranges of users) are left out: the
  database is that of a kernel policy (\<open>POLICY_KERN\<close>). The fields of the labelled objects are named after their use on the
  SELinux platform; on the Xen platform the first five hold the initial SIDs, interrupts, I/O ports, I/O memory and devices. The data
  objects of the booleans are shared between the symbol table and \<open>bool_val_to_struct\<close>; their current
  state is the one in \<open>bool_val_to_struct\<close>.
\<close>

section \<open>Symbol data\<close>

record perm_datum =
  pd_value :: u32

record common_datum =
  cmd_value :: u32
  cmd_permissions :: "perm_datum symtab"

record type_set =
  ts_types :: ebitmap
  ts_negset :: ebitmap
  ts_flags :: u32

record role_set =
  rs_roles :: ebitmap
  rs_flags :: u32

datatype cexpr_kind = CEXPR_NOT | CEXPR_AND | CEXPR_OR | CEXPR_ATTR | CEXPR_NAMES | CEXPR_OTHER u32

datatype cexpr_op = CEXPR_EQ | CEXPR_NEQ | CEXPR_DOM | CEXPR_DOMBY | CEXPR_INCOMP | CEXPR_OP_OTHER u32

record constraint_expr =
  ce_type :: cexpr_kind
  ce_attr :: u32
  ce_op :: cexpr_op
  ce_names :: ebitmap
  ce_type_names :: type_set

record constraint_node =
  cn_permissions :: u32
  cn_expr :: "constraint_expr list"

record class_datum =
  cd_value :: u32
  cd_comkey :: "string option"
  cd_comdatum :: "common_datum option"
  cd_permissions :: "perm_datum symtab"
  cd_constraints :: "constraint_node list"
  cd_validatetrans :: "constraint_node list"
  cd_default_user :: u8
  cd_default_role :: u8
  cd_default_type :: u8
  cd_default_range :: u8

record role_datum =
  rd_value :: u32
  rd_dominates :: ebitmap
  rd_types :: type_set
  rd_cache :: ebitmap
  rd_bounds :: u32
  rd_flavor :: u32
  rd_roles :: ebitmap

record role_trans =
  rt_role :: u32
  rt_type :: u32
  rt_tclass :: u32
  rt_new_role :: u32

record role_allow =
  ra_role :: u32
  ra_new_role :: u32

record filename_trans =
  ft_stype :: u32
  ft_ttype :: u32
  ft_tclass :: u32
  ft_name :: string
  ft_otype :: u32

record type_datum =
  td_value :: u32
  td_primary :: u32
  td_flavor :: u32
  td_types :: ebitmap
  td_flags :: u32
  td_bounds :: u32

record user_datum =
  ud_value :: u32
  ud_roles :: role_set
  ud_cache :: ebitmap
  ud_exp_range :: mls_range
  ud_exp_dfltlevel :: mls_level
  ud_bounds :: u32

record level_datum =
  ld_level :: mls_level
  ld_isalias :: u8

record cat_datum =
  catd_value :: u32
  catd_isalias :: u8

record range_trans =
  rtr_source_type :: u32
  rtr_target_type :: u32
  rtr_target_class :: u32
  rtr_target_range :: mls_range

record cond_bool_datum =
  cbd_value :: u32
  cbd_state :: int

section \<open>Conditional expressions and nodes\<close>

datatype cond_kind = COND_BOOL | COND_NOT | COND_OR | COND_AND | COND_XOR | COND_EQ | COND_NEQ
  | COND_OTHER u32

record cond_expr =
  cx_type :: cond_kind
  cx_bool :: u32

text \<open>The lists of a node hold the addresses of the nodes of \<open>te_cond_avtab\<close>.\<close>

record cond_node =
  cur_state :: int
  cn_cond_expr :: "cond_expr list"
  true_list :: "nat list"
  false_list :: "nat list"
  nbools :: u32
  bool_ids :: "u32 list"
  expr_pre_comp :: u32
  cn_flags :: u32

section \<open>Access decisions\<close>

record av_decision =
  allowed :: u32
  decided :: u32
  auditallow :: u32
  auditdeny :: u32
  seqno :: u32

section \<open>Object contexts\<close>

datatype ocontext_key =
    OName string
  | OPort u8 u16 u16
  | ONode u32 u32
  | ONode6 "u32 list" "u32 list"
  | OPirq u16
  | OIoport u32 u32
  | OIomem u32 u32
  | ODevice u32

record ocontext =
  oc_u :: ocontext_key
  oc_v :: u32
  oc_context :: "context_struct \<times> context_struct"
  oc_sid :: "u32 \<times> u32"

record genfs =
  gf_fstype :: string
  gf_head :: "ocontext list"

section \<open>The policy database\<close>

record policydb =
  p_mls :: bool
  p_commons :: "common_datum symtab"
  p_classes :: "class_datum symtab"
  p_roles :: "role_datum symtab"
  p_types :: "type_datum symtab"
  p_users :: "user_datum symtab"
  p_bools :: "cond_bool_datum symtab"
  p_levels :: "level_datum symtab"
  p_cats :: "cat_datum symtab"
  p_common_val_to_name :: "string option list"
  p_class_val_to_name :: "string option list"
  p_role_val_to_name :: "string option list"
  p_type_val_to_name :: "string option list"
  p_user_val_to_name :: "string option list"
  p_bool_val_to_name :: "string option list"
  p_sens_val_to_name :: "string option list"
  p_cat_val_to_name :: "string option list"
  class_val_to_struct :: "class_datum option list"
  role_val_to_struct :: "role_datum option list"
  user_val_to_struct :: "user_datum option list"
  type_val_to_struct :: "type_datum option list"
  te_avtab :: avtab
  bool_val_to_struct :: "cond_bool_datum option list"
  te_cond_avtab :: avtab
  cond_list :: "cond_node list"
  role_tr :: "role_trans list"
  role_allows :: "role_allow list"
  p_filename_trans :: "filename_trans list"
  oc_isid :: "ocontext list"
  oc_fs :: "ocontext list"
  oc_port :: "ocontext list"
  oc_netif :: "ocontext list"
  oc_node :: "ocontext list"
  oc_fsuse :: "ocontext list"
  oc_node6 :: "ocontext list"
  p_genfs :: "genfs list"
  range_tr :: "range_trans list"
  type_attr_map :: "ebitmap list"
  attr_type_map :: "ebitmap list"
  policycaps :: ebitmap
  permissive_map :: ebitmap
  handle_unknown :: u32
  target_platform :: u32
  unsupported_format :: bool
  policyvers :: u32

text \<open>The database after the \<open>memset\<close> of \<open>policydb_init\<close>.\<close>

definition symtab_zero :: "'d symtab" where
  "symtab_zero = \<lparr>table = None, nprim = 0\<rparr>"

definition avtab_zero :: avtab where
  "avtab_zero = \<lparr>av_htable = None, av_nel = 0, av_nslot = 0, av_mask = 0, av_next_addr = 0\<rparr>"

definition policydb_zero :: policydb where
  "policydb_zero = \<lparr>p_mls = False, p_commons = symtab_zero, p_classes = symtab_zero, p_roles = symtab_zero,
     p_types = symtab_zero, p_users = symtab_zero, p_bools = symtab_zero,
     p_levels = symtab_zero, p_cats = symtab_zero, p_common_val_to_name = [], p_class_val_to_name = [],
     p_role_val_to_name = [], p_type_val_to_name = [], p_user_val_to_name = [],
     p_bool_val_to_name = [], p_sens_val_to_name = [], p_cat_val_to_name = [],
     class_val_to_struct = [], role_val_to_struct = [], user_val_to_struct = [], type_val_to_struct = [],
     te_avtab = avtab_zero, bool_val_to_struct = [], te_cond_avtab = avtab_zero,
     cond_list = [], role_tr = [], role_allows = [], p_filename_trans = [], oc_isid = [], oc_fs = [], oc_port = [],
     oc_netif = [], oc_node = [], oc_fsuse = [], oc_node6 = [], p_genfs = [], range_tr = [],
     type_attr_map = [], attr_type_map = [], policycaps = ebitmap_init, permissive_map = ebitmap_init,
     handle_unknown = 0, target_platform = 0, unsupported_format = False, policyvers = 0\<rparr>"

abbreviation "TYPE_ATTRIB \<equiv> 1 :: u32"
abbreviation "OBJECT_R_VAL \<equiv> 1 :: u32"
abbreviation "SECCLASS_PROCESS \<equiv> 2 :: u32"
abbreviation (input) "CEXPR_MAXDEPTH \<equiv> 5 :: nat"
abbreviation (input) "CEXPR_XTARGET \<equiv> 16 :: u32"

text \<open>The versions of kernel policies at which the format changed.\<close>

abbreviation (input) "POLICYDB_VERSION_BOOL \<equiv> 16 :: u32"
abbreviation (input) "POLICYDB_VERSION_MLS \<equiv> 19 :: u32"
abbreviation (input) "POLICYDB_VERSION_VALIDATETRANS \<equiv> 19 :: u32"
abbreviation (input) "POLICYDB_VERSION_RANGETRANS \<equiv> 21 :: u32"
abbreviation (input) "POLICYDB_VERSION_POLCAP \<equiv> 22 :: u32"
abbreviation (input) "POLICYDB_VERSION_PERMISSIVE \<equiv> 23 :: u32"
abbreviation (input) "POLICYDB_VERSION_BOUNDARY \<equiv> 24 :: u32"
abbreviation (input) "POLICYDB_VERSION_FILENAME_TRANS \<equiv> 25 :: u32"
abbreviation (input) "POLICYDB_VERSION_ROLETRANS \<equiv> 26 :: u32"
abbreviation (input) "POLICYDB_VERSION_NEW_OBJECT_DEFAULTS \<equiv> 27 :: u32"
abbreviation (input) "POLICYDB_VERSION_DEFAULT_TYPE \<equiv> 28 :: u32"
abbreviation (input) "POLICYDB_VERSION_CONSTRAINT_NAMES \<equiv> 29 :: u32"
abbreviation (input) "POLICYDB_VERSION_MIN \<equiv> 15 :: u32"
abbreviation (input) "POLICYDB_VERSION_MAX \<equiv> 29 :: u32"

section \<open>Reading the value tables\<close>

text \<open>\<open>table[value - 1]\<close>, with the subtraction at 32 bits; a pointer that is followed must not be
  null.\<close>

definition val_get :: "'a option list \<Rightarrow> u32 \<Rightarrow> 'a option res" where
  "val_get t v = array_get t (unat (v - 1))"

definition val_deref :: "'a option list \<Rightarrow> u32 \<Rightarrow> 'a res" where
  "val_deref t v = bindR (val_get t v) deref"

definition name_at :: "string option list \<Rightarrow> u32 \<Rightarrow> string res" where
  "name_at t i = bindR (array_get t (unat i)) deref"

text \<open>\<open>t\<close> has an entry for every value from 1 to \<open>n\<close>.\<close>

definition val_total :: "'a option list \<Rightarrow> u32 \<Rightarrow> bool" where
  "val_total t n \<longleftrightarrow> length t = unat n \<and> None \<notin> set t"

lemma unat_minus_1: "v \<noteq> 0 \<Longrightarrow> unat (v - 1) = unat v - 1"
  by (rule unat_minus_one)

lemma val_deref_total:
  assumes "val_total t n" and "v \<noteq> 0" and "v \<le> n"
  shows "\<exists>d. val_deref t v = Inr d \<and> t ! (unat v - 1) = Some d \<and> unat v - 1 < length t"
proof -
  have "0 < unat v" using assms(2) by (simp add: unat_gt_0)
  then have i: "unat v - 1 < length t" using assms(1,3) by (simp add: val_total_def word_le_nat_alt)
  with assms(1) obtain d where "t ! (unat v - 1) = Some d"
    by (metis nth_mem option.exhaust_sel val_total_def)
  with i assms(2) show ?thesis by (simp add: val_deref_def val_get_def unat_minus_1)
qed

lemma name_at_total:
  assumes "val_total t n" and "unat i < unat n"
  shows "\<exists>d. name_at t i = Inr d \<and> t ! unat i = Some d"
proof -
  have i: "unat i < length t" using assms by (simp add: val_total_def)
  with assms(1) obtain d where "t ! unat i = Some d" by (metis nth_mem option.exhaust_sel val_total_def)
  with i show ?thesis by (simp add: name_at_def)
qed

end
