(* ===== verification/Sample_Policy.thy ===== *)
theory Sample_Policy
  imports Policydb
begin

text \<open>
  A small kernel policy on which the statements about the security server are instantiated: one
  user, the object role and a process role, three types, the classes \<open>file\<close> and \<open>process\<close> (the
  latter with a constraint on the user), one sensitivity with two categories, an allow rule for
  files, a type transition on execution and the permission to make it.
\<close>

text \<open>A symbol table with one bucket and a bitmap with one node.\<close>

definition symtab_of :: "(string \<times> 'd) list \<Rightarrow> u32 \<Rightarrow> 'd symtab" where
  "symtab_of c n = \<lparr>table = Some \<lparr>htable = [c], ht_size = 1, ht_nel = of_nat (length c),
     ht_hash_value = symhash True, ht_keycmp = symcmp\<rparr>, nprim = n\<rparr>"

definition bits_of :: "u64 \<Rightarrow> ebitmap" where
  "bits_of w = \<lparr>node = [\<lparr>startbit = 0, nmap = w\<rparr>], highbit = 64\<rparr>"

lemma nprim_symtab_of [simp]: "nprim (symtab_of c n) = n"
  by (simp add: symtab_of_def)

lemma symtab_of_ok:
  assumes "chain_sorted (\<lambda>a b. symcmp a b > 0) c"
  shows "hashtab_ok (table (symtab_of c n))" and "hashtab_abs (table (symtab_of c n)) = map_of c"
proof -
  let ?h = "\<lparr>htable = [c], ht_size = 1, ht_nel = of_nat (length c),
     ht_hash_value = symhash True, ht_keycmp = symcmp\<rparr>"
  have slot: "ht_slot ?h k = 0" for k by (simp add: ht_slot_def symhash_def)
  then have "ht_funs_ok ?h" "ht_buckets_ok ?h" "ht_entries ?h = c"
    using assms sym.key_order_axioms by (simp_all add: ht_funs_ok_def ht_buckets_ok_def ht_entries_def)
  then show "hashtab_ok (table (symtab_of c n))" by (simp add: symtab_of_def hashtab_ok_def)
  show "hashtab_abs (table (symtab_of c n)) = map_of c"
    using slot by (simp add: symtab_of_def hashtab_abs_def fun_eq_iff)
qed

lemma bits_of_ok: "w \<noteq> 0 \<Longrightarrow> ebitmap_ok (bits_of w)"
  by (simp add: bits_of_def ebitmap_ok_def node_ok_def nodes_end_def)

definition sample_level :: mls_level where
  "sample_level = \<lparr>sens = 1, cat = ebitmap_init\<rparr>"

definition sample_clear :: mls_level where
  "sample_clear = \<lparr>sens = 1, cat = bits_of 3\<rparr>"

definition sample_range :: mls_range where
  "sample_range = \<lparr>low = sample_level, high = sample_clear\<rparr>"

definition sample_user :: user_datum where
  "sample_user = \<lparr>ud_value = 1, ud_roles = \<lparr>rs_roles = bits_of 2, rs_flags = 0\<rparr>, ud_cache = bits_of 2, ud_exp_range = sample_range,
     ud_exp_dfltlevel = sample_level, ud_bounds = 0\<rparr>"

definition sample_object_r :: role_datum where
  "sample_object_r = \<lparr>rd_value = 1, rd_dominates = bits_of 1, rd_types = \<lparr>ts_types = bits_of 7, ts_negset = ebitmap_init, ts_flags = 0\<rparr>, rd_cache = bits_of 7,
     rd_bounds = 0, rd_flavor = 0, rd_roles = ebitmap_init\<rparr>"

definition sample_sys_r :: role_datum where
  "sample_sys_r = \<lparr>rd_value = 2, rd_dominates = bits_of 2, rd_types = \<lparr>ts_types = bits_of 5, ts_negset = ebitmap_init, ts_flags = 0\<rparr>, rd_cache = bits_of 5,
     rd_bounds = 0, rd_flavor = 0, rd_roles = ebitmap_init\<rparr>"

definition sample_type :: "u32 \<Rightarrow> type_datum" where
  "sample_type v = \<lparr>td_value = v, td_primary = 1, td_flavor = 0, td_types = ebitmap_init, td_flags = 0, td_bounds = 0\<rparr>"

definition sample_constraint :: constraint_node where
  "sample_constraint = \<lparr>cn_permissions = 2,
     cn_expr = [\<lparr>ce_type = CEXPR_ATTR, ce_attr = 1, ce_op = CEXPR_EQ, ce_names = ebitmap_init, ce_type_names = \<lparr>ts_types = ebitmap_init, ts_negset = ebitmap_init, ts_flags = 0\<rparr>\<rparr>]\<rparr>"

definition sample_file :: class_datum where
  "sample_file = \<lparr>cd_value = 1, cd_comkey = None, cd_comdatum = None,
     cd_permissions = symtab_of [(''read'', \<lparr>pd_value = 2\<rparr>), (''write'', \<lparr>pd_value = 3\<rparr>)] 3,
     cd_constraints = [], cd_validatetrans = [], cd_default_user = 0, cd_default_role = 0, cd_default_type = 0, cd_default_range = 0\<rparr>"

definition sample_process :: class_datum where
  "sample_process = \<lparr>cd_value = 2, cd_comkey = None, cd_comdatum = None, cd_permissions = symtab_of [(''transition'', \<lparr>pd_value = 2\<rparr>)] 2,
     cd_constraints = [sample_constraint], cd_validatetrans = [sample_constraint],
     cd_default_user = 0, cd_default_role = 0, cd_default_type = 0, cd_default_range = 0\<rparr>"

definition sample_avtab :: avtab where
  "sample_avtab = \<lparr>av_htable = Some [[
       \<lparr>av_addr = 0, av_key = \<lparr>source_type = 1, target_type = 2, target_class = 1, specified = AVTAB_ALLOWED\<rparr>, av_data = 6\<rparr>,
       \<lparr>av_addr = 1, av_key = \<lparr>source_type = 1, target_type = 2, target_class = 2, specified = AVTAB_TRANSITION\<rparr>, av_data = 3\<rparr>,
       \<lparr>av_addr = 2, av_key = \<lparr>source_type = 1, target_type = 3, target_class = 2, specified = AVTAB_ALLOWED\<rparr>, av_data = 2\<rparr>]],
     av_nel = 3, av_nslot = 1, av_mask = 0, av_next_addr = 3\<rparr>"

definition sample_cond_avtab :: avtab where
  "sample_cond_avtab = \<lparr>av_htable = Some [[]], av_nel = 0, av_nslot = 1, av_mask = 0, av_next_addr = 0\<rparr>"

definition sample_db :: policydb where
  "sample_db = policydb_zero\<lparr>p_mls := True,
     p_classes := symtab_of [(''file'', sample_file), (''process'', sample_process)] 2,
     p_roles := symtab_of [(''object_r'', sample_object_r), (''sys_r'', sample_sys_r)] 2,
     p_types := symtab_of [(''file_t'', sample_type 2), (''init_t'', sample_type 1), (''shell_t'', sample_type 3)] 3,
     p_users := symtab_of [(''user_u'', sample_user)] 1,
     p_levels := symtab_of [(''s0'', \<lparr>ld_level = sample_clear, ld_isalias = 0\<rparr>)] 1,
     p_cats := symtab_of [(''c0'', \<lparr>catd_value = 1, catd_isalias = 0\<rparr>), (''c1'', \<lparr>catd_value = 2, catd_isalias = 0\<rparr>)] 2,
     p_class_val_to_name := [Some ''file'', Some ''process''],
     p_role_val_to_name := [Some ''object_r'', Some ''sys_r''],
     p_type_val_to_name := [Some ''init_t'', Some ''file_t'', Some ''shell_t''],
     p_user_val_to_name := [Some ''user_u''],
     p_sens_val_to_name := [Some ''s0''], p_cat_val_to_name := [Some ''c0'', Some ''c1''],
     class_val_to_struct := [Some sample_file, Some sample_process],
     role_val_to_struct := [Some sample_object_r, Some sample_sys_r],
     user_val_to_struct := [Some sample_user],
     te_avtab := sample_avtab, te_cond_avtab := sample_cond_avtab,
     type_attr_map := [bits_of 1, bits_of 2, bits_of 4],
     policyvers := 26\<rparr>"

definition sample_context :: "u32 \<Rightarrow> u32 \<Rightarrow> context_struct" where
  "sample_context role typ = \<lparr>c_user = 1, c_role = role, c_type = typ, c_range = sample_range\<rparr>"

lemma sample_levels_ok [simp]:
  "level_ok sample_level" "level_ok sample_clear" "range_ok sample_range" "context_ok (sample_context r t)"
  by (simp_all add: level_ok_def range_ok_def context_ok_def sample_level_def sample_clear_def sample_range_def
      sample_context_def bits_of_ok)

lemma sample_tables_ok [simp]:
  "hashtab_ok (table (p_users sample_db))" "hashtab_ok (table (p_roles sample_db))"
  "hashtab_ok (table (p_types sample_db))" "hashtab_ok (table (p_levels sample_db))"
  "hashtab_ok (table (p_cats sample_db))" "hashtab_ok (table (p_classes sample_db))"
  by (simp_all add: sample_db_def symtab_of_ok symcmp_def)

lemma sample_tables_abs [simp]:
  "hashtab_abs (table (p_users sample_db)) = map_of [(''user_u'', sample_user)]"
  "hashtab_abs (table (p_roles sample_db)) = map_of [(''object_r'', sample_object_r), (''sys_r'', sample_sys_r)]"
  "hashtab_abs (table (p_types sample_db)) = map_of [(''file_t'', sample_type 2), (''init_t'', sample_type 1), (''shell_t'', sample_type 3)]"
  "hashtab_abs (table (p_levels sample_db)) = map_of [(''s0'', \<lparr>ld_level = sample_clear, ld_isalias = 0\<rparr>)]"
  by (simp_all add: sample_db_def symtab_of_ok symcmp_def)

lemma sample_avtabs_ok [simp]: "avtab_ok sample_avtab" "avtab_ok sample_cond_avtab"
  by (simp_all add: avtab_ok_def sample_avtab_def sample_cond_avtab_def avtab_hash_def key_rank_def)

lemma sample_avtabs_entries [simp]:
  "av_entries sample_avtab = [
     \<lparr>av_addr = 0, av_key = \<lparr>source_type = 1, target_type = 2, target_class = 1, specified = AVTAB_ALLOWED\<rparr>, av_data = 6\<rparr>,
     \<lparr>av_addr = 1, av_key = \<lparr>source_type = 1, target_type = 2, target_class = 2, specified = AVTAB_TRANSITION\<rparr>, av_data = 3\<rparr>,
     \<lparr>av_addr = 2, av_key = \<lparr>source_type = 1, target_type = 3, target_class = 2, specified = AVTAB_ALLOWED\<rparr>, av_data = 2\<rparr>]"
  "av_entries sample_cond_avtab = []"
  by (simp_all add: av_entries_def sample_avtab_def sample_cond_avtab_def)

end
