(* ===== verification/Mls.thy ===== *)
theory Mls
  imports Sample_Policy
begin

text \<open>
  The multi-level security policy (mls.c): the text form of a range, its validity, and the
  computation of the range of a new object. A C string is the list of the characters before its
  terminator; the in-place tokenising of \<open>mls_context_to_sid\<close> is a split of the remaining text
  into a token, its delimiter (the null character at the end) and the rest. Writing into a caller's
  buffer is the string that is written; the callers' buffer arithmetic is kept as fault conditions.
\<close>

section \<open>Text form of a range\<close>

text \<open>The value of the loop variable after \<open>ebitmap_for_each_bit\<close>, when the loop ran at all.\<close>

definition loop_end :: "(u32 \<times> bool) list \<Rightarrow> u32" where
  "loop_end bs = fst (last bs) + 1"

definition cat_len_step :: "string option list \<Rightarrow> u32 \<times> bool \<Rightarrow> nat \<times> nat \<Rightarrow> (nat \<times> nat) res" where
  "cat_len_step names = (\<lambda>(i, on) (range, len).
     if on then
       if range \<noteq> 0 then Inr (range + 1, len)
       else bindR (name_at names i) (\<lambda>n. Inr (range + 1, len + (length n + 1)))
     else if range > 1 then bindR (name_at names (i - 1)) (\<lambda>n. Inr (0, len + (length n + 1)))
     else Inr (0, len))"

definition level_len :: "policydb \<Rightarrow> mls_level \<Rightarrow> nat res" where
  "level_len p lv =
     bindR (val_deref (p_sens_val_to_name p) (sens lv)) (\<lambda>sn.
     bindR (ebitmap_for_each_bit (cat lv)) (\<lambda>bs.
     bindR (foldR (cat_len_step (p_cat_val_to_name p)) bs (0, length sn)) (\<lambda>(range, len).
       if range > 1
       then bindR (name_at (p_cat_val_to_name p) (loop_end bs - 1)) (\<lambda>n. Inr (len + (length n + 1)))
       else Inr len)))"

definition mls_compute_context_len :: "policydb \<Rightarrow> context_struct \<Rightarrow> nat res" where
  "mls_compute_context_len p c =
     (if \<not> p_mls p then Inr 0
      else bindR (level_len p (low (c_range c))) (\<lambda>n0.
        if mls_level_eq (low (c_range c)) (high (c_range c)) then Inr (1 + n0)
        else bindR (level_len p (high (c_range c))) (\<lambda>n1. Inr (1 + n0 + 1 + n1))))"

definition cat_str_step ::
  "string option list \<Rightarrow> u32 \<times> bool \<Rightarrow> nat \<times> bool \<times> string \<Rightarrow> (nat \<times> bool \<times> string) res"
where
  "cat_str_step names = (\<lambda>(i, on) (range, wrote_sep, out).
     if on then
       if range \<noteq> 0 then Inr (range + 1, wrote_sep, out)
       else bindR (name_at names i) (\<lambda>n.
         Inr (range + 1, True, out @ (if \<not> wrote_sep then '':'' else '','') @ n))
     else if range > 1 then bindR (name_at names (i - 1)) (\<lambda>n.
         Inr (0, wrote_sep, out @ (if range > 2 then ''.'' else '','') @ n))
     else Inr (0, wrote_sep, out))"

definition level_str :: "policydb \<Rightarrow> mls_level \<Rightarrow> string res" where
  "level_str p lv =
     bindR (val_deref (p_sens_val_to_name p) (sens lv)) (\<lambda>sn.
     bindR (ebitmap_for_each_bit (cat lv)) (\<lambda>bs.
     bindR (foldR (cat_str_step (p_cat_val_to_name p)) bs (0, False, sn)) (\<lambda>(range, wrote_sep, out).
       if range > 1
       then bindR (name_at (p_cat_val_to_name p) (loop_end bs - 1)) (\<lambda>n.
         Inr (out @ (if range > 2 then ''.'' else '','') @ n))
       else Inr out)))"

definition mls_sid_to_context :: "policydb \<Rightarrow> context_struct \<Rightarrow> string res" where
  "mls_sid_to_context p c =
     (if \<not> p_mls p then Inr ''''
      else bindR (level_str p (low (c_range c))) (\<lambda>s0.
        if mls_level_eq (low (c_range c)) (high (c_range c)) then Inr ('':'' @ s0)
        else bindR (level_str p (high (c_range c))) (\<lambda>s1. Inr ('':'' @ s0 @ ''-'' @ s1))))"

text \<open>The result is the text without the leading colon. The pointer to the buffer is recovered by
  subtracting the computed length, so it is a fault if that differs from what was written.\<close>

definition mls_to_string :: "policydb \<Rightarrow> context_struct \<Rightarrow> string alloc_m" where
  "mls_to_string p c = bindE (liftE (mls_compute_context_len p c)) (\<lambda>n.
     let len = n + 1 in
     bindE (failE malloc STATUS_ERR) (\<lambda>_. bindE (failE malloc STATUS_ERR) (\<lambda>_.
       bindE (liftE (mls_sid_to_context p c)) (\<lambda>s.
         if length s \<noteq> len - 1 \<or> s = [] then throwE Fault else returnE (tl s)))))"

section \<open>Reading the text form\<close>

text \<open>Scan to a delimiter: the token, the delimiter (null at the end of the string) and the rest.\<close>

definition span_tok :: "(char \<Rightarrow> bool) \<Rightarrow> string \<Rightarrow> string \<times> char \<times> string" where
  "span_tok stop s = (takeWhile (\<lambda>c. \<not> stop c) s,
     (case dropWhile (\<lambda>c. \<not> stop c) s of [] \<Rightarrow> (CHR 0x00, []) | d # r \<Rightarrow> (d, r)))"

text \<open>Split at the first dot, as \<open>strchr\<close> and the store of a null do.\<close>

definition split_dot :: "string \<Rightarrow> string \<times> string option" where
  "split_dot s = (takeWhile (\<lambda>c. c \<noteq> CHR ''.'') s,
     (case dropWhile (\<lambda>c. c \<noteq> CHR ''.'') s of [] \<Rightarrow> None | _ # r \<Rightarrow> Some r))"

definition set_cat :: "u32 \<Rightarrow> ebitmap \<Rightarrow> ebitmap alloc_m" where
  "set_cat i e = failE (ebitmap_set_bit e i True) STATUS_ERR"

text \<open>One comma-separated item: a category or a range of categories.\<close>

definition parse_cat_item :: "policydb \<Rightarrow> ebitmap \<Rightarrow> string \<Rightarrow> ebitmap alloc_m" where
  "parse_cat_item p cats tok = (case split_dot tok of (nm, rng) \<Rightarrow>
     bindE (liftE (hashtab_search (table (p_cats p)) nm)) (\<lambda>cd. case cd of
       None \<Rightarrow> throwE STATUS_ERR
     | Some catdatum \<Rightarrow>
         bindE (set_cat (catd_value catdatum - 1) cats) (\<lambda>cats1. case rng of
           None \<Rightarrow> returnE cats1
         | Some r \<Rightarrow>
             bindE (liftE (hashtab_search (table (p_cats p)) r)) (\<lambda>rd. case rd of
               None \<Rightarrow> throwE STATUS_ERR
             | Some rngdatum \<Rightarrow>
                 if catd_value catdatum \<ge> catd_value rngdatum then throwE STATUS_ERR
                 else foldE (\<lambda>i. set_cat (of_nat i))
                        [unat (catd_value catdatum)..<unat (catd_value rngdatum)] cats1))))"

function (sequential) parse_cats :: "policydb \<Rightarrow> ebitmap \<Rightarrow> string \<Rightarrow> (ebitmap \<times> char \<times> string) alloc_m" where
  "parse_cats p cats s = (case span_tok (\<lambda>c. c = CHR '','' \<or> c = CHR ''-'') s of (tok, delim, rest) \<Rightarrow>
     bindE (parse_cat_item p cats tok) (\<lambda>cats'.
       if delim = CHR '','' then parse_cats p cats' rest else returnE (cats', delim, rest)))"
  by pat_completeness auto
termination
proof (relation "measure (\<lambda>(p, cats, s). length s)")
  fix s tok rest :: string and delim and p :: policydb and cats cats' and x y
  assume s: "(tok, y) = span_tok (\<lambda>c. c = CHR '','' \<or> c = CHR ''-'') s" "(delim, rest) = y"
    and d: "delim = CHR '',''"
  from s d have "dropWhile (\<lambda>c. \<not> (c = CHR '','' \<or> c = CHR ''-'')) s = CHR '','' # rest"
    by (auto simp: span_tok_def split: list.splits)
  then have "length rest < length s"
    by (metis length_dropWhile_le length_Cons less_eq_Suc_le)
  then show "((p, cats', rest), p, cats, s) \<in> measure (\<lambda>(p, cats, s). length s)" by simp
qed simp

declare parse_cats.simps [simp del]

definition parse_level :: "policydb \<Rightarrow> mls_level \<Rightarrow> string \<times> char \<times> string \<Rightarrow> (mls_level \<times> char \<times> string) alloc_m" where
  "parse_level p lv = (\<lambda>(tok, delim, rest).
     bindE (liftE (hashtab_search (table (p_levels p)) tok)) (\<lambda>ld. case ld of
       None \<Rightarrow> throwE STATUS_ERR
     | Some levdatum \<Rightarrow>
         let lv1 = lv\<lparr>sens := sens (ld_level levdatum)\<rparr> in
         if delim = CHR '':'' then
           bindE (parse_cats p (cat lv1) rest) (\<lambda>(cats, delim', rest'). returnE (lv1\<lparr>cat := cats\<rparr>, delim', rest'))
         else returnE (lv1, delim, rest)))"

text \<open>After a second dash the loop ends as well: the text that follows is not looked at.\<close>

definition mls_context_to_sid :: "policydb \<Rightarrow> char \<Rightarrow> string \<Rightarrow> context_struct \<Rightarrow> context_struct alloc_m" where
  "mls_context_to_sid p oldc s c =
     (if \<not> p_mls p then returnE c
      else if oldc = CHR 0x00 then throwE STATUS_ERR
      else
        bindE (parse_level p (low (c_range c)) (span_tok (\<lambda>ch. ch = CHR '':'' \<or> ch = CHR ''-'') s))
          (\<lambda>(l0, delim, rest).
            if delim = CHR ''-'' then
              bindE (parse_level p (high (c_range c)) (span_tok (\<lambda>ch. ch = CHR '':'') rest)) (\<lambda>(l1, _, _).
                returnE (c\<lparr>c_range := \<lparr>low = l0, high = l1\<rparr>\<rparr>))
            else bindE (mls_level_cpy l0) (\<lambda>l1. returnE (c\<lparr>c_range := \<lparr>low = l0, high = l1\<rparr>\<rparr>))))"

definition mls_from_string :: "policydb \<Rightarrow> string \<Rightarrow> context_struct \<Rightarrow> context_struct alloc_m" where
  "mls_from_string p str mls = bindE (failE malloc STATUS_ERR) (\<lambda>_.
     failE (mls_context_to_sid p (CHR ''$'') str mls) STATUS_ERR)"

section \<open>Validity\<close>

fun cats_allowed :: "policydb \<Rightarrow> ebitmap \<Rightarrow> u32 list \<Rightarrow> bool" where
  "cats_allowed p cats [] = True"
| "cats_allowed p cats (i # is) =
     (if i > nprim (p_cats p) then False
      else if \<not> ebitmap_get_bit cats i then False
      else cats_allowed p cats is)"

definition level_isvalid :: "policydb \<Rightarrow> mls_level \<Rightarrow> bool res" where
  "level_isvalid p lv =
     (if sens lv = 0 \<or> sens lv > nprim (p_levels p) then Inr False
      else bindR (val_deref (p_sens_val_to_name p) (sens lv)) (\<lambda>nm.
        bindR (hashtab_search (table (p_levels p)) nm) (\<lambda>ld. case ld of
          None \<Rightarrow> Inr False
        | Some levdatum \<Rightarrow> bindR (ebitmap_positive_bits (cat lv)) (\<lambda>bs.
            Inr (cats_allowed p (cat (ld_level levdatum)) bs)))))"

definition mls_context_isvalid :: "policydb \<Rightarrow> context_struct \<Rightarrow> bool res" where
  "mls_context_isvalid p c =
     (if \<not> p_mls p then Inr True
      else if \<not> mls_level_dom (high (c_range c)) (low (c_range c)) then Inr False
      else bindR (level_isvalid p (low (c_range c))) (\<lambda>v0. if \<not> v0 then Inr False else
        bindR (level_isvalid p (high (c_range c))) (\<lambda>v1. if \<not> v1 then Inr False else
          if c_role c = OBJECT_R_VAL then Inr True
          else if c_user c = 0 \<or> c_user c > nprim (p_users p) then Inr False
          else bindR (val_deref (user_val_to_struct p) (c_user c)) (\<lambda>usrdatum.
            Inr (mls_range_contains (ud_exp_range usrdatum) (c_range c))))))"

section \<open>Copying and computing ranges\<close>

definition copy_levels :: "context_struct \<Rightarrow> mls_level \<Rightarrow> mls_level \<Rightarrow> context_struct alloc_m" where
  "copy_levels dst s0 s1 = bindE (ebitmap_cpy (cat s0)) (\<lambda>c0. bindE (ebitmap_cpy (cat s1)) (\<lambda>c1.
     returnE (dst\<lparr>c_range := \<lparr>low = \<lparr>sens = sens s0, cat = c0\<rparr>, high = \<lparr>sens = sens s1, cat = c1\<rparr>\<rparr>\<rparr>)))"

definition mls_copy_context :: "context_struct \<Rightarrow> context_struct \<Rightarrow> context_struct alloc_m" where
  "mls_copy_context dst src = copy_levels dst (low (c_range src)) (high (c_range src))"

definition mls_scopy_context :: "context_struct \<Rightarrow> context_struct \<Rightarrow> context_struct alloc_m" where
  "mls_scopy_context dst src = copy_levels dst (low (c_range src)) (low (c_range src))"

definition mls_range_set :: "context_struct \<Rightarrow> mls_range \<Rightarrow> context_struct alloc_m" where
  "mls_range_set c r = copy_levels c (low r) (high r)"

definition mls_setup_user_range ::
  "context_struct \<Rightarrow> user_datum \<Rightarrow> context_struct \<Rightarrow> bool \<Rightarrow> context_struct res"
where
  "mls_setup_user_range fromcon user usercon mls =
     (if mls then
        let fromcon_sen = low (c_range fromcon); fromcon_clr = high (c_range fromcon);
            user_low = low (ud_exp_range user); user_clr = high (ud_exp_range user);
            user_def = ud_exp_dfltlevel user in
        bindR
          (if mls_level_between user_def fromcon_sen fromcon_clr then Inr user_def
           else if mls_level_between fromcon_sen user_def user_clr then Inr fromcon_sen
           else if mls_level_between fromcon_clr user_low user_def then Inr user_low
           else Inl EINVAL) (\<lambda>sen'.
        bindR
          (if mls_level_dom user_clr fromcon_clr then Inr fromcon_clr
           else if mls_level_dom fromcon_clr user_clr then Inr user_clr
           else Inl EINVAL) (\<lambda>clr'.
        Inr (usercon\<lparr>c_range := \<lparr>low = sen', high = clr'\<rparr>\<rparr>)))
      else Inr usercon)"

text \<open>A level of the old policy is renamed into the new one through the names of its sensitivity and
  categories.\<close>

definition convert_level :: "policydb \<Rightarrow> policydb \<Rightarrow> mls_level \<Rightarrow> mls_level alloc_m" where
  "convert_level oldp newp lv =
     bindE (liftE (val_deref (p_sens_val_to_name oldp) (sens lv))) (\<lambda>nm.
     bindE (liftE (hashtab_search (table (p_levels newp)) nm)) (\<lambda>ld. case ld of
       None \<Rightarrow> throwE EINVAL
     | Some levdatum \<Rightarrow>
         bindE (liftE (ebitmap_positive_bits (cat lv))) (\<lambda>bs.
         bindE (foldE (\<lambda>i bitmap.
             bindE (liftE (name_at (p_cat_val_to_name oldp) i)) (\<lambda>cn.
             bindE (liftE (hashtab_search (table (p_cats newp)) cn)) (\<lambda>cd. case cd of
               None \<Rightarrow> throwE EINVAL
             | Some catdatum \<Rightarrow> ebitmap_set_bit bitmap (catd_value catdatum - 1) True))) bs ebitmap_init)
           (\<lambda>bitmap. returnE \<lparr>sens = sens (ld_level levdatum), cat = bitmap\<rparr>))))"

definition mls_convert_context :: "policydb \<Rightarrow> policydb \<Rightarrow> context_struct \<Rightarrow> context_struct alloc_m" where
  "mls_convert_context oldp newp c =
     (if \<not> p_mls oldp then returnE c
      else bindE (convert_level oldp newp (low (c_range c))) (\<lambda>l0.
        bindE (convert_level oldp newp (high (c_range c))) (\<lambda>l1.
          returnE (c\<lparr>c_range := \<lparr>low = l0, high = l1\<rparr>\<rparr>))))"

fun range_rule :: "range_trans list \<Rightarrow> u32 \<Rightarrow> u32 \<Rightarrow> u32 \<Rightarrow> mls_range option" where
  "range_rule [] st tt tc = None"
| "range_rule (rtr # rs) st tt tc =
     (if rtr_source_type rtr = st \<and> rtr_target_type rtr = tt \<and> rtr_target_class rtr = tc
      then Some (rtr_target_range rtr) else range_rule rs st tt tc)"

definition mls_compute_sid ::
  "policydb \<Rightarrow> context_struct \<Rightarrow> context_struct \<Rightarrow> u32 \<Rightarrow> u32 \<Rightarrow> context_struct \<Rightarrow> context_struct alloc_m"
where
  "mls_compute_sid p scontext tcontext tclass spec newcontext =
     (let change = (if tclass = SECCLASS_PROCESS then mls_copy_context newcontext scontext
                    else mls_scopy_context newcontext scontext) in
      if \<not> p_mls p then returnE newcontext
      else if spec = ucast AVTAB_TRANSITION then
        (case range_rule (range_tr p) (c_type scontext) (c_type tcontext) tclass of
           Some r \<Rightarrow> mls_range_set newcontext r
         | None \<Rightarrow> change)
      else if spec = ucast AVTAB_CHANGE then change
      else if spec = ucast AVTAB_MEMBER then
        if c_type newcontext \<noteq> c_type tcontext then mls_scopy_context newcontext scontext
        else mls_copy_context newcontext tcontext
      else throwE EINVAL)"

definition sepol_mls_contains :: "policydb \<Rightarrow> string \<Rightarrow> string \<Rightarrow> bool alloc_m" where
  "sepol_mls_contains p mls1 mls2 =
     bindE (failE malloc STATUS_ERR) (\<lambda>_. bindE (failE malloc STATUS_ERR) (\<lambda>_.
     bindE (mls_from_string p mls1 context_init) (\<lambda>ctx1.
     bindE (mls_from_string p mls2 context_init) (\<lambda>ctx2.
       returnE (mls_range_contains (c_range ctx1) (c_range ctx2))))))"

definition sepol_mls_check :: "policydb \<Rightarrow> string \<Rightarrow> unit alloc_m" where
  "sepol_mls_check p mls = bindE (failE malloc STATUS_ERR) (\<lambda>_.
     bindE (mls_from_string p mls context_init) (\<lambda>_. returnE ()))"

section \<open>Semantic levels\<close>

record mls_semantic_cat =
  sc_low :: u32
  sc_high :: u32

record mls_semantic_level =
  sl_sens :: u32
  sl_cat :: "mls_semantic_cat list"

record mls_semantic_range =
  sr_low :: mls_semantic_level
  sr_high :: mls_semantic_level

definition mls_semantic_level_init :: mls_semantic_level where
  "mls_semantic_level_init = \<lparr>sl_sens = 0, sl_cat = []\<rparr>"

fun semantic_cats_cpy :: "mls_semantic_cat list \<Rightarrow> mls_semantic_cat list alloc_m" where
  "semantic_cats_cpy [] = returnE []"
| "semantic_cats_cpy (c # cs) = bindE malloc (\<lambda>_. bindE (semantic_cats_cpy cs) (\<lambda>r.
     returnE (\<lparr>sc_low = sc_low c, sc_high = sc_high c\<rparr> # r)))"

definition mls_semantic_level_cpy :: "mls_semantic_level \<Rightarrow> mls_semantic_level alloc_m" where
  "mls_semantic_level_cpy src = bindE (failE (semantic_cats_cpy (sl_cat src)) STATUS_ERR)
     (\<lambda>cs. returnE \<lparr>sl_sens = sl_sens src, sl_cat = cs\<rparr>)"

definition mls_semantic_range_cpy :: "mls_semantic_range \<Rightarrow> mls_semantic_range alloc_m" where
  "mls_semantic_range_cpy src = bindE (mls_semantic_level_cpy (sr_low src)) (\<lambda>l0.
     bindE (mls_semantic_level_cpy (sr_high src)) (\<lambda>l1. returnE \<lparr>sr_low = l0, sr_high = l1\<rparr>))"

section \<open>The computed length is the length written\<close>

lemma cat_steps_length:
  "foldR (cat_len_step names) bs (rg, length out)
     = bindR (foldR (cat_str_step names) bs (rg, wrote_sep, out)) (\<lambda>(r, w, q). Inr (r, length q))"
proof (induction bs arbitrary: rg wrote_sep out)
  case (Cons b bs)
  obtain i on where b: "b = (i, on)" by force
  have step: "cat_len_step names b (rg, length out)
      = bindR (cat_str_step names b (rg, wrote_sep, out)) (\<lambda>(r, w, q). Inr (r, length q))"
    by (auto simp: b cat_len_step_def cat_str_step_def bindR_def split: sum.splits)
  show ?case
  proof (cases "cat_str_step names b (rg, wrote_sep, out)")
    case (Inr x)
    obtain r w oo where "x = (r, w, oo)" by (cases x) auto
    with Inr step Cons show ?thesis by simp
  qed (use step in simp)
qed simp

lemma level_len_str: "level_len p lv = bindR (level_str p lv) (\<lambda>s. Inr (length s))"
proof -
  have "bindR (foldR (cat_len_step names) bs (0, length sn))
      (\<lambda>(range, len). if range > 1 then bindR (name_at names i) (\<lambda>n. Inr (len + (length n + 1))) else Inr len)
    = bindR (bindR (foldR (cat_str_step names) bs (0, False, sn)) (\<lambda>(range, w, out).
        if range > 1 then bindR (name_at names i) (\<lambda>n. Inr (out @ (if range > 2 then ''.'' else '','') @ n))
        else Inr out)) (\<lambda>s. Inr (length s))" for names bs sn i
    unfolding cat_steps_length [of names bs 0 sn False]
    by (auto simp: bindR_def split: sum.splits)
  then show ?thesis unfolding level_len_def level_str_def by (simp add: bindR_assoc)
qed

lemma mls_len_str: "mls_compute_context_len p c = bindR (mls_sid_to_context p c) (\<lambda>s. Inr (length s))"
  by (auto simp: mls_compute_context_len_def mls_sid_to_context_def level_len_str bindR_assoc bindR_def
      split: sum.splits)

section \<open>Well-formed MLS policies\<close>

definition level_of :: "policydb \<Rightarrow> u32 \<Rightarrow> mls_level option" where
  "level_of p v = (if v \<noteq> 0 \<and> v \<le> nprim (p_levels p) \<and> unat v - 1 < length (p_sens_val_to_name p) then
     Option.bind (p_sens_val_to_name p ! (unat v - 1))
       (\<lambda>nm. map_option ld_level (hashtab_abs (table (p_levels p)) nm)) else None)"

definition user_of :: "policydb \<Rightarrow> u32 \<Rightarrow> user_datum option" where
  "user_of p v = (if v \<noteq> 0 \<and> v \<le> nprim (p_users p) \<and> unat v - 1 < length (user_val_to_struct p)
     then user_val_to_struct p ! (unat v - 1) else None)"

definition mls_db_ok :: "policydb \<Rightarrow> bool" where
  "mls_db_ok p \<longleftrightarrow> hashtab_ok (table (p_levels p))
     \<and> val_total (p_sens_val_to_name p) (nprim (p_levels p))
     \<and> (\<forall>n. Some n \<in> set (p_sens_val_to_name p) \<longrightarrow>
          (\<exists>ld. hashtab_abs (table (p_levels p)) n = Some ld \<and> level_ok (ld_level ld)))
     \<and> val_total (user_val_to_struct p) (nprim (p_users p))
     \<and> (\<forall>u. Some u \<in> set (user_val_to_struct p) \<longrightarrow> range_ok (ud_exp_range u) \<and> level_ok (ud_exp_dfltlevel u))"

lemma level_of_total:
  assumes "mls_db_ok p" and "v \<noteq> 0" and "v \<le> nprim (p_levels p)"
  shows "\<exists>nm ld. val_deref (p_sens_val_to_name p) v = Inr nm \<and>
     hashtab_search (table (p_levels p)) nm = Inr (Some ld) \<and> level_of p v = Some (ld_level ld) \<and> level_ok (ld_level ld)"
proof -
  from assms have tot: "val_total (p_sens_val_to_name p) (nprim (p_levels p))"
    and ht: "hashtab_ok (table (p_levels p))" by (auto simp: mls_db_ok_def)
  from val_deref_total [OF tot assms(2,3)] obtain nm where
    nm: "val_deref (p_sens_val_to_name p) v = Inr nm" "p_sens_val_to_name p ! (unat v - 1) = Some nm"
    "unat v - 1 < length (p_sens_val_to_name p)" by blast
  then have "Some nm \<in> set (p_sens_val_to_name p)" by (metis nth_mem)
  with assms(1) obtain ld where "hashtab_abs (table (p_levels p)) nm = Some ld" "level_ok (ld_level ld)"
    by (auto simp: mls_db_ok_def)
  with nm assms(2,3) show ?thesis
    by (auto simp: hashtab_search_abs [OF ht] level_of_def)
qed

lemma user_of_total:
  assumes "mls_db_ok p" and "v \<noteq> 0" and "v \<le> nprim (p_users p)"
  shows "\<exists>u. val_deref (user_val_to_struct p) v = Inr u \<and> user_of p v = Some u \<and> range_ok (ud_exp_range u)
     \<and> level_ok (ud_exp_dfltlevel u)"
proof -
  from assms have tot: "val_total (user_val_to_struct p) (nprim (p_users p))" by (simp add: mls_db_ok_def)
  from val_deref_total [OF tot assms(2,3)] obtain u where
    u: "val_deref (user_val_to_struct p) v = Inr u" "user_val_to_struct p ! (unat v - 1) = Some u"
    "unat v - 1 < length (user_val_to_struct p)" by blast
  then have "Some u \<in> set (user_val_to_struct p)" by (metis nth_mem)
  with u assms show ?thesis by (auto simp: user_of_def mls_db_ok_def)
qed

text \<open>What the validity test decides.\<close>

definition level_valid :: "policydb \<Rightarrow> mls_level \<Rightarrow> bool" where
  "level_valid p lv \<longleftrightarrow> (case level_of p (sens lv) of
     None \<Rightarrow> False
   | Some d \<Rightarrow> ebitmap_bits (cat lv) \<subseteq> ebitmap_bits (cat d) \<inter> {..unat (nprim (p_cats p))})"

definition mls_valid :: "policydb \<Rightarrow> context_struct \<Rightarrow> bool" where
  "mls_valid p c \<longleftrightarrow> p_mls p \<longrightarrow>
     mls_level_dom (high (c_range c)) (low (c_range c)) \<and> level_valid p (low (c_range c))
     \<and> level_valid p (high (c_range c))
     \<and> (c_role c = OBJECT_R_VAL \<or>
         (\<exists>u. user_of p (c_user c) = Some u \<and> mls_range_contains (ud_exp_range u) (c_range c)))"

lemma cats_allowed_iff:
  assumes "ebitmap_ok e"
  shows "cats_allowed p e bs \<longleftrightarrow> unat ` set bs \<subseteq> ebitmap_bits e \<inter> {..unat (nprim (p_cats p))}"
  by (induction bs) (auto simp: ebitmap_get_bit_iff [OF assms] word_less_nat_alt)

lemma level_isvalid_iff:
  assumes "mls_db_ok p" and "level_ok lv"
  shows "level_isvalid p lv = Inr (level_valid p lv)"
proof (cases "sens lv = 0 \<or> sens lv > nprim (p_levels p)")
  case True
  then show ?thesis by (auto simp: level_isvalid_def level_valid_def level_of_def)
next
  case False
  then have v: "sens lv \<noteq> 0" "sens lv \<le> nprim (p_levels p)" by auto
  from level_of_total [OF assms(1) v] obtain nm ld where
    l: "val_deref (p_sens_val_to_name p) (sens lv) = Inr nm" "hashtab_search (table (p_levels p)) nm = Inr (Some ld)"
    "level_of p (sens lv) = Some (ld_level ld)" "ebitmap_ok (cat (ld_level ld))" by (auto simp: level_ok_def)
  from ebitmap_positive_bits_eq [of "cat lv"] assms(2) obtain bs where
    bs: "ebitmap_positive_bits (cat lv) = Inr bs" "unat ` set bs = ebitmap_bits (cat lv)" by (auto simp: level_ok_def)
  show ?thesis using v l bs by (simp add: level_isvalid_def level_valid_def cats_allowed_iff [OF l(4)] leD)
qed

lemma mls_context_isvalid_iff:
  assumes "mls_db_ok p" and "context_ok c"
  shows "mls_context_isvalid p c = Inr (mls_valid p c)"
proof -
  have lv: "level_isvalid p (low (c_range c)) = Inr (level_valid p (low (c_range c)))"
    "level_isvalid p (high (c_range c)) = Inr (level_valid p (high (c_range c)))"
    using assms by (auto intro!: level_isvalid_iff simp: context_ok_def range_ok_def)
  show ?thesis
  proof (cases "c_user c = 0 \<or> c_user c > nprim (p_users p)")
    case True
    then have "user_of p (c_user c) = None" by (auto simp: user_of_def)
    with True show ?thesis by (auto simp: mls_context_isvalid_def mls_valid_def lv)
  next
    case False
    then have v: "c_user c \<noteq> 0" "c_user c \<le> nprim (p_users p)" by auto
    from user_of_total [OF assms(1) v] v show ?thesis
      by (auto simp: mls_context_isvalid_def mls_valid_def lv)
  qed
qed

section \<open>The range of a user's context\<close>

lemma mls_setup_user_range_bounds:
  assumes ok: "context_ok fromcon" "range_ok (ud_exp_range u)" "level_ok (ud_exp_dfltlevel u)"
    and valid: "mls_level_dom (high (c_range fromcon)) (low (c_range fromcon))"
      "mls_level_between (ud_exp_dfltlevel u) (low (ud_exp_range u)) (high (ud_exp_range u))"
    and res: "mls_setup_user_range fromcon u usercon True = Inr c"
  shows "mls_level_dom (high (c_range c)) (low (c_range c))"
    and "mls_range_contains (ud_exp_range u) (c_range c)"
    and "mls_level_dom (high (c_range fromcon)) (high (c_range c))"
proof -
  let ?fs = "low (c_range fromcon)" and ?fc = "high (c_range fromcon)"
  let ?ul = "low (ud_exp_range u)" and ?uc = "high (ud_exp_range u)" and ?ud = "ud_exp_dfltlevel u"
  have oks: "level_ok ?fs" "level_ok ?fc" "level_ok ?ul" "level_ok ?uc" "level_ok ?ud"
    using ok by (auto simp: context_ok_def range_ok_def)
  from res obtain sn cl where c: "c = usercon\<lparr>c_range := \<lparr>low = sn, high = cl\<rparr>\<rparr>" and
    sn: "sn = ?ud \<and> mls_level_between ?ud ?fs ?fc \<or> sn = ?fs \<and> mls_level_between ?fs ?ud ?uc
      \<or> sn = ?ul \<and> mls_level_between ?fc ?ul ?ud" and
    cl: "cl = ?fc \<and> mls_level_dom ?uc ?fc \<or> cl = ?uc \<and> mls_level_dom ?fc ?uc"
    by (auto simp: mls_setup_user_range_def Let_def bindR_eq_Inr split: if_splits)
  have uv: "mls_level_dom ?ud ?ul" "mls_level_dom ?uc ?ud" "mls_level_dom ?uc ?ul"
    using valid(2) oks lvl.dom_trans [of ?uc ?ud ?ul] by (auto simp: mls_level_between_def)
  show "mls_level_dom (high (c_range c)) (low (c_range c))"
    using sn cl uv valid(1) by (auto simp: c mls_level_between_def)
  have "mls_level_dom ?fs ?ud \<Longrightarrow> mls_level_dom ?fs ?ul" using oks uv(1) lvl.dom_trans [of ?fs ?ud ?ul] by blast
  then have "mls_level_dom sn ?ul" using sn uv(1) lvl.dom_refl [OF oks(3)] by (auto simp: mls_level_between_def)
  moreover have "mls_level_dom ?uc cl" using cl lvl.dom_refl [OF oks(4)] by auto
  ultimately show "mls_range_contains (ud_exp_range u) (c_range c)" by (simp add: c mls_range_contains_def)
  show "mls_level_dom (high (c_range fromcon)) (high (c_range c))"
    using cl c lvl.dom_refl [OF oks(2)] by auto
qed

section \<open>Properties\<close>


text \<open>Claim C32. On a well-formed policy \<open>mls_context_isvalid\<close> does not fault and decides the MLS part of validity:
  the high level dominates the low one, both sensitivities are defined and carry only categories that
  the sensitivity allows and the policy has, and, unless the role is the object role, the user is
  defined and cleared for the range.\<close>

theorem mls_validity_decided:
  assumes "mls_db_ok p" and "context_ok c"
  shows "mls_context_isvalid p c = Inr (mls_valid p c)"
  using assms by (rule mls_context_isvalid_iff)

text \<open>When \<open>mls_setup_user_range\<close> succeeds for a process context and a user with a consistent
  clearance, the range it computes is one (its high level dominates its low level), it lies within the
  user's range, and its clearance does not exceed that of the process.\<close>

theorem mls_user_range_bounded:
  assumes "context_ok fromcon" "range_ok (ud_exp_range u)" "level_ok (ud_exp_dfltlevel u)"
    and "mls_level_dom (high (c_range fromcon)) (low (c_range fromcon))"
    and "mls_level_between (ud_exp_dfltlevel u) (low (ud_exp_range u)) (high (ud_exp_range u))"
    and "mls_setup_user_range fromcon u usercon True = Inr c"
  shows "mls_level_dom (high (c_range c)) (low (c_range c)) \<and> mls_range_contains (ud_exp_range u) (c_range c)
    \<and> mls_level_dom (high (c_range fromcon)) (high (c_range c))"
  using mls_setup_user_range_bounds [OF assms] by blast

text \<open>A policy with 192 categories, each with a name of its own.\<close>

definition gap_db :: policydb where
  "gap_db = policydb_zero\<lparr>p_mls := True, p_sens_val_to_name := [Some ''s0''],
     p_cat_val_to_name := map (\<lambda>i. Some [CHR ''c'', char_of (i :: nat)]) [0..<192]\<rparr>"

definition gap_level :: mls_level where
  "gap_level = \<lparr>sens = 1, cat = \<lparr>node = [\<lparr>startbit = 0, nmap = push_bit 62 3\<rparr>, \<lparr>startbit = 128, nmap = 1\<rparr>], highbit = 192\<rparr>\<rparr>"

definition gap_context :: context_struct where
  "gap_context = context_init\<lparr>c_range := \<lparr>low = gap_level, high = gap_level\<rparr>\<rparr>"

lemma cat_str_clear:
  "\<forall>b\<in>set bs. \<not> snd b \<Longrightarrow> foldR (cat_str_step names) bs (0, w, out) = Inr (0, w, out)"
  by (induction bs) (auto simp: cat_str_step_def)

lemma gap_cat_ok: "ebitmap_ok (cat gap_level)"
  by (simp add: gap_level_def ebitmap_ok_def node_ok_def nodes_end_def)

lemma gap_bits:
  "\<exists>xs ys. ebitmap_for_each_bit (cat gap_level) = Inr (xs @ [(62, True), (63, True), (128, True), (129, False)] @ ys)
    \<and> (\<forall>b\<in>set xs \<union> set ys. \<not> snd b)"
proof -
  let ?n = "\<lparr>startbit = 0, nmap = push_bit 62 3\<rparr>" and ?m = "\<lparr>startbit = 128, nmap = 1\<rparr>"
  let ?xs = "map (\<lambda>k. (of_nat k :: u32, bit (push_bit 62 3 :: u64) k)) [0..<62]"
  have off: "\<forall>b\<in>set ?xs. \<not> snd b" unfolding bit_push_bit_iff by auto
  have "[0..<64] = [0..<62] @ [62, 63]" by (simp add: upt_rec)
  moreover have "bit (push_bit 62 3 :: u64) 62" "bit (push_bit 62 3 :: u64) 63" by simp_all
  ultimately have n: "chunk_bits 0 ?n = ?xs @ [(62, True), (63, True)]"
    unfolding chunk_bits_def by simp
  have "[0..<64] = 0 # 1 # [2..<64 :: nat]" by (simp add: upt_rec)
  then have m: "chunk_bits 0 ?m = [(128, True), (129, False)] @ chunk_bits 2 ?m"
    unfolding chunk_bits_def by (simp add: bit_1_iff)
  have "\<forall>b\<in>set (chunk_bits 2 ?m). \<not> snd b" by (auto simp: chunk_bits_def bit_1_iff)
  moreover have "ebitmap_for_each_bit (cat gap_level) = Inr (chunk_bits 0 ?n @ chunk_bits 0 ?m)"
    unfolding ebitmap_for_each_bit_eq [OF gap_cat_ok] by (simp add: gap_level_def)
  ultimately show ?thesis
    using off unfolding n m by (intro exI [of _ ?xs] exI [of _ "chunk_bits 2 ?m"]) auto
qed

lemma gap_level_str:
  "level_str gap_db gap_level = Inr (''s0:c'' @ [char_of (62 :: nat)] @ ''.c'' @ [char_of (128 :: nat)])"
proof -
  let ?on = "[(62, True), (63, True), (128, True), (129, False)]"
  obtain xs ys where bits: "ebitmap_for_each_bit (cat gap_level) = Inr (xs @ ?on @ ys)"
    "\<forall>b\<in>set xs. \<not> snd b" "\<forall>b\<in>set ys. \<not> snd b" using gap_bits by blast
  have "foldR (cat_str_step (p_cat_val_to_name gap_db)) ?on (0, False, ''s0'')
      = Inr (0, True, ''s0:c'' @ [char_of (62 :: nat)] @ ''.c'' @ [char_of (128 :: nat)])"
    by (simp add: cat_str_step_def name_at_def gap_db_def)
  then have "foldR (cat_str_step (p_cat_val_to_name gap_db)) (xs @ ?on @ ys) (0, False, ''s0'')
      = Inr (0, True, ''s0:c'' @ [char_of (62 :: nat)] @ ''.c'' @ [char_of (128 :: nat)])"
    unfolding foldR_append by (simp only: cat_str_clear [OF bits(2)] cat_str_clear [OF bits(3)] bindR_simps)
  moreover have "val_deref (p_sens_val_to_name gap_db) (sens gap_level) = Inr ''s0''"
    by (simp add: gap_db_def gap_level_def val_deref_def val_get_def)
  ultimately show ?thesis
    unfolding level_str_def bits(1) by simp
qed

text \<open>The text form of a level with the categories 62, 63 and 128 is that of the range from 62 to 128:
  the loop skips a missing node of the bitmap without ending the run. The text is one of a level with
  67 categories, 64 of which the context does not have.\<close>

lemma mls_text_bridges_gaps:
  "mls_sid_to_context gap_db gap_context = Inr ('':s0:c'' @ [char_of (62 :: nat)] @ ''.c'' @ [char_of (128 :: nat)])
    \<and> context_ok gap_context \<and> \<not> ebitmap_get_bit (cat (low (c_range gap_context))) 100"
proof (intro conjI)
  show "mls_sid_to_context gap_db gap_context = Inr ('':s0:c'' @ [char_of (62 :: nat)] @ ''.c'' @ [char_of (128 :: nat)])"
    using gap_level_str by (simp add: mls_sid_to_context_def gap_context_def mls_level_eq_iff level_ok_def gap_cat_ok)
      (simp add: gap_db_def)
  show "context_ok gap_context"
    by (simp add: gap_context_def context_ok_def range_ok_def level_ok_def gap_cat_ok)
  show "\<not> ebitmap_get_bit (cat (low (c_range gap_context))) 100" by code_simp
qed

section \<open>Witnesses\<close>

lemma sample_mls_ok: "mls_db_ok sample_db"
  by (simp add: mls_db_ok_def) (simp add: sample_db_def val_total_def sample_user_def)


theorem mls_validity_decided_witness:
  "mls_context_isvalid sample_db (sample_context 2 1) = Inr (mls_valid sample_db (sample_context 2 1))"
  by (rule mls_validity_decided [OF sample_mls_ok sample_levels_ok(4)])

theorem mls_user_range_bounded_witness:
  "\<exists>c. mls_setup_user_range (sample_context 2 1) sample_user context_init True = Inr c
    \<and> mls_range_contains (ud_exp_range sample_user) (c_range c)"
proof -
  have "mls_setup_user_range (sample_context 2 1) sample_user context_init True
      = Inr (context_init\<lparr>c_range := sample_range\<rparr>)"
    "mls_level_dom (high (c_range (sample_context 2 1))) (low (c_range (sample_context 2 1)))"
    "mls_level_between (ud_exp_dfltlevel sample_user) (low (ud_exp_range sample_user)) (high (ud_exp_range sample_user))"
    by code_simp+
  moreover have "range_ok (ud_exp_range sample_user)" "level_ok (ud_exp_dfltlevel sample_user)"
    by (simp_all add: sample_user_def)
  ultimately show ?thesis
    using mls_user_range_bounded [OF sample_levels_ok(4), of sample_user] by blast
qed

end
