(* ===== verification/Contexts.thy ===== *)
theory Contexts
  imports Mls
begin

text \<open>
  Security contexts in their three forms (context.c, context_record.c): the structure of numbers
  that the security server works with, the record of four strings that the management interface
  hands out, and the text \<open>user:role:type[:range]\<close>. A null pointer in the record is \<open>None\<close>; a
  null record (the result of parsing \<open><<none>>\<close>) is \<open>None\<close> as well.
\<close>

section \<open>Records\<close>

record sepol_context =
  con_user :: "string option"
  con_role :: "string option"
  con_type :: "string option"
  con_mls :: "string option"

definition strdup :: "string \<Rightarrow> string alloc_m" where
  "strdup s = bindE malloc (\<lambda>_. returnE s)"

definition sepol_context_get_user :: "sepol_context option \<Rightarrow> string option res" where
  "sepol_context_get_user con = bindR (deref con) (\<lambda>c. Inr (con_user c))"

definition sepol_context_get_role :: "sepol_context option \<Rightarrow> string option res" where
  "sepol_context_get_role con = bindR (deref con) (\<lambda>c. Inr (con_role c))"

definition sepol_context_get_type :: "sepol_context option \<Rightarrow> string option res" where
  "sepol_context_get_type con = bindR (deref con) (\<lambda>c. Inr (con_type c))"

definition sepol_context_get_mls :: "sepol_context option \<Rightarrow> string option res" where
  "sepol_context_get_mls con = bindR (deref con) (\<lambda>c. Inr (con_mls c))"

definition sepol_context_set_user :: "sepol_context \<Rightarrow> string \<Rightarrow> sepol_context alloc_m" where
  "sepol_context_set_user con user = bindE (failE (strdup user) STATUS_ERR)
     (\<lambda>tmp_user. returnE (con\<lparr>con_user := Some tmp_user\<rparr>))"

definition sepol_context_set_role :: "sepol_context \<Rightarrow> string \<Rightarrow> sepol_context alloc_m" where
  "sepol_context_set_role con role = bindE (failE (strdup role) STATUS_ERR)
     (\<lambda>tmp_role. returnE (con\<lparr>con_role := Some tmp_role\<rparr>))"

definition sepol_context_set_type :: "sepol_context \<Rightarrow> string \<Rightarrow> sepol_context alloc_m" where
  "sepol_context_set_type con typ = bindE (failE (strdup typ) STATUS_ERR)
     (\<lambda>tmp_type. returnE (con\<lparr>con_type := Some tmp_type\<rparr>))"

definition sepol_context_set_mls :: "sepol_context \<Rightarrow> string \<Rightarrow> sepol_context alloc_m" where
  "sepol_context_set_mls con mls = bindE (failE (strdup mls) STATUS_ERR)
     (\<lambda>tmp_mls. returnE (con\<lparr>con_mls := Some tmp_mls\<rparr>))"

definition sepol_context_create :: "sepol_context alloc_m" where
  "sepol_context_create = bindE (failE malloc STATUS_ERR) (\<lambda>_.
     returnE \<lparr>con_user = None, con_role = None, con_type = None, con_mls = None\<rparr>)"

text \<open>\<open>strdup\<close> of a field of the source record; a null field is a fault.\<close>

definition dup_field :: "string option \<Rightarrow> string alloc_m" where
  "dup_field f = bindE (liftE (deref f)) (\<lambda>s. failE (strdup s) STATUS_ERR)"

definition sepol_context_clone :: "sepol_context option \<Rightarrow> sepol_context option alloc_m" where
  "sepol_context_clone con = (case con of
     None \<Rightarrow> returnE None
   | Some c \<Rightarrow> bindE sepol_context_create (\<lambda>n.
       bindE (dup_field (con_user c)) (\<lambda>u.
       bindE (dup_field (con_role c)) (\<lambda>r.
       bindE (dup_field (con_type c)) (\<lambda>t.
       case con_mls c of
         None \<Rightarrow> returnE (Some (n\<lparr>con_user := Some u, con_role := Some r, con_type := Some t\<rparr>))
       | Some m \<Rightarrow> bindE (dup_field (Some m)) (\<lambda>m'.
           returnE (Some (n\<lparr>con_user := Some u, con_role := Some r, con_type := Some t, con_mls := Some m'\<rparr>))))))))"

text \<open>The text before the first colon and the text after it.\<close>

definition split_colon :: "string \<Rightarrow> string \<times> string option" where
  "split_colon s = (takeWhile (\<lambda>c. c \<noteq> CHR '':'') s,
     (case dropWhile (\<lambda>c. c \<noteq> CHR '':'') s of [] \<Rightarrow> None | _ # r \<Rightarrow> Some r))"

definition sepol_context_from_string :: "string \<Rightarrow> sepol_context option alloc_m" where
  "sepol_context_from_string str =
     (if str = ''<<none>>'' then returnE None
      else bindE sepol_context_create (\<lambda>con.
        bindE (failE (strdup str) STATUS_ERR) (\<lambda>tmp.
        case split_colon tmp of
          (_, None) \<Rightarrow> throwE STATUS_ERR
        | (user, Some rest1) \<Rightarrow> bindE (sepol_context_set_user con user) (\<lambda>con1.
            case split_colon rest1 of
              (_, None) \<Rightarrow> throwE STATUS_ERR
            | (role, Some rest2) \<Rightarrow> bindE (sepol_context_set_role con1 role) (\<lambda>con2.
                case split_colon rest2 of
                  (typ, None) \<Rightarrow> bindE (sepol_context_set_type con2 typ) (\<lambda>con3. returnE (Some con3))
                | (typ, Some mls) \<Rightarrow> bindE (sepol_context_set_type con2 typ) (\<lambda>con3.
                    bindE (sepol_context_set_mls con3 mls) (\<lambda>con4. returnE (Some con4))))))))"

text \<open>The \<open>int\<close> length arithmetic is assumed not to overflow: no string is that long.\<close>

definition sepol_context_to_string :: "sepol_context \<Rightarrow> string alloc_m" where
  "sepol_context_to_string con =
     bindE (liftE (deref (con_user con))) (\<lambda>user.
     bindE (liftE (deref (con_role con))) (\<lambda>role.
     bindE (liftE (deref (con_type con))) (\<lambda>typ.
     bindE (failE malloc STATUS_ERR) (\<lambda>_. case con_mls con of
       Some mls \<Rightarrow> returnE (user @ '':'' @ role @ '':'' @ typ @ '':'' @ mls)
     | None \<Rightarrow> returnE (user @ '':'' @ role @ '':'' @ typ)))))"

section \<open>Structures\<close>


definition context_is_valid :: "policydb \<Rightarrow> context_struct \<Rightarrow> bool res" where
  "context_is_valid p c =
     (if c_role c = 0 \<or> c_role c > nprim (p_roles p) then Inr False
      else if c_user c = 0 \<or> c_user c > nprim (p_users p) then Inr False
      else if c_type c = 0 \<or> c_type c > nprim (p_types p) then Inr False
      else bindR
        (if c_role c \<noteq> OBJECT_R_VAL then
           bindR (val_deref (role_val_to_struct p) (c_role c)) (\<lambda>role.
             if \<not> ebitmap_get_bit (rd_cache role) (c_type c - 1) then Inr False
             else bindR (val_get (user_val_to_struct p) (c_user c)) (\<lambda>usrdatum. case usrdatum of
               None \<Rightarrow> Inr False
             | Some u \<Rightarrow> Inr (ebitmap_get_bit (ud_cache u) (c_role c - 1))))
         else Inr True)
        (\<lambda>authorised. if \<not> authorised then Inr False else mls_context_isvalid p c))"

definition policydb_context_isvalid :: "policydb \<Rightarrow> context_struct \<Rightarrow> bool res" where
  "policydb_context_isvalid p c = context_is_valid p c"

text \<open>The buffer has the computed length; writing more than that is a fault.\<close>

definition context_to_string :: "policydb \<Rightarrow> context_struct \<Rightarrow> (string \<times> nat) alloc_m" where
  "context_to_string p c =
     bindE (liftE (val_deref (p_user_val_to_name p) (c_user c))) (\<lambda>user.
     bindE (liftE (val_deref (p_role_val_to_name p) (c_role c))) (\<lambda>role.
     bindE (liftE (val_deref (p_type_val_to_name p) (c_type c))) (\<lambda>typ.
     bindE (liftE (mls_compute_context_len p c)) (\<lambda>mls_len.
       let scontext_len = (length user + 1) + (length role + 1) + length typ + mls_len + 1 in
       bindE (failE malloc STATUS_ERR) (\<lambda>_.
       bindE (liftE (mls_sid_to_context p c)) (\<lambda>mls.
         let scontext = user @ '':'' @ role @ '':'' @ typ @ mls in
         if length scontext + 1 > scontext_len then throwE Fault
         else returnE (scontext, scontext_len)))))))"

text \<open>The four allocations are tested together after all of them have been tried.\<close>

definition context_from_record :: "policydb \<Rightarrow> sepol_context option \<Rightarrow> context_struct alloc_m" where
  "context_from_record p rec = failE
     (bindE (liftE (bindR (sepol_context_get_user rec) deref)) (\<lambda>user.
      bindE (liftE (bindR (sepol_context_get_role rec) deref)) (\<lambda>role.
      bindE (liftE (bindR (sepol_context_get_type rec) deref)) (\<lambda>typ.
      bindE (liftE (sepol_context_get_mls rec)) (\<lambda>mls.
      bindE (strdup user) (\<lambda>_. bindE (strdup role) (\<lambda>_. bindE (strdup typ) (\<lambda>_. bindE malloc (\<lambda>_.
      bindE (liftE (hashtab_search (table (p_users p)) user)) (\<lambda>ur. case ur of
        None \<Rightarrow> throwE EINVAL
      | Some usrdatum \<Rightarrow>
      bindE (liftE (hashtab_search (table (p_roles p)) role)) (\<lambda>rr. case rr of
        None \<Rightarrow> throwE EINVAL
      | Some roldatum \<Rightarrow>
      bindE (liftE (hashtab_search (table (p_types p)) typ)) (\<lambda>tr. case tr of
        None \<Rightarrow> throwE EINVAL
      | Some typdatum \<Rightarrow>
          if td_flavor typdatum = TYPE_ATTRIB then throwE EINVAL
          else
            let scontext = context_init\<lparr>c_user := ud_value usrdatum, c_role := rd_value roldatum,
                  c_type := td_value typdatum\<rparr> in
            if mls \<noteq> None \<and> \<not> p_mls p then throwE EINVAL
            else if mls = None \<and> p_mls p then throwE EINVAL
            else bindE (case mls of None \<Rightarrow> returnE scontext | Some m \<Rightarrow> mls_from_string p m scontext) (\<lambda>scontext1.
              bindE (liftE (context_is_valid p scontext1)) (\<lambda>valid.
                if \<not> valid then throwE EINVAL else returnE scontext1))))))))))))))
     STATUS_ERR"

definition context_to_record :: "policydb \<Rightarrow> context_struct \<Rightarrow> sepol_context alloc_m" where
  "context_to_record p c =
     bindE sepol_context_create (\<lambda>r0.
     bindE (liftE (val_deref (p_user_val_to_name p) (c_user c))) (\<lambda>user. bindE (sepol_context_set_user r0 user) (\<lambda>r1.
     bindE (liftE (val_deref (p_role_val_to_name p) (c_role c))) (\<lambda>role. bindE (sepol_context_set_role r1 role) (\<lambda>r2.
     bindE (liftE (val_deref (p_type_val_to_name p) (c_type c))) (\<lambda>typ. bindE (sepol_context_set_type r2 typ) (\<lambda>r3.
     if p_mls p then bindE (mls_to_string p c) (\<lambda>mls. sepol_context_set_mls r3 mls) else returnE r3)))))))"

text \<open>A byte array of the given length is turned into the string before its first null.\<close>

definition context_from_string :: "policydb \<Rightarrow> string \<Rightarrow> context_struct alloc_m" where
  "context_from_string p con_str = bindE (failE malloc STATUS_ERR) (\<lambda>_.
     bindE (sepol_context_from_string (takeWhile (\<lambda>c. c \<noteq> CHR 0x00) con_str)) (\<lambda>ctx_record.
       context_from_record p ctx_record))"

definition sepol_context_check :: "policydb \<Rightarrow> sepol_context option \<Rightarrow> unit alloc_m" where
  "sepol_context_check p c = bindE (context_from_record p c) (\<lambda>_. returnE ())"

section \<open>Text and records\<close>

lemma split_colon_simps:
  "CHR '':'' \<notin> set u \<Longrightarrow> split_colon (u @ CHR '':'' # s) = (u, Some s)"
  "CHR '':'' \<notin> set u \<Longrightarrow> split_colon u = (u, None)"
proof -
  assume u: "CHR '':'' \<notin> set u"
  then have "takeWhile (\<lambda>c. c \<noteq> CHR '':'') (u @ CHR '':'' # s) = u"
    "dropWhile (\<lambda>c. c \<noteq> CHR '':'') (u @ CHR '':'' # s) = CHR '':'' # s"
    by (induction u) auto
  then show "split_colon (u @ CHR '':'' # s) = (u, Some s)" by (simp add: split_colon_def)
  from u have "takeWhile (\<lambda>c. c \<noteq> CHR '':'') u = u" "dropWhile (\<lambda>c. c \<noteq> CHR '':'') u = []"
    by (induction u) auto
  then show "split_colon u = (u, None)" by (simp only: split_colon_def list.case)
qed

lemma split_colon_join:
  assumes "split_colon s = (u, r)"
  shows "s = u @ (case r of None \<Rightarrow> [] | Some t \<Rightarrow> CHR '':'' # t) \<and> CHR '':'' \<notin> set u"
proof -
  let ?P = "\<lambda>c. c \<noteq> CHR '':''"
  have u: "u = takeWhile ?P s" and r: "r = (case dropWhile ?P s of [] \<Rightarrow> None | _ # t \<Rightarrow> Some t)"
    using assms by (simp_all add: split_colon_def)
  have "dropWhile ?P s = (case r of None \<Rightarrow> [] | Some t \<Rightarrow> CHR '':'' # t)"
  proof (cases "dropWhile ?P s")
    case Nil
    with r show ?thesis by (simp only: list.case option.case)
  next
    case (Cons c t)
    then have "c = CHR '':''" using hd_dropWhile [of ?P s] by simp
    with Cons r show ?thesis by simp
  qed
  then show ?thesis using u takeWhile_dropWhile_id [of ?P s] set_takeWhileD [of "CHR '':''" ?P s] by auto
qed

lemma returns_strdup: "returns (failE (strdup s) STATUS_ERR) (Inr s)"
  by (intro returns_failE_Inr) (simp_all add: strdup_def)

lemma returns_strdup_bindE [simp]: "returns (f s) r \<Longrightarrow> returns (bindE (strdup s) f) r"
  by (rule returns_bindE_Inr) (simp_all add: strdup_def)

lemma returns_setters [simp]:
  "returns (sepol_context_set_user c s) (Inr (c\<lparr>con_user := Some s\<rparr>))"
  "returns (sepol_context_set_role c s) (Inr (c\<lparr>con_role := Some s\<rparr>))"
  "returns (sepol_context_set_type c s) (Inr (c\<lparr>con_type := Some s\<rparr>))"
  "returns (sepol_context_set_mls c s) (Inr (c\<lparr>con_mls := Some s\<rparr>))"
  by (auto simp: sepol_context_set_user_def sepol_context_set_role_def sepol_context_set_type_def
      sepol_context_set_mls_def intro!: returns_bindE_Inr [OF returns_strdup])

lemma returns_failE_malloc: "returns (failE malloc STATUS_ERR) (Inr ())"
  by (intro returns_failE_Inr returns_yields yields_malloc) simp_all

lemma returns_create [simp]:
  "returns sepol_context_create (Inr \<lparr>con_user = None, con_role = None, con_type = None, con_mls = None\<rparr>)"
  unfolding sepol_context_create_def by (rule returns_bindE_Inr [OF returns_failE_malloc]) simp

text \<open>The text of a context record.\<close>

definition context_text :: "string \<Rightarrow> string \<Rightarrow> string \<Rightarrow> string option \<Rightarrow> string" where
  "context_text u r t m = u @ '':'' @ r @ '':'' @ t @ (case m of None \<Rightarrow> [] | Some x \<Rightarrow> '':'' @ x)"

lemma context_text_not_none: "context_text u r t m \<noteq> ''<<none>>''"
proof
  assume "context_text u r t m = ''<<none>>''"
  moreover have "CHR '':'' \<in> set (context_text u r t m)" by (simp add: context_text_def)
  ultimately show False by auto
qed

lemma sepol_context_to_string_returns:
  "returns (sepol_context_to_string \<lparr>con_user = Some u, con_role = Some r, con_type = Some t, con_mls = m\<rparr>)
     (Inr (context_text u r t m))"
  unfolding sepol_context_to_string_def
  by (cases m) (auto simp: context_text_def intro!: returns_bindE_Inr [OF returns_failE_malloc])

lemma sepol_context_from_text_returns:
  assumes "CHR '':'' \<notin> set u" "CHR '':'' \<notin> set r" "CHR '':'' \<notin> set t"
  shows "returns (sepol_context_from_string (context_text u r t m))
    (Inr (Some \<lparr>con_user = Some u, con_role = Some r, con_type = Some t, con_mls = m\<rparr>))"
proof -
  have "context_text u r t m = u @ CHR '':'' # r @ CHR '':'' # t @ (case m of None \<Rightarrow> [] | Some x \<Rightarrow> CHR '':'' # x)"
    by (simp add: context_text_def split: option.split)
  then have split: "split_colon (context_text u r t m) = (u, Some (r @ CHR '':'' # t @ (case m of None \<Rightarrow> [] | Some x \<Rightarrow> CHR '':'' # x)))"
    by (simp only: split_colon_simps(1) [OF assms(1)])
  have split3: "split_colon (t @ (case m of None \<Rightarrow> [] | Some x \<Rightarrow> CHR '':'' # x)) = (t, m)"
    using assms(3) by (cases m) (simp_all add: split_colon_simps)
  note steps = returns_bindE_Inr [OF returns_create] returns_bindE_Inr [OF returns_strdup]
    returns_bindE_Inr [OF returns_setters(1)] returns_bindE_Inr [OF returns_setters(2)]
    returns_bindE_Inr [OF returns_setters(3)] returns_bindE_Inr [OF returns_setters(4)]
  show ?thesis
    unfolding sepol_context_from_string_def if_not_P [OF context_text_not_none]
    apply (rule steps(1), rule steps(2))
    apply (simp only: split prod.case option.case)
    apply (rule steps(3))
    apply (simp only: split_colon_simps(1) [OF assms(2)] prod.case option.case)
    apply (rule steps(4))
    apply (simp only: split3 prod.case)
    apply (cases m; simp only: option.case)
     apply (rule steps(5), simp)
    apply (rule steps(5), rule steps(6), simp)
    done
qed

text \<open>Every text that is accepted has such a form.\<close>

lemma sepol_context_from_string_text:
  assumes "sepol_context_from_string s a = (Inr (Some con), b)"
  shows "\<exists>u r t m. con = \<lparr>con_user = Some u, con_role = Some r, con_type = Some t, con_mls = m\<rparr>
    \<and> s = context_text u r t m \<and> CHR '':'' \<notin> set u \<and> CHR '':'' \<notin> set r \<and> CHR '':'' \<notin> set t"
proof -
  have none: "s \<noteq> ''<<none>>''" using assms by (auto simp: sepol_context_from_string_def)
  obtain u r1 where u: "split_colon s = (u, r1)" by fastforce
  from assms none u obtain s1 where s1: "r1 = Some s1"
    by (cases r1) (auto simp: sepol_context_from_string_def bindE_eq_Inr strdup_def)
  obtain r r2 where r: "split_colon s1 = (r, r2)" by fastforce
  from assms none u s1 r obtain s2 where s2: "r2 = Some s2"
    by (cases r2) (auto simp: sepol_context_from_string_def bindE_eq_Inr strdup_def)
  obtain t m where t: "split_colon s2 = (t, m)" by fastforce
  have shape: "s = context_text u r t m" "CHR '':'' \<notin> set u" "CHR '':'' \<notin> set r" "CHR '':'' \<notin> set t"
    using split_colon_join [OF u] split_colon_join [OF r] split_colon_join [OF t] s1 s2
    by (auto simp: context_text_def split: option.splits)
  from returns_Inr [OF sepol_context_from_text_returns [OF shape(2-4), of m]] assms shape show ?thesis by blast
qed

section \<open>Validity\<close>

definition role_of :: "policydb \<Rightarrow> u32 \<Rightarrow> role_datum option" where
  "role_of p v = (if v \<noteq> 0 \<and> v \<le> nprim (p_roles p) \<and> unat v - 1 < length (role_val_to_struct p)
     then role_val_to_struct p ! (unat v - 1) else None)"

definition rbac_db_ok :: "policydb \<Rightarrow> bool" where
  "rbac_db_ok p \<longleftrightarrow> val_total (role_val_to_struct p) (nprim (p_roles p))
     \<and> (\<forall>r. Some r \<in> set (role_val_to_struct p) \<longrightarrow> ebitmap_ok (rd_cache r))
     \<and> (\<forall>u. Some u \<in> set (user_val_to_struct p) \<longrightarrow> ebitmap_ok (ud_cache u))"

text \<open>A valid context: its three identifiers are defined, the role is authorised for the type and the
  user for the role (the object role is authorised for all), and its range is valid.\<close>

definition context_valid :: "policydb \<Rightarrow> context_struct \<Rightarrow> bool" where
  "context_valid p c \<longleftrightarrow> (\<exists>r u. role_of p (c_role c) = Some r \<and> user_of p (c_user c) = Some u
     \<and> c_type c \<noteq> 0 \<and> c_type c \<le> nprim (p_types p)
     \<and> (c_role c = OBJECT_R_VAL \<or>
         unat (c_type c) - 1 \<in> ebitmap_bits (rd_cache r) \<and> unat (c_role c) - 1 \<in> ebitmap_bits (ud_cache u))
     \<and> mls_valid p c)"

lemma context_is_valid_iff:
  assumes "mls_db_ok p" "rbac_db_ok p" "context_ok c"
  shows "context_is_valid p c = Inr (context_valid p c)"
proof (cases "c_role c \<noteq> 0 \<and> c_role c \<le> nprim (p_roles p) \<and> c_user c \<noteq> 0 \<and> c_user c \<le> nprim (p_users p)
    \<and> c_type c \<noteq> 0 \<and> c_type c \<le> nprim (p_types p)")
  case False
  then show ?thesis
    by (auto simp: context_is_valid_def context_valid_def role_of_def user_of_def not_le)
next
  case True
  have tot: "val_total (role_val_to_struct p) (nprim (p_roles p))" "val_total (user_val_to_struct p) (nprim (p_users p))"
    using assms(1,2) by (auto simp: rbac_db_ok_def mls_db_ok_def)
  obtain r where r: "val_deref (role_val_to_struct p) (c_role c) = Inr r" "role_val_to_struct p ! (unat (c_role c) - 1) = Some r"
    "unat (c_role c) - 1 < length (role_val_to_struct p)" using val_deref_total [OF tot(1)] True by blast
  obtain u where u: "user_val_to_struct p ! (unat (c_user c) - 1) = Some u"
    "unat (c_user c) - 1 < length (user_val_to_struct p)" using val_deref_total [OF tot(2)] True by blast
  have vg: "val_get (user_val_to_struct p) (c_user c) = Inr (Some u)"
    using u True by (simp add: val_get_def unat_minus_1)
  have "Some r \<in> set (role_val_to_struct p)" "Some u \<in> set (user_val_to_struct p)"
    using nth_mem [OF r(3)] nth_mem [OF u(2)] r(2) u(1) by simp_all
  then have eb: "ebitmap_ok (rd_cache r)" "ebitmap_ok (ud_cache u)" using assms(2) by (auto simp: rbac_db_ok_def)
  have bits: "ebitmap_get_bit (rd_cache r) (c_type c - 1) = (unat (c_type c) - 1 \<in> ebitmap_bits (rd_cache r))"
    "ebitmap_get_bit (ud_cache u) (c_role c - 1) = (unat (c_role c) - 1 \<in> ebitmap_bits (ud_cache u))"
    using True by (simp_all add: ebitmap_get_bit_iff eb unat_minus_1)
  have "role_of p (c_role c) = Some r" "user_of p (c_user c) = Some u"
    using True r u by (simp_all add: role_of_def user_of_def)
  then have v: "context_valid p c \<longleftrightarrow> (c_role c = OBJECT_R_VAL \<or>
      unat (c_type c) - 1 \<in> ebitmap_bits (rd_cache r) \<and> unat (c_role c) - 1 \<in> ebitmap_bits (ud_cache u)) \<and> mls_valid p c"
    using True by (simp add: context_valid_def)
  show ?thesis
    unfolding v using True mls_context_isvalid_iff [OF assms(1,3)] r(1) vg bits
    by (auto simp: context_is_valid_def not_less)
qed

section \<open>Names\<close>

text \<open>The text of a context on a policy whose names are all defined.\<close>

lemma context_to_string_returns:
  assumes "val_deref (p_user_val_to_name p) (c_user c) = Inr u"
    "val_deref (p_role_val_to_name p) (c_role c) = Inr r"
    "val_deref (p_type_val_to_name p) (c_type c) = Inr t" "mls_sid_to_context p c = Inr m"
  shows "returns (context_to_string p c)
    (Inr (u @ '':'' @ r @ '':'' @ t @ m, length (u @ '':'' @ r @ '':'' @ t @ m) + 1))"
  using assms mls_len_str [of p c]
  by (simp add: context_to_string_def) (rule returns_bindE_Inr [OF returns_failE_malloc], simp)

text \<open>Whatever the policy, the text fits the buffer that was computed for it.\<close>

lemma context_to_string_fits:
  assumes "context_to_string p c a = (Inr (s, n), b)"
  shows "n = length s + 1"
  using assms mls_len_str [of p c]
  by (cases "mls_sid_to_context p c") (auto simp: context_to_string_def bindE_eq_Inr Let_def split: if_splits)

lemma mls_from_string_keeps:
  assumes "mls_from_string p m c0 a = (Inr c, b)"
  shows "c_user c = c_user c0 \<and> c_role c = c_role c0 \<and> c_type c = c_type c0"
  using assms
  by (auto simp: mls_from_string_def mls_context_to_sid_def bindE_eq_Inr split: if_splits prod.splits)

text \<open>A structure made from a record is valid and carries the values of the names in the record.\<close>

lemma context_from_record_sound:
  assumes "hashtab_ok (table (p_users p))" "hashtab_ok (table (p_roles p))" "hashtab_ok (table (p_types p))"
    "context_from_record p (Some con) a = (Inr c, b)"
  shows "\<exists>u r t ud rd td. con_user con = Some u \<and> con_role con = Some r \<and> con_type con = Some t
    \<and> hashtab_abs (table (p_users p)) u = Some ud \<and> hashtab_abs (table (p_roles p)) r = Some rd
    \<and> hashtab_abs (table (p_types p)) t = Some td \<and> td_flavor td \<noteq> TYPE_ATTRIB
    \<and> c_user c = ud_value ud \<and> c_role c = rd_value rd \<and> c_type c = td_value td
    \<and> (con_mls con \<noteq> None \<longleftrightarrow> p_mls p) \<and> context_is_valid p c = Inr True"
proof -
  note search = hashtab_search_abs [OF assms(1)] hashtab_search_abs [OF assms(2)] hashtab_search_abs [OF assms(3)]
  from assms(4) obtain u r t where n: "con_user con = Some u" "con_role con = Some r" "con_type con = Some t"
    by (cases "con_user con"; cases "con_role con"; cases "con_type con")
      (simp_all add: context_from_record_def sepol_context_get_user_def sepol_context_get_role_def sepol_context_get_type_def)
  from assms(4) n obtain ud rd td where d: "hashtab_abs (table (p_users p)) u = Some ud"
    "hashtab_abs (table (p_roles p)) r = Some rd" "hashtab_abs (table (p_types p)) t = Some td"
    by (cases "hashtab_abs (table (p_users p)) u"; cases "hashtab_abs (table (p_roles p)) r"; cases "hashtab_abs (table (p_types p)) t")
      (simp_all add: context_from_record_def sepol_context_get_user_def sepol_context_get_role_def sepol_context_get_type_def
        sepol_context_get_mls_def search bindE_eq_Inr)
  let ?c = "context_init\<lparr>c_user := ud_value ud, c_role := rd_value rd, c_type := td_value td\<rparr>"
  from assms(4) n d have "td_flavor td \<noteq> TYPE_ATTRIB" "con_mls con \<noteq> None \<longleftrightarrow> p_mls p" "context_is_valid p c = Inr True"
    "(case con_mls con of None \<Rightarrow> c = ?c | Some m \<Rightarrow> \<exists>a b. mls_from_string p m ?c a = (Inr c, b))"
    by (auto simp: context_from_record_def sepol_context_get_user_def sepol_context_get_role_def sepol_context_get_type_def
        sepol_context_get_mls_def search bindE_eq_Inr Let_def split: if_splits option.splits)
  with n d show ?thesis using mls_from_string_keeps [of p _ ?c] by (fastforce split: option.splits)
qed

text \<open>Names are C strings without colons, and the value tables invert the symbol tables.\<close>

definition plain_name :: "string \<Rightarrow> bool" where
  "plain_name n \<longleftrightarrow> CHR '':'' \<notin> set n \<and> CHR 0x00 \<notin> set n"

definition names_ok :: "policydb \<Rightarrow> bool" where
  "names_ok p \<longleftrightarrow> hashtab_ok (table (p_users p)) \<and> hashtab_ok (table (p_roles p)) \<and> hashtab_ok (table (p_types p))
     \<and> (\<forall>v n. val_deref (p_user_val_to_name p) v = Inr n \<longrightarrow> plain_name n
          \<and> (\<exists>d. hashtab_abs (table (p_users p)) n = Some d \<and> ud_value d = v))
     \<and> (\<forall>v n. val_deref (p_role_val_to_name p) v = Inr n \<longrightarrow> plain_name n
          \<and> (\<exists>d. hashtab_abs (table (p_roles p)) n = Some d \<and> rd_value d = v))
     \<and> (\<forall>v n. val_deref (p_type_val_to_name p) v = Inr n \<longrightarrow> plain_name n
          \<and> (\<exists>d. hashtab_abs (table (p_types p)) n = Some d \<and> td_value d = v \<and> td_flavor d \<noteq> TYPE_ATTRIB))
     \<and> val_total (p_user_val_to_name p) (nprim (p_users p)) \<and> val_total (p_role_val_to_name p) (nprim (p_roles p))
     \<and> val_total (p_type_val_to_name p) (nprim (p_types p))"

lemma context_text_roundtrip_plain:
  assumes "names_ok p" "\<not> p_mls p" "context_is_valid p c = Inr True" "c_range c = mls_range_init"
  shows "returns (bindE (context_to_string p c) (\<lambda>(s, n). context_from_string p s)) (Inr c)"
proof -
  have v: "c_role c \<noteq> 0" "c_role c \<le> nprim (p_roles p)" "c_user c \<noteq> 0" "c_user c \<le> nprim (p_users p)"
    "c_type c \<noteq> 0" "c_type c \<le> nprim (p_types p)"
    using assms(3) by (auto simp: context_is_valid_def split: if_splits)
  obtain u r t where n: "val_deref (p_user_val_to_name p) (c_user c) = Inr u"
    "val_deref (p_role_val_to_name p) (c_role c) = Inr r" "val_deref (p_type_val_to_name p) (c_type c) = Inr t"
    using assms(1) v val_deref_total unfolding names_ok_def by metis
  obtain ud rd td where d: "hashtab_search (table (p_users p)) u = Inr (Some ud)" "ud_value ud = c_user c"
    "hashtab_search (table (p_roles p)) r = Inr (Some rd)" "rd_value rd = c_role c"
    "hashtab_search (table (p_types p)) t = Inr (Some td)" "td_value td = c_type c" "td_flavor td \<noteq> TYPE_ATTRIB"
    using assms(1) n unfolding names_ok_def by (metis hashtab_search_abs)
  have plain: "plain_name u" "plain_name r" "plain_name t"
    using assms(1) n unfolding names_ok_def by blast+
  let ?s = "context_text u r t None"
  have "CHR 0x00 \<notin> set ?s" using plain by (auto simp: plain_name_def context_text_def)
  then have tw: "takeWhile (\<lambda>ch. ch \<noteq> CHR 0x00) ?s = ?s" by (auto simp: takeWhile_eq_all_conv)
  have c: "context_init\<lparr>c_user := c_user c, c_role := c_role c, c_type := c_type c\<rparr> = c"
    using assms(4) by (simp add: context_init_def)
  have rec: "returns (context_from_record p (Some \<lparr>con_user = Some u, con_role = Some r, con_type = Some t, con_mls = None\<rparr>)) (Inr c)"
    unfolding context_from_record_def using d assms(2,3) c
    by (intro returns_failE_Inr) (simp_all add: sepol_context_get_user_def sepol_context_get_role_def
        sepol_context_get_type_def sepol_context_get_mls_def)
  have fs: "returns (sepol_context_from_string ?s)
      (Inr (Some \<lparr>con_user = Some u, con_role = Some r, con_type = Some t, con_mls = None\<rparr>))"
    using plain by (intro sepol_context_from_text_returns) (simp_all add: plain_name_def)
  have "returns (context_from_string p ?s) (Inr c)"
    unfolding context_from_string_def tw
    by (rule returns_bindE_Inr [OF returns_failE_malloc], rule returns_bindE_Inr [OF fs], rule rec)
  moreover have "returns (context_to_string p c) (Inr (?s, length ?s + 1))"
    using context_to_string_returns [OF n, of "[]"] assms(2) by (simp add: mls_sid_to_context_def context_text_def)
  ultimately show ?thesis by (auto intro: returns_bindE_Inr)
qed

section \<open>Properties\<close>


text \<open>Claim C27. On a well-formed policy \<open>context_is_valid\<close> does not fault and decides validity: defined user,
  role and type, a role that may have the type, a user who may have the role (unless it is the object
  role), and a valid range.\<close>

theorem context_validity_decided:
  assumes "mls_db_ok p" "rbac_db_ok p" "context_ok c"
  shows "context_is_valid p c = Inr (context_valid p c)"
  using assms by (rule context_is_valid_iff)

text \<open>Whatever the policy, the length that \<open>context_to_string\<close> computes is that of the text it writes
  plus one for the terminator: the buffer is never overrun. With all names defined it returns
  \<open>user:role:type\<close> followed by the range.\<close>

theorem context_to_string_exact:
  "(context_to_string p c a = (Inr (s, n), b) \<longrightarrow> n = length s + 1)
    \<and> (val_deref (p_user_val_to_name p) (c_user c) = Inr u \<and> val_deref (p_role_val_to_name p) (c_role c) = Inr r
        \<and> val_deref (p_type_val_to_name p) (c_type c) = Inr t \<and> mls_sid_to_context p c = Inr m \<longrightarrow>
       returns (context_to_string p c) (Inr (u @ '':'' @ r @ '':'' @ t @ m, length (u @ '':'' @ r @ '':'' @ t @ m) + 1)))"
  using context_to_string_fits [of p c a s n b] context_to_string_returns [of p c u r t m] by blast

text \<open>Claim C28. \<open>context_from_record\<close> accepts a record only if its names are those of a user, a role and a type
  (not an attribute) of the policy, a range is given exactly on an MLS policy, and the resulting
  context, which has the values of these names, is valid.\<close>

theorem context_from_record_checks:
  assumes "hashtab_ok (table (p_users p))" "hashtab_ok (table (p_roles p))" "hashtab_ok (table (p_types p))"
    "context_from_record p (Some con) a = (Inr c, b)"
  shows "\<exists>u r t ud rd td. con_user con = Some u \<and> con_role con = Some r \<and> con_type con = Some t
    \<and> hashtab_abs (table (p_users p)) u = Some ud \<and> hashtab_abs (table (p_roles p)) r = Some rd
    \<and> hashtab_abs (table (p_types p)) t = Some td \<and> td_flavor td \<noteq> TYPE_ATTRIB
    \<and> c_user c = ud_value ud \<and> c_role c = rd_value rd \<and> c_type c = td_value td
    \<and> (con_mls con \<noteq> None \<longleftrightarrow> p_mls p) \<and> context_is_valid p c = Inr True"
  using assms by (rule context_from_record_sound)

text \<open>The text \<open><<none>>\<close>, which the record parser turns into a null record, makes
  \<open>context_from_string\<close> dereference that null pointer.\<close>

lemma context_none_faults:
  "context_from_string p ''<<none>>'' [] = (Inl Fault, [])"
  by (simp add: context_from_string_def sepol_context_from_string_def context_from_record_def
      sepol_context_get_user_def bindE_def failE_def returnE_def throwE_def)

section \<open>Witnesses\<close>


lemma sample_rbac_ok: "rbac_db_ok sample_db"
  by (auto simp: rbac_db_ok_def sample_db_def val_total_def sample_sys_r_def sample_object_r_def sample_user_def bits_of_ok)

theorem context_validity_decided_witness:
  "context_is_valid sample_db (sample_context 2 1) = Inr (context_valid sample_db (sample_context 2 1))"
  by (rule context_validity_decided [OF sample_mls_ok sample_rbac_ok sample_levels_ok(4)])

definition plain_db :: policydb where
  "plain_db = sample_db\<lparr>p_mls := False\<rparr>"

definition plain_context :: context_struct where
  "plain_context = \<lparr>c_user = 1, c_role = 2, c_type = 3, c_range = mls_range_init\<rparr>"

lemma plain_db_valid: "context_is_valid plain_db plain_context = Inr True" "\<not> p_mls plain_db"
  by code_simp+

theorem context_to_string_exact_witness:
  "returns (context_to_string plain_db plain_context) (Inr (''user_u:sys_r:shell_t'', 21))"
proof -
  have "val_deref (p_user_val_to_name plain_db) 1 = Inr ''user_u''" "val_deref (p_role_val_to_name plain_db) 2 = Inr ''sys_r''"
    "val_deref (p_type_val_to_name plain_db) 3 = Inr ''shell_t''" "mls_sid_to_context plain_db plain_context = Inr []"
    by code_simp+
  then show ?thesis
    using context_to_string_exact [of plain_db plain_context _ _ _ _ "''user_u''" "''sys_r''" "''shell_t''" "[]"]
    by (simp add: plain_context_def eval_nat_numeral)
qed

lemma val_deref_Cons:
  "val_deref (x # xs) v = Inr n \<longleftrightarrow> v = 1 \<and> x = Some n \<or> v \<noteq> 1 \<and> val_deref xs (v - 1) = Inr n"
proof (cases "v = 1")
  case False
  then have nz: "v - 1 \<noteq> 0" by simp
  have "0 < unat (v - 1)" using nz by (simp add: unat_gt_0)
  then have "unat (v - 1) = Suc (unat (v - 1 - 1))" using unat_minus_one [OF nz] by linarith
  then show ?thesis using False by (auto simp: val_deref_def val_get_def array_get_def)
qed (auto simp: val_deref_def val_get_def deref_def split: option.splits)

lemma val_deref_Nil: "val_deref [] v \<noteq> Inr n"
  by (simp add: val_deref_def val_get_def array_get_def)

lemma plain_db_names: "names_ok plain_db"
  by (simp add: names_ok_def plain_db_def)
    (auto simp: sample_db_def val_deref_Cons val_deref_Nil diff_eq_eq plain_name_def val_total_def sample_user_def sample_sys_r_def
      sample_object_r_def sample_type_def)

theorem context_from_record_checks_witness:
  "\<exists>c. context_from_record plain_db (Some \<lparr>con_user = Some ''user_u'', con_role = Some ''sys_r'', con_type = Some ''shell_t'', con_mls = None\<rparr>) []
      = (Inr c, []) \<and> context_is_valid plain_db c = Inr True"
proof -
  have c: "context_from_record plain_db (Some \<lparr>con_user = Some ''user_u'', con_role = Some ''sys_r'', con_type = Some ''shell_t'', con_mls = None\<rparr>) []
      = (Inr plain_context, [])" by code_simp
  have "hashtab_ok (table (p_users plain_db))" "hashtab_ok (table (p_roles plain_db))" "hashtab_ok (table (p_types plain_db))"
    by (simp_all add: plain_db_def)
  from context_from_record_checks [OF this c] c show ?thesis by blast
qed

end
