(* ===== verification/Conditional.thy ===== *)
theory Conditional
  imports Policydb
begin

text \<open>
  Conditional policy (conditional.c): Boolean expressions in reverse Polish notation, the rules they
  switch on and off and their normal form; the conditional section of an image is in \<open>Rules_Image\<close>.
  The evaluation stack is a list with its top first; the list entry at the bottom is the \<open>s[0]\<close>
  that the C function returns. Rules are nodes of \<open>te_cond_avtab\<close>, named by their addresses.
  The avrule lists of policy modules are not modelled.
\<close>

unbundle bit_operations_syntax

section \<open>Evaluation\<close>

abbreviation "COND_EXPR_MAXDEPTH \<equiv> 10 :: nat"
abbreviation "COND_MAX_BOOLS \<equiv> 5 :: u32"

definition c_bool :: "bool \<Rightarrow> int" where
  "c_bool b = (if b then 1 else 0)"

text \<open>One operator on the stack: \<open>None\<close> is the \<open>return -1\<close> of the C code.\<close>

definition eval_step :: "cond_bool_datum option list \<Rightarrow> cond_expr \<Rightarrow> int list \<Rightarrow> int list option res" where
  "eval_step bools cur s = (case cx_type cur of
     COND_BOOL \<Rightarrow>
       if length s = COND_EXPR_MAXDEPTH then Inr None
       else bindR (val_deref bools (cx_bool cur)) (\<lambda>b. Inr (Some (cbd_state b # s)))
   | COND_NOT \<Rightarrow> (case s of x # r \<Rightarrow> Inr (Some (c_bool (x = 0) # r)) | _ \<Rightarrow> Inr None)
   | COND_OR \<Rightarrow> (case s of y # x # r \<Rightarrow> Inr (Some ((x OR y) # r)) | _ \<Rightarrow> Inr None)
   | COND_AND \<Rightarrow> (case s of y # x # r \<Rightarrow> Inr (Some ((x AND y) # r)) | _ \<Rightarrow> Inr None)
   | COND_XOR \<Rightarrow> (case s of y # x # r \<Rightarrow> Inr (Some ((x XOR y) # r)) | _ \<Rightarrow> Inr None)
   | COND_EQ \<Rightarrow> (case s of y # x # r \<Rightarrow> Inr (Some (c_bool (x = y) # r)) | _ \<Rightarrow> Inr None)
   | COND_NEQ \<Rightarrow> (case s of y # x # r \<Rightarrow> Inr (Some (c_bool (x \<noteq> y) # r)) | _ \<Rightarrow> Inr None)
   | COND_OTHER _ \<Rightarrow> Inr None)"

fun eval_loop :: "cond_bool_datum option list \<Rightarrow> cond_expr list \<Rightarrow> int list \<Rightarrow> int res" where
  "eval_loop bools [] s = Inr (if s = [] then -1 else last s)"
| "eval_loop bools (cur # e) s = bindR (eval_step bools cur s) (\<lambda>r. case r of
     None \<Rightarrow> Inr (-1) | Some s' \<Rightarrow> eval_loop bools e s')"

definition cond_evaluate_expr :: "policydb \<Rightarrow> cond_expr list \<Rightarrow> int res" where
  "cond_evaluate_expr p expr = eval_loop (bool_val_to_struct p) expr []"

fun cond_copy_expr :: "cond_expr list \<Rightarrow> cond_expr list alloc_m" where
  "cond_copy_expr [] = returnE []"
| "cond_copy_expr (cur # e) = bindE malloc (\<lambda>_. bindE (cond_copy_expr e) (\<lambda>r.
     returnE (\<lparr>cx_type = cx_type cur, cx_bool = cx_bool cur\<rparr> # r)))"

section \<open>Reordering the rule lists\<close>

text \<open>\<open>cond_optimize\<close> moves every rule with a type to the front as it meets it; \<open>top\<close> is the front
  built so far in reverse order of meeting, \<open>kept\<close> the rules passed over. The first rule stays the
  first of its part.\<close>

fun optimize_loop :: "(nat \<Rightarrow> bool) \<Rightarrow> nat list \<Rightarrow> nat list \<Rightarrow> nat list \<Rightarrow> nat list" where
  "optimize_loop is_type front kept [] = front @ rev kept"
| "optimize_loop is_type front kept (cur # l) =
     (if is_type cur \<and> (front \<noteq> [] \<or> kept \<noteq> []) then optimize_loop is_type (cur # front) kept l
      else optimize_loop is_type front (cur # kept) l)"

definition av_specified :: "avtab \<Rightarrow> nat \<Rightarrow> u16 option" where
  "av_specified h a = map_option (\<lambda>n. specified (av_key n))
     (find (\<lambda>n. av_addr n = a) (av_entries h))"

definition is_type_rule :: "avtab \<Rightarrow> nat \<Rightarrow> bool" where
  "is_type_rule h a = (case av_specified h a of None \<Rightarrow> False | Some s \<Rightarrow> s AND AVTAB_TYPE \<noteq> 0)"

definition cond_optimize :: "avtab \<Rightarrow> nat list \<Rightarrow> nat list" where
  "cond_optimize h l = optimize_loop (is_type_rule h) [] [] l"

definition cond_optimize_lists :: "avtab \<Rightarrow> cond_node list \<Rightarrow> cond_node list" where
  "cond_optimize_lists h cl = map (\<lambda>n. n\<lparr>true_list := cond_optimize h (true_list n),
     false_list := cond_optimize h (false_list n)\<rparr>) cl"

section \<open>Comparing conditionals\<close>

definition bool_present :: "u32 \<Rightarrow> u32 list \<Rightarrow> u32 \<Rightarrow> bool" where
  "bool_present target bools num_bools =
     (if num_bools > COND_MAX_BOOLS then False else target \<in> set (take (unat num_bools) bools))"

definition same_bools :: "cond_node \<Rightarrow> cond_node \<Rightarrow> bool" where
  "same_bools a b = (let x = nbools a in
     if x \<noteq> nbools b then False
     else list_all (\<lambda>v. bool_present v (bool_ids b) x) (take (unat x) (bool_ids a)))"

fun expr_lists_equal :: "cond_expr list \<Rightarrow> cond_expr list \<Rightarrow> bool" where
  "expr_lists_equal [] [] = True"
| "expr_lists_equal (a # as) (b # bs) =
     (if cx_type a \<noteq> cx_type b then False
      else if cx_type a = COND_BOOL \<and> cx_bool a \<noteq> cx_bool b then False
      else expr_lists_equal as bs)"
| "expr_lists_equal _ _ = False"

definition cond_expr_equal :: "cond_node \<Rightarrow> cond_node \<Rightarrow> bool" where
  "cond_expr_equal a b =
     (if nbools a \<noteq> nbools b then False
      else if nbools a \<le> COND_MAX_BOOLS \<and> nbools b \<le> COND_MAX_BOOLS then
        if \<not> same_bools a b then False else expr_pre_comp a = expr_pre_comp b
      else expr_lists_equal (cn_cond_expr a) (cn_cond_expr b))"

definition empty_cond_node :: cond_node where
  "empty_cond_node = \<lparr>cur_state = 0, cn_cond_expr = [], true_list = [], false_list = [], nbools = 0,
     bool_ids = replicate 5 0, expr_pre_comp = 0, cn_flags = 0\<rparr>"

text \<open>An empty expression is copied to a null pointer, which counts as a failed allocation.\<close>

definition cond_node_create :: "policydb \<Rightarrow> cond_node option \<Rightarrow> cond_node alloc_m" where
  "cond_node_create p nd = bindE malloc (\<lambda>_. case nd of
     None \<Rightarrow> returnE empty_cond_node
   | Some n \<Rightarrow> bindE (cond_copy_expr (cn_cond_expr n)) (\<lambda>e.
       if e = [] then throwE ENOMEM
       else bindE (liftE (cond_evaluate_expr p e)) (\<lambda>st.
         returnE (empty_cond_node\<lparr>cur_state := st, cn_cond_expr := e, nbools := nbools n,
           bool_ids := take (min (unat (nbools n)) 5) (bool_ids n) @ drop (min (unat (nbools n)) 5) (replicate 5 0),
           expr_pre_comp := expr_pre_comp n, cn_flags := cn_flags n\<rparr>))))"

text \<open>The result is the node and whether it was created.\<close>

fun cond_node_find :: "policydb \<Rightarrow> cond_node \<Rightarrow> cond_node list \<Rightarrow> (cond_node \<times> bool) alloc_m" where
  "cond_node_find p needle [] = bindE (cond_node_create p (Some needle)) (\<lambda>n. returnE (n, True))"
| "cond_node_find p needle (h # hs) =
     (if cond_expr_equal needle h then returnE (h, False) else cond_node_find p needle hs)"

definition cond_node_search :: "policydb \<Rightarrow> cond_node list \<Rightarrow> cond_node \<Rightarrow> (policydb \<times> cond_node) alloc_m" where
  "cond_node_search p list cn = bindE (cond_node_find p cn list) (\<lambda>(result, was_created).
     if was_created then returnE (p\<lparr>cond_list := result # cond_list p\<rparr>, result) else returnE (p, result))"

section \<open>Switching rules\<close>

definition set_enabled :: "bool \<Rightarrow> nat \<Rightarrow> avtab \<Rightarrow> avtab" where
  "set_enabled on a = avtab_update_node a (\<lambda>n. n\<lparr>av_key := (av_key n)\<lparr>specified :=
     (if on then specified (av_key n) OR AVTAB_ENABLED else specified (av_key n) AND NOT AVTAB_ENABLED)\<rparr>\<rparr>)"

definition evaluate_cond_node :: "policydb \<Rightarrow> cond_node \<Rightarrow> avtab \<Rightarrow> (cond_node \<times> avtab) res" where
  "evaluate_cond_node p cn h = bindR (cond_evaluate_expr p (cn_cond_expr cn)) (\<lambda>new_state.
     if new_state \<noteq> cur_state cn then
       Inr (cn\<lparr>cur_state := new_state\<rparr>,
            fold (set_enabled (new_state = 0)) (false_list cn)
              (fold (set_enabled (new_state > 0)) (true_list cn) h))
     else Inr (cn, h))"

fun evaluate_nodes :: "policydb \<Rightarrow> cond_node list \<Rightarrow> avtab \<Rightarrow> (cond_node list \<times> avtab) res" where
  "evaluate_nodes p [] h = Inr ([], h)"
| "evaluate_nodes p (cur # ns) h = bindR (evaluate_cond_node p cur h) (\<lambda>(cur', h1).
     bindR (evaluate_nodes p ns h1) (\<lambda>(ns', h2). Inr (cur' # ns', h2)))"

definition evaluate_conds :: "policydb \<Rightarrow> policydb res" where
  "evaluate_conds p = bindR (evaluate_nodes p (cond_list p) (te_cond_avtab p)) (\<lambda>(ns, h).
     Inr (p\<lparr>cond_list := ns, te_cond_avtab := h\<rparr>))"

section \<open>Normal form\<close>

definition set_bool_state :: "u32 \<Rightarrow> int \<Rightarrow> cond_bool_datum option list \<Rightarrow> cond_bool_datum option list res" where
  "set_bool_state v st bools = bindR (val_deref bools v) (\<lambda>b.
     Inr (bools[unat (v - 1) := Some (b\<lparr>cbd_state := st\<rparr>)]))"

text \<open>Collect the Booleans of an expression: the first five are recorded, all are counted.\<close>

fun collect_bools :: "cond_expr list \<Rightarrow> u32 list \<times> u32 \<Rightarrow> u32 list \<times> u32" where
  "collect_bools [] s = s"
| "collect_bools (e # es) (ids, n) =
     (if cx_type e = COND_BOOL \<and> \<not> bool_present (cx_bool e) ids n then
        if n < COND_MAX_BOOLS then collect_bools es (ids[unat n := cx_bool e], n + 1)
        else collect_bools es (ids, n + 1)
      else collect_bools es (ids, n))"

definition set_test_bools ::
  "u32 list \<Rightarrow> nat \<Rightarrow> cond_bool_datum option list \<Rightarrow> cond_bool_datum option list res"
where
  "set_test_bools ids test bools = foldR (\<lambda>j b. set_bool_state (ids ! j) (c_bool (bit test j)) b)
     [0..<length ids] bools"

text \<open>The loop over all assignments; the Boolean in the result says whether it ran to the end.\<close>

fun precompute_loop ::
  "cond_expr list \<Rightarrow> u32 list \<Rightarrow> nat list \<Rightarrow> cond_bool_datum option list \<times> u32
     \<Rightarrow> (bool \<times> cond_bool_datum option list \<times> u32) res"
where
  "precompute_loop e ids [] (bools, pre) = Inr (True, bools, pre)"
| "precompute_loop e ids (test # ts) (bools, pre) =
     bindR (set_test_bools ids test bools) (\<lambda>bools1.
     bindR (eval_loop bools1 e []) (\<lambda>k.
       if k = -1 then Inr (False, bools1, pre)
       else precompute_loop e ids ts (bools1, if k \<noteq> 0 then pre OR push_bit test 1 else pre)))"

text \<open>The first component of the result is the return code. When the expression is undefined for some
  assignment the function returns without restoring the states it has set.\<close>

definition cond_normalize_expr :: "policydb \<Rightarrow> cond_node \<Rightarrow> (int \<times> policydb \<times> cond_node) res" where
  "cond_normalize_expr p cn0 =
     (let cn = cn0\<lparr>nbools := 0, bool_ids := replicate 5 0, expr_pre_comp := 0\<rparr> in
      if cn_cond_expr cn = [] then Inl Fault
      else if cx_type (last (cn_cond_expr cn)) = COND_NOT \<and> length (cn_cond_expr cn) = 1 then Inr (-1, p, cn)
      else
        let cn1 = (if cx_type (last (cn_cond_expr cn)) = COND_NOT
                   then cn\<lparr>cn_cond_expr := butlast (cn_cond_expr cn), true_list := false_list cn,
                           false_list := true_list cn\<rparr> else cn);
            (ids, n) = collect_bools (cn_cond_expr cn1) (bool_ids cn1, nbools cn1);
            cn2 = cn1\<lparr>bool_ids := ids, nbools := n\<rparr> in
        if n \<le> COND_MAX_BOOLS then
          let used = take (unat n) ids in
          bindR (foldR (\<lambda>v os. bindR (val_deref (bool_val_to_struct p) v) (\<lambda>b. Inr (os @ [cbd_state b]))) used [])
            (\<lambda>orig_value.
          bindR (precompute_loop (cn_cond_expr cn2) used [0..<2 ^ unat n] (bool_val_to_struct p, 0))
            (\<lambda>(complete, bools, pre).
              let cn3 = cn2\<lparr>expr_pre_comp := pre\<rparr> in
              if \<not> complete then Inr (-1, p\<lparr>bool_val_to_struct := bools\<rparr>, cn3)
              else bindR (foldR (\<lambda>(v, st) b. set_bool_state v st b) (zip used orig_value) bools) (\<lambda>bools'.
                Inr (0, p\<lparr>bool_val_to_struct := bools'\<rparr>, cn3))))
        else Inr (0, p, cn2))"

section \<open>Life cycle and indexes\<close>

definition cond_policydb_init :: "policydb \<Rightarrow> policydb" where
  "cond_policydb_init p = p\<lparr>bool_val_to_struct := [], cond_list := [], te_cond_avtab := avtab_init (te_cond_avtab p)\<rparr>"

definition cond_policydb_destroy :: "policydb \<Rightarrow> policydb" where
  "cond_policydb_destroy p = p\<lparr>bool_val_to_struct := [], te_cond_avtab := avtab_destroy (te_cond_avtab p), cond_list := []\<rparr>"

text \<open>The entries are not initialised: reading one before it is indexed is a fault.\<close>

definition cond_init_bool_indexes :: "policydb \<Rightarrow> policydb alloc_m" where
  "cond_init_bool_indexes p = bindE (failE malloc STATUS_ERR) (\<lambda>_.
     returnE (p\<lparr>bool_val_to_struct := replicate (unat (nprim (p_bools p))) None\<rparr>))"

definition cond_index_bool :: "string \<Rightarrow> cond_bool_datum \<Rightarrow> policydb \<Rightarrow> policydb res" where
  "cond_index_bool key booldatum p =
     (if cbd_value booldatum = 0 \<or> cbd_value booldatum > nprim (p_bools p) then Inl EINVAL
      else let i = unat (cbd_value booldatum - 1) in
        if i < length (p_bool_val_to_name p) \<and> i < length (bool_val_to_struct p)
        then Inr (p\<lparr>p_bool_val_to_name := (p_bool_val_to_name p)[i := Some key],
                    bool_val_to_struct := (bool_val_to_struct p)[i := Some booldatum]\<rparr>)
        else Inl Fault)"

section \<open>Booleans and names\<close>

definition bool_isvalid :: "cond_bool_datum \<Rightarrow> bool" where
  "bool_isvalid b \<longleftrightarrow> cbd_state b = 0 \<or> cbd_state b = 1"

definition bytes_to_string :: "u8 list \<Rightarrow> string" where
  "bytes_to_string bs = map (\<lambda>b. char_of (unat b)) (takeWhile (\<lambda>b. b \<noteq> 0) bs)"

section \<open>Access vectors of conditional rules\<close>

definition enabled_as :: "u16 \<Rightarrow> avtab_node \<Rightarrow> bool" where
  "enabled_as what n \<longleftrightarrow> specified (av_key n) AND (what OR AVTAB_ENABLED) = what OR AVTAB_ENABLED"

definition cond_av_step :: "avtab_node \<Rightarrow> av_decision \<Rightarrow> av_decision" where
  "cond_av_step n avd =
     (let avd1 = (if enabled_as AVTAB_ALLOWED n then avd\<lparr>allowed := allowed avd OR av_data n\<rparr> else avd);
          avd2 = (if enabled_as AVTAB_AUDITDENY n then avd1\<lparr>auditdeny := auditdeny avd1 AND av_data n\<rparr> else avd1) in
      if enabled_as AVTAB_AUDITALLOW n then avd2\<lparr>auditallow := auditallow avd2 OR av_data n\<rparr> else avd2)"

definition cond_compute_av :: "avtab \<Rightarrow> avtab_key \<Rightarrow> av_decision \<Rightarrow> av_decision res" where
  "cond_compute_av ctab key avd = bindR (avtab_each_node ctab key) (\<lambda>ns. Inr (fold cond_av_step ns avd))"

definition cond_av_list_search :: "avtab \<Rightarrow> avtab_key \<Rightarrow> nat list \<Rightarrow> u32 option" where
  "cond_av_list_search h key l = map_option av_data
     (find (\<lambda>n. source_type (av_key n) = source_type key \<and> target_type (av_key n) = target_type key
         \<and> target_class (av_key n) = target_class key)
       (List.map_filter (\<lambda>a. find (\<lambda>n. av_addr n = a) (av_entries h)) l))"

section \<open>Evaluation computes the truth value\<close>

text \<open>The expressions of the policy language, their truth value, their reverse Polish form and the
  number of stack cells the evaluation needs.\<close>

datatype bool_op = Op_OR | Op_AND | Op_XOR | Op_EQ | Op_NEQ

datatype bexp = BVar u32 | BNot bexp | BBin bool_op bexp bexp

primrec op_kind :: "bool_op \<Rightarrow> cond_kind" where
  "op_kind Op_OR = COND_OR" | "op_kind Op_AND = COND_AND" | "op_kind Op_XOR = COND_XOR"
| "op_kind Op_EQ = COND_EQ" | "op_kind Op_NEQ = COND_NEQ"

primrec op_val :: "bool_op \<Rightarrow> bool \<Rightarrow> bool \<Rightarrow> bool" where
  "op_val Op_OR x y = (x \<or> y)" | "op_val Op_AND x y = (x \<and> y)" | "op_val Op_XOR x y = (x \<noteq> y)"
| "op_val Op_EQ x y = (x = y)" | "op_val Op_NEQ x y = (x \<noteq> y)"

primrec bval :: "(u32 \<Rightarrow> bool) \<Rightarrow> bexp \<Rightarrow> bool" where
  "bval st (BVar v) = st v"
| "bval st (BNot e) = (\<not> bval st e)"
| "bval st (BBin f a b) = op_val f (bval st a) (bval st b)"

primrec bvars :: "bexp \<Rightarrow> u32 set" where
  "bvars (BVar v) = {v}"
| "bvars (BNot e) = bvars e"
| "bvars (BBin f a b) = bvars a \<union> bvars b"

primrec rpn :: "bexp \<Rightarrow> cond_expr list" where
  "rpn (BVar v) = [\<lparr>cx_type = COND_BOOL, cx_bool = v\<rparr>]"
| "rpn (BNot e) = rpn e @ [\<lparr>cx_type = COND_NOT, cx_bool = 0\<rparr>]"
| "rpn (BBin f a b) = rpn a @ rpn b @ [\<lparr>cx_type = op_kind f, cx_bool = 0\<rparr>]"

primrec stack_need :: "bexp \<Rightarrow> nat" where
  "stack_need (BVar v) = 1"
| "stack_need (BNot e) = stack_need e"
| "stack_need (BBin f a b) = max (stack_need a) (Suc (stack_need b))"

definition state_of :: "cond_bool_datum option list \<Rightarrow> u32 \<Rightarrow> bool" where
  "state_of bools v = (case val_deref bools v of Inr b \<Rightarrow> cbd_state b \<noteq> 0 | Inl _ \<Rightarrow> False)"

definition bool_defined :: "cond_bool_datum option list \<Rightarrow> u32 \<Rightarrow> bool" where
  "bool_defined bools v = (case val_deref bools v of Inr b \<Rightarrow> bool_isvalid b | Inl _ \<Rightarrow> False)"

lemma bool_definedD:
  assumes "bool_defined bools v"
  obtains b where "val_deref bools v = Inr b" "cbd_state b = c_bool (state_of bools v)"
  using assms by (auto simp: bool_defined_def state_of_def bool_isvalid_def c_bool_def split: sum.splits)

lemma c_bool_bits [simp]:
  "c_bool x OR c_bool y = c_bool (x \<or> y)" "c_bool x AND c_bool y = c_bool (x \<and> y)"
  "c_bool x XOR c_bool y = c_bool (x \<noteq> y)"
  by (simp_all add: c_bool_def)

lemma c_bool_eq [simp]:
  "(c_bool x = c_bool y) = (x = y)" "(c_bool x = 0) = (\<not> x)" "(c_bool x = 1) = x" "c_bool x \<noteq> -1"
  by (simp_all add: c_bool_def)

lemma eval_step_op:
  "eval_step bools \<lparr>cx_type = op_kind f, cx_bool = w\<rparr> (c_bool y # c_bool x # s)
     = Inr (Some (c_bool (op_val f x y) # s))"
  by (cases f) (simp_all add: eval_step_def)

lemma stack_need_pos: "Suc 0 \<le> stack_need e"
  by (induction e) auto

lemma eval_loop_rpn:
  assumes "\<forall>v\<in>bvars e. bool_defined bools v" and "length s \<le> COND_EXPR_MAXDEPTH"
  shows "eval_loop bools (rpn e @ k) s =
    (if length s + stack_need e \<le> COND_EXPR_MAXDEPTH
     then eval_loop bools k (c_bool (bval (state_of bools) e) # s) else Inr (-1))"
  using assms
proof (induction e arbitrary: k s)
  case (BVar v)
  then obtain b where "val_deref bools v = Inr b" "cbd_state b = c_bool (state_of bools v)"
    by (auto elim: bool_definedD)
  then show ?case
    using BVar.prems by (auto simp: eval_step_def)
next
  case (BNot e)
  then show ?case
    by (auto simp: eval_step_def)
next
  case (BBin f a b)
  then show ?case
    using stack_need_pos [of a] by (auto simp: eval_step_op)
qed

lemma cond_evaluate_rpn:
  assumes "\<forall>v\<in>bvars e. bool_defined (bool_val_to_struct p) v"
  shows "cond_evaluate_expr p (rpn e) =
    Inr (if stack_need e \<le> COND_EXPR_MAXDEPTH then c_bool (bval (state_of (bool_val_to_struct p)) e) else -1)"
  using eval_loop_rpn [OF assms, of "[]" "[]"] by (simp add: cond_evaluate_expr_def)

text \<open>Any list of operators, well formed or not: the value is true, false or undefined.\<close>

definition expr_defined :: "cond_bool_datum option list \<Rightarrow> cond_expr list \<Rightarrow> bool" where
  "expr_defined bools es \<longleftrightarrow> (\<forall>x\<in>set es. cx_type x = COND_BOOL \<longrightarrow> bool_defined bools (cx_bool x))"

abbreviation truth_cells :: "int list \<Rightarrow> bool" where
  "truth_cells s \<equiv> \<forall>x\<in>set s. x = 0 \<or> x = 1"

lemma bit_ops_01:
  "(x::int) = 0 \<or> x = 1 \<Longrightarrow> y = 0 \<or> y = 1 \<Longrightarrow> x OR y = 0 \<or> x OR y = 1"
  "(x::int) = 0 \<or> x = 1 \<Longrightarrow> y = 0 \<or> y = 1 \<Longrightarrow> x AND y = 0 \<or> x AND y = 1"
  "(x::int) = 0 \<or> x = 1 \<Longrightarrow> y = 0 \<or> y = 1 \<Longrightarrow> x XOR y = 0 \<or> x XOR y = 1"
  by auto

lemma eval_step_total:
  assumes "cx_type c = COND_BOOL \<longrightarrow> bool_defined bools (cx_bool c)" "truth_cells s"
  shows "\<exists>r. eval_step bools c s = Inr r \<and> (\<forall>s'. r = Some s' \<longrightarrow> truth_cells s')"
proof (cases "cx_type c = COND_BOOL")
  case True
  then obtain b where "val_deref bools (cx_bool c) = Inr b" "cbd_state b = c_bool (state_of bools (cx_bool c))"
    using assms(1) by (auto elim: bool_definedD)
  with True assms(2) show ?thesis
    by (auto simp: eval_step_def c_bool_def)
next
  case False
  with assms(2) show ?thesis
    by (cases "cx_type c") (auto simp: eval_step_def c_bool_def bit_ops_01 split: list.split)
qed

lemma eval_loop_total:
  assumes "expr_defined bools es" "truth_cells s"
  shows "\<exists>k. eval_loop bools es s = Inr k \<and> (k = -1 \<or> k = 0 \<or> k = 1)"
  using assms
proof (induction es arbitrary: s)
  case Nil
  then show ?case
    by auto
next
  case (Cons c es)
  then have d: "cx_type c = COND_BOOL \<longrightarrow> bool_defined bools (cx_bool c)" "expr_defined bools es"
    by (auto simp: expr_defined_def)
  obtain r where r: "eval_step bools c s = Inr r" "\<forall>s'. r = Some s' \<longrightarrow> truth_cells s'"
    using eval_step_total [OF d(1) Cons.prems(2)] by blast
  then show ?case
    using Cons.IH [OF d(2)] by (cases r) auto
qed

section \<open>The order of the rule lists\<close>

lemma optimize_loop_eq:
  assumes "front \<noteq> [] \<or> kept \<noteq> [] \<or> l = []"
  shows "optimize_loop t front kept l = rev (filter t l) @ front @ rev kept @ filter (\<lambda>x. \<not> t x) l"
  using assms by (induction l arbitrary: front kept) auto

lemma cond_optimize_eq:
  "cond_optimize h l = rev (filter (is_type_rule h) l) @ filter (\<lambda>a. \<not> is_type_rule h a) l"
  by (cases l) (simp_all add: cond_optimize_def optimize_loop_eq)

section \<open>The rules follow the Booleans\<close>

definition node_enabled :: "avtab_node \<Rightarrow> bool" where
  "node_enabled n \<longleftrightarrow> specified (av_key n) AND AVTAB_ENABLED \<noteq> 0"

definition node_enable :: "bool \<Rightarrow> avtab_node \<Rightarrow> avtab_node" where
  "node_enable on n = n\<lparr>av_key := (av_key n)\<lparr>specified :=
     (if on then specified (av_key n) OR AVTAB_ENABLED else specified (av_key n) AND NOT AVTAB_ENABLED)\<rparr>\<rparr>"

text \<open>A rule without its enabled bit.\<close>

definition node_rule :: "avtab_node \<Rightarrow> nat \<times> avtab_key \<times> u32" where
  "node_rule n = (av_addr n, (av_key n)\<lparr>specified := spec_mask (specified (av_key n))\<rparr>, av_data n)"

definition cond_rules :: "cond_node \<Rightarrow> nat set" where
  "cond_rules c = set (true_list c) \<union> set (false_list c)"

text \<open>The switches of the rules of a conditional agree with its state.\<close>

definition node_in_sync :: "cond_node \<Rightarrow> avtab_node \<Rightarrow> bool" where
  "node_in_sync c n \<longleftrightarrow>
     (av_addr n \<in> set (true_list c) \<longrightarrow> node_enabled n = (cur_state c > 0))
   \<and> (av_addr n \<in> set (false_list c) \<longrightarrow> node_enabled n = (cur_state c = 0))"

definition in_sync :: "cond_node \<Rightarrow> avtab \<Rightarrow> bool" where
  "in_sync c h \<longleftrightarrow> list_all (node_in_sync c) (av_entries h)"

definition cond_lists_ok :: "cond_node list \<Rightarrow> bool" where
  "cond_lists_ok cl \<longleftrightarrow> distinct (concat (map (\<lambda>c. true_list c @ false_list c) cl))"

lemma node_enable_simps [simp]:
  "av_addr (node_enable on n) = av_addr n" "av_data (node_enable on n) = av_data n"
  "node_enabled (node_enable on n) = on" "node_rule (node_enable on n) = node_rule n"
proof -
  have bits: "spec_mask s AND AVTAB_ENABLED = 0" "(s OR AVTAB_ENABLED) AND AVTAB_ENABLED \<noteq> 0"
    "spec_mask (spec_mask s) = spec_mask s" "spec_mask (s OR AVTAB_ENABLED) = spec_mask s" for s
  proof -
    have "(s OR AVTAB_ENABLED) AND AVTAB_ENABLED = AVTAB_ENABLED"
      by (rule bit_word_eqI) (auto simp: bit_simps)
    then show "(s OR AVTAB_ENABLED) AND AVTAB_ENABLED \<noteq> 0" by simp
  qed (auto simp: spec_mask_def bit_simps intro: bit_word_eqI)
  show "av_addr (node_enable on n) = av_addr n" "av_data (node_enable on n) = av_data n"
    "node_enabled (node_enable on n) = on" "node_rule (node_enable on n) = node_rule n"
    unfolding node_enable_def node_enabled_def node_rule_def spec_mask_def [symmetric]
    by (simp_all add: bits)
qed

lemma av_entries_update:
  "av_entries (avtab_update_node a f h) = map (\<lambda>n. if av_addr n = a then f n else n) (av_entries h)"
  by (cases "av_htable h") (simp_all add: avtab_update_node_def av_entries_def map_concat)

lemma av_entries_set_enabled:
  "av_entries (fold (set_enabled on) l h)
     = map (\<lambda>n. if av_addr n \<in> set l then node_enable on n else n) (av_entries h)"
proof (induction l arbitrary: h)
  case (Cons a l)
  have "node_enable on (node_enable on n) = node_enable on n" for n
    by (simp add: node_enable_def or.assoc and.assoc)
  moreover have "av_entries (set_enabled on a h)
      = map (\<lambda>n. if av_addr n = a then node_enable on n else n) (av_entries h)"
    by (simp add: set_enabled_def av_entries_update node_enable_def)
  ultimately show ?case
    using Cons.IH [of "set_enabled on a h"] by auto
qed simp

text \<open>One conditional: its rules follow the new value, all other nodes stay as they are.\<close>

lemma evaluate_cond_node_sync:
  assumes "cond_evaluate_expr p (cn_cond_expr c) = Inr k" "in_sync c h"
    "set (true_list c) \<inter> set (false_list c) = {}"
  shows "\<exists>h'. evaluate_cond_node p c h = Inr (c\<lparr>cur_state := k\<rparr>, h') \<and> in_sync (c\<lparr>cur_state := k\<rparr>) h'
    \<and> list_all2 (\<lambda>n n'. node_rule n' = node_rule n \<and> (av_addr n \<notin> cond_rules c \<longrightarrow> n' = n))
        (av_entries h) (av_entries h')"
proof (cases "k = cur_state c")
  case True
  then have same: "c\<lparr>cur_state := k\<rparr> = c" by simp
  show ?thesis
    unfolding same using assms True
    by (intro exI [of _ h]) (simp add: evaluate_cond_node_def list_all2_same)
next
  case False
  let ?h = "fold (set_enabled (k = 0)) (false_list c) (fold (set_enabled (k > 0)) (true_list c) h)"
  have "evaluate_cond_node p c h = Inr (c\<lparr>cur_state := k\<rparr>, ?h)"
    using assms(1) False by (simp add: evaluate_cond_node_def)
  moreover have "in_sync (c\<lparr>cur_state := k\<rparr>) ?h"
    using assms(3) by (auto simp: in_sync_def node_in_sync_def av_entries_set_enabled list_all_iff)
  moreover have "list_all2 (\<lambda>n n'. node_rule n' = node_rule n \<and> (av_addr n \<notin> cond_rules c \<longrightarrow> n' = n))
        (av_entries h) (av_entries ?h)"
    by (auto simp: av_entries_set_enabled list_all2_conv_all_nth cond_rules_def)
  ultimately show ?thesis by blast
qed

text \<open>The state a conditional must have.\<close>

definition with_state :: "policydb \<Rightarrow> cond_node \<Rightarrow> cond_node" where
  "with_state p c = c\<lparr>cur_state := (case cond_evaluate_expr p (cn_cond_expr c) of Inr k \<Rightarrow> k | Inl _ \<Rightarrow> cur_state c)\<rparr>"

lemma node_in_sync_cong:
  "list_all2 (\<lambda>n n'. node_rule n' = node_rule n \<and> (av_addr n \<notin> R \<longrightarrow> n' = n)) ns ns'
    \<Longrightarrow> cond_rules c \<inter> R = {} \<Longrightarrow> list_all (node_in_sync c) ns \<Longrightarrow> list_all (node_in_sync c) ns'"
  by (induction rule: list_all2_induct)
    (auto simp: node_in_sync_def cond_rules_def node_rule_def)

lemma evaluate_nodes_sync:
  assumes "\<forall>c\<in>set cl. \<exists>k. cond_evaluate_expr p (cn_cond_expr c) = Inr k"
    "\<forall>c\<in>set cl. in_sync c h" "cond_lists_ok cl"
  shows "\<exists>h'. evaluate_nodes p cl h = Inr (map (with_state p) cl, h')
    \<and> (\<forall>c\<in>set cl. in_sync (with_state p c) h')
    \<and> list_all2 (\<lambda>n n'. node_rule n' = node_rule n \<and> (av_addr n \<notin> (\<Union>c\<in>set cl. cond_rules c) \<longrightarrow> n' = n))
        (av_entries h) (av_entries h')"
  using assms
proof (induction cl arbitrary: h)
  case Nil
  then show ?case by (simp add: list_all2_same)
next
  case (Cons c cl)
  obtain k where k: "cond_evaluate_expr p (cn_cond_expr c) = Inr k"
    using Cons.prems(1) by auto
  have ws: "with_state p c = c\<lparr>cur_state := k\<rparr>" by (simp add: with_state_def k)
  have dis: "set (true_list c) \<inter> set (false_list c) = {}" "cond_lists_ok cl"
    "\<forall>d\<in>set cl. cond_rules d \<inter> cond_rules c = {}"
    using Cons.prems(3) by (auto simp: cond_lists_ok_def cond_rules_def)
  obtain h1 where h1: "evaluate_cond_node p c h = Inr (with_state p c, h1)" "in_sync (with_state p c) h1"
    "list_all2 (\<lambda>n n'. node_rule n' = node_rule n \<and> (av_addr n \<notin> cond_rules c \<longrightarrow> n' = n)) (av_entries h) (av_entries h1)"
    using evaluate_cond_node_sync [OF k _ dis(1), of h] Cons.prems(2) ws by auto
  have "\<forall>d\<in>set cl. in_sync d h1"
    using Cons.prems(2) dis(3) node_in_sync_cong [OF h1(3)] by (auto simp: in_sync_def)
  then obtain h2 where h2: "evaluate_nodes p cl h1 = Inr (map (with_state p) cl, h2)"
    "\<forall>d\<in>set cl. in_sync (with_state p d) h2"
    "list_all2 (\<lambda>n n'. node_rule n' = node_rule n \<and> (av_addr n \<notin> (\<Union>d\<in>set cl. cond_rules d) \<longrightarrow> n' = n))
        (av_entries h1) (av_entries h2)"
    using Cons.IH [of h1] Cons.prems(1) dis(2) by auto
  have "cond_rules (with_state p c) \<inter> (\<Union>d\<in>set cl. cond_rules d) = {}"
    using dis(3) by (auto simp: with_state_def cond_rules_def)
  then have "in_sync (with_state p c) h2"
    using node_in_sync_cong [OF h2(3)] h1(2) by (auto simp: in_sync_def)
  moreover have "list_all2 (\<lambda>n n'. node_rule n' = node_rule n
      \<and> (av_addr n \<notin> (\<Union>d\<in>set (c # cl). cond_rules d) \<longrightarrow> n' = n)) (av_entries h) (av_entries h2)"
    by (rule list_all2_trans [OF _ h1(3) h2(3)]) (auto simp: node_rule_def)
  ultimately show ?case
    using h1(1) h2(1,2) by auto
qed

section \<open>The normal form tells the truth table\<close>

text \<open>Arrays that differ at most in the states of the Booleans \<open>ids\<close>.\<close>

definition same_but :: "u32 list \<Rightarrow> cond_bool_datum option list \<Rightarrow> cond_bool_datum option list \<Rightarrow> bool" where
  "same_but ids bools bools' \<longleftrightarrow> length bools' = length bools
     \<and> (\<forall>i<length bools. if i \<in> (\<lambda>v. unat (v - 1)) ` set ids
          then (\<exists>b st. bools ! i = Some b \<and> bools' ! i = Some (b\<lparr>cbd_state := st\<rparr>))
          else bools' ! i = bools ! i)"

lemma val_deref_iff: "val_deref t v = Inr b \<longleftrightarrow> unat (v - 1) < length t \<and> t ! unat (v - 1) = Some b"
  by (auto simp: val_deref_def val_get_def array_get_def deref_def bindR_eq_Inr split: option.splits)

lemma index_inj: "unat (v - 1 :: u32) = unat (w - 1) \<longleftrightarrow> v = w"
  using word_unat_eq_iff [of "v - 1" "w - 1"] by simp

lemma same_but_refl:
  assumes "\<forall>v\<in>set ids. bool_defined bools v"
  shows "same_but ids bools bools"
proof -
  have "\<exists>b st. bools ! unat (v - 1) = Some b \<and> bools ! unat (v - 1) = Some (b\<lparr>cbd_state := st\<rparr>)"
    if v: "v \<in> set ids" for v
  proof -
    have "bool_defined bools v" using assms v by simp
    then obtain b where "bools ! unat (v - 1) = Some b" by (auto elim: bool_definedD simp: val_deref_iff)
    then show ?thesis by (intro exI [of _ b] exI [of _ "cbd_state b"]) simp
  qed
  then show ?thesis
    by (auto simp: same_but_def)
qed

lemma set_bool_state_same_but:
  assumes "same_but ids bools bools'" "v \<in> set ids" "bool_defined bools v"
  shows "\<exists>bools''. set_bool_state v st bools' = Inr bools'' \<and> same_but ids bools bools''
    \<and> (\<forall>w b. val_deref bools' w = Inr b \<longrightarrow> val_deref bools'' w = Inr (if w = v then b\<lparr>cbd_state := st\<rparr> else b))"
proof -
  let ?i = "unat (v - 1)"
  obtain b0 where "val_deref bools v = Inr b0" using assms(3) by (auto elim: bool_definedD)
  then have i: "?i < length bools" "bools ! ?i = Some b0" by (simp_all add: val_deref_iff)
  then obtain st0 where b: "bools' ! ?i = Some (b0\<lparr>cbd_state := st0\<rparr>)"
    using assms(1,2) by (fastforce simp: same_but_def)
  have len: "length bools' = length bools" using assms(1) by (simp add: same_but_def)
  let ?b = "bools'[?i := Some (b0\<lparr>cbd_state := st\<rparr>)]"
  have "set_bool_state v st bools' = Inr ?b"
    using b i len by (simp add: set_bool_state_def val_deref_def val_get_def)
  moreover have "same_but ids bools ?b"
    using assms(1,2) i by (auto simp: same_but_def nth_list_update len)
  moreover have "\<forall>w b. val_deref bools' w = Inr b \<longrightarrow>
      val_deref ?b w = Inr (if w = v then b\<lparr>cbd_state := st\<rparr> else b)"
    using b i len by (auto simp: val_deref_iff nth_list_update index_inj)
  ultimately show ?thesis by blast
qed

lemma foldR_set_states:
  assumes "distinct (map fst vs)" "set (map fst vs) \<subseteq> set ids" "\<forall>v\<in>set ids. bool_defined bools v"
    "same_but ids bools bools'"
  shows "\<exists>bools''. foldR (\<lambda>(v, st) b. set_bool_state v st b) vs bools' = Inr bools'' \<and> same_but ids bools bools''
    \<and> (\<forall>w b. val_deref bools' w = Inr b \<longrightarrow> val_deref bools'' w
         = Inr (case map_of vs w of Some st \<Rightarrow> b\<lparr>cbd_state := st\<rparr> | None \<Rightarrow> b))"
  using assms
proof (induction vs arbitrary: bools')
  case (Cons x vs)
  obtain v st where x: "x = (v, st)" by (cases x)
  have v: "v \<in> set ids" "v \<notin> fst ` set vs" using Cons.prems(1,2) x by auto
  obtain b1 where b1: "set_bool_state v st bools' = Inr b1" "same_but ids bools b1"
    "\<forall>w b. val_deref bools' w = Inr b \<longrightarrow> val_deref b1 w = Inr (if w = v then b\<lparr>cbd_state := st\<rparr> else b)"
    using set_bool_state_same_but [OF Cons.prems(4) v(1)] Cons.prems(3) v(1) by blast
  obtain b2 where b2: "foldR (\<lambda>(v, st) b. set_bool_state v st b) vs b1 = Inr b2" "same_but ids bools b2"
    "\<forall>w b. val_deref b1 w = Inr b \<longrightarrow> val_deref b2 w
       = Inr (case map_of vs w of Some st \<Rightarrow> b\<lparr>cbd_state := st\<rparr> | None \<Rightarrow> b)"
    using Cons.IH [OF _ _ Cons.prems(3) b1(2)] Cons.prems(1,2) by auto
  have "map_of vs v = None" using v(2) by (simp add: map_of_eq_None_iff)
  then have "\<forall>w b. val_deref bools' w = Inr b \<longrightarrow> val_deref b2 w
       = Inr (case map_of (x # vs) w of Some st \<Rightarrow> b\<lparr>cbd_state := st\<rparr> | None \<Rightarrow> b)"
    using b1(3) b2(3) x by (auto split: option.splits)
  then show ?case
    using b1(1) b2(1,2) x by auto
qed simp

text \<open>The valuation that a test number stands for, and the number of a valuation.\<close>

definition test_val :: "u32 list \<Rightarrow> nat \<Rightarrow> u32 \<Rightarrow> bool" where
  "test_val ids t v \<longleftrightarrow> (\<exists>j<length ids. ids ! j = v \<and> bit t j)"

definition test_num :: "u32 list \<Rightarrow> (u32 \<Rightarrow> bool) \<Rightarrow> nat" where
  "test_num ids st = horner_sum of_bool 2 (map st ids)"

lemma test_num_less: "test_num ids st < 2 ^ length ids"
  using horner_sum_of_bool_2_less [of "map st ids", where ?'a = nat] by (simp add: test_num_def)

lemma test_val_num: "v \<in> set ids \<Longrightarrow> test_val ids (test_num ids st) v = st v"
  by (auto simp: test_val_def test_num_def bit_horner_sum_bit_iff in_set_conv_nth)

lemma bval_cong: "(\<And>v. v \<in> bvars e \<Longrightarrow> st v = st' v) \<Longrightarrow> bval st e = bval st' e"
  by (induction e) auto

lemma foldR_map: "foldR f (map g xs) s = foldR (\<lambda>x. f (g x)) xs s"
  by (induction xs arbitrary: s) (auto intro: bindR_cong)

lemma set_test_bools_states:
  assumes "distinct ids" "\<forall>v\<in>set ids. bool_defined bools v" "same_but ids bools bools'"
  shows "\<exists>bools''. set_test_bools ids t bools' = Inr bools'' \<and> same_but ids bools bools''
    \<and> (\<forall>v\<in>set ids. bool_defined bools'' v \<and> state_of bools'' v = test_val ids t v)"
proof -
  define vs where "vs = map (\<lambda>j. (ids ! j, c_bool (bit t j))) [0..<length ids]"
  have fst: "map fst vs = ids" by (simp add: vs_def comp_def map_nth)
  obtain b where b: "foldR (\<lambda>(v, st) b. set_bool_state v st b) vs bools' = Inr b" "same_but ids bools b"
    "\<And>w d. val_deref bools' w = Inr d \<Longrightarrow> val_deref b w
       = Inr (case map_of vs w of Some st \<Rightarrow> d\<lparr>cbd_state := st\<rparr> | None \<Rightarrow> d)"
    using foldR_set_states [of vs ids bools bools', unfolded fst, OF assms(1) order_refl assms(2,3)] by blast
  have st: "bool_defined b v \<and> state_of b v = test_val ids t v" if v: "v \<in> set ids" for v
  proof -
    obtain j where j: "j < length ids" "v = ids ! j" using v by (auto simp: in_set_conv_nth)
    have "map_of vs v = Some (c_bool (bit t j))"
      using assms(1) j fst by (intro map_of_is_SomeI) (auto simp: vs_def)
    moreover obtain d0 where "val_deref bools v = Inr d0"
      using assms(2) v by (auto elim: bool_definedD)
    then have "\<exists>d. val_deref bools' v = Inr d"
      using assms(3) v by (fastforce simp: same_but_def val_deref_iff)
    then obtain d where "val_deref bools' v = Inr d" ..
    moreover have "test_val ids t v = bit t j"
      using assms(1) j by (auto simp: test_val_def distinct_conv_nth)
    ultimately show ?thesis
      using b(3) [of v d] by (simp add: bool_defined_def state_of_def bool_isvalid_def)
  qed
  have "set_test_bools ids t bools' = Inr b"
    using b(1) by (simp add: set_test_bools_def vs_def foldR_map)
  with b(2) st show ?thesis by blast
qed

definition truth_word :: "u32 list \<Rightarrow> bexp \<Rightarrow> nat list \<Rightarrow> u32 \<Rightarrow> u32" where
  "truth_word ids e ts pre = fold (\<lambda>t w. if bval (test_val ids t) e then w OR push_bit t 1 else w) ts pre"

lemma precompute_loop_rpn:
  assumes "distinct ids" "\<forall>v\<in>set ids. bool_defined bools v" "bvars e \<subseteq> set ids"
    "stack_need e \<le> COND_EXPR_MAXDEPTH" "same_but ids bools bools'"
  shows "\<exists>bools''. precompute_loop (rpn e) ids ts (bools', pre) = Inr (True, bools'', truth_word ids e ts pre)
    \<and> same_but ids bools bools''"
  using assms(5)
proof (induction ts arbitrary: bools' pre)
  case Nil
  then show ?case by (simp add: truth_word_def)
next
  case (Cons t ts)
  obtain b where b: "set_test_bools ids t bools' = Inr b" "same_but ids bools b"
    "\<forall>v\<in>set ids. bool_defined b v \<and> state_of b v = test_val ids t v"
    using set_test_bools_states [OF assms(1,2) Cons.prems] by blast
  have "eval_loop b (rpn e) [] = Inr (c_bool (bval (state_of b) e))"
    using eval_loop_rpn [of e b "[]" "[]"] b(3) assms(3,4) by auto
  moreover have "bval (state_of b) e = bval (test_val ids t) e"
    using b(3) assms(3) by (intro bval_cong) auto
  ultimately show ?case
    using b(1) Cons.IH [OF b(2)] by (auto simp: truth_word_def)
qed

lemma bit_truth_word:
  assumes "n < 32"
  shows "bit (truth_word ids e ts pre) n \<longleftrightarrow> bit pre n \<or> n \<in> set ts \<and> bval (test_val ids n) e"
proof (induction ts arbitrary: pre)
  case (Cons t ts)
  have "bit (push_bit t 1 :: u32) n \<longleftrightarrow> n = t"
    using assms by (auto simp: bit_push_bit_iff bit_1_iff simp del: push_bit_of_1)
  then show ?case
    using Cons.IH by (auto simp: truth_word_def bit_or_iff simp del: push_bit_of_1)
qed (simp add: truth_word_def)

text \<open>The Booleans that the normalisation collects.\<close>

definition expr_vars :: "cond_expr list \<Rightarrow> u32 set" where
  "expr_vars es = cx_bool ` {x \<in> set es. cx_type x = COND_BOOL}"

definition collected :: "u32 set \<Rightarrow> u32 list \<times> u32 \<Rightarrow> bool" where
  "collected S = (\<lambda>(ids, n). length ids = 5 \<and> n \<le> COND_MAX_BOOLS \<and> distinct (take (unat n) ids)
     \<and> set (take (unat n) ids) = S)"

lemma expr_vars_simps [simp]:
  "expr_vars [] = {}"
  "expr_vars (x # es) = (if cx_type x = COND_BOOL then insert (cx_bool x) (expr_vars es) else expr_vars es)"
  "expr_vars (es @ fs) = expr_vars es \<union> expr_vars fs"
  by (auto simp: expr_vars_def)

lemma expr_vars_rpn [simp]: "expr_vars (rpn e) = bvars e"
proof (induction e)
  case (BBin f a b)
  then show ?case by (cases f) auto
qed auto

lemma collected_add:
  assumes "collected S (ids, n)" "v \<notin> S" "card (insert v S) \<le> 5"
  shows "n < COND_MAX_BOOLS \<and> collected (insert v S) (ids[unat n := v], n + 1)"
proof -
  have c: "length ids = 5" "n \<le> COND_MAX_BOOLS" "distinct (take (unat n) ids)" "set (take (unat n) ids) = S"
    using assms(1) by (simp_all add: collected_def)
  have "card S = unat n"
    using c distinct_card [OF c(3)] by (simp add: word_le_nat_alt)
  moreover have "finite S" using c(4) by auto
  ultimately have n: "unat n < 5" using assms(2,3) by simp
  then have n1: "unat (n + 1) = Suc (unat n)" by (simp add: unat_word_ariths)
  have "take (Suc (unat n)) (ids[unat n := v]) = take (unat n) ids @ [v]"
    using n c(1) by (simp add: take_Suc_conv_app_nth)
  then show ?thesis
    using c n n1 assms(2) by (simp add: collected_def word_less_nat_alt word_le_nat_alt)
qed

lemma collect_bools_vars:
  assumes "collected S (ids, n)" "card (S \<union> expr_vars es) \<le> 5"
  shows "collected (S \<union> expr_vars es) (collect_bools es (ids, n))"
  using assms
proof (induction es arbitrary: S ids n)
  case (Cons x es)
  let ?v = "cx_bool x"
  have present: "bool_present ?v ids n \<longleftrightarrow> ?v \<in> S"
    using Cons.prems(1) by (auto simp: bool_present_def collected_def)
  show ?case
  proof (cases "cx_type x = COND_BOOL \<and> ?v \<notin> S")
    case True
    have fin: "finite (S \<union> expr_vars (x # es))"
      using Cons.prems(1) by (auto simp: collected_def expr_vars_def)
    have "insert ?v S \<subseteq> S \<union> expr_vars (x # es)" using True by auto
    then have "card (insert ?v S) \<le> 5"
      using Cons.prems(2) card_mono [OF fin] by (meson le_trans)
    then have step: "n < COND_MAX_BOOLS" "collected (insert ?v S) (ids[unat n := ?v], n + 1)"
      using collected_add [OF Cons.prems(1)] True by blast+
    show ?thesis
      using Cons.IH [OF step(2)] Cons.prems(2) True step(1) present by simp
  next
    case False
    then have "collect_bools (x # es) (ids, n) = collect_bools es (ids, n)" using present by auto
    moreover have "S \<union> expr_vars (x # es) = S \<union> expr_vars es" using False by auto
    ultimately show ?thesis
      using Cons.IH [OF Cons.prems(1)] Cons.prems(2) by simp
  qed
qed simp

lemma collect_states:
  assumes "\<forall>v\<in>set vs. val_deref bools v = Inr (g v)"
  shows "foldR (\<lambda>v os. bindR (val_deref bools v) (\<lambda>b. Inr (os @ [cbd_state b]))) vs os
    = Inr (os @ map (\<lambda>v. cbd_state (g v)) vs)"
  using assms by (induction vs arbitrary: os) auto

lemma restore_states:
  assumes "same_but ids bools bools'" "distinct ids" "\<forall>v\<in>set ids. bool_defined bools v"
    "\<forall>v\<in>set ids. val_deref bools v = Inr (g v)"
  shows "foldR (\<lambda>(v, st) b. set_bool_state v st b) (zip ids (map (\<lambda>v. cbd_state (g v)) ids)) bools' = Inr bools"
proof -
  define vs where "vs = zip ids (map (\<lambda>v. cbd_state (g v)) ids)"
  have fst: "map fst vs = ids" by (simp add: vs_def)
  obtain b where b: "foldR (\<lambda>(v, st) b. set_bool_state v st b) vs bools' = Inr b" "same_but ids bools b"
    "\<And>w d. val_deref bools' w = Inr d \<Longrightarrow> val_deref b w
       = Inr (case map_of vs w of Some st \<Rightarrow> d\<lparr>cbd_state := st\<rparr> | None \<Rightarrow> d)"
    using foldR_set_states [of vs ids bools bools', unfolded fst, OF assms(2) order_refl assms(3,1)] by blast
  have "b ! i = bools ! i" if i: "i < length bools" for i
  proof (cases "i \<in> (\<lambda>v. unat (v - 1)) ` set ids")
    case True
    then obtain v where v: "v \<in> set ids" "i = unat (v - 1)" by auto
    obtain d st where d: "bools ! i = Some d" "bools' ! i = Some (d\<lparr>cbd_state := st\<rparr>)"
      using assms(1) i True by (fastforce simp: same_but_def)
    have "val_deref bools' v = Inr (d\<lparr>cbd_state := st\<rparr>)" "d = g v"
      using assms(1,4) d i v by (simp_all add: same_but_def val_deref_iff)
    moreover have "map_of vs v = Some (cbd_state (g v))"
      using v by (simp add: vs_def map_of_zip_map)
    ultimately have "val_deref b v = Inr d" using b(3) [of v] by simp
    then show ?thesis using d v by (simp add: val_deref_iff)
  next
    case False
    then show ?thesis using b(2) i by (simp add: same_but_def)
  qed
  then have "b = bools" using b(2) by (intro nth_equalityI) (auto simp: same_but_def)
  then show ?thesis using b(1) by (simp add: vs_def)
qed

primrec strip_not :: "bexp \<Rightarrow> bexp" where
  "strip_not (BNot e) = e" | "strip_not (BVar v) = BVar v" | "strip_not (BBin f a b) = BBin f a b"

primrec is_not :: "bexp \<Rightarrow> bool" where
  "is_not (BNot e) = True" | "is_not (BVar v) = False" | "is_not (BBin f a b) = False"

lemma rpn_last:
  "rpn e \<noteq> []" "cx_type (last (rpn e)) = COND_NOT \<longleftrightarrow> is_not e"
  "is_not e \<Longrightarrow> length (rpn e) \<noteq> Suc 0 \<and> butlast (rpn e) = rpn (strip_not e)"
  "\<not> is_not e \<Longrightarrow> strip_not e = e" "bvars (strip_not e) = bvars e" "stack_need (strip_not e) = stack_need e"
proof -
  show ne: "rpn e \<noteq> []" for e by (induction e) auto
  show "cx_type (last (rpn e)) = COND_NOT \<longleftrightarrow> is_not e"
  proof (cases e)
    case (BBin f a b)
    then show ?thesis by (cases f) auto
  qed auto
  show "is_not e \<Longrightarrow> length (rpn e) \<noteq> Suc 0 \<and> butlast (rpn e) = rpn (strip_not e)"
    using ne by (cases e) auto
qed (cases e; simp)+

text \<open>For an expression with at most five Booleans the normal form keeps every Boolean as it was, drops
  an outer negation and swaps the lists for it, and records the value for every valuation.\<close>

lemma cond_normalize_rpn:
  assumes "cn_cond_expr cn = rpn e" "\<forall>v\<in>bvars e. bool_defined (bool_val_to_struct p) v"
    "card (bvars e) \<le> 5" "stack_need e \<le> COND_EXPR_MAXDEPTH"
  shows "\<exists>ids pre. cond_normalize_expr p cn = Inr (0, p, cn\<lparr>cn_cond_expr := rpn (strip_not e),
        true_list := (if is_not e then false_list cn else true_list cn),
        false_list := (if is_not e then true_list cn else false_list cn),
        nbools := of_nat (card (bvars e)), bool_ids := ids, expr_pre_comp := pre\<rparr>)
    \<and> distinct (take (card (bvars e)) ids) \<and> set (take (card (bvars e)) ids) = bvars e
    \<and> (\<forall>st. bit pre (test_num (take (card (bvars e)) ids) st) = bval st (strip_not e))"
proof -
  let ?B = "bool_val_to_struct p" and ?e = "strip_not e"
  obtain ids n where c: "collect_bools (rpn ?e) (replicate 5 0, 0) = (ids, n)" by fastforce
  have "collected {} (replicate 5 0, 0)" by (simp add: collected_def)
  from collect_bools_vars [OF this, of "rpn ?e"] assms(3)
  have ids: "length ids = 5" "n \<le> COND_MAX_BOOLS" "distinct (take (unat n) ids)" "set (take (unat n) ids) = bvars e"
    by (simp_all add: c rpn_last collected_def)
  define used where "used = take (unat n) ids"
  have n: "card (bvars e) = unat n"
    using ids distinct_card [OF ids(3)] by (simp add: word_le_nat_alt)
  then have len: "length used = unat n" "unat n \<le> 5" using ids by (simp_all add: used_def word_le_nat_alt)
  have used: "distinct used" "set used = bvars e" "\<forall>v\<in>set used. bool_defined ?B v"
    using ids(3,4) assms(2) by (simp_all add: used_def)
  then have "\<forall>v\<in>set used. \<exists>b. val_deref ?B v = Inr b" by (meson bool_definedD)
  then obtain g where g: "\<forall>v\<in>set used. val_deref ?B v = Inr (g v)" by metis
  define pre where "pre = truth_word used ?e [0..<2 ^ unat n] 0"
  obtain B' where B': "precompute_loop (rpn ?e) used [0..<2 ^ unat n] (?B, 0) = Inr (True, B', pre)" "same_but used ?B B'"
    using precompute_loop_rpn [OF used(1,3) _ _ same_but_refl [OF used(3)], of ?e "[0..<2 ^ unat n]" 0] assms(4) used(2)
    by (auto simp: rpn_last pre_def)
  have norm: "cond_normalize_expr p cn = Inr (0, p, cn\<lparr>cn_cond_expr := rpn ?e,
        true_list := (if is_not e then false_list cn else true_list cn),
        false_list := (if is_not e then true_list cn else false_list cn),
        nbools := n, bool_ids := ids, expr_pre_comp := pre\<rparr>)"
    using assms(1) ids(2) B'(1) restore_states [OF B'(2) used(1,3) g] c collect_states [OF g]
    by (cases "is_not e") (simp_all add: cond_normalize_expr_def rpn_last used_def Let_def)
  have small: "(2::nat) ^ unat n \<le> 32"
    using power_increasing [of "unat n" 5 "2::nat"] len(2) by simp
  have "bit pre (test_num used st) = bval st ?e" for st
  proof -
    have lt: "test_num used st < 2 ^ unat n" using test_num_less [of used st] len(1) by simp
    then have "bit pre (test_num used st) = bval (test_val used (test_num used st)) ?e"
      unfolding pre_def using bit_truth_word [of "test_num used st" used ?e "[0..<2 ^ unat n]" 0] small by simp
    also have "\<dots> = bval st ?e"
      using used(2) by (intro bval_cong) (simp add: test_val_num rpn_last)
    finally show ?thesis .
  qed
  with norm used(1,2) n show ?thesis
    by (intro exI [of _ ids] exI [of _ pre]) (simp add: used_def)
qed

section \<open>Access vectors\<close>

lemma bit_cond_av_step:
  "bit (allowed (cond_av_step n avd)) i = (bit (allowed avd) i \<or> enabled_as AVTAB_ALLOWED n \<and> bit (av_data n) i)"
  "bit (auditallow (cond_av_step n avd)) i = (bit (auditallow avd) i \<or> enabled_as AVTAB_AUDITALLOW n \<and> bit (av_data n) i)"
  "bit (auditdeny (cond_av_step n avd)) i = (bit (auditdeny avd) i \<and> (enabled_as AVTAB_AUDITDENY n \<longrightarrow> bit (av_data n) i))"
  "decided (cond_av_step n avd) = decided avd" "seqno (cond_av_step n avd) = seqno avd"
  by (simp_all add: cond_av_step_def Let_def bit_or_iff bit_and_iff)

lemma bit_cond_av_steps:
  "bit (allowed (fold cond_av_step ns avd)) i
     = (bit (allowed avd) i \<or> (\<exists>n\<in>set ns. enabled_as AVTAB_ALLOWED n \<and> bit (av_data n) i))"
  "bit (auditallow (fold cond_av_step ns avd)) i
     = (bit (auditallow avd) i \<or> (\<exists>n\<in>set ns. enabled_as AVTAB_AUDITALLOW n \<and> bit (av_data n) i))"
  "bit (auditdeny (fold cond_av_step ns avd)) i
     = (bit (auditdeny avd) i \<and> (\<forall>n\<in>set ns. enabled_as AVTAB_AUDITDENY n \<longrightarrow> bit (av_data n) i))"
  "decided (fold cond_av_step ns avd) = decided avd" "seqno (fold cond_av_step ns avd) = seqno avd"
  by (induction ns arbitrary: avd) (simp_all add: bit_cond_av_step)

lemma cond_compute_av_entries:
  assumes "avtab_ok h"
  shows "cond_compute_av h key avd
    = Inr (fold cond_av_step (filter (\<lambda>n. spec_match key (av_key n)) (av_entries h)) avd)"
  by (simp add: cond_compute_av_def avtab_each_node_filter [OF assms])

text \<open>A conditional rule of a kind decides when the rule is of that kind and switched on.\<close>

lemma enabled_as_iff:
  assumes "what = AVTAB_ALLOWED \<or> what = AVTAB_AUDITALLOW \<or> what = AVTAB_AUDITDENY"
  shows "enabled_as what n \<longleftrightarrow> specified (av_key n) AND what \<noteq> 0 \<and> node_enabled n"
proof -
  have two: "s AND (2 ^ k OR 2 ^ m) = 2 ^ k OR 2 ^ m \<longleftrightarrow> bit s k \<and> bit s m" if "k < 16" "m < 16" for s :: u16 and k m
  proof
    assume eq: "s AND (2 ^ k OR 2 ^ m) = 2 ^ k OR 2 ^ m"
    have "bit (s AND (2 ^ k OR 2 ^ m)) k" "bit (s AND (2 ^ k OR 2 ^ m)) m"
      unfolding eq using that by (simp_all add: bit_or_iff bit_exp_iff)
    then show "bit s k \<and> bit s m" by (simp add: bit_and_iff)
  next
    assume "bit s k \<and> bit s m"
    then show "s AND (2 ^ k OR 2 ^ m) = 2 ^ k OR 2 ^ m"
      by (intro bit_word_eqI) (auto simp: bit_and_iff bit_or_iff bit_exp_iff)
  qed
  let ?s = "specified (av_key n)"
  have on: "node_enabled n \<longleftrightarrow> bit ?s 15"
    using and_exp_eq_0_iff_not_bit [of ?s 15] by (simp add: node_enabled_def)
  have kind: "enabled_as (2 ^ k) n \<longleftrightarrow> ?s AND 2 ^ k \<noteq> 0 \<and> node_enabled n" if "k < 15" for k
    using two [of k 15 ?s] that on and_exp_eq_0_iff_not_bit [of ?s k] by (simp add: enabled_as_def)
  from assms show ?thesis
    using kind [of 0] kind [of 1] kind [of 2] by (elim disjE) simp_all
qed

section \<open>Properties\<close>

text \<open>Claim C34. For every Boolean expression whose Booleans are defined, evaluating its reverse Polish form
  gives its truth value under the current states of the Booleans when ten stack cells are enough, and
  the undefined value -1 otherwise.\<close>

theorem cond_evaluate_correct:
  assumes "\<forall>v\<in>bvars e. bool_defined (bool_val_to_struct p) v"
  shows "cond_evaluate_expr p (rpn e) =
    Inr (if stack_need e \<le> COND_EXPR_MAXDEPTH then c_bool (bval (state_of (bool_val_to_struct p)) e) else -1)"
  using assms by (rule cond_evaluate_rpn)

text \<open>When the rule lists of the conditionals do not overlap and the rules agree with the recorded
  states, \<open>evaluate_conds\<close> (which does not fault) gives every conditional the value of its expression,
  which is true, false or undefined, leaves exactly the rules of the matching branch switched on (none
  when the value is undefined), and changes nothing else in the rules.\<close>

theorem evaluate_conds_correct:
  assumes "\<forall>c\<in>set (cond_list p). expr_defined (bool_val_to_struct p) (cn_cond_expr c)"
    "\<forall>c\<in>set (cond_list p). in_sync c (te_cond_avtab p)" "cond_lists_ok (cond_list p)"
  shows "\<exists>p'. evaluate_conds p = Inr p'
    \<and> map (\<lambda>c. c\<lparr>cur_state := 0\<rparr>) (cond_list p') = map (\<lambda>c. c\<lparr>cur_state := 0\<rparr>) (cond_list p)
    \<and> (\<forall>c\<in>set (cond_list p'). cur_state c \<in> {-1, 0, 1} \<and> in_sync c (te_cond_avtab p')
         \<and> cond_evaluate_expr p (cn_cond_expr c) = Inr (cur_state c))
    \<and> map node_rule (av_entries (te_cond_avtab p')) = map node_rule (av_entries (te_cond_avtab p))
    \<and> p' = p\<lparr>cond_list := cond_list p', te_cond_avtab := te_cond_avtab p'\<rparr>"
proof -
  have val: "\<exists>k. cond_evaluate_expr p (cn_cond_expr c) = Inr k \<and> (k = -1 \<or> k = 0 \<or> k = 1)"
    if "c \<in> set (cond_list p)" for c
    using eval_loop_total [of "bool_val_to_struct p" "cn_cond_expr c" "[]"] assms(1) that
    by (simp add: cond_evaluate_expr_def)
  then have "\<forall>c\<in>set (cond_list p). \<exists>k. cond_evaluate_expr p (cn_cond_expr c) = Inr k" by blast
  from evaluate_nodes_sync [OF this assms(2,3)] obtain h where
    h: "evaluate_nodes p (cond_list p) (te_cond_avtab p) = Inr (map (with_state p) (cond_list p), h)"
      "\<forall>c\<in>set (cond_list p). in_sync (with_state p c) h"
      "list_all2 (\<lambda>n n'. node_rule n' = node_rule n \<and> (av_addr n \<notin> (\<Union>c\<in>set (cond_list p). cond_rules c) \<longrightarrow> n' = n))
        (av_entries (te_cond_avtab p)) (av_entries h)"
    by blast
  have "map node_rule (av_entries h) = map node_rule (av_entries (te_cond_avtab p))"
    using h(3) by (induction rule: list_all2_induct) auto
  moreover have "\<forall>c\<in>set (cond_list p). cur_state (with_state p c) \<in> {-1, 0, 1}
      \<and> cond_evaluate_expr p (cn_cond_expr c) = Inr (cur_state (with_state p c))"
    using val by (fastforce simp: with_state_def)
  ultimately show ?thesis
    using h(1,2) by (intro exI [of _ "p\<lparr>cond_list := map (with_state p) (cond_list p), te_cond_avtab := h\<rparr>"])
      (auto simp: evaluate_conds_def with_state_def)
qed

text \<open>On a well-formed conditional table, \<open>cond_compute_av\<close> returns the given decision with every
  permission added that some matching, switched-on allow or auditallow rule has, and every permission
  taken out of \<open>auditdeny\<close> that some matching, switched-on rule of that kind lacks; nothing else counts.\<close>

theorem cond_compute_av_bits:
  assumes "avtab_ok h"
  shows "\<exists>avd'. cond_compute_av h key avd = Inr avd' \<and> decided avd' = decided avd \<and> seqno avd' = seqno avd
    \<and> (\<forall>i. bit (allowed avd') i = (bit (allowed avd) i \<or> (\<exists>n\<in>set (av_entries h). spec_match key (av_key n)
          \<and> specified (av_key n) AND AVTAB_ALLOWED \<noteq> 0 \<and> node_enabled n \<and> bit (av_data n) i)))
    \<and> (\<forall>i. bit (auditallow avd') i = (bit (auditallow avd) i \<or> (\<exists>n\<in>set (av_entries h). spec_match key (av_key n)
          \<and> specified (av_key n) AND AVTAB_AUDITALLOW \<noteq> 0 \<and> node_enabled n \<and> bit (av_data n) i)))
    \<and> (\<forall>i. bit (auditdeny avd') i = (bit (auditdeny avd) i \<and> \<not> (\<exists>n\<in>set (av_entries h). spec_match key (av_key n)
          \<and> specified (av_key n) AND AVTAB_AUDITDENY \<noteq> 0 \<and> node_enabled n \<and> \<not> bit (av_data n) i)))"
  by (simp add: cond_compute_av_entries [OF assms] bit_cond_av_steps enabled_as_iff Bex_def Ball_def conj_assoc) blast

text \<open>For an expression with at most five Booleans, \<open>cond_normalize_expr\<close> succeeds and gives back a
  database in which every Boolean has the state it had; the node has lost an outer negation, in return
  for which its lists are swapped, and for every valuation of the Booleans the bit of
  \<open>expr_pre_comp\<close> with the number of that valuation is the value of the expression.\<close>

theorem cond_normalize_correct:
  assumes "cn_cond_expr cn = rpn e" "\<forall>v\<in>bvars e. bool_defined (bool_val_to_struct p) v"
    "card (bvars e) \<le> 5" "stack_need e \<le> COND_EXPR_MAXDEPTH"
  shows "\<exists>ids pre. cond_normalize_expr p cn = Inr (0, p, cn\<lparr>cn_cond_expr := rpn (strip_not e),
        true_list := (if is_not e then false_list cn else true_list cn),
        false_list := (if is_not e then true_list cn else false_list cn),
        nbools := of_nat (card (bvars e)), bool_ids := ids, expr_pre_comp := pre\<rparr>)
    \<and> distinct (take (card (bvars e)) ids) \<and> set (take (card (bvars e)) ids) = bvars e
    \<and> (\<forall>st. bit pre (test_num (take (card (bvars e)) ids) st) = bval st (strip_not e))"
  using assms by (rule cond_normalize_rpn)

section \<open>A policy with one conditional\<close>

definition cond_expr_a :: bexp where
  "cond_expr_a = BBin Op_AND (BVar 1) (BNot (BVar 2))"

definition cond_expr_b :: bexp where
  "cond_expr_b = BBin Op_AND (BVar 2) (BNot (BVar 1))"

definition cond_node_of :: "bexp \<Rightarrow> cond_node" where
  "cond_node_of e = empty_cond_node\<lparr>cn_cond_expr := rpn e, true_list := [0]\<rparr>"

definition cond_db :: policydb where
  "cond_db = policydb_zero\<lparr>bool_val_to_struct := [Some \<lparr>cbd_value = 1, cbd_state = 1\<rparr>, Some \<lparr>cbd_value = 2, cbd_state = 0\<rparr>],
     te_cond_avtab := av_tab_a, cond_list := [cond_node_of cond_expr_a]\<rparr>"

lemma cond_db_simps:
  "bool_val_to_struct cond_db = [Some \<lparr>cbd_value = 1, cbd_state = 1\<rparr>, Some \<lparr>cbd_value = 2, cbd_state = 0\<rparr>]"
  "te_cond_avtab cond_db = av_tab_a" "cond_list cond_db = [cond_node_of cond_expr_a]"
  by (simp_all add: cond_db_def)

lemma cond_db_defined: "\<forall>v\<in>{1, 2}. bool_defined (bool_val_to_struct cond_db) v"
  by (simp add: cond_db_simps bool_defined_def val_deref_def val_get_def bool_isvalid_def)

lemma cond_pair_tables:
  "collect_bools (rpn cond_expr_a) (replicate 5 0, 0) = ([1, 2, 0, 0, 0], 2)"
  "collect_bools (rpn cond_expr_b) (replicate 5 0, 0) = ([2, 1, 0, 0, 0], 2)"
  "precompute_loop (rpn cond_expr_a) [1, 2] [0..<4] (bool_val_to_struct cond_db, 0)
    = Inr (True, [Some \<lparr>cbd_value = 1, cbd_state = 1\<rparr>, Some \<lparr>cbd_value = 2, cbd_state = 1\<rparr>], 2)"
  "precompute_loop (rpn cond_expr_b) [2, 1] [0..<4] (bool_val_to_struct cond_db, 0)
    = Inr (True, [Some \<lparr>cbd_value = 1, cbd_state = 1\<rparr>, Some \<lparr>cbd_value = 2, cbd_state = 1\<rparr>], 2)"
  unfolding cond_db_simps by code_simp+

lemma cond_pair_normal:
  "cond_normalize_expr cond_db (cond_node_of cond_expr_a)
     = Inr (0, cond_db, (cond_node_of cond_expr_a)\<lparr>nbools := 2, bool_ids := [1, 2, 0, 0, 0], expr_pre_comp := 2\<rparr>)"
  "cond_normalize_expr cond_db (cond_node_of cond_expr_b)
     = Inr (0, cond_db, (cond_node_of cond_expr_b)\<lparr>nbools := 2, bool_ids := [2, 1, 0, 0, 0], expr_pre_comp := 2\<rparr>)"
proof -
  have e: "cn_cond_expr (cond_node_of e) = rpn e" "rpn e \<noteq> []" for e
    by (simp_all add: cond_node_of_def rpn_last)
  have n: "cx_type (last (rpn cond_expr_a)) \<noteq> COND_NOT" "cx_type (last (rpn cond_expr_b)) \<noteq> COND_NOT"
    by (simp_all add: rpn_last cond_expr_a_def cond_expr_b_def)
  have same: "cond_db\<lparr>bool_val_to_struct := [Some \<lparr>cbd_value = 1, cbd_state = 1\<rparr>, Some \<lparr>cbd_value = 2, cbd_state = 0\<rparr>]\<rparr> = cond_db"
    by (simp add: cond_db_def)
  note ev = cond_normalize_expr_def Let_def val_deref_def val_get_def set_bool_state_def
  show "cond_normalize_expr cond_db (cond_node_of cond_expr_a)
     = Inr (0, cond_db, (cond_node_of cond_expr_a)\<lparr>nbools := 2, bool_ids := [1, 2, 0, 0, 0], expr_pre_comp := 2\<rparr>)"
    by (simp add: ev e n cond_pair_tables [unfolded cond_db_simps] cond_db_simps same)
  show "cond_normalize_expr cond_db (cond_node_of cond_expr_b)
     = Inr (0, cond_db, (cond_node_of cond_expr_b)\<lparr>nbools := 2, bool_ids := [2, 1, 0, 0, 0], expr_pre_comp := 2\<rparr>)"
    by (simp add: ev e n cond_pair_tables [unfolded cond_db_simps] cond_db_simps same)
qed

text \<open>Two conditionals on the same two Booleans with different meanings, \<open>a && !b\<close> and \<open>b && !a\<close>, are
  equal for \<open>cond_expr_equal\<close> once normalised: the Booleans are compared as sets, the truth tables as if
  the Booleans came in the same order. \<open>cond_node_search\<close> then hands out the first conditional for the
  second, whose rules take effect under the wrong condition.\<close>

lemma cond_expr_equal_confuses:
  "\<exists>na nb. cond_normalize_expr cond_db (cond_node_of cond_expr_a) = Inr (0, cond_db, na)
    \<and> cond_normalize_expr cond_db (cond_node_of cond_expr_b) = Inr (0, cond_db, nb)
    \<and> cond_expr_equal nb na
    \<and> cond_evaluate_expr cond_db (cn_cond_expr na) = Inr 1 \<and> cond_evaluate_expr cond_db (cn_cond_expr nb) = Inr 0
    \<and> (\<forall>s. cond_node_search (cond_db\<lparr>cond_list := [na]\<rparr>) [na] nb s = (Inr (cond_db\<lparr>cond_list := [na]\<rparr>, na), s))"
proof -
  have "cond_evaluate_expr cond_db (rpn cond_expr_a) = Inr 1" "cond_evaluate_expr cond_db (rpn cond_expr_b) = Inr 0"
    unfolding cond_evaluate_expr_def cond_db_simps by code_simp+
  then show ?thesis
    unfolding cond_pair_normal
    by (simp add: cond_node_of_def cond_expr_equal_def same_bools_def bool_present_def cond_node_search_def
        bindE_def returnE_def)
qed

section \<open>Witnesses\<close>

theorem cond_evaluate_correct_witness:
  "cond_evaluate_expr cond_db (rpn cond_expr_a) = Inr 1"
proof -
  have "\<forall>v\<in>bvars cond_expr_a. bool_defined (bool_val_to_struct cond_db) v"
    using cond_db_defined by (simp add: cond_expr_a_def)
  from cond_evaluate_correct [OF this] show ?thesis
    by (simp add: cond_expr_a_def cond_db_simps state_of_def val_deref_def val_get_def c_bool_def)
qed

theorem evaluate_conds_correct_witness:
  "\<exists>p'. evaluate_conds cond_db = Inr p' \<and> (\<forall>c\<in>set (cond_list p'). in_sync c (te_cond_avtab p'))"
proof -
  have "\<forall>c\<in>set (cond_list cond_db). expr_defined (bool_val_to_struct cond_db) (cn_cond_expr c)"
    using cond_db_defined by (simp add: cond_db_simps expr_defined_def cond_node_of_def cond_expr_a_def)
  moreover have "\<forall>c\<in>set (cond_list cond_db). in_sync c (te_cond_avtab cond_db)"
    by (simp add: cond_db_simps in_sync_def node_in_sync_def av_tab_a_entries node_enabled_def av_key_a_def
        cond_node_of_def empty_cond_node_def)
  moreover have "cond_lists_ok (cond_list cond_db)"
    by (simp add: cond_db_simps cond_lists_ok_def cond_node_of_def empty_cond_node_def)
  ultimately show ?thesis using evaluate_conds_correct [of cond_db] by blast
qed

theorem cond_compute_av_bits_witness:
  "\<exists>avd'. cond_compute_av av_tab_a av_key_a \<lparr>allowed = 1, decided = 0, auditallow = 0, auditdeny = 0, seqno = 0\<rparr> = Inr avd'
    \<and> bit (allowed avd') 0 \<and> \<not> bit (allowed avd') 1"
  using cond_compute_av_bits [OF av_tab_a_ok, of av_key_a "\<lparr>allowed = 1, decided = 0, auditallow = 0, auditdeny = 0, seqno = 0\<rparr>"]
  by (auto simp: av_tab_a_entries node_enabled_def av_key_a_def)

theorem cond_normalize_correct_witness:
  "\<exists>cn'. cond_normalize_expr cond_db (cond_node_of (BNot cond_expr_a)) = Inr (0, cond_db, cn')
    \<and> true_list cn' = [] \<and> false_list cn' = [0]"
proof -
  have "bvars (BNot cond_expr_a) = {1, 2}" "stack_need (BNot cond_expr_a) \<le> COND_EXPR_MAXDEPTH"
    by (auto simp: cond_expr_a_def)
  then show ?thesis
    using cond_normalize_correct [of "cond_node_of (BNot cond_expr_a)" "BNot cond_expr_a" cond_db] cond_db_defined
    by (auto simp: cond_node_of_def empty_cond_node_def)
qed

end
