(* ===== verification/Sidtab.thy ===== *)
theory Sidtab
  imports Hashtab Context_Struct
begin

text \<open>
  The SID table (sidtab.c, sidtab.h): the contexts that have been given a security identifier.
  Buckets are walked by the chain functions of the hash table, with the order of the SIDs. The
  locks are empty macros in this library. The map interface of the hash table is interpreted here
  as well, and the operations are collected in a step relation whose reachable tables satisfy the
  invariant.
\<close>

unbundle bit_operations_syntax

section \<open>Data and operations\<close>

record sidtab =
  st_htable :: "(u32 \<times> context_struct) list list option"
  st_nel :: u32
  st_next_sid :: u32
  st_shutdown :: bool

abbreviation SIDTAB_SIZE :: nat where
  "SIDTAB_SIZE \<equiv> 128"

abbreviation "SECINITSID_UNLABELED \<equiv> 3 :: u32"

definition SIDTAB_HASH :: "u32 \<Rightarrow> nat" where
  "SIDTAB_HASH sid = unat (sid AND 127)"

definition sid_after :: "u32 \<Rightarrow> u32 \<Rightarrow> bool" where
  "sid_after a b \<longleftrightarrow> a > b"

definition sid_same :: "u32 \<Rightarrow> u32 \<Rightarrow> bool" where
  "sid_same a b \<longleftrightarrow> a = b"

definition sepol_sidtab_init :: "sidtab alloc_m" where
  "sepol_sidtab_init = bindE malloc (\<lambda>_.
     returnE \<lparr>st_htable = Some (replicate SIDTAB_SIZE []), st_nel = 0, st_next_sid = 1, st_shutdown = False\<rparr>)"

definition sepol_sidtab_insert :: "sidtab \<Rightarrow> u32 \<Rightarrow> context_struct \<Rightarrow> sidtab alloc_m" where
  "sepol_sidtab_insert s sid con = (case st_htable s of
     None \<Rightarrow> throwE ENOMEM
   | Some t \<Rightarrow> bindE (liftE (array_get t (SIDTAB_HASH sid))) (\<lambda>chain.
       case chain_insert sid_after sid_same sid con chain of
         None \<Rightarrow> throwE EEXIST
       | Some c \<Rightarrow> bindE malloc (\<lambda>_. bindE (failE (context_cpy context_init con) ENOMEM) (\<lambda>con'.
           case chain_insert sid_after sid_same sid con' chain of
             None \<Rightarrow> throwE EEXIST
           | Some c' \<Rightarrow> returnE (s\<lparr>st_htable := Some (t[SIDTAB_HASH sid := c']), st_nel := st_nel s + 1,
               st_next_sid := (if sid \<ge> st_next_sid s then sid + 1 else st_next_sid s)\<rparr>)))))"

definition sepol_sidtab_remove :: "sidtab \<Rightarrow> u32 \<Rightarrow> sidtab res" where
  "sepol_sidtab_remove s sid = (case st_htable s of
     None \<Rightarrow> Inl ENOENT
   | Some t \<Rightarrow> bindR (array_get t (SIDTAB_HASH sid)) (\<lambda>chain.
       case chain_remove sid_after sid_same sid chain of
         None \<Rightarrow> Inl ENOENT
       | Some (c, _) \<Rightarrow> Inr (s\<lparr>st_htable := Some (t[SIDTAB_HASH sid := c]), st_nel := st_nel s - 1\<rparr>)))"

definition sepol_sidtab_search :: "sidtab \<Rightarrow> u32 \<Rightarrow> context_struct option res" where
  "sepol_sidtab_search s sid = (case st_htable s of
     None \<Rightarrow> Inr None
   | Some t \<Rightarrow> bindR (array_get t (SIDTAB_HASH sid)) (\<lambda>chain.
       case chain_search sid_after sid_same sid chain of
         Some con \<Rightarrow> Inr (Some con)
       | None \<Rightarrow> bindR (array_get t (SIDTAB_HASH SECINITSID_UNLABELED)) (\<lambda>chain'.
           Inr (chain_search sid_after sid_same SECINITSID_UNLABELED chain'))))"

definition sepol_sidtab_map :: "sidtab \<Rightarrow> (u32 \<Rightarrow> context_struct \<Rightarrow> 's \<Rightarrow> 's alloc_m) \<Rightarrow> 's \<Rightarrow> 's alloc_m" where
  "sepol_sidtab_map s app args = (case st_htable s of
     None \<Rightarrow> returnE args
   | Some t \<Rightarrow> foldE (\<lambda>i a. bindE (liftE (array_get t i)) (\<lambda>c. foldE (\<lambda>(sid, con). app sid con) c a))
       [0..<SIDTAB_SIZE] args)"

text \<open>The callback may rewrite the context in place; a node whose callback fails is unlinked. The
  result is the kept chain and the number of nodes freed.\<close>

fun sid_chain_update ::
  "(u32 \<Rightarrow> context_struct \<Rightarrow> context_struct alloc_m) \<Rightarrow> (u32 \<times> context_struct) list
     \<Rightarrow> ((u32 \<times> context_struct) list \<times> nat) alloc_m"
where
  "sid_chain_update app [] = returnE ([], 0)"
| "sid_chain_update app ((sid, con) # c) = bindE (tryE (app sid con)) (\<lambda>r.
     case r of
       Inl e \<Rightarrow> if err_code e then bindE (sid_chain_update app c) (\<lambda>(c', n). returnE (c', n + 1)) else throwE e
     | Inr con' \<Rightarrow> bindE (sid_chain_update app c) (\<lambda>(c', n). returnE ((sid, con') # c', n)))"

definition sepol_sidtab_map_remove_on_error ::
  "sidtab \<Rightarrow> (u32 \<Rightarrow> context_struct \<Rightarrow> context_struct alloc_m) \<Rightarrow> sidtab alloc_m"
where
  "sepol_sidtab_map_remove_on_error s app = (case st_htable s of
     None \<Rightarrow> returnE s
   | Some t \<Rightarrow> bindE
       (foldE (\<lambda>i (t, n). bindE (liftE (array_get t i)) (\<lambda>c. bindE (sid_chain_update app c) (\<lambda>(c', m).
          returnE (t[i := c'], n + m)))) [0..<SIDTAB_SIZE] (t, 0))
       (\<lambda>(t', n). returnE (s\<lparr>st_htable := Some t', st_nel := st_nel s - of_nat n\<rparr>)))"

fun search_context_chain :: "context_struct \<Rightarrow> (u32 \<times> context_struct) list \<Rightarrow> u32 option" where
  "search_context_chain con [] = None"
| "search_context_chain con ((sid, c) # r) = (if context_cmp c con then Some sid else search_context_chain con r)"

text \<open>The first SID with an equal context, or 0.\<close>

definition sepol_sidtab_search_context :: "sidtab \<Rightarrow> context_struct \<Rightarrow> u32 res" where
  "sepol_sidtab_search_context s con = bindR (deref (st_htable s)) (\<lambda>t.
     bindR (foldR (\<lambda>i found. case found of
         Some sid \<Rightarrow> Inr (Some sid)
       | None \<Rightarrow> bindR (array_get t i) (\<lambda>c. Inr (search_context_chain con c))) [0..<SIDTAB_SIZE] None)
     (\<lambda>found. Inr (case found of Some sid \<Rightarrow> sid | None \<Rightarrow> 0)))"

text \<open>The table is part of the result also when no SID is returned.\<close>

definition sepol_sidtab_context_to_sid :: "sidtab \<Rightarrow> context_struct \<Rightarrow> (sidtab \<times> u32 res) alloc_m" where
  "sepol_sidtab_context_to_sid s con =
     bindE (liftE (sepol_sidtab_search_context s con)) (\<lambda>sid.
       if sid \<noteq> 0 then returnE (s, Inr sid)
       else if st_next_sid s = -1 \<or> st_shutdown s then returnE (s, Inl ENOMEM)
       else let sid' = st_next_sid s; s1 = s\<lparr>st_next_sid := sid' + 1\<rparr> in
         bindE (tryE (sepol_sidtab_insert s1 sid' con)) (\<lambda>r. case r of
           Inl e \<Rightarrow> if err_code e then returnE (s1\<lparr>st_next_sid := st_next_sid s1 - 1\<rparr>, Inl e) else throwE e
         | Inr s2 \<Rightarrow> returnE (s2, Inr sid')))"

definition sepol_sidtab_hash_eval :: "sidtab \<Rightarrow> (u32 \<times> nat \<times> nat \<times> nat) res" where
  "sepol_sidtab_hash_eval s = bindR (deref (st_htable s)) (\<lambda>t.
     bindR (foldR (\<lambda>i (slots_used, max_chain_len). bindR (array_get t i) (\<lambda>c.
        if c \<noteq> [] then Inr (slots_used + 1, if length c > max_chain_len then length c else max_chain_len)
        else Inr (slots_used, max_chain_len))) [0..<SIDTAB_SIZE] (0, 0))
     (\<lambda>(slots_used, max_chain_len). Inr (st_nel s, slots_used, SIDTAB_SIZE, max_chain_len)))"

definition sepol_sidtab_destroy :: "sidtab \<Rightarrow> sidtab" where
  "sepol_sidtab_destroy s = (case st_htable s of
     None \<Rightarrow> s | Some _ \<Rightarrow> s\<lparr>st_htable := None, st_nel := 0, st_next_sid := 1\<rparr>)"

definition sepol_sidtab_set :: "sidtab \<Rightarrow> sidtab \<Rightarrow> sidtab" where
  "sepol_sidtab_set dst src = dst\<lparr>st_htable := st_htable src, st_nel := st_nel src,
     st_next_sid := st_next_sid src, st_shutdown := False\<rparr>"

definition sepol_sidtab_shutdown :: "sidtab \<Rightarrow> sidtab" where
  "sepol_sidtab_shutdown s = s\<lparr>st_shutdown := True\<rparr>"

section \<open>Invariant and abstraction\<close>

interpretation sid: key_order sid_after sid_same
  by unfold_locales (auto simp: sid_after_def sid_same_def)

definition sid_entries :: "sidtab \<Rightarrow> (u32 \<times> context_struct) list" where
  "sid_entries s = (case st_htable s of None \<Rightarrow> [] | Some t \<Rightarrow> concat t)"

definition sid_map :: "sidtab \<Rightarrow> u32 \<Rightarrow> context_struct option" where
  "sid_map s sid = (case st_htable s of None \<Rightarrow> None | Some t \<Rightarrow> map_of (t ! SIDTAB_HASH sid) sid)"

definition sidtab_ok :: "sidtab \<Rightarrow> bool" where
  "sidtab_ok s \<longleftrightarrow> (\<exists>t. st_htable s = Some t \<and> length t = SIDTAB_SIZE
     \<and> (\<forall>i < SIDTAB_SIZE. chain_sorted sid_after (t ! i) \<and> (\<forall>x \<in> set (t ! i). SIDTAB_HASH (fst x) = i))
     \<and> st_nel s = of_nat (length (concat t))
     \<and> (\<forall>sid con. sid_map s sid = Some con \<longrightarrow> sid \<noteq> 0 \<and> sid < st_next_sid s \<and> context_ok con)
     \<and> st_next_sid s \<noteq> 0)"

lemma SIDTAB_HASH_less: "SIDTAB_HASH sid < SIDTAB_SIZE"
proof -
  have "sid AND 127 \<le> 127" by (rule word_and_le1)
  then show ?thesis by (simp add: SIDTAB_HASH_def word_le_nat_alt)
qed

lemma sidtab_okE:
  assumes "sidtab_ok s"
  obtains t where "st_htable s = Some t" "length t = SIDTAB_SIZE"
    "\<And>k. array_get t (SIDTAB_HASH k) = Inr (t ! SIDTAB_HASH k)"
    "\<And>i. i < SIDTAB_SIZE \<Longrightarrow> chain_sorted sid_after (t ! i)"
    "\<And>i x. i < SIDTAB_SIZE \<Longrightarrow> x \<in> set (t ! i) \<Longrightarrow> SIDTAB_HASH (fst x) = i"
    "sid_entries s = concat t" "\<And>sid. sid_map s sid = map_of (t ! SIDTAB_HASH sid) sid"
    "st_nel s = of_nat (length (concat t))"
    "\<And>sid con. sid_map s sid = Some con \<Longrightarrow> sid \<noteq> 0 \<and> sid < st_next_sid s \<and> context_ok con" "st_next_sid s \<noteq> 0"
proof -
  from assms obtain t where t: "st_htable s = Some t" "length t = SIDTAB_SIZE"
    "\<forall>i < SIDTAB_SIZE. chain_sorted sid_after (t ! i) \<and> (\<forall>x \<in> set (t ! i). SIDTAB_HASH (fst x) = i)"
    "st_nel s = of_nat (length (concat t))"
    "\<forall>sid con. sid_map s sid = Some con \<longrightarrow> sid \<noteq> 0 \<and> sid < st_next_sid s \<and> context_ok con" "st_next_sid s \<noteq> 0"
    unfolding sidtab_ok_def by blast
  then show ?thesis
    by (intro that [of t]) (simp_all add: sid_entries_def sid_map_def SIDTAB_HASH_less)
qed

lemma sid_map_entries:
  assumes "sidtab_ok s"
  shows "sid_map s k = Some c \<longleftrightarrow> (k, c) \<in> set (sid_entries s)"
proof -
  from assms obtain t where t: "length t = SIDTAB_SIZE" "\<And>i. i < SIDTAB_SIZE \<Longrightarrow> chain_sorted sid_after (t ! i)"
    "\<And>i x. i < SIDTAB_SIZE \<Longrightarrow> x \<in> set (t ! i) \<Longrightarrow> SIDTAB_HASH (fst x) = i"
    "sid_entries s = concat t" "\<And>sid. sid_map s sid = map_of (t ! SIDTAB_HASH sid) sid"
    by (rule sidtab_okE) blast
  have d: "distinct (map fst (t ! SIDTAB_HASH k))" using t(2) SIDTAB_HASH_less by (intro sid.distinct_keys) auto
  have "(k, c) \<in> set (concat t) \<longleftrightarrow> (k, c) \<in> set (t ! SIDTAB_HASH k)"
  proof
    assume "(k, c) \<in> set (concat t)"
    then obtain ch where "ch \<in> set t" "(k, c) \<in> set ch" by auto
    then obtain i where "i < length t" "(k, c) \<in> set (t ! i)" by (metis in_set_conv_nth)
    with t(1,3) show "(k, c) \<in> set (t ! SIDTAB_HASH k)" by fastforce
  next
    assume "(k, c) \<in> set (t ! SIDTAB_HASH k)"
    then show "(k, c) \<in> set (concat t)" using t(1) SIDTAB_HASH_less [of k] by (auto intro!: nth_mem bexI)
  qed
  with d show ?thesis by (simp add: t(4,5) map_of_eq_Some_iff)
qed

lemma sidtab_search_eq:
  assumes "sidtab_ok s"
  shows "sepol_sidtab_search s k = Inr (case sid_map s k of Some c \<Rightarrow> Some c | None \<Rightarrow> sid_map s SECINITSID_UNLABELED)"
proof -
  from assms obtain t where t: "st_htable s = Some t" "\<And>k. array_get t (SIDTAB_HASH k) = Inr (t ! SIDTAB_HASH k)"
    "\<And>i. i < SIDTAB_SIZE \<Longrightarrow> chain_sorted sid_after (t ! i)" "\<And>sid. sid_map s sid = map_of (t ! SIDTAB_HASH sid) sid"
    by (rule sidtab_okE) blast
  have "chain_search sid_after sid_same q (t ! SIDTAB_HASH q) = sid_map s q" for q
    using t(3,4) SIDTAB_HASH_less by (simp add: sid.search_map_of)
  then show ?thesis by (simp add: sepol_sidtab_search_def t(1,2) split: option.split)
qed

definition sid_adm :: "u32 \<Rightarrow> context_struct \<Rightarrow> bool" where
  "sid_adm sid con \<longleftrightarrow> sid \<noteq> 0 \<and> sid \<noteq> -1 \<and> context_ok con"

lemma sid_succ: "sid \<noteq> -1 \<Longrightarrow> (x :: u32) \<le> sid \<longleftrightarrow> x < sid + 1" "sid \<noteq> -1 \<Longrightarrow> sid + 1 \<noteq> (0 :: u32)"
proof -
  assume n: "sid \<noteq> (-1 :: u32)"
  then show nz: "sid + 1 \<noteq> 0" by (metis add.inverse_unique add.commute)
  then have "unat (sid + 1) = unat sid + 1" using unatSuc [of sid] by (simp add: add.commute)
  then show "x \<le> sid \<longleftrightarrow> x < sid + 1" by (simp add: word_le_nat_alt word_less_nat_alt less_Suc_eq_le)
qed

lemma sidtab_insert_new:
  assumes ok: "sidtab_ok s" and none: "sid_map s k = None" and adm: "sid_adm k con"
  shows "\<exists>s'. yields (sepol_sidtab_insert s k con) (Inr s') \<and> sidtab_ok s' \<and> sid_map s' = (sid_map s)(k \<mapsto> con)
     \<and> st_next_sid s' = (if k \<ge> st_next_sid s then k + 1 else st_next_sid s) \<and> st_shutdown s' = st_shutdown s"
proof -
  from ok obtain t where t: "st_htable s = Some t" "length t = SIDTAB_SIZE"
    "\<And>k. array_get t (SIDTAB_HASH k) = Inr (t ! SIDTAB_HASH k)"
    "\<And>i. i < SIDTAB_SIZE \<Longrightarrow> chain_sorted sid_after (t ! i)"
    "\<And>i x. i < SIDTAB_SIZE \<Longrightarrow> x \<in> set (t ! i) \<Longrightarrow> SIDTAB_HASH (fst x) = i"
    "sid_entries s = concat t" "\<And>sid. sid_map s sid = map_of (t ! SIDTAB_HASH sid) sid"
    "st_nel s = of_nat (length (concat t))"
    "\<And>sid con. sid_map s sid = Some con \<Longrightarrow> sid \<noteq> 0 \<and> sid < st_next_sid s \<and> context_ok con" "st_next_sid s \<noteq> 0"
    by (rule sidtab_okE) blast
  let ?i = "SIDTAB_HASH k"
  note i = SIDTAB_HASH_less [of k]
  from sid.insert_spec [OF t(4) [OF i], of k con] none obtain c where
    c: "chain_insert sid_after sid_same k con (t ! ?i) = Some c" "chain_sorted sid_after c"
    "map_of c = (map_of (t ! ?i))(k \<mapsto> con)" "fst ` set c = insert k (fst ` set (t ! ?i))"
    "length c = Suc (length (t ! ?i))" by (auto simp: t(7) split: option.splits)
  define s' where "s' = s\<lparr>st_htable := Some (t[?i := c]), st_nel := st_nel s + 1,
    st_next_sid := (if k \<ge> st_next_sid s then k + 1 else st_next_sid s)\<rparr>"
  have cpy: "yields (failE (context_cpy context_init con) ENOMEM) (Inr con)"
    by (rule yields_failE_ENOMEM [OF context_cpy_returns])
  have "yields (sepol_sidtab_insert s k con) (Inr s')"
    by (simp add: sepol_sidtab_insert_def t(1,3) c(1) yields_bindE_Inr [OF cpy] s'_def)
  moreover have map': "sid_map s' = (sid_map s)(k \<mapsto> con)"
    using i c(3) t(2) by (auto simp: fun_eq_iff sid_map_def s'_def t(1) nth_list_update)
  moreover have "sidtab_ok s'"
  proof -
    have keys: "\<forall>x \<in> set c. SIDTAB_HASH (fst x) = ?i"
      using t(5) [OF i] by (intro keys_insert_ball [OF c(4)]) auto
    have chains: "chain_sorted sid_after (t[?i := c] ! j) \<and> (\<forall>x \<in> set (t[?i := c] ! j). SIDTAB_HASH (fst x) = j)"
      if "j < SIDTAB_SIZE" for j
      using that t(2,4,5) c(2) keys by (cases "j = ?i") auto
    have "length (concat (t[?i := c])) = Suc (length (concat t))"
      using length_concat_upd [of ?i t c] i t(2) c(5) by simp
    moreover have grow: "k < st_next_sid s'" "st_next_sid s \<le> st_next_sid s'"
      using adm sid_succ(1) [of k k] sid_succ(1) [of k "st_next_sid s"]
      by (auto simp: s'_def sid_adm_def less_imp_le)
    moreover have "sid \<noteq> 0 \<and> sid < st_next_sid s' \<and> context_ok con'" if "sid_map s' sid = Some con'" for sid con'
    proof (cases "sid = k")
      case True
      with that adm grow(1) show ?thesis by (simp add: map' sid_adm_def)
    next
      case False
      with that t(9) [of sid con'] grow(2) show ?thesis by (auto simp: map')
    qed
    moreover have "st_next_sid s' \<noteq> 0" using t(10) adm sid_succ(2) [of k] by (auto simp: s'_def sid_adm_def)
    ultimately show ?thesis using chains t(2,8) unfolding sidtab_ok_def
      by (intro exI [of _ "t[?i := c]"]) (simp add: s'_def)
  qed
  ultimately show ?thesis by (intro exI [of _ s']) (simp add: s'_def)
qed

lemma sidtab_insert_dup:
  assumes ok: "sidtab_ok s" and "sid_map s k \<noteq> None"
  shows "sepol_sidtab_insert s k con = throwE EEXIST"
proof -
  from ok obtain t where t: "st_htable s = Some t" "\<And>k. array_get t (SIDTAB_HASH k) = Inr (t ! SIDTAB_HASH k)"
    "\<And>i. i < SIDTAB_SIZE \<Longrightarrow> chain_sorted sid_after (t ! i)" "\<And>sid. sid_map s sid = map_of (t ! SIDTAB_HASH sid) sid"
    by (rule sidtab_okE) blast
  from sid.insert_spec [OF t(3) [OF SIDTAB_HASH_less [of k]], of k con] assms(2)
  have "chain_insert sid_after sid_same k con (t ! SIDTAB_HASH k) = None" by (auto simp: t(4) split: option.splits)
  then show ?thesis by (simp add: sepol_sidtab_insert_def t(1,2))
qed

interpretation sidm: map_store sid_map sidtab_ok sid_adm sepol_sidtab_search sepol_sidtab_insert
proof unfold_locales
  show "sidtab_ok s \<Longrightarrow> sid_map s k = Some d \<Longrightarrow> sepol_sidtab_search s k = Inr (Some d)" for s k d
    by (simp add: sidtab_search_eq)
  show "sidtab_ok s \<Longrightarrow> sid_map s k = None \<Longrightarrow> sid_adm k d \<Longrightarrow>
      \<exists>s'. yields (sepol_sidtab_insert s k d) (Inr s') \<and> sidtab_ok s' \<and> sid_map s' = (sid_map s)(k \<mapsto> d)" for s k d
    using sidtab_insert_new by blast
  show "sidtab_ok s \<Longrightarrow> sid_map s k \<noteq> None \<Longrightarrow> yields (sepol_sidtab_insert s k d) (Inl EEXIST)" for s k d
    by (simp add: sidtab_insert_dup)
qed

section \<open>Looking up a context\<close>

lemma search_chain_find: "search_context_chain con c = map_option fst (find (\<lambda>x. context_cmp (snd x) con) c)"
  by (induction con c rule: search_context_chain.induct) auto

lemma find_append: "find P (xs @ ys) = (case find P xs of Some x \<Rightarrow> Some x | None \<Rightarrow> find P ys)"
  by (induction xs) auto

lemma search_context_find:
  assumes "sidtab_ok s"
  shows "sepol_sidtab_search_context s con
     = Inr (case find (\<lambda>x. context_cmp (snd x) con) (sid_entries s) of Some x \<Rightarrow> fst x | None \<Rightarrow> 0)"
proof -
  from assms obtain t where t: "st_htable s = Some t" "length t = SIDTAB_SIZE" "sid_entries s = concat t"
    by (rule sidtab_okE) blast
  let ?P = "\<lambda>x. context_cmp (snd x) con"
  have "foldR (\<lambda>i found. case found of Some sid \<Rightarrow> Inr (Some sid)
       | None \<Rightarrow> bindR (array_get t i) (\<lambda>c. Inr (search_context_chain con c))) [0..<n] None
      = Inr (map_option fst (find ?P (concat (take n t))))" if "n \<le> length t" for n
    using that
  proof (induction n)
    case (Suc n)
    then show ?case
      by (auto simp: foldR_append take_Suc_conv_app_nth find_append search_chain_find split: option.split)
  qed simp
  from this [of "length t"] t show ?thesis
    by (auto simp: sepol_sidtab_search_context_def split: option.split)
qed

lemma search_context_cases:
  assumes ok: "sidtab_ok s" and con: "context_ok con"
  shows "(\<exists>sid. sepol_sidtab_search_context s con = Inr sid \<and> sid \<noteq> 0 \<and> sid_map s sid = Some con)
     \<or> (sepol_sidtab_search_context s con = Inr 0 \<and> (\<forall>sid. sid_map s sid \<noteq> Some con))"
proof -
  from ok have ent: "\<And>sid c. sid_map s sid = Some c \<Longrightarrow> sid \<noteq> 0 \<and> context_ok c" by (rule sidtab_okE) blast
  have cmp: "context_cmp (snd x) con \<longleftrightarrow> snd x = con" if "x \<in> set (sid_entries s)" for x
    using that con ent [of "fst x" "snd x"] by (intro context_cmp_iff) (auto simp: sid_map_entries [OF ok])
  show ?thesis
  proof (cases "find (\<lambda>x. context_cmp (snd x) con) (sid_entries s)")
    case None
    then have "\<forall>x \<in> set (sid_entries s). \<not> context_cmp (snd x) con" by (auto simp: find_None_iff)
    then have "\<forall>x \<in> set (sid_entries s). snd x \<noteq> con" using cmp by blast
    then have "\<forall>sid. sid_map s sid \<noteq> Some con" by (force simp: sid_map_entries [OF ok])
    with None show ?thesis by (simp add: search_context_find [OF ok])
  next
    case (Some x)
    then have "x \<in> set (sid_entries s)" "context_cmp (snd x) con" by (auto simp: find_Some_iff)
    with cmp have "sid_map s (fst x) = Some con" by (auto simp: sid_map_entries [OF ok])
    with Some ent show ?thesis by (auto simp: search_context_find [OF ok])
  qed
qed

lemma sidtab_bump:
  assumes "sidtab_ok s" and "st_next_sid s \<noteq> -1"
  shows "sidtab_ok (s\<lparr>st_next_sid := st_next_sid s + 1\<rparr>)"
proof -
  have "x < st_next_sid s \<Longrightarrow> x < st_next_sid s + 1" for x
    using sid_succ(1) [OF assms(2), of x] by (simp add: less_imp_le)
  moreover have "sid_map (s\<lparr>st_next_sid := n\<rparr>) = sid_map s" for n by (simp add: sid_map_def fun_eq_iff)
  ultimately show ?thesis using assms sid_succ(2) [OF assms(2)] by (auto simp: sidtab_ok_def)
qed

text \<open>What \<open>sepol_sidtab_context_to_sid\<close> may do, for every behaviour of the allocator.\<close>

lemma context_to_sid_cases:
  assumes ok: "sidtab_ok s" and con: "context_ok con"
  obtains (known) sid where "sid_map s sid = Some con" "sid \<noteq> 0"
      "\<And>a. sepol_sidtab_context_to_sid s con a = (Inr (s, Inr sid), a)"
  | (full) "\<forall>sid. sid_map s sid \<noteq> Some con" "st_next_sid s = -1 \<or> st_shutdown s"
      "\<And>a. sepol_sidtab_context_to_sid s con a = (Inr (s, Inl ENOMEM), a)"
  | (fresh) s' where "\<forall>sid. sid_map s sid \<noteq> Some con" "sidtab_ok s'"
      "sid_map s' = (sid_map s)(st_next_sid s \<mapsto> con)" "st_next_sid s' = st_next_sid s + 1"
      "st_next_sid s \<noteq> 0" "st_next_sid s \<noteq> -1" "\<not> st_shutdown s'"
      "\<And>a. \<exists>b. sepol_sidtab_context_to_sid s con a = (Inr (s', Inr (st_next_sid s)), b)
            \<or> sepol_sidtab_context_to_sid s con a = (Inr (s, Inl ENOMEM), b)"
      "sepol_sidtab_context_to_sid s con [] = (Inr (s', Inr (st_next_sid s)), [])"
proof -
  from search_context_cases [OF ok con] show ?thesis
  proof (elim disjE exE conjE)
    fix sid assume "sepol_sidtab_search_context s con = Inr sid" "sid \<noteq> 0" "sid_map s sid = Some con"
    then show ?thesis by (intro known) (auto simp: sepol_sidtab_context_to_sid_def returnE_def)
  next
    assume none: "sepol_sidtab_search_context s con = Inr 0" "\<forall>sid. sid_map s sid \<noteq> Some con"
    show ?thesis
    proof (cases "st_next_sid s = -1 \<or> st_shutdown s")
      case True
      with none show ?thesis by (intro full) (auto simp: sepol_sidtab_context_to_sid_def returnE_def)
    next
      case False
      let ?n = "st_next_sid s"
      let ?s1 = "s\<lparr>st_next_sid := ?n + 1\<rparr>"
      have maps: "sid_map ?s1 = sid_map s" by (simp add: sid_map_def fun_eq_iff)
      from ok have nz: "?n \<noteq> 0" and "sid_map s ?n = None"
        by (auto elim!: sidtab_okE) (metis option.exhaust order_less_irrefl)
      then have free: "sid_map ?s1 ?n = None" by (simp add: maps)
      have ok1: "sidtab_ok ?s1" using False by (intro sidtab_bump ok) auto
      have adm: "sid_adm ?n con" using False nz con by (simp add: sid_adm_def)
      from sidtab_insert_new [OF ok1 free adm] obtain s' where
        s': "yields (sepol_sidtab_insert ?s1 ?n con) (Inr s')" "sidtab_ok s'" "sid_map s' = (sid_map s)(?n \<mapsto> con)"
        "st_next_sid s' = ?n + 1" "\<not> st_shutdown s'"
        using False sid_succ(1) [of ?n ?n] by (auto simp: maps)
      have res: "sepol_sidtab_context_to_sid s con a = (case sepol_sidtab_insert ?s1 ?n con a of
          (Inr s2, b) \<Rightarrow> (Inr (s2, Inr ?n), b)
        | (Inl e, b) \<Rightarrow> if err_code e then (Inr (s, Inl e), b) else (Inl e, b))" for a
        using none False
        by (auto simp: sepol_sidtab_context_to_sid_def Let_def bindE_def tryE_def returnE_def throwE_def
            split: prod.splits sum.splits)
      show ?thesis
      proof (rule fresh [OF none(2) s'(2-4) nz _ s'(5)])
        show "?n \<noteq> -1" using False by simp
        show "\<exists>b. sepol_sidtab_context_to_sid s con a = (Inr (s', Inr ?n), b)
            \<or> sepol_sidtab_context_to_sid s con a = (Inr (s, Inl ENOMEM), b)" for a
          by (rule yields_cases [OF s'(1), of a]) (auto simp: res)
        show "sepol_sidtab_context_to_sid s con [] = (Inr (s', Inr ?n), [])"
          using yields_no_oom [OF s'(1)] by (simp add: res)
      qed
    qed
  qed
qed

section \<open>Removal\<close>

lemma sidtab_remove_spec:
  assumes ok: "sidtab_ok s"
  shows "case sid_map s k of None \<Rightarrow> sepol_sidtab_remove s k = Inl ENOENT
    | Some _ \<Rightarrow> \<exists>s'. sepol_sidtab_remove s k = Inr s' \<and> sidtab_ok s' \<and> sid_map s' = (sid_map s)(k := None)
        \<and> st_next_sid s' = st_next_sid s"
proof -
  from ok obtain t where t: "st_htable s = Some t" "length t = SIDTAB_SIZE"
    "\<And>k. array_get t (SIDTAB_HASH k) = Inr (t ! SIDTAB_HASH k)"
    "\<And>i. i < SIDTAB_SIZE \<Longrightarrow> chain_sorted sid_after (t ! i)"
    "\<And>i x. i < SIDTAB_SIZE \<Longrightarrow> x \<in> set (t ! i) \<Longrightarrow> SIDTAB_HASH (fst x) = i"
    "\<And>sid. sid_map s sid = map_of (t ! SIDTAB_HASH sid) sid" "st_nel s = of_nat (length (concat t))"
    "\<And>sid con. sid_map s sid = Some con \<Longrightarrow> sid \<noteq> 0 \<and> sid < st_next_sid s \<and> context_ok con" "st_next_sid s \<noteq> 0"
    by (rule sidtab_okE) blast
  let ?i = "SIDTAB_HASH k"
  note i = SIDTAB_HASH_less [of k]
  note spec = sid.remove_spec [OF t(4) [OF i], of k]
  show ?thesis
  proof (cases "chain_remove sid_after sid_same k (t ! ?i)")
    case None
    with spec show ?thesis by (simp add: sepol_sidtab_remove_def t(1,3,6))
  next
    case (Some r)
    then obtain c x where r: "chain_remove sid_after sid_same k (t ! ?i) = Some (c, x)" by (cases r) auto
    with spec have c: "map_of (t ! ?i) k = Some (snd x)" "chain_sorted sid_after c"
      "map_of c = (map_of (t ! ?i))(k := None)" "set c \<subseteq> set (t ! ?i)" "length (t ! ?i) = Suc (length c)" by auto
    let ?s = "s\<lparr>st_htable := Some (t[?i := c]), st_nel := st_nel s - 1\<rparr>"
    have map': "sid_map ?s = (sid_map s)(k := None)"
      using i c(3) t(2) by (auto simp: fun_eq_iff sid_map_def t(1) nth_list_update)
    have "chain_sorted sid_after (t[?i := c] ! j) \<and> (\<forall>x \<in> set (t[?i := c] ! j). SIDTAB_HASH (fst x) = j)"
      if "j < SIDTAB_SIZE" for j
      using that t(2,4,5) c(2,4) by (cases "j = ?i") auto
    moreover have "length (concat t) = Suc (length (concat (t[?i := c])))"
      using length_concat_upd [of ?i t c] i t(2) c(5) by simp
    moreover have "\<forall>sid con. sid_map ?s sid = Some con \<longrightarrow> sid \<noteq> 0 \<and> sid < st_next_sid s \<and> context_ok con"
      using t(8) by (auto simp: map')
    ultimately have "sidtab_ok ?s" using t(2,7,9) unfolding sidtab_ok_def
      by (intro exI [of _ "t[?i := c]"]) simp
    with map' c(1) show ?thesis by (simp add: sepol_sidtab_remove_def t(1,3,6) r)
  qed
qed

section \<open>Reachable tables\<close>

inductive sid_step :: "sidtab \<Rightarrow> sidtab \<Rightarrow> bool" where
  step_insert: "sepol_sidtab_insert s sid con a = (Inr s', b) \<Longrightarrow> sid_adm sid con \<Longrightarrow> sid_step s s'"
| step_alloc: "sepol_sidtab_context_to_sid s con a = (Inr (s', r), b) \<Longrightarrow> context_ok con \<Longrightarrow> sid_step s s'"
| step_remove: "sepol_sidtab_remove s sid = Inr s' \<Longrightarrow> sid_step s s'"
| step_shutdown: "sid_step s (sepol_sidtab_shutdown s)"

inductive sid_reachable :: "sidtab \<Rightarrow> bool" where
  reach_init: "sepol_sidtab_init a = (Inr s, b) \<Longrightarrow> sid_reachable s"
| reach_step: "sid_reachable s \<Longrightarrow> sid_step s s' \<Longrightarrow> sid_reachable s'"

lemma sidtab_init_yields:
  "yields sepol_sidtab_init (Inr \<lparr>st_htable = Some (replicate SIDTAB_SIZE []), st_nel = 0, st_next_sid = 1, st_shutdown = False\<rparr>)"
  by (simp add: sepol_sidtab_init_def)

lemma sidtab_init_ok:
  assumes "sepol_sidtab_init a = (Inr s, b)"
  shows "sidtab_ok s" and "sid_map s = Map.empty"
proof -
  have s: "s = \<lparr>st_htable = Some (replicate SIDTAB_SIZE []), st_nel = 0, st_next_sid = 1, st_shutdown = False\<rparr>"
    using yields_Inr [OF sidtab_init_yields assms] by simp
  show m: "sid_map s = Map.empty" using SIDTAB_HASH_less by (simp add: s sid_map_def fun_eq_iff)
  then show "sidtab_ok s" by (simp add: sidtab_ok_def) (simp add: s)
qed

lemma sid_step_ok:
  assumes "sid_step s s'" and "sidtab_ok s"
  shows "sidtab_ok s' \<and> (\<forall>x. sid_map s x \<noteq> None \<longrightarrow> x < st_next_sid s')
    \<and> (\<forall>x c. sid_map s' x = Some c \<longrightarrow> sid_map s x = Some c \<or> sid_map s x = None)"
  using assms
proof (induction rule: sid_step.induct)
  case (step_insert s sid con a s' b)
  note r = sidm.ins_Inr [OF step_insert(3,2,1)]
  have "sid_map s' x \<noteq> None" if "sid_map s x \<noteq> None" for x using that r(3) by simp
  moreover from r(1) have "sid_map s' x \<noteq> None \<Longrightarrow> x < st_next_sid s'" for x by (auto elim: sidtab_okE)
  ultimately show ?case using r by auto
next
  case (step_alloc s con a s' r b)
  from step_alloc(3) have old: "sid_map s x \<noteq> None \<Longrightarrow> x < st_next_sid s" for x by (auto elim: sidtab_okE)
  from step_alloc(3,2) show ?case
  proof (cases rule: context_to_sid_cases)
    case known
    with step_alloc old show ?thesis by auto
  next
    case full
    with step_alloc old show ?thesis by auto
  next
    case (fresh s2)
    then have "s' = s2 \<or> s' = s" using step_alloc(1) fresh(8) [of a] by auto
    moreover have "x < st_next_sid s \<Longrightarrow> x < st_next_sid s + 1" for x
      using sid_succ(1) [OF fresh(6), of x] by (simp add: less_imp_le)
    moreover have "sid_map s (st_next_sid s) = None" using old by blast
    ultimately show ?thesis using fresh(2-4) old step_alloc(3) by (auto split: if_splits)
  qed
next
  case (step_remove s sid s')
  from step_remove(2) have old: "sid_map s x \<noteq> None \<Longrightarrow> x < st_next_sid s" for x by (auto elim: sidtab_okE)
  with step_remove sidtab_remove_spec [OF step_remove(2), of sid] show ?case
    by (auto split: option.splits if_splits)
next
  case (step_shutdown s)
  then have old: "sid_map s x \<noteq> None \<Longrightarrow> x < st_next_sid s" for x by (auto elim: sidtab_okE)
  have "sid_map (s\<lparr>st_shutdown := True\<rparr>) = sid_map s" by (simp add: sid_map_def fun_eq_iff)
  with step_shutdown old show ?case by (auto simp: sepol_sidtab_shutdown_def sidtab_ok_def)
qed

lemma sid_reachable_ok: "sid_reachable s \<Longrightarrow> sidtab_ok s"
  by (induction rule: sid_reachable.induct) (auto dest: sidtab_init_ok sid_step_ok)

text \<open>Interning leaves the table well formed, keeps every binding and finds the context again.\<close>

lemma sidtab_intern_spec:
  assumes "sidtab_ok s" and "context_ok con" and "sepol_sidtab_context_to_sid s con a = (Inr (s', r), b)"
  shows "case r of
      Inl e \<Rightarrow> e = ENOMEM \<and> s' = s
    | Inr sid \<Rightarrow> sidtab_ok s' \<and> sid_map s' sid = Some con \<and> sid \<noteq> 0
        \<and> (\<forall>x c. sid_map s x = Some c \<longrightarrow> sid_map s' x = Some c)
        \<and> (\<forall>a'. sepol_sidtab_context_to_sid s' con a' = (Inr (s', Inr sid), a'))"
  using assms(1,2)
proof (cases rule: context_to_sid_cases)
  case (known sid)
  with assms show ?thesis by auto
next
  case full
  with assms show ?thesis by auto
next
  case (fresh s2)
  let ?n = "st_next_sid s"
  from fresh(8) [of a] assms(3) consider (ok) "s' = s2" "r = Inr ?n" | (oom) "s' = s" "r = Inl ENOMEM" by auto
  then show ?thesis
  proof cases
    case oom
    then show ?thesis by simp
  next
    case ok
    from assms(1) have old: "sid_map s x \<noteq> None \<Longrightarrow> x < ?n" for x by (auto elim: sidtab_okE)
    then have keep: "sid_map s2 x = Some c" if "sid_map s x = Some c" for x c
      using that fresh(3) by (metis fun_upd_other option.distinct(1) order_less_irrefl)
    have again: "sepol_sidtab_context_to_sid s2 con a' = (Inr (s2, Inr ?n), a')" for a'
      using fresh(2) assms(2)
    proof (cases rule: context_to_sid_cases)
      case (known sid)
      with fresh(1,3) have "sid = ?n" by (metis fun_upd_other)
      with known show ?thesis by simp
    qed (use fresh(3) in \<open>auto split: if_splits\<close>)
    show ?thesis using ok fresh(2,3,5) keep again by simp
  qed
qed

section \<open>Cloning and converting\<close>

lemma sidtab_map_entries:
  assumes "sidtab_ok s"
  shows "sepol_sidtab_map s app x = foldE (\<lambda>(sid, con). app sid con) (sid_entries s) x"
proof -
  from assms obtain t where t: "st_htable s = Some t" "length t = SIDTAB_SIZE" "sid_entries s = concat t"
    by (rule sidtab_okE) blast
  show ?thesis using foldE_buckets [of SIDTAB_SIZE t] t by (simp add: sepol_sidtab_map_def)
qed

lemma sid_entries_map:
  assumes "sidtab_ok s"
  shows "distinct (map fst (sid_entries s))" and "map_of (sid_entries s) = sid_map s"
proof -
  from assms obtain t where t: "length t = SIDTAB_SIZE" "\<And>i. i < SIDTAB_SIZE \<Longrightarrow> chain_sorted sid_after (t ! i)"
    "\<And>i x. i < SIDTAB_SIZE \<Longrightarrow> x \<in> set (t ! i) \<Longrightarrow> SIDTAB_HASH (fst x) = i" "sid_entries s = concat t"
    by (rule sidtab_okE) blast
  have "distinct (map fst (concat (take n t))) \<and> (\<forall>x\<in>set (concat (take n t)). SIDTAB_HASH (fst x) < n)" if "n \<le> SIDTAB_SIZE" for n
    using that
  proof (induction n)
    case (Suc n)
    then have n: "n < length t" and IH: "distinct (map fst (concat (take n t)))" "\<forall>x\<in>set (concat (take n t)). SIDTAB_HASH (fst x) < n"
      using t(1) by simp_all
    have new: "\<forall>x\<in>set (t ! n). SIDTAB_HASH (fst x) = n" "distinct (map fst (t ! n))"
      using t(2,3) [of n] Suc.prems sid.distinct_keys [of "t ! n"] by auto
    have "fst ` set (concat (take n t)) \<inter> fst ` set (t ! n) = {}" using IH(2) new(1) by fastforce
    then show ?case using IH new n by (auto simp: take_Suc_conv_app_nth less_Suc_eq)
  qed simp
  from this [of SIDTAB_SIZE] show d: "distinct (map fst (sid_entries s))" using t(1,4) by simp
  show "map_of (sid_entries s) = sid_map s"
  proof
    show "map_of (sid_entries s) k = sid_map s k" for k
      using sid_map_entries [OF assms, of k] map_of_eq_Some_iff [OF d, of k] by (metis option.exhaust)
  qed
qed

text \<open>Cloning into an empty table copies every binding.\<close>

lemma sidtab_clone:
  assumes "sidtab_ok s" "sidtab_ok s0" "sid_map s0 = Map.empty"
  shows "\<exists>s'. yields (sepol_sidtab_map s (\<lambda>sid con t. sepol_sidtab_insert t sid con) s0) (Inr s') \<and> sidtab_ok s' \<and> sid_map s' = sid_map s"
proof -
  have "sid_adm k c" if "sid_map s k = Some c" for k c
  proof -
    from assms(1) have "k \<noteq> 0 \<and> k < st_next_sid s \<and> context_ok c" by (rule sidtab_okE) (use that in blast)
    then show ?thesis using word_order.not_eq_extremum [of k] by (auto simp: sid_adm_def)
  qed
  then have "\<forall>x\<in>set (sid_entries s). sid_adm (fst x) (snd x)" using sid_map_entries [OF assms(1)] by fastforce
  from sidm.ins_all [OF assms(2) sid_entries_map(1) [OF assms(1)] _ this] show ?thesis
    unfolding sidtab_map_entries [OF assms(1)] by (simp add: assms(3) sid_entries_map(2) [OF assms(1)])
qed

definition chain_updated ::
  "(u32 \<Rightarrow> context_struct \<Rightarrow> context_struct alloc_m) \<Rightarrow> (u32 \<times> context_struct) list \<Rightarrow> (u32 \<times> context_struct) list \<Rightarrow> bool"
where
  "chain_updated app c c' \<longleftrightarrow> (chain_sorted sid_after c \<longrightarrow> chain_sorted sid_after c')
     \<and> (\<forall>(sid, con')\<in>set c'. \<exists>con a b. (sid, con) \<in> set c \<and> app sid con a = (Inr con', b))"

lemma sid_chain_update_spec:
  "sid_chain_update app c a = (Inr (c', n), b) \<Longrightarrow> length c' + n = length c \<and> chain_updated app c c'"
proof (induction c arbitrary: c' n a)
  case (Cons x c)
  obtain sid con where x: "x = (sid, con)" by (cases x)
  obtain r a1 where r: "app sid con a = (r, a1)" by (cases "app sid con a")
  show ?case
  proof (cases r)
    case (Inl e)
    with Cons.prems x r obtain m where m: "sid_chain_update app c a1 = (Inr (c', m), b)" "n = m + 1"
      by (auto simp: bindE_def tryE_def returnE_def throwE_def split: if_splits prod.splits sum.splits)
    from Cons.IH [OF m(1)] m(2) show ?thesis by (fastforce simp: chain_updated_def)
  next
    case (Inr con')
    with Cons.prems x r obtain d where d: "sid_chain_update app c a1 = (Inr (d, n), b)" "c' = (sid, con') # d"
      by (auto simp: bindE_def tryE_def returnE_def split: prod.splits sum.splits)
    from Cons.IH [OF d(1)] have IH: "length d + n = length c" "chain_updated app c d" by auto
    then have "fst ` set d \<subseteq> fst ` set c" by (force simp: chain_updated_def)
    moreover have "app sid con a = (Inr con', a1)" using r Inr by simp
    ultimately show ?thesis using IH unfolding x d(2) chain_updated_def by (fastforce simp: image_subset_iff)
  qed
qed (simp add: chain_updated_def)

lemma sidtab_update_loop:
  assumes "foldE (\<lambda>i (t, n). bindE (liftE (array_get t i)) (\<lambda>c. bindE (sid_chain_update app c) (\<lambda>(c', m).
      returnE (t[i := c'], n + m)))) [0..<k] (t, 0) a = (Inr (t', n), b)" "k \<le> length t"
  shows "length t' = length t \<and> n + length (concat t') = length (concat t)
    \<and> (\<forall>i < k. chain_updated app (t ! i) (t' ! i)) \<and> (\<forall>i \<ge> k. t' ! i = t ! i)"
  using assms
proof (induction k arbitrary: t' n b)
  case (Suc k)
  let ?step = "\<lambda>i (t, n). bindE (liftE (array_get t i)) (\<lambda>c. bindE (sid_chain_update app c) (\<lambda>(c', m). returnE (t[i := c'], n + m)))"
  from Suc.prems(1) obtain t1 n1 a1 where 1: "foldE ?step [0..<k] (t, 0) a = (Inr (t1, n1), a1)"
    "?step k (t1, n1) a1 = (Inr (t', n), b)"
    by (simp add: foldE_append bindE_eq_Inr) blast
  have IH: "length t1 = length t" "n1 + length (concat t1) = length (concat t)"
    "\<forall>i < k. chain_updated app (t ! i) (t1 ! i)" "\<forall>i \<ge> k. t1 ! i = t ! i" using Suc.IH [OF 1(1)] Suc.prems(2) by auto
  from 1(2) IH(1) Suc.prems(2) obtain c m where c: "sid_chain_update app (t1 ! k) a1 = (Inr (c, m), b)" "t' = t1[k := c]" "n = n1 + m"
    by (auto simp: bindE_eq_Inr)
  note u = sid_chain_update_spec [OF c(1)]
  have "length (concat t') + length (t1 ! k) = length (concat t1) + length c"
    unfolding c(2) using IH(1) Suc.prems(2) by (intro length_concat_upd) simp
  then show ?case using IH u c(2,3) Suc.prems(2) by (auto simp: nth_list_update less_Suc_eq)
qed simp

text \<open>When no allocation fails, exactly the SIDs whose contexts convert stay, with the converted contexts.\<close>

definition converts :: "(u32 \<Rightarrow> context_struct \<Rightarrow> context_struct alloc_m) \<Rightarrow> u32 \<Rightarrow> context_struct \<Rightarrow> bool" where
  "converts app sid con \<longleftrightarrow> (\<exists>r. app sid con [] = (r, []) \<and> r \<noteq> Inl Fault \<and> r \<noteq> Inl Diverge)"

definition converted :: "(u32 \<Rightarrow> context_struct \<Rightarrow> context_struct alloc_m) \<Rightarrow> u32 \<Rightarrow> context_struct \<Rightarrow> context_struct option" where
  "converted app sid con = (case fst (app sid con []) of Inl _ \<Rightarrow> None | Inr con' \<Rightarrow> Some con')"

lemma sid_chain_update_no_oom:
  assumes "\<forall>(sid, con)\<in>set c. converts app sid con"
  shows "\<exists>c' n. sid_chain_update app c [] = (Inr (c', n), []) \<and> (distinct (map fst c) \<longrightarrow>
    (\<forall>k. map_of c' k = Option.bind (map_of c k) (converted app k)))"
  using assms
proof (induction c)
  case (Cons x c)
  obtain sid con where x: "x = (sid, con)" by (cases x)
  from Cons obtain c' n where c: "sid_chain_update app c [] = (Inr (c', n), [])"
    "distinct (map fst c) \<longrightarrow> (\<forall>k. map_of c' k = Option.bind (map_of c k) (converted app k))" by auto
  from Cons.prems x obtain r where r: "app sid con [] = (r, [])" "r \<noteq> Inl Fault" "r \<noteq> Inl Diverge" by (auto simp: converts_def)
  have none: "map_of c sid = None" if "distinct (map fst (x # c))" using that x by (simp add: map_of_eq_None_iff)
  have cv: "converted app sid con = (case r of Inl _ \<Rightarrow> None | Inr con' \<Rightarrow> Some con')" using r(1) by (simp add: converted_def)
  show ?case
    using c r none cv by (cases r) (auto simp: x bindE_def tryE_def returnE_def)
qed (simp add: returnE_def)

lemma sidtab_convert_no_oom:
  assumes "sidtab_ok s" "\<And>sid con. sid_map s sid = Some con \<Longrightarrow> converts app sid con"
  shows "\<exists>s'. sepol_sidtab_map_remove_on_error s app [] = (Inr s', [])
    \<and> (\<forall>sid. sid_map s' sid = Option.bind (sid_map s sid) (converted app sid))"
proof -
  from assms(1) obtain t where t: "st_htable s = Some t" "length t = SIDTAB_SIZE"
    "\<And>i. i < SIDTAB_SIZE \<Longrightarrow> chain_sorted sid_after (t ! i)" "sid_entries s = concat t"
    "\<And>sid. sid_map s sid = map_of (t ! SIDTAB_HASH sid) sid"
    by (rule sidtab_okE) blast
  let ?step = "\<lambda>i (t, n). bindE (liftE (array_get t i)) (\<lambda>c. bindE (sid_chain_update app c) (\<lambda>(c', m). returnE (t[i := c'], n + m)))"
  have conv: "\<forall>(sid, con)\<in>set (t ! i). converts app sid con" if "i < SIDTAB_SIZE" for i
    using that t(2) assms(2) sid_map_entries [OF assms(1)] unfolding t(4) by fastforce
  have "\<exists>t' n. foldE ?step [0..<k] (t, 0) [] = (Inr (t', n), []) \<and> length t' = SIDTAB_SIZE \<and> (\<forall>i \<ge> k. t' ! i = t ! i)
      \<and> (\<forall>i < k. \<forall>sid. map_of (t' ! i) sid = Option.bind (map_of (t ! i) sid) (converted app sid))" if "k \<le> SIDTAB_SIZE" for k
    using that
  proof (induction k)
    case 0
    then show ?case by (simp add: t(2) returnE_def)
  next
    case (Suc k)
    then obtain t' n where IH: "foldE ?step [0..<k] (t, 0) [] = (Inr (t', n), [])" "length t' = SIDTAB_SIZE" "\<forall>i \<ge> k. t' ! i = t ! i"
      "\<forall>i < k. \<forall>sid. map_of (t' ! i) sid = Option.bind (map_of (t ! i) sid) (converted app sid)" by auto
    have k: "k < SIDTAB_SIZE" using Suc.prems by simp
    have "distinct (map fst (t ! k))" using t(3) [OF k] by (rule sid.distinct_keys)
    with sid_chain_update_no_oom [OF conv [OF k]] obtain c m where c: "sid_chain_update app (t ! k) [] = (Inr (c, m), [])"
      "\<forall>sid. map_of c sid = Option.bind (map_of (t ! k) sid) (converted app sid)" by blast
    have "foldE ?step [0..<Suc k] (t, 0) [] = (Inr (t'[k := c], n + m), [])"
      using IH(1-3) c(1) k by (simp add: foldE_append bindE_def liftE_def returnE_def)
    then show ?case using IH(2-4) c(2) k by (auto simp: less_Suc_eq)
  qed
  from this [OF order_refl] obtain t' n where t': "foldE ?step [0..<SIDTAB_SIZE] (t, 0) [] = (Inr (t', n), [])"
    "\<forall>i < SIDTAB_SIZE. \<forall>sid. map_of (t' ! i) sid = Option.bind (map_of (t ! i) sid) (converted app sid)" by blast
  then have "sepol_sidtab_map_remove_on_error s app [] = (Inr (s\<lparr>st_htable := Some t', st_nel := st_nel s - of_nat n\<rparr>), [])"
    unfolding sepol_sidtab_map_remove_on_error_def t(1) by (simp add: bindE_def returnE_def del: upt_rec_numeral)
  moreover have "sid_map (s\<lparr>st_htable := Some t', st_nel := st_nel s - of_nat n\<rparr>) sid = Option.bind (sid_map s sid) (converted app sid)" for sid
    using t'(2) SIDTAB_HASH_less by (simp add: t(5)) (simp add: sid_map_def)
  ultimately show ?thesis by blast
qed

text \<open>Converting keeps the table well formed; what is left are converted contexts of SIDs that were bound.\<close>

lemma sidtab_convert:
  assumes "sidtab_ok s" "sepol_sidtab_map_remove_on_error s app a = (Inr s', b)"
    and "\<And>sid con con' a b. context_ok con \<Longrightarrow> app sid con a = (Inr con', b) \<Longrightarrow> context_ok con'"
  shows "sidtab_ok s'" and "sid_map s' sid = Some con' \<Longrightarrow> \<exists>con a b. sid_map s sid = Some con \<and> app sid con a = (Inr con', b)"
proof -
  from assms(1) obtain t where t: "st_htable s = Some t" "length t = SIDTAB_SIZE"
    "\<And>i. i < SIDTAB_SIZE \<Longrightarrow> chain_sorted sid_after (t ! i)"
    "\<And>i x. i < SIDTAB_SIZE \<Longrightarrow> x \<in> set (t ! i) \<Longrightarrow> SIDTAB_HASH (fst x) = i"
    "\<And>sid. sid_map s sid = map_of (t ! SIDTAB_HASH sid) sid" "st_nel s = of_nat (length (concat t))"
    "\<And>sid con. sid_map s sid = Some con \<Longrightarrow> sid \<noteq> 0 \<and> sid < st_next_sid s \<and> context_ok con" "st_next_sid s \<noteq> 0"
    by (rule sidtab_okE) blast
  from assms(2) t(1) obtain t' n where s': "s' = s\<lparr>st_htable := Some t', st_nel := st_nel s - of_nat n\<rparr>" and
    l: "foldE (\<lambda>i (t, n). bindE (liftE (array_get t i)) (\<lambda>c. bindE (sid_chain_update app c) (\<lambda>(c', m).
      returnE (t[i := c'], n + m)))) [0..<SIDTAB_SIZE] (t, 0) a = (Inr (t', n), b)"
    by (auto simp: sepol_sidtab_map_remove_on_error_def bindE_eq_Inr)
  have u: "length t' = SIDTAB_SIZE" "n + length (concat t') = length (concat t)"
    "\<And>i. i < SIDTAB_SIZE \<Longrightarrow> chain_updated app (t ! i) (t' ! i)"
    using sidtab_update_loop [OF l] t(2) by auto
  have map': "sid_map s' k = map_of (t' ! SIDTAB_HASH k) k" for k by (simp add: sid_map_def s')
  have conv: "\<exists>con a b. sid_map s k = Some con \<and> app k con a = (Inr c', b)" if "sid_map s' k = Some c'" for k c'
  proof -
    from that have "(k, c') \<in> set (t' ! SIDTAB_HASH k)" by (simp add: map' map_of_SomeD)
    with u(3) [OF SIDTAB_HASH_less, of k] obtain con a b where "(k, con) \<in> set (t ! SIDTAB_HASH k)" "app k con a = (Inr c', b)"
      by (fastforce simp: chain_updated_def)
    moreover have "distinct (map fst (t ! SIDTAB_HASH k))" using t(3) SIDTAB_HASH_less sid.distinct_keys by blast
    ultimately show ?thesis by (auto simp: t(5))
  qed
  then show "sid_map s' sid = Some con' \<Longrightarrow> \<exists>con a b. sid_map s sid = Some con \<and> app sid con a = (Inr con', b)" .
  have "chain_sorted sid_after (t' ! i) \<and> (\<forall>x\<in>set (t' ! i). SIDTAB_HASH (fst x) = i)" if "i < SIDTAB_SIZE" for i
    using u(3) [OF that] t(3,4) [OF that] by (fastforce simp: chain_updated_def)
  moreover have "st_nel s' = of_nat (length (concat t'))" by (simp add: s' t(6) flip: u(2))
  moreover have "k \<noteq> 0 \<and> k < st_next_sid s' \<and> context_ok c'" if "sid_map s' k = Some c'" for k c'
    using conv [OF that] t(7) assms(3) by (fastforce simp: s')
  ultimately show "sidtab_ok s'" unfolding sidtab_ok_def using u(1) t(8) by (intro exI [of _ t']) (simp add: s')
qed

section \<open>Properties\<close>


text \<open>Claim C30. Interning a context: \<open>sepol_sidtab_context_to_sid\<close> returns a SID that \<open>sepol_sidtab_search\<close> maps
  back to the same context, disturbs no other SID, and answers the same SID ever after; when it
  cannot allocate it returns \<open>ENOMEM\<close> and leaves the table as it was.\<close>

theorem sidtab_intern:
  assumes "sidtab_ok s" and "context_ok con" and "sepol_sidtab_context_to_sid s con a = (Inr (s', r), b)"
  shows "case r of
      Inl e \<Rightarrow> e = ENOMEM \<and> s' = s
    | Inr sid \<Rightarrow> sidtab_ok s' \<and> sepol_sidtab_search s' sid = Inr (Some con)
        \<and> (\<forall>x c. sid_map s x = Some c \<longrightarrow> sepol_sidtab_search s' x = Inr (Some c))
        \<and> (\<forall>a'. sepol_sidtab_context_to_sid s' con a' = (Inr (s', Inr sid), a'))"
  using sidtab_intern_spec [OF assms] by (cases r) (auto simp: sidm.lookup_bound)

text \<open>SIDs are not recycled: a SID that \<open>sepol_sidtab_context_to_sid\<close> allocates was not bound in the
  state before any single operation that led there, and a SID that stays bound keeps its context.\<close>

theorem sidtab_no_reuse:
  assumes "sid_reachable s0" and "sid_step s0 s" and "context_ok con"
    and "sepol_sidtab_context_to_sid s con a = (Inr (s', Inr sid), b)" and "sid_map s sid = None"
  shows "sid_map s0 sid = None \<and>
    (\<forall>x c c'. sid_map s0 x = Some c \<longrightarrow> sid_map s x = Some c' \<longrightarrow> c' = c)"
proof -
  note ok0 = sid_reachable_ok [OF assms(1)]
  note st = sid_step_ok [OF assms(2) ok0]
  from st have ok: "sidtab_ok s" by blast
  have "sid = st_next_sid s"
    using ok assms(3)
  proof (cases rule: context_to_sid_cases)
    case (fresh s2)
    then show ?thesis using fresh(8) [of a] assms(4) by auto
  qed (use assms(4,5) in auto)
  with st show ?thesis by fastforce
qed

section \<open>Witnesses\<close>

definition sidtab_ex :: sidtab where
  "sidtab_ex = \<lparr>st_htable = Some (replicate SIDTAB_SIZE []), st_nel = 0, st_next_sid = 1, st_shutdown = False\<rparr>"

lemma sidtab_ex_init: "sepol_sidtab_init [] = (Inr sidtab_ex, [])"
  using yields_no_oom [OF sidtab_init_yields] by (simp add: sidtab_ex_def)

lemma sidtab_ex_fields: "st_next_sid sidtab_ex = 1" "\<not> st_shutdown sidtab_ex"
  by (simp_all add: sidtab_ex_def)

lemmas sidtab_ex_facts = sidtab_init_ok [OF sidtab_ex_init] sidtab_ex_fields


lemma sidtab_ex_fresh:
  "\<exists>s'. sepol_sidtab_context_to_sid sidtab_ex context_init [] = (Inr (s', Inr 1), [])"
  using sidtab_ex_facts(1) level_init_ok(3)
  by (cases rule: context_to_sid_cases) (auto simp: sidtab_ex_facts)

theorem sidtab_intern_witness:
  "\<exists>s'. sepol_sidtab_context_to_sid sidtab_ex context_init [] = (Inr (s', Inr 1), [])
     \<and> sepol_sidtab_search s' 1 = Inr (Some context_init)"
proof -
  from sidtab_ex_fresh obtain s' where "sepol_sidtab_context_to_sid sidtab_ex context_init [] = (Inr (s', Inr 1), [])" ..
  with sidtab_intern [OF sidtab_ex_facts(1) level_init_ok(3) this] show ?thesis by auto
qed

theorem sidtab_no_reuse_witness:
  "\<exists>s s'. sid_step sidtab_ex s \<and> sepol_sidtab_context_to_sid s (context_init\<lparr>c_user := 4\<rparr>) [] = (Inr (s', Inr 6), [])
     \<and> sid_map sidtab_ex 6 = None"
proof -
  let ?c = "context_init\<lparr>c_user := 4\<rparr>"
  have c: "context_ok ?c" using level_init_ok(3) by (simp add: context_ok_def)
  have adm: "sid_adm 5 context_init" by (simp add: sid_adm_def)
  from sidtab_insert_new [OF sidtab_ex_facts(1) _ adm] obtain s where
    s: "yields (sepol_sidtab_insert sidtab_ex 5 context_init) (Inr s)" "sidtab_ok s" "sid_map s = [5 \<mapsto> context_init]"
    "st_next_sid s = 6" "\<not> st_shutdown s" by (auto simp: sidtab_ex_facts word_le_nat_alt)
  have st: "sid_step sidtab_ex s" by (rule step_insert [OF yields_no_oom [OF s(1)] adm])
  have ne: "context_init \<noteq> ?c" by (simp add: context_init_def)
  have "\<exists>s'. sepol_sidtab_context_to_sid s ?c [] = (Inr (s', Inr 6), [])"
    using s(2) c by (cases rule: context_to_sid_cases) (auto simp: s(3-5) ne split: if_splits)
  then obtain s' where s': "sepol_sidtab_context_to_sid s ?c [] = (Inr (s', Inr 6), [])" ..
  from sidtab_no_reuse [OF reach_init [OF sidtab_ex_init] st c s'] s(3) s' st show ?thesis by auto
qed

end
