(* ===== verification/Services.thy ===== *)
theory Services
  imports Contexts Conditional Sidtab
begin

text \<open>
  The security server (services.c): access vector computation with constraints, the names of classes
  and permissions, the conversion between SIDs and texts, and the computation of the SIDs of new
  objects. The static variables of services.c are the fields of the record \<open>services\<close>. Not modelled: the
  text that explains why a constraint failed, and the allocations that only fill or grow it; the
  allocations whose failure changes the return code are modelled.
\<close>

unbundle bit_operations_syntax

record services =
  sv_policydb :: policydb
  sv_sidtab :: sidtab
  selinux_enforcing :: bool
  latest_granting :: u32

section \<open>Constraints\<close>

abbreviation "CEXPR_USER \<equiv> 1 :: u32"
abbreviation "CEXPR_ROLE \<equiv> 2 :: u32"
abbreviation "CEXPR_TYPE \<equiv> 4 :: u32"
abbreviation "CEXPR_TARGET \<equiv> 8 :: u32"
abbreviation "STACK_LEN \<equiv> 32 :: nat"

text \<open>The two levels that a level attribute compares.\<close>

definition attr_levels :: "u32 \<Rightarrow> context_struct \<Rightarrow> context_struct \<Rightarrow> (mls_level \<times> mls_level) option" where
  "attr_levels attr sc tc =
     (if attr = 32 then Some (low (c_range sc), low (c_range tc))
      else if attr = 64 then Some (low (c_range sc), high (c_range tc))
      else if attr = 128 then Some (high (c_range sc), low (c_range tc))
      else if attr = 256 then Some (high (c_range sc), high (c_range tc))
      else if attr = 512 then Some (low (c_range sc), high (c_range sc))
      else if attr = 1024 then Some (low (c_range tc), high (c_range tc))
      else None)"

text \<open>In the results below \<open>None\<close> is the exit through \<open>BUG(); goto out\<close>.\<close>

definition mls_ops :: "cexpr_op \<Rightarrow> mls_level \<Rightarrow> mls_level \<Rightarrow> bool option" where
  "mls_ops cop l1 l2 = (case cop of
     CEXPR_EQ \<Rightarrow> Some (mls_level_eq l1 l2) | CEXPR_NEQ \<Rightarrow> Some (\<not> mls_level_eq l1 l2)
   | CEXPR_DOM \<Rightarrow> Some (mls_level_dom l1 l2) | CEXPR_DOMBY \<Rightarrow> Some (mls_level_dom l2 l1)
   | CEXPR_INCOMP \<Rightarrow> Some (mls_level_incomp l2 l1) | CEXPR_OP_OTHER _ \<Rightarrow> None)"

definition val_ops :: "cexpr_op \<Rightarrow> bool \<Rightarrow> bool option" where
  "val_ops cop same = (case cop of CEXPR_EQ \<Rightarrow> Some same | CEXPR_NEQ \<Rightarrow> Some (\<not> same) | _ \<Rightarrow> None)"

definition role_ops :: "policydb \<Rightarrow> cexpr_op \<Rightarrow> u32 \<Rightarrow> u32 \<Rightarrow> bool option res" where
  "role_ops p cop val1 val2 =
     bindR (val_get (role_val_to_struct p) val1) (\<lambda>r1. bindR (val_get (role_val_to_struct p) val2) (\<lambda>r2.
     case cop of
       CEXPR_DOM \<Rightarrow> bindR (deref r1) (\<lambda>r. Inr (Some (ebitmap_get_bit (rd_dominates r) (val2 - 1))))
     | CEXPR_DOMBY \<Rightarrow> bindR (deref r2) (\<lambda>r. Inr (Some (ebitmap_get_bit (rd_dominates r) (val1 - 1))))
     | CEXPR_INCOMP \<Rightarrow> bindR (deref r1) (\<lambda>r. if ebitmap_get_bit (rd_dominates r) (val2 - 1) then Inr (Some False)
         else bindR (deref r2) (\<lambda>r'. Inr (Some (\<not> ebitmap_get_bit (rd_dominates r') (val1 - 1)))))
     | _ \<Rightarrow> Inr (val_ops cop (val1 = val2))))"

definition cexpr_attr :: "policydb \<Rightarrow> context_struct \<Rightarrow> context_struct \<Rightarrow> constraint_expr \<Rightarrow> bool option res" where
  "cexpr_attr p sc tc e =
     (if ce_attr e = CEXPR_USER then Inr (val_ops (ce_op e) (c_user sc = c_user tc))
      else if ce_attr e = CEXPR_TYPE then Inr (val_ops (ce_op e) (c_type sc = c_type tc))
      else if ce_attr e = CEXPR_ROLE then role_ops p (ce_op e) (c_role sc) (c_role tc)
      else case attr_levels (ce_attr e) sc tc of
        Some (l1, l2) \<Rightarrow> Inr (mls_ops (ce_op e) l1 l2)
      | None \<Rightarrow> Inr None)"

text \<open>\<open>get_name_list\<close> looks up the name of every member of the set for its text.\<close>

definition get_name_list :: "policydb \<Rightarrow> constraint_expr \<Rightarrow> u32 \<Rightarrow> unit res" where
  "get_name_list p e typ =
     (let types = (if policyvers p \<ge> POLICYDB_VERSION_CONSTRAINT_NAMES \<and> typ = CEXPR_TYPE then ts_types (ce_type_names e) else ce_names e);
          names = (if typ = CEXPR_USER then p_user_val_to_name p
                   else if typ = CEXPR_ROLE then p_role_val_to_name p else p_type_val_to_name p) in
      foldR (\<lambda>i _. if ebitmap_get_bit types (of_nat i) then bindR (array_get names i) (\<lambda>_. Inr ()) else Inr ())
        [unat (ebitmap_startbit types)..<unat (ebitmap_length types)] ())"

definition cexpr_names ::
  "policydb \<Rightarrow> context_struct \<Rightarrow> context_struct \<Rightarrow> context_struct option \<Rightarrow> constraint_expr \<Rightarrow> bool option res"
where
  "cexpr_names p sc tc xc e =
     (case (if ce_attr e AND CEXPR_TARGET \<noteq> 0 then Some tc
            else if ce_attr e AND CEXPR_XTARGET \<noteq> 0 then xc else Some sc) of
        None \<Rightarrow> Inr None
      | Some c \<Rightarrow>
          (case (if ce_attr e AND CEXPR_USER \<noteq> 0 then Some (CEXPR_USER, c_user c)
                 else if ce_attr e AND CEXPR_ROLE \<noteq> 0 then Some (CEXPR_ROLE, c_role c)
                 else if ce_attr e AND CEXPR_TYPE \<noteq> 0 then Some (CEXPR_TYPE, c_type c) else None) of
             None \<Rightarrow> Inr None
           | Some (u_r_t, val1) \<Rightarrow>
               (case val_ops (ce_op e) (ebitmap_get_bit (ce_names e) (val1 - 1)) of
                  None \<Rightarrow> Inr None
                | Some b \<Rightarrow> bindR (get_name_list p e u_r_t) (\<lambda>_. Inr (Some b)))))"

text \<open>One expression on the stack. \<open>BUG_ON\<close> only prints, so an operator without its operands reads
  below the stack.\<close>

definition cexpr_step ::
  "policydb \<Rightarrow> context_struct \<Rightarrow> context_struct \<Rightarrow> context_struct option \<Rightarrow> constraint_expr \<Rightarrow> int list \<Rightarrow> int list option res"
where
  "cexpr_step p sc tc xc e s = (case ce_type e of
     CEXPR_NOT \<Rightarrow> (case s of x # r \<Rightarrow> Inr (Some (c_bool (x = 0) # r)) | _ \<Rightarrow> Inl Fault)
   | CEXPR_AND \<Rightarrow> (case s of y # x # r \<Rightarrow> Inr (Some ((x AND y) # r)) | _ \<Rightarrow> Inl Fault)
   | CEXPR_OR \<Rightarrow> (case s of y # x # r \<Rightarrow> Inr (Some ((x OR y) # r)) | _ \<Rightarrow> Inl Fault)
   | CEXPR_ATTR \<Rightarrow> if length s = CEXPR_MAXDEPTH then Inr None
       else bindR (cexpr_attr p sc tc e) (\<lambda>r. Inr (map_option (\<lambda>b. c_bool b # s) r))
   | CEXPR_NAMES \<Rightarrow> if length s = CEXPR_MAXDEPTH then Inr None
       else bindR (cexpr_names p sc tc xc e) (\<lambda>r. Inr (map_option (\<lambda>b. c_bool b # s) r))
   | CEXPR_OTHER _ \<Rightarrow> Inr None)"

text \<open>The loop over the expressions; \<open>k\<close> is \<open>expr_counter\<close> and \<open>n\<close> the length of \<open>expr_list\<close>. The exits of
  the loop free the entries of \<open>expr_list\<close> up to the first null, which nothing has stored there: with
  entries in use that reads memory that was never written.\<close>

fun cexpr_loop ::
  "policydb \<Rightarrow> context_struct \<Rightarrow> context_struct \<Rightarrow> context_struct option \<Rightarrow> nat \<Rightarrow> nat \<Rightarrow> constraint_expr list \<Rightarrow> int list
     \<Rightarrow> int list option alloc_m"
where
  "cexpr_loop p sc tc xc k n [] s = returnE (Some s)"
| "cexpr_loop p sc tc xc k n (e # es) s =
     (let n' = (if n = 0 then STACK_LEN else n * 2) in
      bindE (if k \<ge> n then failE malloc (if k = 0 then ENOMEM else Fault) else returnE ()) (\<lambda>_.
      bindE malloc (\<lambda>_. bindE (liftE (cexpr_step p sc tc xc e s)) (\<lambda>r. case r of
        None \<Rightarrow> if k = 0 then returnE None else throwE Fault
      | Some s' \<Rightarrow> cexpr_loop p sc tc xc (Suc k) (if k \<ge> n then n' else n) es s'))))"

text \<open>The class name is read for the text, with \<open>tclass - 1\<close> computed as an \<open>int\<close>.\<close>

definition get_class_info :: "policydb \<Rightarrow> u16 \<Rightarrow> unit alloc_m" where
  "get_class_info p tclass = bindE malloc (\<lambda>_.
     if tclass = 0 then throwE Fault
     else bindE (liftE (array_get (p_class_val_to_name p) (unat tclass - 1))) (\<lambda>_. returnE ()))"

definition is_operator :: "constraint_expr \<Rightarrow> bool" where
  "is_operator e \<longleftrightarrow> ce_type e = CEXPR_NOT \<or> ce_type e = CEXPR_AND \<or> ce_type e = CEXPR_OR"

text \<open>The result is the return code: the value of the expression, 0 for an expression that cannot be
  evaluated, and \<open>-ENOMEM\<close>. The conversion to infix text allocates one buffer per operator.\<close>

definition constraint_expr_eval_reason ::
  "policydb \<Rightarrow> context_struct \<Rightarrow> context_struct \<Rightarrow> context_struct option \<Rightarrow> u16 \<Rightarrow> constraint_node \<Rightarrow> int alloc_m"
where
  "constraint_expr_eval_reason p sc tc xc tclass con =
     bindE (tryE
       (bindE (get_class_info p tclass) (\<lambda>_.
        bindE (cexpr_loop p sc tc xc 0 0 (cn_expr con) []) (\<lambda>r. case r of
          None \<Rightarrow> returnE 0
        | Some s \<Rightarrow>
            if s = [] then throwE Fault
            else bindE malloc (\<lambda>_. bindE (foldE (\<lambda>_ _. malloc) (filter is_operator (cn_expr con)) ()) (\<lambda>_.
              returnE (last s)))))))
     (\<lambda>r. case r of Inr v \<Rightarrow> returnE v | Inl ENOMEM \<Rightarrow> returnE (-12) | Inl e \<Rightarrow> throwE e)"

section \<open>Access vectors\<close>

abbreviation "SEPOL_COMPUTEAV_TE \<equiv> 1 :: u32"
abbreviation "SEPOL_COMPUTEAV_CONS \<equiv> 2 :: u32"
abbreviation "SEPOL_COMPUTEAV_RBAC \<equiv> 4 :: u32"
abbreviation "PROCESS__TRANSITION \<equiv> 2 :: u32"
abbreviation "PROCESS__DYNTRANSITION \<equiv> 0x00800000 :: u32"

definition te_av_step :: "avtab_node \<Rightarrow> av_decision \<Rightarrow> av_decision" where
  "te_av_step n avd =
     (if specified (av_key n) = AVTAB_ALLOWED then avd\<lparr>allowed := allowed avd OR av_data n\<rparr>
      else if specified (av_key n) = AVTAB_AUDITALLOW then avd\<lparr>auditallow := auditallow avd OR av_data n\<rparr>
      else if specified (av_key n) = AVTAB_AUDITDENY then avd\<lparr>auditdeny := auditdeny avd AND av_data n\<rparr>
      else avd)"

text \<open>The rules of one pair of types or attributes.\<close>

definition pair_av :: "policydb \<Rightarrow> u16 \<Rightarrow> u32 \<Rightarrow> u32 \<Rightarrow> av_decision \<Rightarrow> av_decision res" where
  "pair_av p tclass i j avd =
     (let avkey = \<lparr>source_type = ucast (i + 1), target_type = ucast (j + 1), target_class = tclass, specified = AVTAB_AV\<rparr> in
      bindR (avtab_each_node (te_avtab p) avkey) (\<lambda>ns.
        cond_compute_av (te_cond_avtab p) avkey (fold te_av_step ns avd)))"

definition te_av :: "policydb \<Rightarrow> context_struct \<Rightarrow> context_struct \<Rightarrow> u16 \<Rightarrow> av_decision \<Rightarrow> av_decision res" where
  "te_av p sc tc tclass avd =
     bindR (array_get (type_attr_map p) (unat (c_type sc - 1))) (\<lambda>sattr.
     bindR (array_get (type_attr_map p) (unat (c_type tc - 1))) (\<lambda>tattr.
     bindR (ebitmap_positive_bits sattr) (\<lambda>is.
       foldR (\<lambda>i avd. bindR (ebitmap_positive_bits tattr) (\<lambda>js. foldR (pair_av p tclass i) js avd)) is avd)))"

text \<open>A constraint on a permission that is allowed so far takes its permissions away when it evaluates to
  0; every other return code, \<open>-ENOMEM\<close> included, counts as satisfied.\<close>

fun apply_constraints ::
  "policydb \<Rightarrow> context_struct \<Rightarrow> context_struct \<Rightarrow> u16 \<Rightarrow> constraint_node list \<Rightarrow> u32 \<Rightarrow> u32 alloc_m"
where
  "apply_constraints p sc tc tclass [] av = returnE av"
| "apply_constraints p sc tc tclass (con # cs) av =
     (if cn_permissions con AND av \<noteq> 0 then
        bindE (constraint_expr_eval_reason p sc tc None tclass con) (\<lambda>rc.
          apply_constraints p sc tc tclass cs (if rc = 0 then av AND NOT (cn_permissions con) else av))
      else apply_constraints p sc tc tclass cs av)"

definition role_allowed :: "policydb \<Rightarrow> u32 \<Rightarrow> u32 \<Rightarrow> bool" where
  "role_allowed p r1 r2 = list_ex (\<lambda>ra. r1 = ra_role ra \<and> r2 = ra_new_role ra) (role_allows p)"

definition role_transition_av :: "policydb \<Rightarrow> context_struct \<Rightarrow> context_struct \<Rightarrow> u16 \<Rightarrow> u32 \<Rightarrow> u32" where
  "role_transition_av p sc tc tclass av =
     (if ucast tclass = SECCLASS_PROCESS \<and> av AND (PROCESS__TRANSITION OR PROCESS__DYNTRANSITION) \<noteq> 0
         \<and> c_role sc \<noteq> c_role tc \<and> \<not> role_allowed p (c_role sc) (c_role tc)
      then av AND NOT (PROCESS__TRANSITION OR PROCESS__DYNTRANSITION) else av)"

text \<open>The result is the decision and the reason.\<close>

definition context_struct_compute_av ::
  "services \<Rightarrow> context_struct \<Rightarrow> context_struct \<Rightarrow> u16 \<Rightarrow> u32 \<Rightarrow> (av_decision \<times> u32) alloc_m"
where
  "context_struct_compute_av sv sc tc tclass requested0 =
     (let p = sv_policydb sv in
      if tclass = 0 \<or> ucast tclass > nprim (p_classes p) then throwE EINVAL
      else bindE (liftE (val_get (class_val_to_struct p) (ucast tclass))) (\<lambda>tclass_datum.
        bindE (liftE (te_av p sc tc tclass
          \<lparr>allowed = 0, decided = -1, auditallow = 0, auditdeny = -1, seqno = latest_granting sv\<rparr>)) (\<lambda>avd1.
        let reason1 = (if requested0 AND NOT (allowed avd1) \<noteq> 0 then SEPOL_COMPUTEAV_TE else 0);
            requested1 = requested0 AND allowed avd1 in
        bindE (liftE (deref tclass_datum)) (\<lambda>cladatum.
        bindE (apply_constraints p sc tc tclass (cd_constraints cladatum) (allowed avd1)) (\<lambda>av2.
        let reason2 = (if requested1 AND NOT av2 \<noteq> 0 then reason1 OR SEPOL_COMPUTEAV_CONS else reason1);
            requested2 = requested1 AND av2;
            av3 = role_transition_av p sc tc tclass av2;
            reason3 = (if requested2 AND NOT av3 \<noteq> 0 then reason2 OR SEPOL_COMPUTEAV_RBAC else reason2) in
        returnE (avd1\<lparr>allowed := av3\<rparr>, reason3))))))"

definition sepol_compute_av_reason :: "services \<Rightarrow> u32 \<Rightarrow> u32 \<Rightarrow> u16 \<Rightarrow> u32 \<Rightarrow> (av_decision \<times> u32) alloc_m" where
  "sepol_compute_av_reason sv ssid tsid tclass requested =
     bindE (liftE (sepol_sidtab_search (sv_sidtab sv) ssid)) (\<lambda>sr. case sr of
       None \<Rightarrow> throwE EINVAL
     | Some scontext \<Rightarrow> bindE (liftE (sepol_sidtab_search (sv_sidtab sv) tsid)) (\<lambda>tr. case tr of
         None \<Rightarrow> throwE EINVAL
       | Some tcontext \<Rightarrow> context_struct_compute_av sv scontext tcontext tclass requested))"

definition sepol_compute_av :: "services \<Rightarrow> u32 \<Rightarrow> u32 \<Rightarrow> u16 \<Rightarrow> u32 \<Rightarrow> av_decision alloc_m" where
  "sepol_compute_av sv ssid tsid tclass requested =
     bindE (sepol_compute_av_reason sv ssid tsid tclass requested) (\<lambda>(avd, reason). returnE avd)"

fun check_validatetrans ::
  "policydb \<Rightarrow> context_struct \<Rightarrow> context_struct \<Rightarrow> context_struct \<Rightarrow> constraint_node list \<Rightarrow> unit alloc_m"
where
  "check_validatetrans p oc nc tc [] = returnE ()"
| "check_validatetrans p oc nc tc (con # cs) =
     bindE (constraint_expr_eval_reason p oc nc (Some tc) 0 con) (\<lambda>rc.
       if rc = 0 then throwE EPERM else check_validatetrans p oc nc tc cs)"

definition sepol_validate_transition :: "services \<Rightarrow> u32 \<Rightarrow> u32 \<Rightarrow> u32 \<Rightarrow> u16 \<Rightarrow> unit alloc_m" where
  "sepol_validate_transition sv oldsid newsid tasksid tclass =
     (let p = sv_policydb sv in
      if tclass = 0 \<or> ucast tclass > nprim (p_classes p) then throwE EINVAL
      else bindE (liftE (val_get (class_val_to_struct p) (ucast tclass))) (\<lambda>tclass_datum.
        bindE (liftE (sepol_sidtab_search (sv_sidtab sv) oldsid)) (\<lambda>o_r. case o_r of None \<Rightarrow> throwE EINVAL
        | Some ocontext \<Rightarrow>
        bindE (liftE (sepol_sidtab_search (sv_sidtab sv) newsid)) (\<lambda>n_r. case n_r of None \<Rightarrow> throwE EINVAL
        | Some ncontext \<Rightarrow>
        bindE (liftE (sepol_sidtab_search (sv_sidtab sv) tasksid)) (\<lambda>t_r. case t_r of None \<Rightarrow> throwE EINVAL
        | Some tcontext \<Rightarrow>
            bindE (liftE (deref tclass_datum)) (\<lambda>cladatum.
              check_validatetrans p ocontext ncontext tcontext (cd_validatetrans cladatum)))))))"

section \<open>Names of classes and permissions\<close>

text \<open>The loop ends at a null name, which the table does not have: it is as long as there are classes. The
  counter has 16 bits.\<close>

function find_class :: "string option list \<Rightarrow> string \<Rightarrow> nat \<Rightarrow> u16 res" where
  "find_class names nm i =
     (if i \<ge> length names \<or> i \<ge> 65535 then Inl Fault
      else case names ! i of
        None \<Rightarrow> Inl STATUS_ERR
      | Some c \<Rightarrow> if strcmp c nm = 0 then Inr (of_nat (i + 1)) else find_class names nm (i + 1))"
  by pat_completeness auto
termination
  by (relation "measure (\<lambda>(names, nm, i). length names - i)") auto

declare find_class.simps [simp del]

definition sepol_string_to_security_class :: "services \<Rightarrow> string \<Rightarrow> u16 res" where
  "sepol_string_to_security_class sv class_name = find_class (p_class_val_to_name (sv_policydb sv)) class_name 0"

text \<open>\<open>0x1 << (value - 1)\<close>, undefined for a shift by 32 or more.\<close>

definition perm_bit :: "perm_datum \<Rightarrow> u32 res" where
  "perm_bit d = (let n = unat (pd_value d - 1) in if n < 32 then Inr (push_bit n 1) else Inl Fault)"

definition sepol_string_to_av_perm :: "services \<Rightarrow> u16 \<Rightarrow> string \<Rightarrow> u32 res" where
  "sepol_string_to_av_perm sv tclass perm_name =
     (let p = sv_policydb sv in
      if tclass = 0 \<or> ucast tclass > nprim (p_classes p) then Inl EINVAL
      else bindR (val_deref (class_val_to_struct p) (ucast tclass)) (\<lambda>tclass_datum.
        bindR (hashtab_search (table (cd_permissions tclass_datum)) perm_name) (\<lambda>pd. case pd of
          Some d \<Rightarrow> perm_bit d
        | None \<Rightarrow> (case cd_comdatum tclass_datum of
            None \<Rightarrow> Inl STATUS_ERR
          | Some com \<Rightarrow> bindR (hashtab_search (table (cmd_permissions com)) perm_name) (\<lambda>pd'. case pd' of
              Some d \<Rightarrow> perm_bit d | None \<Rightarrow> Inl STATUS_ERR)))))"

section \<open>Contexts and SIDs\<close>

definition sepol_sid_to_context :: "services \<Rightarrow> u32 \<Rightarrow> (string \<times> nat) alloc_m" where
  "sepol_sid_to_context sv sid = bindE (liftE (sepol_sidtab_search (sv_sidtab sv) sid)) (\<lambda>r. case r of
     None \<Rightarrow> throwE EINVAL
   | Some con \<Rightarrow> context_to_string (sv_policydb sv) con)"

text \<open>A SID for a context: the state is part of the result also when that fails.\<close>

definition sid_for :: "services \<Rightarrow> context_struct \<Rightarrow> (services \<times> u32 res) alloc_m" where
  "sid_for sv con = bindE (sepol_sidtab_context_to_sid (sv_sidtab sv) con) (\<lambda>(s', r).
     returnE (sv\<lparr>sv_sidtab := s'\<rparr>, r))"

text \<open>\<open>sid_wanted\<close> is false for a null \<open>sid\<close> argument.\<close>

definition sepol_context_to_sid :: "services \<Rightarrow> string \<Rightarrow> bool \<Rightarrow> (services \<times> u32 option res) alloc_m" where
  "sepol_context_to_sid sv scontext sid_wanted =
     bindE (tryE (context_from_string (sv_policydb sv) scontext)) (\<lambda>r. case r of
       Inl e \<Rightarrow> if err_code e then returnE (sv, Inl STATUS_ERR) else throwE e
     | Inr con \<Rightarrow>
         if \<not> sid_wanted then returnE (sv, Inr None)
         else bindE (sid_for sv con) (\<lambda>(sv', r'). case r' of
           Inl e \<Rightarrow> returnE (sv', Inl STATUS_ERR) | Inr sid \<Rightarrow> returnE (sv', Inr (Some sid))))"

definition sepol_check_context :: "services \<Rightarrow> string \<Rightarrow> (services \<times> u32 option res) alloc_m" where
  "sepol_check_context sv con = sepol_context_to_sid sv con False"

section \<open>Contexts of new objects\<close>

text \<open>In permissive mode the three texts are made for a message; a text that could not be made is an
  uninitialised pointer.\<close>

definition compute_sid_handle_invalid_context ::
  "services \<Rightarrow> context_struct \<Rightarrow> context_struct \<Rightarrow> u16 \<Rightarrow> context_struct \<Rightarrow> unit alloc_m"
where
  "compute_sid_handle_invalid_context sv sc tc tclass nc =
     (if selinux_enforcing sv then throwE EACCES
      else let p = sv_policydb sv in
        bindE (failE (context_to_string p sc) Fault) (\<lambda>_. bindE (failE (context_to_string p tc) Fault) (\<lambda>_.
        bindE (failE (context_to_string p nc) Fault) (\<lambda>_.
        if tclass = 0 then throwE Fault
        else bindE (liftE (array_get (p_class_val_to_name p) (unat tclass - 1))) (\<lambda>_. returnE ())))))"

text \<open>The type rule: an unconditional one, or else the first conditional one that is switched on.\<close>

definition type_rule :: "policydb \<Rightarrow> avtab_key \<Rightarrow> u32 option res" where
  "type_rule p avkey = bindR (avtab_search (te_avtab p) avkey) (\<lambda>r. case r of
     Some d \<Rightarrow> Inr (Some d)
   | None \<Rightarrow> bindR (avtab_each_node (te_cond_avtab p) avkey) (\<lambda>ns.
       Inr (map_option av_data (find (\<lambda>n. specified (av_key n) AND AVTAB_ENABLED \<noteq> 0) ns))))"

definition role_rule :: "policydb \<Rightarrow> u32 \<Rightarrow> u32 \<Rightarrow> u32 option" where
  "role_rule p role typ = map_option rt_new_role (find (\<lambda>r. rt_role r = role \<and> rt_type r = typ) (role_tr p))"

text \<open>The context before its range is computed.\<close>

definition new_context :: "policydb \<Rightarrow> context_struct \<Rightarrow> context_struct \<Rightarrow> u16 \<Rightarrow> u32 \<Rightarrow> context_struct res" where
  "new_context p sc tc tclass spec =
     (let proc = (ucast tclass = SECCLASS_PROCESS);
          user = (if spec = ucast AVTAB_TRANSITION \<or> spec = ucast AVTAB_CHANGE then c_user sc
                  else if spec = ucast AVTAB_MEMBER then c_user tc else 0);
          role = (if proc then c_role sc else OBJECT_R_VAL);
          typ = (if proc then c_type sc else c_type tc);
          avkey = \<lparr>source_type = ucast (c_type sc), target_type = ucast (c_type tc), target_class = tclass,
                   specified = ucast spec\<rparr> in
      bindR (type_rule p avkey) (\<lambda>r.
        let typ' = (case r of Some d \<Rightarrow> d | None \<Rightarrow> typ);
            role' = (if proc \<and> spec AND ucast AVTAB_TRANSITION \<noteq> 0
                     then (case role_rule p (c_role sc) (c_type tc) of Some r \<Rightarrow> r | None \<Rightarrow> role) else role) in
        Inr (context_init\<lparr>c_user := user, c_role := role', c_type := typ'\<rparr>)))"

text \<open>An unknown SID leads to the destruction of a context that was not initialised.\<close>

definition sepol_compute_sid :: "services \<Rightarrow> u32 \<Rightarrow> u32 \<Rightarrow> u16 \<Rightarrow> u32 \<Rightarrow> (services \<times> u32 res) alloc_m" where
  "sepol_compute_sid sv ssid tsid tclass spec =
     bindE (liftE (sepol_sidtab_search (sv_sidtab sv) ssid)) (\<lambda>sr. case sr of None \<Rightarrow> throwE Fault
     | Some sc \<Rightarrow>
     bindE (liftE (sepol_sidtab_search (sv_sidtab sv) tsid)) (\<lambda>tr. case tr of None \<Rightarrow> throwE Fault
     | Some tc \<Rightarrow>
         bindE (liftE (new_context (sv_policydb sv) sc tc tclass spec)) (\<lambda>nc0.
         bindE (mls_compute_sid (sv_policydb sv) sc tc (ucast tclass) spec nc0) (\<lambda>nc.
         bindE (liftE (policydb_context_isvalid (sv_policydb sv) nc)) (\<lambda>valid.
         bindE (if \<not> valid then compute_sid_handle_invalid_context sv sc tc tclass nc else returnE ()) (\<lambda>_.
           sid_for sv nc))))))"

definition sepol_transition_sid :: "services \<Rightarrow> u32 \<Rightarrow> u32 \<Rightarrow> u16 \<Rightarrow> (services \<times> u32 res) alloc_m" where
  "sepol_transition_sid sv ssid tsid tclass = sepol_compute_sid sv ssid tsid tclass (ucast AVTAB_TRANSITION)"

definition sepol_member_sid :: "services \<Rightarrow> u32 \<Rightarrow> u32 \<Rightarrow> u16 \<Rightarrow> (services \<times> u32 res) alloc_m" where
  "sepol_member_sid sv ssid tsid tclass = sepol_compute_sid sv ssid tsid tclass (ucast AVTAB_MEMBER)"

definition sepol_change_sid :: "services \<Rightarrow> u32 \<Rightarrow> u32 \<Rightarrow> u16 \<Rightarrow> (services \<times> u32 res) alloc_m" where
  "sepol_change_sid sv ssid tsid tclass = sepol_compute_sid sv ssid tsid tclass (ucast AVTAB_CHANGE)"

section \<open>Constraints compute their truth value\<close>

text \<open>Constraint expressions as trees over atoms, their value, reverse Polish form and stack need.\<close>

datatype cexp = CAtom constraint_expr | CNot cexp | CAnd cexp cexp | COr cexp cexp

definition atom_res ::
  "policydb \<Rightarrow> context_struct \<Rightarrow> context_struct \<Rightarrow> context_struct option \<Rightarrow> constraint_expr \<Rightarrow> bool option res"
where
  "atom_res p sc tc xc e = (if ce_type e = CEXPR_ATTR then cexpr_attr p sc tc e else cexpr_names p sc tc xc e)"

primrec cval :: "policydb \<Rightarrow> context_struct \<Rightarrow> context_struct \<Rightarrow> context_struct option \<Rightarrow> cexp \<Rightarrow> bool" where
  "cval p sc tc xc (CAtom e) = (atom_res p sc tc xc e = Inr (Some True))"
| "cval p sc tc xc (CNot t) = (\<not> cval p sc tc xc t)"
| "cval p sc tc xc (CAnd t u) = (cval p sc tc xc t \<and> cval p sc tc xc u)"
| "cval p sc tc xc (COr t u) = (cval p sc tc xc t \<or> cval p sc tc xc u)"

definition op_expr :: "cexpr_kind \<Rightarrow> constraint_expr" where
  "op_expr k = \<lparr>ce_type = k, ce_attr = 0, ce_op = CEXPR_OP_OTHER 0, ce_names = ebitmap_init, ce_type_names = \<lparr>ts_types = ebitmap_init, ts_negset = ebitmap_init, ts_flags = 0\<rparr>\<rparr>"

primrec crpn :: "cexp \<Rightarrow> constraint_expr list" where
  "crpn (CAtom e) = [e]"
| "crpn (CNot t) = crpn t @ [op_expr CEXPR_NOT]"
| "crpn (CAnd t u) = crpn t @ crpn u @ [op_expr CEXPR_AND]"
| "crpn (COr t u) = crpn t @ crpn u @ [op_expr CEXPR_OR]"

primrec cneed :: "cexp \<Rightarrow> nat" where
  "cneed (CAtom e) = 1"
| "cneed (CNot t) = cneed t"
| "cneed (CAnd t u) = max (cneed t) (Suc (cneed u))"
| "cneed (COr t u) = max (cneed t) (Suc (cneed u))"

primrec catoms :: "cexp \<Rightarrow> constraint_expr set" where
  "catoms (CAtom e) = {e}"
| "catoms (CNot t) = catoms t"
| "catoms (CAnd t u) = catoms t \<union> catoms u"
| "catoms (COr t u) = catoms t \<union> catoms u"

definition atoms_ok ::
  "policydb \<Rightarrow> context_struct \<Rightarrow> context_struct \<Rightarrow> context_struct option \<Rightarrow> cexp \<Rightarrow> bool"
where
  "atoms_ok p sc tc xc t \<longleftrightarrow> (\<forall>e\<in>catoms t. (ce_type e = CEXPR_ATTR \<or> ce_type e = CEXPR_NAMES)
     \<and> (\<exists>b. atom_res p sc tc xc e = Inr (Some b)))"

text \<open>The loop without the allocations.\<close>

fun cexpr_run ::
  "policydb \<Rightarrow> context_struct \<Rightarrow> context_struct \<Rightarrow> context_struct option \<Rightarrow> nat \<Rightarrow> constraint_expr list \<Rightarrow> int list
     \<Rightarrow> int list option res"
where
  "cexpr_run p sc tc xc k [] s = Inr (Some s)"
| "cexpr_run p sc tc xc k (e # es) s = bindR (cexpr_step p sc tc xc e s) (\<lambda>r. case r of
     None \<Rightarrow> if k = 0 then Inr None else Inl Fault | Some s' \<Rightarrow> cexpr_run p sc tc xc (Suc k) es s')"

lemma cexpr_loop_no_oom: "cexpr_loop p sc tc xc k n es s [] = (cexpr_run p sc tc xc k es s, [])"
proof (induction es arbitrary: k n s)
  case (Cons e es)
  then show ?case
    by (cases "cexpr_step p sc tc xc e s")
      (auto simp: bindE_def failE_def returnE_def throwE_def liftE_def Let_def split: option.splits)
qed (simp add: returnE_def)

lemma cexpr_loop_yields:
  assumes "k + length es \<le> STACK_LEN" "n = STACK_LEN \<or> n = 0 \<and> k = 0"
  shows "yields (cexpr_loop p sc tc xc k n es s) (cexpr_run p sc tc xc k es s)"
  using assms
proof (induction es arbitrary: k n s)
  case (Cons e es)
  have fail: "yields (failE malloc (if k = 0 then ENOMEM else Fault)) (Inr ())" if "k \<ge> n"
    using that Cons.prems by (auto intro!: yields_failE_ENOMEM returns_yields yields_malloc)
  have first: "yields (if k \<ge> n then failE malloc (if k = 0 then ENOMEM else Fault) else returnE ()) (Inr ())"
    using fail by simp
  have n': "(if k \<ge> n then if n = 0 then STACK_LEN else n * 2 else n) = STACK_LEN"
    using Cons.prems by auto
  have rest: "yields (cexpr_loop p sc tc xc (Suc k) STACK_LEN es s') (cexpr_run p sc tc xc (Suc k) es s')" for s'
    using Cons.IH Cons.prems by simp
  have "yields (bindE (liftE (cexpr_step p sc tc xc e s)) (\<lambda>r. case r of
        None \<Rightarrow> if k = 0 then returnE None else throwE Fault
      | Some s' \<Rightarrow> cexpr_loop p sc tc xc (Suc k) STACK_LEN es s')) (cexpr_run p sc tc xc k (e # es) s)"
    using rest by (cases "cexpr_step p sc tc xc e s") (auto split: option.split)
  then show ?case
    unfolding cexpr_loop.simps Let_def n' by (intro yields_bindE_Inr [OF first]) simp
qed simp

lemma cneed_pos: "Suc 0 \<le> cneed t"
  by (induction t) auto

lemma cexpr_step_ops:
  "cexpr_step p sc tc xc (op_expr CEXPR_NOT) (c_bool x # s) = Inr (Some (c_bool (\<not> x) # s))"
  "cexpr_step p sc tc xc (op_expr CEXPR_AND) (c_bool y # c_bool x # s) = Inr (Some (c_bool (x \<and> y) # s))"
  "cexpr_step p sc tc xc (op_expr CEXPR_OR) (c_bool y # c_bool x # s) = Inr (Some (c_bool (x \<or> y) # s))"
  by (simp_all add: cexpr_step_def op_expr_def)

text \<open>Five stack cells are enough, or the exit frees entries that were never stored.\<close>

lemma cexpr_run_crpn:
  assumes "atoms_ok p sc tc xc t" "length s \<le> k" "length s \<le> CEXPR_MAXDEPTH"
  shows "cexpr_run p sc tc xc k (crpn t @ es) s =
    (if length s + cneed t \<le> CEXPR_MAXDEPTH
     then cexpr_run p sc tc xc (k + length (crpn t)) es (c_bool (cval p sc tc xc t) # s) else Inl Fault)"
  using assms
proof (induction t arbitrary: k s es)
  case (CAtom e)
  then obtain b where "atom_res p sc tc xc e = Inr (Some b)" "ce_type e = CEXPR_ATTR \<or> ce_type e = CEXPR_NAMES"
    by (auto simp: atoms_ok_def)
  then show ?case
    using CAtom.prems by (auto simp: cexpr_step_def atom_res_def)
next
  case (CNot t)
  then show ?case by (simp add: atoms_ok_def cexpr_step_ops)
next
  case (CAnd t u)
  have ok: "atoms_ok p sc tc xc t" "atoms_ok p sc tc xc u" using CAnd.prems(1) by (auto simp: atoms_ok_def)
  have "1 \<le> length (crpn t)" by (induction t) auto
  then show ?case
    using CAnd.IH(1) [OF ok(1) CAnd.prems(2,3)] CAnd.IH(2) [OF ok(2)] CAnd.prems(2,3) cneed_pos [of t] cneed_pos [of u]
    by (auto simp: cexpr_step_ops add.assoc)
next
  case (COr t u)
  have ok: "atoms_ok p sc tc xc t" "atoms_ok p sc tc xc u" using COr.prems(1) by (auto simp: atoms_ok_def)
  have "1 \<le> length (crpn t)" by (induction t) auto
  then show ?case
    using COr.IH(1) [OF ok(1) COr.prems(2,3)] COr.IH(2) [OF ok(2)] COr.prems(2,3) cneed_pos [of t] cneed_pos [of u]
    by (auto simp: cexpr_step_ops add.assoc)
qed

definition con_tree ::
  "policydb \<Rightarrow> context_struct \<Rightarrow> context_struct \<Rightarrow> context_struct option \<Rightarrow> constraint_node \<Rightarrow> cexp \<Rightarrow> bool"
where
  "con_tree p sc tc xc con t \<longleftrightarrow> cn_expr con = crpn t \<and> atoms_ok p sc tc xc t \<and> cneed t \<le> CEXPR_MAXDEPTH"

definition class_named :: "policydb \<Rightarrow> u16 \<Rightarrow> bool" where
  "class_named p tclass \<longleftrightarrow> tclass \<noteq> 0 \<and> unat tclass \<le> length (p_class_val_to_name p)"

lemma get_class_info_yields: "class_named p tclass \<Longrightarrow> yields (get_class_info p tclass) (Inr ())"
proof -
  assume c: "class_named p tclass"
  then have "0 < unat tclass" "unat tclass \<le> length (p_class_val_to_name p)"
    by (simp_all add: class_named_def unat_gt_0)
  then have "unat tclass - 1 < length (p_class_val_to_name p)" by linarith
  with c show ?thesis by (simp add: get_class_info_def class_named_def yields_malloc)
qed

lemma cexpr_run_tree:
  "con_tree p sc tc xc con t \<Longrightarrow> cexpr_run p sc tc xc 0 (cn_expr con) [] = Inr (Some [c_bool (cval p sc tc xc t)])"
  using cexpr_run_crpn [of p sc tc xc t "[]" 0 "[]"] by (simp add: con_tree_def)

lemma yields_mallocs: "yields (foldE (\<lambda>_ _. malloc) xs ()) (Inr ())"
proof -
  have "foldR (\<lambda>_ _. Inr ()) xs () = Inr ()" by (induction xs) auto
  then show ?thesis using yields_foldE [of xs "\<lambda>_ _. malloc" "\<lambda>_ _. Inr ()" "()"] yields_malloc by simp
qed

lemma try_code_yields:
  assumes "yields m (Inr v)"
  shows "fst (bindE (tryE m) (\<lambda>r. case r of Inr v \<Rightarrow> returnE v | Inl ENOMEM \<Rightarrow> returnE w | Inl e \<Rightarrow> throwE e) a)
    \<in> {Inr v, Inr w}"
  using assms by (cases rule: yields_cases [where a = a]) (auto simp: bindE_def tryE_def returnE_def)

text \<open>An evaluation that leaves one value on the stack returns it.\<close>

lemma constraint_eval_run:
  assumes "class_named p tclass" "cexpr_run p sc tc xc 0 (cn_expr con) [] = Inr (Some [v])"
  shows "constraint_expr_eval_reason p sc tc xc tclass con [] = (Inr v, [])"
    and "length (cn_expr con) \<le> STACK_LEN \<Longrightarrow> fst (constraint_expr_eval_reason p sc tc xc tclass con a) \<in> {Inr v, Inr (-12)}"
proof -
  let ?rest = "\<lambda>r. case r of None \<Rightarrow> returnE 0 | Some s \<Rightarrow> if s = [] then throwE Fault
    else bindE malloc (\<lambda>_. bindE (foldE (\<lambda>_ _. malloc) (filter is_operator (cn_expr con)) ()) (\<lambda>_. returnE (last s)))"
  have rest: "yields (?rest (Some [v])) (Inr v)"
    by (simp add: yields_bindE_Inr [OF yields_mallocs])
  have "yields (get_class_info p tclass) (Inr ())" by (rule get_class_info_yields [OF assms(1)])
  note info = yields_no_oom [OF this] this
  have "cexpr_loop p sc tc xc 0 0 (cn_expr con) [] [] = (Inr (Some [v]), [])"
    by (simp add: cexpr_loop_no_oom assms(2))
  then show "constraint_expr_eval_reason p sc tc xc tclass con [] = (Inr v, [])"
    using info(1) yields_no_oom [OF rest]
    by (simp add: constraint_expr_eval_reason_def bindE_def tryE_def returnE_def)
  assume "length (cn_expr con) \<le> STACK_LEN"
  then have "yields (cexpr_loop p sc tc xc 0 0 (cn_expr con) []) (Inr (Some [v]))"
    using cexpr_loop_yields [of 0 "cn_expr con" 0 p sc tc xc "[]"] assms(2) by simp
  then have "yields (bindE (get_class_info p tclass) (\<lambda>_. bindE (cexpr_loop p sc tc xc 0 0 (cn_expr con) []) ?rest)) (Inr v)"
    using rest by (intro yields_bindE_Inr [OF info(2)] yields_bindE_Inr)
  from try_code_yields [OF this, of "-12" a]
  show "fst (constraint_expr_eval_reason p sc tc xc tclass con a) \<in> {Inr v, Inr (-12)}"
    unfolding constraint_expr_eval_reason_def .
qed

lemma constraint_eval_tree:
  assumes "class_named p tclass" "con_tree p sc tc xc con t"
  shows "constraint_expr_eval_reason p sc tc xc tclass con [] = (Inr (c_bool (cval p sc tc xc t)), [])"
    and "length (cn_expr con) \<le> STACK_LEN \<Longrightarrow>
      fst (constraint_expr_eval_reason p sc tc xc tclass con a) \<in> {Inr (c_bool (cval p sc tc xc t)), Inr (-12)}"
  by (rule constraint_eval_run [OF assms(1) cexpr_run_tree [OF assms(2)]])+

text \<open>Too deep a constraint ends in undefined behaviour.\<close>

lemma constraint_eval_deep:
  assumes "class_named p tclass" "cn_expr con = crpn t" "atoms_ok p sc tc xc t" "cneed t > CEXPR_MAXDEPTH"
  shows "constraint_expr_eval_reason p sc tc xc tclass con [] = (Inl Fault, [])"
proof -
  have "cexpr_loop p sc tc xc 0 0 (cn_expr con) [] [] = (Inl Fault, [])"
    using cexpr_run_crpn [OF assms(3), of "[]" 0 "[]"] assms(2,4) by (simp add: cexpr_loop_no_oom)
  then show ?thesis
    using yields_no_oom [OF get_class_info_yields [OF assms(1)]]
    by (simp add: constraint_expr_eval_reason_def bindE_def tryE_def throwE_def)
qed

section \<open>What a decision allows\<close>

text \<open>The constraint holds; one tree for it is enough, since evaluation gives its value.\<close>

definition con_wf :: "policydb \<Rightarrow> context_struct \<Rightarrow> context_struct \<Rightarrow> constraint_node \<Rightarrow> bool" where
  "con_wf p sc tc con \<longleftrightarrow> (\<exists>t. con_tree p sc tc None con t)"

definition con_holds :: "policydb \<Rightarrow> context_struct \<Rightarrow> context_struct \<Rightarrow> constraint_node \<Rightarrow> bool" where
  "con_holds p sc tc con \<longleftrightarrow> (\<exists>t. con_tree p sc tc None con t \<and> cval p sc tc None t)"

lemma con_eval:
  assumes "class_named p tclass" "con_wf p sc tc con"
  shows "constraint_expr_eval_reason p sc tc None tclass con [] = (Inr (c_bool (con_holds p sc tc con)), [])"
proof -
  obtain t where t: "con_tree p sc tc None con t" using assms(2) by (auto simp: con_wf_def)
  have "con_holds p sc tc con = cval p sc tc None t"
  proof -
    have "cval p sc tc None u = cval p sc tc None t" if u: "con_tree p sc tc None con u" for u
      using trans [OF sym [OF constraint_eval_tree(1) [OF assms(1) u]] constraint_eval_tree(1) [OF assms(1) t]] by simp
    then show ?thesis using t unfolding con_holds_def by blast
  qed
  then show ?thesis using constraint_eval_tree(1) [OF assms(1) t] by simp
qed

lemma apply_constraints_bits:
  assumes "class_named p tclass" "\<forall>con\<in>set cs. con_wf p sc tc con"
  shows "\<exists>av'. apply_constraints p sc tc tclass cs av [] = (Inr av', [])
    \<and> (\<forall>i. bit av' i = (bit av i \<and> (\<forall>con\<in>set cs. bit (cn_permissions con) i \<longrightarrow> con_holds p sc tc con)))"
  using assms(2)
proof (induction cs arbitrary: av)
  case Nil
  then show ?case by (simp add: returnE_def)
next
  case (Cons con cs)
  have ev: "constraint_expr_eval_reason p sc tc None tclass con [] = (Inr (c_bool (con_holds p sc tc con)), [])"
    using con_eval [OF assms(1)] Cons.prems by simp
  define av1 where "av1 = (if cn_permissions con AND av \<noteq> 0 \<and> \<not> con_holds p sc tc con then av AND NOT (cn_permissions con) else av)"
  have bits: "bit av1 i = (bit av i \<and> (bit (cn_permissions con) i \<longrightarrow> con_holds p sc tc con))" for i
  proof -
    have "\<not> (bit (cn_permissions con) i \<and> bit av i)" if z: "cn_permissions con AND av = 0"
      unfolding bit_and_iff [symmetric] z by simp
    moreover have "bit (av AND NOT (cn_permissions con)) i = (bit av i \<and> \<not> bit (cn_permissions con) i)"
      using bit_imp_le_length [of av i] by (auto simp: bit_and_iff bit_not_iff)
    ultimately show ?thesis unfolding av1_def by auto
  qed
  have "apply_constraints p sc tc tclass (con # cs) av [] = apply_constraints p sc tc tclass cs av1 []"
  proof (cases "cn_permissions con AND av = 0")
    case False
    then show ?thesis unfolding apply_constraints.simps av1_def by (simp add: bindE_def ev)
  qed (simp add: av1_def)
  moreover obtain av' where "apply_constraints p sc tc tclass cs av1 [] = (Inr av', [])"
    "\<forall>i. bit av' i = (bit av1 i \<and> (\<forall>con\<in>set cs. bit (cn_permissions con) i \<longrightarrow> con_holds p sc tc con))"
    using Cons.IH [of av1] Cons.prems by auto
  ultimately show ?case
    using bits by (intro exI [of _ av']) (simp only: list.set ball_simps conj_assoc simp_thms)
qed

text \<open>The type enforcement rules that apply to a pair of types or attributes and grant a permission.\<close>

definition av_lookup :: "u16 \<Rightarrow> u32 \<Rightarrow> u32 \<Rightarrow> avtab_key" where
  "av_lookup tclass i j =
     \<lparr>source_type = ucast (i + 1), target_type = ucast (j + 1), target_class = tclass, specified = AVTAB_AV\<rparr>"

definition rule_allows :: "policydb \<Rightarrow> avtab_key \<Rightarrow> nat \<Rightarrow> bool" where
  "rule_allows p key b \<longleftrightarrow>
     (\<exists>n\<in>set (av_entries (te_avtab p)). spec_match key (av_key n) \<and> specified (av_key n) = AVTAB_ALLOWED \<and> bit (av_data n) b)
   \<or> (\<exists>n\<in>set (av_entries (te_cond_avtab p)). spec_match key (av_key n)
        \<and> specified (av_key n) AND AVTAB_ALLOWED \<noteq> 0 \<and> node_enabled n \<and> bit (av_data n) b)"

definition te_allows :: "policydb \<Rightarrow> context_struct \<Rightarrow> context_struct \<Rightarrow> u16 \<Rightarrow> nat \<Rightarrow> bool" where
  "te_allows p sc tc tclass b \<longleftrightarrow>
     (\<exists>i j. unat i \<in> ebitmap_bits (type_attr_map p ! unat (c_type sc - 1))
          \<and> unat j \<in> ebitmap_bits (type_attr_map p ! unat (c_type tc - 1)) \<and> rule_allows p (av_lookup tclass i j) b)"

definition type_mapped :: "policydb \<Rightarrow> u32 \<Rightarrow> bool" where
  "type_mapped p t \<longleftrightarrow> unat (t - 1) < length (type_attr_map p) \<and> ebitmap_ok (type_attr_map p ! unat (t - 1))"

lemma te_av_steps:
  "bit (allowed (fold te_av_step ns avd)) b
     = (bit (allowed avd) b \<or> (\<exists>n\<in>set ns. specified (av_key n) = AVTAB_ALLOWED \<and> bit (av_data n) b))"
  "decided (fold te_av_step ns avd) = decided avd" "seqno (fold te_av_step ns avd) = seqno avd"
  by (induction ns arbitrary: avd) (auto simp: te_av_step_def bit_or_iff)

text \<open>Folding a step that adds the permissions of a predicate.\<close>

definition adds :: "('x \<Rightarrow> nat \<Rightarrow> bool) \<Rightarrow> ('x \<Rightarrow> av_decision \<Rightarrow> av_decision res) \<Rightarrow> bool" where
  "adds P f \<longleftrightarrow> (\<forall>x avd. \<exists>avd'. f x avd = Inr avd' \<and> decided avd' = decided avd \<and> seqno avd' = seqno avd
     \<and> (\<forall>b. bit (allowed avd') b = (bit (allowed avd) b \<or> P x b)))"

lemma adds_foldR:
  assumes "adds P f"
  shows "adds (\<lambda>xs b. \<exists>x\<in>set xs. P x b) (foldR f)"
proof -
  have "\<exists>avd'. foldR f xs avd = Inr avd' \<and> decided avd' = decided avd \<and> seqno avd' = seqno avd
     \<and> (\<forall>b. bit (allowed avd') b = (bit (allowed avd) b \<or> (\<exists>x\<in>set xs. P x b)))" for xs avd
  proof (induction xs arbitrary: avd)
    case (Cons x xs)
    obtain avd1 where "f x avd = Inr avd1" "decided avd1 = decided avd" "seqno avd1 = seqno avd"
      "\<forall>b. bit (allowed avd1) b = (bit (allowed avd) b \<or> P x b)" using assms unfolding adds_def by meson
    moreover obtain avd2 where "foldR f xs avd1 = Inr avd2" "decided avd2 = decided avd1" "seqno avd2 = seqno avd1"
      "\<forall>b. bit (allowed avd2) b = (bit (allowed avd1) b \<or> (\<exists>x\<in>set xs. P x b))" using Cons.IH by meson
    ultimately show ?case by (intro exI [of _ avd2]) auto
  qed simp
  then show ?thesis by (simp add: adds_def)
qed

lemma adds_pair_av:
  assumes "avtab_ok (te_avtab p)" "avtab_ok (te_cond_avtab p)"
  shows "adds (\<lambda>j. rule_allows p (av_lookup tclass i j)) (pair_av p tclass i)"
  unfolding adds_def
proof (intro allI)
  fix j avd
  let ?k = "av_lookup tclass i j"
  let ?ns = "filter (\<lambda>n. spec_match ?k (av_key n)) (av_entries (te_avtab p))"
  let ?cs = "filter (\<lambda>n. spec_match ?k (av_key n)) (av_entries (te_cond_avtab p))"
  have "pair_av p tclass i j avd = Inr (fold cond_av_step ?cs (fold te_av_step ?ns avd))"
    by (simp add: pair_av_def av_lookup_def avtab_each_node_filter [OF assms(1)] cond_compute_av_entries [OF assms(2)] Let_def)
  then show "\<exists>avd'. pair_av p tclass i j avd = Inr avd' \<and> decided avd' = decided avd \<and> seqno avd' = seqno avd
      \<and> (\<forall>b. bit (allowed avd') b = (bit (allowed avd) b \<or> rule_allows p ?k b))"
    by (auto simp: bit_cond_av_steps te_av_steps enabled_as_iff rule_allows_def)
qed

lemma te_av_bits:
  assumes "avtab_ok (te_avtab p)" "avtab_ok (te_cond_avtab p)" "type_mapped p (c_type sc)" "type_mapped p (c_type tc)"
  shows "\<exists>avd'. te_av p sc tc tclass avd = Inr avd' \<and> decided avd' = decided avd \<and> seqno avd' = seqno avd
     \<and> (\<forall>b. bit (allowed avd') b = (bit (allowed avd) b \<or> te_allows p sc tc tclass b))"
proof -
  let ?s = "type_attr_map p ! unat (c_type sc - 1)" and ?t = "type_attr_map p ! unat (c_type tc - 1)"
  obtain us js where bits: "ebitmap_positive_bits ?s = Inr us" "unat ` set us = ebitmap_bits ?s"
    "ebitmap_positive_bits ?t = Inr js" "unat ` set js = ebitmap_bits ?t"
    using assms(3,4) ebitmap_positive_bits_eq [of ?s] ebitmap_positive_bits_eq [of ?t] unfolding type_mapped_def by metis
  have mem: "unat x \<in> ebitmap_bits ?s \<longleftrightarrow> x \<in> set us" "unat x \<in> ebitmap_bits ?t \<longleftrightarrow> x \<in> set js" for x
    unfolding bits(2,4) [symmetric] by (auto dest: word_unat_eq_iff [THEN iffD2])
  have "adds (\<lambda>i b. \<exists>j\<in>set js. rule_allows p (av_lookup tclass i j) b) (\<lambda>i avd. foldR (pair_av p tclass i) js avd)"
    using adds_foldR [OF adds_pair_av [OF assms(1,2)]] by (auto simp: adds_def)
  from adds_foldR [OF this] obtain avd' where
    "foldR (\<lambda>i avd. foldR (pair_av p tclass i) js avd) us avd = Inr avd'" "decided avd' = decided avd" "seqno avd' = seqno avd"
    "\<forall>b. bit (allowed avd') b = (bit (allowed avd) b \<or> (\<exists>i\<in>set us. \<exists>j\<in>set js. rule_allows p (av_lookup tclass i j) b))"
    unfolding adds_def by blast
  then show ?thesis
    using assms(3,4) bits(1,3) by (auto simp: te_av_def type_mapped_def te_allows_def mem)
qed

text \<open>The role of a process may change only as the policy allows.\<close>

definition rbac_allows :: "policydb \<Rightarrow> context_struct \<Rightarrow> context_struct \<Rightarrow> u16 \<Rightarrow> nat \<Rightarrow> bool" where
  "rbac_allows p sc tc tclass b \<longleftrightarrow> (ucast tclass = SECCLASS_PROCESS \<and> (b = 1 \<or> b = 23) \<longrightarrow>
     c_role sc = c_role tc \<or> (\<exists>ra\<in>set (role_allows p). ra_role ra = c_role sc \<and> ra_new_role ra = c_role tc))"

lemma role_transition_bits:
  "bit (role_transition_av p sc tc tclass av) b = (bit av b \<and> rbac_allows p sc tc tclass b)"
proof -
  let ?m = "PROCESS__TRANSITION OR PROCESS__DYNTRANSITION"
  have "?m = 2 ^ 1 OR 2 ^ 23" by simp
  then have m: "bit ?m b \<longleftrightarrow> b = 1 \<or> b = 23"
    by (simp only: bit_or_iff bit_exp_iff) auto
  have off: "bit (av AND NOT ?m) b = (bit av b \<and> \<not> bit ?m b)"
    using bit_imp_le_length [of av b] by (auto simp: bit_and_iff bit_not_iff simp del: or_numerals)
  have none: "\<not> (bit av b \<and> bit ?m b)" if z: "av AND ?m = 0" for b
    unfolding bit_and_iff [symmetric] z by simp
  have "role_allowed p (c_role sc) (c_role tc) \<longleftrightarrow>
      (\<exists>ra\<in>set (role_allows p). ra_role ra = c_role sc \<and> ra_new_role ra = c_role tc)"
    unfolding role_allowed_def list_ex_iff by metis
  then show ?thesis
    using none [of b] off m unfolding role_transition_av_def rbac_allows_def by auto
qed

text \<open>A request about a class and two types of a well-formed policy.\<close>

definition av_base_ok :: "policydb \<Rightarrow> context_struct \<Rightarrow> context_struct \<Rightarrow> u16 \<Rightarrow> class_datum \<Rightarrow> bool" where
  "av_base_ok p sc tc tclass cd \<longleftrightarrow> ucast tclass \<le> nprim (p_classes p) \<and> class_named p tclass
     \<and> val_get (class_val_to_struct p) (ucast tclass) = Inr (Some cd)
     \<and> avtab_ok (te_avtab p) \<and> avtab_ok (te_cond_avtab p) \<and> type_mapped p (c_type sc) \<and> type_mapped p (c_type tc)"

definition av_request_ok :: "policydb \<Rightarrow> context_struct \<Rightarrow> context_struct \<Rightarrow> u16 \<Rightarrow> class_datum \<Rightarrow> bool" where
  "av_request_ok p sc tc tclass cd \<longleftrightarrow> av_base_ok p sc tc tclass cd \<and> (\<forall>con\<in>set (cd_constraints cd). con_wf p sc tc con)"

definition av_allows :: "policydb \<Rightarrow> context_struct \<Rightarrow> context_struct \<Rightarrow> u16 \<Rightarrow> class_datum \<Rightarrow> nat \<Rightarrow> bool" where
  "av_allows p sc tc tclass cd b \<longleftrightarrow> te_allows p sc tc tclass b
     \<and> (\<forall>con\<in>set (cd_constraints cd). bit (cn_permissions con) b \<longrightarrow> con_holds p sc tc con)
     \<and> rbac_allows p sc tc tclass b"

lemma word_subset_iff: "x AND NOT y = 0 \<longleftrightarrow> (\<forall>b. bit x b \<longrightarrow> bit y b)" for x y :: u32
proof -
  have "b < 32" if "bit x b" for b using bit_imp_le_length [OF that] by simp
  then show ?thesis by (auto simp: bit_eq_iff bit_and_iff bit_not_iff)
qed

text \<open>The decision, whatever the constraints take away.\<close>

lemma compute_av_constrained:
  assumes "av_base_ok (sv_policydb sv) sc tc tclass cd"
    and "\<And>av. \<exists>av' a'. apply_constraints (sv_policydb sv) sc tc tclass (cd_constraints cd) av a = (Inr av', a') \<and> Q a'
      \<and> (\<forall>b. bit av' b = (bit av b \<and> C b))"
  shows "\<exists>avd reason a'. context_struct_compute_av sv sc tc tclass requested a = (Inr (avd, reason), a') \<and> Q a'
    \<and> decided avd = -1 \<and> seqno avd = latest_granting sv
    \<and> (\<forall>b. bit (allowed avd) b = (te_allows (sv_policydb sv) sc tc tclass b \<and> C b \<and> rbac_allows (sv_policydb sv) sc tc tclass b))
    \<and> (reason = 0 \<longleftrightarrow> (\<forall>b. bit requested b \<longrightarrow> bit (allowed avd) b))"
proof -
  let ?p = "sv_policydb sv"
  note ok = assms(1) [unfolded av_base_ok_def]
  obtain avd1 where te: "te_av ?p sc tc tclass \<lparr>allowed = 0, decided = -1, auditallow = 0, auditdeny = -1, seqno = latest_granting sv\<rparr> = Inr avd1"
    "decided avd1 = -1" "seqno avd1 = latest_granting sv" "\<forall>b. bit (allowed avd1) b = te_allows ?p sc tc tclass b"
    using te_av_bits [of ?p sc tc tclass "\<lparr>allowed = 0, decided = -1, auditallow = 0, auditdeny = -1, seqno = latest_granting sv\<rparr>"] ok
    by auto
  obtain av2 a' where c: "apply_constraints ?p sc tc tclass (cd_constraints cd) (allowed avd1) a = (Inr av2, a')" "Q a'"
    "\<forall>b. bit av2 b = (bit (allowed avd1) b \<and> C b)"
    using assms(2) by blast
  define av3 where "av3 = role_transition_av ?p sc tc tclass av2"
  have av3: "bit av3 b = (bit av2 b \<and> rbac_allows ?p sc tc tclass b)" for b
    unfolding av3_def by (rule role_transition_bits)
  have "\<not> (tclass = 0 \<or> ucast tclass > nprim (p_classes ?p))" using ok by (auto simp: class_named_def)
  then obtain reason where r: "context_struct_compute_av sv sc tc tclass requested a = (Inr (avd1\<lparr>allowed := av3\<rparr>, reason), a')"
    "reason = 0 \<longleftrightarrow> requested AND NOT (allowed avd1) = 0 \<and> (requested AND allowed avd1) AND NOT av2 = 0
      \<and> ((requested AND allowed avd1) AND av2) AND NOT av3 = 0"
    using ok te(1) c(1) unfolding av3_def
    by (auto simp: context_struct_compute_av_def Let_def bindE_def liftE_def returnE_def)
  have "reason = 0 \<longleftrightarrow> (\<forall>b. bit requested b \<longrightarrow> bit av3 b)"
    unfolding r(2) word_subset_iff using av3 c(3) by (auto simp: bit_and_iff)
  then show ?thesis
    using r(1) te(2,3,4) c(2,3) av3
    by (intro exI [of _ "avd1\<lparr>allowed := av3\<rparr>"] exI [of _ reason] exI [of _ a']) (simp add: conj_assoc)
qed

lemma compute_av_bits:
  assumes "av_request_ok (sv_policydb sv) sc tc tclass cd"
  shows "\<exists>avd reason. context_struct_compute_av sv sc tc tclass requested [] = (Inr (avd, reason), [])
    \<and> decided avd = -1 \<and> seqno avd = latest_granting sv
    \<and> (\<forall>b. bit (allowed avd) b = av_allows (sv_policydb sv) sc tc tclass cd b)
    \<and> (reason = 0 \<longleftrightarrow> (\<forall>b. bit requested b \<longrightarrow> bit (allowed avd) b))"
proof -
  let ?p = "sv_policydb sv"
  have ok: "av_base_ok ?p sc tc tclass cd" "class_named ?p tclass" "\<forall>con\<in>set (cd_constraints cd). con_wf ?p sc tc con"
    using assms by (auto simp: av_request_ok_def av_base_ok_def)
  have cons: "\<exists>av' a'. apply_constraints ?p sc tc tclass (cd_constraints cd) av [] = (Inr av', a') \<and> a' = []
      \<and> (\<forall>b. bit av' b = (bit av b \<and> (\<forall>con\<in>set (cd_constraints cd). bit (cn_permissions con) b \<longrightarrow> con_holds ?p sc tc con)))" for av
    using apply_constraints_bits [OF ok(2,3), of av] by blast
  show ?thesis
    using compute_av_constrained [where Q = "\<lambda>a. a = []", OF ok(1) cons, of requested] unfolding av_allows_def by blast
qed

text \<open>An evaluation that cannot allocate its first buffer satisfies the constraint.\<close>

lemma constraint_eval_oom: "constraint_expr_eval_reason p sc tc xc tclass con (False # a) = (Inr (-12), a)"
  by (simp add: constraint_expr_eval_reason_def get_class_info_def bindE_def tryE_def returnE_def)

lemma apply_constraints_oom:
  "length cs \<le> n \<Longrightarrow> \<exists>a'. apply_constraints p sc tc tclass cs av (replicate n False) = (Inr av, a')"
proof (induction cs arbitrary: n)
  case (Cons con cs)
  then obtain m where m: "n = Suc m" "length cs \<le> m" by (cases n) auto
  have "\<exists>a'. apply_constraints p sc tc tclass cs av (replicate (Suc m) False) = (Inr av, a')"
    "\<exists>a'. apply_constraints p sc tc tclass cs av (replicate m False) = (Inr av, a')"
    using m(2) by (intro Cons.IH, simp)+
  then show ?case by (auto simp: m(1) bindE_def constraint_eval_oom)
qed (simp add: returnE_def)

section \<open>Names of classes\<close>

lemma find_class_from:
  assumes "length names < 65535" "i \<le> length names"
  shows "find_class (map Some names) nm i = (if nm \<in> set (drop i names)
    then Inr (of_nat (i + length (takeWhile (\<lambda>c. c \<noteq> nm) (drop i names)) + 1)) else Inl Fault)"
  using assms(2)
proof (induction "length names - i" arbitrary: i)
  case 0
  then show ?case by (simp add: find_class.simps [of _ _ i])
next
  case (Suc k)
  then have i: "i < length names" by simp
  then have "find_class (map Some names) nm (Suc i) = (if nm \<in> set (drop (Suc i) names)
    then Inr (of_nat (Suc i + length (takeWhile (\<lambda>c. c \<noteq> nm) (drop (Suc i) names)) + 1)) else Inl Fault)"
    using Suc by simp
  then show ?case
    using i assms(1) by (simp add: find_class.simps [of _ _ i] Cons_nth_drop_Suc [OF i, symmetric])
qed

section \<open>New contexts\<close>

lemma copy_levels_returns:
  "returns (copy_levels dst l h) (Inr (dst\<lparr>c_range := \<lparr>low = l, high = h\<rparr>\<rparr>))"
proof -
  have cp: "returns (ebitmap_cpy e) (Inr e)" for e by (intro returns_yields ebitmap_cpy_yields)
  show ?thesis unfolding copy_levels_def
    by (rule returns_bindE_Inr [OF cp], rule returns_bindE_Inr [OF cp]) simp
qed

lemma mls_compute_sid_keeps:
  assumes "mls_compute_sid p sc tc tclass spec nc a = (Inr c, b)" "context_ok sc" "context_ok tc" "context_ok nc"
    "\<forall>r\<in>set (range_tr p). range_ok (rtr_target_range r)"
  shows "c_user c = c_user nc \<and> c_role c = c_role nc \<and> c_type c = c_type nc \<and> context_ok c"
proof -
  have rr: "range_ok r" if "range_rule rs st tt tcl = Some r" "\<forall>r\<in>set rs. range_ok (rtr_target_range r)" for rs st tt tcl r
    using that by (induction rs) (auto split: if_splits)
  have cp: "c = nc\<lparr>c_range := \<lparr>low = l, high = h\<rparr>\<rparr>" if "copy_levels nc l h a = (Inr c, b)" for l h
    using returns_Inr [OF copy_levels_returns that] by simp
  have ok: "c_user c = c_user nc \<and> c_role c = c_role nc \<and> c_type c = c_type nc \<and> context_ok c"
    if "copy_levels nc l h a = (Inr c, b)" "level_ok l" "level_ok h" for l h
    using cp [OF that(1)] that(2,3) by (simp add: context_ok_def range_ok_def)
  have lv: "level_ok (low (c_range sc))" "level_ok (high (c_range sc))" "level_ok (low (c_range tc))" "level_ok (high (c_range tc))"
    using assms(2,3) by (auto simp: context_ok_def range_ok_def)
  show ?thesis
    using assms(1,4,5) lv ok rr [of "range_tr p"]
    by (auto simp: mls_compute_sid_def mls_copy_context_def mls_scopy_context_def mls_range_set_def Let_def range_ok_def
        split: if_splits option.splits)
qed

text \<open>The context that a successful computation interns.\<close>

lemma compute_sid_run:
  assumes "sepol_compute_sid sv ssid tsid tclass spec a = (Inr (sv', r), b)"
  obtains sc tc nc c valid s' a1 a2 a3 where "sepol_sidtab_search (sv_sidtab sv) ssid = Inr (Some sc)"
    "sepol_sidtab_search (sv_sidtab sv) tsid = Inr (Some tc)" "new_context (sv_policydb sv) sc tc tclass spec = Inr nc"
    "mls_compute_sid (sv_policydb sv) sc tc (ucast tclass) spec nc a = (Inr c, a1)"
    "policydb_context_isvalid (sv_policydb sv) c = Inr valid" "selinux_enforcing sv \<longrightarrow> valid"
    "sepol_sidtab_context_to_sid (sv_sidtab sv) c a2 = (Inr (s', r), a3)" "sv' = sv\<lparr>sv_sidtab := s'\<rparr>"
proof -
  from assms obtain sc tc where t: "sepol_sidtab_search (sv_sidtab sv) ssid = Inr (Some sc)"
    "sepol_sidtab_search (sv_sidtab sv) tsid = Inr (Some tc)"
    by (auto simp: sepol_compute_sid_def bindE_eq_Inr split: option.splits) metis
  with assms obtain nc c valid a1 a2 where c: "new_context (sv_policydb sv) sc tc tclass spec = Inr nc"
    "mls_compute_sid (sv_policydb sv) sc tc (ucast tclass) spec nc a = (Inr c, a1)"
    "policydb_context_isvalid (sv_policydb sv) c = Inr valid" "valid \<or> \<not> selinux_enforcing sv"
    and s: "sid_for sv c a2 = (Inr (sv', r), b)"
    by (auto simp: sepol_compute_sid_def bindE_eq_Inr compute_sid_handle_invalid_context_def split: if_splits) metis+
  from s obtain s' where "sepol_sidtab_context_to_sid (sv_sidtab sv) c a2 = (Inr (s', r), b)" "sv' = sv\<lparr>sv_sidtab := s'\<rparr>"
    by (auto simp: sid_for_def bindE_eq_Inr)
  with t c that show thesis by blast
qed

lemma search_context_ok: "sidtab_ok s \<Longrightarrow> sepol_sidtab_search s sid = Inr (Some c) \<Longrightarrow> context_ok c"
  by (auto simp: sidtab_search_eq elim!: sidtab_okE split: option.splits)

text \<open>The fields that the rules prescribe.\<close>

lemma new_context_fields:
  assumes "new_context p sc tc tclass spec = Inr nc" "spec \<in> {ucast AVTAB_TRANSITION, ucast AVTAB_MEMBER, ucast AVTAB_CHANGE}"
  obtains rule where "type_rule p \<lparr>source_type = ucast (c_type sc), target_type = ucast (c_type tc), target_class = tclass,
      specified = ucast spec\<rparr> = Inr rule"
    "c_type nc = (case rule of Some t \<Rightarrow> t | None \<Rightarrow> if ucast tclass = SECCLASS_PROCESS then c_type sc else c_type tc)"
    "c_user nc = (if spec = ucast AVTAB_MEMBER then c_user tc else c_user sc)"
    "c_role nc = (if ucast tclass \<noteq> SECCLASS_PROCESS then OBJECT_R_VAL
      else if spec \<noteq> ucast AVTAB_TRANSITION then c_role sc
      else case role_rule p (c_role sc) (c_type tc) of Some r \<Rightarrow> r | None \<Rightarrow> c_role sc)"
  using assms by (auto simp: new_context_def Let_def bindR_eq_Inr)

lemma new_context_ok: "new_context p sc tc tclass spec = Inr nc \<Longrightarrow> context_ok nc"
  using level_init_ok(3) by (auto simp: new_context_def Let_def bindR_eq_Inr context_ok_def)

section \<open>A running server\<close>

text \<open>SID 1 is a process of type \<open>init_t\<close>, SID 2 a file of type \<open>file_t\<close>.\<close>

definition sample_sidtab :: sidtab where
  "sample_sidtab = \<lparr>st_htable = Some ([[], [(1, sample_context 2 1)], [(2, sample_context 1 2)]] @ replicate 125 []),
     st_nel = 2, st_next_sid = 3, st_shutdown = False\<rparr>"

definition sample_services :: services where
  "sample_services = \<lparr>sv_policydb = sample_db, sv_sidtab = sample_sidtab, selinux_enforcing = True, latest_granting = 0\<rparr>"

lemma nth_sample_chains:
  "i < 128 \<Longrightarrow> ([[], [x], [y]] @ replicate 125 []) ! i = (if i = 1 then [x] else if i = 2 then [y] else [])"
  by (simp add: nth_Cons numeral_2_eq_2 split: nat.split)

lemma sample_sid_map: "sid_map sample_sidtab = [1 \<mapsto> sample_context 2 1, 2 \<mapsto> sample_context 1 2]"
proof
  fix sid :: u32
  have h: "SIDTAB_HASH 1 = 1" "SIDTAB_HASH 2 = 2" by (simp_all add: SIDTAB_HASH_def)
  have "SIDTAB_HASH sid < 128" by (rule SIDTAB_HASH_less)
  then show "sid_map sample_sidtab sid = [1 \<mapsto> sample_context 2 1, 2 \<mapsto> sample_context 1 2] sid"
    using h by (auto simp: sid_map_def sample_sidtab_def nth_sample_chains simp del: append.simps)
qed

lemma sample_sidtab_ok: "sidtab_ok sample_sidtab"
proof -
  let ?t = "[[], [(1, sample_context 2 1)], [(2, sample_context 1 2)]] @ replicate 125 []"
  have "chain_sorted sid_after (?t ! i) \<and> (\<forall>x\<in>set (?t ! i). SIDTAB_HASH (fst x) = i)" if "i < 128" for i
    using that by (simp add: nth_sample_chains SIDTAB_HASH_def del: append.simps)
  then show ?thesis
    unfolding sidtab_ok_def using sample_sid_map
    by (intro exI [of _ ?t]) (auto simp: sample_sidtab_def split: if_splits)
qed

lemma sample_services_fields [simp]:
  "sv_policydb sample_services = sample_db" "sv_sidtab sample_services = sample_sidtab"
  "selinux_enforcing sample_services" "latest_granting sample_services = 0"
  by (simp_all add: sample_services_def)

section \<open>Properties\<close>


text \<open>Claim C2. An access decision on two known SIDs grants a permission exactly when a type enforcement rule
  for one of the attributes of either type allows it (conditional rules counted while they are switched on),
  every constraint of the class on the permission holds, and a role change of a process is authorised; the
  reason is 0 exactly when all requested permissions are granted.\<close>

theorem compute_av_decides:
  assumes "sidtab_ok (sv_sidtab sv)" and "sid_map (sv_sidtab sv) ssid = Some sc" and "sid_map (sv_sidtab sv) tsid = Some tc"
    and "av_request_ok (sv_policydb sv) sc tc tclass cd"
  shows "\<exists>avd reason. sepol_compute_av_reason sv ssid tsid tclass requested [] = (Inr (avd, reason), [])
    \<and> decided avd = -1 \<and> seqno avd = latest_granting sv
    \<and> (\<forall>b. bit (allowed avd) b = av_allows (sv_policydb sv) sc tc tclass cd b)
    \<and> (reason = 0 \<longleftrightarrow> (\<forall>b. bit requested b \<longrightarrow> bit (allowed avd) b))"
  using compute_av_bits [OF assms(4), of requested] assms(1-3)
  by (auto simp: sepol_compute_av_reason_def sidm.lookup_bound)

text \<open>Claim C3. In enforcing mode the SID computed for a new object names a context that is valid under the
  policy and carries the user, role and type that the rules prescribe; every older SID keeps its context and
  the rest of the server's state is unchanged.\<close>

theorem compute_sid_valid:
  assumes "selinux_enforcing sv" and "sidtab_ok (sv_sidtab sv)" and "mls_db_ok (sv_policydb sv)" and "rbac_db_ok (sv_policydb sv)"
    and "\<forall>r\<in>set (range_tr (sv_policydb sv)). range_ok (rtr_target_range r)"
    and "spec \<in> {ucast AVTAB_TRANSITION, ucast AVTAB_MEMBER, ucast AVTAB_CHANGE}"
    and "sepol_compute_sid sv ssid tsid tclass spec a = (Inr (sv', Inr sid), b)"
  shows "\<exists>sc tc rule c. sepol_sidtab_search (sv_sidtab sv) ssid = Inr (Some sc) \<and> sepol_sidtab_search (sv_sidtab sv) tsid = Inr (Some tc)
    \<and> type_rule (sv_policydb sv) \<lparr>source_type = ucast (c_type sc), target_type = ucast (c_type tc), target_class = tclass,
        specified = ucast spec\<rparr> = Inr rule
    \<and> c_type c = (case rule of Some t \<Rightarrow> t | None \<Rightarrow> if ucast tclass = SECCLASS_PROCESS then c_type sc else c_type tc)
    \<and> c_user c = (if spec = ucast AVTAB_MEMBER then c_user tc else c_user sc)
    \<and> c_role c = (if ucast tclass \<noteq> SECCLASS_PROCESS then OBJECT_R_VAL
        else if spec \<noteq> ucast AVTAB_TRANSITION then c_role sc
        else case role_rule (sv_policydb sv) (c_role sc) (c_type tc) of Some r \<Rightarrow> r | None \<Rightarrow> c_role sc)
    \<and> context_valid (sv_policydb sv) c \<and> sepol_sidtab_search (sv_sidtab sv') sid = Inr (Some c)
    \<and> sidtab_ok (sv_sidtab sv') \<and> sv' = sv\<lparr>sv_sidtab := sv_sidtab sv'\<rparr>
    \<and> (\<forall>x d. sid_map (sv_sidtab sv) x = Some d \<longrightarrow> sid_map (sv_sidtab sv') x = Some d)"
proof -
  from assms(7) obtain sc tc nc c valid s' a1 a2 a3 where t: "sepol_sidtab_search (sv_sidtab sv) ssid = Inr (Some sc)"
    "sepol_sidtab_search (sv_sidtab sv) tsid = Inr (Some tc)"
    and nc: "new_context (sv_policydb sv) sc tc tclass spec = Inr nc"
    and c: "mls_compute_sid (sv_policydb sv) sc tc (ucast tclass) spec nc a = (Inr c, a1)"
    and v: "policydb_context_isvalid (sv_policydb sv) c = Inr valid" "selinux_enforcing sv \<longrightarrow> valid"
    and s: "sepol_sidtab_context_to_sid (sv_sidtab sv) c a2 = (Inr (s', Inr sid), a3)" "sv' = sv\<lparr>sv_sidtab := s'\<rparr>"
    by (rule compute_sid_run)
  note oks = search_context_ok [OF assms(2)]
  from mls_compute_sid_keeps [OF c oks [OF t(1)] oks [OF t(2)] new_context_ok [OF nc] assms(5)]
  have k: "c_user c = c_user nc" "c_role c = c_role nc" "c_type c = c_type nc" "context_ok c" by auto
  have valid: "context_valid (sv_policydb sv) c"
    using v assms(1) context_is_valid_iff [OF assms(3,4) k(4)] by (simp add: policydb_context_isvalid_def)
  have i: "sidtab_ok s'" "sid_map s' sid = Some c" "\<forall>x d. sid_map (sv_sidtab sv) x = Some d \<longrightarrow> sid_map s' x = Some d"
    using sidtab_intern_spec [OF assms(2) k(4) s(1)] by simp_all
  have sv': "sv_sidtab sv' = s'" "sv' = sv\<lparr>sv_sidtab := s'\<rparr>" using s(2) by simp_all
  from nc assms(6) show ?thesis
  proof (cases rule: new_context_fields)
    case (1 rule)
    show ?thesis
      unfolding sv'(1) using t 1 valid sidm.lookup_bound [OF i(1,2)] i(1,3) sv'(2)
      by (intro exI [of _ sc] exI [of _ tc] exI [of _ rule] exI [of _ c] conjI) (assumption | simp only: k)+
  qed
qed

text \<open>Claim C5. Constraints fail open: when the first allocation of every constraint evaluation fails, the
  decision grants whatever the type enforcement and role rules allow, whether the constraints hold or not.\<close>

theorem constraints_fail_open:
  assumes "av_base_ok (sv_policydb sv) sc tc tclass cd"
  shows "\<exists>avd reason a. context_struct_compute_av sv sc tc tclass requested (replicate (length (cd_constraints cd)) False)
      = (Inr (avd, reason), a)
    \<and> (\<forall>b. bit (allowed avd) b = (te_allows (sv_policydb sv) sc tc tclass b \<and> rbac_allows (sv_policydb sv) sc tc tclass b))"
proof -
  have "\<exists>av' a'. apply_constraints (sv_policydb sv) sc tc tclass (cd_constraints cd) av (replicate (length (cd_constraints cd)) False)
      = (Inr av', a') \<and> True \<and> (\<forall>b. bit av' b = (bit av b \<and> True))" for av
    using apply_constraints_oom [of "cd_constraints cd", OF order_refl, of "sv_policydb sv" sc tc tclass av] by blast
  from compute_av_constrained [where Q = "\<lambda>_. True", OF assms this, of requested] show ?thesis by blast
qed

text \<open>Claim C7. \<open>sepol_validate_transition\<close> evaluates its constraints for class number 0 instead of the class it
  was asked about: for every class that has such a constraint it reads the class name before the start of
  the name table.\<close>

theorem validate_transition_faults:
  assumes "sidtab_ok (sv_sidtab sv)" and "sid_map (sv_sidtab sv) oldsid = Some oc" and "sid_map (sv_sidtab sv) newsid = Some nc"
    and "sid_map (sv_sidtab sv) tasksid = Some tc" and "tclass \<noteq> 0" and "ucast tclass \<le> nprim (p_classes (sv_policydb sv))"
    and "val_get (class_val_to_struct (sv_policydb sv)) (ucast tclass) = Inr (Some cd)" and "cd_validatetrans cd \<noteq> []"
  shows "sepol_validate_transition sv oldsid newsid tasksid tclass [] = (Inl Fault, [])"
proof -
  have ev: "constraint_expr_eval_reason p oc nc (Some tc) 0 con [] = (Inl Fault, [])" for p con
    by (simp add: constraint_expr_eval_reason_def get_class_info_def bindE_def tryE_def throwE_def)
  obtain con cs where "cd_validatetrans cd = con # cs" using assms(8) by (cases "cd_validatetrans cd") auto
  then show ?thesis
    using assms(5,6) sidm.lookup_bound [OF assms(1,2)] sidm.lookup_bound [OF assms(1,3)] sidm.lookup_bound [OF assms(1,4)]
    by (auto simp: sepol_validate_transition_def Let_def assms(7) bindE_def liftE_def ev)
qed

text \<open>\<open>sepol_string_to_security_class\<close> returns the number of the first class of the given name; for a
  name that no class has it runs past the end of the name table, which has no null entry.\<close>

lemma string_to_class_exact:
  assumes "p_class_val_to_name (sv_policydb sv) = map Some names" and "length names < 65535"
  shows "sepol_string_to_security_class sv nm =
    (if nm \<in> set names then Inr (of_nat (length (takeWhile (\<lambda>c. c \<noteq> nm) names) + 1)) else Inl Fault)"
  using find_class_from [of names 0 nm] assms by (simp add: sepol_string_to_security_class_def)


section \<open>Witnesses\<close>

lemma sample_class_named: "class_named sample_db 1" "class_named sample_db 2"
  by (simp_all add: class_named_def sample_db_def)

lemma sample_con_tree:
  "con_tree sample_db (sample_context r t) (sample_context r' t') None sample_constraint
     (CAtom (hd (cn_expr sample_constraint)))"
  by (simp add: con_tree_def sample_constraint_def atoms_ok_def atom_res_def cexpr_attr_def val_ops_def)


lemma sample_base_ok:
  "av_base_ok sample_db (sample_context 2 1) (sample_context 1 2) 1 sample_file"
  "av_base_ok sample_db (sample_context 2 1) (sample_context 2 3) 2 sample_process"
  using sample_class_named
  by (simp_all add: av_base_ok_def type_mapped_def sample_context_def bits_of_ok sample_db_def val_get_def)

lemma sample_file_allows: "av_allows sample_db (sample_context 2 1) (sample_context 1 2) 1 sample_file 1"
proof -
  have bits: "0 \<in> ebitmap_bits (bits_of 1)" "1 \<in> ebitmap_bits (bits_of 2)"
    by (auto simp: ebitmap_bits_def bits_of_def node_has_def bit_iff_odd)
  have "rule_allows sample_db (av_lookup 1 0 1) 1"
    by (simp add: rule_allows_def av_lookup_def spec_match_def key_same_def spec_mask_def sample_db_def bit_iff_odd)
  then have "te_allows sample_db (sample_context 2 1) (sample_context 1 2) 1 1"
    unfolding te_allows_def using bits
    by (intro exI [of _ 0] exI [of _ 1]) (simp add: sample_db_def sample_context_def)
  then show ?thesis by (simp add: av_allows_def rbac_allows_def sample_file_def)
qed

theorem compute_av_decides_witness:
  "\<exists>avd. sepol_compute_av_reason sample_services 1 2 1 2 [] = (Inr (avd, 0), []) \<and> bit (allowed avd) 1"
proof -
  have req: "av_request_ok sample_db (sample_context 2 1) (sample_context 1 2) 1 sample_file"
    using sample_base_ok by (simp add: av_request_ok_def sample_file_def)
  obtain avd reason where d: "sepol_compute_av_reason sample_services 1 2 1 2 [] = (Inr (avd, reason), [])"
    "bit (allowed avd) 1" "reason = 0 \<longleftrightarrow> (\<forall>b. bit (2 :: u32) b \<longrightarrow> bit (allowed avd) b)"
    using compute_av_decides [of sample_services 1 "sample_context 2 1" 2 "sample_context 1 2" 1 sample_file 2]
      req sample_file_allows sample_sidtab_ok sample_sid_map by auto
  have "b = 1" if "bit (2 :: u32) b" for b
    using that bit_exp_iff [of 1 b, where 'a = "32 word"] by simp
  with d have "reason = 0" by blast
  with d show ?thesis by blast
qed

theorem compute_sid_valid_witness:
  "\<exists>sv' c. sepol_compute_sid sample_services 1 2 2 (ucast AVTAB_TRANSITION) [] = (Inr (sv', Inr 3), [])
     \<and> context_valid sample_db c \<and> sepol_sidtab_search (sv_sidtab sv') 3 = Inr (Some c)"
proof -
  have "apfst (map_sum id snd) (sepol_compute_sid sample_services 1 2 2 (ucast AVTAB_TRANSITION) []) = (Inr (Inr 3), [])"
    by code_simp
  then obtain sv' where r: "sepol_compute_sid sample_services 1 2 2 (ucast AVTAB_TRANSITION) [] = (Inr (sv', Inr 3), [])"
    by (cases "sepol_compute_sid sample_services 1 2 2 (ucast AVTAB_TRANSITION) []") (auto simp: map_sum_def split: sum.splits)
  have "range_tr sample_db = []" by (simp add: sample_db_def policydb_zero_def)
  then show ?thesis
    using compute_sid_valid [OF _ _ _ _ _ _ r] r sample_sidtab_ok sample_mls_ok sample_rbac_ok by auto
qed

theorem constraints_fail_open_witness:
  "\<exists>avd reason a. context_struct_compute_av sample_services (sample_context 2 1) (sample_context 2 3) 2 2 [False]
     = (Inr (avd, reason), a)"
  using constraints_fail_open [of sample_services "sample_context 2 1" "sample_context 2 3" 2 sample_process 2] sample_base_ok(2)
  by (auto simp: sample_process_def)

theorem validate_transition_faults_witness: "sepol_validate_transition sample_services 1 1 1 2 [] = (Inl Fault, [])"
  using sample_sidtab_ok sample_sid_map
  by (intro validate_transition_faults [where cd = sample_process and oc = "sample_context 2 1" and nc = "sample_context 2 1"
        and tc = "sample_context 2 1"])
    (simp_all add: sample_db_def sample_process_def val_get_def)

lemma string_to_class_exact_witness:
  "sepol_string_to_security_class sample_services ''process'' = Inr 2 \<and> sepol_string_to_security_class sample_services ''dir'' = Inl Fault"
proof -
  have n: "p_class_val_to_name (sv_policydb sample_services) = map Some [''file'', ''process'']" by (simp add: sample_db_def)
  show ?thesis
    using string_to_class_exact [OF n, of "''process''"] string_to_class_exact [OF n, of "''dir''"] by simp
qed


end
