(* ===== verification/Load_Policy.thy ===== *)
theory Load_Policy
  imports Services
begin

text \<open>
  Switching to a new policy (services.c): the checks that the classes of the running policy keep their
  definition, the conversion of the contexts of the SID table by name, and the exchange. The new policy
  that \<open>policydb_read\<close> has made from the image is an argument.
\<close>

definition validate_perm :: "(string, perm_datum) hashtab_t \<Rightarrow> string \<Rightarrow> perm_datum \<Rightarrow> unit alloc_m" where
  "validate_perm h key perdatum = bindE (liftE (hashtab_search h key)) (\<lambda>r. case r of
     None \<Rightarrow> throwE STATUS_ERR
   | Some perdatum2 \<Rightarrow> if pd_value perdatum \<noteq> pd_value perdatum2 then throwE STATUS_ERR else returnE ())"

definition validate_perms :: "(string, perm_datum) hashtab_t \<Rightarrow> (string, perm_datum) hashtab_t \<Rightarrow> unit alloc_m" where
  "validate_perms old new = hashtab_map old (\<lambda>k d _. validate_perm new k d) ()"

definition validate_class :: "policydb \<Rightarrow> string \<Rightarrow> class_datum \<Rightarrow> unit alloc_m" where
  "validate_class newp key cladatum =
     bindE (liftE (hashtab_search (table (p_classes newp)) key)) (\<lambda>r. case r of
       None \<Rightarrow> throwE STATUS_ERR
     | Some cladatum2 \<Rightarrow>
         if cd_value cladatum \<noteq> cd_value cladatum2 then throwE STATUS_ERR
         else bindE
           (case (cd_comdatum cladatum, cd_comdatum cladatum2) of
              (Some com, Some com2) \<Rightarrow>
                validate_perms (table (cmd_permissions com)) (table (cmd_permissions com2))
            | (None, None) \<Rightarrow> returnE ()
            | _ \<Rightarrow> throwE STATUS_ERR)
           (\<lambda>_. validate_perms (table (cd_permissions cladatum)) (table (cd_permissions cladatum2))))"

definition clone_sid :: "u32 \<Rightarrow> context_struct \<Rightarrow> sidtab \<Rightarrow> sidtab alloc_m" where
  "clone_sid sid con s = sepol_sidtab_insert s sid con"

definition convert_context_handle_invalid_context :: "services \<Rightarrow> context_struct \<Rightarrow> unit alloc_m" where
  "convert_context_handle_invalid_context sv con =
     (if selinux_enforcing sv then throwE EINVAL
      else bindE (failE (context_to_string (sv_policydb sv) con) Fault) (\<lambda>_. returnE ()))"

text \<open>The exit of a failed conversion prints the text of the old context; a text that could not be made is
  an uninitialised pointer.\<close>

definition bad_context :: "services \<Rightarrow> context_struct \<Rightarrow> err \<Rightarrow> 'a alloc_m" where
  "bad_context sv oldc rc = bindE (failE (context_to_string (sv_policydb sv) oldc) Fault) (\<lambda>_. throwE rc)"

definition convert_names :: "policydb \<Rightarrow> policydb \<Rightarrow> context_struct \<Rightarrow> context_struct option res" where
  "convert_names oldp newp c =
     bindR (val_deref (p_user_val_to_name oldp) (c_user c)) (\<lambda>un.
     bindR (hashtab_search (table (p_users newp)) un) (\<lambda>ur. case ur of None \<Rightarrow> Inr None
     | Some usrdatum \<Rightarrow>
     bindR (val_deref (p_role_val_to_name oldp) (c_role c)) (\<lambda>rn.
     bindR (hashtab_search (table (p_roles newp)) rn) (\<lambda>rr. case rr of None \<Rightarrow> Inr None
     | Some role \<Rightarrow>
     bindR (val_deref (p_type_val_to_name oldp) (c_type c)) (\<lambda>tn.
     bindR (hashtab_search (table (p_types newp)) tn) (\<lambda>tr. case tr of None \<Rightarrow> Inr None
     | Some typdatum \<Rightarrow>
         Inr (Some (c\<lparr>c_user := ud_value usrdatum, c_role := rd_value role, c_type := td_value typdatum\<rparr>))))))))"

text \<open>The end of the conversion: the check of the result.\<close>

definition convert_check :: "services \<Rightarrow> policydb \<Rightarrow> context_struct \<Rightarrow> context_struct \<Rightarrow> context_struct alloc_m" where
  "convert_check sv newp oldc c = bindE (liftE (policydb_context_isvalid newp c)) (\<lambda>valid.
     if valid then returnE c
     else bindE (tryE (convert_context_handle_invalid_context sv oldc)) (\<lambda>h. case h of
       Inl e \<Rightarrow> if err_code e then bad_context sv oldc e else throwE e
     | Inr _ \<Rightarrow> returnE c))"

definition convert_context :: "services \<Rightarrow> policydb \<Rightarrow> u32 \<Rightarrow> context_struct \<Rightarrow> context_struct alloc_m" where
  "convert_context sv newp key c =
     bindE (failE (context_cpy context_init c) ENOMEM) (\<lambda>oldc.
     bindE (liftE (convert_names (sv_policydb sv) newp c)) (\<lambda>r. case r of
       None \<Rightarrow> bad_context sv oldc EINVAL
     | Some c1 \<Rightarrow> bindE (tryE (mls_convert_context (sv_policydb sv) newp c1)) (\<lambda>m. case m of
         Inl e \<Rightarrow> if err_code e then bad_context sv oldc e else throwE e
       | Inr c2 \<Rightarrow> convert_check sv newp oldc c2)))"

text \<open>The result of \<open>sepol_sidtab_init\<close> is not looked at; a table without an array refuses every insertion.\<close>

definition new_sidtab :: "sidtab alloc_m" where
  "new_sidtab = bindE (tryE sepol_sidtab_init) (\<lambda>r. case r of
     Inr s \<Rightarrow> returnE s
   | Inl _ \<Rightarrow> returnE \<lparr>st_htable = None, st_nel = 0, st_next_sid = 0, st_shutdown = False\<rparr>)"

text \<open>From the point where the image has been read. The old table is shut down before it is cloned and
  stays so when the cloning fails. The error codes are returned beside the state.\<close>

definition sepol_load_policy :: "services \<Rightarrow> policydb \<Rightarrow> (services \<times> unit res) alloc_m" where
  "sepol_load_policy sv newpolicydb =
     bindE new_sidtab (\<lambda>newsidtab.
     bindE (tryE (hashtab_map (table (p_classes (sv_policydb sv))) (\<lambda>k d _. validate_class newpolicydb k d) ())) (\<lambda>v.
     case v of
       Inl e \<Rightarrow> if err_code e then returnE (sv, Inl EINVAL) else throwE e
     | Inr _ \<Rightarrow>
         let sv1 = sv\<lparr>sv_sidtab := sepol_sidtab_shutdown (sv_sidtab sv)\<rparr> in
         bindE (tryE (sepol_sidtab_map (sv_sidtab sv1) clone_sid newsidtab)) (\<lambda>c. case c of
           Inl e \<Rightarrow> if err_code e then returnE (sv1, Inl ENOMEM) else throwE e
         | Inr cloned \<Rightarrow>
             bindE (sepol_sidtab_map_remove_on_error cloned (convert_context sv1 newpolicydb)) (\<lambda>converted.
               returnE (sv1\<lparr>sv_policydb := newpolicydb, sv_sidtab := sepol_sidtab_set (sv_sidtab sv1) converted\<rparr>,
                 Inr ())))))"

section \<open>Converted contexts\<close>

lemma set_bit_ok: "ebitmap_ok e \<Longrightarrow> ebitmap_set_bit e b v a = (Inr e', a') \<Longrightarrow> ebitmap_ok e'"
  using ebitmap_set_bit_spec [of e b v] ebitmap_set_bit_einval [of b e v a] yields_Inr [of "ebitmap_set_bit e b v"]
  by (cases "bit_settable b") (fastforce, simp)

lemma convert_level_ok:
  assumes "convert_level oldp newp lv a = (Inr l, b)"
  shows "level_ok l"
proof -
  let ?f = "\<lambda>i bitmap. bindE (liftE (name_at (p_cat_val_to_name oldp) i)) (\<lambda>cn.
    bindE (liftE (hashtab_search (table (p_cats newp)) cn)) (\<lambda>cd. case cd of
      None \<Rightarrow> throwE EINVAL
    | Some catdatum \<Rightarrow> ebitmap_set_bit bitmap (catd_value catdatum - 1) True))"
  from assms obtain bs where "foldE ?f bs ebitmap_init a = (Inr (cat l), b)"
    by (auto simp: convert_level_def bindE_eq_Inr split: option.splits)
  then have "ebitmap_ok (cat l)" using level_init_ok(1)
    by (elim foldE_invariant [where P = ebitmap_ok])
      (auto simp: level_ok_def mls_level_init_def bindE_eq_Inr split: option.splits dest: set_bit_ok)
  then show ?thesis by (simp add: level_ok_def)
qed

lemma mls_convert_keeps:
  assumes "mls_convert_context oldp newp c a = (Inr c', b)"
  shows "c_user c' = c_user c \<and> c_role c' = c_role c \<and> c_type c' = c_type c \<and> (context_ok c \<longrightarrow> context_ok c')"
  using assms convert_level_ok
  by (fastforce simp: mls_convert_context_def bindE_eq_Inr context_ok_def range_ok_def split: if_splits)

text \<open>The user, role and type of a converted context have the names that they had.\<close>

definition same_names :: "policydb \<Rightarrow> policydb \<Rightarrow> context_struct \<Rightarrow> context_struct \<Rightarrow> bool" where
  "same_names oldp newp c c' \<longleftrightarrow>
     (\<exists>n d. val_deref (p_user_val_to_name oldp) (c_user c) = Inr n \<and> hashtab_search (table (p_users newp)) n = Inr (Some d)
        \<and> ud_value d = c_user c')
   \<and> (\<exists>n d. val_deref (p_role_val_to_name oldp) (c_role c) = Inr n \<and> hashtab_search (table (p_roles newp)) n = Inr (Some d)
        \<and> rd_value d = c_role c')
   \<and> (\<exists>n d. val_deref (p_type_val_to_name oldp) (c_type c) = Inr n \<and> hashtab_search (table (p_types newp)) n = Inr (Some d)
        \<and> td_value d = c_type c')"

lemma convert_names_same:
  "convert_names oldp newp c = Inr (Some c1) \<Longrightarrow> same_names oldp newp c c1 \<and> c_range c1 = c_range c"
  by (auto simp: convert_names_def same_names_def bindR_eq_Inr split: option.splits)

lemma bad_context_fails: "bad_context sv c e a \<noteq> (Inr v, b)"
  by (auto simp: bad_context_def bindE_eq_Inr)

lemma convert_check_sound:
  assumes "convert_check sv newp oldc c a = (Inr c', b)"
  shows "c' = c \<and> (selinux_enforcing sv \<longrightarrow> policydb_context_isvalid newp c = Inr True)"
  using assms
  by (cases "policydb_context_isvalid newp c")
    (auto simp: convert_check_def bindE_def tryE_def returnE_def throwE_def liftE_def bad_context_fails
      convert_context_handle_invalid_context_def split: if_splits sum.splits prod.splits)

lemma convert_context_sound:
  assumes "convert_context sv newp key c a = (Inr c', b)"
  shows "same_names (sv_policydb sv) newp c c' \<and> (context_ok c \<longrightarrow> context_ok c')
    \<and> (selinux_enforcing sv \<longrightarrow> policydb_context_isvalid newp c' = Inr True)"
proof -
  obtain c1 where c1: "convert_names (sv_policydb sv) newp c = Inr (Some c1)"
    using assms by (cases "convert_names (sv_policydb sv) newp c"; cases "projr (convert_names (sv_policydb sv) newp c)")
      (auto simp: convert_context_def bindE_eq_Inr bad_context_fails)
  with assms obtain oldc c2 a1 a2 a3 where 2: "mls_convert_context (sv_policydb sv) newp c1 a1 = (Inr c2, a2)"
    "convert_check sv newp oldc c2 a2 = (Inr c', b)"
    by (auto simp: convert_context_def bindE_eq_Inr tryE_def bad_context_fails split: sum.splits prod.splits if_splits)
      (metis sum.exhaust)
  from convert_names_same [OF c1] mls_convert_keeps [OF 2(1)] convert_check_sound [OF 2(2)] show ?thesis
    by (auto simp: same_names_def context_ok_def)
qed

section \<open>Classes\<close>

text \<open>A walk that returns has accepted every binding.\<close>

lemma hashtab_map_checks:
  assumes "hashtab_ok hp" "hashtab_map hp (\<lambda>k d _. chk k d) () a = (Inr (), b)" "hashtab_abs hp k = Some d"
  obtains a' b' where "chk k d a' = (Inr (), b')"
proof -
  from assms(1) obtain h where h: "hp = Some h" by (auto simp: hashtab_ok_def)
  have "(k, d) \<in> set (ht_entries h)"
  proof -
    have "ht_slot h k < length (htable h)" using assms(1) ht_index_slot(2) by (auto simp: h hashtab_ok_def)
    moreover have "(k, d) \<in> set (htable h ! ht_slot h k)" using assms(3) by (simp add: h hashtab_abs_def map_of_SomeD)
    ultimately show ?thesis unfolding ht_entries_def set_concat by (meson UN_I nth_mem)
  qed
  moreover have "foldE (\<lambda>(k, d) _. chk k d) (ht_entries h) () a = (Inr (), b)"
    using assms(2) hashtab_map_entries [of h "\<lambda>k d _. chk k d" "()"] assms(1) by (simp add: h case_prod_unfold)
  ultimately show thesis using foldE_checks that by (metis (no_types, lifting) case_prod_conv)
qed

definition perms_kept :: "perm_datum symtab \<Rightarrow> perm_datum symtab \<Rightarrow> bool" where
  "perms_kept old new \<longleftrightarrow> (\<forall>k d. hashtab_abs (table old) k = Some d \<longrightarrow>
     (\<exists>d'. hashtab_abs (table new) k = Some d' \<and> pd_value d' = pd_value d))"

definition class_kept :: "class_datum \<Rightarrow> class_datum \<Rightarrow> bool" where
  "class_kept cd cd' \<longleftrightarrow> cd_value cd' = cd_value cd \<and> perms_kept (cd_permissions cd) (cd_permissions cd')
     \<and> (case (cd_comdatum cd, cd_comdatum cd') of
          (None, None) \<Rightarrow> True
        | (Some com, Some com') \<Rightarrow> perms_kept (cmd_permissions com) (cmd_permissions com')
        | _ \<Rightarrow> False)"

definition class_tables_ok :: "policydb \<Rightarrow> bool" where
  "class_tables_ok p \<longleftrightarrow> hashtab_ok (table (p_classes p))
     \<and> (\<forall>k cd. hashtab_abs (table (p_classes p)) k = Some cd \<longrightarrow> hashtab_ok (table (cd_permissions cd))
          \<and> (\<forall>com. cd_comdatum cd = Some com \<longrightarrow> hashtab_ok (table (cmd_permissions com))))"

lemma validate_perms_kept:
  assumes "hashtab_ok (table old)" "hashtab_ok (table new)" "validate_perms (table old) (table new) a = (Inr (), b)"
  shows "perms_kept old new"
  unfolding perms_kept_def
proof (intro allI impI)
  fix k d assume "hashtab_abs (table old) k = Some d"
  with assms(1) assms(3) [unfolded validate_perms_def] obtain a' b' where "validate_perm (table new) k d a' = (Inr (), b')"
    by (rule hashtab_map_checks)
  then show "\<exists>d'. hashtab_abs (table new) k = Some d' \<and> pd_value d' = pd_value d"
    by (auto simp: validate_perm_def hashtab_search_abs [OF assms(2)] split: option.splits if_splits)
qed

lemma validate_class_kept:
  assumes "class_tables_ok oldp" "class_tables_ok newp" "hashtab_abs (table (p_classes oldp)) k = Some cd"
    "validate_class newp k cd a = (Inr (), b)"
  shows "\<exists>cd'. hashtab_abs (table (p_classes newp)) k = Some cd' \<and> class_kept cd cd'"
proof -
  have s: "hashtab_search (table (p_classes newp)) k = Inr (hashtab_abs (table (p_classes newp)) k)"
    using assms(2) by (simp add: class_tables_ok_def hashtab_search_abs)
  from assms(4) obtain cd' where cd': "hashtab_abs (table (p_classes newp)) k = Some cd'"
    by (auto simp: validate_class_def s split: option.splits)
  have ok: "hashtab_ok (table (cd_permissions cd))" "hashtab_ok (table (cd_permissions cd'))"
    "cd_comdatum cd = Some com \<Longrightarrow> hashtab_ok (table (cmd_permissions com))"
    "cd_comdatum cd' = Some com' \<Longrightarrow> hashtab_ok (table (cmd_permissions com'))" for com com'
    using assms(1-3) cd' by (auto simp: class_tables_ok_def)
  have "class_kept cd cd'"
    using assms(4) ok validate_perms_kept
    by (auto simp: validate_class_def s cd' class_kept_def bindE_eq_Inr split: option.splits if_splits)
  with cd' show ?thesis by blast
qed

section \<open>The switch\<close>

lemma load_policy_run:
  assumes "sepol_load_policy sv newp a = (Inr (sv', Inr ()), b)"
  obtains s0 s1 s2 a1 a2 a3 where "new_sidtab a = (Inr s0, a1)"
    "hashtab_map (table (p_classes (sv_policydb sv))) (\<lambda>k d _. validate_class newp k d) () a1 = (Inr (), a2)"
    "sepol_sidtab_map (sepol_sidtab_shutdown (sv_sidtab sv)) clone_sid s0 a2 = (Inr s1, a3)"
    "sepol_sidtab_map_remove_on_error s1 (convert_context (sv\<lparr>sv_sidtab := sepol_sidtab_shutdown (sv_sidtab sv)\<rparr>) newp) a3 = (Inr s2, b)"
    "sv' = sv\<lparr>sv_policydb := newp, sv_sidtab := sepol_sidtab_set (sepol_sidtab_shutdown (sv_sidtab sv)) s2\<rparr>"
proof -
  from assms obtain s0 a1 where 1: "new_sidtab a = (Inr s0, a1)" by (auto simp: sepol_load_policy_def bindE_eq_Inr)
  obtain v a2 where 2: "hashtab_map (table (p_classes (sv_policydb sv))) (\<lambda>k d _. validate_class newp k d) () a1 = (v, a2)"
    by fastforce
  obtain c a3 where 3: "sepol_sidtab_map (sepol_sidtab_shutdown (sv_sidtab sv)) clone_sid s0 a2 = (c, a3)" by fastforce
  from assms 1 2 have "v = Inr ()"
    by (cases v) (auto simp: sepol_load_policy_def bindE_def tryE_def returnE_def throwE_def split: if_splits)
  moreover from assms 1 2 3 this obtain s1 where "c = Inr s1"
    by (cases c) (auto simp: sepol_load_policy_def bindE_def tryE_def returnE_def throwE_def Let_def split: if_splits)
  ultimately show thesis
    using assms 1 2 3 that
    by (auto simp: sepol_load_policy_def bindE_def tryE_def returnE_def Let_def split: sum.splits prod.splits)
qed

text \<open>The table that the contexts are converted in has the bindings of the old one.\<close>

lemma load_policy_clone:
  assumes "sidtab_ok (sv_sidtab sv)" "sid_map (sv_sidtab sv) x = Some cx" "new_sidtab a = (Inr s0, a1)"
    "sepol_sidtab_map (sepol_sidtab_shutdown (sv_sidtab sv)) clone_sid s0 a2 = (Inr s1, a3)"
  shows "sidtab_ok s1 \<and> sid_map s1 = sid_map (sv_sidtab sv)"
proof -
  let ?s = "sepol_sidtab_shutdown (sv_sidtab sv)"
  have same: "sid_map ?s = sid_map (sv_sidtab sv)" by (simp add: sid_map_def sepol_sidtab_shutdown_def fun_eq_iff)
  then have ok: "sidtab_ok ?s" using assms(1) by (simp add: sidtab_ok_def sepol_sidtab_shutdown_def)
  have "(x, cx) \<in> set (sid_entries ?s)" using sid_map_entries [OF ok] assms(2) same by simp
  then obtain e es where es: "sid_entries ?s = e # es" by (cases "sid_entries ?s") auto
  have "sepol_sidtab_insert s0 sid con = throwE ENOMEM" if "st_htable s0 = None" for sid con
    using that by (simp add: sepol_sidtab_insert_def)
  then have "st_htable s0 \<noteq> None"
    using assms(4) unfolding sidtab_map_entries [OF ok] es by (cases "st_htable s0") (auto simp: clone_sid_def split: prod.splits)
  then obtain a' where "sepol_sidtab_init a' = (Inr s0, a1)"
    using assms(3) by (auto simp: new_sidtab_def bindE_def tryE_def returnE_def split: prod.splits sum.splits)
  note i = sidtab_init_ok [OF this]
  have "clone_sid = (\<lambda>sid con t. sepol_sidtab_insert t sid con)" by (simp add: fun_eq_iff clone_sid_def)
  with sidtab_clone [OF ok i] assms(4) show ?thesis
    unfolding same by (metis Inr_inject yields_Inr)
qed

text \<open>Without a failed allocation the switch goes through.\<close>

lemma load_policy_no_oom:
  assumes "sidtab_ok (sv_sidtab sv)"
    and "hashtab_map (table (p_classes (sv_policydb sv))) (\<lambda>k d _. validate_class newp k d) () [] = (Inr (), [])"
    and "\<And>sid c. sid_map (sv_sidtab sv) sid = Some c \<Longrightarrow>
      converts (convert_context (sv\<lparr>sv_sidtab := sepol_sidtab_shutdown (sv_sidtab sv)\<rparr>) newp) sid c"
  shows "\<exists>sv'. sepol_load_policy sv newp [] = (Inr (sv', Inr ()), []) \<and> sv_policydb sv' = newp
    \<and> (\<forall>sid. sid_map (sv_sidtab sv') sid = Option.bind (sid_map (sv_sidtab sv) sid)
        (converted (convert_context (sv\<lparr>sv_sidtab := sepol_sidtab_shutdown (sv_sidtab sv)\<rparr>) newp) sid))"
proof -
  let ?s = "sepol_sidtab_shutdown (sv_sidtab sv)"
  let ?app = "convert_context (sv\<lparr>sv_sidtab := ?s\<rparr>) newp"
  have same: "sid_map ?s = sid_map (sv_sidtab sv)" by (simp add: sid_map_def sepol_sidtab_shutdown_def fun_eq_iff)
  then have ok: "sidtab_ok ?s" using assms(1) by (simp add: sidtab_ok_def sepol_sidtab_shutdown_def)
  have ns: "new_sidtab [] = (Inr sidtab_ex, [])" using sidtab_ex_init by (simp add: new_sidtab_def bindE_def tryE_def returnE_def)
  have "clone_sid = (\<lambda>sid con t. sepol_sidtab_insert t sid con)" by (simp add: fun_eq_iff clone_sid_def)
  with sidtab_clone [OF ok sidtab_ex_facts(1,2)] obtain s1 where
    s1: "sepol_sidtab_map ?s clone_sid sidtab_ex [] = (Inr s1, [])" "sidtab_ok s1" "sid_map s1 = sid_map (sv_sidtab sv)"
    using same yields_no_oom by metis
  with sidtab_convert_no_oom [OF s1(2), of ?app] assms(3) obtain s2 where
    s2: "sepol_sidtab_map_remove_on_error s1 ?app [] = (Inr s2, [])"
    "\<forall>sid. sid_map s2 sid = Option.bind (sid_map (sv_sidtab sv) sid) (converted ?app sid)" by metis
  let ?sv' = "sv\<lparr>sv_policydb := newp, sv_sidtab := sepol_sidtab_set ?s s2\<rparr>"
  have "sepol_load_policy sv newp [] = (Inr (?sv', Inr ()), [])"
    using ns assms(2) s1(1) s2(1) by (simp add: sepol_load_policy_def bindE_def tryE_def returnE_def Let_def)
  moreover have "sid_map (sv_sidtab ?sv') = sid_map s2" by (simp add: sid_map_def sepol_sidtab_set_def fun_eq_iff)
  ultimately show ?thesis using s2(2) by (intro exI [of _ ?sv']) simp
qed

section \<open>Properties\<close>

text \<open>Claim C17. When a new policy is loaded in enforcing mode, every SID of the running server is one that it had
  before, and its context is valid under the new policy and has the user, role and type names that it had
  under the old one: no SID keeps a context that the new policy does not allow.\<close>

theorem load_policy_converts:
  assumes "selinux_enforcing sv" and "sidtab_ok (sv_sidtab sv)" and "sid_map (sv_sidtab sv) x = Some cx"
    and "mls_db_ok newp" and "rbac_db_ok newp" and "sepol_load_policy sv newp a = (Inr (sv', Inr ()), b)"
  shows "sv_policydb sv' = newp \<and> sidtab_ok (sv_sidtab sv') \<and> (\<forall>sid c'. sid_map (sv_sidtab sv') sid = Some c' \<longrightarrow>
    context_valid newp c' \<and> (\<exists>c. sid_map (sv_sidtab sv) sid = Some c \<and> same_names (sv_policydb sv) newp c c'))"
proof -
  let ?sv = "sv\<lparr>sv_sidtab := sepol_sidtab_shutdown (sv_sidtab sv)\<rparr>"
  from assms(6) obtain s0 s1 s2 a1 a2 a3 where l: "new_sidtab a = (Inr s0, a1)"
    "sepol_sidtab_map (sepol_sidtab_shutdown (sv_sidtab sv)) clone_sid s0 a2 = (Inr s1, a3)"
    "sepol_sidtab_map_remove_on_error s1 (convert_context ?sv newp) a3 = (Inr s2, b)"
    "sv' = sv\<lparr>sv_policydb := newp, sv_sidtab := sepol_sidtab_set (sepol_sidtab_shutdown (sv_sidtab sv)) s2\<rparr>"
    by (rule load_policy_run)
  from load_policy_clone [OF assms(2,3) l(1,2)] have s1: "sidtab_ok s1" "sid_map s1 = sid_map (sv_sidtab sv)" by simp_all
  have keep: "context_ok con'" if "context_ok con" "convert_context ?sv newp sid con a = (Inr con', b)" for sid con con' a b
    using convert_context_sound [OF that(2)] that(1) by blast
  have conv: "sidtab_ok s2" "\<And>sid c'. sid_map s2 sid = Some c' \<Longrightarrow>
      \<exists>c a b. sid_map s1 sid = Some c \<and> convert_context ?sv newp sid c a = (Inr c', b)"
    by (rule sidtab_convert [OF s1(1) l(3)], erule (1) keep, assumption?)+
  have same: "sid_map (sv_sidtab sv') = sid_map s2" by (simp add: l(4) sid_map_def sepol_sidtab_set_def fun_eq_iff)
  then have ok: "sidtab_ok (sv_sidtab sv')" using conv(1) by (simp add: sidtab_ok_def l(4) sepol_sidtab_set_def)
  have "context_valid newp c' \<and> (\<exists>c. sid_map (sv_sidtab sv) sid = Some c \<and> same_names (sv_policydb sv) newp c c')"
    if "sid_map (sv_sidtab sv') sid = Some c'" for sid c'
  proof -
    from that same have "sid_map s2 sid = Some c'" by simp
    from conv(2) [OF this] obtain c a b where c: "sid_map (sv_sidtab sv) sid = Some c" "convert_context ?sv newp sid c a = (Inr c', b)"
      unfolding s1(2) by blast
    from ok have "context_ok c'" by (rule sidtab_okE) (use that in blast)
    then have "context_is_valid newp c' = Inr (context_valid newp c')" by (rule context_is_valid_iff [OF assms(4,5)])
    moreover have "same_names (sv_policydb sv) newp c c'" "policydb_context_isvalid newp c' = Inr True"
      using convert_context_sound [OF c(2)] assms(1) by simp_all
    ultimately show ?thesis using c(1) by (auto simp: policydb_context_isvalid_def)
  qed
  with ok show ?thesis by (simp add: l(4))
qed

text \<open>Claim C18. Loading a policy succeeds only when every class of the running policy is still defined with the
  same number, the same numbers for its permissions and the same kind of inheritance, so that decisions
  taken with class and permission numbers keep their meaning; a policy that changes one of them is refused
  and leaves the server as it was.\<close>

theorem load_policy_keeps_classes:
  assumes "class_tables_ok (sv_policydb sv)" and "class_tables_ok newp" and "hashtab_abs (table (p_classes (sv_policydb sv))) k = Some cd"
    and "sepol_load_policy sv newp a = (Inr (sv', r), b)"
  shows "(r = Inr () \<longrightarrow> (\<exists>cd'. hashtab_abs (table (p_classes newp)) k = Some cd' \<and> class_kept cd cd')) \<and> (r = Inl EINVAL \<longrightarrow> sv' = sv)"
proof (intro conjI impI)
  assume "r = Inr ()"
  with assms(4) have "sepol_load_policy sv newp a = (Inr (sv', Inr ()), b)" by simp
  then obtain a1 a2 where "hashtab_map (table (p_classes (sv_policydb sv))) (\<lambda>k d _. validate_class newp k d) () a1 = (Inr (), a2)"
    by (rule load_policy_run)
  moreover have "hashtab_ok (table (p_classes (sv_policydb sv)))" using assms(1) by (simp add: class_tables_ok_def)
  ultimately obtain a' b' where "validate_class newp k cd a' = (Inr (), b')" using assms(3) hashtab_map_checks by metis
  then show "\<exists>cd'. hashtab_abs (table (p_classes newp)) k = Some cd' \<and> class_kept cd cd'"
    by (rule validate_class_kept [OF assms(1-3)])
next
  assume "r = Inl EINVAL"
  with assms(4) show "sv' = sv"
    by (auto simp: sepol_load_policy_def bindE_def tryE_def returnE_def throwE_def Let_def
        split: sum.splits prod.splits if_splits)
qed

text \<open>Claim C19. A new policy that passes the class check and under which no conversion of a context faults is
  installed whenever no allocation fails: the call returns success, the new policy is in force, and exactly
  the SIDs whose contexts can be converted stay, with their converted contexts.\<close>

theorem load_policy_succeeds:
  assumes "sidtab_ok (sv_sidtab sv)"
    and "hashtab_map (table (p_classes (sv_policydb sv))) (\<lambda>k d _. validate_class newp k d) () [] = (Inr (), [])"
    and "\<And>sid c. sid_map (sv_sidtab sv) sid = Some c \<Longrightarrow>
      converts (convert_context (sv\<lparr>sv_sidtab := sepol_sidtab_shutdown (sv_sidtab sv)\<rparr>) newp) sid c"
  shows "\<exists>sv'. sepol_load_policy sv newp [] = (Inr (sv', Inr ()), []) \<and> sv_policydb sv' = newp
    \<and> (\<forall>sid. sid_map (sv_sidtab sv') sid = Option.bind (sid_map (sv_sidtab sv) sid)
        (converted (convert_context (sv\<lparr>sv_sidtab := sepol_sidtab_shutdown (sv_sidtab sv)\<rparr>) newp) sid))"
  using assms by (rule load_policy_no_oom)

section \<open>Witnesses\<close>

text \<open>The sample policy without MLS is loaded over itself, with one more type in front of the others, so that the types
  get new numbers.\<close>

definition next_db :: policydb where
  "next_db = plain_db\<lparr>p_types := symtab_of [(''file_t'', sample_type 3), (''init_t'', sample_type 2), (''new_t'', sample_type 1)] 3,
     p_type_val_to_name := [Some ''new_t'', Some ''init_t'', Some ''file_t''],
     p_roles := symtab_of [(''object_r'', sample_object_r), (''sys_r'', sample_sys_r\<lparr>rd_cache := bits_of 2\<rparr>)] 2,
     role_val_to_struct := [Some sample_object_r, Some (sample_sys_r\<lparr>rd_cache := bits_of 2\<rparr>)]\<rparr>"

lemma next_db_ok: "mls_db_ok next_db" "rbac_db_ok next_db"
  using sample_mls_ok sample_rbac_ok
  by (auto simp: mls_db_ok_def rbac_db_ok_def next_db_def plain_db_def sample_db_def val_total_def sample_sys_r_def bits_of_ok)

definition plain_services :: services where
  "plain_services = sample_services\<lparr>sv_policydb := plain_db\<rparr>"

definition next_args :: services where
  "next_args = plain_services\<lparr>sv_sidtab := sepol_sidtab_shutdown sample_sidtab\<rparr>"

lemma next_db_conversions:
  "convert_context next_args next_db k (sample_context 2 1) [] = (Inr (sample_context 2 2), [])"
  "convert_context next_args next_db k (sample_context 1 2) [] = (Inr (sample_context 1 3), [])"
proof -
  have "convert_context next_args next_db 0 (sample_context 2 1) [] = (Inr (sample_context 2 2), [])" by code_simp
  moreover have "convert_context next_args next_db 0 (sample_context 1 2) [] = (Inr (sample_context 1 3), [])" by code_simp
  ultimately show "convert_context next_args next_db k (sample_context 2 1) [] = (Inr (sample_context 2 2), [])"
    "convert_context next_args next_db k (sample_context 1 2) [] = (Inr (sample_context 1 3), [])"
    by (simp_all add: convert_context_def)
qed

lemma next_db_classes:
  "hashtab_map (table (p_classes plain_db)) (\<lambda>k d _. validate_class next_db k d) () [] = (Inr (), [])"
  by code_simp

lemma next_db_converts:
  "sid_map (sv_sidtab plain_services) sid = Some c \<Longrightarrow> converts (convert_context next_args next_db) sid c"
  by (auto simp: plain_services_def sample_sid_map converts_def next_db_conversions split: if_splits)

lemma next_db_loaded: "\<exists>sv'. sepol_load_policy plain_services next_db [] = (Inr (sv', Inr ()), [])
   \<and> sid_map (sv_sidtab sv') 1 = Some (sample_context 2 2)"
proof -
  obtain sv' where "sepol_load_policy plain_services next_db [] = (Inr (sv', Inr ()), [])"
    "\<forall>sid. sid_map (sv_sidtab sv') sid = Option.bind (sid_map sample_sidtab sid) (converted (convert_context next_args next_db) sid)"
    using load_policy_no_oom [of plain_services next_db] next_db_classes next_db_converts sample_sidtab_ok
    by (auto simp: next_args_def plain_services_def)
  then show ?thesis by (simp add: sample_sid_map converted_def next_db_conversions)
qed

theorem load_policy_succeeds_witness:
  "\<exists>sv'. sepol_load_policy plain_services next_db [] = (Inr (sv', Inr ()), []) \<and> sv_policydb sv' = next_db"
  using load_policy_succeeds [of plain_services next_db] next_db_classes next_db_converts sample_sidtab_ok
  by (auto simp: next_args_def plain_services_def)

theorem load_policy_converts_witness:
  "\<exists>sv'. sepol_load_policy plain_services next_db [] = (Inr (sv', Inr ()), []) \<and> context_valid next_db (sample_context 2 2)"
proof -
  obtain sv' where r: "sepol_load_policy plain_services next_db [] = (Inr (sv', Inr ()), [])"
    "sid_map (sv_sidtab sv') 1 = Some (sample_context 2 2)" using next_db_loaded by blast
  have "sid_map (sv_sidtab plain_services) 1 = Some (sample_context 2 1)" by (simp add: plain_services_def sample_sid_map)
  from load_policy_converts [OF _ _ this next_db_ok r(1)] r sample_sidtab_ok show ?thesis by (auto simp: plain_services_def)
qed

lemma sample_class_tables: "class_tables_ok plain_db" "class_tables_ok next_db"
  by (auto simp: class_tables_ok_def next_db_def plain_db_def sample_file_def sample_process_def sample_db_def symtab_of_ok symcmp_def split: if_splits)

theorem load_policy_keeps_classes_witness:
  "\<exists>cd'. hashtab_abs (table (p_classes next_db)) ''file'' = Some cd' \<and> class_kept sample_file cd'"
proof -
  obtain sv' where r: "sepol_load_policy plain_services next_db [] = (Inr (sv', Inr ()), [])" using next_db_loaded by blast
  have "hashtab_abs (table (p_classes (sv_policydb plain_services))) ''file'' = Some sample_file"
    by (simp add: plain_services_def plain_db_def sample_db_def symtab_of_ok symcmp_def)
  from load_policy_keeps_classes [OF _ sample_class_tables(2) this r] sample_class_tables(1) show ?thesis by (simp add: plain_services_def)
qed

end
