(* ===== verification/Avc_Sidtab.thy ===== *)
theory Avc_Sidtab
  imports Hashtab "HOL-Library.Multiset"
begin

text \<open>
  The SID table of the userspace access vector cache (libselinux, avc_sidtab.c). A SID is the address of
  the structure that holds the text of its context; nodes are never removed before the table is
  destroyed. \<open>addr n\<close> is the address that the allocator gives to the \<open>n\<close>-th node, and \<open>sc\<close> says whether
  \<open>char\<close> is signed. A function that returns -1 fails with the value of \<open>errno\<close>.
\<close>

type_synonym security_id = u64

record usidtab =
  us_htable :: "(security_id \<times> string) list list option"
  us_nel :: u32

abbreviation USIDTAB_SIZE :: u32 where
  "USIDTAB_SIZE \<equiv> 128"

definition sidtab_hash :: "bool \<Rightarrow> string \<Rightarrow> nat" where
  "sidtab_hash sc key =
     unat (fold (\<lambda>c val. (push_bit 4 val OR drop_bit 28 val) XOR char_promote sc c) key 0 AND (USIDTAB_SIZE - 1))"

definition sidtab_init :: "usidtab \<Rightarrow> usidtab alloc_m" where
  "sidtab_init s = bindE malloc (\<lambda>_. returnE (s\<lparr>us_htable := Some (replicate (unat USIDTAB_SIZE) []), us_nel := 0\<rparr>))"

definition sidtab_insert :: "bool \<Rightarrow> (nat \<Rightarrow> security_id) \<Rightarrow> usidtab \<Rightarrow> string \<Rightarrow> usidtab alloc_m" where
  "sidtab_insert sc addr s ctx = bindE malloc (\<lambda>_. bindE malloc (\<lambda>_.
     bindE (liftE (deref (us_htable s))) (\<lambda>t. let hvalue = sidtab_hash sc ctx in
     bindE (liftE (array_get t hvalue)) (\<lambda>chain.
       returnE (s\<lparr>us_htable := Some (t[hvalue := (addr (unat (us_nel s)), ctx) # chain]), us_nel := us_nel s + 1\<rparr>)))))"

definition find_ctx :: "bool \<Rightarrow> usidtab \<Rightarrow> string \<Rightarrow> security_id option res" where
  "find_ctx sc s ctx = bindR (deref (us_htable s)) (\<lambda>t. bindR (array_get t (sidtab_hash sc ctx)) (\<lambda>chain.
     Inr (map_option fst (find (\<lambda>x. strcmp (snd x) ctx = 0) chain))))"

text \<open>After an insertion the search is repeated; \<open>Diverge\<close> would be a second insertion.\<close>

definition sidtab_context_to_sid ::
  "bool \<Rightarrow> (nat \<Rightarrow> security_id) \<Rightarrow> usidtab \<Rightarrow> string \<Rightarrow> (usidtab \<times> security_id) alloc_m"
where
  "sidtab_context_to_sid sc addr s ctx = bindE (liftE (find_ctx sc s ctx)) (\<lambda>r. case r of
     Some sid \<Rightarrow> returnE (s, sid)
   | None \<Rightarrow> bindE (sidtab_insert sc addr s ctx) (\<lambda>s'. bindE (liftE (find_ctx sc s' ctx)) (\<lambda>r'. case r' of
       Some sid \<Rightarrow> returnE (s', sid) | None \<Rightarrow> throwE Diverge)))"

text \<open>The figures of the statistics: entries, buckets used, longest chain.\<close>

definition sidtab_sid_stats :: "usidtab \<Rightarrow> (u32 \<times> nat \<times> nat) res" where
  "sidtab_sid_stats h = bindR (deref (us_htable h)) (\<lambda>t.
     Inr (us_nel h, length (filter (\<lambda>c. c \<noteq> []) t), fold (\<lambda>c m. max (length c) m) t 0))"

definition sidtab_destroy :: "usidtab \<Rightarrow> usidtab res" where
  "sidtab_destroy s = bindR (deref (us_htable s)) (\<lambda>_. Inr (s\<lparr>us_htable := None\<rparr>))"

text \<open>The context behind a SID.\<close>

definition sid_ctx :: "usidtab \<Rightarrow> security_id \<Rightarrow> string option" where
  "sid_ctx s sid = (case us_htable s of None \<Rightarrow> None | Some t \<Rightarrow> map_of (concat t) sid)"

section \<open>Invariant\<close>

text \<open>The allocator gives distinct blocks distinct addresses, and none of them is null.\<close>

definition addr_ok :: "(nat \<Rightarrow> security_id) \<Rightarrow> nat \<Rightarrow> bool" where
  "addr_ok addr n \<longleftrightarrow> inj_on addr {..n} \<and> (\<forall>i \<le> n. addr i \<noteq> 0)"

definition usidtab_ok :: "bool \<Rightarrow> (nat \<Rightarrow> security_id) \<Rightarrow> usidtab \<Rightarrow> bool" where
  "usidtab_ok sc addr s \<longleftrightarrow> (\<exists>t. us_htable s = Some t \<and> length t = 128
     \<and> (\<forall>i < 128. \<forall>x \<in> set (t ! i). sidtab_hash sc (snd x) = i)
     \<and> distinct (map snd (concat t)) \<and> us_nel s = of_nat (length (concat t)) \<and> length (concat t) < 2 ^ 32
     \<and> distinct (map fst (concat t)) \<and> fst ` set (concat t) \<subseteq> addr ` {..<length (concat t)})"

lemma sidtab_hash_less: "sidtab_hash sc ctx < 128"
proof -
  define w where "w = fold (\<lambda>c val. (push_bit 4 val OR drop_bit 28 val) XOR char_promote sc c) ctx (0 :: u32)"
  have "w AND 127 \<le> 127" by (rule word_and_le1)
  then have "unat (w AND 127) \<le> 127" by (simp add: word_le_nat_alt)
  then show ?thesis unfolding sidtab_hash_def w_def [symmetric] by simp
qed

lemma usidtab_okE:
  assumes "usidtab_ok sc addr s"
  obtains t where "us_htable s = Some t" "length t = 128" "\<And>i x. i < 128 \<Longrightarrow> x \<in> set (t ! i) \<Longrightarrow> sidtab_hash sc (snd x) = i"
    "distinct (map snd (concat t))" "us_nel s = of_nat (length (concat t))" "length (concat t) < 2 ^ 32"
    "distinct (map fst (concat t))" "fst ` set (concat t) \<subseteq> addr ` {..<length (concat t)}"
    "\<And>sid ctx. sid_ctx s sid = Some ctx \<longleftrightarrow> (sid, ctx) \<in> set (concat t)"
  using assms unfolding usidtab_ok_def by (auto simp: sid_ctx_def)

lemma mset_concat_push:
  assumes "i < length t"
  shows "mset (concat (t[i := x # t ! i])) = add_mset x (mset (concat t))"
proof -
  have "concat t = concat (take i t) @ t ! i @ concat (drop (Suc i) t)"
    using id_take_nth_drop [OF assms] by (metis concat.simps(2) concat_append)
  then show ?thesis using assms by (simp add: upd_conv_take_nth_drop)
qed

text \<open>The search finds the SID of a context, if it has one.\<close>

lemma find_ctx_spec:
  assumes "usidtab_ok sc addr s"
  shows "\<exists>r. find_ctx sc s ctx = Inr r \<and> (\<forall>sid. r = Some sid \<longleftrightarrow> sid_ctx s sid = Some ctx)"
proof -
  from assms obtain t where t: "us_htable s = Some t" "length t = 128" "\<And>i x. i < 128 \<Longrightarrow> x \<in> set (t ! i) \<Longrightarrow> sidtab_hash sc (snd x) = i"
    "distinct (map snd (concat t))" "\<And>sid ctx. sid_ctx s sid = Some ctx \<longleftrightarrow> (sid, ctx) \<in> set (concat t)"
    by (rule usidtab_okE) blast
  let ?h = "sidtab_hash sc ctx"
  have h: "?h < length t" using sidtab_hash_less t(2) by simp
  have chain: "(sid, ctx) \<in> set (concat t) \<longleftrightarrow> (sid, ctx) \<in> set (t ! ?h)" for sid
  proof
    assume "(sid, ctx) \<in> set (concat t)"
    then obtain i where "i < length t" "(sid, ctx) \<in> set (t ! i)" by (auto simp: in_set_conv_nth) blast
    with t(2,3) show "(sid, ctx) \<in> set (t ! ?h)" by fastforce
  next
    assume "(sid, ctx) \<in> set (t ! ?h)"
    then show "(sid, ctx) \<in> set (concat t)" using h by (auto intro!: nth_mem bexI)
  qed
  have same: "x = y" if "x \<in> set (concat t)" "y \<in> set (concat t)" "snd x = snd y" for x y
    using t(4) that by (auto simp: distinct_map dest: inj_onD)
  let ?r = "map_option fst (find (\<lambda>x. strcmp (snd x) ctx = 0) (t ! ?h))"
  have "find_ctx sc s ctx = Inr ?r" using t(1) h by (simp add: find_ctx_def)
  moreover have "?r = Some sid \<longleftrightarrow> sid_ctx s sid = Some ctx" for sid
  proof -
    have "?r = Some sid \<longleftrightarrow> (sid, ctx) \<in> set (t ! ?h)"
    proof (cases "find (\<lambda>x. strcmp (snd x) ctx = 0) (t ! ?h)")
      case None
      then have "(sid, ctx) \<notin> set (t ! ?h)" by (auto simp: find_None_iff)
      with None show ?thesis by simp
    next
      case (Some x)
      then have x: "x \<in> set (t ! ?h)" "snd x = ctx" by (auto simp: find_Some_iff in_set_conv_nth)
      then have "x \<in> set (concat t)" using chain [of "fst x"] by (metis prod.collapse)
      then have "(sid, ctx) \<in> set (t ! ?h) \<longleftrightarrow> x = (sid, ctx)" using x same [of x "(sid, ctx)"] chain [of sid] by auto
      then show ?thesis using Some x(2) by (cases x) auto
    qed
    with chain t(5) show ?thesis by simp
  qed
  ultimately show ?thesis by blast
qed

text \<open>An insertion of a context that has no SID yet.\<close>

lemma sidtab_insert_spec:
  assumes "usidtab_ok sc addr s" "addr_ok addr (unat (us_nel s))" "us_nel s \<noteq> -1" "\<forall>sid. sid_ctx s sid \<noteq> Some ctx"
  shows "\<exists>s'. yields (sidtab_insert sc addr s ctx) (Inr s') \<and> usidtab_ok sc addr s'
    \<and> (\<forall>sid c. sid_ctx s' sid = Some c \<longleftrightarrow> sid_ctx s sid = Some c \<or> sid = addr (unat (us_nel s)) \<and> c = ctx)"
proof -
  from assms(1) obtain t where t: "us_htable s = Some t" "length t = 128" "\<And>i x. i < 128 \<Longrightarrow> x \<in> set (t ! i) \<Longrightarrow> sidtab_hash sc (snd x) = i"
    "distinct (map snd (concat t))" "us_nel s = of_nat (length (concat t))" "length (concat t) < 2 ^ 32"
    "distinct (map fst (concat t))" "fst ` set (concat t) \<subseteq> addr ` {..<length (concat t)}"
    "\<And>sid ctx. sid_ctx s sid = Some ctx \<longleftrightarrow> (sid, ctx) \<in> set (concat t)"
    by (rule usidtab_okE) blast
  let ?n = "length (concat t)" let ?h = "sidtab_hash sc ctx"
  let ?new = "(addr ?n, ctx)"
  let ?t = "t[?h := ?new # t ! ?h]"
  have n: "unat (us_nel s) = ?n" using t(5,6) by (simp add: unat_of_nat_u32)
  have h: "?h < length t" using sidtab_hash_less t(2) by simp
  define s' where "s' = s\<lparr>us_htable := Some ?t, us_nel := us_nel s + 1\<rparr>"
  have run: "yields (sidtab_insert sc addr s ctx) (Inr s')"
    using t(1) h n by (simp add: sidtab_insert_def s'_def Let_def)
  have perm: "mset (concat ?t) = add_mset ?new (mset (concat t))"
    using h by (rule mset_concat_push)
  have set': "set (concat ?t) = insert ?new (set (concat t))"
    using arg_cong [OF perm, of set_mset] by (simp only: set_mset_mset set_mset_add_mset_insert)
  have len: "length (concat ?t) = Suc ?n"
    using arg_cong [OF perm, of size] by (simp only: size_mset size_add_mset)
  have fresh: "addr ?n \<notin> fst ` set (concat t)"
  proof
    assume "addr ?n \<in> fst ` set (concat t)"
    with t(8) have "addr ?n \<in> addr ` {..<?n}" by (rule subsetD)
    then obtain i where i: "i < ?n" "addr ?n = addr i" by (elim imageE) simp
    have "inj_on addr {..?n}" using assms(2) unfolding n addr_ok_def by (rule conjunct1)
    from inj_onD [OF this i(2)] i(1) show False by simp
  qed
  have new: "ctx \<notin> snd ` set (concat t)" 
  proof
    assume "ctx \<in> snd ` set (concat t)"
    then obtain x where "x \<in> set (concat t)" "ctx = snd x" by (rule imageE)
    then have "(fst x, ctx) \<in> set (concat t)" by simp
    with assms(4) show False unfolding t(9) [symmetric] by blast
  qed
  have keys: "mset (map f (concat ?t)) = mset (f ?new # map f (concat t))" for f :: "_ \<Rightarrow> 'x"
    by (simp only: mset_map perm image_mset_add_mset mset.simps)
  have d1: "distinct (map fst (concat ?t))"
    unfolding mset_eq_imp_distinct_iff [OF keys] using t(7) fresh by simp
  have d2: "distinct (map snd (concat ?t))"
    unfolding mset_eq_imp_distinct_iff [OF keys] using t(4) new by simp
  have "?n + 1 < 2 ^ 32"
  proof (rule ccontr)
    assume "\<not> ?n + 1 < 2 ^ 32"
    with t(6) have "?n = 2 ^ 32 - 1" by simp
    with t(5) have "us_nel s = -1" by (simp only:) simp
    with assms(3) show False by simp
  qed
  moreover have "us_nel s' = of_nat (length (concat ?t))" using t(5) len by (simp add: s'_def)
  moreover have "\<forall>i < 128. \<forall>x \<in> set (?t ! i). sidtab_hash sc (snd x) = i"
  proof (intro allI impI)
    show "\<forall>x \<in> set (?t ! i). sidtab_hash sc (snd x) = i" if "i < 128" for i
      using that t(2) t(3) [of i] h by (cases "i = ?h") auto
  qed
  moreover have "fst ` set (concat ?t) \<subseteq> addr ` {..<Suc ?n}" 
    unfolding set' lessThan_Suc using t(8) by (simp only: image_insert fst_conv insert_mono)
  ultimately have "usidtab_ok sc addr s'"
    unfolding usidtab_ok_def using t(2) d1 d2 len by (intro exI [of _ ?t]) (simp add: s'_def)
  moreover have "sid_ctx s' sid = Some c \<longleftrightarrow> sid_ctx s sid = Some c \<or> sid = addr ?n \<and> c = ctx" for sid c
    unfolding t(9) using d1 set' by (auto simp: s'_def sid_ctx_def)
  ultimately show ?thesis unfolding n using run by blast
qed

text \<open>Interning.\<close>

lemma context_to_sid_spec:
  assumes "usidtab_ok sc addr s" "addr_ok addr (unat (us_nel s))" "us_nel s \<noteq> -1"
  shows "\<exists>s' sid. yields (sidtab_context_to_sid sc addr s ctx) (Inr (s', sid)) \<and> usidtab_ok sc addr s' \<and> sid_ctx s' sid = Some ctx
    \<and> (\<forall>x c. sid_ctx s x = Some c \<longrightarrow> sid_ctx s' x = Some c)"
proof -
  from find_ctx_spec [OF assms(1), of ctx] obtain r where r: "find_ctx sc s ctx = Inr r" "\<forall>sid. r = Some sid \<longleftrightarrow> sid_ctx s sid = Some ctx" by blast
  show ?thesis
  proof (cases r)
    case (Some sid)
    have "sid_ctx s sid = Some ctx" using r(2) Some by blast
    moreover have "yields (sidtab_context_to_sid sc addr s ctx) (Inr (s, sid))"
      using r(1) unfolding Some by (simp add: sidtab_context_to_sid_def)
    ultimately show ?thesis using assms(1) by blast
  next
    case None
    with r(2) have "\<forall>sid. sid_ctx s sid \<noteq> Some ctx" by auto
    from sidtab_insert_spec [OF assms this] obtain s' where s': "yields (sidtab_insert sc addr s ctx) (Inr s')" "usidtab_ok sc addr s'"
      "\<forall>sid c. sid_ctx s' sid = Some c \<longleftrightarrow> sid_ctx s sid = Some c \<or> sid = addr (unat (us_nel s)) \<and> c = ctx" by blast
    from find_ctx_spec [OF s'(2), of ctx] s'(3) have f: "find_ctx sc s' ctx = Inr (Some (addr (unat (us_nel s))))" by force
    have "yields (sidtab_context_to_sid sc addr s ctx) (Inr (s', addr (unat (us_nel s))))"
      unfolding sidtab_context_to_sid_def using r(1) None f by (simp add: yields_bindE_Inr [OF s'(1)])
    with s'(2,3) show ?thesis by blast
  qed
qed

end
