(* ===== verification/Avc.thy ===== *)
theory Avc
  imports Avc_Sidtab Policydb
begin

text \<open>
  The userspace access vector cache (libselinux, avc.c) with the messages that the kernel sends about
  policy and mode changes (avc_internal.c). A caller may keep a reference to an entry, so the nodes of
  the cache have addresses: the nodes are a list, the slots and the free list hold indexes into it. The
  kernel's answers to \<open>security_compute_av_flags_raw\<close> and \<open>security_compute_create_raw\<close>, the callbacks
  of the application and the address and sign conventions of the SID table are arguments. Locks have no
  effect, and the statistics are compiled in only on demand and left out. A function that returns -1 fails
  with the value of \<open>errno\<close>.
\<close>

unbundle bit_operations_syntax

record avd = av_decision +
  avd_flags :: u32

record avc_entry =
  ae_ssid :: security_id
  ae_tsid :: security_id
  ae_tclass :: u16
  ae_avd :: avd
  ae_create_sid :: security_id
  ae_used :: bool

record avc_cache =
  avc_nodes :: "avc_entry list"
  slots :: "nat list list"
  freelist :: "nat list"
  lru_hint :: u32
  active_nodes :: u32
  latest_notif :: u32

text \<open>A callback returns its return value and the permissions that it retains.\<close>

record avc_callback_node =
  cb_callback :: "u32 \<Rightarrow> security_id \<Rightarrow> security_id \<Rightarrow> u16 \<Rightarrow> u32 \<Rightarrow> int \<times> u32"
  cb_events :: u32
  cb_ssid :: security_id
  cb_tsid :: security_id
  cb_tclass :: u16
  cb_perms :: u32

record avc =
  avc_cache :: avc_cache
  avc_sidtab :: usidtab
  avc_callbacks :: "avc_callback_node list"
  avc_running :: bool
  avc_enforcing :: int
  avc_setenforce :: bool
  avc_using_threads :: bool
  avc_app_main_loop :: bool

abbreviation "AVC_CACHE_SLOTS \<equiv> 512 :: nat"
abbreviation "AVC_CACHE_MAXNODES \<equiv> 410 :: nat"
abbreviation "SECSID_WILD \<equiv> 0 :: security_id"
abbreviation "SELINUX_AVD_FLAGS_PERMISSIVE \<equiv> 1 :: u32"
abbreviation "AVC_CALLBACK_GRANT \<equiv> 1 :: u32"
abbreviation "AVC_CALLBACK_TRY_REVOKE \<equiv> 2 :: u32"
abbreviation "AVC_CALLBACK_REVOKE \<equiv> 4 :: u32"
abbreviation "AVC_CALLBACK_RESET \<equiv> 8 :: u32"
abbreviation "AVC_CALLBACK_AUDITALLOW_ENABLE \<equiv> 16 :: u32"
abbreviation "AVC_CALLBACK_AUDITALLOW_DISABLE \<equiv> 32 :: u32"
abbreviation "AVC_CALLBACK_AUDITDENY_ENABLE \<equiv> 64 :: u32"
abbreviation "AVC_CALLBACK_AUDITDENY_DISABLE \<equiv> 128 :: u32"

type_synonym compute_av = "string \<Rightarrow> string \<Rightarrow> u16 \<Rightarrow> u32 \<Rightarrow> avd res"
type_synonym compute_context = "string \<Rightarrow> string \<Rightarrow> u16 \<Rightarrow> string res"

definition avc_hash :: "security_id \<Rightarrow> security_id \<Rightarrow> u16 \<Rightarrow> nat" where
  "avc_hash ssid tsid tclass = unat ((ssid XOR push_bit 2 tsid XOR ucast tclass) AND 511)"

section \<open>Contexts and SIDs\<close>

text \<open>\<open>assert(avc_running)\<close> aborts.\<close>

definition avc_context_to_sid_raw ::
  "bool \<Rightarrow> (nat \<Rightarrow> security_id) \<Rightarrow> avc \<Rightarrow> string \<Rightarrow> (avc \<times> security_id) alloc_m"
where
  "avc_context_to_sid_raw sc addr c ctx =
     (if \<not> avc_running c then throwE Fault
      else bindE (sidtab_context_to_sid sc addr (avc_sidtab c) ctx) (\<lambda>(s, sid). returnE (c\<lparr>avc_sidtab := s\<rparr>, sid)))"

text \<open>Reading the context behind a SID, null or not.\<close>

definition ctx_of :: "avc \<Rightarrow> security_id \<Rightarrow> string res" where
  "ctx_of c sid = deref (sid_ctx (avc_sidtab c) sid)"

definition avc_sid_to_context_raw :: "avc \<Rightarrow> security_id \<Rightarrow> string alloc_m" where
  "avc_sid_to_context_raw c sid = bindE (liftE (ctx_of c sid)) (\<lambda>ctx. bindE malloc (\<lambda>_. returnE ctx))"

text \<open>\<open>to_raw\<close>, \<open>to_trans\<close> and \<open>initial\<close> stand for the translation of contexts and for the kernel's initial contexts.\<close>

definition avc_context_to_sid ::
  "(string \<Rightarrow> string res) \<Rightarrow> bool \<Rightarrow> (nat \<Rightarrow> security_id) \<Rightarrow> avc \<Rightarrow> string \<Rightarrow> (avc \<times> security_id) alloc_m"
where
  "avc_context_to_sid to_raw sc addr c ctx = bindE (liftE (to_raw ctx)) (\<lambda>rctx. avc_context_to_sid_raw sc addr c rctx)"

definition avc_sid_to_context :: "(string \<Rightarrow> string res) \<Rightarrow> avc \<Rightarrow> security_id \<Rightarrow> string alloc_m" where
  "avc_sid_to_context to_trans c sid = bindE (avc_sid_to_context_raw c sid) (\<lambda>rctx. liftE (to_trans rctx))"

definition avc_get_initial_sid ::
  "(string \<Rightarrow> string res) \<Rightarrow> bool \<Rightarrow> (nat \<Rightarrow> security_id) \<Rightarrow> avc \<Rightarrow> string \<Rightarrow> (avc \<times> security_id) alloc_m"
where
  "avc_get_initial_sid initial sc addr c name = bindE (liftE (initial name)) (\<lambda>con. avc_context_to_sid_raw sc addr c con)"

section \<open>Nodes\<close>

definition avc_entry_zero :: avc_entry where
  "avc_entry_zero = \<lparr>ae_ssid = 0, ae_tsid = 0, ae_tclass = 0,
     ae_avd = \<lparr>allowed = 0, decided = 0, auditallow = 0, auditdeny = 0, seqno = 0, avd_flags = 0\<rparr>,
     ae_create_sid = 0, ae_used = False\<rparr>"

text \<open>The walk along one slot: the entries that were used recently lose the mark, the first one without it
  is unlinked. The result is the nodes, and the node found with the chain that is left.\<close>

fun reclaim_chain :: "avc_entry list \<Rightarrow> nat list \<Rightarrow> nat list \<Rightarrow> (avc_entry list \<times> (nat \<times> nat list) option) res" where
  "reclaim_chain ns prev [] = Inr (ns, None)"
| "reclaim_chain ns prev (x # xs) = bindR (array_get ns x) (\<lambda>ae.
     if \<not> ae_used ae then Inr (ns, Some (x, prev @ xs))
     else reclaim_chain (ns[x := ae\<lparr>ae_used := False\<rparr>]) (prev @ [x]) xs)"

fun reclaim_slots :: "nat list \<Rightarrow> avc_cache \<Rightarrow> (avc_cache \<times> nat option) res" where
  "reclaim_slots [] c = Inr (c, None)"
| "reclaim_slots (h # hs) c = bindR (array_get (slots c) h) (\<lambda>chain.
     bindR (reclaim_chain (avc_nodes c) [] chain) (\<lambda>(ns, r). case r of
       Some (x, rest) \<Rightarrow> Inr (c\<lparr>avc_nodes := ns, slots := (slots c)[h := rest], lru_hint := of_nat h\<rparr>, Some x)
     | None \<Rightarrow> reclaim_slots hs (c\<lparr>avc_nodes := ns\<rparr>)))"

text \<open>The slots from the hint on, around the table, twice.\<close>

definition scan_order :: "u32 \<Rightarrow> nat list" where
  "scan_order hint = map (\<lambda>k. (unat hint + k) mod AVC_CACHE_SLOTS) [0..<AVC_CACHE_SLOTS]"

definition avc_reclaim_node :: "avc_cache \<Rightarrow> (avc_cache \<times> nat option) res" where
  "avc_reclaim_node c =
     (if unat (lru_hint c) \<ge> AVC_CACHE_SLOTS then Inl Fault
      else reclaim_slots (scan_order (lru_hint c) @ scan_order (lru_hint c)) c)"

definition avc_claim_node :: "avc_cache \<Rightarrow> security_id \<Rightarrow> security_id \<Rightarrow> u16 \<Rightarrow> (avc_cache \<times> nat option) res" where
  "avc_claim_node c ssid tsid tclass =
     bindR (case freelist c of
        x # xs \<Rightarrow> Inr (c\<lparr>freelist := xs, active_nodes := active_nodes c + 1\<rparr>, Some x)
      | [] \<Rightarrow> avc_reclaim_node c) (\<lambda>(c1, r). case r of
        None \<Rightarrow> Inr (c1, None)
      | Some x \<Rightarrow>
          let hvalue = avc_hash ssid tsid tclass in
          bindR (array_get (slots c1) hvalue) (\<lambda>chain.
            Inr (c1\<lparr>avc_nodes := (avc_nodes c1)[x := avc_entry_zero\<lparr>ae_used := True, ae_ssid := ssid, ae_tsid := tsid, ae_tclass := tclass\<rparr>],
              slots := (slots c1)[hvalue := x # chain]\<rparr>, Some x)))"

definition entry_for :: "security_id \<Rightarrow> security_id \<Rightarrow> u16 \<Rightarrow> avc_entry \<Rightarrow> bool" where
  "entry_for ssid tsid tclass ae \<longleftrightarrow> ae_ssid ae = ssid \<and> ae_tclass ae = tclass \<and> ae_tsid ae = tsid"

fun search_chain :: "avc_entry list \<Rightarrow> security_id \<Rightarrow> security_id \<Rightarrow> u16 \<Rightarrow> nat list \<Rightarrow> nat option res" where
  "search_chain ns ssid tsid tclass [] = Inr None"
| "search_chain ns ssid tsid tclass (x # xs) = bindR (array_get ns x) (\<lambda>ae.
     if entry_for ssid tsid tclass ae then Inr (Some x) else search_chain ns ssid tsid tclass xs)"

text \<open>Writing through a pointer to an entry.\<close>

definition set_entry :: "nat \<Rightarrow> (avc_entry \<Rightarrow> avc_entry) \<Rightarrow> avc_cache \<Rightarrow> avc_cache res" where
  "set_entry x f c = bindR (array_get (avc_nodes c) x) (\<lambda>ae. Inr (c\<lparr>avc_nodes := (avc_nodes c)[x := f ae]\<rparr>))"

definition avc_search_node :: "avc_cache \<Rightarrow> security_id \<Rightarrow> security_id \<Rightarrow> u16 \<Rightarrow> (avc_cache \<times> nat option) res" where
  "avc_search_node c ssid tsid tclass =
     bindR (array_get (slots c) (avc_hash ssid tsid tclass)) (\<lambda>chain.
     bindR (search_chain (avc_nodes c) ssid tsid tclass chain) (\<lambda>r. case r of
       None \<Rightarrow> Inr (c, None)
     | Some x \<Rightarrow> bindR (set_entry x (\<lambda>ae. ae\<lparr>ae_used := True\<rparr>) c) (\<lambda>c'. Inr (c', Some x))))"

text \<open>The reference that is set, or \<open>None\<close> for a miss.\<close>

definition avc_lookup ::
  "avc_cache \<Rightarrow> security_id \<Rightarrow> security_id \<Rightarrow> u16 \<Rightarrow> u32 \<Rightarrow> (avc_cache \<times> nat option) res"
where
  "avc_lookup c ssid tsid tclass requested = bindR (avc_search_node c ssid tsid tclass) (\<lambda>(c', r). case r of
     None \<Rightarrow> Inr (c', None)
   | Some x \<Rightarrow> bindR (array_get (avc_nodes c') x) (\<lambda>ae.
       Inr (c', if decided (ae_avd ae) AND requested = requested then Some x else None)))"

text \<open>The state is part of the result also when the insertion fails.\<close>

definition avc_insert ::
  "avc_cache \<Rightarrow> security_id \<Rightarrow> security_id \<Rightarrow> u16 \<Rightarrow> avd \<Rightarrow> (avc_cache \<times> nat res) res"
where
  "avc_insert c ssid tsid tclass d =
     (if seqno d < latest_notif c then Inr (c, Inl EAGAIN)
      else bindR (avc_claim_node c ssid tsid tclass) (\<lambda>(c', r). case r of
        None \<Rightarrow> Inr (c', Inl ENOMEM)
      | Some x \<Rightarrow> bindR (set_entry x (\<lambda>ae. ae\<lparr>ae_avd := d\<rparr>) c') (\<lambda>c''. Inr (c'', Inr x))))"

section \<open>Reset\<close>

text \<open>The nodes go to the front of the free list one by one.\<close>

definition reset_slots :: "avc_cache \<Rightarrow> avc_cache" where
  "reset_slots c = c\<lparr>
     avc_nodes := fold (\<lambda>x ns. ns[x := avc_entry_zero]) (concat (slots c)) (avc_nodes c),
     slots := map (\<lambda>_. []) (slots c),
     freelist := rev (concat (slots c)) @ freelist c,
     active_nodes := active_nodes c - of_nat (length (concat (slots c))),
     lru_hint := 0\<rparr>"

text \<open>The return value of the first callback that fails, or 0.\<close>

definition reset_callbacks :: "avc_callback_node list \<Rightarrow> int" where
  "reset_callbacks cbs = fold (\<lambda>cb rc.
     if cb_events cb AND AVC_CALLBACK_RESET \<noteq> 0 then
       (let ret = fst (cb_callback cb AVC_CALLBACK_RESET 0 0 0 0) in if ret \<noteq> 0 \<and> rc = 0 then ret else rc)
     else rc) cbs 0"

definition avc_reset :: "avc \<Rightarrow> avc \<times> int" where
  "avc_reset c = (if \<not> avc_running c then (c, 0)
     else (c\<lparr>avc_cache := reset_slots (avc_cache c)\<rparr>, reset_callbacks (avc_callbacks c)))"

definition notify :: "u32 \<Rightarrow> avc \<Rightarrow> avc" where
  "notify n c = (if n > latest_notif (avc_cache c) then c\<lparr>avc_cache := (avc_cache c)\<lparr>latest_notif := n\<rparr>\<rparr> else c)"

definition avc_ss_reset :: "avc \<Rightarrow> u32 \<Rightarrow> avc \<times> int" where
  "avc_ss_reset c n = (let (c', rc) = avc_reset c in (notify n c', rc))"

section \<open>Messages of the kernel\<close>

datatype nl_msg = NLMSG_ERROR int | SELNL_MSG_SETENFORCE int | SELNL_MSG_POLICYLOAD u32 | NL_OTHER u16

text \<open>\<open>on_setenforce\<close> and \<open>on_policyload\<close> are the application's callbacks.\<close>

definition avc_netlink_process :: "(int \<Rightarrow> int) \<Rightarrow> (u32 \<Rightarrow> int) \<Rightarrow> avc \<Rightarrow> nl_msg \<Rightarrow> avc \<times> int" where
  "avc_netlink_process on_setenforce on_policyload c msg = (case msg of
     NLMSG_ERROR e \<Rightarrow> (c, if e = 0 then 0 else -1)
   | SELNL_MSG_SETENFORCE val \<Rightarrow>
       if avc_setenforce c then (c, 0)
       else let c1 = c\<lparr>avc_enforcing := val\<rparr>;
                (c2, rc) = (if val \<noteq> 0 then avc_ss_reset c1 0 else (c1, 0)) in
         if rc < 0 then (c2, rc) else (c2, min 0 (on_setenforce val))
   | SELNL_MSG_POLICYLOAD n \<Rightarrow>
       let (c', rc) = avc_ss_reset c n in if rc < 0 then (c', rc) else (c', min 0 (on_policyload n))
   | NL_OTHER _ \<Rightarrow> (c, 0))"

definition avc_netlink_check_nb :: "(int \<Rightarrow> int) \<Rightarrow> (u32 \<Rightarrow> int) \<Rightarrow> avc \<Rightarrow> nl_msg list \<Rightarrow> avc" where
  "avc_netlink_check_nb on_setenforce on_policyload c msgs =
     fold (\<lambda>msg c. fst (avc_netlink_process on_setenforce on_policyload c msg)) msgs c"

text \<open>The listening thread stops at the first message that fails.\<close>

fun avc_netlink_loop :: "(int \<Rightarrow> int) \<Rightarrow> (u32 \<Rightarrow> int) \<Rightarrow> avc \<Rightarrow> nl_msg list \<Rightarrow> avc" where
  "avc_netlink_loop on_setenforce on_policyload c [] = c"
| "avc_netlink_loop on_setenforce on_policyload c (msg # msgs) =
     (let (c', rc) = avc_netlink_process on_setenforce on_policyload c msg in
      if rc < 0 then c' else avc_netlink_loop on_setenforce on_policyload c' msgs)"

section \<open>Permission checks\<close>

text \<open>The field \<open>decided\<close> is not written.\<close>

definition avd_init :: "avc_cache \<Rightarrow> avd \<Rightarrow> avd" where
  "avd_init c d = d\<lparr>allowed := 0, auditallow := 0, auditdeny := -1, seqno := latest_notif c, avd_flags := 0\<rparr>"

text \<open>The entry that the check uses: the one the caller refers to if it fits, else one found in or added
  to the cache. \<open>None\<close> is the answer of the kernel that a context is invalid, which permissive mode
  lets pass.\<close>

definition entry_ref_hit :: "avc_cache \<Rightarrow> nat option \<Rightarrow> security_id \<Rightarrow> security_id \<Rightarrow> u16 \<Rightarrow> u32 \<Rightarrow> bool res" where
  "entry_ref_hit c aeref ssid tsid tclass requested = (case aeref of
     None \<Rightarrow> Inr False
   | Some x \<Rightarrow> bindR (array_get (avc_nodes c) x) (\<lambda>ae.
       Inr (entry_for ssid tsid tclass ae \<and> decided (ae_avd ae) AND requested = requested)))"

definition avc_find_entry ::
  "compute_av \<Rightarrow> avc \<Rightarrow> security_id \<Rightarrow> security_id \<Rightarrow> u16 \<Rightarrow> u32 \<Rightarrow> nat option \<Rightarrow> (avc_cache \<times> nat option res) res"
where
  "avc_find_entry compute c ssid tsid tclass requested aeref =
     bindR (entry_ref_hit (avc_cache c) aeref ssid tsid tclass requested) (\<lambda>hit.
     if hit then
       (case aeref of
          None \<Rightarrow> Inl Fault
        | Some x \<Rightarrow> bindR (set_entry x (\<lambda>ae. ae\<lparr>ae_used := True\<rparr>) (avc_cache c)) (\<lambda>c'. Inr (c', Inr (Some x))))
     else bindR (avc_lookup (avc_cache c) ssid tsid tclass requested) (\<lambda>(c', r). case r of
         Some x \<Rightarrow> Inr (c', Inr (Some x))
       | None \<Rightarrow> bindR (ctx_of c ssid) (\<lambda>scon. bindR (ctx_of c tsid) (\<lambda>tcon.
           case compute scon tcon tclass requested of
             Inl e \<Rightarrow> if \<not> err_code e then Inl e
               else if e = EINVAL \<and> avc_enforcing c = 0 then Inr (c', Inr None) else Inr (c', Inl e)
           | Inr d \<Rightarrow> bindR (avc_insert c' ssid tsid tclass d) (\<lambda>(c'', r').
               Inr (c'', case r' of Inl e \<Rightarrow> Inl e | Inr x \<Rightarrow> Inr (Some x)))))))"

text \<open>The decision on the entry; in permissive mode and for permissive domains the entry is changed to
  allow what was requested.\<close>

definition avc_decide :: "avc \<Rightarrow> nat \<Rightarrow> u32 \<Rightarrow> avc_cache \<Rightarrow> (avc_cache \<times> avd \<times> unit res) res" where
  "avc_decide c x requested cache = bindR (array_get (avc_nodes cache) x) (\<lambda>ae.
     if requested = 0 \<or> requested AND NOT (allowed (ae_avd ae)) \<noteq> 0 then
       if avc_enforcing c = 0 \<or> avd_flags (ae_avd ae) AND SELINUX_AVD_FLAGS_PERMISSIVE \<noteq> 0 then
         Inr (cache\<lparr>avc_nodes := (avc_nodes cache)[x := ae\<lparr>ae_avd := (ae_avd ae)\<lparr>allowed := allowed (ae_avd ae) OR requested\<rparr>\<rparr>]\<rparr>,
           ae_avd ae, Inr ())
       else Inr (cache, ae_avd ae, Inl EACCES)
     else Inr (cache, ae_avd ae, Inr ()))"

text \<open>\<open>aeref\<close> is the caller's reference before the call and \<open>d\<close> the decision structure it passes; both are
  in the result. \<open>msgs\<close> are the messages that are pending on the socket.\<close>

definition avc_has_perm_noaudit ::
  "compute_av \<Rightarrow> (int \<Rightarrow> int) \<Rightarrow> (u32 \<Rightarrow> int) \<Rightarrow> nl_msg list \<Rightarrow> avc \<Rightarrow> security_id \<Rightarrow> security_id \<Rightarrow> u16 \<Rightarrow> u32
     \<Rightarrow> nat option \<Rightarrow> avd \<Rightarrow> (avc \<times> nat option \<times> avd \<times> unit res) res"
where
  "avc_has_perm_noaudit compute on_setenforce on_policyload msgs c0 ssid tsid tclass requested aeref d =
     (let d0 = avd_init (avc_cache c0) d;
          c = (if avc_using_threads c0 \<or> avc_app_main_loop c0 then c0
               else avc_netlink_check_nb on_setenforce on_policyload c0 msgs) in
      bindR (avc_find_entry compute c ssid tsid tclass requested aeref) (\<lambda>(cache, r).
        let c1 = c\<lparr>avc_cache := cache\<rparr> in
        case r of
          Inl e \<Rightarrow> Inr (c1, aeref, d0, Inl e)
        | Inr None \<Rightarrow> Inr (c1, aeref, d0, Inr ())
        | Inr (Some x) \<Rightarrow> bindR (avc_decide c x requested cache) (\<lambda>(cache', d1, rc).
            Inr (c\<lparr>avc_cache := cache'\<rparr>, Some x, d1, rc))))"

section \<open>Auditing\<close>

text \<open>The audit buffer has 1024 bytes; what does not fit is cut off.\<close>

definition log_append :: "string \<Rightarrow> string \<Rightarrow> string" where
  "log_append buf s = take 1023 (buf @ s)"

text \<open>The bits of a vector from the lowest one: the rest of the vector and the text. \<open>perm_name\<close> is
  \<open>security_av_perm_to_string\<close>, \<open>hex\<close> prints a number.\<close>

fun dump_bits :: "(u32 \<Rightarrow> string option) \<Rightarrow> nat list \<Rightarrow> u32 \<Rightarrow> string \<Rightarrow> u32 \<times> string" where
  "dump_bits perm_name [] av buf = (av, buf)"
| "dump_bits perm_name (i # is) av buf =
     (if av = 0 then (av, buf)
      else if bit av i then
        (case perm_name (push_bit i 1) of
           None \<Rightarrow> (av, buf)
         | Some s \<Rightarrow> dump_bits perm_name is (av AND NOT (push_bit i 1)) (log_append buf ('' '' @ s)))
      else dump_bits perm_name is av buf)"

definition avc_dump_av :: "(u32 \<Rightarrow> string option) \<Rightarrow> (u32 \<Rightarrow> string) \<Rightarrow> u32 \<Rightarrow> string \<Rightarrow> string" where
  "avc_dump_av perm_name hex av buf =
     (if av = 0 then log_append buf '' null''
      else let (av', buf') = dump_bits perm_name [0..<32] av (log_append buf '' {'') in
        log_append (if av' \<noteq> 0 then log_append buf' ('' 0x'' @ hex av') else buf') '' }'')"

definition avc_dump_query :: "avc \<Rightarrow> (u16 \<Rightarrow> string) \<Rightarrow> security_id \<Rightarrow> security_id \<Rightarrow> u16 \<Rightarrow> string \<Rightarrow> string res" where
  "avc_dump_query c class_name ssid tsid tclass buf =
     bindR (ctx_of c ssid) (\<lambda>s. bindR (ctx_of c tsid) (\<lambda>t.
       Inr (log_append (log_append buf (''scontext='' @ s @ '' tcontext='' @ t)) ('' tclass='' @ class_name tclass))))"

text \<open>The permissions denied and those that are audited.\<close>

definition audited_perms :: "u32 \<Rightarrow> avd \<Rightarrow> bool \<Rightarrow> u32 \<times> u32" where
  "audited_perms requested d failed =
     (let denied = requested AND NOT (allowed d) in
      if denied \<noteq> 0 then (denied, denied AND auditdeny d)
      else if requested = 0 \<or> failed then (requested, requested)
      else (denied, requested AND auditallow d))"

text \<open>The text that is logged, if any. \<open>suppl\<close> is what the application's callback prints, which writes only
  into the rest of the buffer.\<close>

definition avc_audit ::
  "string \<Rightarrow> (u16 \<Rightarrow> u32 \<Rightarrow> string option) \<Rightarrow> (u16 \<Rightarrow> string) \<Rightarrow> (u32 \<Rightarrow> string) \<Rightarrow> (u16 \<Rightarrow> string) \<Rightarrow> avc \<Rightarrow> security_id
     \<Rightarrow> security_id \<Rightarrow> u16 \<Rightarrow> u32 \<Rightarrow> avd \<Rightarrow> bool \<Rightarrow> string option res"
where
  "avc_audit prefix perm_name class_name hex suppl c ssid tsid tclass requested d failed =
     (let (denied, audited) = audited_perms requested d failed in
      if audited = 0 then Inr None
      else let b0 = log_append [] (prefix @ '':  '' @ (if denied \<noteq> 0 \<or> requested = 0 then ''denied'' else ''granted'') @ '' '');
               b1 = log_append (avc_dump_av (perm_name tclass) hex audited b0) '' for '';
               b2 = log_append (log_append b1 (suppl tclass)) '' '' in
        bindR (avc_dump_query c class_name ssid tsid tclass b2) (\<lambda>b3. Inr (Some (log_append b3 [CHR 0x0A]))))"

definition avc_has_perm ::
  "(avc \<Rightarrow> security_id \<Rightarrow> security_id \<Rightarrow> u16 \<Rightarrow> u32 \<Rightarrow> avd \<Rightarrow> bool \<Rightarrow> string option res) \<Rightarrow> compute_av \<Rightarrow> (int \<Rightarrow> int) \<Rightarrow> (u32 \<Rightarrow> int)
     \<Rightarrow> nl_msg list \<Rightarrow> avc \<Rightarrow> security_id \<Rightarrow> security_id \<Rightarrow> u16 \<Rightarrow> u32 \<Rightarrow> nat option \<Rightarrow> avd
     \<Rightarrow> (avc \<times> nat option \<times> string option \<times> unit res) res"
where
  "avc_has_perm audit compute on_setenforce on_policyload msgs c ssid tsid tclass requested aeref d =
     bindR (avc_has_perm_noaudit compute on_setenforce on_policyload msgs c ssid tsid tclass requested aeref d)
       (\<lambda>(c', aeref', d', rc). bindR (audit c' ssid tsid tclass requested d' (isl rc)) (\<lambda>log. Inr (c', aeref', log, rc)))"

section \<open>New contexts\<close>

text \<open>An invalid context is an error here in both modes, which the look-up knows as enforcing mode.\<close>

definition avc_compute_create ::
  "bool \<Rightarrow> (nat \<Rightarrow> security_id) \<Rightarrow> compute_av \<Rightarrow> compute_context \<Rightarrow> avc \<Rightarrow> security_id \<Rightarrow> security_id \<Rightarrow> u16
     \<Rightarrow> (avc \<times> security_id res) alloc_m"
where
  "avc_compute_create sc addr compute create c ssid tsid tclass =
     bindE (liftE (avc_find_entry compute (c\<lparr>avc_enforcing := 1\<rparr>) ssid tsid tclass 0 None)) (\<lambda>(cache, r).
     let c1 = c\<lparr>avc_cache := cache\<rparr> in
     case r of
       Inl e \<Rightarrow> returnE (c1, Inl e)
     | Inr None \<Rightarrow> throwE Fault
     | Inr (Some x) \<Rightarrow> bindE (liftE (array_get (avc_nodes cache) x)) (\<lambda>ae.
         if ae_create_sid ae \<noteq> 0 then returnE (c1, Inr (ae_create_sid ae))
         else bindE (liftE (ctx_of c1 ssid)) (\<lambda>scon. bindE (liftE (ctx_of c1 tsid)) (\<lambda>tcon.
           case create scon tcon tclass of
             Inl e \<Rightarrow> if err_code e then returnE (c1, Inl e) else throwE e
           | Inr ctx \<Rightarrow> bindE (tryE (sidtab_context_to_sid sc addr (avc_sidtab c1) ctx)) (\<lambda>m. case m of
               Inl e \<Rightarrow> if err_code e then returnE (c1, Inl e) else throwE e
             | Inr (s, newsid) \<Rightarrow> bindE (liftE (set_entry x (\<lambda>ae. ae\<lparr>ae_create_sid := newsid\<rparr>) cache)) (\<lambda>cache'.
                 returnE (c1\<lparr>avc_sidtab := s, avc_cache := cache'\<rparr>, Inr newsid)))))))"

definition avc_compute_member ::
  "bool \<Rightarrow> (nat \<Rightarrow> security_id) \<Rightarrow> compute_context \<Rightarrow> avc \<Rightarrow> security_id \<Rightarrow> security_id \<Rightarrow> u16 \<Rightarrow> (avc \<times> security_id) alloc_m"
where
  "avc_compute_member sc addr member c ssid tsid tclass =
     (if \<not> avc_running c then throwE Fault
      else bindE (liftE (ctx_of c ssid)) (\<lambda>scon. bindE (liftE (ctx_of c tsid)) (\<lambda>tcon.
        bindE (liftE (member scon tcon tclass)) (\<lambda>ctx.
        bindE (sidtab_context_to_sid sc addr (avc_sidtab c) ctx) (\<lambda>(s, newsid). returnE (c\<lparr>avc_sidtab := s\<rparr>, newsid))))))"

section \<open>Revocation and other events\<close>

definition avc_add_callback :: "avc \<Rightarrow> avc_callback_node \<Rightarrow> avc alloc_m" where
  "avc_add_callback c cb = bindE malloc (\<lambda>_. returnE (c\<lparr>avc_callbacks := cb # avc_callbacks c\<rparr>))"

definition avc_sidcmp :: "security_id \<Rightarrow> security_id \<Rightarrow> bool" where
  "avc_sidcmp x y \<longleftrightarrow> x = y \<or> x = SECSID_WILD \<or> y = SECSID_WILD"

definition avc_update_node :: "u32 \<Rightarrow> u32 \<Rightarrow> avc_entry \<Rightarrow> avc_entry" where
  "avc_update_node event perms ae = (let d = ae_avd ae in
     if event = AVC_CALLBACK_GRANT then ae\<lparr>ae_avd := d\<lparr>allowed := allowed d OR perms\<rparr>\<rparr>
     else if event = AVC_CALLBACK_TRY_REVOKE \<or> event = AVC_CALLBACK_REVOKE then ae\<lparr>ae_avd := d\<lparr>allowed := allowed d AND NOT perms\<rparr>\<rparr>
     else if event = AVC_CALLBACK_AUDITALLOW_ENABLE then ae\<lparr>ae_avd := d\<lparr>auditallow := auditallow d OR perms\<rparr>\<rparr>
     else if event = AVC_CALLBACK_AUDITALLOW_DISABLE then ae\<lparr>ae_avd := d\<lparr>auditallow := auditallow d AND NOT perms\<rparr>\<rparr>
     else if event = AVC_CALLBACK_AUDITDENY_ENABLE then ae\<lparr>ae_avd := d\<lparr>auditdeny := auditdeny d OR perms\<rparr>\<rparr>
     else if event = AVC_CALLBACK_AUDITDENY_DISABLE then ae\<lparr>ae_avd := d\<lparr>auditdeny := auditdeny d AND NOT perms\<rparr>\<rparr>
     else ae)"

definition update_matching :: "u32 \<Rightarrow> security_id \<Rightarrow> security_id \<Rightarrow> u16 \<Rightarrow> u32 \<Rightarrow> nat \<Rightarrow> avc_cache \<Rightarrow> avc_cache res" where
  "update_matching event ssid tsid tclass perms x c = bindR (array_get (avc_nodes c) x) (\<lambda>ae.
     if avc_sidcmp ssid (ae_ssid ae) \<and> avc_sidcmp tsid (ae_tsid ae) \<and> tclass = ae_tclass ae
     then set_entry x (avc_update_node event perms) c else Inr c)"

definition avc_update_cache :: "u32 \<Rightarrow> security_id \<Rightarrow> security_id \<Rightarrow> u16 \<Rightarrow> u32 \<Rightarrow> avc_cache \<Rightarrow> avc_cache res" where
  "avc_update_cache event ssid tsid tclass perms c =
     (if ssid = SECSID_WILD \<or> tsid = SECSID_WILD then
        foldR (update_matching event ssid tsid tclass perms) (concat (slots c)) c
      else bindR (avc_search_node c ssid tsid tclass) (\<lambda>(c', r). case r of
        None \<Rightarrow> Inr c' | Some x \<Rightarrow> set_entry x (avc_update_node event perms) c'))"

text \<open>The callbacks: the first return value that is not 0, and the retained permissions.\<close>

definition control_callbacks ::
  "avc_callback_node list \<Rightarrow> u32 \<Rightarrow> security_id \<Rightarrow> security_id \<Rightarrow> u16 \<Rightarrow> u32 \<Rightarrow> int \<times> u32"
where
  "control_callbacks cbs event ssid tsid tclass perms = fold (\<lambda>cb (rc, tretained).
     if cb_events cb AND event \<noteq> 0 \<and> avc_sidcmp (cb_ssid cb) ssid \<and> avc_sidcmp (cb_tsid cb) tsid
        \<and> cb_tclass cb = tclass \<and> cb_perms cb AND perms \<noteq> 0 then
       (let (ret, cretained) = cb_callback cb event ssid tsid tclass (cb_perms cb AND perms) in
        (if ret \<noteq> 0 \<and> rc = 0 then ret else rc, if ret = 0 then tretained OR cretained else tretained))
     else (rc, tretained)) cbs (0, 0)"

text \<open>The result is the return value and the retained permissions.\<close>

definition avc_control :: "avc \<Rightarrow> u32 \<Rightarrow> security_id \<Rightarrow> security_id \<Rightarrow> u16 \<Rightarrow> u32 \<Rightarrow> u32 \<Rightarrow> (avc \<times> int \<times> u32) res" where
  "avc_control c event ssid tsid tclass perms n =
     bindR (if event \<noteq> AVC_CALLBACK_TRY_REVOKE then avc_update_cache event ssid tsid tclass perms (avc_cache c) else Inr (avc_cache c)) (\<lambda>cache1.
     let (rc, tretained) = control_callbacks (avc_callbacks c) event ssid tsid tclass perms in
     bindR (if event = AVC_CALLBACK_TRY_REVOKE then avc_update_cache event ssid tsid tclass (perms AND NOT tretained) cache1 else Inr cache1) (\<lambda>cache2.
       Inr (notify n (c\<lparr>avc_cache := cache2\<rparr>), rc, tretained)))"

definition avc_ss_grant :: "avc \<Rightarrow> security_id \<Rightarrow> security_id \<Rightarrow> u16 \<Rightarrow> u32 \<Rightarrow> u32 \<Rightarrow> (avc \<times> int \<times> u32) res" where
  "avc_ss_grant c ssid tsid tclass perms n = avc_control c AVC_CALLBACK_GRANT ssid tsid tclass perms n"

definition avc_ss_try_revoke :: "avc \<Rightarrow> security_id \<Rightarrow> security_id \<Rightarrow> u16 \<Rightarrow> u32 \<Rightarrow> u32 \<Rightarrow> (avc \<times> int \<times> u32) res" where
  "avc_ss_try_revoke c ssid tsid tclass perms n = avc_control c AVC_CALLBACK_TRY_REVOKE ssid tsid tclass perms n"

definition avc_ss_revoke :: "avc \<Rightarrow> security_id \<Rightarrow> security_id \<Rightarrow> u16 \<Rightarrow> u32 \<Rightarrow> u32 \<Rightarrow> (avc \<times> int \<times> u32) res" where
  "avc_ss_revoke c ssid tsid tclass perms n = avc_control c AVC_CALLBACK_REVOKE ssid tsid tclass perms n"

definition avc_ss_set_auditallow :: "avc \<Rightarrow> security_id \<Rightarrow> security_id \<Rightarrow> u16 \<Rightarrow> u32 \<Rightarrow> u32 \<Rightarrow> u32 \<Rightarrow> (avc \<times> int \<times> u32) res" where
  "avc_ss_set_auditallow c ssid tsid tclass perms n enable =
     avc_control c (if enable \<noteq> 0 then AVC_CALLBACK_AUDITALLOW_ENABLE else AVC_CALLBACK_AUDITALLOW_DISABLE) ssid tsid tclass perms n"

definition avc_ss_set_auditdeny :: "avc \<Rightarrow> security_id \<Rightarrow> security_id \<Rightarrow> u16 \<Rightarrow> u32 \<Rightarrow> u32 \<Rightarrow> u32 \<Rightarrow> (avc \<times> int \<times> u32) res" where
  "avc_ss_set_auditdeny c ssid tsid tclass perms n enable =
     avc_control c (if enable \<noteq> 0 then AVC_CALLBACK_AUDITDENY_ENABLE else AVC_CALLBACK_AUDITDENY_DISABLE) ssid tsid tclass perms n"

section \<open>Life cycle\<close>

text \<open>As many nodes as can be allocated, up to the limit.\<close>

fun alloc_nodes :: "nat \<Rightarrow> nat alloc_m" where
  "alloc_nodes 0 = returnE 0"
| "alloc_nodes (Suc n) = bindE (tryE malloc) (\<lambda>r. case r of
     Inl e \<Rightarrow> returnE 0 | Inr _ \<Rightarrow> bindE (alloc_nodes n) (\<lambda>k. returnE (Suc k)))"

text \<open>\<open>getenforce\<close> is the answer of the kernel, \<open>netlink\<close> the result of opening the socket. A second call
  after a failed one keeps the nodes that the first one has put on the free list.\<close>

definition avc_init :: "int \<Rightarrow> int \<Rightarrow> avc \<Rightarrow> (avc \<times> int) alloc_m" where
  "avc_init getenforce netlink c =
     (if avc_running c then returnE (c, 0)
      else let c1 = c\<lparr>avc_cache := (avc_cache c)\<lparr>slots := replicate AVC_CACHE_SLOTS [], lru_hint := 0, active_nodes := 0, latest_notif := 0\<rparr>\<rparr> in
        bindE (tryE (sidtab_init (avc_sidtab c1))) (\<lambda>r. case r of
          Inl _ \<Rightarrow> returnE (c1, -1)
        | Inr s \<Rightarrow> let c2 = c1\<lparr>avc_sidtab := s\<rparr> in
            bindE (tryE malloc) (\<lambda>r'. case r' of
              Inl _ \<Rightarrow> returnE (c2, -1)
            | Inr _ \<Rightarrow> bindE (alloc_nodes AVC_CACHE_MAXNODES) (\<lambda>n.
                let ca = avc_cache c2; m = length (avc_nodes ca);
                    c3 = c2\<lparr>avc_cache := ca\<lparr>avc_nodes := avc_nodes ca @ replicate n avc_entry_zero, freelist := rev [m..<m + n] @ freelist ca\<rparr>\<rparr> in
                if \<not> avc_setenforce c3 \<and> getenforce < 0 then returnE (c3, getenforce)
                else let c4 = (if avc_setenforce c3 then c3 else c3\<lparr>avc_enforcing := getenforce\<rparr>) in
                  if netlink < 0 then returnE (c4, netlink) else returnE (c4\<lparr>avc_running := True\<rparr>, netlink)))))"

text \<open>The options are read from the last to the first; \<open>Some v\<close> is \<open>AVC_OPT_SETENFORCE\<close> with its value.\<close>

definition avc_open :: "int \<Rightarrow> int \<Rightarrow> avc \<Rightarrow> bool option list \<Rightarrow> (avc \<times> int) alloc_m" where
  "avc_open getenforce netlink c opts =
     avc_init getenforce netlink (fold (\<lambda>opt c. case opt of
       None \<Rightarrow> c | Some v \<Rightarrow> c\<lparr>avc_setenforce := True, avc_enforcing := (if v then 1 else 0)\<rparr>) (rev opts) (c\<lparr>avc_setenforce := False\<rparr>))"

text \<open>The slots are not cleared: the freed nodes stay in them until \<open>avc_init\<close> is called again. The free list
  is emptied.\<close>

definition avc_destroy :: "avc \<Rightarrow> avc res" where
  "avc_destroy c = (if \<not> avc_running c then Inl Fault
     else bindR (sidtab_destroy (avc_sidtab c)) (\<lambda>s.
       Inr (c\<lparr>avc_cache := (avc_cache c)\<lparr>freelist := []\<rparr>, avc_callbacks := [], avc_sidtab := s, avc_running := False\<rparr>)))"

text \<open>The figures of the statistics: entries, slots used, longest chain.\<close>

definition avc_av_stats :: "avc_cache \<Rightarrow> u32 \<times> nat \<times> nat" where
  "avc_av_stats c = (active_nodes c, length (filter (\<lambda>s. s \<noteq> []) (slots c)), fold (\<lambda>s m. max (length s) m) (slots c) 0)"

end
