(* ===== verification/Avc_Cache.thy ===== *)
theory Avc_Cache
  imports Avc
begin

text \<open>
  The data structure of the userspace access vector cache: every operation on it keeps the nodes in the
  slot of their key and in exactly one list, a node can be claimed whenever there is one, a search finds
  the entry of a key, and a reset empties the cache.
\<close>

unbundle bit_operations_syntax

section \<open>The invariant\<close>

definition hash_of :: "avc_entry \<Rightarrow> nat" where
  "hash_of ae = avc_hash (ae_ssid ae) (ae_tsid ae) (ae_tclass ae)"

definition in_cache :: "avc_cache \<Rightarrow> nat \<Rightarrow> bool" where
  "in_cache c x \<longleftrightarrow> (\<exists>i < AVC_CACHE_SLOTS. x \<in> set (slots c ! i))"

definition cache_ok :: "avc_cache \<Rightarrow> bool" where
  "cache_ok c \<longleftrightarrow> length (slots c) = AVC_CACHE_SLOTS \<and> unat (lru_hint c) < AVC_CACHE_SLOTS
     \<and> (\<forall>i < AVC_CACHE_SLOTS. distinct (slots c ! i)
          \<and> (\<forall>x \<in> set (slots c ! i). x < length (avc_nodes c) \<and> hash_of (avc_nodes c ! x) = i))
     \<and> distinct (freelist c)
     \<and> (\<forall>x \<in> set (freelist c). x < length (avc_nodes c) \<and> \<not> in_cache c x \<and> ae_ssid (avc_nodes c ! x) = 0)
     \<and> (\<forall>x < length (avc_nodes c). in_cache c x \<or> x \<in> set (freelist c))
     \<and> active_nodes c + of_nat (length (freelist c)) = of_nat (length (avc_nodes c))"

text \<open>Every cached entry has a property.\<close>

definition all_entries :: "(avc_entry \<Rightarrow> bool) \<Rightarrow> avc_cache \<Rightarrow> bool" where
  "all_entries P c \<longleftrightarrow> (\<forall>x. in_cache c x \<longrightarrow> P (avc_nodes c ! x))"

lemma avc_hash_less: "avc_hash ssid tsid tclass < AVC_CACHE_SLOTS"
proof -
  define w where "w = ssid XOR push_bit 2 tsid XOR ucast tclass"
  have "w AND 511 \<le> 511" by (rule word_and_le1)
  then show ?thesis unfolding avc_hash_def w_def [symmetric] by (simp add: word_le_nat_alt)
qed

lemma hash_of_less: "hash_of ae < AVC_CACHE_SLOTS"
  by (simp add: hash_of_def avc_hash_less)

lemma hash_of_simps [simp]:
  "hash_of (ae\<lparr>ae_used := b\<rparr>) = hash_of ae" "hash_of (ae\<lparr>ae_avd := d\<rparr>) = hash_of ae"
  "hash_of (ae\<lparr>ae_create_sid := n\<rparr>) = hash_of ae"
  by (simp_all add: hash_of_def)

lemma in_cache_slot:
  assumes "cache_ok c"
  shows "in_cache c x \<longleftrightarrow> x \<in> set (slots c ! hash_of (avc_nodes c ! x))"
  using assms hash_of_less by (auto simp: cache_ok_def in_cache_def)

lemma in_cache_less: "cache_ok c \<Longrightarrow> in_cache c x \<Longrightarrow> x < length (avc_nodes c)"
  by (auto simp: cache_ok_def in_cache_def)

text \<open>Changing an entry in place, without its key.\<close>

definition keeps_key :: "(avc_entry \<Rightarrow> avc_entry) \<Rightarrow> bool" where
  "keeps_key f \<longleftrightarrow> (\<forall>ae. ae_ssid (f ae) = ae_ssid ae \<and> ae_tsid (f ae) = ae_tsid ae \<and> ae_tclass (f ae) = ae_tclass ae)"

lemma set_entry_ok:
  assumes "cache_ok c" "keeps_key f" "x < length (avc_nodes c)"
  shows "\<exists>c'. set_entry x f c = Inr c' \<and> cache_ok c' \<and> c' = c\<lparr>avc_nodes := (avc_nodes c)[x := f (avc_nodes c ! x)]\<rparr>"
proof -
  let ?c = "c\<lparr>avc_nodes := (avc_nodes c)[x := f (avc_nodes c ! x)]\<rparr>"
  have h: "hash_of (avc_nodes ?c ! y) = hash_of (avc_nodes c ! y)" "ae_ssid (avc_nodes ?c ! y) = ae_ssid (avc_nodes c ! y)" for y
    using assms(2,3) by (simp_all add: hash_of_def keeps_key_def nth_list_update)
  have "in_cache ?c = in_cache c" by (simp add: in_cache_def fun_eq_iff)
  then have "cache_ok ?c" using assms(1) h unfolding cache_ok_def by simp
  then show ?thesis using assms(3) by (simp add: set_entry_def)
qed

section \<open>Reclaiming a node\<close>

text \<open>Node lists that differ in the marks only.\<close>

definition same_but_used :: "avc_entry list \<Rightarrow> avc_entry list \<Rightarrow> bool" where
  "same_but_used ns ns' \<longleftrightarrow> length ns' = length ns \<and> (\<forall>x < length ns. \<exists>b. ns' ! x = (ns ! x)\<lparr>ae_used := b\<rparr>)"

lemma same_but_used_refl [simp]: "same_but_used ns ns"
proof -
  have "ns ! x = (ns ! x)\<lparr>ae_used := ae_used (ns ! x)\<rparr>" for x by simp
  then show ?thesis unfolding same_but_used_def by metis
qed

lemma same_but_used_trans: "same_but_used ns ns' \<Longrightarrow> same_but_used ns' ns'' \<Longrightarrow> same_but_used ns ns''"
  by (fastforce simp: same_but_used_def)

lemma same_but_used_upd: "x < length ns \<Longrightarrow> same_but_used ns (ns[x := (ns ! x)\<lparr>ae_used := b\<rparr>])"
  using same_but_used_refl [of ns] unfolding same_but_used_def by (auto simp: nth_list_update)

lemma same_but_used_nth:
  assumes "same_but_used ns ns'" "x < length ns"
  shows "hash_of (ns' ! x) = hash_of (ns ! x)" "ae_ssid (ns' ! x) = ae_ssid (ns ! x)"
  using assms by (auto simp: same_but_used_def hash_of_def)

lemma reclaim_chain_spec:
  assumes "set xs \<subseteq> {..<length ns}" "distinct xs"
  shows "\<exists>ns' r. reclaim_chain ns prev xs = Inr (ns', r) \<and> same_but_used ns ns' \<and> (case r of
      None \<Rightarrow> (\<forall>x\<in>set xs. \<not> ae_used (ns' ! x)) \<and> (\<forall>x. x \<notin> set xs \<longrightarrow> ns' ! x = ns ! x)
    | Some (x, rest) \<Rightarrow> x \<in> set xs \<and> rest = prev @ remove1 x xs)"
  using assms
proof (induction xs arbitrary: ns prev)
  case (Cons x xs)
  let ?ns = "ns[x := (ns ! x)\<lparr>ae_used := False\<rparr>]"
  have x: "x < length ns" using Cons.prems(1) by simp
  show ?case
  proof (cases "ae_used (ns ! x)")
    case False
    then show ?thesis using x by (intro exI [of _ ns] exI [of _ "Some (x, prev @ xs)"]) simp
  next
    case True
    have "set xs \<subseteq> {..<length ?ns}" "distinct xs" "x \<notin> set xs" using Cons.prems by auto
    from Cons.IH [OF this(1,2), of "prev @ [x]"] obtain ns' r where
      r: "reclaim_chain ?ns (prev @ [x]) xs = Inr (ns', r)" "same_but_used ?ns ns'"
      "case r of None \<Rightarrow> (\<forall>y\<in>set xs. \<not> ae_used (ns' ! y)) \<and> (\<forall>y. y \<notin> set xs \<longrightarrow> ns' ! y = ?ns ! y)
        | Some (y, rest) \<Rightarrow> y \<in> set xs \<and> rest = (prev @ [x]) @ remove1 y xs" by blast
    have run: "reclaim_chain ns prev (x # xs) = Inr (ns', r)" using r(1) x True by simp
    have same: "same_but_used ns ns'" by (rule same_but_used_trans [OF same_but_used_upd [OF x] r(2)])
    have "ns' ! x = ?ns ! x" if "r = None" using r(3) that \<open>x \<notin> set xs\<close> by simp
    then have "\<not> ae_used (ns' ! x)" if "r = None" using that x by simp
    then show ?thesis
      using run same r(3) \<open>x \<notin> set xs\<close> True x
      by (intro exI [of _ ns'] exI [of _ r]) (auto split: option.splits)
  qed
qed simp

text \<open>What reclaiming changes.\<close>

definition reclaimed :: "avc_cache \<Rightarrow> nat \<Rightarrow> avc_cache \<Rightarrow> bool" where
  "reclaimed c x c' \<longleftrightarrow> (\<exists>h ns. h < AVC_CACHE_SLOTS \<and> x \<in> set (slots c ! h) \<and> same_but_used (avc_nodes c) ns
     \<and> c' = c\<lparr>avc_nodes := ns, slots := (slots c)[h := remove1 x (slots c ! h)], lru_hint := of_nat h\<rparr>)"

lemma cache_ok_same:
  assumes "cache_ok c" "same_but_used (avc_nodes c) ns"
  shows "cache_ok (c\<lparr>avc_nodes := ns\<rparr>)"
proof -
  have "length ns = length (avc_nodes c)" using assms(2) by (simp add: same_but_used_def)
  moreover have "in_cache (c\<lparr>avc_nodes := ns\<rparr>) = in_cache c" by (simp add: in_cache_def fun_eq_iff)
  ultimately show ?thesis using assms(1) same_but_used_nth [OF assms(2)] unfolding cache_ok_def by simp
qed

lemma reclaim_slots_spec:
  assumes "cache_ok c" "set hs \<subseteq> {..<AVC_CACHE_SLOTS}"
  shows "\<exists>c' r. reclaim_slots hs c = Inr (c', r) \<and> (case r of
      None \<Rightarrow> (\<exists>ns. same_but_used (avc_nodes c) ns \<and> c' = c\<lparr>avc_nodes := ns\<rparr>)
        \<and> (\<forall>h\<in>set hs. \<forall>x\<in>set (slots c ! h). \<not> ae_used (avc_nodes c' ! x))
        \<and> (\<forall>x. \<not> ae_used (avc_nodes c ! x) \<longrightarrow> x < length (avc_nodes c) \<longrightarrow> \<not> ae_used (avc_nodes c' ! x))
    | Some x \<Rightarrow> reclaimed c x c')"
  using assms
proof (induction hs arbitrary: c)
  case Nil
  have "\<exists>ns. same_but_used (avc_nodes c) ns \<and> c = c\<lparr>avc_nodes := ns\<rparr>" by (intro exI [of _ "avc_nodes c"]) simp
  then show ?case by simp
next
  case (Cons h hs)
  have h: "h < AVC_CACHE_SLOTS" using Cons.prems(2) by simp
  have sl: "h < length (slots c)" "distinct (slots c ! h)" "set (slots c ! h) \<subseteq> {..<length (avc_nodes c)}"
    using Cons.prems(1) h by (auto simp: cache_ok_def)
  from reclaim_chain_spec [OF sl(3,2), of "[]"] obtain ns r where r: "reclaim_chain (avc_nodes c) [] (slots c ! h) = Inr (ns, r)"
    "same_but_used (avc_nodes c) ns" "case r of
      None \<Rightarrow> (\<forall>x\<in>set (slots c ! h). \<not> ae_used (ns ! x)) \<and> (\<forall>x. x \<notin> set (slots c ! h) \<longrightarrow> ns ! x = avc_nodes c ! x)
    | Some (x, rest) \<Rightarrow> x \<in> set (slots c ! h) \<and> rest = [] @ remove1 x (slots c ! h)" by blast
  show ?case
  proof (cases r)
    case (Some p)
    obtain x rest where p: "p = (x, rest)" by (cases p)
    let ?c = "c\<lparr>avc_nodes := ns, slots := (slots c)[h := rest], lru_hint := of_nat h\<rparr>"
    have "reclaim_slots (h # hs) c = Inr (?c, Some x)" using sl(1) r(1) by (simp add: Some p)
    moreover have "reclaimed c x ?c" using r(2,3) h unfolding reclaimed_def by (auto simp: Some p)
    ultimately show ?thesis by (intro exI [of _ ?c] exI [of _ "Some x"]) simp
  next
    case None
    let ?c = "c\<lparr>avc_nodes := ns\<rparr>"
    have ok: "cache_ok ?c" by (rule cache_ok_same [OF Cons.prems(1) r(2)])
    have "set hs \<subseteq> {..<AVC_CACHE_SLOTS}" using Cons.prems(2) by simp
    from Cons.IH [OF ok this] obtain c' r' where IH: "reclaim_slots hs ?c = Inr (c', r')" "case r' of
      None \<Rightarrow> (\<exists>ns'. same_but_used (avc_nodes ?c) ns' \<and> c' = ?c\<lparr>avc_nodes := ns'\<rparr>)
        \<and> (\<forall>h\<in>set hs. \<forall>x\<in>set (slots ?c ! h). \<not> ae_used (avc_nodes c' ! x))
        \<and> (\<forall>x. \<not> ae_used (avc_nodes ?c ! x) \<longrightarrow> x < length (avc_nodes ?c) \<longrightarrow> \<not> ae_used (avc_nodes c' ! x))
      | Some x \<Rightarrow> reclaimed ?c x c'" by blast
    have run: "reclaim_slots (h # hs) c = Inr (c', r')" using sl(1) r(1) IH(1) by (simp add: None)
    have len: "length ns = length (avc_nodes c)" using r(2) by (simp add: same_but_used_def)
    have down: "ae_used (avc_nodes c ! x)" if "ae_used (ns ! x)" for x
      using r(3) that by (cases "x \<in> set (slots c ! h)") (auto simp: None)
    show ?thesis
    proof (cases r')
      case (Some x)
      then have "reclaimed c x c'" using IH(2) same_but_used_trans [OF r(2)] unfolding reclaimed_def by auto
      then show ?thesis using run Some by simp
    next
      case None': None
      then obtain ns' where c': "same_but_used ns ns'" "c' = ?c\<lparr>avc_nodes := ns'\<rparr>" using IH(2) by auto
      have "same_but_used (avc_nodes c) ns'" by (rule same_but_used_trans [OF r(2) c'(1)])
      then have same: "\<exists>ns. same_but_used (avc_nodes c) ns \<and> c' = c\<lparr>avc_nodes := ns\<rparr>" using c'(2) by auto
      have stay: "\<not> ae_used (avc_nodes c' ! x)" if "\<not> ae_used (ns ! x)" "x < length (avc_nodes c)" for x
        using IH(2) that len by (simp add: None')
      have "\<not> ae_used (avc_nodes c' ! x)" if "x \<in> set (slots c ! h)" for x
        using stay [of x] r(3) that sl(3) by (auto simp: None)
      moreover have "\<forall>h\<in>set hs. \<forall>x\<in>set (slots c ! h). \<not> ae_used (avc_nodes c' ! x)" using IH(2) by (simp add: None')
      moreover have "\<not> ae_used (avc_nodes c' ! x)" if "\<not> ae_used (avc_nodes c ! x)" "x < length (avc_nodes c)" for x
        using stay [of x] down [of x] that by blast
      ultimately show ?thesis using run None' same by simp
    qed
  qed
qed

lemma reclaim_slots_append:
  "reclaim_slots (hs @ hs') c = bindR (reclaim_slots hs c) (\<lambda>(c', r). case r of
     Some x \<Rightarrow> Inr (c', Some x) | None \<Rightarrow> reclaim_slots hs' c')"
  by (induction hs arbitrary: c) (auto simp: bindR_assoc bindR_def split: sum.splits option.splits prod.splits)

text \<open>Without marks the first node of the first slot that is not empty is taken.\<close>

lemma reclaim_slots_unused:
  assumes "cache_ok c" "set hs \<subseteq> {..<AVC_CACHE_SLOTS}" "\<forall>h\<in>set hs. \<forall>x\<in>set (slots c ! h). \<not> ae_used (avc_nodes c ! x)"
    "\<exists>h\<in>set hs. slots c ! h \<noteq> []"
  shows "\<exists>c' x. reclaim_slots hs c = Inr (c', Some x)"
  using assms(2-4)
proof (induction hs)
  case (Cons h hs)
  have sl: "h < length (slots c)" "\<forall>x\<in>set (slots c ! h). x < length (avc_nodes c)" using assms(1) Cons.prems(1) by (auto simp: cache_ok_def)
  show ?case
  proof (cases "slots c ! h")
    case Nil
    then show ?thesis using Cons sl(1) by auto
  next
    case (Cons x xs)
    then have "\<not> ae_used (avc_nodes c ! x)" "x < length (avc_nodes c)" using Cons.prems(2) sl(2) by auto
    then show ?thesis using sl(1) Cons by simp
  qed
qed simp

lemma scan_order_set: "set (scan_order hint) = {..<AVC_CACHE_SLOTS}"
proof -
  have "\<exists>k < AVC_CACHE_SLOTS. (unat hint + k) mod AVC_CACHE_SLOTS = i" if "i < AVC_CACHE_SLOTS" for i
  proof (intro exI conjI)
    let ?k = "(i + AVC_CACHE_SLOTS - unat hint mod AVC_CACHE_SLOTS) mod AVC_CACHE_SLOTS"
    show "?k < AVC_CACHE_SLOTS" by simp
    have "(unat hint + ?k) mod AVC_CACHE_SLOTS = (unat hint mod AVC_CACHE_SLOTS + (i + AVC_CACHE_SLOTS - unat hint mod AVC_CACHE_SLOTS)) mod AVC_CACHE_SLOTS"
      by (metis mod_add_left_eq mod_add_right_eq)
    also have "\<dots> = (i + AVC_CACHE_SLOTS) mod AVC_CACHE_SLOTS"
      using mod_less_divisor [of AVC_CACHE_SLOTS "unat hint"] by (intro arg_cong [where f = "\<lambda>n. n mod AVC_CACHE_SLOTS"]) linarith
    finally show "(unat hint + ?k) mod AVC_CACHE_SLOTS = i" using that by simp
  qed
  then show ?thesis unfolding scan_order_def set_map set_upt by fastforce
qed

text \<open>How a cache follows another: nothing that was not cached is, except for the nodes named.\<close>

definition follows :: "avc_cache \<Rightarrow> nat set \<Rightarrow> avc_cache \<Rightarrow> bool" where
  "follows c X c' \<longleftrightarrow> cache_ok c' \<and> length (avc_nodes c') = length (avc_nodes c) \<and> latest_notif c' = latest_notif c
     \<and> (\<forall>y. in_cache c' y \<longrightarrow> y \<in> X \<or> in_cache c y \<and> (\<exists>b. avc_nodes c' ! y = (avc_nodes c ! y)\<lparr>ae_used := b\<rparr>))"

lemma same_follows:
  assumes "cache_ok c" "same_but_used (avc_nodes c) ns"
  shows "follows c X (c\<lparr>avc_nodes := ns\<rparr>)"
proof -
  have "\<exists>b. ns ! y = (avc_nodes c ! y)\<lparr>ae_used := b\<rparr>" if "in_cache c y" for y
    using assms(2) in_cache_less [OF assms(1) that] by (simp add: same_but_used_def)
  then show ?thesis
    using cache_ok_same [OF assms] assms(2) by (simp add: follows_def same_but_used_def in_cache_def)
qed

text \<open>Reclaiming fails only on an empty cache.\<close>

lemma avc_reclaim_node_spec:
  assumes "cache_ok c"
  shows "\<exists>c' r. avc_reclaim_node c = Inr (c', r) \<and> (case r of
      None \<Rightarrow> follows c {} c' \<and> (\<forall>x. \<not> in_cache c x) | Some x \<Rightarrow> reclaimed c x c')"
proof -
  let ?hs = "scan_order (lru_hint c)"
  have hs: "set ?hs \<subseteq> {..<AVC_CACHE_SLOTS}" by (simp add: scan_order_set)
  have run: "avc_reclaim_node c = reclaim_slots (?hs @ ?hs) c" using assms by (simp add: avc_reclaim_node_def cache_ok_def)
  from reclaim_slots_spec [OF assms, of "?hs @ ?hs"] hs obtain c' r where r: "reclaim_slots (?hs @ ?hs) c = Inr (c', r)"
    "r = None \<longrightarrow> (\<exists>ns. same_but_used (avc_nodes c) ns \<and> c' = c\<lparr>avc_nodes := ns\<rparr>)" "\<forall>x. r = Some x \<longrightarrow> reclaimed c x c'"
    by (force split: option.splits)
  show ?thesis
  proof (cases r)
    case (Some x)
    then show ?thesis using r run by simp
  next
    case None
    then have ok: "follows c {} c'" using r(2) same_follows [OF assms] by auto
    have "\<not> in_cache c x" for x
    proof
      assume "in_cache c x"
      then obtain i where "i < AVC_CACHE_SLOTS" "slots c ! i \<noteq> []" unfolding in_cache_def by force
      then have ne: "\<exists>h\<in>set ?hs. slots c ! h \<noteq> []" by (intro bexI [of _ i]) (simp_all add: scan_order_set)
      from reclaim_slots_spec [OF assms hs] obtain c1 r1 where 1: "reclaim_slots ?hs c = Inr (c1, r1)"
        "r1 = None \<longrightarrow> (\<exists>ns. same_but_used (avc_nodes c) ns \<and> c1 = c\<lparr>avc_nodes := ns\<rparr>)
          \<and> (\<forall>h\<in>set ?hs. \<forall>x\<in>set (slots c ! h). \<not> ae_used (avc_nodes c1 ! x))"
        by (force split: option.splits)
      from r(1) 1(1) None have "r1 = None" by (auto simp: reclaim_slots_append split: option.splits)
      with 1(2) have c1: "cache_ok c1" "slots c1 = slots c" "\<forall>h\<in>set ?hs. \<forall>x\<in>set (slots c1 ! h). \<not> ae_used (avc_nodes c1 ! x)"
        using cache_ok_same [OF assms] by auto
      from reclaim_slots_unused [OF c1(1) hs c1(3)] ne c1(2) obtain c2 y where "reclaim_slots ?hs c1 = Inr (c2, Some y)" by auto
      with r(1) 1(1) \<open>r1 = None\<close> None show False by (simp add: reclaim_slots_append)
    qed
    then show ?thesis using r(1) run None ok by simp
  qed
qed

section \<open>Claiming a node\<close>

lemma follows_refl: "cache_ok c \<Longrightarrow> follows c X c"
  unfolding follows_def by (metis avc_entry.surjective avc_entry.update_convs(6))

lemma follows_trans:
  assumes "follows c X c'" "follows c' Y c''"
  shows "follows c (X \<union> Y) c''"
proof -
  have "y \<in> X \<union> Y \<or> in_cache c y \<and> (\<exists>b. avc_nodes c'' ! y = (avc_nodes c ! y)\<lparr>ae_used := b\<rparr>)" if y: "in_cache c'' y" for y
  proof (cases "y \<in> X \<union> Y")
    case False
    then obtain b where "in_cache c' y" and 2: "avc_nodes c'' ! y = (avc_nodes c' ! y)\<lparr>ae_used := b\<rparr>"
      using assms(2) y by (auto simp: follows_def)
    moreover from this obtain b' where "in_cache c y" "avc_nodes c' ! y = (avc_nodes c ! y)\<lparr>ae_used := b'\<rparr>"
      using assms(1) False by (auto simp: follows_def)
    ultimately show ?thesis by auto
  qed simp
  then show ?thesis using assms by (simp add: follows_def)
qed

lemma set_entry_follows:
  assumes "cache_ok c" "keeps_key f" "x < length (avc_nodes c)"
  shows "\<exists>c'. set_entry x f c = Inr c' \<and> follows c {x} c' \<and> avc_nodes c' ! x = f (avc_nodes c ! x)
    \<and> (\<forall>y. in_cache c' y = in_cache c y)"
proof -
  from set_entry_ok [OF assms] obtain c' where c': "set_entry x f c = Inr c'" "cache_ok c'"
    "c' = c\<lparr>avc_nodes := (avc_nodes c)[x := f (avc_nodes c ! x)]\<rparr>" by blast
  have in': "in_cache c' y = in_cache c y" for y by (simp add: c'(3) in_cache_def)
  have "\<exists>b. avc_nodes c ! y = (avc_nodes c ! y)\<lparr>ae_used := b\<rparr>" for y by (intro exI [of _ "ae_used (avc_nodes c ! y)"]) simp
  then have "follows c {x} c'" using c'(2) in' unfolding follows_def by (simp add: c'(3)) (metis nth_list_update_neq)
  then show ?thesis using c'(1) in' assms(3) by (intro exI [of _ c']) (simp add: c'(3))
qed

lemma mark_follows:
  assumes "cache_ok c" "x < length (avc_nodes c)"
  shows "\<exists>c'. set_entry x (\<lambda>ae. ae\<lparr>ae_used := True\<rparr>) c = Inr c' \<and> follows c {} c'
    \<and> avc_nodes c' ! x = (avc_nodes c ! x)\<lparr>ae_used := True\<rparr> \<and> (\<forall>y. in_cache c' y = in_cache c y)"
proof -
  have "keeps_key (\<lambda>ae. ae\<lparr>ae_used := True\<rparr>)" by (simp add: keeps_key_def)
  from set_entry_follows [OF assms(1) this assms(2)] obtain c' where
    c': "set_entry x (\<lambda>ae. ae\<lparr>ae_used := True\<rparr>) c = Inr c'" "follows c {x} c'"
    "avc_nodes c' ! x = (avc_nodes c ! x)\<lparr>ae_used := True\<rparr>" "\<forall>y. in_cache c' y = in_cache c y" by blast
  then have "follows c {} c'" unfolding follows_def by auto
  with c' show ?thesis by blast
qed

text \<open>A node that is reclaimed could as well be on the free list.\<close>

definition to_free :: "nat \<Rightarrow> avc_cache \<Rightarrow> avc_cache" where
  "to_free x c = c\<lparr>avc_nodes := (avc_nodes c)[x := avc_entry_zero], freelist := x # freelist c, active_nodes := active_nodes c - 1\<rparr>"

lemma in_cache_remove:
  assumes "cache_ok c" "h < AVC_CACHE_SLOTS" "x \<in> set (slots c ! h)"
  shows "in_cache (c\<lparr>slots := (slots c)[h := remove1 x (slots c ! h)]\<rparr>) y \<longleftrightarrow> in_cache c y \<and> y \<noteq> x"
proof -
  have len: "length (slots c) = AVC_CACHE_SLOTS" and d: "distinct (slots c ! h)" using assms by (auto simp: cache_ok_def)
  have u: "i = h" if "i < AVC_CACHE_SLOTS" "x \<in> set (slots c ! i)" for i
  proof -
    have "hash_of (avc_nodes c ! x) = i" "hash_of (avc_nodes c ! x) = h" using assms that unfolding cache_ok_def by blast+
    then show ?thesis by simp
  qed
  have "y \<in> set ((slots c)[h := remove1 x (slots c ! h)] ! i) \<longleftrightarrow> y \<in> set (slots c ! i) \<and> y \<noteq> x" if "i < AVC_CACHE_SLOTS" for i
    using that len d u [OF that] by (cases "i = h") auto
  then show ?thesis by (auto simp: in_cache_def)
qed

lemma reclaimed_to_free:
  assumes "cache_ok c" "reclaimed c x c'"
  shows "follows c {} (to_free x c')"
proof -
  from assms(2) obtain h ns where h: "h < AVC_CACHE_SLOTS" "x \<in> set (slots c ! h)" "same_but_used (avc_nodes c) ns"
    and c': "c' = c\<lparr>avc_nodes := ns, slots := (slots c)[h := remove1 x (slots c ! h)], lru_hint := of_nat h\<rparr>"
    unfolding reclaimed_def by blast
  let ?c = "to_free x c'"
  have len: "length ns = length (avc_nodes c)" using h(3) by (simp add: same_but_used_def)
  have x: "x < length (avc_nodes c)" "x \<notin> set (freelist c)" "in_cache c x" using assms(1) h(1,2) by (auto simp: cache_ok_def in_cache_def)
  have in': "in_cache ?c y \<longleftrightarrow> in_cache c y \<and> y \<noteq> x" for y
    using in_cache_remove [OF assms(1) h(1,2)] by (simp add: c' to_free_def in_cache_def)
  have nodes: "avc_nodes ?c ! y = (if y = x then avc_entry_zero else ns ! y)" for y
    using x(1) len by (simp add: c' to_free_def nth_list_update)
  have sl: "slots ?c ! i = (if i = h then remove1 x (slots c ! h) else slots c ! i)" if "i < AVC_CACHE_SLOTS" for i
    using that assms(1) by (simp add: c' to_free_def cache_ok_def nth_list_update)
  have slot: "distinct (slots ?c ! i) \<and> (\<forall>y \<in> set (slots ?c ! i). y < length (avc_nodes ?c) \<and> hash_of (avc_nodes ?c ! y) = i)"
    if i: "i < AVC_CACHE_SLOTS" for i
  proof -
    have d: "distinct (slots c ! i)" using assms(1) i by (simp add: cache_ok_def)
    moreover have "y < length (avc_nodes ?c) \<and> hash_of (avc_nodes ?c ! y) = i" if y: "y \<in> set (slots ?c ! i)" for y
    proof -
      have "y \<in> set (slots c ! i)" using y sl [OF i] set_remove1_subset by (fastforce split: if_splits)
      moreover from y i in' have "y \<noteq> x" unfolding in_cache_def by blast
      ultimately show ?thesis using assms(1) i same_but_used_nth [OF h(3)] len nodes by (simp add: cache_ok_def c' to_free_def)
    qed
    ultimately show ?thesis using sl [OF i] by auto
  qed
  have free: "y < length (avc_nodes ?c) \<and> \<not> in_cache ?c y \<and> ae_ssid (avc_nodes ?c ! y) = 0" if "y \<in> set (freelist ?c)" for y
  proof -
    have "y = x \<or> y \<in> set (freelist c)" "length (avc_nodes ?c) = length ns" using that by (auto simp: c' to_free_def)
    moreover have "ae_ssid avc_entry_zero = 0" by (simp add: avc_entry_zero_def)
    moreover have "y < length (avc_nodes c) \<and> \<not> in_cache c y \<and> ae_ssid (avc_nodes c ! y) = 0" if "y \<in> set (freelist c)"
      using that assms(1) by (simp add: cache_ok_def)
    ultimately show ?thesis using x len in' nodes same_but_used_nth(2) [OF h(3)] by auto
  qed
  have all: "in_cache ?c y \<or> y \<in> set (freelist ?c)" if "y < length (avc_nodes ?c)" for y
    using that assms(1) len in' by (auto simp: c' to_free_def cache_ok_def)
  have "cache_ok ?c" 
    unfolding cache_ok_def using slot free all x h(1) assms(1) len
    by (simp add: c' to_free_def cache_ok_def unat_of_nat_u32)
  moreover have "\<exists>b. avc_nodes ?c ! y = (avc_nodes c ! y)\<lparr>ae_used := b\<rparr>" if "in_cache ?c y" for y
    using that in' nodes h(3) in_cache_less [OF assms(1)] by (auto simp: same_but_used_def)
  moreover have "length (avc_nodes ?c) = length (avc_nodes c)" "latest_notif ?c = latest_notif c" using len by (simp_all add: c' to_free_def)
  ultimately show ?thesis using in' by (simp add: follows_def)
qed

text \<open>Taking the first node of the free list.\<close>

definition new_entry :: "security_id \<Rightarrow> security_id \<Rightarrow> u16 \<Rightarrow> avc_entry" where
  "new_entry ssid tsid tclass = avc_entry_zero\<lparr>ae_used := True, ae_ssid := ssid, ae_tsid := tsid, ae_tclass := tclass\<rparr>"

definition link_node :: "nat \<Rightarrow> avc_entry \<Rightarrow> avc_cache \<Rightarrow> avc_cache" where
  "link_node x ae c = c\<lparr>avc_nodes := (avc_nodes c)[x := ae],
     slots := (slots c)[hash_of ae := x # slots c ! hash_of ae]\<rparr>"

lemma link_node_follows:
  assumes "cache_ok c" "freelist c = x # xs"
  shows "follows c {x} (link_node x ae (c\<lparr>freelist := xs, active_nodes := active_nodes c + 1\<rparr>))" (is "follows c _ ?c")
    "in_cache (link_node x ae (c\<lparr>freelist := xs, active_nodes := active_nodes c + 1\<rparr>)) x"
proof -
  let ?h = "hash_of ae"
  have x: "x < length (avc_nodes c)" "\<not> in_cache c x" "x \<notin> set xs" "distinct xs" using assms by (auto simp: cache_ok_def)
  have len: "length (slots c) = AVC_CACHE_SLOTS" using assms(1) by (simp add: cache_ok_def)
  have h: "?h < AVC_CACHE_SLOTS" by (rule hash_of_less)
  have sl: "slots ?c ! i = (if i = ?h then x # slots c ! ?h else slots c ! i)" if "i < AVC_CACHE_SLOTS" for i
    using that len by (simp add: link_node_def nth_list_update)
  have in': "in_cache ?c y \<longleftrightarrow> y = x \<or> in_cache c y" for y
    using h sl unfolding in_cache_def by (metis list.set_intros(1) set_ConsD list.set_intros(2))
  then show "in_cache ?c x" by simp
  have nodes: "avc_nodes ?c ! y = (if y = x then ae else avc_nodes c ! y)" for y using x(1) by (simp add: link_node_def nth_list_update)
  have nx: "x \<notin> set (slots c ! i)" if "i < AVC_CACHE_SLOTS" for i using x(2) that by (auto simp: in_cache_def)
  have slot: "distinct (slots ?c ! i) \<and> (\<forall>y \<in> set (slots ?c ! i). y < length (avc_nodes ?c) \<and> hash_of (avc_nodes ?c ! y) = i)"
    if i: "i < AVC_CACHE_SLOTS" for i
  proof -
    have ok: "distinct (slots c ! i)" "\<forall>y \<in> set (slots c ! i). y < length (avc_nodes c) \<and> hash_of (avc_nodes c ! y) = i"
      using assms(1) i by (simp_all add: cache_ok_def)
    have "hash_of (avc_nodes ?c ! y) = i" if "y \<in> set (slots ?c ! i)" for y
      using that ok(2) sl [OF i] nx [OF i] nodes by (auto split: if_splits)
    moreover have "y < length (avc_nodes ?c)" if "y \<in> set (slots ?c ! i)" for y
      using that ok(2) sl [OF i] x(1) by (auto simp: link_node_def split: if_splits)
    moreover have "distinct (slots ?c ! i)" using sl [OF i] nx [OF i] ok(1) by auto
    ultimately show ?thesis by blast
  qed
  have free: "y < length (avc_nodes ?c) \<and> \<not> in_cache ?c y \<and> ae_ssid (avc_nodes ?c ! y) = 0" if "y \<in> set xs" for y
  proof -
    have "y < length (avc_nodes c) \<and> \<not> in_cache c y \<and> ae_ssid (avc_nodes c ! y) = 0" using that assms by (simp add: cache_ok_def)
    moreover have "length (avc_nodes ?c) = length (avc_nodes c)" by (simp add: link_node_def)
    ultimately show ?thesis using that x(3) in' nodes by auto
  qed
  have all: "in_cache ?c y \<or> y \<in> set xs" if "y < length (avc_nodes ?c)" for y
    using that assms in' by (auto simp: link_node_def cache_ok_def)
  have fl: "freelist ?c = xs" by (simp add: link_node_def)
  have "length (slots ?c) = AVC_CACHE_SLOTS" "unat (lru_hint ?c) < AVC_CACHE_SLOTS"
    "active_nodes ?c + of_nat (length xs) = of_nat (length (avc_nodes ?c))"
    using assms len by (simp_all add: link_node_def cache_ok_def add.assoc)
  then have "cache_ok ?c" unfolding cache_ok_def fl using slot free all x(4) by simp
  moreover have "\<exists>b. avc_nodes c ! y = (avc_nodes c ! y)\<lparr>ae_used := b\<rparr>" for y by (intro exI [of _ "ae_used (avc_nodes c ! y)"]) simp
  ultimately show "follows c {x} ?c" unfolding follows_def using in' nodes by (simp add: link_node_def)
qed

lemma link_to_free:
  "link_node x ae ((to_free x c)\<lparr>freelist := freelist c, active_nodes := active_nodes (to_free x c) + 1\<rparr>) = link_node x ae c"
  by (simp add: link_node_def to_free_def)

lemma avc_claim_node_spec:
  assumes "cache_ok c"
  shows "\<exists>c' r. avc_claim_node c ssid tsid tclass = Inr (c', r) \<and> (case r of
      None \<Rightarrow> avc_nodes c = [] \<and> follows c {} c'
    | Some x \<Rightarrow> follows c {x} c' \<and> in_cache c' x \<and> avc_nodes c' ! x = new_entry ssid tsid tclass)"
proof -
  let ?ae = "new_entry ssid tsid tclass"
  have h: "hash_of ?ae = avc_hash ssid tsid tclass" by (simp add: hash_of_def new_entry_def)
  have found: ?thesis
    if follow: "follows c {x} (link_node x ?ae c1)" "in_cache (link_node x ?ae c1) x" and len: "length (slots c1) = AVC_CACHE_SLOTS"
      and run: "avc_claim_node c ssid tsid tclass = bindR (Inr (c1, Some x)) (\<lambda>(c1, r). case r of
        None \<Rightarrow> Inr (c1, None)
      | Some x \<Rightarrow> bindR (array_get (slots c1) (avc_hash ssid tsid tclass)) (\<lambda>chain.
          Inr (c1\<lparr>avc_nodes := (avc_nodes c1)[x := ?ae], slots := (slots c1)[avc_hash ssid tsid tclass := x # chain]\<rparr>, Some x)))" for c1 x
  proof -
    have "avc_claim_node c ssid tsid tclass = Inr (link_node x ?ae c1, Some x)"
      using run len h avc_hash_less [of ssid tsid tclass] by (simp add: link_node_def)
    moreover have "x < length (avc_nodes c1)"
      using follow in_cache_less [of "link_node x ?ae c1"] by (simp add: follows_def link_node_def)
    then have "avc_nodes (link_node x ?ae c1) ! x = ?ae" by (simp add: link_node_def)
    ultimately show ?thesis using follow by (intro exI [of _ "link_node x ?ae c1"] exI [of _ "Some x"]) simp
  qed
  show ?thesis
  proof (cases "freelist c")
    case (Cons x xs)
    let ?c1 = "c\<lparr>freelist := xs, active_nodes := active_nodes c + 1\<rparr>"
    show ?thesis
    proof (rule found [of x ?c1])
      show "follows c {x} (link_node x ?ae ?c1)" "in_cache (link_node x ?ae ?c1) x" by (rule link_node_follows [OF assms Cons])+
      show "length (slots ?c1) = AVC_CACHE_SLOTS" using assms by (simp add: cache_ok_def)
    qed (simp add: avc_claim_node_def Cons new_entry_def Let_def)
  next
    case Nil
    from avc_reclaim_node_spec [OF assms] obtain c1 r where r: "avc_reclaim_node c = Inr (c1, r)"
      "case r of None \<Rightarrow> follows c {} c1 \<and> (\<forall>x. \<not> in_cache c x) | Some x \<Rightarrow> reclaimed c x c1" by blast
    show ?thesis
    proof (cases r)
      case None
      from r(2) None have "\<forall>x. \<not> in_cache c x" by simp
      then have "avc_nodes c = []" using assms Nil unfolding cache_ok_def by (metis length_0_conv list.set(1) empty_iff neq0_conv)
      moreover have "avc_claim_node c ssid tsid tclass = Inr (c1, None)" using r(1) by (simp add: avc_claim_node_def Nil None)
      ultimately show ?thesis using r(2) None by simp
    next
      case (Some x)
      then have "reclaimed c x c1" using r(2) by simp
      then have f: "follows c {} (to_free x c1)" and fl: "freelist c1 = []" "length (slots c1) = AVC_CACHE_SLOTS"
        using reclaimed_to_free [OF assms] Nil assms by (auto simp: reclaimed_def cache_ok_def)
      have "cache_ok (to_free x c1)" "freelist (to_free x c1) = x # []" using f fl by (simp_all add: follows_def to_free_def)
      from link_node_follows [OF this, of ?ae] link_to_free [of x ?ae c1]
      have l: "follows (to_free x c1) {x} (link_node x ?ae c1)" "in_cache (link_node x ?ae c1) x" by (simp_all add: fl(1))
      show ?thesis
      proof (rule found [OF _ l(2) fl(2)])
        show "follows c {x} (link_node x ?ae c1)" using follows_trans [OF f l(1)] by simp
      qed (simp add: avc_claim_node_def Nil r(1) Some new_entry_def Let_def)
    qed
  qed
qed

section \<open>Searching and inserting\<close>

lemma search_chain_spec:
  assumes "set xs \<subseteq> {..<length ns}"
  shows "\<exists>r. search_chain ns ssid tsid tclass xs = Inr r \<and> (case r of
      None \<Rightarrow> \<forall>x\<in>set xs. \<not> entry_for ssid tsid tclass (ns ! x)
    | Some x \<Rightarrow> x \<in> set xs \<and> entry_for ssid tsid tclass (ns ! x))"
  using assms
proof (induction xs)
  case (Cons x xs)
  show ?case
  proof (cases "entry_for ssid tsid tclass (ns ! x)")
    case True
    then show ?thesis using Cons.prems by (intro exI [of _ "Some x"]) simp
  next
    case False
    from Cons.IH Cons.prems obtain r where "search_chain ns ssid tsid tclass xs = Inr r" "case r of
      None \<Rightarrow> \<forall>x\<in>set xs. \<not> entry_for ssid tsid tclass (ns ! x) | Some x \<Rightarrow> x \<in> set xs \<and> entry_for ssid tsid tclass (ns ! x)" by auto
    then show ?thesis using Cons.prems False by (intro exI [of _ r]) (auto split: option.splits)
  qed
qed simp

lemma avc_search_node_spec:
  assumes "cache_ok c"
  shows "\<exists>c' r. avc_search_node c ssid tsid tclass = Inr (c', r) \<and> follows c {} c' \<and> (case r of
      None \<Rightarrow> c' = c \<and> (\<forall>x. in_cache c x \<longrightarrow> \<not> entry_for ssid tsid tclass (avc_nodes c ! x))
    | Some x \<Rightarrow> in_cache c' x \<and> in_cache c x \<and> entry_for ssid tsid tclass (avc_nodes c' ! x))"
proof -
  let ?h = "avc_hash ssid tsid tclass"
  have h: "?h < AVC_CACHE_SLOTS" by (rule avc_hash_less)
  have sl: "?h < length (slots c)" "set (slots c ! ?h) \<subseteq> {..<length (avc_nodes c)}" using assms h by (auto simp: cache_ok_def)
  from search_chain_spec [OF sl(2)] obtain r where r: "search_chain (avc_nodes c) ssid tsid tclass (slots c ! ?h) = Inr r"
    "case r of None \<Rightarrow> \<forall>x\<in>set (slots c ! ?h). \<not> entry_for ssid tsid tclass (avc_nodes c ! x)
     | Some x \<Rightarrow> x \<in> set (slots c ! ?h) \<and> entry_for ssid tsid tclass (avc_nodes c ! x)" by blast
  show ?thesis
  proof (cases r)
    case None
    have "\<not> entry_for ssid tsid tclass (avc_nodes c ! x)" if x: "in_cache c x" for x
    proof
      assume e: "entry_for ssid tsid tclass (avc_nodes c ! x)"
      then have "hash_of (avc_nodes c ! x) = ?h" by (simp add: hash_of_def entry_for_def)
      with x have "x \<in> set (slots c ! ?h)" by (simp add: in_cache_slot [OF assms])
      with r(2) e None show False by simp
    qed
    moreover have "avc_search_node c ssid tsid tclass = Inr (c, None)" using sl(1) r(1) None by (simp add: avc_search_node_def)
    ultimately show ?thesis using follows_refl [OF assms] by (intro exI [of _ c] exI [of _ None]) simp
  next
    case (Some x)
    then have x: "in_cache c x" "entry_for ssid tsid tclass (avc_nodes c ! x)" using r(2) h by (auto simp: in_cache_def)
    from mark_follows [OF assms in_cache_less [OF assms x(1)]] obtain c' where c': "set_entry x (\<lambda>ae. ae\<lparr>ae_used := True\<rparr>) c = Inr c'"
      "follows c {} c'" "avc_nodes c' ! x = (avc_nodes c ! x)\<lparr>ae_used := True\<rparr>" "\<forall>y. in_cache c' y = in_cache c y" by blast
    have "avc_search_node c ssid tsid tclass = Inr (c', Some x)" using sl(1) r(1) c'(1) Some by (simp add: avc_search_node_def)
    moreover have "entry_for ssid tsid tclass (avc_nodes c' ! x)" using c'(3) x(2) by (simp add: entry_for_def)
    ultimately show ?thesis using c'(2,4) x(1) by (intro exI [of _ c'] exI [of _ "Some x"]) simp
  qed
qed

lemma avc_lookup_spec:
  assumes "cache_ok c"
  shows "\<exists>c' r. avc_lookup c ssid tsid tclass requested = Inr (c', r) \<and> follows c {} c' \<and> (\<forall>x. r = Some x \<longrightarrow>
      in_cache c' x \<and> entry_for ssid tsid tclass (avc_nodes c' ! x) \<and> decided (ae_avd (avc_nodes c' ! x)) AND requested = requested)"
proof -
  from avc_search_node_spec [OF assms] obtain c' r where r: "avc_search_node c ssid tsid tclass = Inr (c', r)" "follows c {} c'"
    "case r of None \<Rightarrow> c' = c \<and> (\<forall>x. in_cache c x \<longrightarrow> \<not> entry_for ssid tsid tclass (avc_nodes c ! x))
     | Some x \<Rightarrow> in_cache c' x \<and> in_cache c x \<and> entry_for ssid tsid tclass (avc_nodes c' ! x)" by blast
  show ?thesis
  proof (cases r)
    case None
    then show ?thesis using r by (intro exI [of _ c'] exI [of _ None]) (simp add: avc_lookup_def)
  next
    case (Some x)
    then have "x < length (avc_nodes c')" using r(2,3) in_cache_less [of c'] by (simp add: follows_def)
    then show ?thesis using r Some by (simp add: avc_lookup_def)
  qed
qed

lemma avc_insert_spec:
  assumes "cache_ok c"
  shows "\<exists>c' r. avc_insert c ssid tsid tclass d = Inr (c', r) \<and> (case r of
      Inl e \<Rightarrow> follows c {} c' \<and> (e = EAGAIN \<and> seqno d < latest_notif c \<or> e = ENOMEM \<and> avc_nodes c = [])
    | Inr x \<Rightarrow> follows c {x} c' \<and> in_cache c' x \<and> avc_nodes c' ! x = (new_entry ssid tsid tclass)\<lparr>ae_avd := d\<rparr> \<and> latest_notif c \<le> seqno d)"
proof (cases "seqno d < latest_notif c")
  case True
  then show ?thesis using follows_refl [OF assms] by (intro exI [of _ c] exI [of _ "Inl EAGAIN"]) (simp add: avc_insert_def)
next
  case False
  from avc_claim_node_spec [OF assms] obtain c1 r where r: "avc_claim_node c ssid tsid tclass = Inr (c1, r)" "case r of
      None \<Rightarrow> avc_nodes c = [] \<and> follows c {} c1
    | Some x \<Rightarrow> follows c {x} c1 \<and> in_cache c1 x \<and> avc_nodes c1 ! x = new_entry ssid tsid tclass" by blast
  show ?thesis
  proof (cases r)
    case None
    then show ?thesis using r False by (intro exI [of _ c1] exI [of _ "Inl ENOMEM"]) (simp add: avc_insert_def)
  next
    case (Some x)
    then have x: "follows c {x} c1" "in_cache c1 x" "avc_nodes c1 ! x = new_entry ssid tsid tclass" "cache_ok c1"
      using r(2) by (simp_all add: follows_def)
    have "keeps_key (\<lambda>ae. ae\<lparr>ae_avd := d\<rparr>)" by (simp add: keeps_key_def)
    from set_entry_follows [OF x(4) this in_cache_less [OF x(4,2)]] obtain c' where c': "set_entry x (\<lambda>ae. ae\<lparr>ae_avd := d\<rparr>) c1 = Inr c'"
      "follows c1 {x} c'" "avc_nodes c' ! x = (avc_nodes c1 ! x)\<lparr>ae_avd := d\<rparr>" "\<forall>y. in_cache c' y = in_cache c1 y" by blast
    have "avc_insert c ssid tsid tclass d = Inr (c', Inr x)" using r(1) c'(1) Some False by (simp add: avc_insert_def)
    moreover have "follows c {x} c'" using follows_trans [OF x(1) c'(2)] by simp
    ultimately show ?thesis using c'(3,4) x(2,3) False by (intro exI [of _ c'] exI [of _ "Inr x"]) simp
  qed
qed

section \<open>Reset\<close>

lemma cached_distinct:
  assumes "cache_ok c"
  shows "distinct (concat (slots c))" "set (concat (slots c)) = {x. in_cache c x}"
proof -
  have len: "length (slots c) = AVC_CACHE_SLOTS" using assms by (simp add: cache_ok_def)
  show "set (concat (slots c)) = {x. in_cache c x}" 
    using len unfolding in_cache_def set_concat by (auto simp: set_conv_nth [of "slots c"])
  have "distinct (concat xs)" if "\<forall>i < length xs. distinct (xs ! i) \<and> (\<forall>x\<in>set (xs ! i). h x = i + k)" for xs :: "nat list list" and h k
    using that
  proof (induction xs arbitrary: k)
    case (Cons y ys)
    have "\<forall>i < length ys. distinct (ys ! i) \<and> (\<forall>x\<in>set (ys ! i). h x = i + Suc k)" using Cons.prems by (metis Suc_less_eq add_Suc add_Suc_right length_Cons nth_Cons_Suc)
    from this Cons.IH [OF this] have "distinct (concat ys)" "\<forall>x\<in>set (concat ys). k < h x" by (auto simp: set_conv_nth [of ys])
    moreover have "distinct y" "\<forall>x\<in>set y. h x = k" using Cons.prems [rule_format, of 0] by auto
    ultimately show ?case by (metis Int_emptyI concat.simps(2) distinct_append less_irrefl)
  qed simp
  from this [of "slots c" "\<lambda>x. hash_of (avc_nodes c ! x)" 0] show "distinct (concat (slots c))"
    using assms by (simp add: cache_ok_def)
qed

lemma fold_zero_nth:
  "y < length ns \<Longrightarrow> fold (\<lambda>x ns. ns[x := z]) xs ns ! y = (if y \<in> set xs then z else ns ! y)"
  "length (fold (\<lambda>x ns. ns[x := z]) xs ns) = length ns"
  by (induction xs arbitrary: ns) (auto simp: nth_list_update)

lemma reset_slots_ok:
  assumes "cache_ok c"
  shows "cache_ok (reset_slots c)" "\<not> in_cache (reset_slots c) x" "length (avc_nodes (reset_slots c)) = length (avc_nodes c)"
    "latest_notif (reset_slots c) = latest_notif c"
proof -
  let ?c = "reset_slots c"
  have len: "length (slots c) = AVC_CACHE_SLOTS" using assms by (simp add: cache_ok_def)
  have sl: "slots ?c ! i = []" if "i < AVC_CACHE_SLOTS" for i using that len by (simp add: reset_slots_def)
  then show none: "\<not> in_cache ?c x" for x by (simp add: in_cache_def)
  show ln: "length (avc_nodes ?c) = length (avc_nodes c)" "latest_notif ?c = latest_notif c" by (simp_all add: reset_slots_def fold_zero_nth)
  note cd = cached_distinct [OF assms]
  have fl: "freelist ?c = rev (concat (slots c)) @ freelist c" by (simp add: reset_slots_def)
  have fs: "set (freelist ?c) = {x. in_cache c x} \<union> set (freelist c)" unfolding fl set_append set_rev cd(2) ..
  have f0: "\<forall>x\<in>set (freelist c). x < length (avc_nodes c) \<and> \<not> in_cache c x \<and> ae_ssid (avc_nodes c ! x) = 0" "distinct (freelist c)"
    using assms by (simp_all add: cache_ok_def)
  have d: "distinct (freelist ?c)" unfolding fl distinct_append distinct_rev set_rev cd(2) using cd(1) f0 by blast
  have l: "x < length (avc_nodes c)" if "x \<in> set (freelist ?c)" for x using that fs f0(1) in_cache_less [OF assms] by blast
  have z: "ae_ssid (avc_nodes ?c ! x) = 0" if x: "x \<in> set (freelist ?c)" for x
  proof -
    have "avc_nodes ?c ! x = (if in_cache c x then avc_entry_zero else avc_nodes c ! x)"
      using fold_zero_nth(1) [OF l [OF x], of avc_entry_zero "concat (slots c)"] unfolding cd(2) by (simp add: reset_slots_def)
    moreover have "in_cache c x \<or> x \<in> set (freelist c)" using x unfolding fs by blast
    moreover have "ae_ssid avc_entry_zero = 0" by (simp add: avc_entry_zero_def)
    ultimately show ?thesis using f0(1) by auto
  qed
  have all: "x \<in> set (freelist ?c)" if "x < length (avc_nodes c)" for x using that assms fs by (auto simp: cache_ok_def)
  have "active_nodes ?c + of_nat (length (freelist ?c)) = active_nodes c + of_nat (length (freelist c))"
    unfolding fl by (simp add: reset_slots_def del: length_concat)
  then have act: "active_nodes ?c + of_nat (length (freelist ?c)) = of_nat (length (avc_nodes c))" using assms by (simp add: cache_ok_def)
  have "length (slots ?c) = AVC_CACHE_SLOTS" "unat (lru_hint ?c) < AVC_CACHE_SLOTS" using len by (simp_all add: reset_slots_def)
  then show "cache_ok ?c" unfolding cache_ok_def ln using sl none d z l all act by simp
qed

end
