(* ===== verification/Avc_Coherence.thy ===== *)
theory Avc_Coherence
  imports Avc_Cache
begin

text \<open>
  Checks through the userspace access vector cache: in enforcing mode every cached decision is one that
  the kernel would give now, or a policy change is announced by a message that the next check reads
  first, so that a check answers as the kernel would.
\<close>

unbundle bit_operations_syntax

section \<open>Coherence\<close>

text \<open>What the cache relies on: the kernel decides about all permissions of a class, whatever was
  requested, and fails with an error code.\<close>

definition kernel_av :: "compute_av \<Rightarrow> bool" where
  "kernel_av compute \<longleftrightarrow> (\<forall>s t cls r. compute s t cls r = compute s t cls 0 \<and> (\<forall>e. compute s t cls r = Inl e \<longrightarrow> err_code e))"

text \<open>A cached decision stands for a decision of the kernel. The entry of a permissive domain may allow more,
  which makes no difference.\<close>

definition decides_as :: "avd \<Rightarrow> avd \<Rightarrow> bool" where
  "decides_as a d \<longleftrightarrow> decided a = decided d \<and> avd_flags a = avd_flags d
     \<and> (avd_flags d AND SELINUX_AVD_FLAGS_PERMISSIVE = 0 \<longrightarrow> allowed a = allowed d)"

definition entry_sound :: "compute_av \<Rightarrow> usidtab \<Rightarrow> avc_entry \<Rightarrow> bool" where
  "entry_sound compute sids ae \<longleftrightarrow> (\<exists>s t d. sid_ctx sids (ae_ssid ae) = Some s \<and> sid_ctx sids (ae_tsid ae) = Some t
     \<and> compute s t (ae_tclass ae) 0 = Inr d \<and> decides_as (ae_avd ae) d)"

definition coherent :: "compute_av \<Rightarrow> avc \<Rightarrow> bool" where
  "coherent compute c \<longleftrightarrow> (avc_enforcing c \<noteq> 0 \<longrightarrow> all_entries (entry_sound compute (avc_sidtab c)) (avc_cache c))"

text \<open>The answer of the kernel to a check.\<close>

definition permitted :: "avd \<Rightarrow> u32 \<Rightarrow> bool" where
  "permitted d requested \<longleftrightarrow> requested \<noteq> 0 \<and> requested AND NOT (allowed d) = 0 \<or> avd_flags d AND SELINUX_AVD_FLAGS_PERMISSIVE \<noteq> 0"

definition kernel_answer :: "compute_av \<Rightarrow> string \<Rightarrow> string \<Rightarrow> u16 \<Rightarrow> u32 \<Rightarrow> unit res" where
  "kernel_answer compute s t tclass requested = (case compute s t tclass requested of
     Inl e \<Rightarrow> Inl e | Inr d \<Rightarrow> if permitted d requested then Inr () else Inl EACCES)"

text \<open>The outcomes of a check: the kernel's answer, in permissive mode success or an error of the kernel, or
  the failure to cache a decision that is older than the last policy announced or has no node.\<close>

definition check_answer :: "compute_av \<Rightarrow> int \<Rightarrow> avc_cache \<Rightarrow> string \<Rightarrow> string \<Rightarrow> u16 \<Rightarrow> u32 \<Rightarrow> unit res \<Rightarrow> bool" where
  "check_answer compute enforcing cache s t tclass requested rc \<longleftrightarrow>
     rc = (if enforcing \<noteq> 0 then kernel_answer compute s t tclass requested else Inr ())
     \<or> (\<exists>e. rc = Inl e \<and> (enforcing = 0 \<and> compute s t tclass requested = Inl e \<or> (\<exists>d. compute s t tclass requested = Inr d
          \<and> (e = EAGAIN \<and> seqno d < latest_notif cache \<or> e = ENOMEM \<and> avc_nodes cache = []))))"

text \<open>A new policy is announced, and the check reads the messages.\<close>

definition policy_announced :: "nl_msg list \<Rightarrow> avc \<Rightarrow> bool" where
  "policy_announced msgs c \<longleftrightarrow> (\<exists>n. SELNL_MSG_POLICYLOAD n \<in> set msgs) \<and> \<not> avc_using_threads c \<and> \<not> avc_app_main_loop c"

lemma kernel_av_same: "kernel_av compute \<Longrightarrow> compute s t cls r = compute s t cls r'"
  unfolding kernel_av_def by metis

lemma decides_as_permitted: "decides_as a d \<Longrightarrow> permitted a requested \<longleftrightarrow> permitted d requested"
  by (auto simp: decides_as_def permitted_def)

lemma entry_sound_used [simp]: "entry_sound compute sids (ae\<lparr>ae_used := b\<rparr>) = entry_sound compute sids ae"
  by (simp add: entry_sound_def)

lemma follows_sound:
  assumes "follows c X c'" "all_entries (entry_sound compute sids) c" "\<forall>x\<in>X. entry_sound compute sids (avc_nodes c' ! x)"
  shows "all_entries (entry_sound compute sids) c'"
  unfolding all_entries_def
proof (intro allI impI)
  fix y assume "in_cache c' y"
  then consider "y \<in> X" | b where "in_cache c y" "avc_nodes c' ! y = (avc_nodes c ! y)\<lparr>ae_used := b\<rparr>"
    using assms(1) unfolding follows_def by blast
  then show "entry_sound compute sids (avc_nodes c' ! y)"
    using assms(2,3) by cases (auto simp: all_entries_def)
qed

section \<open>Messages\<close>

text \<open>The cache is usable.\<close>

definition avc_ok :: "avc \<Rightarrow> bool" where
  "avc_ok c \<longleftrightarrow> avc_running c \<and> cache_ok (avc_cache c)"

lemma cache_ok_notif [simp]: "cache_ok (c\<lparr>latest_notif := n\<rparr>) = cache_ok c" "in_cache (c\<lparr>latest_notif := n\<rparr>) x = in_cache c x"
  by (simp_all add: cache_ok_def in_cache_def)

lemma avc_ss_reset_spec:
  assumes "avc_ok c"
  shows "avc_ok (fst (avc_ss_reset c n))" "\<not> in_cache (avc_cache (fst (avc_ss_reset c n))) x"
    "length (avc_nodes (avc_cache (fst (avc_ss_reset c n)))) = length (avc_nodes (avc_cache c))"
    "avc_sidtab (fst (avc_ss_reset c n)) = avc_sidtab c" "avc_enforcing (fst (avc_ss_reset c n)) = avc_enforcing c"
    "latest_notif (avc_cache (fst (avc_ss_reset c n))) = max n (latest_notif (avc_cache c))"
  using assms reset_slots_ok [of "avc_cache c"]
  by (auto simp: avc_ss_reset_def avc_reset_def notify_def avc_ok_def Let_def max_def not_less)

text \<open>What the messages keep. A reset makes the cache coherent with any policy.\<close>

definition settles :: "compute_av \<Rightarrow> avc \<Rightarrow> avc \<Rightarrow> bool" where
  "settles compute c c' \<longleftrightarrow> avc_ok c' \<and> length (avc_nodes (avc_cache c')) = length (avc_nodes (avc_cache c))
     \<and> avc_sidtab c' = avc_sidtab c \<and> latest_notif (avc_cache c) \<le> latest_notif (avc_cache c')
     \<and> (coherent compute c \<longrightarrow> coherent compute c')"

lemma ss_reset_settles:
  assumes "avc_ok c"
  shows "settles compute c (fst (avc_ss_reset c n)) \<and> coherent compute (fst (avc_ss_reset c n))"
  using avc_ss_reset_spec [OF assms, of n] unfolding settles_def coherent_def all_entries_def by auto

lemma netlink_process_settles:
  assumes "avc_ok c"
  shows "settles compute c (fst (avc_netlink_process f g c msg))"
    "msg = SELNL_MSG_POLICYLOAD n \<Longrightarrow> coherent compute (fst (avc_netlink_process f g c msg))"
proof -
  have refl: "settles compute c c" using assms by (simp add: settles_def)
  have "settles compute c (fst (avc_netlink_process f g c msg)) \<and> (msg = SELNL_MSG_POLICYLOAD n \<longrightarrow> coherent compute (fst (avc_netlink_process f g c msg)))"
  proof (cases msg)
    case (SELNL_MSG_SETENFORCE val)
    let ?c = "c\<lparr>avc_enforcing := val\<rparr>"
    have ok: "avc_ok ?c" using assms by (simp add: avc_ok_def)
    have "settles compute c ?c" if "val = 0" using that ok by (simp add: settles_def coherent_def)
    moreover have "settles compute c (fst (avc_ss_reset ?c 0))"
      using ss_reset_settles [OF ok, of compute 0] unfolding settles_def by simp
    ultimately show ?thesis using refl unfolding SELNL_MSG_SETENFORCE avc_netlink_process_def
      by (auto simp: Let_def split: prod.splits if_splits)
  next
    case (SELNL_MSG_POLICYLOAD m)
    then show ?thesis using ss_reset_settles [OF assms, of compute m]
      by (auto simp: avc_netlink_process_def Let_def split: prod.splits)
  qed (use refl in \<open>simp_all add: avc_netlink_process_def\<close>)
  then show "settles compute c (fst (avc_netlink_process f g c msg))"
    "msg = SELNL_MSG_POLICYLOAD n \<Longrightarrow> coherent compute (fst (avc_netlink_process f g c msg))" by blast+
qed

lemma netlink_check_settles:
  assumes "avc_ok c"
  shows "settles compute c (avc_netlink_check_nb f g c msgs)
    \<and> (SELNL_MSG_POLICYLOAD n \<in> set msgs \<longrightarrow> coherent compute (avc_netlink_check_nb f g c msgs))"
  using assms
proof (induction msgs arbitrary: c)
  case (Cons msg msgs)
  let ?c = "fst (avc_netlink_process f g c msg)"
  note 1 = netlink_process_settles [OF Cons.prems, where compute = compute and f = f and g = g and msg = msg]
  then have "avc_ok ?c" by (simp add: settles_def)
  from Cons.IH [OF this] 1 show ?case by (auto simp: avc_netlink_check_nb_def settles_def)
qed (simp add: avc_netlink_check_nb_def settles_def)

lemma netlink_loop_settles: "avc_ok c \<Longrightarrow> settles compute c (avc_netlink_loop f g c msgs)"
proof (induction msgs arbitrary: c)
  case (Cons msg msgs)
  obtain c' rc where p: "avc_netlink_process f g c msg = (c', rc)" by fastforce
  have 1: "settles compute c c'" using netlink_process_settles(1) [OF Cons.prems, of compute f g msg] p by simp
  then have 2: "settles compute c' (avc_netlink_loop f g c' msgs)" by (intro Cons.IH) (simp add: settles_def)
  show ?case using 1 2 p by (auto simp: settles_def)
qed (simp add: settles_def)

section \<open>Checks\<close>

lemma entry_ref_hit_spec:
  assumes "cache_ok c" "ssid \<noteq> 0" "\<forall>x. aeref = Some x \<longrightarrow> x < length (avc_nodes c)"
  shows "\<exists>hit. entry_ref_hit c aeref ssid tsid tclass requested = Inr hit
    \<and> (hit \<longrightarrow> (\<exists>x. aeref = Some x \<and> in_cache c x \<and> entry_for ssid tsid tclass (avc_nodes c ! x)))"
proof (cases aeref)
  case (Some x)
  then have x: "x < length (avc_nodes c)" using assms(3) by simp
  have "in_cache c x" if "entry_for ssid tsid tclass (avc_nodes c ! x)"
    using x that assms(1,2) by (auto simp: cache_ok_def entry_for_def)
  then show ?thesis using Some x by (simp add: entry_ref_hit_def)
qed (auto simp: entry_ref_hit_def intro: exI [of _ False])

text \<open>The entry that a check uses.\<close>

lemma avc_find_entry_spec:
  assumes ok: "cache_ok (avc_cache c)" and ssid: "ssid \<noteq> 0" and aeref: "\<forall>x. aeref = Some x \<longrightarrow> x < length (avc_nodes (avc_cache c))"
    and ctx: "sid_ctx (avc_sidtab c) ssid = Some s" "sid_ctx (avc_sidtab c) tsid = Some t" and kernel: "kernel_av compute"
  shows "\<exists>c' r. avc_find_entry compute c ssid tsid tclass requested aeref = Inr (c', r) \<and> (case r of
      Inl e \<Rightarrow> follows (avc_cache c) {} c' \<and> (compute s t tclass requested = Inl e \<or> (\<exists>d. compute s t tclass requested = Inr d
        \<and> (e = EAGAIN \<and> seqno d < latest_notif c' \<or> e = ENOMEM \<and> avc_nodes c' = [])))
    | Inr None \<Rightarrow> follows (avc_cache c) {} c' \<and> avc_enforcing c = 0 \<and> compute s t tclass requested = Inl EINVAL
    | Inr (Some x) \<Rightarrow> in_cache c' x \<and> entry_for ssid tsid tclass (avc_nodes c' ! x) \<and> (follows (avc_cache c) {} c'
        \<or> follows (avc_cache c) {x} c' \<and> compute s t tclass requested = Inr (ae_avd (avc_nodes c' ! x))))"
proof -
  from entry_ref_hit_spec [OF ok ssid aeref] obtain hit where hit: "entry_ref_hit (avc_cache c) aeref ssid tsid tclass requested = Inr hit"
    "hit \<longrightarrow> (\<exists>x. aeref = Some x \<and> in_cache (avc_cache c) x \<and> entry_for ssid tsid tclass (avc_nodes (avc_cache c) ! x))" by blast
  show ?thesis
  proof (cases hit)
    case True
    then obtain x where x: "aeref = Some x" "in_cache (avc_cache c) x" "entry_for ssid tsid tclass (avc_nodes (avc_cache c) ! x)" using hit(2) by blast
    from mark_follows [OF ok in_cache_less [OF ok x(2)]] obtain c' where c': "set_entry x (\<lambda>ae. ae\<lparr>ae_used := True\<rparr>) (avc_cache c) = Inr c'"
      "follows (avc_cache c) {} c'" "avc_nodes c' ! x = (avc_nodes (avc_cache c) ! x)\<lparr>ae_used := True\<rparr>" "in_cache c' x" using x(2) by blast
    have "avc_find_entry compute c ssid tsid tclass requested aeref = Inr (c', Inr (Some x))"
      using hit(1) True c'(1) x(1) by (simp add: avc_find_entry_def)
    moreover have "entry_for ssid tsid tclass (avc_nodes c' ! x)" using c'(3) x(3) by (simp add: entry_for_def)
    ultimately show ?thesis using c'(2,4) by (intro exI [of _ c'] exI [of _ "Inr (Some x)"]) simp
  next
    case False
    from avc_lookup_spec [OF ok] obtain c1 r where r: "avc_lookup (avc_cache c) ssid tsid tclass requested = Inr (c1, r)" "follows (avc_cache c) {} c1"
      "\<forall>x. r = Some x \<longrightarrow> in_cache c1 x \<and> entry_for ssid tsid tclass (avc_nodes c1 ! x) \<and> decided (ae_avd (avc_nodes c1 ! x)) AND requested = requested" by blast
    have ok1: "cache_ok c1" using r(2) by (simp add: follows_def)
    have ctxs: "ctx_of c ssid = Inr s" "ctx_of c tsid = Inr t" using ctx by (simp_all add: ctx_of_def)
    note run = avc_find_entry_def [of compute c ssid tsid tclass requested aeref]
    consider x where "r = Some x" | e where "r = None" "compute s t tclass requested = Inl e" | d where "r = None" "compute s t tclass requested = Inr d"
      by (cases r; cases "compute s t tclass requested") auto
    then show ?thesis
    proof cases
      case 1
      then have "avc_find_entry compute c ssid tsid tclass requested aeref = Inr (c1, Inr (Some x))" using hit(1) False r(1) by (simp add: run)
      then show ?thesis using r(2,3) 1 by simp
    next
      case 2
      have "err_code e" using kernel 2(2) by (simp add: kernel_av_def)
      then have "avc_find_entry compute c ssid tsid tclass requested aeref = Inr (c1, if e = EINVAL \<and> avc_enforcing c = 0 then Inr None else Inl e)"
        using hit(1) False r(1) ctxs 2 by (simp add: run)
      then show ?thesis using r(2) 2(2) by simp
    next
      case 3
      from avc_insert_spec [OF ok1] obtain c2 r' where r': "avc_insert c1 ssid tsid tclass d = Inr (c2, r')" "case r' of
          Inl e \<Rightarrow> follows c1 {} c2 \<and> (e = EAGAIN \<and> seqno d < latest_notif c1 \<or> e = ENOMEM \<and> avc_nodes c1 = [])
        | Inr x \<Rightarrow> follows c1 {x} c2 \<and> in_cache c2 x \<and> avc_nodes c2 ! x = (new_entry ssid tsid tclass)\<lparr>ae_avd := d\<rparr> \<and> latest_notif c1 \<le> seqno d" by blast
      have res: "avc_find_entry compute c ssid tsid tclass requested aeref = Inr (c2, case r' of Inl e \<Rightarrow> Inl e | Inr x \<Rightarrow> Inr (Some x))"
        using hit(1) False r(1) ctxs 3 r'(1) by (simp add: run)
      show ?thesis
      proof (cases r')
        case (Inl e)
        then have "follows c1 {} c2" "latest_notif c2 = latest_notif c1" "length (avc_nodes c2) = length (avc_nodes c1)" using r'(2) by (simp_all add: follows_def)
        then show ?thesis using res r'(2) 3(2) Inl follows_trans [OF r(2)] by force
      next
        case (Inr x)
        then have "entry_for ssid tsid tclass (avc_nodes c2 ! x)" using r'(2) by (simp add: entry_for_def new_entry_def)
        then show ?thesis using res r'(2) 3(2) Inr follows_trans [OF r(2), of "{x}"] by simp
      qed
    qed
  qed
qed

text \<open>The decision on an entry.\<close>

lemma avc_decide_spec:
  assumes "cache_ok cache" "in_cache cache x"
  shows "\<exists>cache' rc. avc_decide c x requested cache = Inr (cache', ae_avd (avc_nodes cache ! x), rc) \<and> follows cache {x} cache'
    \<and> rc = (if avc_enforcing c = 0 \<or> permitted (ae_avd (avc_nodes cache ! x)) requested then Inr () else Inl EACCES)
    \<and> (\<exists>w. avc_nodes cache' ! x = (avc_nodes cache ! x)\<lparr>ae_avd := (ae_avd (avc_nodes cache ! x))\<lparr>allowed := w\<rparr>\<rparr>
         \<and> (w = allowed (ae_avd (avc_nodes cache ! x)) \<or> avc_enforcing c = 0 \<or> avd_flags (ae_avd (avc_nodes cache ! x)) AND SELINUX_AVD_FLAGS_PERMISSIVE \<noteq> 0))"
proof -
  let ?ae = "avc_nodes cache ! x" let ?d = "ae_avd ?ae"
  have x: "x < length (avc_nodes cache)" by (rule in_cache_less [OF assms])
  let ?p = "requested = 0 \<or> requested AND NOT (allowed ?d) \<noteq> 0" let ?q = "avc_enforcing c = 0 \<or> avd_flags ?d AND SELINUX_AVD_FLAGS_PERMISSIVE \<noteq> 0"
  show ?thesis
  proof (cases "?p \<and> ?q")
    case True
    let ?f = "\<lambda>ae. ae\<lparr>ae_avd := (ae_avd ae)\<lparr>allowed := allowed (ae_avd ae) OR requested\<rparr>\<rparr>"
    have "keeps_key ?f" by (simp add: keeps_key_def)
    from set_entry_follows [OF assms(1) this x] obtain c' where c': "set_entry x ?f cache = Inr c'" "follows cache {x} c'" "avc_nodes c' ! x = ?f ?ae" by blast
    have "avc_decide c x requested cache = Inr (c', ?d, Inr ())"
      using c'(1) x True unfolding avc_decide_def set_entry_def by simp
    moreover have "avc_enforcing c = 0 \<or> permitted ?d requested" using True by (auto simp: permitted_def)
    ultimately show ?thesis using c'(2,3) True by (intro exI [of _ c'] exI [of _ "Inr ()"]) auto
  next
    case False
    have "avc_decide c x requested cache = Inr (cache, ?d, if avc_enforcing c = 0 \<or> permitted ?d requested then Inr () else Inl EACCES)"
      using x False by (auto simp: avc_decide_def permitted_def)
    moreover have "?ae = ?ae\<lparr>ae_avd := ?d\<lparr>allowed := allowed ?d\<rparr>\<rparr>" by simp
    ultimately show ?thesis using follows_refl [OF assms(1)] by blast
  qed
qed

lemma entry_sound_decide:
  assumes "entry_sound compute sids ae" "avd_flags (ae_avd ae) AND SELINUX_AVD_FLAGS_PERMISSIVE \<noteq> 0 \<or> w = allowed (ae_avd ae)"
  shows "entry_sound compute sids (ae\<lparr>ae_avd := (ae_avd ae)\<lparr>allowed := w\<rparr>\<rparr>)"
  using assms by (auto simp: entry_sound_def decides_as_def)

lemma entry_sound_answer:
  assumes "entry_sound compute sids ae" "entry_for ssid tsid tclass ae" "sid_ctx sids ssid = Some s" "sid_ctx sids tsid = Some t" "kernel_av compute"
  shows "(if permitted (ae_avd ae) requested then Inr () else Inl EACCES) = kernel_answer compute s t tclass requested"
proof -
  from assms obtain d where d: "compute s t tclass 0 = Inr d" "decides_as (ae_avd ae) d" by (auto simp: entry_sound_def entry_for_def)
  have "compute s t tclass requested = Inr d" using kernel_av_same [OF assms(5), of s t tclass requested 0] d(1) by simp
  then show ?thesis using decides_as_permitted [OF d(2)] by (simp add: kernel_answer_def)
qed

text \<open>The entry that a check uses is sound if the cache was, also when it is new.\<close>

lemma found_entry_sound:
  assumes "all_entries (entry_sound compute sids) c" "in_cache c' x" "entry_for ssid tsid tclass (avc_nodes c' ! x)"
    "follows c {} c' \<or> follows c {x} c' \<and> compute s t tclass requested = Inr (ae_avd (avc_nodes c' ! x))"
    "sid_ctx sids ssid = Some s" "sid_ctx sids tsid = Some t" "kernel_av compute"
  shows "all_entries (entry_sound compute sids) c'"
  using assms(4)
proof
  assume "follows c {} c'"
  then show ?thesis by (rule follows_sound [OF _ assms(1)]) simp
next
  assume f: "follows c {x} c' \<and> compute s t tclass requested = Inr (ae_avd (avc_nodes c' ! x))"
  then have "compute s t tclass 0 = Inr (ae_avd (avc_nodes c' ! x))" using kernel_av_same [OF assms(7), of s t tclass 0 requested] by simp
  then have "entry_sound compute sids (avc_nodes c' ! x)" using assms(3,5,6) by (simp add: entry_sound_def entry_for_def decides_as_def)
  then show ?thesis using f by (intro follows_sound [OF _ assms(1)]) auto
qed

text \<open>A check after the messages have been read.\<close>

lemma avc_check_spec:
  assumes ok: "cache_ok (avc_cache c)" and ssid: "ssid \<noteq> 0" and aeref: "\<forall>x. aeref = Some x \<longrightarrow> x < length (avc_nodes (avc_cache c))"
    and ctx: "sid_ctx (avc_sidtab c) ssid = Some s" "sid_ctx (avc_sidtab c) tsid = Some t" and kernel: "kernel_av compute"
  shows "\<exists>cache rc r. avc_find_entry compute c ssid tsid tclass requested aeref = Inr (cache, r)
    \<and> (case r of Inr (Some x) \<Rightarrow> x < length (avc_nodes (avc_cache c)) \<and> (\<exists>cache'. avc_decide c x requested cache = Inr (cache', ae_avd (avc_nodes cache ! x), rc)
          \<and> follows (avc_cache c) {x} cache' \<and> (coherent compute c \<longrightarrow> coherent compute (c\<lparr>avc_cache := cache'\<rparr>)))
        | _ \<Rightarrow> rc = map_sum id (\<lambda>_. ()) r \<and> follows (avc_cache c) {} cache \<and> (coherent compute c \<longrightarrow> coherent compute (c\<lparr>avc_cache := cache\<rparr>)))
    \<and> (coherent compute c \<longrightarrow> check_answer compute (avc_enforcing c) (avc_cache c) s t tclass requested rc)"
proof -
  let ?sound = "entry_sound compute (avc_sidtab c)"
  from avc_find_entry_spec [OF ok ssid aeref ctx kernel] obtain cache r where r: "avc_find_entry compute c ssid tsid tclass requested aeref = Inr (cache, r)"
    "case r of
      Inl e \<Rightarrow> follows (avc_cache c) {} cache \<and> (compute s t tclass requested = Inl e \<or> (\<exists>d. compute s t tclass requested = Inr d
        \<and> (e = EAGAIN \<and> seqno d < latest_notif cache \<or> e = ENOMEM \<and> avc_nodes cache = [])))
    | Inr None \<Rightarrow> follows (avc_cache c) {} cache \<and> avc_enforcing c = 0 \<and> compute s t tclass requested = Inl EINVAL
    | Inr (Some x) \<Rightarrow> in_cache cache x \<and> entry_for ssid tsid tclass (avc_nodes cache ! x) \<and> (follows (avc_cache c) {} cache
        \<or> follows (avc_cache c) {x} cache \<and> compute s t tclass requested = Inr (ae_avd (avc_nodes cache ! x)))" by blast
  have same: "(coherent compute c \<longrightarrow> coherent compute (c\<lparr>avc_cache := cache\<rparr>)) \<and> latest_notif cache = latest_notif (avc_cache c)
      \<and> length (avc_nodes cache) = length (avc_nodes (avc_cache c))" if "follows (avc_cache c) {} cache"
    using follows_sound [OF that] that by (simp add: coherent_def follows_def)
  consider e where "r = Inl e" | "r = Inr None" | x where "r = Inr (Some x)" by (metis option.exhaust sum.exhaust)
  then show ?thesis
  proof cases
    case 1
    then show ?thesis using r same by (intro exI [of _ cache] exI [of _ "Inl e"] exI [of _ r]) (auto simp: check_answer_def kernel_answer_def)
  next
    case 2
    then show ?thesis using r same by (intro exI [of _ cache] exI [of _ "Inr ()"] exI [of _ r]) (auto simp: check_answer_def)
  next
    case 3
    let ?ae = "avc_nodes cache ! x"
    from r(2) 3 have x: "in_cache cache x" "entry_for ssid tsid tclass ?ae" "follows (avc_cache c) {} cache
        \<or> follows (avc_cache c) {x} cache \<and> compute s t tclass requested = Inr (ae_avd ?ae)" by simp_all
    then have okc: "cache_ok cache" "length (avc_nodes cache) = length (avc_nodes (avc_cache c))" by (auto simp: follows_def)
    have lx: "x < length (avc_nodes (avc_cache c))" using in_cache_less [OF okc(1) x(1)] okc(2) by simp
    from avc_decide_spec [OF okc(1) x(1), of c requested] obtain cache' rc w where dec: "avc_decide c x requested cache = Inr (cache', ae_avd ?ae, rc)" "follows cache {x} cache'"
      "rc = (if avc_enforcing c = 0 \<or> permitted (ae_avd ?ae) requested then Inr () else Inl EACCES)"
      "avc_nodes cache' ! x = ?ae\<lparr>ae_avd := (ae_avd ?ae)\<lparr>allowed := w\<rparr>\<rparr>"
      "w = allowed (ae_avd ?ae) \<or> avc_enforcing c = 0 \<or> avd_flags (ae_avd ?ae) AND SELINUX_AVD_FLAGS_PERMISSIVE \<noteq> 0" by blast
    have f: "follows (avc_cache c) {x} cache'" using x(3) follows_trans [OF _ dec(2)] by fastforce
    have enf: "all_entries ?sound cache" "?sound ?ae" if "coherent compute c" "avc_enforcing c \<noteq> 0"
    proof -
      show "all_entries ?sound cache" using found_entry_sound [OF _ x ctx kernel] that by (simp add: coherent_def)
      then show "?sound ?ae" using x(1) by (simp add: all_entries_def)
    qed
    have "coherent compute c \<longrightarrow> coherent compute (c\<lparr>avc_cache := cache'\<rparr>)"
      using follows_sound [OF dec(2) enf(1)] entry_sound_decide [OF enf(2)] dec(4,5) by (auto simp: coherent_def)
    moreover have "coherent compute c \<longrightarrow> rc = (if avc_enforcing c \<noteq> 0 then kernel_answer compute s t tclass requested else Inr ())"
      using dec(3) entry_sound_answer [OF enf(2) x(2) ctx kernel, of requested] by simp
    ultimately show ?thesis using r(1) 3 dec(1) f lx by (intro exI [of _ cache] exI [of _ rc] exI [of _ r]) (simp add: check_answer_def)
  qed
qed

lemma avc_has_perm_noaudit_spec:
  assumes "avc_ok c" "kernel_av compute" "sid_ctx (avc_sidtab c) ssid = Some s" "sid_ctx (avc_sidtab c) tsid = Some t" "ssid \<noteq> 0"
    "\<forall>x. aeref = Some x \<longrightarrow> x < length (avc_nodes (avc_cache c))"
  shows "\<exists>c' aeref' d' rc. avc_has_perm_noaudit compute f g msgs c ssid tsid tclass requested aeref d = Inr (c', aeref', d', rc)
    \<and> avc_ok c' \<and> avc_sidtab c' = avc_sidtab c \<and> (\<forall>x. aeref' = Some x \<longrightarrow> x < length (avc_nodes (avc_cache c')))
    \<and> length (avc_nodes (avc_cache c')) = length (avc_nodes (avc_cache c)) \<and> latest_notif (avc_cache c) \<le> latest_notif (avc_cache c')
    \<and> (coherent compute c \<or> policy_announced msgs c \<longrightarrow>
         coherent compute c' \<and> check_answer compute (avc_enforcing c') (avc_cache c') s t tclass requested rc)"
proof -
  define c1 where "c1 = (if avc_using_threads c \<or> avc_app_main_loop c then c else avc_netlink_check_nb f g c msgs)"
  have "settles compute c c" using assms(1) by (simp add: settles_def)
  then have "settles compute c c1" and coh: "coherent compute c \<or> policy_announced msgs c \<longrightarrow> coherent compute c1"
    using netlink_check_settles [OF assms(1), of compute f g msgs] unfolding c1_def policy_announced_def settles_def by auto
  then have c1: "cache_ok (avc_cache c1)" "avc_running c1" "avc_sidtab c1 = avc_sidtab c" "length (avc_nodes (avc_cache c1)) = length (avc_nodes (avc_cache c))"
    "latest_notif (avc_cache c) \<le> latest_notif (avc_cache c1)"
    by (simp_all add: settles_def avc_ok_def)
  have ar: "\<forall>x. aeref = Some x \<longrightarrow> x < length (avc_nodes (avc_cache c1))" and ctx: "sid_ctx (avc_sidtab c1) ssid = Some s" "sid_ctx (avc_sidtab c1) tsid = Some t"
    using assms(3,4,6) c1(3,4) by simp_all
  from avc_check_spec [OF c1(1) assms(5) ar ctx assms(2), of tclass requested] obtain cache rc r where r: "avc_find_entry compute c1 ssid tsid tclass requested aeref = Inr (cache, r)"
    "case r of Inr (Some x) \<Rightarrow> x < length (avc_nodes (avc_cache c1)) \<and> (\<exists>cache'. avc_decide c1 x requested cache = Inr (cache', ae_avd (avc_nodes cache ! x), rc)
          \<and> follows (avc_cache c1) {x} cache' \<and> (coherent compute c1 \<longrightarrow> coherent compute (c1\<lparr>avc_cache := cache'\<rparr>)))
        | _ \<Rightarrow> rc = map_sum id (\<lambda>_. ()) r \<and> follows (avc_cache c1) {} cache \<and> (coherent compute c1 \<longrightarrow> coherent compute (c1\<lparr>avc_cache := cache\<rparr>))"
    "coherent compute c1 \<longrightarrow> check_answer compute (avc_enforcing c1) (avc_cache c1) s t tclass requested rc" by blast
  note run = avc_has_perm_noaudit_def [of compute f g msgs c ssid tsid tclass requested aeref d, folded c1_def]
  have finish: ?thesis if run': "avc_has_perm_noaudit compute f g msgs c ssid tsid tclass requested aeref d = Inr (c1\<lparr>avc_cache := k\<rparr>, aeref', d', rc)"
    and f: "follows (avc_cache c1) X k" and k: "coherent compute c1 \<longrightarrow> coherent compute (c1\<lparr>avc_cache := k\<rparr>)"
    and a: "\<forall>x. aeref' = Some x \<longrightarrow> x < length (avc_nodes (avc_cache c1))" for aeref' d' X k
  proof -
    from f have "cache_ok k" "latest_notif k = latest_notif (avc_cache c1)" "length (avc_nodes k) = length (avc_nodes (avc_cache c1))"
      by (simp_all add: follows_def)
    moreover from this have "avc_nodes k = [] \<longleftrightarrow> avc_nodes (avc_cache c1) = []" by (metis length_0_conv)
    ultimately have "avc_ok (c1\<lparr>avc_cache := k\<rparr>)" "coherent compute c1 \<longrightarrow> check_answer compute (avc_enforcing c1) k s t tclass requested rc"
      using r(3) c1(2) by (simp_all add: avc_ok_def check_answer_def)
    then show ?thesis using run' a k c1(3-5) coh f by (intro exI [of _ "c1\<lparr>avc_cache := k\<rparr>"] exI [of _ aeref'] exI [of _ d'] exI [of _ rc]) (simp add: follows_def)
  qed
  consider e where "r = Inl e" | "r = Inr None" | x where "r = Inr (Some x)" by (metis option.exhaust sum.exhaust)
  then show ?thesis
  proof cases
    case 1
    then show ?thesis using r(2) ar by (intro finish [of cache aeref _ "{}"]) (simp_all add: run r(1))
  next
    case 2
    then show ?thesis using r(2) ar by (intro finish [of cache aeref _ "{}"]) (simp_all add: run r(1))
  next
    case 3
    then obtain cache' where d: "x < length (avc_nodes (avc_cache c1))" "avc_decide c1 x requested cache = Inr (cache', ae_avd (avc_nodes cache ! x), rc)"
      "follows (avc_cache c1) {x} cache'" "coherent compute c1 \<longrightarrow> coherent compute (c1\<lparr>avc_cache := cache'\<rparr>)" using r(2) by auto
    show ?thesis
    proof (rule finish [OF _ d(3,4)])
      show "avc_has_perm_noaudit compute f g msgs c ssid tsid tclass requested aeref d = Inr (c1\<lparr>avc_cache := cache'\<rparr>, Some x, ae_avd (avc_nodes cache ! x), rc)"
        using 3 d(2) by (simp add: run r(1))
    qed (use d(1) in simp)
  qed
qed

section \<open>Revocation\<close>

lemma avc_update_node_key: "keeps_key (avc_update_node event perms)"
  by (simp add: keeps_key_def avc_update_node_def Let_def)

text \<open>The entries that an event is about.\<close>

definition concerns :: "security_id \<Rightarrow> security_id \<Rightarrow> u16 \<Rightarrow> avc_entry \<Rightarrow> bool" where
  "concerns ssid tsid tclass ae \<longleftrightarrow> avc_sidcmp ssid (ae_ssid ae) \<and> avc_sidcmp tsid (ae_tsid ae) \<and> tclass = ae_tclass ae"

lemma concerns_update [simp]: "concerns ssid tsid tclass (avc_update_node event perms ae) = concerns ssid tsid tclass ae"
  using avc_update_node_key [of event perms] by (simp add: keeps_key_def concerns_def)

lemma update_matching_fold:
  assumes "cache_ok c" "set xs \<subseteq> {..<length (avc_nodes c)}" "distinct xs"
  shows "\<exists>c'. foldR (update_matching event ssid tsid tclass perms) xs c = Inr c' \<and> cache_ok c'
    \<and> (\<exists>ns. c' = c\<lparr>avc_nodes := ns\<rparr> \<and> length ns = length (avc_nodes c))
    \<and> (\<forall>x < length (avc_nodes c). avc_nodes c' ! x =
         (if x \<in> set xs \<and> concerns ssid tsid tclass (avc_nodes c ! x) then avc_update_node event perms (avc_nodes c ! x) else avc_nodes c ! x))"
  using assms
proof (induction xs arbitrary: c)
  case Nil
  then show ?case by (intro exI [of _ c]) (simp, intro exI [of _ "avc_nodes c"], simp)
next
  case (Cons x xs)
  let ?u = "avc_update_node event perms"
  have x: "x < length (avc_nodes c)" using Cons.prems(2) by simp
  from set_entry_ok [OF Cons.prems(1) avc_update_node_key x] have
    s: "set_entry x ?u c = Inr (c\<lparr>avc_nodes := (avc_nodes c)[x := ?u (avc_nodes c ! x)]\<rparr>)" "cache_ok (c\<lparr>avc_nodes := (avc_nodes c)[x := ?u (avc_nodes c ! x)]\<rparr>)" by blast+
  define c1 where "c1 = (if concerns ssid tsid tclass (avc_nodes c ! x) then c\<lparr>avc_nodes := (avc_nodes c)[x := ?u (avc_nodes c ! x)]\<rparr> else c)"
  have step: "update_matching event ssid tsid tclass perms x c = Inr c1" using x s(1) by (simp add: update_matching_def c1_def concerns_def)
  have ok: "cache_ok c1" using s(2) Cons.prems(1) by (simp add: c1_def)
  have len: "length (avc_nodes c1) = length (avc_nodes c)" by (simp add: c1_def)
  have nth: "avc_nodes c1 ! y = (if y = x \<and> concerns ssid tsid tclass (avc_nodes c ! x) then ?u (avc_nodes c ! x) else avc_nodes c ! y)" for y
    using x by (simp add: c1_def nth_list_update)
  have c1: "\<exists>ns. c1 = c\<lparr>avc_nodes := ns\<rparr>" using c1_def by (cases "concerns ssid tsid tclass (avc_nodes c ! x)") (auto intro: exI [of _ "avc_nodes c"])
  have "set xs \<subseteq> {..<length (avc_nodes c1)}" "distinct xs" "x \<notin> set xs" using Cons.prems(2,3) len by simp_all
  from Cons.IH [OF ok this(1,2)] obtain c' where c': "foldR (update_matching event ssid tsid tclass perms) xs c1 = Inr c'" "cache_ok c'"
    "\<exists>ns. c' = c1\<lparr>avc_nodes := ns\<rparr> \<and> length ns = length (avc_nodes c1)" "\<forall>y < length (avc_nodes c1). avc_nodes c' ! y =
         (if y \<in> set xs \<and> concerns ssid tsid tclass (avc_nodes c1 ! y) then ?u (avc_nodes c1 ! y) else avc_nodes c1 ! y)" by blast
  have "\<forall>y < length (avc_nodes c). avc_nodes c' ! y =
         (if y \<in> set (x # xs) \<and> concerns ssid tsid tclass (avc_nodes c ! y) then ?u (avc_nodes c ! y) else avc_nodes c ! y)"
    using c'(4) len nth \<open>x \<notin> set xs\<close> by auto
  moreover have "\<exists>ns. c' = c\<lparr>avc_nodes := ns\<rparr> \<and> length ns = length (avc_nodes c)" using c'(3) c1 len by auto
  ultimately show ?case using step c'(1,2) by (intro exI [of _ c']) simp
qed

lemma avc_update_cache_spec:
  assumes "cache_ok c"
  shows "\<exists>c'. avc_update_cache event ssid tsid tclass perms c = Inr c' \<and> cache_ok c' \<and> length (avc_nodes c') = length (avc_nodes c)
    \<and> latest_notif c' = latest_notif c
    \<and> (ssid = SECSID_WILD \<or> tsid = SECSID_WILD \<longrightarrow> (\<forall>x. in_cache c' x = in_cache c x) \<and> (\<forall>x. in_cache c x \<longrightarrow> avc_nodes c' ! x =
         (if concerns ssid tsid tclass (avc_nodes c ! x) then avc_update_node event perms (avc_nodes c ! x) else avc_nodes c ! x)))"
proof (cases "ssid = SECSID_WILD \<or> tsid = SECSID_WILD")
  case True
  note cd = cached_distinct [OF assms]
  have "set (concat (slots c)) \<subseteq> {..<length (avc_nodes c)}" unfolding cd(2) using in_cache_less [OF assms] by blast
  from update_matching_fold [OF assms this cd(1), of event ssid tsid tclass perms] obtain c' ns where
    c': "foldR (update_matching event ssid tsid tclass perms) (concat (slots c)) c = Inr c'" "cache_ok c'"
    "c' = c\<lparr>avc_nodes := ns\<rparr>" "length ns = length (avc_nodes c)" "\<forall>x < length (avc_nodes c). avc_nodes c' ! x =
         (if x \<in> set (concat (slots c)) \<and> concerns ssid tsid tclass (avc_nodes c ! x) then avc_update_node event perms (avc_nodes c ! x) else avc_nodes c ! x)" by blast
  have "in_cache c' x = in_cache c x" for x using c'(3) by (simp add: in_cache_def)
  moreover have "avc_update_cache event ssid tsid tclass perms c = Inr c'" using True c'(1) by (simp add: avc_update_cache_def)
  ultimately show ?thesis using c'(2-5) in_cache_less [OF assms] unfolding cd(2) by (intro exI [of _ c']) simp
next
  case False
  from avc_search_node_spec [OF assms] obtain c1 r where r: "avc_search_node c ssid tsid tclass = Inr (c1, r)" "follows c {} c1"
    "case r of None \<Rightarrow> c1 = c \<and> (\<forall>x. in_cache c x \<longrightarrow> \<not> entry_for ssid tsid tclass (avc_nodes c ! x))
    | Some x \<Rightarrow> in_cache c1 x \<and> in_cache c x \<and> entry_for ssid tsid tclass (avc_nodes c1 ! x)" by blast
  then have ok: "cache_ok c1" "length (avc_nodes c1) = length (avc_nodes c)" "latest_notif c1 = latest_notif c" by (simp_all add: follows_def)
  show ?thesis
  proof (cases r)
    case None
    then show ?thesis using False r(1) ok by (simp add: avc_update_cache_def)
  next
    case (Some x)
    then have "x < length (avc_nodes c1)" using r(3) in_cache_less [OF ok(1)] by simp
    from set_entry_ok [OF ok(1) avc_update_node_key this] show ?thesis using False r(1) ok Some by (auto simp: avc_update_cache_def)
  qed
qed

lemma avc_control_spec:
  assumes "avc_ok c"
  shows "\<exists>c' rc retained. avc_control c event ssid tsid tclass perms n = Inr (c', rc, retained) \<and> avc_ok c' \<and> avc_sidtab c' = avc_sidtab c
    \<and> latest_notif (avc_cache c) \<le> latest_notif (avc_cache c')
    \<and> ((ssid = SECSID_WILD \<or> tsid = SECSID_WILD) \<and> event \<noteq> AVC_CALLBACK_TRY_REVOKE \<longrightarrow> (\<forall>x. in_cache (avc_cache c') x = in_cache (avc_cache c) x)
       \<and> (\<forall>x. in_cache (avc_cache c) x \<longrightarrow> avc_nodes (avc_cache c') ! x = (if concerns ssid tsid tclass (avc_nodes (avc_cache c) ! x)
            then avc_update_node event perms (avc_nodes (avc_cache c) ! x) else avc_nodes (avc_cache c) ! x)))"
proof -
  obtain rc retained where cb: "control_callbacks (avc_callbacks c) event ssid tsid tclass perms = (rc, retained)" by fastforce
  define p where "p = (if event = AVC_CALLBACK_TRY_REVOKE then perms AND NOT retained else perms)"
  from assms have "cache_ok (avc_cache c)" "avc_running c" by (simp_all add: avc_ok_def)
  from avc_update_cache_spec [OF this(1), of event ssid tsid tclass p] this(2) obtain k where
    k: "avc_update_cache event ssid tsid tclass p (avc_cache c) = Inr k" "cache_ok k" "latest_notif k = latest_notif (avc_cache c)"
    "ssid = SECSID_WILD \<or> tsid = SECSID_WILD \<longrightarrow> (\<forall>x. in_cache k x = in_cache (avc_cache c) x) \<and> (\<forall>x. in_cache (avc_cache c) x \<longrightarrow> avc_nodes k ! x =
         (if concerns ssid tsid tclass (avc_nodes (avc_cache c) ! x) then avc_update_node event p (avc_nodes (avc_cache c) ! x) else avc_nodes (avc_cache c) ! x))"
    and run: "avc_running c" by blast
  let ?c = "notify n (c\<lparr>avc_cache := k\<rparr>)"
  have "avc_control c event ssid tsid tclass perms n = Inr (?c, rc, retained)"
    using k(1) cb unfolding avc_control_def p_def by (cases "event = AVC_CALLBACK_TRY_REVOKE") simp_all
  moreover have "avc_ok ?c" "avc_sidtab ?c = avc_sidtab c" "latest_notif (avc_cache c) \<le> latest_notif (avc_cache ?c)"
    "in_cache (avc_cache ?c) x = in_cache k x" "avc_nodes (avc_cache ?c) = avc_nodes k" for x
    using k(2,3) run by (auto simp: notify_def avc_ok_def not_less)
  moreover have "(\<forall>x. in_cache k x = in_cache (avc_cache c) x)
       \<and> (\<forall>x. in_cache (avc_cache c) x \<longrightarrow> avc_nodes k ! x = (if concerns ssid tsid tclass (avc_nodes (avc_cache c) ! x)
            then avc_update_node event perms (avc_nodes (avc_cache c) ! x) else avc_nodes (avc_cache c) ! x))"
    if wild: "(ssid = SECSID_WILD \<or> tsid = SECSID_WILD) \<and> event \<noteq> AVC_CALLBACK_TRY_REVOKE"
  proof -
    have "p = perms" using wild by (simp add: p_def)
    with k(4) wild show ?thesis by blast
  qed
  ultimately show ?thesis by (intro exI [of _ ?c] exI [of _ rc] exI [of _ retained]) simp
qed

section \<open>Reachable caches\<close>

lemma sid_nonnull:
  assumes "usidtab_ok sc addr s" "addr_ok addr (2 ^ 32 - 1)" "sid_ctx s sid = Some ctx"
  shows "sid \<noteq> 0"
proof -
  from assms(1) obtain t where t: "length (concat t) < 2 ^ 32" "fst ` set (concat t) \<subseteq> addr ` {..<length (concat t)}"
    "\<And>sid ctx. sid_ctx s sid = Some ctx \<longleftrightarrow> (sid, ctx) \<in> set (concat t)" by (rule usidtab_okE) blast
  have "(sid, ctx) \<in> set (concat t)" using assms(3) t(3) by blast
  then have "sid \<in> fst ` set (concat t)" by (intro image_eqI [of _ _ "(sid, ctx)"]) simp_all
  then obtain i where "i < length (concat t)" "sid = addr i" using t(2) by blast
  with t(1) assms(2) show ?thesis by (simp add: addr_ok_def)
qed

lemma intern_ok:
  assumes "usidtab_ok sc addr s" "addr_ok addr (2 ^ 32 - 1)" "us_nel s \<noteq> -1" "sidtab_context_to_sid sc addr s ctx a = (Inr (s', sid), b)"
  shows "usidtab_ok sc addr s' \<and> sid_ctx s' sid = Some ctx \<and> (\<forall>x c. sid_ctx s x = Some c \<longrightarrow> sid_ctx s' x = Some c)"
proof -
  have "unat (us_nel s) \<le> 2 ^ 32 - 1" using unat_u32_lt [of "us_nel s"] by simp
  then have "addr_ok addr (unat (us_nel s))" using assms(2) by (auto simp: addr_ok_def intro: inj_on_subset)
  from context_to_sid_spec [OF assms(1) this assms(3)] obtain s1 sid1 where
    y: "yields (sidtab_context_to_sid sc addr s ctx) (Inr (s1, sid1))" "usidtab_ok sc addr s1" "sid_ctx s1 sid1 = Some ctx"
    "\<forall>x c. sid_ctx s x = Some c \<longrightarrow> sid_ctx s1 x = Some c" by blast
  from yields_Inr [OF y(1) assms(4)] show ?thesis using y(2-4) by simp
qed

text \<open>The operations of a client, on SIDs that the table knows and references into the node array. The SID table
  is not full.\<close>

inductive avc_step :: "bool \<Rightarrow> (nat \<Rightarrow> security_id) \<Rightarrow> avc \<Rightarrow> avc \<Rightarrow> bool" for sc addr where
  check: "avc_step sc addr c c'"
    if "kernel_av compute" "sid_ctx (avc_sidtab c) ssid = Some s" "sid_ctx (avc_sidtab c) tsid = Some t"
      "\<forall>x. aeref = Some x \<longrightarrow> x < length (avc_nodes (avc_cache c))"
      "avc_has_perm_noaudit compute f g msgs c ssid tsid tclass requested aeref d = Inr (c', aeref', d', rc)"
| create: "avc_step sc addr c c'"
    if "kernel_av compute" "sid_ctx (avc_sidtab c) ssid = Some s" "sid_ctx (avc_sidtab c) tsid = Some t" "us_nel (avc_sidtab c) \<noteq> -1"
      "avc_compute_create sc addr compute create c ssid tsid tclass a = (Inr (c', r), b)"
| member: "avc_step sc addr c c'"
    if "us_nel (avc_sidtab c) \<noteq> -1" "avc_compute_member sc addr mem c ssid tsid tclass a = (Inr (c', sid), b)"
| intern: "avc_step sc addr c c'"
    if "us_nel (avc_sidtab c) \<noteq> -1" "avc_context_to_sid_raw sc addr c ctx a = (Inr (c', sid), b)"
| messages: "avc_step sc addr c (avc_netlink_check_nb f g c msgs)"
| thread: "avc_step sc addr c (avc_netlink_loop f g c msgs)"
| reset: "avc_step sc addr c (fst (avc_reset c))"
| control: "avc_step sc addr c c'"
    if "avc_control c event ssid tsid tclass perms n = Inr (c', rc, retained)"
| callback: "avc_step sc addr c c'"
    if "avc_add_callback c cb a = (Inr c', b)"

inductive avc_reachable :: "bool \<Rightarrow> (nat \<Rightarrow> security_id) \<Rightarrow> avc \<Rightarrow> bool" for sc addr where
  opened: "avc_reachable sc addr c"
    if "\<not> avc_running c0" "avc_nodes (avc_cache c0) = []" "freelist (avc_cache c0) = []"
      "avc_open getenforce netlink c0 opts a = (Inr (c, rc), b)" "rc \<ge> 0" "0 \<le> netlink"
| stepped: "avc_reachable sc addr c'"
    if "avc_reachable sc addr c" "avc_step sc addr c c'"

inductive_cases avc_stepE: "avc_step sc addr c c'"

definition avc_inv :: "bool \<Rightarrow> (nat \<Rightarrow> security_id) \<Rightarrow> avc \<Rightarrow> bool" where
  "avc_inv sc addr c \<longleftrightarrow> avc_ok c \<and> usidtab_ok sc addr (avc_sidtab c)"

text \<open>Both tables after an operation: the invariant, the SIDs, and the number of the last policy.\<close>

definition avc_next :: "bool \<Rightarrow> (nat \<Rightarrow> security_id) \<Rightarrow> avc \<Rightarrow> avc \<Rightarrow> bool" where
  "avc_next sc addr c c' \<longleftrightarrow> avc_inv sc addr c' \<and> (\<forall>x ctx. sid_ctx (avc_sidtab c) x = Some ctx \<longrightarrow> sid_ctx (avc_sidtab c') x = Some ctx)
     \<and> latest_notif (avc_cache c) \<le> latest_notif (avc_cache c')"

lemma tryE_eq: "tryE m a = (Inr r, b) \<longleftrightarrow> m a = (r, b)"
  by (auto simp: tryE_def split: prod.splits)

lemma alloc_nodes_le: "alloc_nodes n a = (r, b) \<Longrightarrow> \<exists>k \<le> n. r = Inr k"
proof (induction n arbitrary: a r b)
  case (Suc n)
  from Suc.prems Suc.IH show ?case using malloc_cases [of a]
    by (fastforce simp: bindE_def tryE_def split: prod.splits sum.splits)
qed simp

lemma fresh_cache_ok:
  assumes "n \<le> AVC_CACHE_MAXNODES"
  shows "cache_ok (c\<lparr>avc_nodes := replicate n avc_entry_zero, slots := replicate AVC_CACHE_SLOTS [], freelist := rev [0..<n],
    lru_hint := 0, active_nodes := 0, latest_notif := 0\<rparr>)"
proof -
  have "ae_ssid avc_entry_zero = 0" by (simp add: avc_entry_zero_def)
  then show ?thesis by (simp add: cache_ok_def in_cache_def)
qed

lemma avc_open_inv:
  assumes "\<not> avc_running c0" "avc_nodes (avc_cache c0) = []" "freelist (avc_cache c0) = []"
    "avc_open getenforce netlink c0 opts a = (Inr (c, rc), b)" "rc \<ge> 0" "0 \<le> netlink"
  shows "avc_inv sc addr c"
proof -
  define c1 where "c1 = fold (\<lambda>opt c. case opt of
       None \<Rightarrow> c | Some v \<Rightarrow> c\<lparr>avc_setenforce := True, avc_enforcing := (if v then 1 else 0)\<rparr>) (rev opts) (c0\<lparr>avc_setenforce := False\<rparr>)"
  have "avc_running (fold (\<lambda>opt c. case opt of None \<Rightarrow> c | Some v \<Rightarrow> c\<lparr>avc_setenforce := True, avc_enforcing := (if v then 1 else 0)\<rparr>) os c) = avc_running c
    \<and> avc_cache (fold (\<lambda>opt c. case opt of None \<Rightarrow> c | Some v \<Rightarrow> c\<lparr>avc_setenforce := True, avc_enforcing := (if v then 1 else 0)\<rparr>) os c) = avc_cache c" for os c
    by (induction os arbitrary: c) (auto split: option.splits)
  from this [of "rev opts" "c0\<lparr>avc_setenforce := False\<rparr>"] assms(1-3)
  have c1: "\<not> avc_running c1" "avc_nodes (avc_cache c1) = []" "freelist (avc_cache c1) = []" by (simp_all add: c1_def)
  have run: "avc_init getenforce netlink c1 a = (Inr (c, rc), b)" using assms(4) by (simp add: avc_open_def c1_def)
  have sids: "usidtab_ok sc addr s'" if "sidtab_init s a1 = (Inr s', a2)" for s s' a1 a2
    using that by (auto simp: sidtab_init_def usidtab_ok_def bindE_eq_Inr)
  let ?k = "\<lambda>n. (avc_cache c1)\<lparr>avc_nodes := replicate n avc_entry_zero, slots := replicate AVC_CACHE_SLOTS [], freelist := rev [0..<n],
    lru_hint := 0, active_nodes := 0, latest_notif := 0\<rparr>"
  from run c1 assms(5,6) obtain s' a1 a2 n a3 a4 where "sidtab_init (avc_sidtab c1) a1 = (Inr s', a2)" "alloc_nodes AVC_CACHE_MAXNODES a3 = (Inr n, a4)"
    "avc_cache c = ?k n" "avc_sidtab c = s'" "avc_running c"
    by (auto simp: avc_init_def bindE_def tryE_def Let_def split: prod.splits sum.splits if_splits)
  then show ?thesis using sids fresh_cache_ok [of n "avc_cache c1"] alloc_nodes_le by (fastforce simp: avc_inv_def avc_ok_def)
qed

text \<open>Replacing the cache, with or without interning a context.\<close>

lemma avc_next_cache:
  assumes "avc_inv sc addr c" "follows (avc_cache c) X k"
  shows "avc_next sc addr c (c\<lparr>avc_cache := k\<rparr>)"
  using assms by (simp add: avc_next_def avc_inv_def avc_ok_def follows_def)

lemma avc_next_intern:
  assumes "avc_inv sc addr c" "addr_ok addr (2 ^ 32 - 1)" "us_nel (avc_sidtab c) \<noteq> -1" "sidtab_context_to_sid sc addr (avc_sidtab c) ctx a = (Inr (s', sid), b)"
    "follows (avc_cache c) X k"
  shows "avc_next sc addr c (c\<lparr>avc_sidtab := s', avc_cache := k\<rparr>)"
  using assms(1,5) intern_ok [OF _ assms(2-4)] by (simp add: avc_next_def avc_inv_def avc_ok_def follows_def)

lemma avc_compute_create_next:
  assumes inv: "avc_inv sc addr c" and addr: "addr_ok addr (2 ^ 32 - 1)" and kernel: "kernel_av compute"
    and ctx: "sid_ctx (avc_sidtab c) ssid = Some s" "sid_ctx (avc_sidtab c) tsid = Some t" and nel: "us_nel (avc_sidtab c) \<noteq> -1"
    and run: "avc_compute_create sc addr compute create c ssid tsid tclass a = (Inr (c', r), b)"
  shows "avc_next sc addr c c'"
proof -
  have ok: "cache_ok (avc_cache c)" using inv by (simp add: avc_inv_def avc_ok_def)
  have ssid: "ssid \<noteq> 0" using inv sid_nonnull [OF _ addr ctx(1)] by (auto simp: avc_inv_def)
  let ?c = "c\<lparr>avc_enforcing := 1\<rparr>"
  have "cache_ok (avc_cache ?c)" "\<forall>x. None = Some x \<longrightarrow> x < length (avc_nodes (avc_cache ?c))"
    "sid_ctx (avc_sidtab ?c) ssid = Some s" "sid_ctx (avc_sidtab ?c) tsid = Some t" using ok ctx by simp_all
  from avc_find_entry_spec [OF this(1) ssid this(2-4) kernel, of tclass 0] obtain k q where
    q: "avc_find_entry compute ?c ssid tsid tclass 0 None = Inr (k, q)" "case q of
      Inl e \<Rightarrow> follows (avc_cache ?c) {} k \<and> (compute s t tclass 0 = Inl e \<or> (\<exists>d. compute s t tclass 0 = Inr d
        \<and> (e = EAGAIN \<and> seqno d < latest_notif k \<or> e = ENOMEM \<and> avc_nodes k = [])))
    | Inr None \<Rightarrow> follows (avc_cache ?c) {} k \<and> avc_enforcing ?c = 0 \<and> compute s t tclass 0 = Inl EINVAL
    | Inr (Some x) \<Rightarrow> in_cache k x \<and> entry_for ssid tsid tclass (avc_nodes k ! x) \<and> (follows (avc_cache ?c) {} k
        \<or> follows (avc_cache ?c) {x} k \<and> compute s t tclass 0 = Inr (ae_avd (avc_nodes k ! x)))" by blast
  note def = avc_compute_create_def [of sc addr compute create c ssid tsid tclass]
  consider e where "q = Inl e" | x where "q = Inr (Some x)" using q(2) by (cases q) (auto split: option.splits)
  then show ?thesis
  proof cases
    case 1
    then have "c' = c\<lparr>avc_cache := k\<rparr>" using run q(1) by (simp add: def Let_def)
    then show ?thesis using q(2) 1 avc_next_cache [OF inv] by auto
  next
    case 2
    then have f: "in_cache k x" "follows (avc_cache c) {x} k" "cache_ok k" using q(2) by (auto simp: follows_def)
    have x: "x < length (avc_nodes k)" by (rule in_cache_less [OF f(3,1)])
    have "keeps_key (\<lambda>ae. ae\<lparr>ae_create_sid := n\<rparr>)" for n by (simp add: keeps_key_def)
    from set_entry_follows [OF f(3) this x] have set: "\<exists>k'. set_entry x (\<lambda>ae. ae\<lparr>ae_create_sid := n\<rparr>) k = Inr k' \<and> follows (avc_cache c) {x} k'" for n
      using follows_trans [OF f(2)] by (metis Un_absorb)
    have cx: "ctx_of (c\<lparr>avc_cache := k\<rparr>) ssid = Inr s" "ctx_of (c\<lparr>avc_cache := k\<rparr>) tsid = Inr t" using ctx by (simp_all add: ctx_of_def)
    from run consider "c' = c\<lparr>avc_cache := k\<rparr>" | ctx a1 s' sid a2 k' where "sidtab_context_to_sid sc addr (avc_sidtab c) ctx a1 = (Inr (s', sid), a2)"
        "set_entry x (\<lambda>ae. ae\<lparr>ae_create_sid := sid\<rparr>) k = Inr k'" "c' = c\<lparr>avc_sidtab := s', avc_cache := k'\<rparr>"
      using q(1) 2 x cx by (auto simp: def Let_def bindE_def tryE_def split: prod.splits sum.splits if_splits)
    then show ?thesis
    proof cases
      case 1
      then show ?thesis using avc_next_cache [OF inv f(2)] by simp
    next
      case 2
      then show ?thesis using avc_next_intern [OF inv addr nel] set [of sid] by auto
    qed
  qed
qed

lemma avc_step_next:
  assumes "avc_step sc addr c c'" "avc_inv sc addr c" "addr_ok addr (2 ^ 32 - 1)"
  shows "avc_next sc addr c c'"
  using assms(1)
proof cases
  case (check compute ssid s tsid t aeref f g msgs tclass requested d aeref' d' rc)
  have "avc_ok c" "ssid \<noteq> 0" using assms(2) sid_nonnull [OF _ assms(3) check(2)] by (auto simp: avc_inv_def)
  from avc_has_perm_noaudit_spec [OF this(1) check(1-3) this(2) check(4), of f g msgs tclass requested d] check(5) assms(2)
  show ?thesis by (auto simp: avc_next_def avc_inv_def)
next
  case (create compute ssid s tsid t cr tclass a r b)
  show ?thesis by (rule avc_compute_create_next [OF assms(2,3) create])
next
  case (member mem ssid tsid tclass a sid b)
  then obtain ctx a1 s' b1 where "sidtab_context_to_sid sc addr (avc_sidtab c) ctx a1 = (Inr (s', sid), b1)" "c' = c\<lparr>avc_sidtab := s'\<rparr>"
    by (auto simp: avc_compute_member_def bindE_eq_Inr split: if_splits)
  then show ?thesis using avc_next_intern [OF assms(2,3) member(1)] follows_refl assms(2) by (fastforce simp: avc_inv_def avc_ok_def)
next
  case (intern ctx a sid b)
  then obtain a1 s' b1 where "sidtab_context_to_sid sc addr (avc_sidtab c) ctx a1 = (Inr (s', sid), b1)" "c' = c\<lparr>avc_sidtab := s'\<rparr>"
    by (auto simp: avc_context_to_sid_raw_def bindE_eq_Inr split: if_splits)
  then show ?thesis using avc_next_intern [OF assms(2,3) intern(1)] follows_refl assms(2) by (fastforce simp: avc_inv_def avc_ok_def)
next
  case (messages f g msgs)
  then show ?thesis using netlink_check_settles [of c undefined f g msgs] assms(2) by (simp add: avc_next_def avc_inv_def settles_def)
next
  case (thread f g msgs)
  have "settles (\<lambda>_ _ _ _. Inl EINVAL) c (avc_netlink_loop f g c msgs)" using assms(2) netlink_loop_settles by (simp add: avc_inv_def)
  then show ?thesis using assms(2) thread by (simp add: avc_next_def avc_inv_def settles_def)
next
  case reset
  then show ?thesis using assms(2) reset_slots_ok [of "avc_cache c"] by (simp add: avc_next_def avc_inv_def avc_ok_def avc_reset_def)
next
  case (control event ssid tsid tclass perms n rc retained)
  then show ?thesis using avc_control_spec [of c event ssid tsid tclass perms n] assms(2) by (auto simp: avc_next_def avc_inv_def)
next
  case (callback cb a b)
  then show ?thesis using assms(2) by (auto simp: avc_add_callback_def bindE_eq_Inr avc_next_def avc_inv_def avc_ok_def)
qed

lemma avc_reachable_inv:
  assumes "avc_reachable sc addr c" "addr_ok addr (2 ^ 32 - 1)"
  shows "avc_inv sc addr c"
  using assms(1)
proof induction
  case (opened c0 getenforce netlink opts a c rc b)
  show ?case by (rule avc_open_inv [OF opened])
next
  case (stepped c c')
  then show ?case using avc_step_next [OF _ _ assms(2)] by (simp add: avc_next_def)
qed

section \<open>A sample cache\<close>

text \<open>A cache with one node, which is in use and marked.\<close>

definition sample_entry :: avc_entry where
  "sample_entry = (new_entry 8 8 1)\<lparr>ae_avd := \<lparr>allowed = 1, decided = -1, auditallow = 0, auditdeny = -1, seqno = 5, avd_flags = 0\<rparr>\<rparr>"

definition sample_cache :: avc_cache where
  "sample_cache = \<lparr>avc_nodes = [sample_entry], slots = (replicate AVC_CACHE_SLOTS [])[hash_of sample_entry := [0]], freelist = [],
     lru_hint = 0, active_nodes = 1, latest_notif = 5\<rparr>"

definition sample_avc :: avc where
  "sample_avc = \<lparr>avc_cache = sample_cache, avc_sidtab = \<lparr>us_htable = Some ((replicate 128 [])[sidtab_hash True ''u:r:t'' := [(8, ''u:r:t'')]]), us_nel = 1\<rparr>,
     avc_callbacks = [], avc_running = True, avc_enforcing = 1, avc_setenforce = False, avc_using_threads = False, avc_app_main_loop = False\<rparr>"

definition sample_compute :: compute_av where
  "sample_compute s t cls r = Inr \<lparr>allowed = 1, decided = -1, auditallow = 0, auditdeny = -1, seqno = 5, avd_flags = 0\<rparr>"

lemma sample_slots: "i < AVC_CACHE_SLOTS \<Longrightarrow> slots sample_cache ! i = (if i = hash_of sample_entry then [0] else [])"
  using hash_of_less [of sample_entry] by (simp add: sample_cache_def nth_list_update)

lemma sample_in_cache: "in_cache sample_cache x \<longleftrightarrow> x = 0"
  using hash_of_less [of sample_entry] by (auto simp: in_cache_def sample_slots)

lemma sample_cache_ok: "cache_ok sample_cache"
proof -
  have "avc_nodes sample_cache = [sample_entry]" "freelist sample_cache = []" "lru_hint sample_cache = 0" "active_nodes sample_cache = 1"
    "length (slots sample_cache) = AVC_CACHE_SLOTS" by (simp_all add: sample_cache_def)
  then show ?thesis by (simp add: cache_ok_def sample_slots sample_in_cache)
qed

lemma sample_ctx: "sid_ctx (avc_sidtab sample_avc) 8 = Some ''u:r:t''"
proof -
  let ?h = "sidtab_hash True ''u:r:t''" let ?t = "(replicate 128 [])[?h := [(8, ''u:r:t'')]] :: (security_id \<times> string) list list"
  have h: "?h < 128" by (rule sidtab_hash_less)
  then have "concat ?t = [(8, ''u:r:t'')]" by (simp add: upd_conv_take_nth_drop)
  then show ?thesis by (simp add: sample_avc_def sid_ctx_def)
qed

lemma sample_ok: "avc_ok sample_avc" "kernel_av sample_compute" "coherent sample_compute sample_avc"
proof -
  show "avc_ok sample_avc" using sample_cache_ok by (simp add: avc_ok_def sample_avc_def)
  show "kernel_av sample_compute" by (simp add: kernel_av_def sample_compute_def)
  have "avc_cache sample_avc = sample_cache" by (simp add: sample_avc_def)
  moreover have "entry_sound sample_compute (avc_sidtab sample_avc) sample_entry"
    using sample_ctx by (simp add: entry_sound_def sample_entry_def new_entry_def sample_compute_def decides_as_def)
  ultimately show "coherent sample_compute sample_avc"
    by (simp add: coherent_def all_entries_def sample_in_cache) (simp add: sample_cache_def)
qed

text \<open>A cache that has just been opened, and addresses of an allocator.\<close>

lemma alloc_nodes_all: "alloc_nodes n [] = (Inr n, [])"
  by (induction n) (simp_all add: bindE_def tryE_def)

definition sample_addr :: "nat \<Rightarrow> security_id" where
  "sample_addr n = of_nat (8 * n + 8)"

lemma sample_addr_ok: "addr_ok sample_addr (2 ^ 32 - 1)"
proof -
  have u: "unat (sample_addr n) = 8 * n + 8" if "n \<le> 2 ^ 32 - 1" for n
    using that unfolding sample_addr_def unat_of_nat by (intro mod_less) simp
  have "sample_addr n \<noteq> 0" if "n \<le> 2 ^ 32 - 1" for n using u [OF that] by (intro notI) simp
  moreover have "inj_on sample_addr {..2 ^ 32 - 1}"
  proof (rule inj_onI)
    fix m n assume m: "m \<in> {..2 ^ 32 - 1 :: nat}" and n: "n \<in> {..2 ^ 32 - 1 :: nat}" and eq: "sample_addr m = sample_addr n"
    have "unat (sample_addr m) = 8 * m + 8" "unat (sample_addr n) = 8 * n + 8" by (rule u, use m n in simp)+
    then show "m = n" unfolding eq by linarith
  qed
  ultimately show ?thesis by (simp add: addr_ok_def)
qed

lemma sample_open:
  assumes "\<not> avc_running c0"
  shows "\<exists>c. avc_open 1 3 c0 [] [] = (Inr (c, 3), [])"
  using assms by (simp add: avc_open_def avc_init_def sidtab_init_def bindE_def tryE_def returnE_def alloc_nodes_all Let_def)

section \<open>Properties\<close>

text \<open>Claim C11. A permission check through the cache answers as the kernel does: if the cache is
  coherent, or a new policy is announced by a pending message that the check reads, then a check on two
  known SIDs (with any reference into the node array that the caller kept, stale or not) does not
  fault, leaves a coherent cache, in enforcing mode returns exactly the kernel's answer, and in permissive
  mode lets everything pass unless the kernel reports an error. The only other outcome is a failure to
  cache a decision that is older than the last policy announced, or a cache without nodes.
\<close>

theorem avc_check_refines_kernel:
  assumes "avc_ok c" "kernel_av compute" "coherent compute c \<or> policy_announced msgs c"
    "sid_ctx (avc_sidtab c) ssid = Some s" "sid_ctx (avc_sidtab c) tsid = Some t" "ssid \<noteq> 0"
    "\<forall>x. aeref = Some x \<longrightarrow> x < length (avc_nodes (avc_cache c))"
  shows "\<exists>c' aeref' d' rc. avc_has_perm_noaudit compute f g msgs c ssid tsid tclass requested aeref d = Inr (c', aeref', d', rc)
    \<and> avc_ok c' \<and> coherent compute c' \<and> check_answer compute (avc_enforcing c') (avc_cache c') s t tclass requested rc"
  using avc_has_perm_noaudit_spec [OF assms(1,2,4-7), of f g msgs tclass requested d] assms(3) by blast

theorem avc_check_refines_kernel_witness:
  "\<exists>c' aeref' d' rc. avc_has_perm_noaudit sample_compute (\<lambda>_. 0) (\<lambda>_. 0) [SELNL_MSG_POLICYLOAD 5] sample_avc 8 8 1 1 (Some 0) \<lparr>allowed = 0, decided = 0, auditallow = 0, auditdeny = 0, seqno = 0, avd_flags = 0\<rparr>
     = Inr (c', aeref', d', rc) \<and> avc_ok c' \<and> coherent sample_compute c'
     \<and> check_answer sample_compute (avc_enforcing c') (avc_cache c') ''u:r:t'' ''u:r:t'' 1 1 rc"
proof (rule avc_check_refines_kernel)
  show "\<forall>x. Some 0 = Some x \<longrightarrow> x < length (avc_nodes (avc_cache sample_avc))" by (simp add: sample_avc_def sample_cache_def)
qed (simp_all add: sample_ok sample_ctx)

text \<open>Claim C12. In every state that a client can reach after the cache has been opened (checks, new
  SIDs, messages, resets, revocations and callbacks in any order, allocations failing at any point), the cache
  and the SID table are well-formed: nodes sit in the slot of their key and in exactly one list, contexts
  and SIDs correspond one to one, and no operation loses a SID or goes back behind a policy announced.
\<close>

theorem avc_reachable_ok:
  assumes "avc_reachable sc addr c" "addr_ok addr (2 ^ 32 - 1)"
  shows "avc_inv sc addr c \<and> (\<forall>c'. avc_step sc addr c c' \<longrightarrow> avc_next sc addr c c')"
  using avc_reachable_inv [OF assms] avc_step_next [OF _ _ assms(2)] by blast

theorem avc_reachable_ok_witness:
  "\<exists>c. avc_reachable True sample_addr c \<and> avc_inv True sample_addr c"
proof -
  let ?c0 = "sample_avc\<lparr>avc_running := False, avc_cache := sample_cache\<lparr>avc_nodes := []\<rparr>\<rparr>"
  obtain c where "avc_open 1 3 ?c0 [] [] = (Inr (c, 3), [])" using sample_open [of ?c0] by auto
  then have "avc_reachable True sample_addr c" by (rule avc_reachable.opened [rotated 3]) (simp_all add: sample_cache_def)
  with avc_reachable_ok [OF this sample_addr_ok] show ?thesis by blast
qed

text \<open>Claim C13. A decision can always be cached: when the nodes are used up, the search for a victim ends within
  two rounds over the slots and takes a node, whose entry is then the first in the slot of the new
  key; the other entries stay as they are up to the mark of recent use.
\<close>

theorem avc_claim_node_live:
  assumes "cache_ok c" "avc_nodes c \<noteq> []"
  shows "\<exists>c' x. avc_claim_node c ssid tsid tclass = Inr (c', Some x) \<and> follows c {x} c' \<and> in_cache c' x
    \<and> avc_nodes c' ! x = new_entry ssid tsid tclass"
proof -
  from avc_claim_node_spec [OF assms(1), of ssid tsid tclass] obtain c' r where r: "avc_claim_node c ssid tsid tclass = Inr (c', r)" "case r of
      None \<Rightarrow> avc_nodes c = [] \<and> follows c {} c'
    | Some x \<Rightarrow> follows c {x} c' \<and> in_cache c' x \<and> avc_nodes c' ! x = new_entry ssid tsid tclass" by blast
  with assms(2) show ?thesis by (cases r) auto
qed

theorem avc_claim_node_live_witness:
  "\<exists>c' x. avc_claim_node sample_cache 16 24 2 = Inr (c', Some x) \<and> follows sample_cache {x} c' \<and> in_cache c' x \<and> avc_nodes c' ! x = new_entry 16 24 2"
  by (rule avc_claim_node_live [OF sample_cache_ok]) (simp add: sample_cache_def)



text \<open>Claim C15. Contexts and SIDs of the userspace cache convert into each other: unless memory runs out, a
  context gets a SID whose text is that context, asking again gives the same SID without an allocation, and the
  SIDs given before keep their texts.
\<close>

theorem avc_context_roundtrip:
  assumes "avc_inv sc addr c" "addr_ok addr (2 ^ 32 - 1)" "us_nel (avc_sidtab c) \<noteq> -1"
  shows "\<exists>c' sid. yields (avc_context_to_sid_raw sc addr c ctx) (Inr (c', sid)) \<and> avc_inv sc addr c'
    \<and> yields (avc_sid_to_context_raw c' sid) (Inr ctx) \<and> (\<forall>a. avc_context_to_sid_raw sc addr c' ctx a = (Inr (c', sid), a))
    \<and> (\<forall>x ctx0. yields (avc_sid_to_context_raw c x) (Inr ctx0) \<longrightarrow> yields (avc_sid_to_context_raw c' x) (Inr ctx0))"
proof -
  have inv: "avc_running c" "cache_ok (avc_cache c)" "usidtab_ok sc addr (avc_sidtab c)" using assms(1) by (simp_all add: avc_inv_def avc_ok_def)
  have "unat (us_nel (avc_sidtab c)) \<le> 2 ^ 32 - 1" using unat_u32_lt [of "us_nel (avc_sidtab c)"] by simp
  then have "addr_ok addr (unat (us_nel (avc_sidtab c)))" using assms(2) by (auto simp: addr_ok_def intro: inj_on_subset)
  from context_to_sid_spec [OF inv(3) this assms(3)] obtain s' sid where
    s': "yields (sidtab_context_to_sid sc addr (avc_sidtab c) ctx) (Inr (s', sid))" "usidtab_ok sc addr s'" "sid_ctx s' sid = Some ctx"
    "\<forall>x t. sid_ctx (avc_sidtab c) x = Some t \<longrightarrow> sid_ctx s' x = Some t" by blast
  let ?c = "c\<lparr>avc_sidtab := s'\<rparr>"
  have "yields (avc_context_to_sid_raw sc addr c ctx) (Inr (?c, sid))"
    unfolding avc_context_to_sid_raw_def using inv(1) by (simp add: yields_bindE_Inr [OF s'(1)])
  moreover have "avc_inv sc addr ?c" using inv s'(2) by (simp add: avc_inv_def avc_ok_def)
  moreover have reads: "yields (avc_sid_to_context_raw e x) (Inr t) \<longleftrightarrow> sid_ctx (avc_sidtab e) x = Some t" for e x t
    by (cases "sid_ctx (avc_sidtab e) x") (auto simp: avc_sid_to_context_raw_def ctx_of_def)
  moreover have "find_ctx sc s' ctx = Inr (Some sid)" using find_ctx_spec [OF s'(2), of ctx] s'(3) by auto
  then have "avc_context_to_sid_raw sc addr ?c ctx a = (Inr (?c, sid), a)" for a
    using inv(1) by (simp add: avc_context_to_sid_raw_def sidtab_context_to_sid_def)
  ultimately show ?thesis using s'(3,4) unfolding reads by (intro exI [of _ ?c] exI [of _ sid]) simp
qed

theorem avc_context_roundtrip_witness:
  "\<exists>c c' sid. yields (avc_context_to_sid_raw True sample_addr c ''a:b:c'') (Inr (c', sid)) \<and> yields (avc_sid_to_context_raw c' sid) (Inr ''a:b:c'')"
proof -
  let ?s = "\<lparr>us_htable = Some (replicate 128 []), us_nel = 0\<rparr>" let ?c = "sample_avc\<lparr>avc_sidtab := ?s\<rparr>"
  have "usidtab_ok True sample_addr ?s" by (simp add: usidtab_ok_def)
  then have "avc_inv True sample_addr ?c" using sample_ok(1) by (simp add: avc_inv_def avc_ok_def)
  from avc_context_roundtrip [OF this sample_addr_ok, of "''a:b:c''"] show ?thesis by auto
qed

end
