(* ===== verification/Avc_Mapping.thy ===== *)
theory Avc_Mapping
  imports Avc
begin

text \<open>
  The mapping of an application's own numbers of classes and permissions to those of the kernel (libselinux mapping.c). The numbers of the
  kernel are looked up by name in files of the kernel: the lookups are arguments. A mapping is the list of its classes, with an entry for
  class 0 in front; the empty list is the absence of a mapping. The permissions of a class are the first \<open>num_perms\<close> entries
  of its array, a skipped one is 0.
\<close>

unbundle bit_operations_syntax

section \<open>The mapping\<close>

record selinux_mapping =
  sm_value :: u16
  sm_perms :: "u32 list"

text \<open>The names of a class and of its permissions.\<close>

type_synonym security_class_mapping = "string \<times> string list"

text \<open>The array of a class has 32 elements. A name after them is written outside; a skipped one is not, but it is counted, and the loops below
  read it: entry 32 is the fault in both cases.\<close>

fun store_perms :: "(string \<Rightarrow> u32) \<Rightarrow> nat \<Rightarrow> string list \<Rightarrow> u32 list option res" where
  "store_perms string_to_av_perm k [] = Inr (Some [])"
| "store_perms string_to_av_perm k (s # ss) =
     (if k \<ge> 32 then Inl Fault
      else if s = [] then bindR (store_perms string_to_av_perm (k + 1) ss) (\<lambda>r. Inr (map_option (Cons 0) r))
      else if string_to_av_perm s = 0 then Inr None
      else bindR (store_perms string_to_av_perm (k + 1) ss) (\<lambda>r. Inr (map_option (Cons (string_to_av_perm s)) r)))"

fun store_classes :: "(string \<Rightarrow> u16) \<Rightarrow> (u16 \<Rightarrow> string \<Rightarrow> u32) \<Rightarrow> security_class_mapping list \<Rightarrow> selinux_mapping list option res" where
  "store_classes string_to_class string_to_av_perm [] = Inr (Some [])"
| "store_classes string_to_class string_to_av_perm ((nm, perms) # cs) =
     (let v = string_to_class nm in
      if v = 0 then Inr None
      else bindR (store_perms (string_to_av_perm v) 0 perms) (\<lambda>q. case q of
        None \<Rightarrow> Inr None
      | Some ps \<Rightarrow> bindR (store_classes string_to_class string_to_av_perm cs) (\<lambda>r. Inr (map_option (Cons \<lparr>sm_value = v, sm_perms = ps\<rparr>) r))))"

text \<open>The classes are counted in 16 bits: 65535 of them leave no room for class 0, and more are counted forever. The result is the state of the
  cache, the mapping and the return code.\<close>

definition selinux_set_mapping ::
  "(string \<Rightarrow> u16) \<Rightarrow> (u16 \<Rightarrow> string \<Rightarrow> u32) \<Rightarrow> avc \<Rightarrow> security_class_mapping list option \<Rightarrow> (avc \<times> selinux_mapping list \<times> int) alloc_m"
where
  "selinux_set_mapping string_to_class string_to_av_perm c mp = (let (c1, rc) = avc_reset c in
     if rc < 0 then returnE (c1, [], -1)
     else case mp of
       None \<Rightarrow> returnE (c1, [], -1)
     | Some cs \<Rightarrow>
         if length cs \<ge> 2 ^ 16 then throwE Diverge
         else bindE (tryE malloc) (\<lambda>m. if m \<noteq> Inr () then returnE (c1, [], -1)
         else if length cs = 2 ^ 16 - 1 then throwE Fault
         else bindE (liftE (store_classes string_to_class string_to_av_perm cs)) (\<lambda>r. case r of
           None \<Rightarrow> returnE (c1, [], -1)
         | Some ms \<Rightarrow> returnE (c1, \<lparr>sm_value = 0, sm_perms = []\<rparr> # ms, 0))))"

section \<open>From the application to the kernel\<close>

definition unmap_class :: "selinux_mapping list \<Rightarrow> u16 \<Rightarrow> u16" where
  "unmap_class m tclass = (if unat tclass < length m then sm_value (m ! unat tclass) else if m \<noteq> [] then 0 else tclass)"

fun unmap_loop :: "nat \<Rightarrow> u32 list \<Rightarrow> u32 \<Rightarrow> u32 \<Rightarrow> u32" where
  "unmap_loop i [] tperm kperm = kperm"
| "unmap_loop i (p # ps) tperm kperm =
     (if tperm AND push_bit i 1 \<noteq> 0 then unmap_loop (i + 1) ps (tperm AND NOT (push_bit i 1)) (kperm OR p) else unmap_loop (i + 1) ps tperm kperm)"

definition unmap_perm :: "selinux_mapping list \<Rightarrow> u16 \<Rightarrow> u32 \<Rightarrow> u32" where
  "unmap_perm m tclass tperm = (if unat tclass < length m then unmap_loop 0 (sm_perms (m ! unat tclass)) tperm 0
     else if m \<noteq> [] then 0 else tperm)"

section \<open>From the kernel to the application\<close>

fun find_class :: "nat \<Rightarrow> selinux_mapping list \<Rightarrow> u16 \<Rightarrow> u16 option" where
  "find_class i [] kclass = None"
| "find_class i (e # es) kclass = (if sm_value e = kclass then Some (of_nat i) else find_class (i + 1) es kclass)"

definition map_class :: "selinux_mapping list \<Rightarrow> u16 \<Rightarrow> u16" where
  "map_class m kclass = (case find_class 0 m kclass of Some i \<Rightarrow> i | None \<Rightarrow> if m \<noteq> [] then 0 else kclass)"

fun map_loop :: "nat \<Rightarrow> u32 list \<Rightarrow> u32 \<Rightarrow> u32 \<Rightarrow> u32" where
  "map_loop i [] kperm tperm = tperm"
| "map_loop i (p # ps) kperm tperm =
     (if kperm AND p \<noteq> 0 then map_loop (i + 1) ps (kperm AND NOT p) (tperm OR push_bit i 1) else map_loop (i + 1) ps kperm tperm)"

text \<open>No permission at all is the error \<open>EINVAL\<close>, with the same value 0.\<close>

definition map_perm :: "selinux_mapping list \<Rightarrow> u16 \<Rightarrow> u32 \<Rightarrow> u32" where
  "map_perm m tclass kperm = (if unat tclass < length m then map_loop 0 (sm_perms (m ! unat tclass)) kperm 0 else kperm)"

fun decide_loop :: "nat \<Rightarrow> u32 list \<Rightarrow> u32 \<Rightarrow> u32 \<Rightarrow> u32" where
  "decide_loop i [] av result = result"
| "decide_loop i (p # ps) av result = decide_loop (i + 1) ps av (if av AND p \<noteq> 0 then result OR push_bit i 1 else result)"

definition map_decision :: "selinux_mapping list \<Rightarrow> u16 \<Rightarrow> avd \<Rightarrow> avd" where
  "map_decision m tclass d = (if unat tclass < length m then
     let ps = sm_perms (m ! unat tclass); mapped = (\<lambda>av. decide_loop 0 ps av 0) in
     d\<lparr>allowed := mapped (allowed d), decided := mapped (decided d), auditallow := mapped (auditallow d), auditdeny := mapped (auditdeny d)\<rparr>
   else d)"

section \<open>The bits\<close>

lemma and_push_bit: "(t :: u32) AND push_bit i 1 = 0 \<longleftrightarrow> \<not> bit t i"
  by (simp add: and_exp_eq_0_iff_not_bit)

lemma unmap_loop_bits:
  "i + length ps \<le> 32 \<Longrightarrow> bit (unmap_loop i ps t k) n \<longleftrightarrow> bit k n \<or> (\<exists>j < length ps. bit t (i + j) \<and> bit (ps ! j) n)"
proof (induction ps arbitrary: i t k)
  case (Cons p ps)
  have off: "bit (t AND NOT (push_bit i 1)) (Suc i + j) \<longleftrightarrow> bit t (Suc i + j)" for j
    using bit_imp_le_length [of t "Suc i + j"] by (auto simp: bit_and_iff bit_not_iff bit_exp_iff)
  have ex: "(\<exists>j < length (p # ps). bit t (i + j) \<and> bit ((p # ps) ! j) n) \<longleftrightarrow> bit t i \<and> bit p n \<or> (\<exists>j < length ps. bit t (Suc i + j) \<and> bit (ps ! j) n)"
    by (auto simp: less_Suc_eq_0_disj)
  show ?case
  proof (cases "bit t i")
    case True
    then have "unmap_loop i (p # ps) t k = unmap_loop (Suc i) ps (t AND NOT (push_bit i 1)) (k OR p)" by (simp add: and_exp_eq_0_iff_not_bit)
    then show ?thesis unfolding ex using Cons True off by (auto simp: bit_or_iff)
  next
    case False
    then have "unmap_loop i (p # ps) t k = unmap_loop (Suc i) ps t k" by (simp add: and_exp_eq_0_iff_not_bit)
    then show ?thesis unfolding ex using Cons False by auto
  qed
qed simp

lemma decide_loop_bits:
  "i + length ps \<le> 32 \<Longrightarrow> bit (decide_loop i ps av r) n \<longleftrightarrow> bit r n \<or> (\<exists>j < length ps. n = i + j \<and> av AND ps ! j \<noteq> 0)"
proof (induction ps arbitrary: i r)
  case (Cons p ps)
  have ex: "(\<exists>j < length (p # ps). n = i + j \<and> av AND (p # ps) ! j \<noteq> 0) \<longleftrightarrow> n = i \<and> av AND p \<noteq> 0 \<or> (\<exists>j < length ps. n = Suc i + j \<and> av AND ps ! j \<noteq> 0)"
    by (auto simp: less_Suc_eq_0_disj)
  show ?case unfolding ex using Cons by (auto simp: bit_or_iff bit_exp_iff)
qed simp

lemma and_not_apart:
  assumes "(p :: u32) AND q = 0" shows "(k AND NOT p) AND q = k AND q"
proof (rule bit_eqI)
  fix n
  have "\<not> (bit p n \<and> bit q n)" using arg_cong [OF assms, of "\<lambda>x. bit x n"] by (simp add: bit_and_iff)
  then show "bit ((k AND NOT p) AND q) n = bit (k AND q) n" by (auto simp: bit_and_iff bit_not_iff dest: bit_imp_le_length)
qed

text \<open>Permissions that do not overlap are read off a vector one after the other.\<close>

lemma map_loop_decide:
  assumes "\<And>j l. j < l \<Longrightarrow> l < length ps \<Longrightarrow> ps ! j AND ps ! l = 0"
  shows "map_loop i ps k t = decide_loop i ps k t"
  using assms
proof (induction ps arbitrary: i k t)
  case (Cons p ps)
  have later: "ps ! j AND ps ! l = 0" if "j < l" "l < length ps" for j l using Cons.prems [of "Suc j" "Suc l"] that by simp
  have off: "decide_loop i ps (k AND NOT p) r = decide_loop i ps k r" if "\<And>j. j < length ps \<Longrightarrow> p AND ps ! j = 0" for i r
    using that
  proof (induction ps arbitrary: i r)
    case (Cons q qs)
    have "p AND q = 0" using Cons.prems [of 0] by simp
    then have "(k AND NOT p) AND q = k AND q" by (rule and_not_apart)
    moreover have "decide_loop j qs (k AND NOT p) r' = decide_loop j qs k r'" for j r' using Cons.IH Cons.prems [of "Suc _"] by auto
    ultimately show ?case by simp
  qed simp
  have "p AND ps ! j = 0" if "j < length ps" for j using Cons.prems [of 0 "Suc j"] that by simp
  then show ?case using Cons.IH [OF later] off by simp
qed simp

text \<open>What a successful call has stored: the kernel's number of every class, and of every permission that is not skipped.\<close>

definition stores :: "(string \<Rightarrow> u32) \<Rightarrow> string list \<Rightarrow> u32 list \<Rightarrow> bool" where
  "stores string_to_av_perm names ps \<longleftrightarrow> length ps = length names \<and>
     (\<forall>j < length names. if names ! j = [] then ps ! j = 0 else ps ! j = string_to_av_perm (names ! j) \<and> ps ! j \<noteq> 0)"

lemma stores_Cons: "stores f (s # ss) (p # ps) \<longleftrightarrow> (if s = [] then p = 0 else p = f s \<and> p \<noteq> 0) \<and> stores f ss ps"
  by (auto simp: stores_def less_Suc_eq_0_disj)

lemma store_perms_stores: "store_perms f k ss = Inr (Some ps) \<Longrightarrow> k \<le> 32 \<Longrightarrow> stores f ss ps \<and> k + length ss \<le> 32"
proof (induction ss arbitrary: k ps)
  case (Cons s ss)
  then obtain qs where "k < 32" "store_perms f (k + 1) ss = Inr (Some qs)" "ps = (if s = [] then 0 else f s) # qs" "s = [] \<or> f s \<noteq> 0"
    by (auto simp: bindR_eq_Inr split: if_splits)
  with Cons.IH [of "k + 1" qs] show ?case by (auto simp: stores_Cons)
qed (simp add: stores_def)

lemma store_classes_nth:
  "store_classes f g cs = Inr (Some ms) \<Longrightarrow> i < length cs \<Longrightarrow> cs ! i = (nm, names) \<Longrightarrow>
   i < length ms \<and> sm_value (ms ! i) = f nm \<and> stores (g (f nm)) names (sm_perms (ms ! i)) \<and> length names \<le> 32"
proof (induction cs arbitrary: i ms)
  case (Cons c cs)
  obtain nm' names' where c: "c = (nm', names')" by (cases c)
  with Cons.prems(1) obtain ps rs where "store_perms (g (f nm')) 0 names' = Inr (Some ps)" "store_classes f g cs = Inr (Some rs)"
    "ms = \<lparr>sm_value = f nm', sm_perms = ps\<rparr> # rs"
    by (auto simp: Let_def bindR_eq_Inr split: if_splits option.splits)
  then show ?case using Cons.IH [of rs "i - 1"] Cons.prems c store_perms_stores [of "g (f nm')" 0 names' ps] by (cases i) auto
qed simp

lemma selinux_set_mapping_ok:
  assumes "fst (selinux_set_mapping f g c (Some cs) a) = Inr (c', m, 0)"
  obtains ms where "m = \<lparr>sm_value = 0, sm_perms = []\<rparr> # ms" "store_classes f g cs = Inr (Some ms)" "length cs < 2 ^ 16 - 1"
proof -
  consider "malloc a = (Inr (), tl a)" | "malloc a = (Inl ENOMEM, tl a)" using malloc_cases by blast
  then have "\<exists>ms. m = \<lparr>sm_value = 0, sm_perms = []\<rparr> # ms \<and> store_classes f g cs = Inr (Some ms) \<and> length cs < 2 ^ 16 - 1"
    using assms
    by cases (auto simp: selinux_set_mapping_def bindE_def tryE_def liftE_def returnE_def throwE_def split: prod.splits if_splits sum.splits option.splits)
  then show thesis using that by blast
qed

section \<open>Decisions in the application's numbers\<close>

definition single_bits :: "u32 list \<Rightarrow> bool" where
  "single_bits ps \<longleftrightarrow> (\<forall>p \<in> set ps. p = 0 \<or> (\<exists>b < 32. p = push_bit b 1))"

definition apart :: "u32 list \<Rightarrow> bool" where
  "apart ps \<longleftrightarrow> (\<forall>j l. j < length ps \<longrightarrow> l < length ps \<longrightarrow> j \<noteq> l \<longrightarrow> ps ! j AND ps ! l = 0)"

lemma and_nonzero: "(x :: u32) AND y \<noteq> 0 \<longleftrightarrow> (\<exists>n. bit x n \<and> bit y n)"
proof -
  have "x AND y = 0 \<longleftrightarrow> (\<forall>n. \<not> bit (x AND y) n)" unfolding bit_eq_iff [of "x AND y" 0] using bit_imp_le_length [of "x AND y"] by auto
  then show ?thesis by (simp add: bit_and_iff)
qed

lemma apart_bits: "apart ps \<Longrightarrow> j < length ps \<Longrightarrow> l < length ps \<Longrightarrow> bit (ps ! j) n \<Longrightarrow> bit (ps ! l) n \<Longrightarrow> j = l"
  using and_nonzero unfolding apart_def by blast

text \<open>The permissions of a request are all the kernel's permissions it stands for.\<close>

lemma map_unmap_loop:
  assumes "apart ps" "length ps \<le> 32" and req: "\<And>b. bit t b \<Longrightarrow> b < length ps \<and> ps ! b \<noteq> 0"
  shows "map_loop 0 ps (unmap_loop 0 ps t 0) 0 = t"
proof (rule bit_eqI)
  fix n
  have "map_loop 0 ps (unmap_loop 0 ps t 0) 0 = decide_loop 0 ps (unmap_loop 0 ps t 0) 0"
    by (rule map_loop_decide) (use assms(1) in \<open>auto simp: apart_def\<close>)
  moreover have "bit (decide_loop 0 ps (unmap_loop 0 ps t 0) 0) n \<longleftrightarrow> n < length ps \<and> (\<exists>b j. j < length ps \<and> bit t j \<and> bit (ps ! j) b \<and> bit (ps ! n) b)"
    using assms(2) by (auto simp: decide_loop_bits unmap_loop_bits and_nonzero)
  moreover have "\<exists>b. bit (ps ! n) b" if "ps ! n \<noteq> 0" using that by (auto simp: bit_eq_iff)
  ultimately show "bit (map_loop 0 ps (unmap_loop 0 ps t 0) 0) n = bit t n"
    using req [of n] apart_bits [OF assms(1)] by metis
qed

lemma decide_unmap_loop:
  assumes "single_bits ps" "length ps \<le> 32" and req: "\<And>b. bit t b \<Longrightarrow> b < length ps \<and> ps ! b \<noteq> 0"
  shows "t AND NOT (decide_loop 0 ps av 0) = 0 \<longleftrightarrow> unmap_loop 0 ps t 0 AND NOT av = 0"
proof -
  have single: "av AND ps ! j \<noteq> 0 \<longleftrightarrow> (\<forall>b. bit (ps ! j) b \<longrightarrow> bit av b)" if t: "bit t j" for j
  proof -
    obtain b where "b < 32" "ps ! j = push_bit b 1" using assms(1) req [OF t] nth_mem unfolding single_bits_def by blast
    then show ?thesis by (auto simp: and_nonzero bit_exp_iff)
  qed
  have sub: "x AND NOT y = 0 \<longleftrightarrow> (\<forall>n. bit x n \<longrightarrow> bit y n)" for x y :: u32
    using and_nonzero [of x "NOT y"] bit_imp_le_length [of x] unfolding bit_not_iff by auto
  have "t AND NOT (decide_loop 0 ps av 0) = 0 \<longleftrightarrow> (\<forall>n. bit t n \<longrightarrow> av AND ps ! n \<noteq> 0)"
    using assms(2) req by (auto simp: sub decide_loop_bits)
  also have "\<dots> \<longleftrightarrow> (\<forall>n j. bit t j \<and> bit (ps ! j) n \<longrightarrow> bit av n)" using single by blast
  also have "\<dots> \<longleftrightarrow> unmap_loop 0 ps t 0 AND NOT av = 0" using assms(2) req by (auto simp: sub unmap_loop_bits)
  finally show ?thesis .
qed

lemma stores_apart:
  assumes "stores g names ps" "\<And>s. g s = 0 \<or> (\<exists>b < 32. g s = push_bit b 1)" "distinct (map g (filter (\<lambda>s. s \<noteq> []) names))"
  shows "single_bits ps" "apart ps"
proof -
  have one: "p AND q = 0" if "p \<noteq> q" "p = 0 \<or> (\<exists>b < 32. p = push_bit b 1)" "q = 0 \<or> (\<exists>b < 32. q = push_bit b 1)" for p q :: u32
    using that and_nonzero [of p q] by (auto simp: bit_exp_iff)
  have "single_bits ps \<and> (\<forall>j l. j < l \<longrightarrow> l < length ps \<longrightarrow> ps ! j AND ps ! l = 0)" using assms(1,3)
  proof (induction names arbitrary: ps)
    case Nil
    then show ?case by (simp add: stores_def single_bits_def)
  next
    case (Cons s ss)
    then obtain p qs where ps: "ps = p # qs" by (cases ps) (auto simp: stores_def)
    have st: "stores g ss qs" and p: "if s = [] then p = 0 else p = g s \<and> p \<noteq> 0" using Cons.prems ps by (auto simp: stores_Cons)
    have IH: "single_bits qs" "\<And>j l. j < l \<Longrightarrow> l < length qs \<Longrightarrow> qs ! j AND qs ! l = 0"
      using Cons.IH [OF st] Cons.prems(2) by (auto split: if_splits)
    have "p AND qs ! l = 0" if "l < length qs" for l
    proof (cases "p = 0 \<or> qs ! l = 0")
      case False
      then have "s \<noteq> []" "p = g s" "qs ! l = g (ss ! l)" "ss ! l \<in> set (filter (\<lambda>s. s \<noteq> []) ss)"
        using p st that by (auto simp: stores_def split: if_splits)
      then show ?thesis using Cons.prems(2) by (auto intro!: one assms(2))
    qed auto
    moreover have "p = 0 \<or> (\<exists>b < 32. p = push_bit b 1)" using p assms(2) [of s] by (auto split: if_splits)
    ultimately have "single_bits ps" "\<And>j l. j < l \<Longrightarrow> l < length ps \<Longrightarrow> ps ! j AND ps ! l = 0"
      using IH ps by (simp_all add: single_bits_def nth_Cons' less_diff_conv2 Suc_le_eq)
    then show ?case by blast
  qed
  then show "single_bits ps" and "apart ps" unfolding apart_def by (blast, metis and.commute linorder_neqE_nat)
qed

text \<open>Claim C16.
  An application that has set its mapping works in its own numbers: its class stands for
  the class of the kernel with that name, its permissions go to the kernel's and back unchanged, and it finds all the permissions of a request
  allowed by the translated decision exactly when the kernel's decision allows all the permissions they stand for. The lookups give a permission of
  the kernel as one bit, or 0 for an unknown name, and the names of the class stand for different permissions; the request uses no skipped one.
\<close>
theorem selinux_mapping_faithful:
  assumes set_ok: "fst (selinux_set_mapping string_to_class string_to_av_perm c (Some cs) a) = Inr (c', m, 0)"
    and cls: "i < length cs" "cs ! i = (nm, names)"
    and bits: "\<And>v s. string_to_av_perm v s = 0 \<or> (\<exists>b < 32. string_to_av_perm v s = push_bit b 1)"
    and diff: "distinct (map (string_to_av_perm (string_to_class nm)) (filter (\<lambda>s. s \<noteq> []) names))"
    and req: "\<And>b. bit tperm b \<Longrightarrow> b < length names \<and> names ! b \<noteq> []"
  shows "unmap_class m (of_nat (i + 1)) = string_to_class nm
    \<and> map_perm m (of_nat (i + 1)) (unmap_perm m (of_nat (i + 1)) tperm) = tperm
    \<and> (tperm AND NOT (allowed (map_decision m (of_nat (i + 1)) d)) = 0 \<longleftrightarrow> unmap_perm m (of_nat (i + 1)) tperm AND NOT (allowed d) = 0)"
proof -
  obtain ms where m: "m = \<lparr>sm_value = 0, sm_perms = []\<rparr> # ms" and ms: "store_classes string_to_class string_to_av_perm cs = Inr (Some ms)"
    and len: "length cs < 2 ^ 16 - 1" using selinux_set_mapping_ok [OF set_ok] .
  define ps where "ps = sm_perms (ms ! i)"
  have at: "i < length ms" "sm_value (ms ! i) = string_to_class nm" "stores (string_to_av_perm (string_to_class nm)) names ps" "length names \<le> 32"
    using store_classes_nth [OF ms cls] by (simp_all add: ps_def)
  have idx: "unat (of_nat (i + 1) :: u16) = i + 1" using len cls unfolding unat_of_nat by (intro mod_less) simp
  note loops = stores_apart [OF at(3) bits diff]
  have ps: "length ps \<le> 32" "\<And>b. bit tperm b \<Longrightarrow> b < length ps \<and> ps ! b \<noteq> 0" using at(3,4) req unfolding stores_def by (simp, metis)
  have "unmap_class m (of_nat (i + 1)) = string_to_class nm" using at m idx by (simp add: unmap_class_def)
  moreover have "map_perm m (of_nat (i + 1)) (unmap_perm m (of_nat (i + 1)) tperm) = tperm"
    using at m idx map_unmap_loop [OF loops(2) ps] by (simp add: map_perm_def unmap_perm_def ps_def)
  moreover have "tperm AND NOT (allowed (map_decision m (of_nat (i + 1)) d)) = 0 \<longleftrightarrow> unmap_perm m (of_nat (i + 1)) tperm AND NOT (allowed d) = 0"
    using at m idx decide_unmap_loop [OF loops(1) ps] by (simp add: map_decision_def unmap_perm_def ps_def Let_def)
  ultimately show ?thesis by blast
qed

definition idle_avc :: avc where
  "idle_avc = \<lparr>avc_cache = \<lparr>avc_nodes = [], slots = [], freelist = [], lru_hint = 0, active_nodes = 0, latest_notif = 0\<rparr>,
     avc_sidtab = \<lparr>us_htable = None, us_nel = 0\<rparr>, avc_callbacks = [], avc_running = False, avc_enforcing = 1, avc_setenforce = False,
     avc_using_threads = False, avc_app_main_loop = False\<rparr>"

definition kernel_class :: "string \<Rightarrow> u16" where
  "kernel_class s = (if s = ''file'' then 6 else 0)"

definition kernel_perm :: "u16 \<Rightarrow> string \<Rightarrow> u32" where
  "kernel_perm v s = (if s = ''read'' then 2 else if s = ''write'' then 4 else 0)"

definition kernel_decision :: avd where
  "kernel_decision = \<lparr>allowed = 4, decided = -1, auditallow = 0, auditdeny = -1, seqno = 1, avd_flags = 0\<rparr>"

definition file_mapping :: "selinux_mapping list" where
  "file_mapping = [\<lparr>sm_value = 0, sm_perms = []\<rparr>, \<lparr>sm_value = 6, sm_perms = [4, 0, 2]\<rparr>]"

lemma file_mapping_set:
  "fst (selinux_set_mapping kernel_class kernel_perm idle_avc (Some [(''file'', [''write'', [], ''read''])]) []) = Inr (idle_avc, file_mapping, 0)"
  by (simp add: selinux_set_mapping_def avc_reset_def idle_avc_def tryE_def bindE_def liftE_def returnE_def kernel_class_def kernel_perm_def file_mapping_def)

lemma kernel_perm_bits: "kernel_perm v s = 0 \<or> (\<exists>b < 32. kernel_perm v s = push_bit b 1)"
proof -
  have "\<exists>b < 32. (2 :: u32) = push_bit b 1" by (rule exI [of _ 1]) (simp add: push_bit_eq_mult)
  moreover have "\<exists>b < 32. (4 :: u32) = push_bit b 1" by (rule exI [of _ 2]) (simp add: push_bit_eq_mult)
  moreover have "kernel_perm v s = 0 \<or> kernel_perm v s = 2 \<or> kernel_perm v s = 4" by (simp add: kernel_perm_def)
  ultimately show ?thesis by (elim disjE) simp_all
qed

text \<open>The request 5 is reading and writing, in an order of the application's own; only writing is allowed.\<close>

theorem selinux_mapping_faithful_witness:
  "unmap_class file_mapping (of_nat (0 + 1)) = kernel_class ''file''
    \<and> map_perm file_mapping (of_nat (0 + 1)) (unmap_perm file_mapping (of_nat (0 + 1)) 5) = 5
    \<and> (5 AND NOT (allowed (map_decision file_mapping (of_nat (0 + 1)) kernel_decision)) = 0
        \<longleftrightarrow> unmap_perm file_mapping (of_nat (0 + 1)) 5 AND NOT (allowed kernel_decision) = 0)"
proof (rule selinux_mapping_faithful [OF file_mapping_set, where names = "[''write'', [], ''read'']"])
  show "distinct (map (kernel_perm (kernel_class ''file'')) (filter (\<lambda>s. s \<noteq> []) [''write'', [], ''read'']))" by (simp add: kernel_perm_def)
  show "b < length [''write'', [], ''read''] \<and> [''write'', [], ''read''] ! b \<noteq> []" if "bit (5 :: u32) b" for b
  proof -
    have "b = 0 \<or> b = 2" using that by (auto simp: bit_numeral_rec bit_1_iff split: nat.splits)
    then show ?thesis by auto
  qed
qed (rule kernel_perm_bits | simp)+

end
