(* ===== verification/Policy_Codec.thy ===== *)
theory Policy_Codec
  imports Conditional
begin

text \<open>
  Reading and writing structured data of a policy file. A reader maps a file to a value and the file behind it, a
  writer maps a file to the extended file; both are composed in the order of the calls of the source. \<open>code\<close> says that
  a reader makes of what a writer has written a value as described, and nothing more; \<open>safe\<close> says what a reader guarantees on
  arbitrary bytes; the locale \<open>codec\<close> is the interface of a reader and a writer of the same format.
\<close>

section \<open>Readers\<close>

type_synonym 'a reader = "policy_file \<Rightarrow> ('a \<times> policy_file) alloc_m"

definition bindP :: "'a reader \<Rightarrow> ('a \<Rightarrow> 'b reader) \<Rightarrow> 'b reader" where
  "bindP r f fp = bindE (r fp) (\<lambda>(v, fp'). f v fp')"

definition returnP :: "'a \<Rightarrow> 'a reader" where
  "returnP v fp = returnE (v, fp)"

definition liftP :: "'a alloc_m \<Rightarrow> 'a reader" where
  "liftP m fp = bindE m (\<lambda>v. returnE (v, fp))"

definition failP :: "'a reader \<Rightarrow> err \<Rightarrow> 'a reader" where
  "failP r e fp = failE (r fp) e"

definition throwP :: "err \<Rightarrow> 'a reader" where
  "throwP e fp = throwE e"

lemma bindE_liftP: "bindE (liftP m fp) f = bindE m (\<lambda>v. f (v, fp))"
  by (auto simp: liftP_def bindE_def returnE_def fun_eq_iff split: prod.splits sum.splits)

text \<open>A buffer of \<open>n\<close> little-endian 32-bit integers.\<close>

fun le32s :: "nat \<Rightarrow> u8 list \<Rightarrow> u32 list" where
  "le32s 0 bs = []"
| "le32s (Suc n) bs = get_le (take 4 bs) # le32s n (drop 4 bs)"

definition next_u32s :: "nat \<Rightarrow> u32 list reader" where
  "next_u32s n fp = bindE (liftE (next_entry fp (4 * n))) (\<lambda>(buf, fp'). returnE (le32s n buf, fp'))"

definition next_bytes :: "nat \<Rightarrow> u8 list reader" where
  "next_bytes n fp = liftE (next_entry fp n)"

text \<open>A string of \<open>len\<close> bytes, read into a buffer of \<open>len + 1\<close> bytes. Where \<open>len\<close> is a 32-bit integer the size of the
  buffer wraps around for the largest length, and the bytes are stored behind it.\<close>

definition next_key :: "u32 \<Rightarrow> string reader" where
  "next_key len = bindP (liftP malloc) (\<lambda>_. bindP (next_bytes (unat len)) (\<lambda>b. returnP (bytes_to_string b)))"

definition next_key32 :: "u32 \<Rightarrow> string reader" where
  "next_key32 len = bindP (liftP malloc) (\<lambda>_. bindP (next_bytes (unat len)) (\<lambda>b.
     if len + 1 = 0 then throwP Fault else returnP (bytes_to_string b)))"

text \<open>Loops that read \<open>n\<close> items, into a list or into a state.\<close>

fun listP :: "nat \<Rightarrow> 'a reader \<Rightarrow> 'a list reader" where
  "listP 0 r = returnP []"
| "listP (Suc n) r = bindP r (\<lambda>x. bindP (listP n r) (\<lambda>xs. returnP (x # xs)))"

fun repeatP :: "nat \<Rightarrow> ('s \<Rightarrow> 's reader) \<Rightarrow> 's \<Rightarrow> 's reader" where
  "repeatP 0 step s = returnP s"
| "repeatP (Suc n) step s = bindP (step s) (repeatP n step)"

fun foldP :: "('x \<Rightarrow> 's \<Rightarrow> 's reader) \<Rightarrow> 'x list \<Rightarrow> 's \<Rightarrow> 's reader" where
  "foldP step [] s = returnP s"
| "foldP step (x # xs) s = bindP (step x s) (foldP step xs)"

section \<open>Writers\<close>

type_synonym writer = "policy_file \<Rightarrow> policy_file alloc_m"

definition seqW :: "writer \<Rightarrow> writer \<Rightarrow> writer" where
  "seqW w w' fp = bindE (w fp) w'"

definition liftW :: "(policy_file \<Rightarrow> policy_file res) \<Rightarrow> writer" where
  "liftW w fp = liftE (w fp)"

definition failW :: "writer \<Rightarrow> err \<Rightarrow> writer" where
  "failW w e fp = failE (w fp) e"

definition string_to_bytes :: "string \<Rightarrow> u8 list" where
  "string_to_bytes s = map (\<lambda>c. of_nat (of_char c)) s"

definition put_u32s :: "u32 list \<Rightarrow> writer" where
  "put_u32s ws fp = (let (items, fp') = put_entry (concat (map (put_le 4) ws)) 4 (length ws) fp in
     if items \<noteq> length ws then throwE STATUS_ERR else returnE fp')"

definition put_string :: "string \<Rightarrow> writer" where
  "put_string s fp = (let (items, fp') = put_entry (string_to_bytes s) 1 (length s) fp in
     if items \<noteq> length s then throwE STATUS_ERR else returnE fp')"

lemma bindP_assoc: "bindP (bindP r f) g = bindP r (\<lambda>v. bindP (f v) g)"
  by (rule ext) (simp add: bindP_def bindE_assoc case_prod_unfold)

lemma bindP_returnP: "bindP (returnP x) f = f x" "bindP r returnP = r"
  by (rule ext, simp add: bindP_def returnP_def)+

lemma foldE_seqW: "foldE wr [] = returnE" "foldE wr (x # xs) = seqW (wr x) (foldE wr xs)"
  by (simp_all add: fun_eq_iff seqW_def)

section \<open>The bytes a reader consumes and a writer produces\<close>

definition reads :: "'a reader \<Rightarrow> u8 list \<Rightarrow> ('a \<Rightarrow> bool) \<Rightarrow> bool" where
  "reads r bs P \<longleftrightarrow> (\<forall>fp rest. pf_reads fp (bs @ rest) \<longrightarrow>
     (\<exists>v fp'. r fp [] = (Inr (v, fp'), []) \<and> pf_reads fp' rest \<and> P v))"

definition writes :: "writer \<Rightarrow> u8 list \<Rightarrow> bool" where
  "writes w bs \<longleftrightarrow> (\<forall>fp k a. pf_room fp (length bs + k) \<longrightarrow>
     (\<exists>fp'. w fp a = (Inr fp', a) \<and> pf_room fp' k \<and> pf_out fp' = pf_out fp @ bs))"

lemma reads_bindP:
  assumes "reads r bs P" "\<And>v. P v \<Longrightarrow> reads (f v) bs' Q"
  shows "reads (bindP r f) (bs @ bs') Q"
  unfolding reads_def
proof (intro allI impI)
  fix fp rest assume "pf_reads fp ((bs @ bs') @ rest)"
  with assms(1) obtain v fp1 where 1: "r fp [] = (Inr (v, fp1), [])" "pf_reads fp1 (bs' @ rest)" "P v"
    unfolding reads_def by (metis append.assoc)
  with assms(2) obtain u fp2 where "f v fp1 [] = (Inr (u, fp2), [])" "pf_reads fp2 rest" "Q u" unfolding reads_def by blast
  with 1(1) show "\<exists>u fp'. bindP r f fp [] = (Inr (u, fp'), []) \<and> pf_reads fp' rest \<and> Q u" by (auto simp: bindP_def bindE_def)
qed

lemma reads_weaken: "reads r bs P \<Longrightarrow> (\<And>v. P v \<Longrightarrow> Q v) \<Longrightarrow> reads r bs Q"
  unfolding reads_def by blast

lemma reads_returnP: "P v \<Longrightarrow> reads (returnP v) [] P"
  by (simp add: reads_def returnP_def returnE_def)

lemma reads_liftP: "m [] = (Inr v, []) \<Longrightarrow> P v \<Longrightarrow> reads (liftP m) [] P"
  by (auto simp: reads_def liftP_def bindE_def returnE_def)

lemma reads_failP: "reads r bs P \<Longrightarrow> reads (failP r e) bs P"
  unfolding reads_def failP_def by (metis failE_eq_Inr)

lemma reads_before: "reads r [] P \<Longrightarrow> (\<And>v. P v \<Longrightarrow> reads (f v) bs Q) \<Longrightarrow> reads (bindP r f) bs Q"
  using reads_bindP [of r "[]" P f bs Q] by simp

lemma reads_after: "reads r bs P \<Longrightarrow> (\<And>v. P v \<Longrightarrow> reads (f v) [] Q) \<Longrightarrow> reads (bindP r f) bs Q"
  using reads_bindP [of r bs P f "[]" Q] by simp

lemma reads_lift:
  assumes "m [] = (Inr v, [])" "reads (f v) bs Q"
  shows "reads (bindP (liftP m) f) bs Q"
proof (rule reads_before)
  show "reads (liftP m) [] ((=) v)" using assms(1) by (rule reads_liftP) simp
qed (use assms(2) in simp)

lemma reads_malloc: "reads (f ()) bs Q \<Longrightarrow> reads (bindP (liftP malloc) f) bs Q"
  by (rule reads_before [OF reads_liftP [of malloc "()" "\<lambda>_. True"]]) auto

lemma reads_bytes: "bs \<noteq> [] \<Longrightarrow> reads (next_bytes (length bs)) bs ((=) bs)"
  unfolding reads_def next_bytes_def
proof (intro allI impI)
  fix fp rest assume bs: "bs \<noteq> []" and "pf_reads fp (bs @ rest)"
  from next_entry_append [OF this(2), of "length bs"] bs obtain fp' where "next_entry fp (length bs) = Inr (bs, fp')" "pf_reads fp' rest" by auto
  then show "\<exists>v fp'. liftE (next_entry fp (length bs)) [] = (Inr (v, fp'), []) \<and> pf_reads fp' rest \<and> bs = v" by simp
qed

abbreviation image32 :: "u32 list \<Rightarrow> u8 list" where
  "image32 ws \<equiv> concat (map (put_le 4) ws)"

lemma length_image32 [simp]: "length (image32 ws) = 4 * length ws"
  by (induction ws) auto

lemma le32s_image: "le32s (length ws) (image32 ws) = ws"
  by (induction ws) auto

lemma reads_u32s:
  assumes "ws \<noteq> []" "length ws = n"
  shows "reads (next_u32s n) (image32 ws) ((=) ws)"
  unfolding reads_def next_u32s_def
proof (intro allI impI)
  fix fp rest assume "pf_reads fp (image32 ws @ rest)"
  from next_entry_append [OF this, of "4 * n"] assms obtain fp' where "next_entry fp (4 * n) = Inr (image32 ws, fp')" "pf_reads fp' rest" by auto
  then show "\<exists>v fp'. bindE (liftE (next_entry fp (4 * n))) (\<lambda>(buf, fp'). returnE (le32s n buf, fp')) [] = (Inr (v, fp'), []) \<and> pf_reads fp' rest \<and> ws = v"
    using le32s_image [of ws] assms(2) by simp
qed

text \<open>Names that survive a file: not empty, without a null character, and shorter than the largest 32-bit integer.\<close>

definition name_ok :: "string \<Rightarrow> bool" where
  "name_ok s \<longleftrightarrow> s \<noteq> [] \<and> CHR 0x00 \<notin> set s \<and> length s < 2 ^ 32 - 1"

lemma bytes_to_string_to_bytes: "CHR 0x00 \<notin> set s \<Longrightarrow> bytes_to_string (string_to_bytes s) = s"
proof (induction s)
  case (Cons c s)
  have u: "unat (of_nat (of_char c) :: u8) = of_char c" by (simp add: unat_of_nat)
  have "(of_char c :: nat) \<noteq> 0"
  proof
    assume "(of_char c :: nat) = 0"
    then have "char_of (0 :: nat) = c" by (metis char_of_char)
    with Cons.prems show False by (simp add: char_of_def)
  qed
  then have "(of_nat (of_char c) :: u8) \<noteq> 0" using u by (metis unsigned_0)
  then show ?case using Cons u by (simp add: bytes_to_string_def string_to_bytes_def)
qed (simp add: bytes_to_string_def string_to_bytes_def)

lemma length_string_to_bytes [simp]: "length (string_to_bytes s) = length s"
  by (simp add: string_to_bytes_def)

lemma name_ok_length: "name_ok s \<Longrightarrow> unat (of_nat (length s) :: u32) = length s" "name_ok s \<Longrightarrow> (of_nat (length s) :: u32) + 1 \<noteq> 0"
proof -
  assume "name_ok s"
  then have l: "length s < 2 ^ 32 - 1" by (simp add: name_ok_def)
  then show u: "unat (of_nat (length s) :: u32) = length s" by (intro unat_of_nat_u32) simp
  show "(of_nat (length s) :: u32) + 1 \<noteq> 0"
  proof
    assume "(of_nat (length s) :: u32) + 1 = 0"
    then have "unat ((of_nat (length s) :: u32) + 1) = 0" by simp
    with u l show False by (simp add: unat_word_ariths)
  qed
qed

lemma reads_key:
  assumes "name_ok s"
  shows "reads (next_key (of_nat (length s))) (string_to_bytes s) ((=) s)"
    "reads (next_key32 (of_nat (length s))) (string_to_bytes s) ((=) s)"
proof -
  have ne: "string_to_bytes s \<noteq> []" using assms by (simp add: name_ok_def string_to_bytes_def)
  note b = reads_bytes [OF ne, unfolded length_string_to_bytes] and s = bytes_to_string_to_bytes [of s]
  have "reads (bindP (next_bytes (length s)) (\<lambda>b. returnP (bytes_to_string b))) (string_to_bytes s) ((=) s)"
    by (rule reads_after [OF b]) (use assms s in \<open>simp add: name_ok_def reads_returnP\<close>)
  then show "reads (next_key (of_nat (length s))) (string_to_bytes s) ((=) s)"
    unfolding next_key_def name_ok_length(1) [OF assms] by (rule reads_malloc)
  have "reads (bindP (next_bytes (length s)) (\<lambda>b. if (of_nat (length s) :: u32) + 1 = 0 then throwP Fault else returnP (bytes_to_string b))) (string_to_bytes s) ((=) s)"
    by (rule reads_after [OF b]) (use assms s name_ok_length(2) [OF assms] in \<open>simp add: name_ok_def reads_returnP\<close>)
  then show "reads (next_key32 (of_nat (length s))) (string_to_bytes s) ((=) s)"
    unfolding next_key32_def name_ok_length(1) [OF assms] by (rule reads_malloc)
qed

text \<open>Writers.\<close>

lemma writes_seqW: "writes w bs \<Longrightarrow> writes w' bs' \<Longrightarrow> writes (seqW w w') (bs @ bs')"
  unfolding writes_def
proof (intro allI impI)
  fix fp k a
  assume w: "\<forall>fp k a. pf_room fp (length bs + k) \<longrightarrow> (\<exists>fp'. w fp a = (Inr fp', a) \<and> pf_room fp' k \<and> pf_out fp' = pf_out fp @ bs)"
    "\<forall>fp k a. pf_room fp (length bs' + k) \<longrightarrow> (\<exists>fp'. w' fp a = (Inr fp', a) \<and> pf_room fp' k \<and> pf_out fp' = pf_out fp @ bs')"
    and "pf_room fp (length (bs @ bs') + k)"
  then have "pf_room fp (length bs + (length bs' + k))" by (simp add: add.assoc)
  with w(1) obtain fp1 where 1: "w fp a = (Inr fp1, a)" "pf_room fp1 (length bs' + k)" "pf_out fp1 = pf_out fp @ bs" by blast
  with w(2) obtain fp2 where "w' fp1 a = (Inr fp2, a)" "pf_room fp2 k" "pf_out fp2 = pf_out fp1 @ bs'" by blast
  with 1 show "\<exists>fp'. seqW w w' fp a = (Inr fp', a) \<and> pf_room fp' k \<and> pf_out fp' = pf_out fp @ bs @ bs'" by (auto simp: seqW_def bindE_def)
qed

lemma writes_returnE [simp]: "writes returnE []"
  by (simp add: writes_def returnE_def)

lemma writes_liftW:
  assumes "\<And>fp k. pf_room fp (length bs + k) \<Longrightarrow> \<exists>fp'. w fp = Inr fp' \<and> pf_room fp' k \<and> pf_out fp' = pf_out fp @ bs"
  shows "writes (liftW w) bs"
  unfolding writes_def liftW_def using assms by (metis liftE_def)

lemma writes_failW: "writes w bs \<Longrightarrow> writes (failW w e) bs"
  unfolding writes_def failW_def by (metis failE_eq_Inr)

lemma writes_u32s: "writes (put_u32s ws) (image32 ws)"
  unfolding writes_def
proof (intro allI impI)
  fix fp k and a :: alloc assume "pf_room fp (length (image32 ws) + k)"
  from put_entry_room [OF this, of 4 "length ws"] obtain fp' where "put_entry (image32 ws) 4 (length ws) fp = (length ws, fp')" "pf_room fp' k" "pf_out fp' = pf_out fp @ image32 ws" by auto
  then show "\<exists>fp'. put_u32s ws fp a = (Inr fp', a) \<and> pf_room fp' k \<and> pf_out fp' = pf_out fp @ image32 ws" by (simp add: put_u32s_def returnE_def)
qed

lemma writes_string: "writes (put_string s) (string_to_bytes s)"
  unfolding writes_def
proof (intro allI impI)
  fix fp k and a :: alloc assume "pf_room fp (length (string_to_bytes s) + k)"
  from put_entry_room [OF this, of 1 "length s"] obtain fp' where "put_entry (string_to_bytes s) 1 (length s) fp = (length s, fp')" "pf_room fp' k"
    "pf_out fp' = pf_out fp @ string_to_bytes s" by auto
  then show "\<exists>fp'. put_string s fp a = (Inr fp', a) \<and> pf_room fp' k \<and> pf_out fp' = pf_out fp @ string_to_bytes s" by (simp add: put_string_def returnE_def)
qed

section \<open>Readers and writers that agree\<close>

text \<open>\<open>code w r Q\<close>: the bytes that \<open>w\<close> writes are those that \<open>r\<close> reads, with a result as described. A writer writes the same bytes
  to every file, so that a reader may depend on what was read before (\<open>code_bind\<close>).\<close>

definition code :: "writer \<Rightarrow> 'a reader \<Rightarrow> ('a \<Rightarrow> bool) \<Rightarrow> bool" where
  "code w r Q \<longleftrightarrow> (\<exists>bs. writes w bs \<and> reads r bs Q)"

lemma seqW_returnE [simp]: "seqW w returnE = w" "seqW returnE w = w"
  by (simp_all add: fun_eq_iff seqW_def)

lemma seqW_assoc: "seqW (seqW w w') w'' = seqW w (seqW w' w'')"
proof
  have "seqW w' w'' = (\<lambda>v. bindE (w' v) w'')" by (simp add: fun_eq_iff seqW_def)
  then show "seqW (seqW w w') w'' fp = seqW w (seqW w' w'') fp" for fp by (simp add: seqW_def bindE_assoc)
qed

lemma reads_step: "reads r bs ((=) x) \<Longrightarrow> reads (f x) bs' Q \<Longrightarrow> reads (bindP r f) (bs @ bs') Q"
  by (erule reads_bindP) auto

lemma reads_step_end: "reads r bs ((=) x) \<Longrightarrow> reads (f x) [] Q \<Longrightarrow> reads (bindP r f) bs Q"
  by (erule reads_after) auto

lemma writes_unique:
  assumes "writes w bs" "writes w bs'"
  shows "bs = bs'"
proof -
  let ?fp = "\<lparr>pf_type = PF_USE_STDIO, pf_data = [], pf_len = 0, pf_out = []\<rparr>"
  have room: "pf_room ?fp n" for n by (simp add: pf_room_def)
  obtain fp where 1: "w ?fp [] = (Inr fp, [])" "pf_out fp = bs" using assms(1) room [of "length bs + 0"] unfolding writes_def by fastforce
  obtain fp' where "w ?fp [] = (Inr fp', [])" "pf_out fp' = bs'" using assms(2) room [of "length bs' + 0"] unfolding writes_def by fastforce
  with 1 show ?thesis by simp
qed

lemma code_bind:
  assumes "code w r P" "\<And>v. P v \<Longrightarrow> code w' (f v) Q"
  shows "code (seqW w w') (bindP r f) Q"
proof -
  from assms(1) obtain bs where bs: "writes w bs" "reads r bs P" unfolding code_def by blast
  have "\<exists>v. P v" using bs(2) pf_reads_of_bytes [of "bs @ []"] unfolding reads_def by blast
  with assms(2) obtain bs' where bs': "writes w' bs'" unfolding code_def by blast
  have "reads (f v) bs' Q" if "P v" for v using assms(2) [OF that] bs' writes_unique unfolding code_def by blast
  then have "reads (bindP r f) (bs @ bs') Q" by (rule reads_bindP [OF bs(2)])
  with writes_seqW [OF bs(1) bs'] show ?thesis unfolding code_def by blast
qed

lemma code_step: "code w r ((=) x) \<Longrightarrow> code w' (f x) Q \<Longrightarrow> code (seqW w w') (bindP r f) Q"
  unfolding code_def by (blast intro: writes_seqW reads_step)

lemma code_end: "code w r P \<Longrightarrow> (\<And>v. P v \<Longrightarrow> reads (f v) [] Q) \<Longrightarrow> code w (bindP r f) Q"
  unfolding code_def by (meson reads_after)

lemma code_lift: "m [] = (Inr v, []) \<Longrightarrow> code w (f v) Q \<Longrightarrow> code w (bindP (liftP m) f) Q"
  unfolding code_def using reads_before [OF reads_liftP, of m v "(=) v" f _ Q] by metis

lemma code_malloc: "code w (f ()) Q \<Longrightarrow> code w (bindP (liftP malloc) f) Q"
  by (rule code_lift [of malloc "()"]) simp_all

lemma code_pure: "code w (f x) Q \<Longrightarrow> code w (bindP (returnP x) f) Q"
  unfolding code_def using reads_before [OF reads_returnP, of "(=) x" x f _ Q] by metis

lemma code_failP: "code w r Q \<Longrightarrow> code w (failP r e) Q"
  unfolding code_def by (blast intro: reads_failP)

lemma code_failW: "code w r Q \<Longrightarrow> code (failW w e) r Q"
  unfolding code_def by (blast intro: writes_failW)

lemma code_weaken: "code w r P \<Longrightarrow> (\<And>v. P v \<Longrightarrow> Q v) \<Longrightarrow> code w r Q"
  unfolding code_def by (blast intro: reads_weaken)

lemma code_returnP: "Q v \<Longrightarrow> code returnE (returnP v) Q"
  unfolding code_def by (intro exI [of _ "[]"]) (simp add: reads_returnP)

lemma code_u32s: "ws \<noteq> [] \<Longrightarrow> length ws = n \<Longrightarrow> code (put_u32s ws) (next_u32s n) ((=) ws)"
  unfolding code_def using writes_u32s reads_u32s by blast

text \<open>A count that is written with the items but read before them.\<close>

lemma code_u32s_split:
  assumes "f [n] = bindP (next_u32s (length ws)) g" "ws \<noteq> []" "code w (g ws) Q"
  shows "code (seqW (put_u32s (n # ws)) w) (bindP (next_u32s 1) f) Q"
proof -
  from assms(3) obtain bs where bs: "writes w bs" "reads (g ws) bs Q" unfolding code_def by blast
  have f: "reads (f [n]) (image32 ws @ bs) Q" unfolding assms(1) by (rule reads_step [OF reads_u32s [OF assms(2) refl]], rule bs(2))
  have "reads (bindP (next_u32s 1) f) (image32 [n] @ (image32 ws @ bs)) Q" by (rule reads_step [OF reads_u32s], simp, simp, rule f)
  then have "reads (bindP (next_u32s 1) f) (image32 (n # ws) @ bs) Q" by simp
  then show ?thesis unfolding code_def using writes_seqW [OF writes_u32s bs(1)] by blast
qed

lemma code_key: "name_ok s \<Longrightarrow> code (put_string s) (next_key (of_nat (length s))) ((=) s)"
    "name_ok s \<Longrightarrow> code (put_string s) (next_key32 (of_nat (length s))) ((=) s)"
  unfolding code_def using writes_string reads_key by blast+

lemma code_list_map:
  assumes "\<And>x. x \<in> set xs \<Longrightarrow> code (wr x) r ((=) (f x))"
  shows "code (foldE wr xs) (listP (length xs) r) ((=) (map f xs))"
  using assms
proof (induction xs)
  case Nil
  have "foldE wr [] = returnE" by (rule ext) simp
  then show ?case by (simp add: code_returnP)
next
  case (Cons x xs)
  have w: "foldE wr (x # xs) = seqW (wr x) (foldE wr xs)" by (simp add: fun_eq_iff seqW_def)
  have x: "code (wr x) r ((=) (f x))" and xs: "code (foldE wr xs) (listP (length xs) r) ((=) (map f xs))" using Cons by simp_all
  show ?case unfolding w list.size add_0_right add_Suc_right listP.simps
    by (rule code_step [OF x], rule code_end [OF xs]) (simp add: reads_returnP)
qed

lemma code_listP: "(\<And>x. x \<in> set xs \<Longrightarrow> code (wr x) r ((=) x)) \<Longrightarrow> code (foldE wr xs) (listP (length xs) r) ((=) xs)"
  using code_list_map [of xs wr r "\<lambda>x. x"] by simp

text \<open>A list with its length in front of it.\<close>

lemma code_counted:
  assumes "\<And>x. x \<in> set xs \<Longrightarrow> code (wr x) r ((=) (f x))" "length xs < 2 ^ 32" "reads (fin (map f xs)) [] Q"
  shows "code (seqW (put_u32s [of_nat (length xs)]) (foldE wr xs)) (bindP (next_u32s 1) (\<lambda>buf. bindP (listP (unat (buf ! 0)) r) fin)) Q"
proof (rule code_step [OF code_u32s])
  show "code (foldE wr xs) (bindP (listP (unat ([of_nat (length xs) :: u32] ! 0)) r) fin) Q"
    using code_end [OF code_list_map [OF assms(1)]] assms(2,3) by (auto simp: unat_of_nat_u32)
qed simp_all

text \<open>Reading items into a state: \<open>I xs\<close> holds after the items \<open>xs\<close>.\<close>

lemma code_foldP:
  assumes "I [] s" "\<And>ys x zs s. ys @ x # zs = xs \<Longrightarrow> I ys s \<Longrightarrow> code (wr x) (step (g x) s) (I (ys @ [x]))"
  shows "code (foldE wr xs) (foldP step (map g xs) s) (I xs)"
proof -
  have "code (foldE wr zs) (foldP step (map g zs) s) (I xs)" if "ys @ zs = xs" "I ys s" for ys zs s
    using that
  proof (induction zs arbitrary: ys s)
    case Nil
    then show ?case by (simp add: foldE_seqW code_returnP)
  next
    case (Cons z zs)
    show ?case unfolding foldE_seqW list.map foldP.simps
      by (rule code_bind, rule assms(2) [OF Cons.prems], rule Cons.IH [of "ys @ [z]"]) (use Cons.prems(1) in simp_all)
  qed
  from this [of "[]" xs s] assms(1) show ?thesis by simp
qed

lemma repeatP_foldP: "repeatP (length xs) step = foldP (\<lambda>_. step) xs"
proof (induction xs)
  case (Cons x xs)
  then show ?case by (intro ext) (simp add: Cons.IH)
qed (simp add: fun_eq_iff)

lemma code_repeatP:
  assumes "I [] s" "\<And>ys x zs s. ys @ x # zs = xs \<Longrightarrow> I ys s \<Longrightarrow> code (wr x) (step s) (I (ys @ [x]))"
  shows "code (foldE wr xs) (repeatP (length xs) step s) (I xs)"
  unfolding repeatP_foldP using code_foldP [where g = "\<lambda>x. x" and step = "\<lambda>_. step", OF assms] by simp

section \<open>Arbitrary bytes\<close>

definition pf_sane :: "policy_file \<Rightarrow> bool" where
  "pf_sane fp \<longleftrightarrow> pf_ok fp \<and> length (pf_data fp) < 2 ^ 32 - 1"

text \<open>On a file that was opened properly and is smaller than the largest 32-bit integer, whatever its bytes and whichever allocations fail, a safe reader ends with an error
  code or with a value as described.\<close>

definition safe :: "'a reader \<Rightarrow> ('a \<Rightarrow> bool) \<Rightarrow> bool" where
  "safe r Q \<longleftrightarrow> (\<forall>fp a. pf_sane fp \<longrightarrow>
     (\<forall>e b. r fp a = (Inl e, b) \<longrightarrow> err_code e) \<and> (\<forall>v fp' b. r fp a = (Inr (v, fp'), b) \<longrightarrow> pf_sane fp' \<and> Q v))"

named_theorems safe_intros

lemma safe_bindP:
  assumes "safe r P" "\<And>v. P v \<Longrightarrow> safe (f v) Q"
  shows "safe (bindP r f) Q"
  unfolding safe_def
proof (intro allI impI)
  fix fp a assume fp: "pf_sane fp"
  obtain x b where r: "r fp a = (x, b)" by fastforce
  show "(\<forall>e b. bindP r f fp a = (Inl e, b) \<longrightarrow> err_code e) \<and> (\<forall>v fp' b. bindP r f fp a = (Inr (v, fp'), b) \<longrightarrow> pf_sane fp' \<and> Q v)"
  proof (cases x)
    case (Inl e)
    then have "bindP r f fp a = (Inl e, b)" using r by (simp add: bindP_def bindE_def)
    moreover have "err_code e" using assms(1) fp r Inl unfolding safe_def by blast
    ultimately show ?thesis by simp
  next
    case (Inr y)
    obtain v fp1 where y: "y = (v, fp1)" by fastforce
    then have "pf_sane fp1" "P v" using assms(1) fp r Inr unfolding safe_def by blast+
    moreover have "bindP r f fp a = f v fp1 b" using r Inr y by (simp add: bindP_def bindE_def)
    ultimately show ?thesis using assms(2) [of v] unfolding safe_def by simp
  qed
qed

lemma safe_weaken: "safe r P \<Longrightarrow> (\<And>v. P v \<Longrightarrow> Q v) \<Longrightarrow> safe r Q"
  unfolding safe_def by blast

lemma safe_returnP [safe_intros]: "Q v \<Longrightarrow> safe (returnP v) Q"
  by (simp add: safe_def returnP_def)

lemma safe_throwP [safe_intros]: "err_code e \<Longrightarrow> safe (throwP e) Q"
  by (simp add: safe_def throwP_def)

lemma safe_failP [safe_intros]: "safe r Q \<Longrightarrow> err_code e \<Longrightarrow> safe (failP r e) Q"
  unfolding safe_def failP_def failE_def by (fastforce split: prod.splits sum.splits)

lemma safe_liftP: "(\<And>a e b. m a = (Inl e, b) \<Longrightarrow> err_code e) \<Longrightarrow> (\<And>a v b. m a = (Inr v, b) \<Longrightarrow> Q v) \<Longrightarrow> safe (liftP m) Q"
  unfolding safe_def liftP_def by (auto simp: bindE_def returnE_def split: prod.splits sum.splits)

lemma safe_malloc: "safe (f ()) Q \<Longrightarrow> safe (bindP (liftP malloc) f) Q"
proof (rule safe_bindP)
  have "malloc a = (Inl e, b) \<Longrightarrow> e = ENOMEM" for a e b using malloc_cases [of a] by auto
  then show "safe (liftP malloc) (\<lambda>_. True)" by (intro safe_liftP) auto
qed simp

lemma safe_bytes: "safe (next_bytes n) (\<lambda>b. length b = n \<and> n < 2 ^ 32 - 1)"
proof -
  have "err_code e" if "pf_sane fp" "next_entry fp n = Inl e" for fp e
    using that by (cases "pf_type fp") (auto simp: next_entry_def pf_sane_def pf_ok_def split: if_splits)
  moreover have "pf_sane fp' \<and> length b = n \<and> n < 2 ^ 32 - 1" if "pf_sane fp" "next_entry fp n = Inr (b, fp')" for fp b fp'
    using next_entry_ok [of fp n b fp'] that by (cases "pf_type fp") (auto simp: next_entry_def pf_sane_def split: if_splits)
  ultimately show ?thesis unfolding safe_def next_bytes_def liftE_eq by metis
qed

lemma length_le32s [simp]: "length (le32s n bs) = n"
  by (induction n bs rule: le32s.induct) auto

lemma safe_u32s: "safe (next_u32s n) (\<lambda>ws. length ws = n)"
proof -
  have "safe (bindP (next_bytes (4 * n)) (\<lambda>buf. returnP (le32s n buf))) (\<lambda>ws. length ws = n)"
    by (rule safe_bindP [OF safe_bytes]) (simp add: safe_returnP)
  then show ?thesis unfolding next_u32s_def bindP_def next_bytes_def returnP_def by simp
qed

lemma safe_key: "safe (next_key len) (\<lambda>_. True)"
  unfolding next_key_def by (rule safe_malloc, rule safe_bindP [OF safe_bytes]) (simp add: safe_returnP)

lemma safe_key32: "safe (next_key32 len) (\<lambda>_. True)"
proof -
  have "len + 1 \<noteq> 0" if "unat len < 2 ^ 32 - 1"
  proof
    assume "len + 1 = 0"
    then have "unat (len + 1) = 0" by simp
    with that show False by (simp add: unat_word_ariths)
  qed
  then show ?thesis unfolding next_key32_def by (intro safe_malloc, intro safe_bindP [OF safe_bytes]) (simp add: safe_returnP)
qed

lemma safe_listP:
  assumes "safe r Q"
  shows "safe (listP n r) (\<lambda>xs. length xs = n \<and> (\<forall>x \<in> set xs. Q x))"
proof (induction n)
  case (Suc n)
  show ?case unfolding listP.simps by (rule safe_bindP [OF assms], rule safe_bindP [OF Suc]) (simp add: safe_returnP)
qed (simp add: safe_returnP)

lemma safe_repeatP: "I s \<Longrightarrow> (\<And>s. I s \<Longrightarrow> safe (step s) I) \<Longrightarrow> safe (repeatP n step s) I"
proof (induction n arbitrary: s)
  case (Suc n)
  then show ?case by (auto intro: safe_bindP)
qed (simp add: safe_returnP)

section \<open>The interface of a format\<close>

locale codec =
  fixes rd :: "'a reader"
    and wr :: "'a \<Rightarrow> writer"
    and ok :: "'a \<Rightarrow> bool"
  assumes codec: "ok x \<Longrightarrow> code (wr x) rd ((=) x)"
begin

lemma list_codec: "\<forall>x \<in> set xs. ok x \<Longrightarrow> code (foldE wr xs) (listP (length xs) rd) ((=) xs)"
  by (rule code_listP) (simp add: codec)

lemma counted_codec:
  assumes "\<forall>x \<in> set xs. ok x" "length xs < 2 ^ 32" "reads (fin xs) [] Q"
  shows "code (seqW (put_u32s [of_nat (length xs)]) (foldE wr xs)) (bindP (next_u32s 1) (\<lambda>buf. bindP (listP (unat (buf ! 0)) rd) fin)) Q"
  by (rule code_counted [where f = "\<lambda>x. x"]) (use assms codec in simp_all)

end

text \<open>Writing to a file with room for the bytes and reading them back.\<close>

lemma code_roundtrip:
  assumes "code w r Q"
  obtains bs where "\<And>fp a. pf_room fp (length bs) \<Longrightarrow> \<exists>fp'. w fp a = (Inr fp', a) \<and> pf_out fp' = pf_out fp @ bs"
    and "\<And>rest. \<exists>v fp'. r (pf_of_bytes (bs @ rest)) [] = (Inr (v, fp'), []) \<and> pf_reads fp' rest \<and> Q v"
proof -
  from assms obtain bs where bs: "writes w bs" "reads r bs Q" unfolding code_def by blast
  show thesis
  proof (rule that [of bs])
    show "\<exists>fp'. w fp a = (Inr fp', a) \<and> pf_out fp' = pf_out fp @ bs" if "pf_room fp (length bs)" for fp a
      using bs(1) that unfolding writes_def by (metis add.right_neutral)
    show "\<exists>v fp'. r (pf_of_bytes (bs @ rest)) [] = (Inr (v, fp'), []) \<and> pf_reads fp' rest \<and> Q v" for rest
      using bs(2) pf_reads_of_bytes unfolding reads_def by blast
  qed
qed

interpretation eb: codec ebitmap_read "\<lambda>e. liftW (ebitmap_write e)" ebitmap_ok
proof
  fix e assume "ebitmap_ok e"
  then have "reads ebitmap_read (ebitmap_image e) ((=) e)" unfolding reads_def using ebitmap_read_image yields_no_oom by blast
  moreover have "writes (liftW (ebitmap_write e)) (ebitmap_image e)" by (rule writes_liftW) (rule ebitmap_write_image)
  ultimately show "code (liftW (ebitmap_write e)) ebitmap_read ((=) e)" unfolding code_def by blast
qed

end
