(* ===== verification/Policydb_Symbols.thy ===== *)
theory Policydb_Symbols
  imports Policy_Codec Contexts
begin

text \<open>
  The symbols of a kernel policy in the policy file: reading (policydb.c) and writing (write.c) of sets, levels, ranges,
  permissions, commons, classes with their constraints, roles, types, users, sensitivities and categories. The Booleans are read
  by conditional.c. \<open>sc\<close> says whether \<open>char\<close> is a signed type. The branches for policy modules are left out.
\<close>

unbundle bit_operations_syntax

section \<open>Sets, levels and ranges\<close>

definition role_set_read :: "role_set reader" where
  "role_set_read = failP (bindP ebitmap_read (\<lambda>roles. bindP (next_u32s 1) (\<lambda>buf.
     returnP \<lparr>rs_roles = roles, rs_flags = buf ! 0\<rparr>))) STATUS_ERR"

definition type_set_read :: "type_set reader" where
  "type_set_read = failP (bindP ebitmap_read (\<lambda>types. bindP ebitmap_read (\<lambda>negset. bindP (next_u32s 1) (\<lambda>buf.
     returnP \<lparr>ts_types = types, ts_negset = negset, ts_flags = buf ! 0\<rparr>)))) STATUS_ERR"

text \<open>With a count of 0 the first sensitivity is what the buffer holds, the count.\<close>

definition mls_read_range_helper :: "mls_range reader" where
  "mls_read_range_helper = bindP (next_u32s 1) (\<lambda>buf0. let items = buf0 ! 0 in
     if items > 2 then throwP EINVAL
     else bindP (next_u32s (unat items)) (\<lambda>buf.
       let sens0 = (if items = 0 then buf0 ! 0 else buf ! 0); sens1 = (if items > 1 then buf ! 1 else sens0) in
       bindP ebitmap_read (\<lambda>cat0. bindP (if items > 1 then ebitmap_read else liftP (ebitmap_cpy cat0)) (\<lambda>cat1.
         returnP \<lparr>low = \<lparr>sens = sens0, cat = cat0\<rparr>, high = \<lparr>sens = sens1, cat = cat1\<rparr>\<rparr>))))"

definition mls_read_level :: "mls_level reader" where
  "mls_read_level = failP (bindP (next_u32s 1) (\<lambda>buf. bindP ebitmap_read (\<lambda>c. returnP \<lparr>sens = buf ! 0, cat = c\<rparr>))) EINVAL"

definition role_set_write :: "role_set \<Rightarrow> writer" where
  "role_set_write x = seqW (liftW (ebitmap_write (rs_roles x))) (put_u32s [rs_flags x])"

definition type_set_write :: "type_set \<Rightarrow> writer" where
  "type_set_write x = seqW (liftW (ebitmap_write (ts_types x))) (seqW (liftW (ebitmap_write (ts_negset x))) (put_u32s [ts_flags x]))"

definition mls_write_level :: "mls_level \<Rightarrow> writer" where
  "mls_write_level l = seqW (put_u32s [sens l]) (liftW (ebitmap_write (cat l)))"

definition mls_write_range_helper :: "mls_range \<Rightarrow> writer" where
  "mls_write_range_helper r = (let eq = mls_level_eq (high r) (low r) in
     seqW (put_u32s (if eq then [1, sens (low r)] else [2, sens (low r), sens (high r)]))
       (seqW (liftW (ebitmap_write (cat (low r)))) (if eq then returnE else liftW (ebitmap_write (cat (high r))))))"

section \<open>Contexts\<close>

definition context_read_and_validate :: "policydb \<Rightarrow> context_struct reader" where
  "context_read_and_validate p = failP (bindP (next_u32s 3) (\<lambda>buf.
     bindP (if policyvers p \<ge> POLICYDB_VERSION_MLS then mls_read_range_helper else returnP mls_range_init) (\<lambda>r.
       let c = \<lparr>c_user = buf ! 0, c_role = buf ! 1, c_type = buf ! 2, c_range = r\<rparr> in
       bindP (liftP (liftE (policydb_context_isvalid p c))) (\<lambda>valid.
         if \<not> valid then throwP STATUS_ERR else returnP c)))) STATUS_ERR"

definition context_write :: "policydb \<Rightarrow> context_struct \<Rightarrow> writer" where
  "context_write p c = seqW (put_u32s [c_user c, c_role c, c_type c])
     (if policyvers p \<ge> POLICYDB_VERSION_MLS then mls_write_range_helper (c_range c) else returnE)"

section \<open>Permissions and commons\<close>

definition perm_read :: "(string, perm_datum) hashtab_t \<Rightarrow> (string, perm_datum) hashtab_t reader" where
  "perm_read h = failP (bindP (liftP malloc) (\<lambda>_. bindP (next_u32s 2) (\<lambda>buf. bindP (next_key (buf ! 0)) (\<lambda>key.
     liftP (hashtab_insert h key \<lparr>pd_value = buf ! 1\<rparr>))))) STATUS_ERR"

abbreviation (input) "PERM_SYMTAB_SIZE \<equiv> 32 :: u32"

definition common_read :: "bool \<Rightarrow> (string, common_datum) hashtab_t \<Rightarrow> (string, common_datum) hashtab_t reader" where
  "common_read sc h = failP (bindP (liftP malloc) (\<lambda>_. bindP (next_u32s 4) (\<lambda>buf.
     bindP (liftP (symtab_init sc PERM_SYMTAB_SIZE)) (\<lambda>perms. bindP (next_key (buf ! 0)) (\<lambda>key.
     bindP (repeatP (unat (buf ! 3)) perm_read (table perms)) (\<lambda>t.
       liftP (hashtab_insert h key \<lparr>cmd_value = buf ! 1, cmd_permissions = \<lparr>table = t, nprim = buf ! 2\<rparr>\<rparr>))))))) STATUS_ERR"

definition perm_write :: "string \<Rightarrow> perm_datum \<Rightarrow> writer" where
  "perm_write key d = seqW (put_u32s [of_nat (length key), pd_value d]) (put_string key)"

definition table_nel :: "(string, 'd) hashtab_t \<Rightarrow> u32 res" where
  "table_nel t = bindR (deref t) (\<lambda>h. Inr (ht_nel h))"

definition common_write :: "string \<Rightarrow> common_datum \<Rightarrow> writer" where
  "common_write key d fp = bindE (liftE (table_nel (table (cmd_permissions d)))) (\<lambda>nel.
     seqW (put_u32s [of_nat (length key), cmd_value d, nprim (cmd_permissions d), nel])
       (seqW (put_string key) (failW (hashtab_map (table (cmd_permissions d)) perm_write) STATUS_ERR)) fp)"

section \<open>Constraints\<close>

definition cexpr_kind_of :: "u32 \<Rightarrow> cexpr_kind" where
  "cexpr_kind_of t = (if t = 1 then CEXPR_NOT else if t = 2 then CEXPR_AND else if t = 3 then CEXPR_OR
     else if t = 4 then CEXPR_ATTR else if t = 5 then CEXPR_NAMES else CEXPR_OTHER t)"

fun cexpr_kind_code :: "cexpr_kind \<Rightarrow> u32" where
  "cexpr_kind_code CEXPR_NOT = 1" | "cexpr_kind_code CEXPR_AND = 2" | "cexpr_kind_code CEXPR_OR = 3"
| "cexpr_kind_code CEXPR_ATTR = 4" | "cexpr_kind_code CEXPR_NAMES = 5" | "cexpr_kind_code (CEXPR_OTHER t) = t"

definition cexpr_op_of :: "u32 \<Rightarrow> cexpr_op" where
  "cexpr_op_of t = (if t = 1 then CEXPR_EQ else if t = 2 then CEXPR_NEQ else if t = 3 then CEXPR_DOM
     else if t = 4 then CEXPR_DOMBY else if t = 5 then CEXPR_INCOMP else CEXPR_OP_OTHER t)"

fun cexpr_op_code :: "cexpr_op \<Rightarrow> u32" where
  "cexpr_op_code CEXPR_EQ = 1" | "cexpr_op_code CEXPR_NEQ = 2" | "cexpr_op_code CEXPR_DOM = 3"
| "cexpr_op_code CEXPR_DOMBY = 4" | "cexpr_op_code CEXPR_INCOMP = 5" | "cexpr_op_code (CEXPR_OP_OTHER t) = t"

abbreviation (input) "type_set_init \<equiv> \<lparr>ts_types = ebitmap_init, ts_negset = ebitmap_init, ts_flags = 0\<rparr>"

text \<open>The index of the top of the stack behind an expression; \<open>None\<close> when it is refused.\<close>

definition cexpr_depth :: "bool \<Rightarrow> cexpr_kind \<Rightarrow> u32 \<Rightarrow> int \<Rightarrow> int option" where
  "cexpr_depth allowxtarget k attr depth = (case k of
     CEXPR_NOT \<Rightarrow> if depth < 0 then None else Some depth
   | CEXPR_AND \<Rightarrow> if depth < 1 then None else Some (depth - 1)
   | CEXPR_OR \<Rightarrow> if depth < 1 then None else Some (depth - 1)
   | CEXPR_ATTR \<Rightarrow> if depth = int CEXPR_MAXDEPTH - 1 then None else Some (depth + 1)
   | CEXPR_NAMES \<Rightarrow> if \<not> allowxtarget \<and> attr AND CEXPR_XTARGET \<noteq> 0 then None
       else if depth = int CEXPR_MAXDEPTH - 1 then None else Some (depth + 1)
   | CEXPR_OTHER _ \<Rightarrow> None)"

definition read_cexpr :: "policydb \<Rightarrow> bool \<Rightarrow> int \<Rightarrow> (constraint_expr \<times> int) reader" where
  "read_cexpr p allowxtarget depth = bindP (liftP malloc) (\<lambda>_. bindP (liftP malloc) (\<lambda>_. bindP (next_u32s 3) (\<lambda>buf.
     let k = cexpr_kind_of (buf ! 0); e = \<lparr>ce_type = k, ce_attr = buf ! 1, ce_op = cexpr_op_of (buf ! 2), ce_names = ebitmap_init, ce_type_names = type_set_init\<rparr> in
     case cexpr_depth allowxtarget k (buf ! 1) depth of
       None \<Rightarrow> throwP STATUS_ERR
     | Some d \<Rightarrow>
         if k = CEXPR_NAMES then bindP ebitmap_read (\<lambda>names.
           if policyvers p \<ge> POLICYDB_VERSION_CONSTRAINT_NAMES
           then bindP type_set_read (\<lambda>ts. returnP (e\<lparr>ce_names := names, ce_type_names := ts\<rparr>, d))
           else returnP (e\<lparr>ce_names := names\<rparr>, d))
         else returnP (e, d))))"

fun read_cexprs :: "policydb \<Rightarrow> bool \<Rightarrow> nat \<Rightarrow> int \<Rightarrow> (constraint_expr list \<times> int) reader" where
  "read_cexprs p allowxtarget 0 depth = returnP ([], depth)"
| "read_cexprs p allowxtarget (Suc n) depth = bindP (read_cexpr p allowxtarget depth) (\<lambda>(e, d).
     bindP (read_cexprs p allowxtarget n d) (\<lambda>(es, d'). returnP (e # es, d')))"

definition read_cons_node :: "policydb \<Rightarrow> bool \<Rightarrow> constraint_node reader" where
  "read_cons_node p allowxtarget = bindP (liftP malloc) (\<lambda>_. bindP (next_u32s 2) (\<lambda>buf.
     bindP (read_cexprs p allowxtarget (unat (buf ! 1)) (- 1)) (\<lambda>(es, depth).
       if depth \<noteq> 0 then throwP STATUS_ERR else returnP \<lparr>cn_permissions = buf ! 0, cn_expr = es\<rparr>)))"

definition read_cons_helper :: "policydb \<Rightarrow> u32 \<Rightarrow> bool \<Rightarrow> constraint_node list reader" where
  "read_cons_helper p ncons allowxtarget = failP (listP (unat ncons) (read_cons_node p allowxtarget)) STATUS_ERR"

definition write_cexpr :: "policydb \<Rightarrow> bool \<Rightarrow> constraint_expr \<Rightarrow> writer" where
  "write_cexpr p allowxtarget e = seqW (put_u32s [cexpr_kind_code (ce_type e), ce_attr e, cexpr_op_code (ce_op e)])
     (if cexpr_kind_code (ce_type e) = 5 then
        (if \<not> allowxtarget \<and> ce_attr e AND CEXPR_XTARGET \<noteq> 0 then (\<lambda>_. throwE STATUS_ERR)
         else seqW (liftW (ebitmap_write (ce_names e)))
           (if policyvers p \<ge> POLICYDB_VERSION_CONSTRAINT_NAMES then type_set_write (ce_type_names e) else returnE))
      else returnE)"

definition write_cons_node :: "policydb \<Rightarrow> bool \<Rightarrow> constraint_node \<Rightarrow> writer" where
  "write_cons_node p allowxtarget c = seqW (put_u32s [cn_permissions c, of_nat (length (cn_expr c))])
     (foldE (write_cexpr p allowxtarget) (cn_expr c))"

definition write_cons_helper :: "policydb \<Rightarrow> constraint_node list \<Rightarrow> bool \<Rightarrow> writer" where
  "write_cons_helper p cs allowxtarget = failW (foldE (write_cons_node p allowxtarget) cs) STATUS_ERR"

section \<open>Classes\<close>

definition read_comkey :: "policydb \<Rightarrow> u32 \<Rightarrow> (string option \<times> common_datum option) reader" where
  "read_comkey p len2 = (if len2 = 0 then returnP (None, None)
     else bindP (next_key len2) (\<lambda>comkey. bindP (liftP (liftE (hashtab_search (table (p_commons p)) comkey))) (\<lambda>com.
       if com = None then throwP STATUS_ERR else returnP (Some comkey, com))))"

definition read_validatetrans :: "policydb \<Rightarrow> constraint_node list reader" where
  "read_validatetrans p = (if policyvers p \<ge> POLICYDB_VERSION_VALIDATETRANS
     then bindP (next_u32s 1) (\<lambda>buf. read_cons_helper p (buf ! 0) True) else returnP [])"

definition read_defaults :: "policydb \<Rightarrow> (u8 \<times> u8 \<times> u8 \<times> u8) reader" where
  "read_defaults p =
     bindP (if policyvers p \<ge> POLICYDB_VERSION_NEW_OBJECT_DEFAULTS then next_u32s 3 else returnP [0, 0, 0]) (\<lambda>buf.
     bindP (if policyvers p \<ge> POLICYDB_VERSION_DEFAULT_TYPE then next_u32s 1 else returnP [0]) (\<lambda>buf'.
       returnP (ucast (buf ! 0), ucast (buf ! 1), ucast (buf' ! 0), ucast (buf ! 2))))"

definition class_read :: "bool \<Rightarrow> policydb \<Rightarrow> (string, class_datum) hashtab_t \<Rightarrow> (string, class_datum) hashtab_t reader" where
  "class_read sc p h = failP (bindP (liftP malloc) (\<lambda>_. bindP (next_u32s 6) (\<lambda>buf.
     bindP (liftP (symtab_init sc PERM_SYMTAB_SIZE)) (\<lambda>perms. bindP (next_key (buf ! 0)) (\<lambda>key.
     bindP (read_comkey p (buf ! 1)) (\<lambda>(comkey, comdatum).
     bindP (repeatP (unat (buf ! 4)) perm_read (table perms)) (\<lambda>t.
     bindP (read_cons_helper p (buf ! 5) False) (\<lambda>cons.
     bindP (read_validatetrans p) (\<lambda>vt.
     bindP (read_defaults p) (\<lambda>(du, dr, dt, drange).
       liftP (hashtab_insert h key \<lparr>cd_value = buf ! 2, cd_comkey = comkey, cd_comdatum = comdatum,
         cd_permissions = \<lparr>table = t, nprim = buf ! 3\<rparr>, cd_constraints = cons, cd_validatetrans = vt,
         cd_default_user = du, cd_default_role = dr, cd_default_type = dt, cd_default_range = drange\<rparr>))))))))))) STATUS_ERR"

text \<open>A character is converted to \<open>int\<close> and then to 32 bits.\<close>

definition char_u32 :: "bool \<Rightarrow> u8 \<Rightarrow> u32" where
  "char_u32 sc c = (if sc then scast c else ucast c)"

definition class_write :: "bool \<Rightarrow> policydb \<Rightarrow> string \<Rightarrow> class_datum \<Rightarrow> writer" where
  "class_write sc p key d =
     (let len2 = (case cd_comkey d of Some k \<Rightarrow> of_nat (length k) | None \<Rightarrow> 0);
          nel = (case table (cd_permissions d) of Some t \<Rightarrow> ht_nel t | None \<Rightarrow> 0) in
      seqW (put_u32s [of_nat (length key), len2, cd_value d, nprim (cd_permissions d), nel, of_nat (length (cd_constraints d))])
     (seqW (put_string key)
     (seqW (case cd_comkey d of Some k \<Rightarrow> put_string k | None \<Rightarrow> returnE)
     (seqW (failW (hashtab_map (table (cd_permissions d)) perm_write) STATUS_ERR)
     (seqW (write_cons_helper p (cd_constraints d) False)
     (seqW (if policyvers p \<ge> POLICYDB_VERSION_VALIDATETRANS
        then seqW (put_u32s [of_nat (length (cd_validatetrans d))]) (write_cons_helper p (cd_validatetrans d) True) else returnE)
     (seqW (if policyvers p \<ge> POLICYDB_VERSION_NEW_OBJECT_DEFAULTS
        then put_u32s [char_u32 sc (cd_default_user d), char_u32 sc (cd_default_role d), char_u32 sc (cd_default_range d)] else returnE)
     (if policyvers p \<ge> POLICYDB_VERSION_DEFAULT_TYPE then put_u32s [char_u32 sc (cd_default_type d)] else returnE))))))))"

section \<open>Roles, types and users\<close>

definition policydb_has_boundary_feature :: "policydb \<Rightarrow> bool" where
  "policydb_has_boundary_feature p \<longleftrightarrow> policyvers p \<ge> POLICYDB_VERSION_BOUNDARY"

abbreviation (input) "OBJECT_R \<equiv> ''object_r''"

definition role_read :: "policydb \<Rightarrow> (string, role_datum) hashtab_t \<Rightarrow> (string, role_datum) hashtab_t reader" where
  "role_read p h = failP (bindP (liftP malloc) (\<lambda>_.
     bindP (next_u32s (if policydb_has_boundary_feature p then 3 else 2)) (\<lambda>buf. bindP (next_key (buf ! 0)) (\<lambda>key.
     bindP ebitmap_read (\<lambda>dominates. bindP ebitmap_read (\<lambda>types.
       if key = OBJECT_R then (if buf ! 1 \<noteq> OBJECT_R_VAL then throwP STATUS_ERR else returnP h)
       else liftP (hashtab_insert h key \<lparr>rd_value = buf ! 1, rd_dominates = dominates,
         rd_types = \<lparr>ts_types = types, ts_negset = ebitmap_init, ts_flags = 0\<rparr>, rd_cache = ebitmap_init,
         rd_bounds = (if policydb_has_boundary_feature p then buf ! 2 else 0), rd_flavor = 0, rd_roles = ebitmap_init\<rparr>)))))))
     STATUS_ERR"

abbreviation (input) "ROLE_FLAVOR_ATTRIB \<equiv> 1 :: u32"

definition role_write :: "policydb \<Rightarrow> string \<Rightarrow> role_datum \<Rightarrow> writer" where
  "role_write p key d = (if rd_flavor d = ROLE_FLAVOR_ATTRIB then returnE
     else seqW (put_u32s ([of_nat (length key), rd_value d] @ (if policydb_has_boundary_feature p then [rd_bounds d] else [])))
       (seqW (put_string key) (seqW (liftW (ebitmap_write (rd_dominates d))) (liftW (ebitmap_write (ts_types (rd_types d)))))))"

abbreviation (input) "TYPEDATUM_PROPERTY_PRIMARY \<equiv> 1 :: u32"
abbreviation (input) "TYPEDATUM_PROPERTY_ATTRIBUTE \<equiv> 2 :: u32"

definition type_datum_of :: "policydb \<Rightarrow> u32 list \<Rightarrow> type_datum" where
  "type_datum_of p buf = (if policydb_has_boundary_feature p
     then \<lparr>td_value = buf ! 1, td_primary = (if buf ! 2 AND TYPEDATUM_PROPERTY_PRIMARY \<noteq> 0 then 1 else 0),
            td_flavor = (if buf ! 2 AND TYPEDATUM_PROPERTY_ATTRIBUTE \<noteq> 0 then TYPE_ATTRIB else 0),
            td_types = ebitmap_init, td_flags = 0, td_bounds = buf ! 3\<rparr>
     else \<lparr>td_value = buf ! 1, td_primary = buf ! 2, td_flavor = 0, td_types = ebitmap_init, td_flags = 0, td_bounds = 0\<rparr>)"

definition type_read :: "policydb \<Rightarrow> (string, type_datum) hashtab_t \<Rightarrow> (string, type_datum) hashtab_t reader" where
  "type_read p h = failP (bindP (liftP malloc) (\<lambda>_.
     bindP (next_u32s (if policydb_has_boundary_feature p then 4 else 3)) (\<lambda>buf.
       bindP (next_key (buf ! 0)) (\<lambda>key. liftP (hashtab_insert h key (type_datum_of p buf)))))) STATUS_ERR"

definition type_write :: "policydb \<Rightarrow> string \<Rightarrow> type_datum \<Rightarrow> writer" where
  "type_write p key d = (if policyvers p < POLICYDB_VERSION_BOUNDARY \<and> td_flavor d = TYPE_ATTRIB then returnE
     else seqW (put_u32s (if policydb_has_boundary_feature p
         then [of_nat (length key), td_value d,
           (if td_primary d \<noteq> 0 then TYPEDATUM_PROPERTY_PRIMARY else 0) OR (if td_flavor d = TYPE_ATTRIB then TYPEDATUM_PROPERTY_ATTRIBUTE else 0), td_bounds d]
         else [of_nat (length key), td_value d, td_primary d]))
       (put_string key))"

definition user_read :: "policydb \<Rightarrow> (string, user_datum) hashtab_t \<Rightarrow> (string, user_datum) hashtab_t reader" where
  "user_read p h = failP (bindP (liftP malloc) (\<lambda>_.
     bindP (next_u32s (if policydb_has_boundary_feature p then 3 else 2)) (\<lambda>buf. bindP (next_key (buf ! 0)) (\<lambda>key.
     bindP ebitmap_read (\<lambda>roles.
     bindP (if policyvers p \<ge> POLICYDB_VERSION_MLS then mls_read_range_helper else returnP mls_range_init) (\<lambda>range.
     bindP (if policyvers p \<ge> POLICYDB_VERSION_MLS then mls_read_level else returnP mls_level_init) (\<lambda>dfltlevel.
       liftP (hashtab_insert h key \<lparr>ud_value = buf ! 1, ud_roles = \<lparr>rs_roles = roles, rs_flags = 0\<rparr>, ud_cache = ebitmap_init,
         ud_exp_range = range, ud_exp_dfltlevel = dfltlevel, ud_bounds = (if policydb_has_boundary_feature p then buf ! 2 else 0)\<rparr>)))))))) STATUS_ERR"

definition user_write :: "policydb \<Rightarrow> string \<Rightarrow> user_datum \<Rightarrow> writer" where
  "user_write p key d = seqW (put_u32s ([of_nat (length key), ud_value d] @ (if policydb_has_boundary_feature p then [ud_bounds d] else [])))
     (seqW (put_string key) (seqW (liftW (ebitmap_write (rs_roles (ud_roles d))))
       (if policyvers p \<ge> POLICYDB_VERSION_MLS
        then seqW (mls_write_range_helper (ud_exp_range d)) (mls_write_level (ud_exp_dfltlevel d)) else returnE)))"

section \<open>Booleans, sensitivities and categories\<close>

definition cond_read_bool :: "(string, cond_bool_datum) hashtab_t \<Rightarrow> (string, cond_bool_datum) hashtab_t reader" where
  "cond_read_bool h = failP (bindP (liftP malloc) (\<lambda>_. bindP (next_u32s 3) (\<lambda>buf.
     let booldatum = \<lparr>cbd_value = buf ! 0, cbd_state = sint (buf ! 1)\<rparr> in
     if \<not> bool_isvalid booldatum then throwP STATUS_ERR
     else bindP (next_key32 (buf ! 2)) (\<lambda>key. liftP (hashtab_insert h key booldatum))))) STATUS_ERR"

definition cond_write_bool :: "string \<Rightarrow> cond_bool_datum \<Rightarrow> writer" where
  "cond_write_bool key d = seqW (put_u32s [cbd_value d, word_of_int (cbd_state d), of_nat (length key)]) (put_string key)"

definition sens_read :: "(string, level_datum) hashtab_t \<Rightarrow> (string, level_datum) hashtab_t reader" where
  "sens_read h = failP (bindP (liftP malloc) (\<lambda>_. bindP (next_u32s 2) (\<lambda>buf. bindP (next_key32 (buf ! 0)) (\<lambda>key.
     bindP (liftP malloc) (\<lambda>_. bindP mls_read_level (\<lambda>level.
       liftP (hashtab_insert h key \<lparr>ld_level = level, ld_isalias = ucast (buf ! 1)\<rparr>))))))) STATUS_ERR"

definition sens_write :: "string \<Rightarrow> level_datum \<Rightarrow> writer" where
  "sens_write key d = seqW (put_u32s [of_nat (length key), ucast (ld_isalias d)]) (seqW (put_string key) (mls_write_level (ld_level d)))"

definition cat_read :: "(string, cat_datum) hashtab_t \<Rightarrow> (string, cat_datum) hashtab_t reader" where
  "cat_read h = failP (bindP (liftP malloc) (\<lambda>_. bindP (next_u32s 3) (\<lambda>buf. bindP (next_key32 (buf ! 0)) (\<lambda>key.
     liftP (hashtab_insert h key \<lparr>catd_value = buf ! 1, catd_isalias = ucast (buf ! 2)\<rparr>))))) STATUS_ERR"

definition cat_write :: "string \<Rightarrow> cat_datum \<Rightarrow> writer" where
  "cat_write key d = seqW (put_u32s [of_nat (length key), catd_value d, ucast (catd_isalias d)]) (put_string key)"

section \<open>Formats without symbol tables\<close>

interpretation tset: codec type_set_read type_set_write "\<lambda>s. ebitmap_ok (ts_types s) \<and> ebitmap_ok (ts_negset s)"
proof
  show "code (type_set_write s) type_set_read ((=) s)" if ok: "ebitmap_ok (ts_types s) \<and> ebitmap_ok (ts_negset s)" for s
    unfolding type_set_write_def type_set_read_def
    by (rule code_failP, rule code_step [OF eb.codec], use ok in simp, rule code_step [OF eb.codec], use ok in simp, rule code_end [OF code_u32s])
      (auto simp: reads_returnP)
qed

interpretation rset: codec role_set_read role_set_write "\<lambda>s. ebitmap_ok (rs_roles s)"
proof
  show "code (role_set_write s) role_set_read ((=) s)" if ok: "ebitmap_ok (rs_roles s)" for s
    unfolding role_set_write_def role_set_read_def
    by (rule code_failP, rule code_step [OF eb.codec [OF ok]], rule code_end [OF code_u32s]) (auto simp: reads_returnP)
qed

interpretation lev: codec mls_read_level mls_write_level level_ok
proof
  show "code (mls_write_level l) mls_read_level ((=) l)" if ok: "level_ok l" for l
    unfolding mls_write_level_def mls_read_level_def
    by (rule code_failP, rule code_step [OF code_u32s], simp, simp, rule code_end [OF eb.codec]) (use ok in \<open>auto simp: reads_returnP level_ok_def\<close>)
qed

interpretation rng: codec mls_read_range_helper mls_write_range_helper range_ok
proof
  show "code (mls_write_range_helper r) mls_read_range_helper ((=) r)" if ok: "range_ok r" for r
  proof -
    have l: "ebitmap_ok (cat (low r))" "ebitmap_ok (cat (high r))" using ok by (simp_all add: range_ok_def level_ok_def)
    show ?thesis
    proof (cases "mls_level_eq (high r) (low r)")
      case True
      then have eq: "high r = low r" using ok by (simp add: range_ok_def mls_level_eq_iff)
      have c: "code (liftW (ebitmap_write (cat (low r)))) (bindP ebitmap_read (\<lambda>cat0. bindP (liftP (ebitmap_cpy cat0)) (\<lambda>cat1.
          returnP \<lparr>low = \<lparr>sens = sens (low r), cat = cat0\<rparr>, high = \<lparr>sens = sens (low r), cat = cat1\<rparr>\<rparr>))) ((=) r)"
        by (rule code_end [OF eb.codec [OF l(1)]], rule reads_lift [where v = "cat (low r)"])
          (auto simp: reads_returnP eq yields_no_oom [OF ebitmap_cpy_yields] intro!: mls_range.equality)
      have "code (seqW (put_u32s (1 # [sens (low r)])) (liftW (ebitmap_write (cat (low r))))) mls_read_range_helper ((=) r)"
        unfolding mls_read_range_helper_def by (rule code_u32s_split, simp add: Let_def, simp, simp add: c)
      then show ?thesis using True by (simp add: mls_write_range_helper_def)
    next
      case False
      have c: "code (seqW (liftW (ebitmap_write (cat (low r)))) (liftW (ebitmap_write (cat (high r))))) (bindP ebitmap_read (\<lambda>cat0. bindP ebitmap_read (\<lambda>cat1.
          returnP \<lparr>low = \<lparr>sens = sens (low r), cat = cat0\<rparr>, high = \<lparr>sens = sens (high r), cat = cat1\<rparr>\<rparr>))) ((=) r)"
        by (rule code_step [OF eb.codec [OF l(1)]], rule code_end [OF eb.codec [OF l(2)]]) (auto simp: reads_returnP)
      have "code (seqW (put_u32s (2 # [sens (low r), sens (high r)])) (seqW (liftW (ebitmap_write (cat (low r)))) (liftW (ebitmap_write (cat (high r))))))
          mls_read_range_helper ((=) r)"
        unfolding mls_read_range_helper_def by (rule code_u32s_split, simp add: Let_def numeral_2_eq_2 [symmetric], simp, simp add: c)
      then show ?thesis using False by (simp add: mls_write_range_helper_def)
    qed
  qed
qed

text \<open>Contexts are only accepted when they are valid in the indexed policy; old versions have no range.\<close>

interpretation ctx: codec "context_read_and_validate p" "context_write p"
  "\<lambda>c. context_ok c \<and> policydb_context_isvalid p c = Inr True \<and> (policyvers p < POLICYDB_VERSION_MLS \<longrightarrow> c_range c = mls_range_init)" for p
proof
  fix c assume ok: "context_ok c \<and> policydb_context_isvalid p c = Inr True \<and> (policyvers p < POLICYDB_VERSION_MLS \<longrightarrow> c_range c = mls_range_init)"
  let ?fin = "\<lambda>r. let c' = \<lparr>c_user = c_user c, c_role = c_role c, c_type = c_type c, c_range = r\<rparr> in
       bindP (liftP (liftE (policydb_context_isvalid p c'))) (\<lambda>valid. if \<not> valid then throwP STATUS_ERR else returnP c')"
  have eta: "\<lparr>c_user = c_user c, c_role = c_role c, c_type = c_type c, c_range = c_range c\<rparr> = c" by simp
  have fin: "reads (?fin (c_range c)) [] ((=) c)"
    unfolding Let_def eta by (rule reads_lift [where v = True]) (use ok in \<open>simp_all add: liftE_def reads_returnP\<close>)
  have "code (if policyvers p \<ge> POLICYDB_VERSION_MLS then mls_write_range_helper (c_range c) else returnE)
      (bindP (if policyvers p \<ge> POLICYDB_VERSION_MLS then mls_read_range_helper else returnP mls_range_init) ?fin) ((=) c)"
  proof (cases "policyvers p \<ge> POLICYDB_VERSION_MLS")
    case True
    then have "range_ok (c_range c)" using ok by (simp add: context_ok_def)
    then show ?thesis using True fin by (auto intro!: code_end [OF rng.codec])
  next
    case False
    then have "c_range c = mls_range_init" using ok by (simp add: not_le)
    then show ?thesis using False fin by (auto intro!: code_end [OF code_returnP [of "(=) (c_range c)"]])
  qed
  then show "code (context_write p c) (context_read_and_validate p) ((=) c)"
    unfolding context_write_def context_read_and_validate_def
    by (intro code_failP, intro code_step [OF code_u32s]) simp_all
qed

section \<open>The interface of a symbol\<close>

text \<open>A table that is written is read into a table \<open>h\<^sub>0\<close>: the result has the entries of \<open>h\<^sub>0\<close> and, for every entry of \<open>m\<close> whose
  name is not skipped, an entry with the same name and a datum that agrees as \<open>same\<close> says.\<close>

definition loaded :: "('d \<Rightarrow> 'd \<Rightarrow> bool) \<Rightarrow> (string \<Rightarrow> bool) \<Rightarrow> (string \<Rightarrow> 'd option) \<Rightarrow> (string, 'd) hashtab_t \<Rightarrow> (string, 'd) hashtab_t \<Rightarrow> bool" where
  "loaded same skip m h0 h \<longleftrightarrow> hashtab_ok h
     \<and> (\<forall>k d. \<not> skip k \<longrightarrow> m k = Some d \<longrightarrow> (\<exists>d'. hashtab_abs h k = Some d' \<and> same d d'))
     \<and> (\<forall>k. skip k \<or> m k = None \<longrightarrow> hashtab_abs h k = hashtab_abs h0 k)"

definition added :: "('d \<Rightarrow> 'd \<Rightarrow> bool) \<Rightarrow> (string, 'd) hashtab_t \<Rightarrow> string \<Rightarrow> 'd \<Rightarrow> (string, 'd) hashtab_t \<Rightarrow> bool" where
  "added same h k d h' \<longleftrightarrow> hashtab_ok h' \<and> (\<exists>d'. same d d' \<and> hashtab_abs h' = (hashtab_abs h)(k \<mapsto> d'))"

definition kept :: "('d \<Rightarrow> bool) \<Rightarrow> (string \<Rightarrow> 'd option) \<Rightarrow> string \<Rightarrow> 'd option" where
  "kept keep m k = (case m k of Some d \<Rightarrow> if keep d then Some d else None | None \<Rightarrow> None)"

definition kept_entries :: "('d \<Rightarrow> bool) \<Rightarrow> (string, 'd) hashtab_val \<Rightarrow> (string \<times> 'd) list" where
  "kept_entries keep t = filter (\<lambda>(k, d). keep d) (ht_entries t)"

lemma loaded_empty: "hashtab_ok h0 \<Longrightarrow> loaded same skip Map.empty h0 h0"
  by (simp add: loaded_def)

lemma loaded_skip: "loaded same skip m h0 h \<Longrightarrow> skip k \<Longrightarrow> loaded same skip (m(k \<mapsto> d)) h0 h"
  unfolding loaded_def by auto

lemma loaded_new:
  "loaded same skip m h0 h \<Longrightarrow> \<not> skip k \<Longrightarrow> hashtab_ok h' \<Longrightarrow> hashtab_abs h' = (hashtab_abs h)(k \<mapsto> d') \<Longrightarrow> same d d' \<Longrightarrow>
    loaded same skip (m(k \<mapsto> d)) h0 h'"
  unfolding loaded_def by auto

lemma loaded_unbound: "loaded same skip m h0 h \<Longrightarrow> m k = None \<Longrightarrow> hashtab_abs h k = hashtab_abs h0 k"
  by (simp add: loaded_def)

lemma map_of_filter_kept: "distinct (map fst xs) \<Longrightarrow> map_of (filter (\<lambda>(k, d). keep d) xs) = kept keep (map_of xs)"
proof (induction xs)
  case (Cons x xs)
  obtain a b where x: "x = (a, b)" by fastforce
  have a: "map_of xs a = None" using Cons.prems x by (simp add: map_of_eq_None_iff)
  have "map_of (filter (\<lambda>(k, d). keep d) xs) = kept keep (map_of xs)" using Cons by simp
  then show ?case using a by (auto simp: x fun_eq_iff kept_def)
qed (simp add: fun_eq_iff kept_def)

lemma distinct_filter_fst: "distinct (map fst xs) \<Longrightarrow> distinct (map fst (filter P xs))"
  by (induction xs) auto

lemma kept_entries_distinct:
  assumes "hashtab_ok (Some t)"
  shows "distinct (map fst (kept_entries keep t))" "map_of (kept_entries keep t) = kept keep (hashtab_abs (Some t))"
  using ht_entries_distinct [OF assms] by (simp_all add: kept_entries_def distinct_filter_fst map_of_filter_kept)

lemma kept_all [simp]: "kept (\<lambda>_. True) m = m" "kept_entries (\<lambda>_. True) t = ht_entries t"
  by (simp_all add: fun_eq_iff kept_def kept_entries_def split: option.splits)

text \<open>The reader of a symbol inserts it into a table; it may skip some names, and the writer may leave some symbols out.\<close>

locale symbol_codec =
  fixes rd :: "(string, 'd) hashtab_t \<Rightarrow> (string, 'd) hashtab_t reader"
    and wr :: "string \<Rightarrow> 'd \<Rightarrow> writer"
    and ok :: "string \<Rightarrow> 'd \<Rightarrow> bool"
    and same :: "'d \<Rightarrow> 'd \<Rightarrow> bool"
    and skip :: "string \<Rightarrow> bool"
    and keep :: "'d \<Rightarrow> bool"
  assumes item: "ok k d \<Longrightarrow> keep d \<Longrightarrow> \<not> skip k \<Longrightarrow> hashtab_ok h \<Longrightarrow> hashtab_abs h k = None \<Longrightarrow>
      code (wr k d) (rd h) (added same h k d)"
    and skipped: "ok k d \<Longrightarrow> keep d \<Longrightarrow> skip k \<Longrightarrow> code (wr k d) (rd h) ((=) h)"
    and left_out: "\<not> keep d \<Longrightarrow> wr k d = returnE"
begin

lemma map_kept:
  assumes "hashtab_ok (Some t)"
  shows "hashtab_map (Some t) wr = foldE (\<lambda>(k, d). wr k d) (kept_entries keep t)"
proof -
  have "foldE (\<lambda>(k, d). wr k d) xs = foldE (\<lambda>(k, d). wr k d) (filter (\<lambda>(k, d). keep d) xs)" for xs
  proof (induction xs)
    case (Cons x xs)
    then show ?case by (intro ext) (auto simp: left_out split: prod.splits)
  qed simp
  from this [of "ht_entries t"] show ?thesis unfolding kept_entries_def by (intro ext) (simp only: hashtab_map_entries [OF assms])
qed

lemma table:
  assumes t: "hashtab_ok (Some t)" and h0: "hashtab_ok h0"
    and ok: "\<And>k d. hashtab_abs (Some t) k = Some d \<Longrightarrow> keep d \<Longrightarrow> ok k d"
    and new: "\<And>k d. hashtab_abs (Some t) k = Some d \<Longrightarrow> keep d \<Longrightarrow> \<not> skip k \<Longrightarrow> hashtab_abs h0 k = None"
  shows "code (hashtab_map (Some t) wr) (repeatP (length (kept_entries keep t)) rd h0)
    (loaded same skip (kept keep (hashtab_abs (Some t))) h0)"
proof -
  note e = kept_entries_distinct [OF t, of keep]
  have mem: "hashtab_abs (Some t) k = Some d \<and> keep d" if "(k, d) \<in> set (kept_entries keep t)" for k d
    using that ht_entries_abs [OF t, of k d] by (simp add: kept_entries_def)
  let ?I = "\<lambda>ys. loaded same skip (map_of ys) h0"
  have "code (foldE (\<lambda>(k, d). wr k d) (kept_entries keep t)) (repeatP (length (kept_entries keep t)) rd h0) (?I (kept_entries keep t))"
  proof (rule code_repeatP)
    show "?I [] h0" using h0 by (simp add: loaded_empty)
  next
    fix ys zs and x :: "string \<times> 'd" and h
    assume xs: "ys @ x # zs = kept_entries keep t" and I: "?I ys h"
    obtain k d where x: "x = (k, d)" by fastforce
    have k: "map_of ys k = None" using e(1) unfolding xs [symmetric] x by (auto simp: map_of_eq_None_iff)
    have kd: "hashtab_abs (Some t) k = Some d" "keep d" using mem [of k d] unfolding xs [symmetric] x by simp_all
    have h: "hashtab_ok h" using I by (simp add: loaded_def)
    have app: "map_of (ys @ [x]) = (map_of ys)(k \<mapsto> d)" using k unfolding x
      by (auto simp: fun_eq_iff map_add_def split: option.splits)
    have "code (wr k d) (rd h) (loaded same skip ((map_of ys)(k \<mapsto> d)) h0)"
    proof (cases "skip k")
      case True
      show ?thesis by (rule code_weaken [OF skipped [OF ok [OF kd] kd(2) True, of h]]) (use I True in \<open>auto intro: loaded_skip\<close>)
    next
      case False
      then have "hashtab_abs h k = None" using loaded_unbound [OF I k] new [OF kd] by simp
      then show ?thesis
        by (rule code_weaken [OF item [OF ok [OF kd] kd(2) False h]]) (use I False in \<open>auto simp: added_def intro: loaded_new\<close>)
    qed
    then show "code (case x of (k, d) \<Rightarrow> wr k d) (rd h) (?I (ys @ [x]))" unfolding app by (simp add: x)
  qed
  then show ?thesis unfolding map_kept [OF t] e(2) .
qed

end

lemma reads_insert:
  assumes "hashtab_ok h" "hashtab_abs h k = None" "same d d'"
  shows "reads (liftP (hashtab_insert h k d')) [] (added same h k d)"
proof -
  from hashtab_insert_new [OF assms(1,2), of d'] obtain h' where "yields (hashtab_insert h k d') (Inr h')" "hashtab_ok h'"
    "hashtab_abs h' = (hashtab_abs h)(k \<mapsto> d')" by blast
  then show ?thesis using assms(3) by (intro reads_liftP [OF yields_no_oom]) (auto simp: added_def)
qed

abbreviation (input) "no_skip \<equiv> \<lambda>_ :: string. False"
abbreviation (input) "keep_all \<equiv> \<lambda>_. True"

lemma loaded_eq:
  "loaded (=) no_skip m h0 h \<Longrightarrow> hashtab_abs h0 = Map.empty \<Longrightarrow> hashtab_ok h \<and> hashtab_abs h = m"
  unfolding loaded_def by (metis (full_types) ext not_Some_eq)

section \<open>Permissions, commons and classes\<close>

interpretation perm: symbol_codec perm_read perm_write "\<lambda>k d. name_ok k" "(=)" no_skip keep_all
proof
  fix k and h :: "(string, perm_datum) hashtab_t" and d
  assume a: "name_ok k" "hashtab_ok h" "hashtab_abs h k = None"
  show "code (perm_write k d) (perm_read h) (added (=) h k d)"
    unfolding perm_write_def perm_read_def
    by (rule code_failP, rule code_malloc, rule code_step [OF code_u32s], simp, simp, simp, rule code_end [OF code_key(1) [OF a(1)]])
      (auto intro!: reads_insert a(2,3))
qed simp_all

definition perms_ok :: "perm_datum symtab \<Rightarrow> bool" where
  "perms_ok s \<longleftrightarrow> hashtab_ok (table s) \<and> (\<forall>k d. hashtab_abs (table s) k = Some d \<longrightarrow> name_ok k)
     \<and> (\<forall>t. table s = Some t \<longrightarrow> length (ht_entries t) < 2 ^ 32)"

definition perms_same :: "perm_datum symtab \<Rightarrow> perm_datum symtab \<Rightarrow> bool" where
  "perms_same s s' \<longleftrightarrow> nprim s' = nprim s \<and> hashtab_ok (table s') \<and> hashtab_abs (table s') = hashtab_abs (table s)"

lemma nel_unat: "hashtab_ok (Some t) \<Longrightarrow> length (ht_entries t) < 2 ^ 32 \<Longrightarrow> unat (ht_nel t) = length (ht_entries t)"
  by (simp add: hashtab_ok_def unat_of_nat_u32)

lemma perms_code:
  assumes "perms_ok s" "table s = Some t" "hashtab_ok h0" "hashtab_abs h0 = Map.empty"
  shows "code (failW (hashtab_map (table s) perm_write) STATUS_ERR) (repeatP (unat (ht_nel t)) perm_read h0)
    (\<lambda>t'. perms_same s \<lparr>table = t', nprim = nprim s\<rparr>)"
proof -
  have t: "hashtab_ok (Some t)" "length (ht_entries t) < 2 ^ 32" "\<And>k d. hashtab_abs (Some t) k = Some d \<Longrightarrow> name_ok k"
    using assms(1,2) by (auto simp: perms_ok_def)
  have "code (hashtab_map (Some t) perm_write) (repeatP (length (kept_entries keep_all t)) perm_read h0)
      (loaded (=) no_skip (kept keep_all (hashtab_abs (Some t))) h0)"
    by (rule perm.table [OF t(1) assms(3)]) (use t(3) assms(4) in auto)
  then have "code (hashtab_map (Some t) perm_write) (repeatP (unat (ht_nel t)) perm_read h0) (loaded (=) no_skip (hashtab_abs (Some t)) h0)"
    unfolding kept_all nel_unat [OF t(1,2)] .
  then show ?thesis unfolding assms(2)
    by (intro code_failW) (erule code_weaken, use loaded_eq [OF _ assms(4)] assms(2) in \<open>auto simp: perms_same_def\<close>)
qed

definition common_ok :: "string \<Rightarrow> common_datum \<Rightarrow> bool" where
  "common_ok k d \<longleftrightarrow> name_ok k \<and> perms_ok (cmd_permissions d)"

definition common_same :: "common_datum \<Rightarrow> common_datum \<Rightarrow> bool" where
  "common_same d d' \<longleftrightarrow> cmd_value d' = cmd_value d \<and> perms_same (cmd_permissions d) (cmd_permissions d')"

lemma perms_table: "perms_ok s \<Longrightarrow> \<exists>t. table s = Some t"
  by (auto simp: perms_ok_def hashtab_ok_def)

interpretation common: symbol_codec "common_read sc" common_write common_ok common_same no_skip keep_all for sc
proof
  fix k and h :: "(string, common_datum) hashtab_t" and d
  assume a: "common_ok k d" "hashtab_ok h" "hashtab_abs h k = None"
  then have ok: "name_ok k" "perms_ok (cmd_permissions d)" by (simp_all add: common_ok_def)
  then obtain t where t: "table (cmd_permissions d) = Some t" using perms_table by blast
  obtain s :: "perm_datum symtab" where s: "symtab_init sc PERM_SYMTAB_SIZE [] = (Inr s, [])" "hashtab_ok (table s)" "hashtab_abs (table s) = Map.empty"
    using symtab_init_no_oom [of PERM_SYMTAB_SIZE sc] by auto
  have w: "common_write k d = seqW (put_u32s [of_nat (length k), cmd_value d, nprim (cmd_permissions d), ht_nel t])
      (seqW (put_string k) (failW (hashtab_map (table (cmd_permissions d)) perm_write) STATUS_ERR))"
    by (simp add: fun_eq_iff common_write_def table_nel_def t deref_def)
  show "code (common_write k d) (common_read sc h) (added common_same h k d)"
    unfolding w common_read_def
    by (rule code_failP, rule code_malloc, rule code_step [OF code_u32s], simp, simp, simp, rule code_lift, rule s(1), rule code_step [OF code_key(1) [OF ok(1)]],
        rule code_end [OF perms_code [OF ok(2) t s(2,3)]]) (auto intro!: reads_insert a(2,3) simp: common_same_def)
qed simp_all

section \<open>Booleans, sensitivities and categories\<close>

lemma byte_in_word [simp]: "ucast (ucast (c :: u8) :: u32) = c" "ucast (scast (c :: u8) :: u32) = c"
  by (rule bit_word_eqI; auto simp: bit_simps)+

interpretation cbool: symbol_codec cond_read_bool cond_write_bool "\<lambda>k d. name_ok k \<and> bool_isvalid d" "(=)" no_skip keep_all
proof
  fix k and h :: "(string, cond_bool_datum) hashtab_t" and d
  assume a: "name_ok k \<and> bool_isvalid d" "hashtab_ok h" "hashtab_abs h k = None"
  have v: "\<lparr>cbd_value = cbd_value d, cbd_state = sint (word_of_int (cbd_state d) :: u32)\<rparr> = d"
    using a(1) by (auto simp: bool_isvalid_def)
  show "code (cond_write_bool k d) (cond_read_bool h) (added (=) h k d)"
    unfolding cond_write_bool_def cond_read_bool_def
    by (rule code_failP, rule code_malloc, rule code_step [OF code_u32s], simp, simp, use a(1) v in simp, rule code_end [OF code_key(2)], use a(1) in simp)
      (auto intro!: reads_insert a(2,3))
qed simp_all

interpretation sens: symbol_codec sens_read sens_write "\<lambda>k d. name_ok k \<and> level_ok (ld_level d)" "(=)" no_skip keep_all
proof
  fix k and h :: "(string, level_datum) hashtab_t" and d :: level_datum
  assume a: "name_ok k \<and> level_ok (ld_level d)" "hashtab_ok h" "hashtab_abs h k = None"
  show "code (sens_write k d) (sens_read h) (added (=) h k d)"
    unfolding sens_write_def sens_read_def
    by (rule code_failP, rule code_malloc, rule code_step [OF code_u32s], simp, simp, simp, rule code_step [OF code_key(2)], use a(1) in simp,
        rule code_malloc, rule code_end [OF lev.codec], use a(1) in simp) (auto intro!: reads_insert a(2,3))
qed simp_all

interpretation catg: symbol_codec cat_read cat_write "\<lambda>k d. name_ok k" "(=)" no_skip keep_all
proof
  fix k and h :: "(string, cat_datum) hashtab_t" and d
  assume a: "name_ok k" "hashtab_ok h" "hashtab_abs h k = None"
  show "code (cat_write k d) (cat_read h) (added (=) h k d)"
    unfolding cat_write_def cat_read_def
    by (rule code_failP, rule code_malloc, rule code_step [OF code_u32s], simp, simp, simp, rule code_end [OF code_key(2) [OF a(1)]])
      (auto intro!: reads_insert a(2,3))
qed simp_all

section \<open>Roles, types and users\<close>

text \<open>What the file keeps of a symbol: the caches are computed later, bounds and, of types, attributes only exist in newer versions.\<close>

definition role_kept :: "policydb \<Rightarrow> role_datum \<Rightarrow> role_datum" where
  "role_kept p d = \<lparr>rd_value = rd_value d, rd_dominates = rd_dominates d,
     rd_types = \<lparr>ts_types = ts_types (rd_types d), ts_negset = ebitmap_init, ts_flags = 0\<rparr>, rd_cache = ebitmap_init,
     rd_bounds = (if policydb_has_boundary_feature p then rd_bounds d else 0), rd_flavor = 0, rd_roles = ebitmap_init\<rparr>"

definition type_kept :: "policydb \<Rightarrow> type_datum \<Rightarrow> type_datum" where
  "type_kept p d = (if policydb_has_boundary_feature p
     then \<lparr>td_value = td_value d, td_primary = (if td_primary d \<noteq> 0 then 1 else 0),
       td_flavor = (if td_flavor d = TYPE_ATTRIB then TYPE_ATTRIB else 0), td_types = ebitmap_init, td_flags = 0, td_bounds = td_bounds d\<rparr>
     else \<lparr>td_value = td_value d, td_primary = td_primary d, td_flavor = 0, td_types = ebitmap_init, td_flags = 0, td_bounds = 0\<rparr>)"

definition user_kept :: "policydb \<Rightarrow> user_datum \<Rightarrow> user_datum" where
  "user_kept p d = \<lparr>ud_value = ud_value d, ud_roles = \<lparr>rs_roles = rs_roles (ud_roles d), rs_flags = 0\<rparr>, ud_cache = ebitmap_init,
     ud_exp_range = (if policyvers p \<ge> POLICYDB_VERSION_MLS then ud_exp_range d else mls_range_init),
     ud_exp_dfltlevel = (if policyvers p \<ge> POLICYDB_VERSION_MLS then ud_exp_dfltlevel d else mls_level_init),
     ud_bounds = (if policydb_has_boundary_feature p then ud_bounds d else 0)\<rparr>"

definition role_saved_ok :: "string \<Rightarrow> role_datum \<Rightarrow> bool" where
  "role_saved_ok k d \<longleftrightarrow> name_ok k \<and> ebitmap_ok (rd_dominates d) \<and> ebitmap_ok (ts_types (rd_types d))
     \<and> (k = OBJECT_R \<longrightarrow> rd_value d = OBJECT_R_VAL)"

definition user_saved_ok :: "string \<Rightarrow> user_datum \<Rightarrow> bool" where
  "user_saved_ok k d \<longleftrightarrow> name_ok k \<and> ebitmap_ok (rs_roles (ud_roles d)) \<and> range_ok (ud_exp_range d) \<and> level_ok (ud_exp_dfltlevel d)"

lemma role_code:
  assumes ok: "role_saved_ok k d" and keep: "rd_flavor d \<noteq> ROLE_FLAVOR_ATTRIB"
    and fin: "reads (if k = OBJECT_R then returnP h else liftP (hashtab_insert h k (role_kept p d))) [] Q"
  shows "code (role_write p k d) (role_read p h) Q"
proof -
  let ?b = "policydb_has_boundary_feature p"
  let ?ws = "[of_nat (length k), rd_value d] @ (if ?b then [rd_bounds d] else [])"
  have w: "role_write p k d = seqW (put_u32s ?ws) (seqW (put_string k) (seqW (liftW (ebitmap_write (rd_dominates d))) (liftW (ebitmap_write (ts_types (rd_types d))))))"
    using keep by (simp add: role_write_def)
  have nth: "?ws ! 0 = of_nat (length k)" "?ws ! 1 = rd_value d" "(if ?b then ?ws ! 2 else 0) = (if ?b then rd_bounds d else 0)" by simp_all
  note o = ok [unfolded role_saved_ok_def]
  show ?thesis unfolding w role_read_def
    by (rule code_failP, rule code_malloc, rule code_step [OF code_u32s [of ?ws]], simp, simp, simp only: nth, rule code_step [OF code_key(1)], use o in simp,
        rule code_step [OF eb.codec], use o in simp, rule code_end [OF eb.codec], use o in simp)
      (use fin o in \<open>auto simp: role_kept_def split: if_splits\<close>)
qed

interpretation role: symbol_codec "role_read p" "role_write p" role_saved_ok "\<lambda>d d'. d' = role_kept p d" "\<lambda>k. k = OBJECT_R"
  "\<lambda>d. rd_flavor d \<noteq> ROLE_FLAVOR_ATTRIB" for p
proof
  show "code (role_write p k d) (role_read p h) (added (\<lambda>d d'. d' = role_kept p d) h k d)"
    if "role_saved_ok k d" "rd_flavor d \<noteq> ROLE_FLAVOR_ATTRIB" "k \<noteq> OBJECT_R" "hashtab_ok h" "hashtab_abs h k = None" for k d h
    using that by (intro role_code) (auto intro!: reads_insert)
  show "code (role_write p k d) (role_read p h) ((=) h)" if "role_saved_ok k d" "rd_flavor d \<noteq> ROLE_FLAVOR_ATTRIB" "k = OBJECT_R" for k d h
    using that by (intro role_code) (auto intro!: reads_returnP)
qed (simp add: role_write_def)

lemma property_bits [simp]:
  "((if a then 1 else 0) OR (if b then 2 else 0) :: u32) AND 1 \<noteq> 0 \<longleftrightarrow> a"
  "((if a then 1 else 0) OR (if b then 2 else 0) :: u32) AND 2 \<noteq> 0 \<longleftrightarrow> b"
  by auto

interpretation type: symbol_codec "type_read p" "type_write p" "\<lambda>k d. name_ok k" "\<lambda>d d'. d' = type_kept p d" no_skip
  "\<lambda>d. policydb_has_boundary_feature p \<or> td_flavor d \<noteq> TYPE_ATTRIB" for p
proof
  fix k and d :: type_datum and h :: "(string, type_datum) hashtab_t"
  assume a: "name_ok k" "policydb_has_boundary_feature p \<or> td_flavor d \<noteq> TYPE_ATTRIB" "hashtab_ok h" "hashtab_abs h k = None"
  let ?b = "policydb_has_boundary_feature p"
  let ?ws = "if ?b then [of_nat (length k), td_value d,
           (if td_primary d \<noteq> 0 then TYPEDATUM_PROPERTY_PRIMARY else 0) OR (if td_flavor d = TYPE_ATTRIB then TYPEDATUM_PROPERTY_ATTRIBUTE else 0), td_bounds d]
         else [of_nat (length k), td_value d, td_primary d]"
  have w: "type_write p k d = seqW (put_u32s ?ws) (put_string k)"
    using a(2) by (auto simp: type_write_def policydb_has_boundary_feature_def)
  have fin: "reads (liftP (hashtab_insert h k (type_kept p d))) [] (added (\<lambda>d d'. d' = type_kept p d) h k d)"
    by (rule reads_insert [OF a(3,4)]) simp
  have nth: "?ws ! 0 = of_nat (length k)" "type_datum_of p ?ws = type_kept p d" by (simp_all add: type_datum_of_def type_kept_def)
  show "code (type_write p k d) (type_read p h) (added (\<lambda>d d'. d' = type_kept p d) h k d)"
    unfolding w type_read_def
    by (rule code_failP, rule code_malloc, rule code_step [OF code_u32s [of ?ws]], simp, simp, simp only: nth, rule code_end [OF code_key(1) [OF a(1)]])
      (use fin in simp)
qed (auto simp: type_write_def policydb_has_boundary_feature_def)

interpretation user: symbol_codec "user_read p" "user_write p" user_saved_ok "\<lambda>d d'. d' = user_kept p d" no_skip keep_all for p
proof
  fix k and d :: user_datum and h :: "(string, user_datum) hashtab_t"
  assume a: "user_saved_ok k d" "hashtab_ok h" "hashtab_abs h k = None"
  let ?b = "policydb_has_boundary_feature p" and ?m = "policyvers p \<ge> POLICYDB_VERSION_MLS"
  let ?ws = "[of_nat (length k), ud_value d] @ (if ?b then [ud_bounds d] else [])"
  have nth: "?ws ! 0 = of_nat (length k)" "?ws ! 1 = ud_value d" "(if ?b then ?ws ! 2 else 0) = (if ?b then ud_bounds d else 0)" by simp_all
  note o = a(1) [unfolded user_saved_ok_def]
  let ?ins = "\<lambda>r l. liftP (hashtab_insert h k \<lparr>ud_value = ud_value d, ud_roles = \<lparr>rs_roles = rs_roles (ud_roles d), rs_flags = 0\<rparr>, ud_cache = ebitmap_init,
         ud_exp_range = r, ud_exp_dfltlevel = l, ud_bounds = (if ?b then ud_bounds d else 0)\<rparr>)"
  let ?Q = "added (\<lambda>d d'. d' = user_kept p d) h k d"
  have fin: "reads (liftP (hashtab_insert h k (user_kept p d))) [] ?Q" by (rule reads_insert [OF a(2,3)]) simp
  have mls: "code (if ?m then seqW (mls_write_range_helper (ud_exp_range d)) (mls_write_level (ud_exp_dfltlevel d)) else returnE)
      (bindP (if ?m then mls_read_range_helper else returnP mls_range_init) (\<lambda>r.
        bindP (if ?m then mls_read_level else returnP mls_level_init) (\<lambda>l. ?ins r l))) ?Q"
  proof (cases ?m)
    case True
    have "code (seqW (mls_write_range_helper (ud_exp_range d)) (mls_write_level (ud_exp_dfltlevel d)))
        (bindP mls_read_range_helper (\<lambda>r. bindP mls_read_level (\<lambda>l. ?ins r l))) ?Q"
      by (rule code_step [OF rng.codec], use o in simp, rule code_end [OF lev.codec], use o in simp) (use fin True in \<open>simp add: user_kept_def\<close>)
    then show ?thesis using True by simp
  next
    case False
    have "code returnE (bindP (returnP mls_range_init) (\<lambda>r. bindP (returnP mls_level_init) (\<lambda>l. ?ins r l))) ?Q"
      by (rule code_pure, rule code_end [OF code_returnP [of "(=) mls_level_init"]]) (use fin False in \<open>auto simp: user_kept_def\<close>)
    then show ?thesis using False by simp
  qed
  show "code (user_write p k d) (user_read p h) ?Q"
    unfolding user_write_def user_read_def
    by (rule code_failP, rule code_malloc, rule code_step [OF code_u32s [of ?ws]], simp, simp, simp only: nth, rule code_step [OF code_key(1)], use o in simp,
        rule code_step [OF eb.codec], use o in simp, rule mls)
qed simp_all

section \<open>Constraints\<close>

fun cexprs_depth :: "bool \<Rightarrow> constraint_expr list \<Rightarrow> int \<Rightarrow> int option" where
  "cexprs_depth allowxtarget [] depth = Some depth"
| "cexprs_depth allowxtarget (e # es) depth = Option.bind (cexpr_depth allowxtarget (ce_type e) (ce_attr e) depth) (cexprs_depth allowxtarget es)"

definition cexpr_saved_ok :: "policydb \<Rightarrow> constraint_expr \<Rightarrow> bool" where
  "cexpr_saved_ok p e \<longleftrightarrow> cexpr_op_of (cexpr_op_code (ce_op e)) = ce_op e
     \<and> (if ce_type e = CEXPR_NAMES then ebitmap_ok (ce_names e)
          \<and> (if policyvers p \<ge> POLICYDB_VERSION_CONSTRAINT_NAMES then ebitmap_ok (ts_types (ce_type_names e)) \<and> ebitmap_ok (ts_negset (ce_type_names e))
              else ce_type_names e = type_set_init)
        else ce_names e = ebitmap_init \<and> ce_type_names e = type_set_init)"

text \<open>Constraints that the reader accepts: they leave one value on a stack that never holds more than \<open>CEXPR_MAXDEPTH\<close>.\<close>

definition cons_saved_ok :: "policydb \<Rightarrow> bool \<Rightarrow> constraint_node \<Rightarrow> bool" where
  "cons_saved_ok p allowxtarget c \<longleftrightarrow> (\<forall>e \<in> set (cn_expr c). cexpr_saved_ok p e) \<and> cexprs_depth allowxtarget (cn_expr c) (- 1) = Some 0
     \<and> length (cn_expr c) < 2 ^ 32"

lemma cexpr_depth_kind:
  assumes "cexpr_depth ax k a d = Some d'"
  shows "cexpr_kind_of (cexpr_kind_code k) = k" "cexpr_kind_code k = 5 \<longleftrightarrow> k = CEXPR_NAMES"
  using assms by (cases k; simp add: cexpr_depth_def cexpr_kind_of_def)+

lemma cexpr_code:
  assumes ok: "cexpr_saved_ok p e" and d: "cexpr_depth ax (ce_type e) (ce_attr e) depth = Some d"
  shows "code (write_cexpr p ax e) (read_cexpr p ax depth) ((=) (e, d))"
proof -
  let ?ws = "[cexpr_kind_code (ce_type e), ce_attr e, cexpr_op_code (ce_op e)]"
  let ?e = "\<lparr>ce_type = ce_type e, ce_attr = ce_attr e, ce_op = ce_op e, ce_names = ebitmap_init, ce_type_names = type_set_init\<rparr>"
  let ?v = "policyvers p \<ge> POLICYDB_VERSION_CONSTRAINT_NAMES"
  note k = cexpr_depth_kind [OF d] and op = ok [unfolded cexpr_saved_ok_def, THEN conjunct1]
  have rest: "code (if ce_type e = CEXPR_NAMES then
        (if \<not> ax \<and> ce_attr e AND CEXPR_XTARGET \<noteq> 0 then (\<lambda>_. throwE STATUS_ERR)
         else seqW (liftW (ebitmap_write (ce_names e))) (if ?v then type_set_write (ce_type_names e) else returnE))
      else returnE)
     (if ce_type e = CEXPR_NAMES then bindP ebitmap_read (\<lambda>names.
           if ?v then bindP type_set_read (\<lambda>ts. returnP (?e\<lparr>ce_names := names, ce_type_names := ts\<rparr>, d))
           else returnP (?e\<lparr>ce_names := names\<rparr>, d))
         else returnP (?e, d)) ((=) (e, d))"
  proof (cases "ce_type e = CEXPR_NAMES")
    case True
    then have x: "\<not> (\<not> ax \<and> ce_attr e AND CEXPR_XTARGET \<noteq> 0)" and n: "ebitmap_ok (ce_names e)"
      using d ok by (auto simp: cexpr_depth_def cexpr_saved_ok_def split: if_splits)
    have "code (if ?v then type_set_write (ce_type_names e) else returnE)
        (if ?v then bindP type_set_read (\<lambda>ts. returnP (?e\<lparr>ce_names := ce_names e, ce_type_names := ts\<rparr>, d))
           else returnP (?e\<lparr>ce_names := ce_names e\<rparr>, d)) ((=) (e, d))"
      using ok True by (auto simp: cexpr_saved_ok_def intro!: code_end [OF tset.codec] reads_returnP code_returnP constraint_expr.equality)
    then have "code (seqW (liftW (ebitmap_write (ce_names e))) (if ?v then type_set_write (ce_type_names e) else returnE))
        (bindP ebitmap_read (\<lambda>names.
           if ?v then bindP type_set_read (\<lambda>ts. returnP (?e\<lparr>ce_names := names, ce_type_names := ts\<rparr>, d))
           else returnP (?e\<lparr>ce_names := names\<rparr>, d))) ((=) (e, d))" by (rule code_step [OF eb.codec [OF n]])
    then show ?thesis unfolding if_P [OF True] if_not_P [OF x] .
  next
    case False
    then show ?thesis using ok by (auto simp: cexpr_saved_ok_def intro!: code_returnP constraint_expr.equality)
  qed
  have nth: "?ws ! 0 = cexpr_kind_code (ce_type e)" "?ws ! 1 = ce_attr e" "?ws ! 2 = cexpr_op_code (ce_op e)" by simp_all
  show ?thesis unfolding write_cexpr_def read_cexpr_def k(2)
    by (rule code_malloc, rule code_malloc, rule code_step [OF code_u32s], simp, simp, simp only: nth k op d Let_def option.case, rule rest)
qed

lemma cexprs_code:
  "\<forall>e \<in> set es. cexpr_saved_ok p e \<Longrightarrow> cexprs_depth ax es depth = Some d \<Longrightarrow>
    code (foldE (write_cexpr p ax) es) (read_cexprs p ax (length es) depth) ((=) (es, d))"
proof (induction es arbitrary: depth)
  case Nil
  have "foldE (write_cexpr p ax) [] = returnE" by (rule ext) simp
  then show ?case using Nil by (simp add: code_returnP)
next
  case (Cons e es)
  then obtain d1 where d1: "cexpr_depth ax (ce_type e) (ce_attr e) depth = Some d1" "cexprs_depth ax es d1 = Some d" by (auto simp: bind_eq_Some_conv)
  have w: "foldE (write_cexpr p ax) (e # es) = seqW (write_cexpr p ax e) (foldE (write_cexpr p ax) es)" by (simp add: fun_eq_iff seqW_def)
  have e: "code (write_cexpr p ax e) (read_cexpr p ax depth) ((=) (e, d1))" using Cons.prems(1) d1(1) by (simp add: cexpr_code)
  have es: "code (foldE (write_cexpr p ax) es) (read_cexprs p ax (length es) d1) ((=) (es, d))" using Cons d1(2) by simp
  show ?case unfolding w list.size add_0_right add_Suc_right read_cexprs.simps
    by (rule code_step [OF e], simp, rule code_end [OF es]) (auto simp: reads_returnP)
qed

interpretation cons: codec "read_cons_node p ax" "write_cons_node p ax" "cons_saved_ok p ax" for p ax
proof
  fix c assume ok: "cons_saved_ok p ax c"
  have c: "code (foldE (write_cexpr p ax) (cn_expr c)) (read_cexprs p ax (length (cn_expr c)) (- 1)) ((=) (cn_expr c, 0))"
    using ok by (simp add: cons_saved_ok_def cexprs_code)
  have l: "unat (of_nat (length (cn_expr c)) :: u32) = length (cn_expr c)" using ok by (intro unat_of_nat_u32) (simp add: cons_saved_ok_def)
  show "code (write_cons_node p ax c) (read_cons_node p ax) ((=) c)"
    unfolding write_cons_node_def read_cons_node_def
    by (rule code_malloc, rule code_step [OF code_u32s], simp, simp, simp add: l, rule code_end [OF c]) (auto simp: reads_returnP)
qed

lemma cons_list_code:
  assumes "\<forall>c \<in> set cs. cons_saved_ok p ax c" "length cs < 2 ^ 32"
  shows "code (write_cons_helper p cs ax) (read_cons_helper p (of_nat (length cs)) ax) ((=) cs)"
proof -
  have l: "unat (of_nat (length cs) :: u32) = length cs" using assms(2) by (intro unat_of_nat_u32) simp
  show ?thesis unfolding write_cons_helper_def read_cons_helper_def l
    by (rule code_failW, rule code_failP, rule cons.list_codec [OF assms(1)])
qed

text \<open>Classes: the common is found by its name in the policy that is read, which may hold another structure of the same name.\<close>

definition class_saved_ok :: "policydb \<Rightarrow> string \<Rightarrow> class_datum \<Rightarrow> bool" where
  "class_saved_ok p k d \<longleftrightarrow> name_ok k \<and> perms_ok (cd_permissions d)
     \<and> (case cd_comkey d of None \<Rightarrow> True | Some c \<Rightarrow> name_ok c \<and> hashtab_abs (table (p_commons p)) c \<noteq> None)
     \<and> (\<forall>c \<in> set (cd_constraints d). cons_saved_ok p False c) \<and> length (cd_constraints d) < 2 ^ 32
     \<and> (\<forall>c \<in> set (cd_validatetrans d). cons_saved_ok p True c) \<and> length (cd_validatetrans d) < 2 ^ 32"

definition class_same :: "policydb \<Rightarrow> class_datum \<Rightarrow> class_datum \<Rightarrow> bool" where
  "class_same p d d' \<longleftrightarrow> cd_value d' = cd_value d \<and> cd_comkey d' = cd_comkey d
     \<and> cd_comdatum d' = Option.bind (cd_comkey d) (hashtab_abs (table (p_commons p)))
     \<and> perms_same (cd_permissions d) (cd_permissions d') \<and> cd_constraints d' = cd_constraints d
     \<and> cd_validatetrans d' = (if policyvers p \<ge> POLICYDB_VERSION_VALIDATETRANS then cd_validatetrans d else [])
     \<and> (cd_default_user d', cd_default_role d', cd_default_range d') = (if policyvers p \<ge> POLICYDB_VERSION_NEW_OBJECT_DEFAULTS
          then (cd_default_user d, cd_default_role d, cd_default_range d) else (0, 0, 0))
     \<and> cd_default_type d' = (if policyvers p \<ge> POLICYDB_VERSION_DEFAULT_TYPE then cd_default_type d else 0)"

lemma code_opt:
  assumes "b \<Longrightarrow> code w r ((=) x)" "\<not> b \<Longrightarrow> x = y"
  shows "code (if b then w else returnE) (if b then r else returnP y) ((=) x)"
  using assms by (auto intro: code_returnP)

lemma comkey_code:
  assumes "hashtab_ok (table (p_commons p))" "case ck of None \<Rightarrow> True | Some c \<Rightarrow> name_ok c \<and> hashtab_abs (table (p_commons p)) c \<noteq> None"
  shows "code (case ck of Some k \<Rightarrow> put_string k | None \<Rightarrow> returnE) (read_comkey p (case ck of Some k \<Rightarrow> of_nat (length k) | None \<Rightarrow> 0))
    ((=) (ck, Option.bind ck (hashtab_abs (table (p_commons p)))))"
proof (cases ck)
  case None
  then show ?thesis by (simp add: read_comkey_def code_returnP)
next
  case (Some c)
  then obtain d where c: "name_ok c" "hashtab_abs (table (p_commons p)) c = Some d" using assms(2) by auto
  have "c \<noteq> []" using c(1) by (simp add: name_ok_def)
  then have "(of_nat (length c) :: u32) \<noteq> 0" using name_ok_length(1) [OF c(1)] by (metis length_0_conv unsigned_0)
  moreover have "code (put_string c) (bindP (next_key (of_nat (length c))) (\<lambda>comkey. bindP (liftP (liftE (hashtab_search (table (p_commons p)) comkey))) (\<lambda>com.
       if com = None then throwP STATUS_ERR else returnP (Some comkey, com)))) ((=) (Some c, Some d))"
    by (rule code_end [OF code_key(1) [OF c(1)]], rule reads_lift [where v = "Some d"])
      (auto simp: hashtab_search_abs [OF assms(1)] c(2) reads_returnP)
  ultimately show ?thesis by (simp add: read_comkey_def Some c(2))
qed

lemma class_code:
  assumes com: "hashtab_ok (table (p_commons p))" and ok: "class_saved_ok p k d" and h: "hashtab_ok h" "hashtab_abs h k = None"
  shows "code (class_write sc p k d) (class_read sc p h) (added (class_same p) h k d)"
proof -
  note o = ok [unfolded class_saved_ok_def]
  from o perms_table obtain t where t: "table (cd_permissions d) = Some t" by blast
  obtain s :: "perm_datum symtab" where s: "symtab_init sc PERM_SYMTAB_SIZE [] = (Inr s, [])" "hashtab_ok (table s)" "hashtab_abs (table s) = Map.empty"
    using symtab_init_no_oom [of PERM_SYMTAB_SIZE sc] by auto
  let ?len2 = "case cd_comkey d of Some k \<Rightarrow> of_nat (length k) | None \<Rightarrow> (0 :: u32)"
  let ?ws = "[of_nat (length k), ?len2, cd_value d, nprim (cd_permissions d), ht_nel t, of_nat (length (cd_constraints d))]"
  let ?no = "policyvers p \<ge> POLICYDB_VERSION_NEW_OBJECT_DEFAULTS" and ?dt = "policyvers p \<ge> POLICYDB_VERSION_DEFAULT_TYPE"
    and ?vt = "policyvers p \<ge> POLICYDB_VERSION_VALIDATETRANS"
  let ?x = "if ?no then [char_u32 sc (cd_default_user d), char_u32 sc (cd_default_role d), char_u32 sc (cd_default_range d)] else [0, 0, 0]"
  let ?y = "if ?dt then [char_u32 sc (cd_default_type d)] else [0]"
  let ?v = "if ?vt then cd_validatetrans d else []"
  have nth: "?ws ! 0 = of_nat (length k)" "?ws ! 1 = ?len2" "?ws ! 2 = cd_value d" "?ws ! 3 = nprim (cd_permissions d)" "?ws ! 4 = ht_nel t"
    "?ws ! 5 = of_nat (length (cd_constraints d))" by simp_all
  have vt: "code (if ?vt then seqW (put_u32s [of_nat (length (cd_validatetrans d))]) (write_cons_helper p (cd_validatetrans d) True) else returnE)
      (read_validatetrans p) ((=) ?v)"
    unfolding read_validatetrans_def
  proof (rule code_opt)
    assume ?vt
    show "code (seqW (put_u32s [of_nat (length (cd_validatetrans d))]) (write_cons_helper p (cd_validatetrans d) True))
        (bindP (next_u32s 1) (\<lambda>buf. read_cons_helper p (buf ! 0) True)) ((=) ?v)"
      by (rule code_step [OF code_u32s], simp, simp) (use cons_list_code [of "cd_validatetrans d" p True] o \<open>?vt\<close> in simp)
  qed simp
  have no: "code (if ?no then put_u32s [char_u32 sc (cd_default_user d), char_u32 sc (cd_default_role d), char_u32 sc (cd_default_range d)] else returnE)
      (if ?no then next_u32s 3 else returnP [0, 0, 0]) ((=) ?x)" by (rule code_opt) (auto intro: code_u32s)
  have dt: "code (if ?dt then put_u32s [char_u32 sc (cd_default_type d)] else returnE) (if ?dt then next_u32s 1 else returnP [0]) ((=) ?y)"
    by (rule code_opt) (auto intro: code_u32s)
  have df: "code (seqW (if ?no then put_u32s [char_u32 sc (cd_default_user d), char_u32 sc (cd_default_role d), char_u32 sc (cd_default_range d)] else returnE)
      (if ?dt then put_u32s [char_u32 sc (cd_default_type d)] else returnE)) (read_defaults p)
      ((=) (ucast (?x ! 0), ucast (?x ! 1), ucast (?y ! 0), ucast (?x ! 2)))"
    unfolding read_defaults_def by (rule code_step [OF no], rule code_end [OF dt]) (auto simp: reads_returnP)
  have w: "class_write sc p k d = seqW (put_u32s ?ws) (seqW (put_string k)
     (seqW (case cd_comkey d of Some k \<Rightarrow> put_string k | None \<Rightarrow> returnE)
     (seqW (failW (hashtab_map (table (cd_permissions d)) perm_write) STATUS_ERR)
     (seqW (write_cons_helper p (cd_constraints d) False)
     (seqW (if ?vt then seqW (put_u32s [of_nat (length (cd_validatetrans d))]) (write_cons_helper p (cd_validatetrans d) True) else returnE)
     (seqW (if ?no then put_u32s [char_u32 sc (cd_default_user d), char_u32 sc (cd_default_role d), char_u32 sc (cd_default_range d)] else returnE)
     (if ?dt then put_u32s [char_u32 sc (cd_default_type d)] else returnE)))))))"
    unfolding class_write_def Let_def t by simp
  have c: "ucast (char_u32 sc x) = x" for x by (simp add: char_u32_def)
  show ?thesis unfolding w class_read_def
    by (rule code_failP, rule code_malloc, rule code_step [OF code_u32s], simp, simp, simp only: nth, rule code_lift, rule s(1), rule code_step [OF code_key(1)],
        use o in simp, rule code_step [OF comkey_code [OF com]], use o in simp, simp only: prod.case, rule code_bind [OF perms_code [OF _ t s(2,3)]], use o in simp,
        rule code_step [OF cons_list_code], use o in simp, use o in simp, rule code_step [OF vt], rule code_end [OF df])
      (auto intro!: reads_insert h simp: class_same_def c)
qed

section \<open>Arbitrary bytes\<close>

text \<open>What \<open>ebitmap_read\<close> accepts: well-formed nodes below the high bit. The high bit need not be the end of the last node.\<close>

definition nodes_read :: "ebitmap_node option \<Rightarrow> u32 \<Rightarrow> ebitmap_node list \<Rightarrow> bool" where
  "nodes_read l hb ns \<longleftrightarrow> nodes_ok ns \<and> (\<forall>n \<in> set ns. unat (startbit n) + 64 \<le> unat hb)
     \<and> (case l of None \<Rightarrow> True | Some m \<Rightarrow> \<forall>n \<in> set ns. startbit m < startbit n)"

definition ebitmap_read_ok :: "ebitmap \<Rightarrow> bool" where
  "ebitmap_read_ok e \<longleftrightarrow> nodes_read None (highbit e) (node e) \<and> highbit e AND 63 = 0"

lemma aligned_64: "(hb :: u32) AND 63 = 0 \<longleftrightarrow> unat hb mod 64 = 0"
  by (metis unat_and_63 unat_eq_zero)

lemma aligned_ge_64:
  assumes "(hb :: u32) AND 63 = 0" "hb \<noteq> 0"
  shows "64 \<le> unat hb"
proof -
  have "unat hb \<noteq> 0" using assms(2) by (simp add: unat_eq_zero)
  then show ?thesis using assms(1) [unfolded aligned_64] by (metis dvd_imp_le mod_0_imp_dvd neq0_conv)
qed

lemma safe_read_nodes:
  assumes "64 \<le> unat hb"
  shows "safe (read_nodes c hb l) (nodes_read l hb)"
proof (induction c arbitrary: l)
  case 0
  have "read_nodes 0 hb l = returnP []" by (simp add: fun_eq_iff returnP_def)
  then show ?case by (auto intro!: safe_returnP simp: nodes_read_def split: option.splits)
next
  case (Suc c)
  have eq: "read_nodes (Suc c) hb l = bindP (next_bytes 4) (\<lambda>buf. bindP (liftP malloc) (\<lambda>_.
       let s = get_le buf :: u32 in
       if s AND 63 \<noteq> 0 then throwP EINVAL
       else if unat s > unat hb - MAPSIZE then throwP EINVAL
       else bindP (next_bytes 8) (\<lambda>buf2. let n = \<lparr>startbit = s, nmap = get_le buf2\<rparr> in
         if nmap n = 0 then throwP EINVAL
         else if (case l of None \<Rightarrow> False | Some p \<Rightarrow> startbit n \<le> startbit p) then throwP EINVAL
         else bindP (read_nodes c hb (Some n)) (\<lambda>ns. returnP (n # ns)))))"
    by (intro ext) (simp add: bindE_liftP bindP_def next_bytes_def throwP_def returnP_def Let_def if_distribR cong: if_cong)
  have cons: "nodes_read l' hb (\<lparr>startbit = s, nmap = m\<rparr> # ns)"
    if "s AND 63 = 0" "\<not> unat s > unat hb - MAPSIZE" "m \<noteq> 0" "\<forall>p. l' = Some p \<longrightarrow> \<not> s \<le> startbit p"
      "nodes_read (Some \<lparr>startbit = s, nmap = m\<rparr>) hb ns" for l' s m ns
  proof -
    have le: "unat s + 64 \<le> unat hb" using that(2) assms by simp
    moreover have "unat hb < 2 ^ 32" using unat_u32_lt [of hb] by simp
    ultimately have "node_ok \<lparr>startbit = s, nmap = m\<rparr>" using that(1,3) by (simp add: node_ok_def aligned_64)
    then show ?thesis using that(4,5) le by (auto simp: nodes_read_def not_le split: option.splits intro: order.strict_trans)
  qed
  show ?case unfolding eq Let_def
    by (rule safe_bindP [OF safe_bytes], rule safe_malloc)
      (auto intro!: safe_throwP safe_bindP [OF safe_bytes] safe_bindP [OF Suc] safe_returnP cons split: option.splits)
qed

lemma safe_ebitmap_read: "safe ebitmap_read ebitmap_read_ok"
proof -
  have eq: "ebitmap_read = bindP (next_bytes 12) (\<lambda>buf.
       let mapsize = get_le (take 4 buf) :: u32; hb = get_le (take 4 (drop 4 buf)) :: u32; count = get_le (drop 8 buf) :: u32 in
       if mapsize \<noteq> 64 then throwP EINVAL else if hb = 0 then returnP \<lparr>node = [], highbit = hb\<rparr> else if hb AND 63 \<noteq> 0 then throwP EINVAL
       else bindP (read_nodes (unat count) hb None) (\<lambda>ns. returnP \<lparr>node = ns, highbit = hb\<rparr>))"
    by (intro ext) (simp add: ebitmap_read_def bindP_def next_bytes_def throwP_def returnP_def Let_def if_distribR cong: if_cong)
  show ?thesis unfolding eq Let_def
    by (rule safe_bindP [OF safe_bytes]) (auto intro!: safe_throwP safe_returnP safe_bindP [OF safe_read_nodes] simp: aligned_ge_64 ebitmap_read_ok_def nodes_read_def)
qed

lemma safe_yields: "yields m (Inr v) \<Longrightarrow> Q v \<Longrightarrow> safe (liftP m) Q"
  by (rule safe_liftP) (auto dest: yields_Inr yields_Inl)

lemma safe_insert: "hashtab_ok h \<Longrightarrow> safe (liftP (hashtab_insert h k d)) hashtab_ok"
proof (cases "hashtab_abs h k = None")
  case True
  assume "hashtab_ok h"
  with hashtab_insert_new [OF this True, of d] show ?thesis by (auto intro: safe_yields)
next
  case False
  assume "hashtab_ok h"
  with hashtab_insert_dup [OF this False, of d] show ?thesis by (auto intro!: safe_liftP simp: throwE_def)
qed

lemma safe_any: "safe r P \<Longrightarrow> safe r (\<lambda>_. True)"
  by (erule safe_weaken) simp

text \<open>A reader of symbols that keeps the table well-formed on every file.\<close>

locale symbol_reader =
  fixes rd :: "(string, 'd) hashtab_t \<Rightarrow> (string, 'd) hashtab_t reader"
  assumes reader: "hashtab_ok h \<Longrightarrow> safe (rd h) hashtab_ok"
begin

lemma table_reader: "hashtab_ok h \<Longrightarrow> safe (repeatP n rd h) hashtab_ok"
  by (rule safe_repeatP [where I = hashtab_ok]) (simp_all add: reader)

end

interpretation perm: symbol_reader perm_read
  by unfold_locales (auto simp: perm_read_def intro!: safe_failP safe_malloc safe_bindP [OF safe_u32s] safe_bindP [OF safe_key] safe_insert)


lemma safe_symtab_init:
  assumes "\<And>s :: 'd symtab. hashtab_ok (table s) \<Longrightarrow> safe (f s) Q"
  shows "safe (bindP (liftP (symtab_init sc PERM_SYMTAB_SIZE)) f) Q"
proof -
  from hashtab_create_sym [of PERM_SYMTAB_SIZE sc] obtain h :: "(string, 'd) hashtab_val" where
    h: "yields (hashtab_create (symhash sc) symcmp PERM_SYMTAB_SIZE) (Inr h)" "hashtab_ok (Some h)" by auto
  have "safe (liftP (symtab_init sc PERM_SYMTAB_SIZE)) (\<lambda>s :: 'd symtab. hashtab_ok (table s))"
    by (rule safe_liftP) (auto simp: symtab_init_def bindE_def failE_def returnE_def h(2) split: prod.splits sum.splits if_splits
      dest!: yields_Inr [OF h(1)] yields_Inl [OF h(1)])
  then show ?thesis by (rule safe_bindP) (rule assms)
qed

lemmas safe_reads = safe_failP safe_malloc safe_bindP [OF safe_u32s] safe_bindP [OF safe_key] safe_bindP [OF safe_key32] safe_insert
  safe_bindP [OF safe_ebitmap_read] safe_throwP safe_returnP

interpretation common: symbol_reader "common_read sc" for sc
  by unfold_locales (auto simp: common_read_def intro!: safe_reads safe_symtab_init safe_bindP [OF perm.table_reader])

interpretation type: symbol_reader "type_read p" for p
  by unfold_locales (auto simp: type_read_def intro!: safe_reads)

interpretation role: symbol_reader "role_read p" for p
  by unfold_locales (auto simp: role_read_def intro!: safe_reads)

interpretation cbool: symbol_reader cond_read_bool
  by unfold_locales (auto simp: cond_read_bool_def Let_def intro!: safe_reads)

interpretation catg: symbol_reader cat_read
  by unfold_locales (auto simp: cat_read_def intro!: safe_reads)

definition level_read_ok :: "mls_level \<Rightarrow> bool" where
  "level_read_ok l \<longleftrightarrow> ebitmap_read_ok (cat l)"

lemma safe_read_level: "safe mls_read_level level_read_ok"
  unfolding mls_read_level_def by (auto intro!: safe_reads simp: level_read_ok_def)

lemma safe_read_range: "safe mls_read_range_helper (\<lambda>r. level_read_ok (low r) \<and> level_read_ok (high r))"
  unfolding mls_read_range_helper_def Let_def
  by (auto intro!: safe_reads safe_bindP [OF safe_yields [OF ebitmap_cpy_yields]] simp: level_read_ok_def)

lemma safe_read_type_set: "safe type_set_read (\<lambda>s. ebitmap_read_ok (ts_types s) \<and> ebitmap_read_ok (ts_negset s))"
  unfolding type_set_read_def by (auto intro!: safe_reads)

interpretation sens: symbol_reader sens_read
  by unfold_locales (auto simp: sens_read_def intro!: safe_reads safe_bindP [OF safe_read_level])

interpretation user: symbol_reader "user_read p" for p
  by unfold_locales (auto simp: user_read_def intro!: safe_reads safe_bindP [OF safe_any [OF safe_read_level]] safe_bindP [OF safe_any [OF safe_read_range]]
    safe_bindP [OF safe_returnP [of "\<lambda>_. True"]] split: if_splits)

text \<open>Constraints that are read respect the stack, whatever the bytes are.\<close>

lemma safe_read_cexpr:
  "safe (read_cexpr p ax depth) (\<lambda>(e, d). cexpr_depth ax (ce_type e) (ce_attr e) depth = Some d)"
proof -
  have step: "safe (case cexpr_depth ax (cexpr_kind_of t) a depth of None \<Rightarrow> throwP STATUS_ERR | Some d \<Rightarrow>
       if cexpr_kind_of t = CEXPR_NAMES then bindP ebitmap_read (\<lambda>names.
           if policyvers p \<ge> POLICYDB_VERSION_CONSTRAINT_NAMES
           then bindP type_set_read (\<lambda>ts. returnP (e\<lparr>ce_names := names, ce_type_names := ts\<rparr>, d)) else returnP (e\<lparr>ce_names := names\<rparr>, d))
       else returnP (e, d)) (\<lambda>(e, d). cexpr_depth ax (ce_type e) (ce_attr e) depth = Some d)"
    if "ce_type e = cexpr_kind_of t" "ce_attr e = a" for t a e
    using that by (cases "cexpr_depth ax (cexpr_kind_of t) a depth") (auto intro!: safe_reads safe_bindP [OF safe_read_type_set])
  show ?thesis unfolding read_cexpr_def Let_def by (intro safe_malloc safe_bindP [OF safe_u32s], rule step) simp_all
qed

lemma safe_read_cexprs:
  "safe (read_cexprs p ax n depth) (\<lambda>(es, d). length es = n \<and> cexprs_depth ax es depth = Some d)"
proof (induction n arbitrary: depth)
  case (Suc n)
  show ?case unfolding read_cexprs.simps
  proof (rule safe_bindP [OF safe_read_cexpr], clarify)
    fix e :: constraint_expr and d assume "cexpr_depth ax (ce_type e) (ce_attr e) depth = Some d"
    then show "safe (bindP (read_cexprs p ax n d) (\<lambda>(es, d'). returnP (e # es, d')))
        (\<lambda>(es, d). length es = Suc n \<and> cexprs_depth ax es depth = Some d)"
      by (intro safe_bindP [OF Suc]) (auto intro!: safe_returnP)
  qed
qed (simp add: safe_returnP)

definition cons_balanced :: "bool \<Rightarrow> constraint_node \<Rightarrow> bool" where
  "cons_balanced ax c \<longleftrightarrow> cexprs_depth ax (cn_expr c) (- 1) = Some 0"

lemma safe_read_cons: "safe (read_cons_helper p n ax) (\<lambda>cs. length cs = unat n \<and> (\<forall>c \<in> set cs. cons_balanced ax c))"
proof -
  have "safe (read_cons_node p ax) (cons_balanced ax)"
    unfolding read_cons_node_def
    by (rule safe_malloc, rule safe_bindP [OF safe_u32s], rule safe_bindP [OF safe_read_cexprs]) (auto intro!: safe_reads simp: cons_balanced_def)
  then show ?thesis unfolding read_cons_helper_def by (auto intro!: safe_failP safe_weaken [OF safe_listP])
qed

lemma safe_read_class:
  assumes "hashtab_ok (table (p_commons p))" "hashtab_ok h"
  shows "safe (class_read sc p h) hashtab_ok"
proof -
  have com: "safe (read_comkey p n) (\<lambda>_. True)" for n
    unfolding read_comkey_def hashtab_search_abs [OF assms(1)]
    by (auto intro!: safe_reads safe_bindP [OF safe_yields [OF yields_liftE], where P = "\<lambda>_. True"])
  have vt: "safe (read_validatetrans p) (\<lambda>_. True)" unfolding read_validatetrans_def by (auto intro!: safe_reads safe_any [OF safe_read_cons])
  have df: "safe (read_defaults p) (\<lambda>_. True)" unfolding read_defaults_def
    by (auto intro!: safe_reads safe_bindP [where P = "\<lambda>_. True"] safe_any [OF safe_u32s])
  show ?thesis unfolding class_read_def
    by (auto intro!: safe_reads safe_symtab_init safe_bindP [OF com] safe_bindP [OF perm.table_reader] safe_bindP [OF safe_read_cons] safe_bindP [OF vt]
      safe_bindP [OF df] assms(2))
qed

end
