(* ===== verification/Policydb_Sections.thy ===== *)
theory Policydb_Sections
  imports Policydb_Symbols
begin

text \<open>
  The rules and labels of a kernel policy in the policy file: reading (policydb.c) and writing (write.c) of role transitions, role
  allow rules, file name transitions, range transitions, object contexts of both target platforms, and file systems. Addresses of
  nodes are kept in network order by both sides; as a number they are read like a little-endian machine does.
\<close>

section \<open>Rules\<close>

definition role_trans_item :: "policydb \<Rightarrow> role_trans reader" where
  "role_trans_item p = bindP (liftP malloc) (\<lambda>_. bindP (next_u32s 3) (\<lambda>buf.
     bindP (if policyvers p \<ge> POLICYDB_VERSION_ROLETRANS then next_u32s 1 else returnP [SECCLASS_PROCESS]) (\<lambda>buf1.
       returnP \<lparr>rt_role = buf ! 0, rt_type = buf ! 1, rt_tclass = buf1 ! 0, rt_new_role = buf ! 2\<rparr>)))"

text \<open>A list is only stored when it has an element.\<close>

definition role_trans_read :: "policydb \<Rightarrow> policydb reader" where
  "role_trans_read p = failP (bindP (next_u32s 1) (\<lambda>buf. bindP (listP (unat (buf ! 0)) (role_trans_item p)) (\<lambda>l.
     returnP (if l = [] then p else p\<lparr>role_tr := l\<rparr>)))) STATUS_ERR"

definition role_allow_item :: "role_allow reader" where
  "role_allow_item = bindP (liftP malloc) (\<lambda>_. bindP (next_u32s 2) (\<lambda>buf. returnP \<lparr>ra_role = buf ! 0, ra_new_role = buf ! 1\<rparr>))"

definition role_allow_read :: "policydb \<Rightarrow> policydb reader" where
  "role_allow_read p = failP (bindP (next_u32s 1) (\<lambda>buf. bindP (listP (unat (buf ! 0)) role_allow_item) (\<lambda>l.
     returnP (if l = [] then p else p\<lparr>role_allows := l\<rparr>)))) STATUS_ERR"

definition filename_trans_item :: "filename_trans reader" where
  "filename_trans_item = bindP (liftP malloc) (\<lambda>_. bindP (next_u32s 1) (\<lambda>buf. bindP (next_key32 (buf ! 0)) (\<lambda>name. bindP (next_u32s 4) (\<lambda>buf.
     returnP \<lparr>ft_stype = buf ! 0, ft_ttype = buf ! 1, ft_tclass = buf ! 2, ft_name = name, ft_otype = buf ! 3\<rparr>))))"

definition filename_trans_read :: "policydb \<Rightarrow> policydb reader" where
  "filename_trans_read p = failP (bindP (next_u32s 1) (\<lambda>buf. bindP (listP (unat (buf ! 0)) filename_trans_item) (\<lambda>l.
     returnP (if l = [] then p else p\<lparr>p_filename_trans := l\<rparr>)))) STATUS_ERR"

definition range_item :: "policydb \<Rightarrow> range_trans reader" where
  "range_item p = bindP (liftP malloc) (\<lambda>_. bindP (next_u32s 2) (\<lambda>buf.
     bindP (if policyvers p \<ge> POLICYDB_VERSION_RANGETRANS then next_u32s 1 else returnP [SECCLASS_PROCESS]) (\<lambda>buf1.
     bindP mls_read_range_helper (\<lambda>r.
       returnP \<lparr>rtr_source_type = buf ! 0, rtr_target_type = buf ! 1, rtr_target_class = buf1 ! 0, rtr_target_range = r\<rparr>))))"

definition range_read :: "policydb \<Rightarrow> policydb reader" where
  "range_read p = failP (bindP (next_u32s 1) (\<lambda>buf. bindP (listP (unat (buf ! 0)) (range_item p)) (\<lambda>l.
     returnP (if l = [] then p else p\<lparr>range_tr := l\<rparr>)))) STATUS_ERR"

definition role_trans_write :: "policydb \<Rightarrow> writer" where
  "role_trans_write p = (let new = policyvers p \<ge> POLICYDB_VERSION_ROLETRANS; l = filter (\<lambda>t. new \<or> rt_tclass t = SECCLASS_PROCESS) (role_tr p) in
     seqW (put_u32s [of_nat (length l)]) (foldE (\<lambda>t. seqW (put_u32s [rt_role t, rt_type t, rt_new_role t])
       (if new then put_u32s [rt_tclass t] else returnE)) l))"

definition role_allow_write :: "role_allow list \<Rightarrow> writer" where
  "role_allow_write l = seqW (put_u32s [of_nat (length l)]) (foldE (\<lambda>r. put_u32s [ra_role r, ra_new_role r]) l)"

definition filename_trans_write :: "filename_trans list \<Rightarrow> writer" where
  "filename_trans_write l = seqW (put_u32s [of_nat (length l)]) (foldE (\<lambda>t. seqW (put_u32s [of_nat (length (ft_name t))])
     (seqW (put_string (ft_name t)) (put_u32s [ft_stype t, ft_ttype t, ft_tclass t, ft_otype t]))) l)"

definition range_write :: "policydb \<Rightarrow> writer" where
  "range_write p = (let new = policyvers p \<ge> POLICYDB_VERSION_RANGETRANS; l = filter (\<lambda>t. new \<or> rtr_target_class t = SECCLASS_PROCESS) (range_tr p) in
     seqW (put_u32s [of_nat (length l)]) (foldE (\<lambda>t. seqW (put_u32s [rtr_source_type t, rtr_target_type t])
       (seqW (if new then put_u32s [rtr_target_class t] else returnE) (mls_write_range_helper (rtr_target_range t)))) l))"

section \<open>Object contexts\<close>

text \<open>The lists \<open>ocontexts[i]\<close>. The Xen platform keeps its interrupts, ports, memory ranges and devices at the indexes 1 to 4.\<close>

fun ocon_get :: "nat \<Rightarrow> policydb \<Rightarrow> ocontext list" where
  "ocon_get 0 p = oc_isid p"
| "ocon_get (Suc 0) p = oc_fs p"
| "ocon_get (Suc (Suc 0)) p = oc_port p"
| "ocon_get (Suc (Suc (Suc 0))) p = oc_netif p"
| "ocon_get (Suc (Suc (Suc (Suc 0)))) p = oc_node p"
| "ocon_get (Suc (Suc (Suc (Suc (Suc 0))))) p = oc_fsuse p"
| "ocon_get (Suc (Suc (Suc (Suc (Suc (Suc _)))))) p = oc_node6 p"

fun ocon_set :: "nat \<Rightarrow> ocontext list \<Rightarrow> policydb \<Rightarrow> policydb" where
  "ocon_set 0 l p = p\<lparr>oc_isid := l\<rparr>"
| "ocon_set (Suc 0) l p = p\<lparr>oc_fs := l\<rparr>"
| "ocon_set (Suc (Suc 0)) l p = p\<lparr>oc_port := l\<rparr>"
| "ocon_set (Suc (Suc (Suc 0))) l p = p\<lparr>oc_netif := l\<rparr>"
| "ocon_set (Suc (Suc (Suc (Suc 0)))) l p = p\<lparr>oc_node := l\<rparr>"
| "ocon_set (Suc (Suc (Suc (Suc (Suc 0))))) l p = p\<lparr>oc_fsuse := l\<rparr>"
| "ocon_set (Suc (Suc (Suc (Suc (Suc (Suc _)))))) l p = p\<lparr>oc_node6 := l\<rparr>"

datatype ocon_kind = OCON_ISID | OCON_FS | OCON_PORT | OCON_NETIF | OCON_NODE | OCON_FSUSE | OCON_NODE6 | OCON_UNKNOWN
  | OCON_XEN_ISID | OCON_XEN_PIRQ | OCON_XEN_IOPORT | OCON_XEN_IOMEM | OCON_XEN_PCIDEVICE

definition ocon_kind_of :: "bool \<Rightarrow> nat \<Rightarrow> ocon_kind" where
  "ocon_kind_of xen i = (let ks = (if xen then [OCON_XEN_ISID, OCON_XEN_PIRQ, OCON_XEN_IOPORT, OCON_XEN_IOMEM, OCON_XEN_PCIDEVICE]
       else [OCON_ISID, OCON_FS, OCON_PORT, OCON_NETIF, OCON_NODE, OCON_FSUSE, OCON_NODE6]) in
     if i < length ks then ks ! i else OCON_UNKNOWN)"

text \<open>An object context after \<open>calloc\<close>; the union is zero.\<close>

definition ocontext_zero :: ocontext where
  "ocontext_zero = \<lparr>oc_u = OPort 0 0 0, oc_v = 0, oc_context = (context_init, context_init), oc_sid = (0, 0)\<rparr>"

definition ocon_with_context :: "policydb \<Rightarrow> ocontext \<Rightarrow> ocontext reader" where
  "ocon_with_context p c = bindP (context_read_and_validate p) (\<lambda>x. returnP (c\<lparr>oc_context := (x, snd (oc_context c))\<rparr>))"

fun ocon_item :: "policydb \<Rightarrow> ocon_kind \<Rightarrow> ocontext reader" where
  "ocon_item p OCON_ISID = bindP (next_u32s 1) (\<lambda>buf. ocon_with_context p (ocontext_zero\<lparr>oc_sid := (buf ! 0, 0)\<rparr>))"
| "ocon_item p OCON_FS = bindP (next_u32s 1) (\<lambda>buf. bindP (next_key (buf ! 0)) (\<lambda>name.
     bindP (context_read_and_validate p) (\<lambda>x. bindP (context_read_and_validate p) (\<lambda>y.
       returnP (ocontext_zero\<lparr>oc_u := OName name, oc_context := (x, y)\<rparr>)))))"
| "ocon_item p OCON_NETIF = bindP (next_u32s 1) (\<lambda>buf. bindP (next_key (buf ! 0)) (\<lambda>name.
     bindP (context_read_and_validate p) (\<lambda>x. bindP (context_read_and_validate p) (\<lambda>y.
       returnP (ocontext_zero\<lparr>oc_u := OName name, oc_context := (x, y)\<rparr>)))))"
| "ocon_item p OCON_PORT = bindP (next_u32s 3) (\<lambda>buf.
     ocon_with_context p (ocontext_zero\<lparr>oc_u := OPort (ucast (buf ! 0)) (ucast (buf ! 1)) (ucast (buf ! 2))\<rparr>))"
| "ocon_item p OCON_NODE = bindP (next_u32s 2) (\<lambda>buf. ocon_with_context p (ocontext_zero\<lparr>oc_u := ONode (buf ! 0) (buf ! 1)\<rparr>))"
| "ocon_item p OCON_FSUSE = bindP (next_u32s 2) (\<lambda>buf. bindP (next_key (buf ! 1)) (\<lambda>name.
     ocon_with_context p (ocontext_zero\<lparr>oc_u := OName name, oc_v := buf ! 0\<rparr>)))"
| "ocon_item p OCON_NODE6 = bindP (next_u32s 8) (\<lambda>buf. ocon_with_context p (ocontext_zero\<lparr>oc_u := ONode6 (take 4 buf) (drop 4 buf)\<rparr>))"
| "ocon_item p OCON_XEN_ISID = bindP (next_u32s 1) (\<lambda>buf. ocon_with_context p (ocontext_zero\<lparr>oc_sid := (buf ! 0, 0)\<rparr>))"
| "ocon_item p OCON_XEN_PIRQ = bindP (next_u32s 1) (\<lambda>buf. ocon_with_context p (ocontext_zero\<lparr>oc_u := OPirq (ucast (buf ! 0))\<rparr>))"
| "ocon_item p OCON_XEN_IOPORT = bindP (next_u32s 2) (\<lambda>buf. ocon_with_context p (ocontext_zero\<lparr>oc_u := OIoport (buf ! 0) (buf ! 1)\<rparr>))"
| "ocon_item p OCON_XEN_IOMEM = bindP (next_u32s 2) (\<lambda>buf. ocon_with_context p (ocontext_zero\<lparr>oc_u := OIomem (buf ! 0) (buf ! 1)\<rparr>))"
| "ocon_item p OCON_XEN_PCIDEVICE = bindP (next_u32s 1) (\<lambda>buf. ocon_with_context p (ocontext_zero\<lparr>oc_u := ODevice (buf ! 0)\<rparr>))"
| "ocon_item p OCON_UNKNOWN = throwP STATUS_ERR"

definition ocon_list_read :: "bool \<Rightarrow> nat \<Rightarrow> policydb \<Rightarrow> policydb reader" where
  "ocon_list_read xen i p = bindP (next_u32s 1) (\<lambda>buf.
     bindP (listP (unat (buf ! 0)) (bindP (liftP malloc) (\<lambda>_. ocon_item p (ocon_kind_of xen i)))) (\<lambda>l.
       returnP (if l = [] then p else ocon_set i l p)))"

definition ocontext_read_xen :: "nat \<Rightarrow> policydb \<Rightarrow> policydb reader" where
  "ocontext_read_xen ocon_num p = failP (foldP (ocon_list_read True) [0..<ocon_num] p) STATUS_ERR"

definition ocontext_read_selinux :: "nat \<Rightarrow> policydb \<Rightarrow> policydb reader" where
  "ocontext_read_selinux ocon_num p = failP (foldP (ocon_list_read False) [0..<ocon_num] p) STATUS_ERR"

abbreviation (input) "SEPOL_TARGET_SELINUX \<equiv> 0 :: u32"
abbreviation (input) "SEPOL_TARGET_XEN \<equiv> 1 :: u32"

definition ocontext_read :: "nat \<Rightarrow> policydb \<Rightarrow> policydb reader" where
  "ocontext_read ocon_num p = (if target_platform p = SEPOL_TARGET_SELINUX then ocontext_read_selinux ocon_num p
     else if target_platform p = SEPOL_TARGET_XEN then ocontext_read_xen ocon_num p else throwP STATUS_ERR)"

text \<open>The writer reads the member of the union that its list has; another member is a fault.\<close>

fun ocon_item_write :: "policydb \<Rightarrow> ocon_kind \<Rightarrow> ocontext \<Rightarrow> writer" where
  "ocon_item_write p OCON_ISID c = seqW (put_u32s [fst (oc_sid c)]) (context_write p (fst (oc_context c)))"
| "ocon_item_write p OCON_FS c = (case oc_u c of
     OName name \<Rightarrow> seqW (put_u32s [of_nat (length name)]) (seqW (put_string name) (seqW (context_write p (fst (oc_context c))) (context_write p (snd (oc_context c)))))
   | _ \<Rightarrow> (\<lambda>_. throwE Fault))"
| "ocon_item_write p OCON_NETIF c = (case oc_u c of
     OName name \<Rightarrow> seqW (put_u32s [of_nat (length name)]) (seqW (put_string name) (seqW (context_write p (fst (oc_context c))) (context_write p (snd (oc_context c)))))
   | _ \<Rightarrow> (\<lambda>_. throwE Fault))"
| "ocon_item_write p OCON_PORT c = (case oc_u c of
     OPort prot lo hi \<Rightarrow> seqW (put_u32s [ucast prot, ucast lo, ucast hi]) (context_write p (fst (oc_context c))) | _ \<Rightarrow> (\<lambda>_. throwE Fault))"
| "ocon_item_write p OCON_NODE c = (case oc_u c of
     ONode a m \<Rightarrow> seqW (put_u32s [a, m]) (context_write p (fst (oc_context c))) | _ \<Rightarrow> (\<lambda>_. throwE Fault))"
| "ocon_item_write p OCON_FSUSE c = (case oc_u c of
     OName name \<Rightarrow> seqW (put_u32s [oc_v c, of_nat (length name)]) (seqW (put_string name) (context_write p (fst (oc_context c)))) | _ \<Rightarrow> (\<lambda>_. throwE Fault))"
| "ocon_item_write p OCON_NODE6 c = (case oc_u c of
     ONode6 a m \<Rightarrow> seqW (put_u32s (a @ m)) (context_write p (fst (oc_context c))) | _ \<Rightarrow> (\<lambda>_. throwE Fault))"
| "ocon_item_write p OCON_XEN_ISID c = seqW (put_u32s [fst (oc_sid c)]) (context_write p (fst (oc_context c)))"
| "ocon_item_write p OCON_XEN_PIRQ c = (case oc_u c of
     OPirq n \<Rightarrow> seqW (put_u32s [ucast n]) (context_write p (fst (oc_context c))) | _ \<Rightarrow> (\<lambda>_. throwE Fault))"
| "ocon_item_write p OCON_XEN_IOPORT c = (case oc_u c of
     OIoport lo hi \<Rightarrow> seqW (put_u32s [lo, hi]) (context_write p (fst (oc_context c))) | _ \<Rightarrow> (\<lambda>_. throwE Fault))"
| "ocon_item_write p OCON_XEN_IOMEM c = (case oc_u c of
     OIomem lo hi \<Rightarrow> seqW (put_u32s [lo, hi]) (context_write p (fst (oc_context c))) | _ \<Rightarrow> (\<lambda>_. throwE Fault))"
| "ocon_item_write p OCON_XEN_PCIDEVICE c = (case oc_u c of
     ODevice d \<Rightarrow> seqW (put_u32s [d]) (context_write p (fst (oc_context c))) | _ \<Rightarrow> (\<lambda>_. throwE Fault))"
| "ocon_item_write p OCON_UNKNOWN c = returnE"

definition ocon_list_write :: "bool \<Rightarrow> policydb \<Rightarrow> nat \<Rightarrow> writer" where
  "ocon_list_write xen p i = seqW (put_u32s [of_nat (length (ocon_get i p))]) (foldE (ocon_item_write p (ocon_kind_of xen i)) (ocon_get i p))"

definition ocontext_write_xen :: "nat \<Rightarrow> policydb \<Rightarrow> writer" where
  "ocontext_write_xen ocon_num p = foldE (ocon_list_write True p) [0..<ocon_num]"

definition ocontext_write_selinux :: "nat \<Rightarrow> policydb \<Rightarrow> writer" where
  "ocontext_write_selinux ocon_num p = foldE (ocon_list_write False p) [0..<ocon_num]"

definition ocontext_write :: "nat \<Rightarrow> policydb \<Rightarrow> writer" where
  "ocontext_write ocon_num p = (if target_platform p = SEPOL_TARGET_SELINUX then ocontext_write_selinux ocon_num p
     else if target_platform p = SEPOL_TARGET_XEN then ocontext_write_xen ocon_num p else (\<lambda>_. throwE STATUS_ERR))"

section \<open>File systems\<close>

text \<open>Entries are kept in the order of their names; a name that is there is refused.\<close>

fun genfs_insert :: "genfs \<Rightarrow> genfs list \<Rightarrow> genfs list option" where
  "genfs_insert new [] = Some [new]"
| "genfs_insert new (g # gs) = (if strcmp (gf_fstype new) (gf_fstype g) = 0 then None
     else if strcmp (gf_fstype new) (gf_fstype g) < 0 then Some (new # g # gs)
     else map_option (Cons g) (genfs_insert new gs))"

text \<open>The contexts of a file system are kept with the longest paths first.\<close>

definition oc_name :: "ocontext \<Rightarrow> string" where
  "oc_name c = (case oc_u c of OName s \<Rightarrow> s | _ \<Rightarrow> [])"

fun genfs_ctx_insert :: "ocontext \<Rightarrow> ocontext list \<Rightarrow> ocontext list option" where
  "genfs_ctx_insert new [] = Some [new]"
| "genfs_ctx_insert new (c # cs) =
     (if strcmp (oc_name new) (oc_name c) = 0 \<and> (oc_v c = 0 \<or> oc_v new = 0 \<or> oc_v new = oc_v c) then None
      else if length (oc_name new) > length (oc_name c) then Some (new # c # cs)
      else map_option (Cons c) (genfs_ctx_insert new cs))"

definition genfs_ctx_read :: "policydb \<Rightarrow> ocontext list \<Rightarrow> ocontext list reader" where
  "genfs_ctx_read p head = bindP (liftP malloc) (\<lambda>_. bindP (next_u32s 1) (\<lambda>buf. bindP (next_key (buf ! 0)) (\<lambda>name. bindP (next_u32s 1) (\<lambda>buf1.
     bindP (ocon_with_context p (ocontext_zero\<lparr>oc_u := OName name, oc_v := buf1 ! 0\<rparr>)) (\<lambda>newc.
       case genfs_ctx_insert newc head of None \<Rightarrow> throwP STATUS_ERR | Some l \<Rightarrow> returnP l)))))"

definition genfs_item :: "policydb \<Rightarrow> policydb reader" where
  "genfs_item p = bindP (next_u32s 1) (\<lambda>buf. bindP (liftP malloc) (\<lambda>_. bindP (next_key (buf ! 0)) (\<lambda>fstype.
     case genfs_insert \<lparr>gf_fstype = fstype, gf_head = []\<rparr> (p_genfs p) of None \<Rightarrow> throwP STATUS_ERR
     | Some _ \<Rightarrow> bindP (next_u32s 1) (\<lambda>buf1. bindP (repeatP (unat (buf1 ! 0)) (genfs_ctx_read p) []) (\<lambda>head.
         case genfs_insert \<lparr>gf_fstype = fstype, gf_head = head\<rparr> (p_genfs p) of None \<Rightarrow> throwP STATUS_ERR
         | Some l \<Rightarrow> returnP (p\<lparr>p_genfs := l\<rparr>))))))"

definition genfs_read :: "policydb \<Rightarrow> policydb reader" where
  "genfs_read p = failP (bindP (next_u32s 1) (\<lambda>buf. repeatP (unat (buf ! 0)) genfs_item p)) STATUS_ERR"

definition genfs_ctx_write :: "policydb \<Rightarrow> ocontext \<Rightarrow> writer" where
  "genfs_ctx_write p c = (case oc_u c of OName name \<Rightarrow> seqW (put_u32s [of_nat (length name)]) (seqW (put_string name)
     (seqW (put_u32s [oc_v c]) (context_write p (fst (oc_context c))))) | _ \<Rightarrow> (\<lambda>_. throwE Fault))"

definition genfs_item_write :: "policydb \<Rightarrow> genfs \<Rightarrow> writer" where
  "genfs_item_write p g = seqW (put_u32s [of_nat (length (gf_fstype g))]) (seqW (put_string (gf_fstype g))
     (seqW (put_u32s [of_nat (length (gf_head g))]) (foldE (genfs_ctx_write p) (gf_head g))))"

definition genfs_write :: "policydb \<Rightarrow> writer" where
  "genfs_write p = seqW (put_u32s [of_nat (length (p_genfs p))]) (foldE (genfs_item_write p) (p_genfs p))"

section \<open>Rules: writing and reading\<close>

interpretation rtr: codec "role_trans_item p"
  "\<lambda>t. seqW (put_u32s [rt_role t, rt_type t, rt_new_role t]) (if policyvers p \<ge> POLICYDB_VERSION_ROLETRANS then put_u32s [rt_tclass t] else returnE)"
  "\<lambda>t. policyvers p \<ge> POLICYDB_VERSION_ROLETRANS \<or> rt_tclass t = SECCLASS_PROCESS" for p
proof
  fix t :: role_trans
  assume t: "policyvers p \<ge> POLICYDB_VERSION_ROLETRANS \<or> rt_tclass t = SECCLASS_PROCESS"
  have c: "code (if policyvers p \<ge> POLICYDB_VERSION_ROLETRANS then put_u32s [rt_tclass t] else returnE)
      (if policyvers p \<ge> POLICYDB_VERSION_ROLETRANS then next_u32s 1 else returnP [SECCLASS_PROCESS]) ((=) [rt_tclass t])"
    by (rule code_opt) (use t in \<open>auto intro: code_u32s\<close>)
  show "code (seqW (put_u32s [rt_role t, rt_type t, rt_new_role t]) (if policyvers p \<ge> POLICYDB_VERSION_ROLETRANS then put_u32s [rt_tclass t] else returnE))
      (role_trans_item p) ((=) t)"
    unfolding role_trans_item_def by (rule code_malloc, rule code_step [OF code_u32s], simp, simp, rule code_end [OF c]) (auto simp: reads_returnP)
qed

interpretation rall: codec role_allow_item "\<lambda>r. put_u32s [ra_role r, ra_new_role r]" "\<lambda>_. True"
  by unfold_locales (auto simp: role_allow_item_def intro!: code_malloc code_end [OF code_u32s] reads_returnP)

interpretation fnt: codec filename_trans_item
  "\<lambda>t. seqW (put_u32s [of_nat (length (ft_name t))]) (seqW (put_string (ft_name t)) (put_u32s [ft_stype t, ft_ttype t, ft_tclass t, ft_otype t]))"
  "\<lambda>t. name_ok (ft_name t)"
proof
  fix t :: filename_trans assume t: "name_ok (ft_name t)"
  show "code (seqW (put_u32s [of_nat (length (ft_name t))]) (seqW (put_string (ft_name t)) (put_u32s [ft_stype t, ft_ttype t, ft_tclass t, ft_otype t])))
      filename_trans_item ((=) t)"
    unfolding filename_trans_item_def
    by (rule code_malloc, rule code_step [OF code_u32s], simp, simp, simp, rule code_step [OF code_key(2) [OF t]], rule code_end [OF code_u32s])
      (auto simp: reads_returnP)
qed

interpretation rngtr: codec "range_item p"
  "\<lambda>t. seqW (put_u32s [rtr_source_type t, rtr_target_type t])
    (seqW (if policyvers p \<ge> POLICYDB_VERSION_RANGETRANS then put_u32s [rtr_target_class t] else returnE) (mls_write_range_helper (rtr_target_range t)))"
  "\<lambda>t. range_ok (rtr_target_range t) \<and> (policyvers p \<ge> POLICYDB_VERSION_RANGETRANS \<or> rtr_target_class t = SECCLASS_PROCESS)" for p
proof
  fix t :: range_trans
  assume t: "range_ok (rtr_target_range t) \<and> (policyvers p \<ge> POLICYDB_VERSION_RANGETRANS \<or> rtr_target_class t = SECCLASS_PROCESS)"
  have c: "code (if policyvers p \<ge> POLICYDB_VERSION_RANGETRANS then put_u32s [rtr_target_class t] else returnE)
      (if policyvers p \<ge> POLICYDB_VERSION_RANGETRANS then next_u32s 1 else returnP [SECCLASS_PROCESS]) ((=) [rtr_target_class t])"
    by (rule code_opt) (use t in \<open>auto intro: code_u32s\<close>)
  show "code (seqW (put_u32s [rtr_source_type t, rtr_target_type t])
    (seqW (if policyvers p \<ge> POLICYDB_VERSION_RANGETRANS then put_u32s [rtr_target_class t] else returnE) (mls_write_range_helper (rtr_target_range t))))
      (range_item p) ((=) t)"
    unfolding range_item_def by (rule code_malloc, rule code_step [OF code_u32s], simp, simp, rule code_step [OF c], rule code_end [OF rng.codec])
      (use t in \<open>auto simp: reads_returnP\<close>)
qed

text \<open>Old versions keep the rules of processes only.\<close>

definition kept_role_tr :: "policydb \<Rightarrow> role_trans list" where
  "kept_role_tr p = filter (\<lambda>t. policyvers p \<ge> POLICYDB_VERSION_ROLETRANS \<or> rt_tclass t = SECCLASS_PROCESS) (role_tr p)"

definition kept_range_tr :: "policydb \<Rightarrow> range_trans list" where
  "kept_range_tr p = filter (\<lambda>t. policyvers p \<ge> POLICYDB_VERSION_RANGETRANS \<or> rtr_target_class t = SECCLASS_PROCESS) (range_tr p)"

lemma role_trans_code:
  assumes "policyvers q = policyvers p" "role_tr q = []" "length (role_tr p) < 2 ^ 32"
  shows "code (role_trans_write p) (role_trans_read q) ((=) (q\<lparr>role_tr := kept_role_tr p\<rparr>))"
proof -
  have "length (kept_role_tr p) < 2 ^ 32" unfolding kept_role_tr_def by (rule le_less_trans [OF length_filter_le assms(3)])
  then show ?thesis unfolding role_trans_write_def role_trans_read_def Let_def assms(1) [symmetric] kept_role_tr_def
    by (intro code_failP rtr.counted_codec) (use assms(2) in \<open>auto intro!: reads_returnP simp: kept_role_tr_def assms(1)\<close>)
qed

lemma role_allow_code:
  assumes "role_allows q = []" "length l < 2 ^ 32"
  shows "code (role_allow_write l) (role_allow_read q) ((=) (q\<lparr>role_allows := l\<rparr>))"
  unfolding role_allow_write_def role_allow_read_def by (intro code_failP rall.counted_codec) (use assms in \<open>auto intro!: reads_returnP\<close>)

lemma filename_trans_code:
  assumes "p_filename_trans q = []" "length l < 2 ^ 32" "\<forall>t \<in> set l. name_ok (ft_name t)"
  shows "code (filename_trans_write l) (filename_trans_read q) ((=) (q\<lparr>p_filename_trans := l\<rparr>))"
  unfolding filename_trans_write_def filename_trans_read_def by (intro code_failP fnt.counted_codec) (use assms in \<open>auto intro!: reads_returnP\<close>)

lemma range_code:
  assumes "policyvers q = policyvers p" "range_tr q = []" "length (range_tr p) < 2 ^ 32" "\<forall>t \<in> set (range_tr p). range_ok (rtr_target_range t)"
  shows "code (range_write p) (range_read q) ((=) (q\<lparr>range_tr := kept_range_tr p\<rparr>))"
proof -
  have "length (kept_range_tr p) < 2 ^ 32" unfolding kept_range_tr_def by (rule le_less_trans [OF length_filter_le assms(3)])
  then show ?thesis unfolding range_write_def range_read_def Let_def assms(1) [symmetric] kept_range_tr_def
    by (intro code_failP rngtr.counted_codec) (use assms(2,4) in \<open>auto intro!: reads_returnP simp: kept_range_tr_def assms(1)\<close>)
qed

section \<open>Object contexts: writing and reading\<close>

text \<open>What the file keeps of an object context: the key of its list and the contexts, not the SIDs that were found for it, and not the
  names of initial SIDs.\<close>

fun ocon_kept :: "ocon_kind \<Rightarrow> ocontext \<Rightarrow> ocontext" where
  "ocon_kept OCON_ISID c = ocontext_zero\<lparr>oc_sid := (fst (oc_sid c), 0), oc_context := (fst (oc_context c), context_init)\<rparr>"
| "ocon_kept OCON_XEN_ISID c = ocontext_zero\<lparr>oc_sid := (fst (oc_sid c), 0), oc_context := (fst (oc_context c), context_init)\<rparr>"
| "ocon_kept OCON_FS c = ocontext_zero\<lparr>oc_u := oc_u c, oc_context := oc_context c\<rparr>"
| "ocon_kept OCON_NETIF c = ocontext_zero\<lparr>oc_u := oc_u c, oc_context := oc_context c\<rparr>"
| "ocon_kept OCON_FSUSE c = ocontext_zero\<lparr>oc_u := oc_u c, oc_v := oc_v c, oc_context := (fst (oc_context c), context_init)\<rparr>"
| "ocon_kept k c = ocontext_zero\<lparr>oc_u := oc_u c, oc_context := (fst (oc_context c), context_init)\<rparr>"

definition ctx_saved_ok :: "policydb \<Rightarrow> context_struct \<Rightarrow> bool" where
  "ctx_saved_ok p c \<longleftrightarrow> context_ok c \<and> policydb_context_isvalid p c = Inr True \<and> (policyvers p < POLICYDB_VERSION_MLS \<longrightarrow> c_range c = mls_range_init)"

fun ocon_key_ok :: "ocon_kind \<Rightarrow> ocontext_key \<Rightarrow> bool" where
  "ocon_key_ok OCON_ISID u = True"
| "ocon_key_ok OCON_XEN_ISID u = True"
| "ocon_key_ok OCON_FS (OName s) = name_ok s"
| "ocon_key_ok OCON_NETIF (OName s) = name_ok s"
| "ocon_key_ok OCON_FSUSE (OName s) = name_ok s"
| "ocon_key_ok OCON_PORT (OPort a b c) = True"
| "ocon_key_ok OCON_NODE (ONode a b) = True"
| "ocon_key_ok OCON_NODE6 (ONode6 a b) = (length a = 4 \<and> length b = 4)"
| "ocon_key_ok OCON_XEN_PIRQ (OPirq a) = True"
| "ocon_key_ok OCON_XEN_IOPORT (OIoport a b) = True"
| "ocon_key_ok OCON_XEN_IOMEM (OIomem a b) = True"
| "ocon_key_ok OCON_XEN_PCIDEVICE (ODevice a) = True"
| "ocon_key_ok _ _ = False"

definition ocon_saved_ok :: "policydb \<Rightarrow> ocon_kind \<Rightarrow> ocontext \<Rightarrow> bool" where
  "ocon_saved_ok p k c \<longleftrightarrow> ocon_key_ok k (oc_u c) \<and> ctx_saved_ok p (fst (oc_context c))
     \<and> (k \<in> {OCON_FS, OCON_NETIF} \<longrightarrow> ctx_saved_ok p (snd (oc_context c)))"

lemma context_write_vers: "policyvers q = policyvers p \<Longrightarrow> context_write p = context_write q"
  by (simp add: context_write_def fun_eq_iff)

lemma context_code:
  assumes "policyvers q = policyvers p" "ctx_saved_ok q c"
  shows "code (context_write p c) (context_read_and_validate q) ((=) c)"
  unfolding context_write_vers [OF assms(1)] by (rule ctx.codec) (use assms(2) in \<open>simp add: ctx_saved_ok_def\<close>)

lemma with_context_code:
  assumes "policyvers q = policyvers p" "ctx_saved_ok q x" "r = c\<lparr>oc_context := (x, snd (oc_context c))\<rparr>"
  shows "code (context_write p x) (ocon_with_context q c) ((=) r)"
  unfolding ocon_with_context_def by (rule code_end [OF context_code [OF assms(1,2)]]) (simp add: reads_returnP assms(3))

lemma plain_item_code:
  assumes "policyvers q = policyvers p" "ctx_saved_ok q x" "r = (g ws)\<lparr>oc_context := (x, snd (oc_context (g ws)))\<rparr>" "ws \<noteq> []" "length ws = n"
  shows "code (seqW (put_u32s ws) (context_write p x)) (bindP (next_u32s n) (\<lambda>buf. ocon_with_context q (g buf))) ((=) r)"
  by (rule code_step [OF code_u32s [OF assms(4,5)]], rule with_context_code [OF assms(1-3)])

lemma ucast_back [simp]: "ucast (ucast (x :: u8) :: u32) = x" "ucast (ucast (y :: u16) :: u32) = y"
  by (rule bit_word_eqI; auto simp: bit_simps)+

lemma two_context_code:
  assumes v: "policyvers q = policyvers p" and ok: "ctx_saved_ok q x" "ctx_saved_ok q y" "name_ok name"
  shows "code (seqW (put_u32s [of_nat (length name)]) (seqW (put_string name) (seqW (context_write p x) (context_write p y))))
    (bindP (next_u32s 1) (\<lambda>buf. bindP (next_key (buf ! 0)) (\<lambda>name. bindP (context_read_and_validate q) (\<lambda>x. bindP (context_read_and_validate q) (\<lambda>y.
       returnP (ocontext_zero\<lparr>oc_u := OName name, oc_context := (x, y)\<rparr>)))))) ((=) (ocontext_zero\<lparr>oc_u := OName name, oc_context := (x, y)\<rparr>))"
  by (rule code_step [OF code_u32s], simp, simp, simp, rule code_step [OF code_key(1) [OF ok(3)]], rule code_step [OF context_code [OF v ok(1)]],
      rule code_end [OF context_code [OF v ok(2)]]) (simp add: reads_returnP)

lemma ocon_item_code:
  assumes v: "policyvers q = policyvers p" and ok: "ocon_saved_ok q k c"
  shows "code (ocon_item_write p k c) (ocon_item q k) ((=) (ocon_kept k c))"
proof -
  have c: "ctx_saved_ok q (fst (oc_context c))" using ok by (simp add: ocon_saved_ok_def)
  note plain = plain_item_code [OF v c] and key = ok [unfolded ocon_saved_ok_def, THEN conjunct1]
  note z = ocontext_zero_def
  show ?thesis
  proof (cases k)
    case OCON_ISID then show ?thesis by (auto intro!: plain simp: z)
  next
    case OCON_FS
    with key obtain n where "oc_u c = OName n" "name_ok n" by (cases "oc_u c") auto
    then show ?thesis using two_context_code [OF v c, of "snd (oc_context c)" n] ok OCON_FS by (simp add: ocon_saved_ok_def)
  next
    case OCON_PORT with key show ?thesis by (cases "oc_u c") (auto intro!: plain simp: z)
  next
    case OCON_NETIF
    with key obtain n where "oc_u c = OName n" "name_ok n" by (cases "oc_u c") auto
    then show ?thesis using two_context_code [OF v c, of "snd (oc_context c)" n] ok OCON_NETIF by (simp add: ocon_saved_ok_def)
  next
    case OCON_NODE with key show ?thesis by (cases "oc_u c") (auto intro!: plain simp: z)
  next
    case OCON_FSUSE
    with key obtain n where n: "oc_u c = OName n" "name_ok n" by (cases "oc_u c") auto
    have "code (seqW (put_u32s [oc_v c, of_nat (length n)]) (seqW (put_string n) (context_write p (fst (oc_context c)))))
        (ocon_item q OCON_FSUSE) ((=) (ocon_kept OCON_FSUSE c))" unfolding ocon_item.simps
      by (rule code_step [OF code_u32s], simp, simp, simp, rule code_step [OF code_key(1) [OF n(2)]], rule with_context_code [OF v c]) (simp add: n z)
    then show ?thesis using OCON_FSUSE n by simp
  next
    case OCON_NODE6 with key show ?thesis by (cases "oc_u c") (auto intro!: plain simp: z)
  next
    case OCON_XEN_ISID then show ?thesis by (auto intro!: plain simp: z)
  next
    case OCON_XEN_PIRQ with key show ?thesis by (cases "oc_u c") (auto intro!: plain simp: z)
  next
    case OCON_XEN_IOPORT with key show ?thesis by (cases "oc_u c") (auto intro!: plain simp: z)
  next
    case OCON_XEN_IOMEM with key show ?thesis by (cases "oc_u c") (auto intro!: plain simp: z)
  next
    case OCON_XEN_PCIDEVICE with key show ?thesis by (cases "oc_u c") (auto intro!: plain simp: z)
  next
    case OCON_UNKNOWN with key show ?thesis by simp
  qed
qed

lemma ocon_cases: "i < 7 \<Longrightarrow> i \<in> {0, Suc 0, Suc (Suc 0), Suc (Suc (Suc 0)), Suc (Suc (Suc (Suc 0))), Suc (Suc (Suc (Suc (Suc 0)))), Suc (Suc (Suc (Suc (Suc (Suc 0)))))}"
  by (auto simp: numeral_eq_Suc less_Suc_eq)

lemma ocon_get_set: "i < 7 \<Longrightarrow> j < 7 \<Longrightarrow> ocon_get i (ocon_set j l p) = (if i = j then l else ocon_get i p)"
  by (drule ocon_cases, drule ocon_cases) auto

lemma ocon_set_same: "i < 7 \<Longrightarrow> ocon_get i p = l \<Longrightarrow> ocon_set i l p = p"
  by (drule ocon_cases) auto

lemma ocon_set_vers [simp]: "policyvers (ocon_set i l p) = policyvers p" "target_platform (ocon_set i l p) = target_platform p"
  by (cases "(i, l, p)" rule: ocon_set.cases; simp)+

text \<open>Validity depends on the tables of the symbols only.\<close>

lemma isvalid_cong:
  assumes e: "p_mls q = p_mls p" "nprim (p_roles q) = nprim (p_roles p)" "nprim (p_users q) = nprim (p_users p)" "nprim (p_types q) = nprim (p_types p)"
    "role_val_to_struct q = role_val_to_struct p" "user_val_to_struct q = user_val_to_struct p" "p_levels q = p_levels p" "p_cats q = p_cats p"
    "p_sens_val_to_name q = p_sens_val_to_name p"
  shows "policydb_context_isvalid q c = policydb_context_isvalid p c"
proof -
  have "cats_allowed q a b = cats_allowed p a b" for a b by (induction b) (simp_all add: e)
  then have l: "level_isvalid q l = level_isvalid p l" for l by (simp add: level_isvalid_def e cong: if_cong)
  have m: "mls_context_isvalid q c = mls_context_isvalid p c" for c unfolding mls_context_isvalid_def l e ..
  show ?thesis unfolding policydb_context_isvalid_def context_is_valid_def m e ..
qed

lemma isvalid_ocon_set [simp]: "policydb_context_isvalid (ocon_set i l p) c = policydb_context_isvalid p c"
  by (cases "(i, l, p)" rule: ocon_set.cases) (auto intro!: isvalid_cong)

lemma isvalid_genfs [simp]: "policydb_context_isvalid (p\<lparr>p_genfs := l\<rparr>) c = policydb_context_isvalid p c"
  by (rule isvalid_cong) simp_all

lemma ctx_saved_upd [simp]:
  "ctx_saved_ok (ocon_set i l p) c = ctx_saved_ok p c" "ctx_saved_ok (p\<lparr>p_genfs := gs\<rparr>) c = ctx_saved_ok p c"
  by (simp_all add: ctx_saved_ok_def)

lemma ocon_saved_upd [simp]: "ocon_saved_ok (ocon_set i l p) k c = ocon_saved_ok p k c"
  by (simp add: ocon_saved_ok_def)

definition ocon_list_ok :: "bool \<Rightarrow> policydb \<Rightarrow> policydb \<Rightarrow> nat \<Rightarrow> bool" where
  "ocon_list_ok xen q p i \<longleftrightarrow> i < 7 \<and> length (ocon_get i p) < 2 ^ 32 \<and> (\<forall>c \<in> set (ocon_get i p). ocon_saved_ok q (ocon_kind_of xen i) c)"

definition ocons_loaded :: "bool \<Rightarrow> policydb \<Rightarrow> nat list \<Rightarrow> policydb \<Rightarrow> policydb" where
  "ocons_loaded xen p is q = fold (\<lambda>i. ocon_set i (map (ocon_kept (ocon_kind_of xen i)) (ocon_get i p))) is q"

lemma ocon_list_code:
  assumes "policyvers q = policyvers p" "ocon_get i q = []" "ocon_list_ok xen q p i"
  shows "code (ocon_list_write xen p i) (ocon_list_read xen i q) ((=) (ocon_set i (map (ocon_kept (ocon_kind_of xen i)) (ocon_get i p)) q))"
  unfolding ocon_list_write_def ocon_list_read_def
proof (rule code_counted [where f = "ocon_kept (ocon_kind_of xen i)"])
  show "code (ocon_item_write p (ocon_kind_of xen i) c) (bindP (liftP malloc) (\<lambda>_. ocon_item q (ocon_kind_of xen i))) ((=) (ocon_kept (ocon_kind_of xen i) c))"
    if "c \<in> set (ocon_get i p)" for c
    using that assms(3) by (intro code_malloc ocon_item_code [OF assms(1)]) (simp add: ocon_list_ok_def)
  show "length (ocon_get i p) < 2 ^ 32" using assms(3) by (simp add: ocon_list_ok_def)
  have "ocon_set i [] q = q" using ocon_set_same [of i q "[]"] assms(2,3) by (simp add: ocon_list_ok_def)
  then show "reads (returnP (if map (ocon_kept (ocon_kind_of xen i)) (ocon_get i p) = [] then q
      else ocon_set i (map (ocon_kept (ocon_kind_of xen i)) (ocon_get i p)) q)) []
      ((=) (ocon_set i (map (ocon_kept (ocon_kind_of xen i)) (ocon_get i p)) q))"
    by (intro reads_returnP) auto
qed

lemma ocon_lists_code:
  assumes "policyvers q = policyvers p" "distinct is" "\<forall>i \<in> set is. ocon_get i q = [] \<and> ocon_list_ok xen q p i"
  shows "code (foldE (ocon_list_write xen p) is) (foldP (ocon_list_read xen) is q) ((=) (ocons_loaded xen p is q))"
  using assms
proof (induction "is" arbitrary: q)
  case Nil
  have "foldE (ocon_list_write xen p) [] = returnE" by (rule ext) simp
  then show ?case by (simp add: code_returnP ocons_loaded_def)
next
  case (Cons i "is")
  let ?q = "ocon_set i (map (ocon_kept (ocon_kind_of xen i)) (ocon_get i p)) q"
  have w: "foldE (ocon_list_write xen p) (i # is) = seqW (ocon_list_write xen p i) (foldE (ocon_list_write xen p) is)" by (simp add: fun_eq_iff seqW_def)
  have i: "code (ocon_list_write xen p i) (ocon_list_read xen i q) ((=) ?q)" using Cons.prems by (intro ocon_list_code) simp_all
  have "\<forall>j \<in> set is. ocon_get j ?q = [] \<and> ocon_list_ok xen ?q p j" using Cons.prems by (auto simp: ocon_get_set ocon_list_ok_def)
  then have "code (foldE (ocon_list_write xen p) is) (foldP (ocon_list_read xen) is ?q) ((=) (ocons_loaded xen p is ?q))" using Cons.prems by (intro Cons.IH) simp_all
  then show ?case unfolding w foldP.simps by (intro code_step [OF i]) (simp add: ocons_loaded_def)
qed

lemma ocontext_code:
  assumes "policyvers q = policyvers p" "target_platform q = target_platform p" "target_platform p \<in> {SEPOL_TARGET_SELINUX, SEPOL_TARGET_XEN}"
    and "\<forall>i < n. ocon_get i q = [] \<and> ocon_list_ok (target_platform p = SEPOL_TARGET_XEN) q p i"
  shows "code (ocontext_write n p) (ocontext_read n q) ((=) (ocons_loaded (target_platform p = SEPOL_TARGET_XEN) p [0..<n] q))"
proof -
  have "code (foldE (ocon_list_write (target_platform p = SEPOL_TARGET_XEN) p) [0..<n]) (foldP (ocon_list_read (target_platform p = SEPOL_TARGET_XEN)) [0..<n] q)
      ((=) (ocons_loaded (target_platform p = SEPOL_TARGET_XEN) p [0..<n] q))" using assms by (intro ocon_lists_code) auto
  then show ?thesis using assms(2,3)
    by (auto simp: ocontext_write_def ocontext_read_def ocontext_write_selinux_def ocontext_read_selinux_def ocontext_write_xen_def ocontext_read_xen_def intro: code_failP)
qed

text \<open>What the lists hold afterwards.\<close>

lemma ocons_loaded_get:
  assumes "j < 7" "\<forall>i \<in> set is. i < 7" "distinct is"
  shows "ocon_get j (ocons_loaded xen p is q) = (if j \<in> set is then map (ocon_kept (ocon_kind_of xen j)) (ocon_get j p) else ocon_get j q)"
  using assms by (induction "is" arbitrary: q) (auto simp: ocons_loaded_def ocon_get_set)

section \<open>File systems: writing and reading\<close>

definition genfs_conflict :: "ocontext \<Rightarrow> ocontext \<Rightarrow> bool" where
  "genfs_conflict a b \<longleftrightarrow> oc_name a = oc_name b \<and> (oc_v a = 0 \<or> oc_v b = 0 \<or> oc_v a = oc_v b)"

text \<open>The order that the reader keeps.\<close>

definition genfs_head_ok :: "policydb \<Rightarrow> ocontext list \<Rightarrow> bool" where
  "genfs_head_ok p l \<longleftrightarrow> sorted_wrt (\<lambda>a b. length (oc_name b) \<le> length (oc_name a) \<and> \<not> genfs_conflict a b) l \<and> length l < 2 ^ 32
     \<and> (\<forall>c \<in> set l. \<exists>s. oc_u c = OName s \<and> name_ok s \<and> ctx_saved_ok p (fst (oc_context c)))"

definition genfs_ok :: "policydb \<Rightarrow> genfs list \<Rightarrow> bool" where
  "genfs_ok p gs \<longleftrightarrow> sorted_wrt (\<lambda>a b. strcmp (gf_fstype a) (gf_fstype b) < 0) gs \<and> length gs < 2 ^ 32
     \<and> (\<forall>g \<in> set gs. name_ok (gf_fstype g) \<and> genfs_head_ok p (gf_head g))"

definition genfs_kept :: "genfs \<Rightarrow> genfs" where
  "genfs_kept g = g\<lparr>gf_head := map (ocon_kept OCON_FSUSE) (gf_head g)\<rparr>"

lemma genfs_ctx_insert_last:
  "\<forall>c \<in> set l. length (oc_name new) \<le> length (oc_name c) \<and> \<not> genfs_conflict c new \<Longrightarrow> genfs_ctx_insert new l = Some (l @ [new])"
  by (induction l) (auto simp: genfs_conflict_def)

lemma genfs_insert_last:
  "\<forall>g \<in> set l. strcmp (gf_fstype g) (gf_fstype new) < 0 \<Longrightarrow> genfs_insert new l = Some (l @ [new])"
proof (induction l)
  case (Cons g l)
  then have "strcmp (gf_fstype g) (gf_fstype new) < 0" by simp
  moreover from this have "strcmp (gf_fstype new) (gf_fstype g) > 0" using strcmp_swap by blast
  moreover from this have "gf_fstype new \<noteq> gf_fstype g" by auto
  ultimately show ?case using Cons by simp
qed simp

lemma genfs_ctx_code:
  assumes v: "policyvers q = policyvers p" and u: "oc_u c = OName s" "name_ok s" "ctx_saved_ok q (fst (oc_context c))"
    and ins: "genfs_ctx_insert (ocon_kept OCON_FSUSE c) head = Some l"
  shows "code (genfs_ctx_write p c) (genfs_ctx_read q head) ((=) l)"
proof -
  have w: "genfs_ctx_write p c = seqW (put_u32s [of_nat (length s)]) (seqW (put_string s) (seqW (put_u32s [oc_v c]) (context_write p (fst (oc_context c)))))"
    by (simp add: genfs_ctx_write_def u(1))
  have k: "ocon_kept OCON_FSUSE c = ocontext_zero\<lparr>oc_u := OName s, oc_v := oc_v c, oc_context := (fst (oc_context c), snd (oc_context (ocontext_zero\<lparr>oc_u := OName s, oc_v := oc_v c\<rparr>)))\<rparr>"
    by (simp add: u(1) ocontext_zero_def)
  show ?thesis unfolding w genfs_ctx_read_def
    by (rule code_malloc, rule code_step [OF code_u32s], simp, simp, simp, rule code_step [OF code_key(1) [OF u(2)]], rule code_step [OF code_u32s], simp, simp,
        simp only: nth_Cons_0, rule code_end [OF with_context_code [OF v u(3) k]]) (use ins in \<open>auto simp: reads_returnP\<close>)
qed

lemma genfs_head_code:
  assumes v: "policyvers q = policyvers p" and ok: "genfs_head_ok q l"
  shows "code (foldE (genfs_ctx_write p) l) (repeatP (length l) (genfs_ctx_read q) []) ((=) (map (ocon_kept OCON_FSUSE) l))"
proof -
  have "code (foldE (genfs_ctx_write p) l) (repeatP (length l) (genfs_ctx_read q) []) (\<lambda>h. h = map (ocon_kept OCON_FSUSE) l)"
  proof (rule code_repeatP [where I = "\<lambda>ys h. h = map (ocon_kept OCON_FSUSE) ys"])
    fix ys c zs h
    assume l: "ys @ c # zs = l" and h: "h = map (ocon_kept OCON_FSUSE) ys"
    from ok obtain s where c: "oc_u c = OName s" "name_ok s" "ctx_saved_ok q (fst (oc_context c))" unfolding genfs_head_ok_def l [symmetric] by auto
    have keep: "oc_name (ocon_kept OCON_FSUSE c) = oc_name c" "oc_v (ocon_kept OCON_FSUSE c) = oc_v c" for c by (simp_all add: oc_name_def)
    have "genfs_ctx_insert (ocon_kept OCON_FSUSE c) h = Some (h @ [ocon_kept OCON_FSUSE c])"
      using ok unfolding genfs_head_ok_def l [symmetric] h
      by (intro genfs_ctx_insert_last) (auto simp: sorted_wrt_append genfs_conflict_def keep simp del: ocon_kept.simps)
    from genfs_ctx_code [OF v c this] show "code (genfs_ctx_write p c) (genfs_ctx_read q h) (\<lambda>h'. h' = map (ocon_kept OCON_FSUSE) (ys @ [c]))"
      by (rule code_weaken) (simp add: h)
  qed simp
  then show ?thesis by (rule code_weaken) simp
qed

lemma genfs_item_code:
  assumes v: "policyvers q = policyvers p" and g: "name_ok (gf_fstype g)" "genfs_head_ok q (gf_head g)"
    and after: "\<forall>h \<in> set (p_genfs q). strcmp (gf_fstype h) (gf_fstype g) < 0"
  shows "code (genfs_item_write p g) (genfs_item q) ((=) (q\<lparr>p_genfs := p_genfs q @ [genfs_kept g]\<rparr>))"
proof -
  have l: "unat (of_nat (length (gf_head g)) :: u32) = length (gf_head g)" using g(2) by (intro unat_of_nat_u32) (simp add: genfs_head_ok_def)
  have ins: "genfs_insert \<lparr>gf_fstype = gf_fstype g, gf_head = hd\<rparr> (p_genfs q) = Some (p_genfs q @ [\<lparr>gf_fstype = gf_fstype g, gf_head = hd\<rparr>])" for hd
    using after by (intro genfs_insert_last) simp
  show ?thesis unfolding genfs_item_write_def genfs_item_def
    by (rule code_step [OF code_u32s], simp, simp, simp, rule code_malloc, rule code_step [OF code_key(1) [OF g(1)]], simp add: ins, rule code_step [OF code_u32s], simp, simp,
        simp add: l, rule code_end [OF genfs_head_code [OF v g(2)]]) (auto simp: reads_returnP genfs_kept_def)
qed

lemma genfs_code:
  assumes v: "policyvers q = policyvers p" and ok: "genfs_ok q (p_genfs p)" and empty: "p_genfs q = []"
  shows "code (genfs_write p) (genfs_read q) ((=) (q\<lparr>p_genfs := map genfs_kept (p_genfs p)\<rparr>))"
proof -
  let ?I = "\<lambda>ys q'. q' = q\<lparr>p_genfs := map genfs_kept ys\<rparr>"
  have l: "unat (of_nat (length (p_genfs p)) :: u32) = length (p_genfs p)" using ok by (intro unat_of_nat_u32) (simp add: genfs_ok_def)
  have "code (foldE (genfs_item_write p) (p_genfs p)) (repeatP (length (p_genfs p)) genfs_item q) (?I (p_genfs p))"
  proof (rule code_repeatP [where I = ?I])
    show "?I [] q" using empty by simp
  next
    fix ys g zs q' assume xs: "ys @ g # zs = p_genfs p" and q': "?I ys q'"
    have g: "name_ok (gf_fstype g)" "genfs_head_ok q (gf_head g)" using ok unfolding genfs_ok_def xs [symmetric] by simp_all
    have h: "genfs_head_ok q' (gf_head g)" using g(2) by (simp add: genfs_head_ok_def q')
    have "\<forall>h \<in> set (p_genfs q'). strcmp (gf_fstype h) (gf_fstype g) < 0"
      using ok unfolding genfs_ok_def xs [symmetric] by (auto simp: sorted_wrt_append q' genfs_kept_def)
    moreover have "policyvers q' = policyvers p" using v q' by simp
    ultimately have "code (genfs_item_write p g) (genfs_item q') ((=) (q'\<lparr>p_genfs := p_genfs q' @ [genfs_kept g]\<rparr>))" by (intro genfs_item_code g(1) h)
    then show "code (genfs_item_write p g) (genfs_item q') (?I (ys @ [g]))" by (rule code_weaken) (simp add: q')
  qed
  then have "code (foldE (genfs_item_write p) (p_genfs p)) (repeatP (length (p_genfs p)) genfs_item q) ((=) (q\<lparr>p_genfs := map genfs_kept (p_genfs p)\<rparr>))"
    by (rule code_weaken) simp
  then show ?thesis unfolding genfs_write_def genfs_read_def by (intro code_failP code_step [OF code_u32s]) (simp_all add: l)
qed

end
