(* ===== verification/Avtab_Expand.thy ===== *)
theory Avtab_Expand
  imports Policydb_Symbols
begin

text \<open>
  Rules without attributes, for kernel policies older than version 20 (expand.c, write.c): the expansion of the attributes
  of an access vector table and of the rules of a conditional, the old format of the table, which merges the
  rules of a key into one item, and the writers of the table and of the conditional section. The flag \<open>merged\<close> of a
  node is a list of addresses. The nodes of a conditional list have a \<open>parse_context\<close> that is not null: the reader and
  the expansion set it.
\<close>

unbundle bit_operations_syntax

section \<open>Expansion of attributes\<close>

text \<open>Adding the data of a rule to a node that exists.\<close>

definition merge_datum :: "avtab_key \<Rightarrow> u32 \<Rightarrow> avtab_node \<Rightarrow> avtab_node option" where
  "merge_datum k d n = (let s = specified k AND NOT AVTAB_ENABLED in
     if s = AVTAB_ALLOWED \<or> s = AVTAB_AUDITALLOW then Some (n\<lparr>av_data := av_data n OR d\<rparr>)
     else if s = AVTAB_AUDITDENY then Some (n\<lparr>av_data := av_data n AND d\<rparr>) else None)"

definition expand_avtab_insert :: "avtab_key \<Rightarrow> u32 \<Rightarrow> avtab \<Rightarrow> avtab alloc_m" where
  "expand_avtab_insert k d a = bindE (liftE (avtab_search_node a k)) (\<lambda>node. case node of
     [] \<Rightarrow> avtab_insert a k d
   | n # _ \<Rightarrow>
       if specified k AND AVTAB_ENABLED \<noteq> specified (av_key n) AND AVTAB_ENABLED
       then bindE (failE (avtab_insert_nonunique a k d) STATUS_ERR) (\<lambda>(a', _). returnE a')
       else case merge_datum k d n of
         None \<Rightarrow> throwE STATUS_ERR
       | Some n' \<Rightarrow> returnE (avtab_update_node (av_addr n) (\<lambda>_. n') a))"

text \<open>The bits of an attribute, and one rule for each pair of types that it stands for.\<close>

definition attr_bits :: "policydb \<Rightarrow> u16 \<Rightarrow> u32 list res" where
  "attr_bits p t = bindR (array_get (attr_type_map p) (unat t - 1)) ebitmap_positive_bits"

definition type_struct :: "policydb \<Rightarrow> u16 \<Rightarrow> type_datum res" where
  "type_struct p t = (if t = 0 then Inl Fault else bindR (array_get (type_val_to_struct p) (unat t - 1)) deref)"

definition insert_or_fail :: "(avtab_key \<Rightarrow> u32 \<Rightarrow> 's \<Rightarrow> 's alloc_m) \<Rightarrow> avtab_key \<Rightarrow> u32 \<Rightarrow> 's \<Rightarrow> 's alloc_m" where
  "insert_or_fail ins k d s = failE (ins k d s) STATUS_ERR"

definition expand_node :: "policydb \<Rightarrow> (avtab_key \<Rightarrow> u32 \<Rightarrow> 's \<Rightarrow> 's alloc_m) \<Rightarrow> avtab_key \<Rightarrow> u32 \<Rightarrow> 's \<Rightarrow> 's alloc_m" where
  "expand_node p ins k d s =
     bindE (liftE (type_struct p (source_type k))) (\<lambda>stype. bindE (liftE (type_struct p (target_type k))) (\<lambda>ttype.
       if td_flavor stype \<noteq> TYPE_ATTRIB \<and> td_flavor ttype \<noteq> TYPE_ATTRIB then ins k d s
       else if td_flavor stype \<noteq> TYPE_ATTRIB then bindE (liftE (attr_bits p (target_type k))) (\<lambda>ts.
         foldE (\<lambda>j. insert_or_fail ins (k\<lparr>target_type := ucast (j + 1)\<rparr>) d) ts s)
       else if td_flavor ttype \<noteq> TYPE_ATTRIB then bindE (liftE (attr_bits p (source_type k))) (\<lambda>ss.
         foldE (\<lambda>i. insert_or_fail ins (k\<lparr>source_type := ucast (i + 1)\<rparr>) d) ss s)
       else bindE (liftE (attr_bits p (source_type k))) (\<lambda>ss. foldE (\<lambda>i s. bindE (liftE (attr_bits p (target_type k))) (\<lambda>ts.
         foldE (\<lambda>j. insert_or_fail ins (k\<lparr>source_type := ucast (i + 1), target_type := ucast (j + 1)\<rparr>) d) ts s)) ss s)))"

definition expand_avtab_node :: "policydb \<Rightarrow> avtab_key \<Rightarrow> u32 \<Rightarrow> avtab \<Rightarrow> avtab alloc_m" where
  "expand_avtab_node p = expand_node p expand_avtab_insert"

definition expand_avtab :: "policydb \<Rightarrow> avtab \<Rightarrow> avtab \<Rightarrow> avtab alloc_m" where
  "expand_avtab p a expa = bindE (failE (avtab_alloc expa MAX_AVTAB_SIZE) STATUS_ERR) (avtab_map a (expand_avtab_node p))"

text \<open>The rules of a conditional are pushed in front of the new list.\<close>

definition expand_cond_insert :: "avtab_key \<Rightarrow> u32 \<Rightarrow> nat list \<times> avtab \<Rightarrow> (nat list \<times> avtab) alloc_m" where
  "expand_cond_insert k d = (\<lambda>(l, expa). bindE (liftE (avtab_search_node expa k)) (\<lambda>node.
     if (case node of [] \<Rightarrow> True | n # _ \<Rightarrow> specified k AND AVTAB_ENABLED \<noteq> specified (av_key n) AND AVTAB_ENABLED)
     then bindE (failE (avtab_insert_nonunique expa k d) STATUS_ERR) (\<lambda>(expa', a). bindE (failE malloc STATUS_ERR) (\<lambda>_. returnE (a # l, expa')))
     else bindE (liftE (deref (case node of [] \<Rightarrow> None | n # _ \<Rightarrow> Some n))) (\<lambda>n. case merge_datum k d n of
       None \<Rightarrow> throwE STATUS_ERR
     | Some n' \<Rightarrow> returnE (l, avtab_update_node (av_addr n) (\<lambda>_. n') expa))))"

definition expand_cond_av_node :: "policydb \<Rightarrow> avtab_node \<Rightarrow> nat list \<times> avtab \<Rightarrow> (nat list \<times> avtab) alloc_m" where
  "expand_cond_av_node p n = expand_node p expand_cond_insert (av_key n) (av_data n)"

text \<open>The node of an address.\<close>

definition av_node_at :: "avtab \<Rightarrow> nat \<Rightarrow> avtab_node res" where
  "av_node_at h a = deref (find (\<lambda>n. av_addr n = a) (concat (case av_htable h of None \<Rightarrow> [] | Some t \<Rightarrow> t)))"

definition expand_cond_av_list :: "policydb \<Rightarrow> nat list \<Rightarrow> avtab \<Rightarrow> (nat list \<times> avtab) alloc_m" where
  "expand_cond_av_list p l expa = bindE (failE (avtab_alloc expa MAX_AVTAB_SIZE) STATUS_ERR) (\<lambda>expa1.
     foldE (\<lambda>a s. bindE (liftE (av_node_at (te_cond_avtab p) a)) (\<lambda>n. expand_cond_av_node p n s)) l ([], expa1))"

section \<open>The old format\<close>

definition spec_old :: "avtab_node \<Rightarrow> u32" where
  "spec_old n = ucast (specified (av_key n) AND NOT AVTAB_ENABLED) OR (if specified (av_key n) AND AVTAB_ENABLED \<noteq> 0 then AVTAB_ENABLED_OLD else 0)"

text \<open>The data of a merged item: for each kind of rule the node itself or the next one of the kind. The state is the data, the
  addresses that were merged, the nodes that are left to be counted and the number of items.\<close>

definition merge_step :: "avtab_node list \<Rightarrow> u32 \<Rightarrow> u16 \<Rightarrow> u32 list \<times> nat list \<times> int \<times> u32 \<Rightarrow> (u32 list \<times> nat list \<times> int \<times> u32) res" where
  "merge_step ns val sp = (\<lambda>(ds, merged, left, nel). if val AND ucast sp = 0 then Inr (ds, merged, left, nel)
     else bindR (deref (case ns of [] \<Rightarrow> None | n # _ \<Rightarrow> Some n)) (\<lambda>cur.
       let own = specified (av_key cur) AND sp \<noteq> 0; m = (if own then ns else avtab_search_node_next ns sp) in
       case m of [] \<Rightarrow> Inl STATUS_ERR
       | n # _ \<Rightarrow> Inr (ds @ [av_data n], av_addr n # merged, left - 1, if own then nel else nel - 1)))"

text \<open>An item of a node that stands at the head of \<open>ns\<close>: \<open>None\<close> when it was merged into an earlier one, and otherwise the item's words.
  With \<open>merge\<close> all rules of the same key and sort (access vectors or types) make one item.\<close>

definition old_item :: "bool \<Rightarrow> avtab_node list \<Rightarrow> nat list \<Rightarrow> u32 \<Rightarrow> (u32 list option \<times> nat list \<times> u32) res" where
  "old_item merge ns merged nel = bindR (deref (case ns of [] \<Rightarrow> None | n # _ \<Rightarrow> Some n)) (\<lambda>cur.
     if merge \<and> av_addr cur \<in> set merged then Inr (None, merged, nel)
     else bindR
       (if merge then
          (if spec_old cur AND ucast AVTAB_AV \<noteq> 0 then Inr (node_loop AVTAB_AV (avtab_search_node_next ns AVTAB_AV))
           else if spec_old cur AND ucast AVTAB_TYPE \<noteq> 0 then Inr (node_loop AVTAB_TYPE (avtab_search_node_next ns AVTAB_TYPE))
           else Inl STATUS_ERR)
        else Inr [])
       (\<lambda>similar. let val = fold (\<lambda>n v. v OR spec_old n) similar (spec_old cur); cnt = 1 + int (length similar) in
        if val AND ucast (AVTAB_AV OR AVTAB_TYPE) = 0 then Inl STATUS_ERR
        else if val AND ucast AVTAB_AV \<noteq> 0 \<and> val AND ucast AVTAB_TYPE \<noteq> 0 then Inl STATUS_ERR
        else bindR (if merge then foldR (merge_step ns val) spec_order ([], merged, cnt, nel)
                    else Inr ([av_data cur], av_addr cur # merged, cnt - 1, nel))
          (\<lambda>(ds, merged', left, nel').
             let words = [ucast (source_type (av_key cur)), ucast (target_type (av_key cur)), ucast (target_class (av_key cur)), val] @ ds in
             if left \<noteq> 0 then Inl STATUS_ERR else Inr (Some (of_nat (length words) # words), merged', nel'))))"

text \<open>The walk over the nodes of a chain, and over the chains; it is done once to count the items and once to write them.\<close>

fun old_chain :: "avtab_node list \<Rightarrow> nat list \<times> u32 \<times> u32 list list \<Rightarrow> (nat list \<times> u32 \<times> u32 list list) res" where
  "old_chain [] s = Inr s"
| "old_chain (n # c) (merged, nel, items) = bindR (old_item True (n # c) merged nel) (\<lambda>(item, merged', nel').
     old_chain c (merged', nel', items @ (case item of None \<Rightarrow> [] | Some ws \<Rightarrow> [ws])))"

definition old_items :: "avtab \<Rightarrow> (u32 \<times> u32 list list) res" where
  "old_items a = bindR (foldR (\<lambda>i s. bindR (bindR (deref (av_htable a)) (\<lambda>t. array_get t i)) (\<lambda>c. old_chain c s))
     [0..<unat (av_nslot a)] ([], av_nel a, [])) (\<lambda>(_, nel, items). Inr (nel, items))"

definition avtab_write_old :: "policydb \<Rightarrow> avtab \<Rightarrow> writer" where
  "avtab_write_old p a fp = bindE (failE (expand_avtab p a (avtab_init avtab_zero)) STATUS_ERR) (\<lambda>expa.
     bindE (failE (liftE (old_items expa)) STATUS_ERR) (\<lambda>(nel, items). seqW (put_u32s [nel]) (foldE put_u32s items) fp))"

text \<open>\<open>avtab_write\<close> of either format.\<close>

definition te_avtab_write :: "policydb \<Rightarrow> avtab \<Rightarrow> writer" where
  "te_avtab_write p a = (if policyvers p < POLICYDB_VERSION_AVTAB then avtab_write_old p a else liftW (avtab_write a))"

section \<open>The conditional section\<close>

definition cond_kind_code :: "cond_kind \<Rightarrow> u32" where
  "cond_kind_code k = (case k of COND_BOOL \<Rightarrow> 1 | COND_NOT \<Rightarrow> 2 | COND_OR \<Rightarrow> 3 | COND_AND \<Rightarrow> 4 | COND_XOR \<Rightarrow> 5 | COND_EQ \<Rightarrow> 6 | COND_NEQ \<Rightarrow> 7
     | COND_OTHER t \<Rightarrow> t)"

definition cond_rule_write :: "policydb \<Rightarrow> avtab \<Rightarrow> nat \<Rightarrow> writer" where
  "cond_rule_write p h a fp = bindE (liftE (av_node_at h a)) (\<lambda>n.
     if policyvers p < POLICYDB_VERSION_AVTAB
     then bindE (failE (liftE (old_item False [n] [] 0)) STATUS_ERR) (\<lambda>(item, _). case item of None \<Rightarrow> returnE fp | Some ws \<Rightarrow> put_u32s ws fp)
     else liftW (avtab_write_item n) fp)"

definition cond_write_av_list :: "policydb \<Rightarrow> nat list \<Rightarrow> writer" where
  "cond_write_av_list p l fp = bindE
     (if policyvers p < POLICYDB_VERSION_AVTAB then failE (expand_cond_av_list p l (avtab_init avtab_zero)) STATUS_ERR else returnE (l, te_cond_avtab p))
     (\<lambda>(l', h). seqW (put_u32s [of_nat (length l')]) (failW (foldE (cond_rule_write p h) l') STATUS_ERR) fp)"

definition cond_write_node :: "policydb \<Rightarrow> cond_node \<Rightarrow> writer" where
  "cond_write_node p n = seqW (put_u32s [word_of_int (cur_state n)]) (seqW (put_u32s [of_nat (length (cn_cond_expr n))])
     (seqW (foldE (\<lambda>e. put_u32s [cond_kind_code (cx_type e), cx_bool e]) (cn_cond_expr n))
       (seqW (cond_write_av_list p (true_list n)) (cond_write_av_list p (false_list n)))))"

definition cond_write_list :: "policydb \<Rightarrow> cond_node list \<Rightarrow> writer" where
  "cond_write_list p l = seqW (put_u32s [of_nat (length l)]) (foldE (cond_write_node p) l)"

end
