(* ===== verification/Rules_Image.thy ===== *)
theory Rules_Image
  imports Avtab_Expand "HOL-Library.Multiset"
begin

text \<open>
  The type enforcement rules in the policy file: reading the conditional section (conditional.c), and that the
  access vector table and the conditional rules that are written in the current format are read back. Conditional nodes point
  at the nodes of \<open>te_cond_avtab\<close>; the reader makes new nodes, so what is kept is the rules at the addresses of a list.
\<close>

unbundle bit_operations_syntax

section \<open>Reading the conditional section\<close>

text \<open>The callback's data: the conditional table and the list of the nodes inserted so far.\<close>

definition cond_insertf ::
  "avtab \<Rightarrow> nat list \<Rightarrow> avtab \<times> nat list \<Rightarrow> avtab_key \<Rightarrow> u32 \<Rightarrow> (avtab \<times> nat list) alloc_m"
where
  "cond_insertf te other = (\<lambda>(ctab, head) k d. failE
     (bindE
       (if specified k AND AVTAB_TYPE \<noteq> 0 then
          bindE (liftE (avtab_search te k)) (\<lambda>r. if r \<noteq> None then throwE STATUS_ERR
          else if other \<noteq> [] then
            bindE (liftE (avtab_search_node ctab k)) (\<lambda>node_ptr. case node_ptr of
              [] \<Rightarrow> returnE ()
            | n # _ \<Rightarrow>
                if avtab_search_node_next node_ptr (specified k) \<noteq> [] then throwE STATUS_ERR
                else if av_addr n \<notin> set other then throwE STATUS_ERR
                else returnE ())
          else bindE (liftE (avtab_search ctab k)) (\<lambda>r. if r \<noteq> None then throwE STATUS_ERR else returnE ()))
        else returnE ())
       (\<lambda>_. bindE (avtab_insert_nonunique ctab k d) (\<lambda>(ctab', a).
          bindE malloc (\<lambda>_. returnE (ctab', head @ [a])))))
     STATUS_ERR)"

definition cond_read_rule :: "u32 \<Rightarrow> avtab \<Rightarrow> nat list \<Rightarrow> avtab \<times> nat list \<Rightarrow> (avtab \<times> nat list) reader" where
  "cond_read_rule vers te other s fp = avtab_read_item fp vers (cond_insertf te other) s"

definition cond_read_av_list :: "u32 \<Rightarrow> avtab \<Rightarrow> nat list \<Rightarrow> avtab \<Rightarrow> (avtab \<times> nat list) reader" where
  "cond_read_av_list vers te other ctab = bindP (next_u32s 1) (\<lambda>buf.
     if buf ! 0 = 0 then returnP (ctab, []) else repeatP (unat (buf ! 0)) (cond_read_rule vers te other) (ctab, []))"

definition cond_kind_of :: "u32 \<Rightarrow> cond_kind" where
  "cond_kind_of t = (if t = 1 then COND_BOOL else if t = 2 then COND_NOT else if t = 3 then COND_OR
     else if t = 4 then COND_AND else if t = 5 then COND_XOR else if t = 6 then COND_EQ
     else if t = 7 then COND_NEQ else COND_OTHER t)"

definition expr_isvalid :: "policydb \<Rightarrow> cond_expr \<Rightarrow> bool" where
  "expr_isvalid p expr = (case cx_type expr of
     COND_OTHER _ \<Rightarrow> False | _ \<Rightarrow> \<not> cx_bool expr > nprim (p_bools p))"

definition cond_read_expr :: "policydb \<Rightarrow> cond_expr reader" where
  "cond_read_expr p = bindP (next_u32s 2) (\<lambda>buf. bindP (liftP malloc) (\<lambda>_.
     let expr = \<lparr>cx_type = cond_kind_of (buf ! 0), cx_bool = buf ! 1\<rparr> in
     if \<not> expr_isvalid p expr then throwP STATUS_ERR else returnP expr))"

text \<open>The lengths are of type \<open>int\<close>; a negative length is an empty loop.\<close>

definition loop_count :: "u32 \<Rightarrow> nat" where
  "loop_count w = nat (sint w)"

definition cond_read_node :: "policydb \<Rightarrow> (policydb \<times> cond_node) reader" where
  "cond_read_node p = failP (bindP (next_u32s 1) (\<lambda>buf. bindP (next_u32s 1) (\<lambda>buf2.
     bindP (listP (loop_count (buf2 ! 0)) (cond_read_expr p)) (\<lambda>es.
     bindP (cond_read_av_list (policyvers p) (te_avtab p) [] (te_cond_avtab p)) (\<lambda>(h1, tlist).
     bindP (cond_read_av_list (policyvers p) (te_avtab p) tlist h1) (\<lambda>(h2, flist).
       returnP (p\<lparr>te_cond_avtab := h2\<rparr>, empty_cond_node\<lparr>cur_state := sint (buf ! 0), cn_cond_expr := es, true_list := tlist, false_list := flist\<rparr>))))))) STATUS_ERR"

definition cond_read_next :: "policydb \<times> cond_node list \<Rightarrow> (policydb \<times> cond_node list) reader" where
  "cond_read_next = (\<lambda>(p, ns). bindP (liftP malloc) (\<lambda>_. bindP (cond_read_node p) (\<lambda>(p', n). returnP (p', ns @ [n]))))"

definition cond_read_list :: "policydb \<Rightarrow> policydb reader" where
  "cond_read_list p = failP (bindP (next_u32s 1) (\<lambda>buf.
     bindP (liftP (avtab_alloc (te_cond_avtab p) (av_nel (te_avtab p)))) (\<lambda>h.
     bindP (repeatP (loop_count (buf ! 0)) cond_read_next (p\<lparr>te_cond_avtab := h\<rparr>, [])) (\<lambda>(p', ns).
       returnP (if ns = [] then p' else p'\<lparr>cond_list := ns\<rparr>))))) STATUS_ERR"

section \<open>The access vector table\<close>

definition te_same :: "avtab \<Rightarrow> avtab \<Rightarrow> bool" where
  "te_same h h' \<longleftrightarrow> avtab_ok h' \<and> (\<forall>k. map av_view (nodes_at k (av_entries h')) = map av_view (nodes_at k (av_entries h)))"

lemma views_length:
  assumes "\<And>k. map av_view (nodes_at k xs) = map av_view (nodes_at k ys)"
  shows "length xs = length ys"
proof -
  have c: "count (mset (map av_view zs)) v = count (mset (map av_view (nodes_at (fst v) zs))) v" for zs v
  proof (induction zs)
    case (Cons n zs)
    have "av_view n = v \<Longrightarrow> key_same (fst v) (av_key n)" by (auto simp: key_same_def av_view_def)
    with Cons.IH show ?case by (cases "av_view n = v") (simp_all add: nodes_at_def)
  qed (simp add: nodes_at_def)
  have "mset (map av_view xs) = mset (map av_view ys)" by (rule multiset_eqI) (rule trans [OF c trans [OF arg_cong2 [where f = count, OF arg_cong [where f = mset, OF assms] refl] c [symmetric]]])
  then show ?thesis by (metis length_map size_mset)
qed

lemma te_same_length: "te_same h h' \<Longrightarrow> length (av_entries h') = length (av_entries h)"
  unfolding te_same_def by (intro views_length) blast

definition te_saved_ok :: "avtab \<Rightarrow> bool" where
  "te_saved_ok h \<longleftrightarrow> avtab_ok h \<and> av_unique h \<and> (\<forall>n \<in> set (av_entries h). spec_single (av_key n))
     \<and> 0 < length (av_entries h) \<and> length (av_entries h) < 2 ^ 32"

lemma avtab_code:
  assumes "te_saved_ok h" "20 \<le> vers"
  shows "code (liftW (avtab_write h)) (\<lambda>fp. avtab_read a0 fp vers) (te_same h)"
proof -
  let ?bs = "put_le 4 (av_nel h) @ concat (map av_image (av_entries h))"
  note a = assms(1) [unfolded te_saved_ok_def]
  have len: "length ?bs = 4 + 12 * length (av_entries h)" by (induction "av_entries h") (auto simp: av_image_def length_concat o_def sum_list_triv)
  have "writes (liftW (avtab_write h)) ?bs"
    using avtab_write_image [of h] a unfolding len [symmetric] by (intro writes_liftW) blast
  moreover have "reads (\<lambda>fp. avtab_read a0 fp vers) ?bs (te_same h)"
    unfolding reads_def te_same_def using avtab_read_image [of h vers _ _ a0] a assms(2) by metis
  ultimately show ?thesis unfolding code_def by blast
qed

section \<open>Conditional rules\<close>

text \<open>The rules at the addresses of a list.\<close>

definition rules_at :: "avtab \<Rightarrow> nat list \<Rightarrow> (avtab_key \<times> u32) list \<Rightarrow> bool" where
  "rules_at h l vs \<longleftrightarrow> list_all2 (\<lambda>a v. \<exists>n \<in> set (av_entries h). av_addr n = a \<and> av_view n = v) l vs"

definition extends :: "avtab \<Rightarrow> avtab \<Rightarrow> bool" where
  "extends h h' \<longleftrightarrow> avtab_ok h' \<and> set (av_entries h) \<subseteq> set (av_entries h')"

lemma extends_refl: "avtab_ok h \<Longrightarrow> extends h h"
  by (simp add: extends_def)

lemma extends_trans: "extends h1 h2 \<Longrightarrow> extends h2 h3 \<Longrightarrow> extends h1 h3"
  by (auto simp: extends_def)

lemma rules_at_append: "rules_at h l vs \<Longrightarrow> rules_at h l' vs' \<Longrightarrow> rules_at h (l @ l') (vs @ vs')"
  unfolding rules_at_def by (rule list_all2_appendI)

lemma rules_at_mono: "rules_at h l vs \<Longrightarrow> extends h h' \<Longrightarrow> rules_at h' l vs"
  unfolding rules_at_def extends_def by (erule list_all2_mono) blast

text \<open>An access vector rule of one kind.\<close>

definition cond_rule_ok :: "avtab_key \<times> u32 \<Rightarrow> bool" where
  "cond_rule_ok v \<longleftrightarrow> spec_single (fst v) \<and> specified (fst v) AND AVTAB_TYPE = 0"

lemma av_node_at_entry:
  assumes "avtab_ok h" "n \<in> set (av_entries h)"
  shows "av_node_at h (av_addr n) = Inr n"
proof -
  have d: "distinct (map av_addr (av_entries h))" using assms(1) by (rule avtab_okE) simp
  have "find (\<lambda>m. av_addr m = av_addr n) xs = Some n" if "distinct (map av_addr xs)" "n \<in> set xs" for xs
    using that by (induction xs) (auto simp: image_iff)
  from this [OF d assms(2)] show ?thesis unfolding av_node_at_def av_entries_def by (simp add: deref_def split: option.splits)
qed

lemma cond_insertf_av:
  assumes "avtab_ok h" "specified k AND AVTAB_TYPE = 0"
  shows "\<exists>h'. cond_insertf te other (h, head) k d [] = (Inr (h', head @ [av_next_addr h]), []) \<and> extends h h' \<and> rules_at h' [av_next_addr h] [(k, d)]"
proof -
  from avtab_insert_nonunique_ok [OF assms(1), of k d] obtain h' us vs where
    h': "yields (avtab_insert_nonunique h k d) (Inr (h', av_next_addr h))" "avtab_ok h'" "av_entries h = us @ vs" "av_entries h' = us @ new_av_node h k d # vs" by blast
  have "cond_insertf te other (h, head) k d [] = (Inr (h', head @ [av_next_addr h]), [])"
    using assms(2) yields_no_oom [OF h'(1)] by (simp add: cond_insertf_def bindE_def failE_def returnE_def)
  moreover have "extends h h'" using h'(2-4) by (auto simp: extends_def)
  moreover have "rules_at h' [av_next_addr h] [(k, d)]" by (simp add: rules_at_def h'(4) new_av_node_def av_view_def)
  ultimately show ?thesis by blast
qed

lemma cond_rule_code:
  assumes "avtab_ok h" "cond_rule_ok (av_view n)" "20 \<le> vers"
  shows "code (liftW (avtab_write_item n)) (cond_read_rule vers te other (h, head))
    (\<lambda>(h', head'). \<exists>a. head' = head @ [a] \<and> extends h h' \<and> rules_at h' [a] [av_view n])"
proof -
  have k: "spec_single (av_key n)" "specified (av_key n) AND AVTAB_TYPE = 0" using assms(2) by (simp_all add: cond_rule_ok_def av_view_def)
  from cond_insertf_av [OF assms(1) k(2), of te other head "av_data n"] obtain h' where
    h': "cond_insertf te other (h, head) (av_key n) (av_data n) [] = (Inr (h', head @ [av_next_addr h]), [])" "extends h h'"
      "rules_at h' [av_next_addr h] [av_view n]" by (auto simp: av_view_def)
  let ?k = "av_key n"
  let ?b = "put_le 2 (source_type ?k) @ put_le 2 (target_type ?k) @ put_le 2 (target_class ?k) @ put_le 2 (specified ?k)"
  have v: "\<not> vers < 20" using assms(3) by (simp add: not_less)
  have "reads (cond_read_rule vers te other (h, head)) (av_image n) (\<lambda>s. s = (h', head @ [av_next_addr h]))"
    unfolding reads_def
  proof (intro allI impI)
    fix fp rest assume "pf_reads fp (av_image n @ rest)"
    then have "pf_reads fp (?b @ (put_le 4 (av_data n) @ rest))" by (simp add: av_image_def)
    from next_entry_append [OF this, of 8] obtain fp1 where
      1: "next_entry fp 8 = Inr (?b, fp1)" "pf_reads fp1 (put_le 4 (av_data n) @ rest)" by auto
    from next_entry_append [OF 1(2), of 4] obtain fp2 where 2: "next_entry fp1 4 = Inr (put_le 4 (av_data n), fp2)" "pf_reads fp2 rest" by auto
    have "cond_read_rule vers te other (h, head) fp [] = (Inr ((h', head @ [av_next_addr h]), fp2), [])"
      using k(1) v h'(1) unfolding spec_single_def
      by (simp add: cond_read_rule_def avtab_read_item_def read_item_new_def 1(1) 2(1) Let_def key_eta bindE_run(2) [where m = "cond_insertf te other (h, head) (av_key n) (av_data n)", OF h'(1)])
    with 2(2) show "\<exists>v fp'. cond_read_rule vers te other (h, head) fp [] = (Inr (v, fp'), []) \<and> pf_reads fp' rest \<and> v = (h', head @ [av_next_addr h])" by blast
  qed
  then have "reads (cond_read_rule vers te other (h, head)) (av_image n) (\<lambda>(h', head'). \<exists>a. head' = head @ [a] \<and> extends h h' \<and> rules_at h' [a] [av_view n])"
    by (rule reads_weaken) (use h'(2,3) in auto)
  moreover have "length (av_image n) = 12" by (simp add: av_image_def)
  then have "writes (liftW (avtab_write_item n)) (av_image n)" using avtab_write_item_image [of _ _ n] by (intro writes_liftW) simp
  ultimately show ?thesis unfolding code_def by blast
qed

lemma cond_av_list_code:
  assumes v: "20 \<le> policyvers p" and h: "avtab_ok (te_cond_avtab p)" "rules_at (te_cond_avtab p) l vs" "\<forall>v \<in> set vs. cond_rule_ok v" "length l < 2 ^ 32"
    and c: "avtab_ok ctab"
  shows "code (cond_write_av_list p l) (cond_read_av_list (policyvers p) te other ctab) (\<lambda>(ctab', l'). extends ctab ctab' \<and> rules_at ctab' l' vs)"
proof -
  let ?Q = "\<lambda>(ctab', l'). extends ctab ctab' \<and> rules_at ctab' l' vs"
  let ?rd = "cond_read_rule (policyvers p) te other"
  have nv: "\<not> policyvers p < POLICYDB_VERSION_AVTAB" using v by (simp add: not_less)
  from h(2) obtain ns where ns: "l = map av_addr ns" "vs = map av_view ns" "set ns \<subseteq> set (av_entries (te_cond_avtab p))"
    unfolding rules_at_def
  proof (induction l vs arbitrary: thesis rule: list_all2_induct)
    case (Cons a as v vs)
    then obtain n ns where "n \<in> set (av_entries (te_cond_avtab p))" "av_addr n = a" "av_view n = v" "as = map av_addr ns" "vs = map av_view ns"
      "set ns \<subseteq> set (av_entries (te_cond_avtab p))" by blast
    then show ?case by (intro Cons.prems(1) [of "n # ns"]) auto
  qed simp
  have w1: "cond_rule_write p (te_cond_avtab p) (av_addr n) = liftW (avtab_write_item n)" if "n \<in> set ns" for n
    using av_node_at_entry [OF h(1), of n] that ns(3) nv by (auto simp: fun_eq_iff cond_rule_write_def)
  have fw: "foldE (cond_rule_write p (te_cond_avtab p)) (map av_addr ms) = foldE (\<lambda>n. liftW (avtab_write_item n)) ms" if "set ms \<subseteq> set ns" for ms
    using that by (induction ms) (simp_all add: foldE_seqW w1)
  have w: "cond_write_av_list p l = seqW (put_u32s [of_nat (length l)]) (failW (foldE (\<lambda>n. liftW (avtab_write_item n)) ns) STATUS_ERR)"
    using nv by (intro ext) (simp add: cond_write_av_list_def ns(1) fw)
  have un: "unat (of_nat (length l) :: u32) = length ns" using h(4) ns(1) by (simp add: unat_of_nat_u32)
  have "code (foldE (\<lambda>n. liftW (avtab_write_item n)) ns) (repeatP (length ns) ?rd (ctab, [])) (\<lambda>(ctab', l'). extends ctab ctab' \<and> rules_at ctab' l' (map av_view ns))"
  proof (rule code_repeatP [where I = "\<lambda>ys (ctab', l'). extends ctab ctab' \<and> rules_at ctab' l' (map av_view ys)"])
    show "case (ctab, []) of (ctab', l') \<Rightarrow> extends ctab ctab' \<and> rules_at ctab' l' (map av_view [])" using c by (simp add: extends_refl rules_at_def)
  next
    fix ys n zs s assume xs: "ys @ n # zs = ns" and I: "case s of (ctab', l') \<Rightarrow> extends ctab ctab' \<and> rules_at ctab' l' (map av_view ys)"
    obtain c' l' where s: "s = (c', l')" by fastforce
    have ok: "avtab_ok c'" "cond_rule_ok (av_view n)" using I h(3) ns(2) xs by (auto simp: s extends_def)
    show "code (liftW (avtab_write_item n)) (?rd s) (\<lambda>(ctab', l'). extends ctab ctab' \<and> rules_at ctab' l' (map av_view (ys @ [n])))"
      unfolding s by (rule code_weaken [OF cond_rule_code [OF ok v]])
        (use I in \<open>auto simp: s intro: extends_trans intro!: rules_at_append [where vs' = "[av_view n]", simplified] elim: rules_at_mono\<close>)
  qed
  then have items: "code (foldE (\<lambda>n. liftW (avtab_write_item n)) ns) (repeatP (length ns) ?rd (ctab, [])) ?Q" by (simp add: ns(2))
  show ?thesis unfolding w cond_read_av_list_def
  proof (rule code_step [OF code_u32s])
    have "(of_nat (length l) :: u32) = 0 \<longleftrightarrow> ns = []" using un by (metis length_0_conv unat_eq_zero)
    then have "(if [of_nat (length l) :: u32] ! 0 = 0 then returnP (ctab, []) else repeatP (unat ([of_nat (length l) :: u32] ! 0)) ?rd (ctab, [])) = repeatP (length ns) ?rd (ctab, [])"
      using un by auto
    then show "code (failW (foldE (\<lambda>n. liftW (avtab_write_item n)) ns) STATUS_ERR)
      (if [of_nat (length l) :: u32] ! 0 = 0 then returnP (ctab, []) else repeatP (unat ([of_nat (length l) :: u32] ! 0)) ?rd (ctab, [])) ?Q"
      using code_failW [OF items] by (simp only:)
  qed simp_all
qed

text \<open>Conditional nodes: the state, the expression and the rules of both branches are kept; the fields for the comparison of nodes
  are computed when they are needed.\<close>

definition cond_same :: "avtab \<Rightarrow> avtab \<Rightarrow> cond_node \<Rightarrow> cond_node \<Rightarrow> bool" where
  "cond_same h h' n n' \<longleftrightarrow> cur_state n' = cur_state n \<and> cn_cond_expr n' = cn_cond_expr n
     \<and> (\<exists>vs. rules_at h (true_list n) vs \<and> rules_at h' (true_list n') vs) \<and> (\<exists>vs. rules_at h (false_list n) vs \<and> rules_at h' (false_list n') vs)"

definition cond_list_ok :: "avtab \<Rightarrow> nat list \<Rightarrow> bool" where
  "cond_list_ok h l \<longleftrightarrow> length l < 2 ^ 32 \<and> (\<forall>a \<in> set l. \<exists>n \<in> set (av_entries h). av_addr n = a \<and> cond_rule_ok (av_view n))"

definition cond_saved_ok :: "policydb \<Rightarrow> avtab \<Rightarrow> cond_node \<Rightarrow> bool" where
  "cond_saved_ok q h n \<longleftrightarrow> cur_state n \<in> {-1, 0, 1} \<and> length (cn_cond_expr n) < 2 ^ 31 \<and> (\<forall>e \<in> set (cn_cond_expr n). expr_isvalid q e)
     \<and> cond_list_ok h (true_list n) \<and> cond_list_ok h (false_list n)"

lemma cond_list_rules:
  assumes "cond_list_ok h l"
  obtains vs where "rules_at h l vs" "\<forall>v \<in> set vs. cond_rule_ok v"
proof -
  have "\<forall>a \<in> set l. \<exists>n \<in> set (av_entries h). av_addr n = a \<and> cond_rule_ok (av_view n)" using assms by (simp add: cond_list_ok_def)
  then have "\<exists>vs. rules_at h l vs \<and> (\<forall>v \<in> set vs. cond_rule_ok v)"
  proof (induction l)
    case Nil
    then show ?case by (intro exI [of _ "[]"]) (simp add: rules_at_def)
  next
    case (Cons a l)
    then obtain n vs where "n \<in> set (av_entries h)" "av_addr n = a" "cond_rule_ok (av_view n)" "rules_at h l vs" "\<forall>v \<in> set vs. cond_rule_ok v" by auto
    then show ?case by (intro exI [of _ "av_view n # vs"]) (auto simp: rules_at_def)
  qed
  then show thesis using that by blast
qed

lemma loop_count_of_nat: "n < 2 ^ 31 \<Longrightarrow> loop_count (of_nat n) = n"
proof -
  assume n: "n < 2 ^ 31"
  have "sint (of_nat n :: u32) = int n" using n by (simp add: signed_of_nat signed_take_bit_int_eq_self)
  then show ?thesis by (simp add: loop_count_def)
qed

interpretation cexp: codec "cond_read_expr p" "\<lambda>e. put_u32s [cond_kind_code (cx_type e), cx_bool e]" "expr_isvalid p" for p
proof
  fix e assume ok: "expr_isvalid p e"
  have eta: "\<lparr>cx_type = cx_type e, cx_bool = cx_bool e\<rparr> = e" by simp
  from ok have k: "cond_kind_of (cond_kind_code (cx_type e)) = cx_type e"
    by (cases "cx_type e") (simp_all add: expr_isvalid_def cond_kind_of_def cond_kind_code_def)
  show "code (put_u32s [cond_kind_code (cx_type e), cx_bool e]) (cond_read_expr p) ((=) e)"
    unfolding cond_read_expr_def Let_def by (rule code_end [OF code_u32s]) (use ok in \<open>auto intro!: reads_malloc reads_returnP simp: k eta\<close>)
qed

lemma sint_state: "s \<in> {-1, 0, 1} \<Longrightarrow> sint (word_of_int s :: u32) = s"
  by auto

lemma cond_node_code:
  assumes v: "20 \<le> policyvers p" "policyvers q = policyvers p" and h: "avtab_ok (te_cond_avtab p)" "avtab_ok (te_cond_avtab q)"
    and ok: "cond_saved_ok q (te_cond_avtab p) n"
  shows "code (cond_write_node p n) (cond_read_node q)
    (\<lambda>(q', n'). \<exists>c. q' = q\<lparr>te_cond_avtab := c\<rparr> \<and> extends (te_cond_avtab q) c \<and> cond_same (te_cond_avtab p) c n n')"
proof -
  note o = ok [unfolded cond_saved_ok_def]
  from o obtain ts where t: "rules_at (te_cond_avtab p) (true_list n) ts" "\<forall>v \<in> set ts. cond_rule_ok v" "length (true_list n) < 2 ^ 32"
    using cond_list_rules unfolding cond_list_ok_def by metis
  from o obtain fs where f: "rules_at (te_cond_avtab p) (false_list n) fs" "\<forall>v \<in> set fs. cond_rule_ok v" "length (false_list n) < 2 ^ 32"
    using cond_list_rules unfolding cond_list_ok_def by metis
  have st: "sint (word_of_int (cur_state n) :: u32) = cur_state n" using o by (intro sint_state) simp
  have len: "loop_count (of_nat (length (cn_cond_expr n))) = length (cn_cond_expr n)" using o by (intro loop_count_of_nat) simp
  note list = cond_av_list_code [OF v(1) h(1)]
  show ?thesis unfolding cond_write_node_def cond_read_node_def v(2)
  proof (rule code_failP, rule code_step [OF code_u32s], simp, simp, rule code_step [OF code_u32s], simp, simp, simp add: len st,
      rule code_step [OF cexp.list_codec], use o in simp, rule code_bind [OF list [OF t h(2)]], clarify)
    fix h1 tl assume 1: "extends (te_cond_avtab q) h1" "rules_at h1 tl ts"
    then have "avtab_ok h1" by (simp add: extends_def)
    from list [OF f this] show "code (cond_write_av_list p (false_list n)) (bindP (cond_read_av_list (policyvers p) (te_avtab q) tl h1) (\<lambda>(h2, flist).
        returnP (q\<lparr>te_cond_avtab := h2\<rparr>, empty_cond_node\<lparr>cur_state := cur_state n, cn_cond_expr := cn_cond_expr n, true_list := tl, false_list := flist\<rparr>)))
        (\<lambda>(q', n'). \<exists>c. q' = q\<lparr>te_cond_avtab := c\<rparr> \<and> extends (te_cond_avtab q) c \<and> cond_same (te_cond_avtab p) c n n')"
    proof (rule code_end, clarify)
      fix h2 fl assume 2: "extends h1 h2" "rules_at h2 fl fs"
      have "extends (te_cond_avtab q) h2" "rules_at h2 tl ts" using 1 2 by (auto intro: extends_trans rules_at_mono)
      then show "reads (returnP (q\<lparr>te_cond_avtab := h2\<rparr>, empty_cond_node\<lparr>cur_state := cur_state n, cn_cond_expr := cn_cond_expr n, true_list := tl, false_list := fl\<rparr>)) []
          (\<lambda>(q', n'). \<exists>c. q' = q\<lparr>te_cond_avtab := c\<rparr> \<and> extends (te_cond_avtab q) c \<and> cond_same (te_cond_avtab p) c n n')"
        using 2(2) t(1) f(1) by (intro reads_returnP) (auto simp: cond_same_def intro!: exI [of _ h2])
    qed
  qed
qed

lemma expr_isvalid_upd [simp]:
  "expr_isvalid (q\<lparr>te_cond_avtab := c\<rparr>) = expr_isvalid q" "expr_isvalid (q\<lparr>te_avtab := c\<rparr>) = expr_isvalid q"
  by (simp_all add: fun_eq_iff expr_isvalid_def split: cond_kind.split)

lemma cond_same_mono: "cond_same h c n n' \<Longrightarrow> extends c c' \<Longrightarrow> cond_same h c' n n'"
  unfolding cond_same_def by (blast intro: rules_at_mono)

lemma cond_list_code:
  assumes v: "20 \<le> policyvers p" "policyvers q = policyvers p" and h: "avtab_ok (te_cond_avtab p)" and nel: "av_nel (te_avtab q) \<noteq> 0"
    and ok: "\<forall>n \<in> set (cond_list p). cond_saved_ok q (te_cond_avtab p) n" "length (cond_list p) < 2 ^ 31" and empty: "cond_list q = []"
  shows "code (cond_write_list p (cond_list p)) (cond_read_list q)
    (\<lambda>q'. \<exists>c ns. q' = q\<lparr>te_cond_avtab := c, cond_list := ns\<rparr> \<and> avtab_ok c \<and> list_all2 (cond_same (te_cond_avtab p) c) (cond_list p) ns)"
proof -
  let ?I = "\<lambda>ys (q', ns). \<exists>c. q' = q\<lparr>te_cond_avtab := c\<rparr> \<and> avtab_ok c \<and> list_all2 (cond_same (te_cond_avtab p) c) ys ns"
  from avtab_alloc_ok [OF nel, of "te_cond_avtab q"] obtain c0 where
    c0: "avtab_alloc (te_cond_avtab q) (av_nel (te_avtab q)) [] = (Inr c0, [])" "avtab_ok c0" by blast
  have len: "loop_count (of_nat (length (cond_list p))) = length (cond_list p)" using ok(2) by (rule loop_count_of_nat)
  have items: "code (foldE (cond_write_node p) (cond_list p)) (repeatP (length (cond_list p)) cond_read_next (q\<lparr>te_cond_avtab := c0\<rparr>, [])) (?I (cond_list p))"
  proof (rule code_repeatP [where I = ?I])
    show "?I [] (q\<lparr>te_cond_avtab := c0\<rparr>, [])" using c0(2) by auto
  next
    fix ys n zs s assume xs: "ys @ n # zs = cond_list p" and I: "?I ys s"
    from I obtain c ns where s: "s = (q\<lparr>te_cond_avtab := c\<rparr>, ns)" "avtab_ok c" "list_all2 (cond_same (te_cond_avtab p) c) ys ns" by (cases s) auto
    let ?q = "q\<lparr>te_cond_avtab := c\<rparr>"
    have "cond_saved_ok ?q (te_cond_avtab p) n" using ok(1) unfolding xs [symmetric] by (simp add: cond_saved_ok_def)
    then have "code (cond_write_node p n) (cond_read_node ?q)
      (\<lambda>(q', n'). \<exists>d. q' = ?q\<lparr>te_cond_avtab := d\<rparr> \<and> extends (te_cond_avtab ?q) d \<and> cond_same (te_cond_avtab p) d n n')"
      using v s(2) by (intro cond_node_code h) simp_all
    then show "code (cond_write_node p n) (cond_read_next s) (?I (ys @ [n]))"
      unfolding s(1) cond_read_next_def prod.case
    proof (intro code_malloc, elim code_end, clarify)
      fix n' d assume d: "extends (te_cond_avtab ?q) d" "cond_same (te_cond_avtab p) d n n'"
      have "list_all2 (cond_same (te_cond_avtab p) d) ys ns" by (rule list_all2_mono [OF s(3)]) (use d(1) in \<open>simp add: cond_same_mono\<close>)
      then show "reads (returnP (?q\<lparr>te_cond_avtab := d\<rparr>, ns @ [n'])) [] (?I (ys @ [n]))"
        using d by (intro reads_returnP) (auto simp: extends_def intro!: exI [of _ d] list_all2_appendI)
    qed
  qed
  show ?thesis unfolding cond_write_list_def cond_read_list_def
  proof (rule code_failP, rule code_step [OF code_u32s], simp, simp, rule code_lift, rule c0(1), simp add: len, rule code_end [OF items], clarify)
    fix ns c assume "avtab_ok c" "list_all2 (cond_same (te_cond_avtab p) c) (cond_list p) ns"
    moreover have "(if ns = [] then q\<lparr>te_cond_avtab := c\<rparr> else q\<lparr>te_cond_avtab := c, cond_list := ns\<rparr>) = q\<lparr>te_cond_avtab := c, cond_list := ns\<rparr>" using empty by simp
    ultimately show "reads (returnP (if ns = [] then q\<lparr>te_cond_avtab := c\<rparr> else q\<lparr>te_cond_avtab := c, cond_list := ns\<rparr>)) []
      (\<lambda>q'. \<exists>c ns. q' = q\<lparr>te_cond_avtab := c, cond_list := ns\<rparr> \<and> avtab_ok c \<and> list_all2 (cond_same (te_cond_avtab p) c) (cond_list p) ns)"
      by (intro reads_returnP) metis
  qed
qed

end
