(* ===== verification/Expand_Sets.thy ===== *)
theory Expand_Sets
  imports Sample_Policy
begin

text \<open>
  Sets of types and roles (policydb.c) and their expansion into bitmaps (expand.c): attributes are replaced
  by their members, types behind a minus are taken away, and \<open>*\<close> and \<open>~\<close> stand for all types and for
  the complement.
\<close>

unbundle bit_operations_syntax

abbreviation "TYPE_STAR \<equiv> 1 :: u32"
abbreviation "TYPE_COMP \<equiv> 2 :: u32"
abbreviation "ROLE_STAR \<equiv> 1 :: u32"
abbreviation "ROLE_COMP \<equiv> 2 :: u32"
abbreviation "ROLE_ATTRIB \<equiv> 1 :: u32"

section \<open>Sets of types\<close>

definition type_set_or :: "type_set \<Rightarrow> type_set \<Rightarrow> type_set alloc_m" where
  "type_set_or a b = bindE (failE (ebitmap_or (ts_types a) (ts_types b)) STATUS_ERR) (\<lambda>types.
     bindE (failE (ebitmap_or (ts_negset a) (ts_negset b)) STATUS_ERR) (\<lambda>negset.
       returnE \<lparr>ts_types = types, ts_negset = negset, ts_flags = ts_flags a OR ts_flags b\<rparr>))"

definition type_set_cpy :: "type_set \<Rightarrow> type_set alloc_m" where
  "type_set_cpy src = bindE (failE (ebitmap_cpy (ts_types src)) STATUS_ERR) (\<lambda>types.
     bindE (failE (ebitmap_cpy (ts_negset src)) STATUS_ERR) (\<lambda>negset.
       returnE \<lparr>ts_types = types, ts_negset = negset, ts_flags = ts_flags src\<rparr>))"

definition type_set_or_eq :: "type_set \<Rightarrow> type_set \<Rightarrow> type_set alloc_m" where
  "type_set_or_eq dst other = bindE (type_set_or dst other) type_set_cpy"

text \<open>A type that is an attribute.\<close>

definition is_attrib :: "type_datum option \<Rightarrow> bool" where
  "is_attrib t = (case t of None \<Rightarrow> False | Some d \<Rightarrow> td_flavor d = TYPE_ATTRIB)"

text \<open>Adding a member of the set: the structure of the type is followed without a test.\<close>

definition expand_type :: "policydb \<Rightarrow> u32 \<Rightarrow> ebitmap \<Rightarrow> ebitmap alloc_m" where
  "expand_type p i types = bindE (liftE (bindR (array_get (type_val_to_struct p) (unat i)) deref)) (\<lambda>d.
     if td_flavor d = TYPE_ATTRIB then failE (ebitmap_union types (td_types d)) STATUS_ERR
     else failE (ebitmap_set_bit types i True) STATUS_ERR)"

text \<open>A type behind a minus: the structure may be missing.\<close>

definition expand_neg :: "policydb \<Rightarrow> u32 \<Rightarrow> ebitmap \<Rightarrow> ebitmap alloc_m" where
  "expand_neg p i types = bindE (liftE (array_get (type_val_to_struct p) (unat i))) (\<lambda>t. case t of
     Some d \<Rightarrow> if td_flavor d = TYPE_ATTRIB then failE (ebitmap_union types (td_types d)) STATUS_ERR
               else failE (ebitmap_set_bit types i True) STATUS_ERR
   | None \<Rightarrow> failE (ebitmap_set_bit types i True) STATUS_ERR)"

definition star_type :: "policydb \<Rightarrow> ebitmap \<Rightarrow> nat \<Rightarrow> ebitmap \<Rightarrow> ebitmap alloc_m" where
  "star_type p neg i t =
     (if ebitmap_get_bit neg (of_nat i) then returnE t
      else bindE (liftE (array_get (type_val_to_struct p) i)) (\<lambda>d.
        if is_attrib d then returnE t else failE (ebitmap_set_bit t (of_nat i) True) STATUS_ERR))"

text \<open>The assertion aborts.\<close>

definition comp_type :: "policydb \<Rightarrow> nat \<Rightarrow> ebitmap \<Rightarrow> ebitmap alloc_m" where
  "comp_type p i t = bindE (liftE (array_get (type_val_to_struct p) i)) (\<lambda>d.
     if is_attrib d then (if ebitmap_get_bit t (of_nat i) then throwE Fault else returnE t)
     else failE (ebitmap_set_bit t (of_nat i) (\<not> ebitmap_get_bit t (of_nat i))) STATUS_ERR)"

definition keep_type :: "ebitmap \<Rightarrow> u32 \<Rightarrow> ebitmap \<Rightarrow> ebitmap alloc_m" where
  "keep_type neg i t = (if ebitmap_get_bit neg i then returnE t else failE (ebitmap_set_bit t i True) STATUS_ERR)"

definition expands :: "type_set \<Rightarrow> bool \<Rightarrow> bool" where
  "expands s alwaysexpand \<longleftrightarrow> alwaysexpand \<or> ebitmap_length (ts_negset s) \<noteq> 0 \<or> ts_flags s \<noteq> 0"

definition type_set_expand :: "type_set \<Rightarrow> policydb \<Rightarrow> bool \<Rightarrow> ebitmap alloc_m" where
  "type_set_expand s p alwaysexpand =
     bindE (if expands s alwaysexpand
       then bindE (liftE (ebitmap_positive_bits (ts_types s))) (\<lambda>is. foldE (expand_type p) is ebitmap_init)
       else failE (ebitmap_cpy (ts_types s)) STATUS_ERR) (\<lambda>types.
     bindE (bindE (liftE (ebitmap_positive_bits (ts_negset s))) (\<lambda>is. foldE (expand_neg p) is ebitmap_init)) (\<lambda>neg_types.
     if ts_flags s AND TYPE_STAR \<noteq> 0 then foldE (star_type p neg_types) [0..<unat (nprim (p_types p))] ebitmap_init
     else bindE (bindE (liftE (ebitmap_positive_bits types)) (\<lambda>is. foldE (keep_type neg_types) is ebitmap_init)) (\<lambda>t.
       if ts_flags s AND TYPE_COMP \<noteq> 0 then foldE (comp_type p) [0..<unat (nprim (p_types p))] t else returnE t)))"

section \<open>Sets of roles\<close>

definition role_set_get_role :: "role_set \<Rightarrow> u32 \<Rightarrow> bool" where
  "role_set_get_role x role \<longleftrightarrow> rs_flags x AND ROLE_STAR \<noteq> 0
     \<or> (ebitmap_get_bit (rs_roles x) (role - 1) \<noteq> (rs_flags x AND ROLE_COMP \<noteq> 0))"

text \<open>The bits behind a mapping of values; 0 stands for a value without image.\<close>

definition map_ebitmap :: "ebitmap \<Rightarrow> u32 list \<Rightarrow> ebitmap alloc_m" where
  "map_ebitmap src m = bindE (liftE (ebitmap_positive_bits src)) (\<lambda>is.
     foldE (\<lambda>i dst. bindE (liftE (array_get m (unat i))) (\<lambda>v.
       if v = 0 then returnE dst else failE (ebitmap_set_bit dst (v - 1) True) STATUS_ERR)) is ebitmap_init)"

text \<open>The loop for \<open>*\<close>, whose condition \<open>i < nprim++\<close> increments the number of roles: the bitmap and the
  number that is left.\<close>

function star_roles :: "u32 \<Rightarrow> u32 \<Rightarrow> ebitmap \<Rightarrow> (ebitmap \<times> u32) alloc_m" where
  "star_roles i n r =
     (if i < n then bindE (failE (ebitmap_set_bit r i True) STATUS_ERR) (star_roles (i + 1) (n + 1))
      else returnE (r, n + 1))"
  by pat_completeness auto
termination
proof (relation "measure (\<lambda>(i, n, r). if n = 0 then 0 else 2 ^ 32 - unat n)")
  fix i n :: u32 and r v :: ebitmap
  assume "i < n"
  then have "n \<noteq> 0" by auto
  moreover have "unat (n + 1) = unat n + 1" if "n + 1 \<noteq> 0"
    using that unatSuc [of n] by (simp add: add.commute)
  ultimately show "((i + 1, n + 1, v), (i, n, r)) \<in> measure (\<lambda>(i, n, r). if n = 0 then 0 else 2 ^ 32 - unat n)"
    using unat_u32_lt [of n] unat_u32_lt [of "n + 1"] by auto
qed simp

declare star_roles.simps [simp del]

text \<open>The loop for \<open>~\<close> runs to the length of the bitmap that it changes.\<close>

function comp_roles :: "u32 \<Rightarrow> ebitmap \<Rightarrow> ebitmap alloc_m" where
  "comp_roles i r =
     (if i < ebitmap_length r
      then bindE (failE (ebitmap_set_bit r i (\<not> ebitmap_get_bit r i)) STATUS_ERR) (comp_roles (i + 1))
      else returnE r)"
  by pat_completeness auto
termination
proof (relation "measure (\<lambda>(i, r). 2 ^ 32 - unat i)")
  fix i :: u32 and r v :: ebitmap
  assume "i < ebitmap_length r"
  then have "unat i < unat (ebitmap_length r)" by (simp add: word_less_nat_alt)
  then have "unat i + 1 < 2 ^ 32" using unat_u32_lt [of "ebitmap_length r"] by simp
  then have "unat (i + 1) = unat i + 1" by (simp add: unat_word_ariths)
  then show "((i + 1, v), (i, r)) \<in> measure (\<lambda>(i, r). 2 ^ 32 - unat i)" using \<open>unat i + 1 < 2 ^ 32\<close> by simp
qed simp

declare comp_roles.simps [simp del]

text \<open>A member of the set in the base module: a role attribute stands for its roles.\<close>

definition base_role :: "policydb \<Rightarrow> u32 \<Rightarrow> ebitmap \<Rightarrow> ebitmap alloc_m" where
  "base_role base i roles = bindE (liftE (bindR (array_get (role_val_to_struct base) (unat i)) deref)) (\<lambda>role.
     if rd_flavor role = ROLE_ATTRIB then failE (ebitmap_union roles (rd_roles role)) STATUS_ERR
     else failE (ebitmap_set_bit roles i True) STATUS_ERR)"

text \<open>\<open>rolemap\<close> comes with the base module it belongs to. The result is the bitmap and the output policy.\<close>

definition role_set_expand :: "role_set \<Rightarrow> policydb \<Rightarrow> (policydb \<times> u32 list) option \<Rightarrow> (ebitmap \<times> policydb) alloc_m" where
  "role_set_expand x p rolemap =
     (if rs_flags x AND ROLE_STAR \<noteq> 0 then
        bindE (star_roles 0 (nprim (p_roles p)) ebitmap_init) (\<lambda>(r, n). returnE (r, p\<lparr>p_roles := (p_roles p)\<lparr>nprim := n\<rparr>\<rparr>))
      else bindE (case rolemap of
          Some (base, m) \<Rightarrow> bindE (liftE (ebitmap_positive_bits (rs_roles x))) (\<lambda>is.
            bindE (foldE (base_role base) is ebitmap_init) (\<lambda>roles. map_ebitmap roles m))
        | None \<Rightarrow> failE (ebitmap_cpy (rs_roles x)) STATUS_ERR) (\<lambda>mapped_roles.
        bindE (liftE (ebitmap_positive_bits mapped_roles)) (\<lambda>is.
        bindE (foldE (\<lambda>i r. failE (ebitmap_set_bit r i True) STATUS_ERR) is ebitmap_init) (\<lambda>r.
        bindE (if rs_flags x AND ROLE_COMP \<noteq> 0 then comp_roles 0 r else returnE r) (\<lambda>r'. returnE (r', p))))))"

section \<open>What a set of types denotes\<close>

definition attrib_at :: "policydb \<Rightarrow> nat \<Rightarrow> bool" where
  "attrib_at p i \<longleftrightarrow> is_attrib (type_val_to_struct p ! i)"

definition members :: "policydb \<Rightarrow> nat \<Rightarrow> nat set" where
  "members p i = (case type_val_to_struct p ! i of
     Some d \<Rightarrow> if td_flavor d = TYPE_ATTRIB then ebitmap_bits (td_types d) else {i} | None \<Rightarrow> {i})"

definition expanded :: "policydb \<Rightarrow> nat set \<Rightarrow> nat set" where
  "expanded p S = (\<Union>i\<in>S. members p i)"

definition type_set_denotes :: "policydb \<Rightarrow> type_set \<Rightarrow> bool \<Rightarrow> nat set" where
  "type_set_denotes p s alwaysexpand =
     (let pos = (if expands s alwaysexpand then expanded p (ebitmap_bits (ts_types s)) else ebitmap_bits (ts_types s));
          neg = expanded p (ebitmap_bits (ts_negset s));
          all = {i. i < unat (nprim (p_types p)) \<and> \<not> attrib_at p i} in
      if ts_flags s AND TYPE_STAR \<noteq> 0 then all - neg
      else if ts_flags s AND TYPE_COMP \<noteq> 0 then ((pos - neg) - all) \<union> (all - (pos - neg))
      else pos - neg)"

text \<open>The types of the policy: every attribute has a well-formed set of types that are not attributes.\<close>

definition types_ok :: "policydb \<Rightarrow> bool" where
  "types_ok p \<longleftrightarrow> length (type_val_to_struct p) = unat (nprim (p_types p)) \<and> unat (nprim (p_types p)) \<le> 2 ^ 32 - 64
     \<and> (\<forall>d. Some d \<in> set (type_val_to_struct p) \<longrightarrow> td_flavor d = TYPE_ATTRIB \<longrightarrow> ebitmap_ok (td_types d)
          \<and> (\<forall>i \<in> ebitmap_bits (td_types d). i < unat (nprim (p_types p)) \<and> \<not> attrib_at p i))"

text \<open>A set over these types; what is expanded must be defined.\<close>

definition type_set_ok :: "policydb \<Rightarrow> type_set \<Rightarrow> bool" where
  "type_set_ok p s \<longleftrightarrow> ebitmap_ok (ts_types s) \<and> ebitmap_ok (ts_negset s)
     \<and> (\<forall>i \<in> ebitmap_bits (ts_types s). i < unat (nprim (p_types p)) \<and> type_val_to_struct p ! i \<noteq> None)
     \<and> (\<forall>i \<in> ebitmap_bits (ts_negset s). i < unat (nprim (p_types p)))"

lemma types_ok_nth:
  assumes "types_ok p" "i < unat (nprim (p_types p))"
  shows "i < length (type_val_to_struct p)" "i < 2 ^ 32 - 64"
    "type_val_to_struct p ! i = Some d \<Longrightarrow> td_flavor d = TYPE_ATTRIB \<Longrightarrow> ebitmap_ok (td_types d)
       \<and> (\<forall>j \<in> ebitmap_bits (td_types d). j < unat (nprim (p_types p)) \<and> \<not> attrib_at p j)"
  using assms nth_mem [of i "type_val_to_struct p"] by (auto simp: types_ok_def)

text \<open>A fold whose steps each add a set of bits.\<close>

lemma foldE_adds:
  assumes "\<And>i d. i \<in> set is \<Longrightarrow> ebitmap_ok d \<Longrightarrow> \<exists>d'. returns (f i d) (Inr d') \<and> ebitmap_ok d' \<and> ebitmap_bits d' = ebitmap_bits d \<union> g i"
    "ebitmap_ok d"
  shows "\<exists>d'. returns (foldE f is d) (Inr d') \<and> ebitmap_ok d' \<and> ebitmap_bits d' = ebitmap_bits d \<union> (\<Union>i\<in>set is. g i)"
  using assms
proof (induction "is" arbitrary: d)
  case (Cons i "is")
  from Cons.prems(1) [of i d] Cons.prems(2) obtain d1 where d1: "returns (f i d) (Inr d1)" "ebitmap_ok d1" "ebitmap_bits d1 = ebitmap_bits d \<union> g i" by auto
  from Cons.IH [OF _ d1(2)] Cons.prems(1) obtain d2 where
    d2: "returns (foldE f is d1) (Inr d2)" "ebitmap_ok d2" "ebitmap_bits d2 = ebitmap_bits d1 \<union> (\<Union>i\<in>set is. g i)" by auto
  have "returns (foldE f (i # is) d) (Inr d2)" using d1(1) d2(1) by (auto intro: returns_bindE_Inr)
  then show ?case using d1(3) d2(2,3) by (intro exI [of _ d2]) auto
qed simp

lemma set_bit_returns:
  assumes "ebitmap_ok d" "bit_settable b"
  shows "\<exists>d'. returns (failE (ebitmap_set_bit d b v) STATUS_ERR) (Inr d') \<and> ebitmap_ok d'
    \<and> ebitmap_bits d' = (if v then insert (unat b) (ebitmap_bits d) else ebitmap_bits d - {unat b})"
proof -
  from ebitmap_set_bit_spec [OF assms, of v] obtain d' where d': "yields (ebitmap_set_bit d b v) (Inr d')" "ebitmap_ok d'"
    "ebitmap_bits d' = (if v then insert (unat b) (ebitmap_bits d) else ebitmap_bits d - {unat b})" by blast
  then show ?thesis using returns_failE_Inr [OF returns_yields [OF d'(1)], of STATUS_ERR] by auto
qed

lemma union_returns:
  assumes "ebitmap_ok e1" "ebitmap_ok e2"
  shows "\<exists>d. returns (failE (ebitmap_union e1 e2) STATUS_ERR) (Inr d) \<and> ebitmap_ok d \<and> ebitmap_bits d = ebitmap_bits e1 \<union> ebitmap_bits e2"
proof -
  from ebitmap_or_spec [OF assms] obtain d where d: "yields (ebitmap_or e1 e2) (Inr d)" "ebitmap_ok d" "ebitmap_bits d = ebitmap_bits e1 \<union> ebitmap_bits e2" by blast
  have "returns (ebitmap_union e1 e2) (Inr d)"
    unfolding ebitmap_union_def by (rule returns_bindE_Inr [OF returns_failE_Inr [OF returns_yields [OF d(1)]]]) simp_all
  then show ?thesis using d(2,3) returns_failE_Inr [of "ebitmap_union e1 e2" d STATUS_ERR] by auto
qed

lemma expand_type_spec:
  assumes "types_ok p" "unat i < unat (nprim (p_types p))" "ebitmap_ok t" "type_val_to_struct p ! unat i = Some d0"
  shows "\<exists>t'. returns (expand_type p i t) (Inr t') \<and> ebitmap_ok t' \<and> ebitmap_bits t' = ebitmap_bits t \<union> members p (unat i)"
proof -
  note i = types_ok_nth [OF assms(1,2)]
  have b: "bit_settable i" using i(2) by (simp add: bit_settable_def)
  show ?thesis
  proof (cases "td_flavor d0 = TYPE_ATTRIB")
    case True
    then show ?thesis using union_returns [OF assms(3)] i(1) i(3) [OF assms(4)] assms(4) by (simp add: expand_type_def members_def)
  next
    case False
    then show ?thesis using set_bit_returns [OF assms(3) b, of True] i(1) assms(4) by (simp add: expand_type_def members_def)
  qed
qed

lemma expand_neg_spec:
  assumes "types_ok p" "unat i < unat (nprim (p_types p))" "ebitmap_ok t"
  shows "\<exists>t'. returns (expand_neg p i t) (Inr t') \<and> ebitmap_ok t' \<and> ebitmap_bits t' = ebitmap_bits t \<union> members p (unat i)"
proof (cases "type_val_to_struct p ! unat i")
  case (Some d)
  have "expand_neg p i t = expand_type p i t" using Some types_ok_nth(1) [OF assms(1,2)] by (simp add: expand_neg_def expand_type_def)
  then show ?thesis using expand_type_spec [OF assms Some] by simp
next
  case None
  have "bit_settable i" using types_ok_nth(2) [OF assms(1,2)] by (simp add: bit_settable_def)
  then show ?thesis using set_bit_returns [OF assms(3), of i True] types_ok_nth(1) [OF assms(1,2)] None by (simp add: expand_neg_def members_def)
qed

text \<open>A fold over the members of a bitmap.\<close>

lemma positive_fold:
  assumes "ebitmap_ok e"
    "\<And>i d. unat i \<in> ebitmap_bits e \<Longrightarrow> ebitmap_ok d \<Longrightarrow> \<exists>d'. returns (f i d) (Inr d') \<and> ebitmap_ok d' \<and> ebitmap_bits d' = ebitmap_bits d \<union> g (unat i)"
  shows "\<exists>d. returns (bindE (liftE (ebitmap_positive_bits e)) (\<lambda>is. foldE f is ebitmap_init)) (Inr d) \<and> ebitmap_ok d
    \<and> ebitmap_bits d = (\<Union>i\<in>ebitmap_bits e. g i)"
proof -
  from ebitmap_positive_bits_eq [OF assms(1)] obtain bs where bs: "ebitmap_positive_bits e = Inr bs" "unat ` set bs = ebitmap_bits e" by blast
  have "\<exists>d. returns (foldE f bs ebitmap_init) (Inr d) \<and> ebitmap_ok d \<and> ebitmap_bits d = ebitmap_bits ebitmap_init \<union> (\<Union>i\<in>set bs. g (unat i))"
  proof (rule foldE_adds)
    fix i d assume "i \<in> set bs" "ebitmap_ok d"
    then show "\<exists>d'. returns (f i d) (Inr d') \<and> ebitmap_ok d' \<and> ebitmap_bits d' = ebitmap_bits d \<union> g (unat i)"
      using assms(2) bs(2) by blast
  qed simp
  then show ?thesis using bs by (auto simp: bs(2) [symmetric])
qed

text \<open>A fold over all types that decides each bit anew.\<close>

lemma foldE_decides:
  assumes "\<And>i d. i < n \<Longrightarrow> ebitmap_ok d \<Longrightarrow> (i \<in> ebitmap_bits d \<longleftrightarrow> i \<in> ebitmap_bits d0) \<Longrightarrow>
      \<exists>d'. returns (f i d) (Inr d') \<and> ebitmap_ok d' \<and> ebitmap_bits d' = (if new i then insert i (ebitmap_bits d) else ebitmap_bits d - {i})"
    "ebitmap_ok d0"
  shows "\<exists>d. returns (foldE f [0..<n] d0) (Inr d) \<and> ebitmap_ok d \<and> ebitmap_bits d = (ebitmap_bits d0 - {..<n}) \<union> {i. i < n \<and> new i}"
  using assms
proof (induction n)
  case (Suc n)
  from Suc.IH Suc.prems obtain d where d: "returns (foldE f [0..<n] d0) (Inr d)" "ebitmap_ok d"
    "ebitmap_bits d = (ebitmap_bits d0 - {..<n}) \<union> {i. i < n \<and> new i}" by auto
  have "n \<in> ebitmap_bits d \<longleftrightarrow> n \<in> ebitmap_bits d0" using d(3) by auto
  from Suc.prems(1) [OF _ d(2) this] obtain d' where d': "returns (f n d) (Inr d')" "ebitmap_ok d'"
    "ebitmap_bits d' = (if new n then insert n (ebitmap_bits d) else ebitmap_bits d - {n})" by auto
  have "returns (foldE f [0..<Suc n] d0) (Inr d')"
    using d(1) d'(1) by (auto simp: foldE_append intro: returns_bindE_Inr)
  moreover have "ebitmap_bits d' = (ebitmap_bits d0 - {..<Suc n}) \<union> {i. i < Suc n \<and> new i}"
    unfolding d'(3) d(3) by (auto simp: less_Suc_eq)
  ultimately show ?case using d'(2) by blast
qed simp

lemma set_bit_nat:
  assumes "types_ok p" "i < unat (nprim (p_types p))" "ebitmap_ok d"
  shows "\<exists>d'. returns (failE (ebitmap_set_bit d (of_nat i) v) STATUS_ERR) (Inr d') \<and> ebitmap_ok d'
    \<and> ebitmap_bits d' = (if v then insert i (ebitmap_bits d) else ebitmap_bits d - {i})"
    and "ebitmap_get_bit d (of_nat i) \<longleftrightarrow> i \<in> ebitmap_bits d"
proof -
  have i: "unat (of_nat i :: u32) = i" using types_ok_nth(2) [OF assms(1,2)] by (simp add: unat_of_nat_u32)
  then have "bit_settable (of_nat i)" using types_ok_nth(2) [OF assms(1,2)] by (simp add: bit_settable_def)
  from set_bit_returns [OF assms(3) this, of v] i show "\<exists>d'. returns (failE (ebitmap_set_bit d (of_nat i) v) STATUS_ERR) (Inr d') \<and> ebitmap_ok d'
    \<and> ebitmap_bits d' = (if v then insert i (ebitmap_bits d) else ebitmap_bits d - {i})" by (simp only:)
  show "ebitmap_get_bit d (of_nat i) \<longleftrightarrow> i \<in> ebitmap_bits d" using ebitmap_get_bit_iff [OF assms(3)] i by simp
qed

lemma star_types_spec:
  assumes "types_ok p" "ebitmap_ok neg"
  shows "\<exists>t. returns (foldE (star_type p neg) [0..<unat (nprim (p_types p))] ebitmap_init) (Inr t) \<and> ebitmap_ok t
    \<and> ebitmap_bits t = {i. i < unat (nprim (p_types p)) \<and> \<not> attrib_at p i} - ebitmap_bits neg"
proof -
  let ?n = "unat (nprim (p_types p))" let ?new = "\<lambda>i. i \<notin> ebitmap_bits neg \<and> \<not> attrib_at p i"
  have "\<exists>t. returns (foldE (star_type p neg) [0..<?n] ebitmap_init) (Inr t) \<and> ebitmap_ok t
    \<and> ebitmap_bits t = (ebitmap_bits ebitmap_init - {..<?n}) \<union> {i. i < ?n \<and> ?new i}"
  proof (rule foldE_decides)
    fix i d assume i: "i < ?n" and d: "ebitmap_ok d" and same: "i \<in> ebitmap_bits d \<longleftrightarrow> i \<in> ebitmap_bits ebitmap_init"
    note b = set_bit_nat(1) [OF assms(1) i d, of True] set_bit_nat(2) [OF assms(1) i assms(2)] types_ok_nth(1) [OF assms(1) i]
    show "\<exists>d'. returns (star_type p neg i d) (Inr d') \<and> ebitmap_ok d' \<and> ebitmap_bits d' = (if ?new i then insert i (ebitmap_bits d) else ebitmap_bits d - {i})"
      using b same d by (auto simp: star_type_def attrib_at_def)
  qed simp
  then show ?thesis by auto
qed

lemma comp_types_spec:
  assumes "types_ok p" "ebitmap_ok t" "\<forall>i \<in> ebitmap_bits t. \<not> attrib_at p i"
  shows "\<exists>t'. returns (foldE (comp_type p) [0..<unat (nprim (p_types p))] t) (Inr t') \<and> ebitmap_ok t'
    \<and> ebitmap_bits t' = (ebitmap_bits t - {i. i < unat (nprim (p_types p)) \<and> \<not> attrib_at p i})
        \<union> ({i. i < unat (nprim (p_types p)) \<and> \<not> attrib_at p i} - ebitmap_bits t)"
proof -
  let ?n = "unat (nprim (p_types p))" let ?new = "\<lambda>i. i \<notin> ebitmap_bits t \<and> \<not> attrib_at p i"
  have "\<exists>t'. returns (foldE (comp_type p) [0..<?n] t) (Inr t') \<and> ebitmap_ok t' \<and> ebitmap_bits t' = (ebitmap_bits t - {..<?n}) \<union> {i. i < ?n \<and> ?new i}"
  proof (rule foldE_decides)
    fix i d assume i: "i < ?n" and d: "ebitmap_ok d" and same: "i \<in> ebitmap_bits d \<longleftrightarrow> i \<in> ebitmap_bits t"
    note b = set_bit_nat(1) [OF assms(1) i d, of "i \<notin> ebitmap_bits t"] set_bit_nat(2) [OF assms(1) i d] types_ok_nth(1) [OF assms(1) i]
    show "\<exists>d'. returns (comp_type p i d) (Inr d') \<and> ebitmap_ok d' \<and> ebitmap_bits d' = (if ?new i then insert i (ebitmap_bits d) else ebitmap_bits d - {i})"
    proof (cases "attrib_at p i")
      case True
      then have "i \<notin> ebitmap_bits d" using assms(3) same by blast
      then show ?thesis using b(2,3) d True by (intro exI [of _ d]) (simp add: comp_type_def attrib_at_def)
    next
      case False
      then show ?thesis using b same by (simp add: comp_type_def attrib_at_def)
    qed
  qed (rule assms(2))
  moreover have "(ebitmap_bits t - {..<?n}) \<union> {i. i < ?n \<and> ?new i} = (ebitmap_bits t - {i. i < ?n \<and> \<not> attrib_at p i}) \<union> ({i. i < ?n \<and> \<not> attrib_at p i} - ebitmap_bits t)"
    using assms(3) by auto
  ultimately show ?thesis by simp
qed

lemma expanded_types:
  assumes "types_ok p" "S \<subseteq> {..<unat (nprim (p_types p))}" "i \<in> expanded p S"
  shows "i < unat (nprim (p_types p)) \<and> \<not> attrib_at p i"
proof -
  from assms(3) obtain j where j: "j \<in> S" "i \<in> members p j" by (auto simp: expanded_def)
  then have n: "j < unat (nprim (p_types p))" using assms(2) by auto
  show ?thesis
  proof (cases "attrib_at p j")
    case True
    then obtain d where "type_val_to_struct p ! j = Some d" "td_flavor d = TYPE_ATTRIB" by (auto simp: attrib_at_def is_attrib_def split: option.splits)
    with types_ok_nth(3) [OF assms(1) n] j(2) show ?thesis by (auto simp: members_def)
  next
    case False
    then have "i = j" using j(2) by (auto simp: members_def attrib_at_def is_attrib_def split: option.splits if_splits)
    with n False show ?thesis by simp
  qed
qed

lemma type_set_expand_spec:
  assumes "types_ok p" "type_set_ok p s"
  shows "\<exists>t. returns (type_set_expand s p alwaysexpand) (Inr t) \<and> ebitmap_ok t \<and> ebitmap_bits t = type_set_denotes p s alwaysexpand"
proof -
  let ?T = "ebitmap_bits (ts_types s)" let ?N = "ebitmap_bits (ts_negset s)" let ?n = "unat (nprim (p_types p))"
  let ?m1 = "if expands s alwaysexpand then bindE (liftE (ebitmap_positive_bits (ts_types s))) (\<lambda>is. foldE (expand_type p) is ebitmap_init)
       else failE (ebitmap_cpy (ts_types s)) STATUS_ERR"
  let ?pos = "if expands s alwaysexpand then expanded p ?T else ?T"
  have sets: "ebitmap_ok (ts_types s)" "ebitmap_ok (ts_negset s)" "?T \<subseteq> {..<?n}" "?N \<subseteq> {..<?n}" using assms(2) by (auto simp: type_set_ok_def)
  have "\<exists>d. returns (bindE (liftE (ebitmap_positive_bits (ts_types s))) (\<lambda>is. foldE (expand_type p) is ebitmap_init)) (Inr d) \<and> ebitmap_ok d
      \<and> ebitmap_bits d = (\<Union>i\<in>?T. members p i)"
  proof (rule positive_fold [OF sets(1)])
    fix i :: u32 and d assume "unat i \<in> ?T" "ebitmap_ok d"
    then show "\<exists>d'. returns (expand_type p i d) (Inr d') \<and> ebitmap_ok d' \<and> ebitmap_bits d' = ebitmap_bits d \<union> members p (unat i)"
      using assms expand_type_spec [OF assms(1)] by (fastforce simp: type_set_ok_def)
  qed
  then obtain types where types: "returns ?m1 (Inr types)" "ebitmap_ok types" "ebitmap_bits types = ?pos"
    using returns_failE_Inr [OF returns_yields [OF ebitmap_cpy_yields [of "ts_types s"]], of STATUS_ERR] sets(1)
    by (cases "expands s alwaysexpand") (auto simp: expanded_def)
  have "\<exists>d. returns (bindE (liftE (ebitmap_positive_bits (ts_negset s))) (\<lambda>is. foldE (expand_neg p) is ebitmap_init)) (Inr d) \<and> ebitmap_ok d
      \<and> ebitmap_bits d = (\<Union>i\<in>?N. members p i)"
    using expand_neg_spec [OF assms(1)] sets(4) by (intro positive_fold [OF sets(2)]) auto
  then obtain neg where neg: "returns (bindE (liftE (ebitmap_positive_bits (ts_negset s))) (\<lambda>is. foldE (expand_neg p) is ebitmap_init)) (Inr neg)"
    "ebitmap_ok neg" "ebitmap_bits neg = expanded p ?N" by (auto simp: expanded_def)
  have settable: "bit_settable i" if "unat i \<in> ebitmap_bits types" for i :: u32
  proof -
    have "unat i < ?n" using that types(3) sets(3) expanded_types [OF assms(1) sets(3)] by (auto split: if_splits)
    then show ?thesis using types_ok_nth(2) [OF assms(1)] by (simp add: bit_settable_def)
  qed
  have "\<exists>t. returns (bindE (liftE (ebitmap_positive_bits types)) (\<lambda>is. foldE (keep_type neg) is ebitmap_init)) (Inr t) \<and> ebitmap_ok t
      \<and> ebitmap_bits t = (\<Union>i\<in>ebitmap_bits types. if i \<in> ebitmap_bits neg then {} else {i})"
  proof (rule positive_fold [OF types(2)])
    fix i :: u32 and d assume "unat i \<in> ebitmap_bits types" "ebitmap_ok d"
    then show "\<exists>d'. returns (keep_type neg i d) (Inr d') \<and> ebitmap_ok d' \<and> ebitmap_bits d' = ebitmap_bits d \<union> (if unat i \<in> ebitmap_bits neg then {} else {unat i})"
      using set_bit_returns [OF _ settable, of d i True] ebitmap_get_bit_iff [OF neg(2), of i] by (auto simp: keep_type_def)
  qed
  moreover have "(\<Union>i\<in>ebitmap_bits types. if i \<in> ebitmap_bits neg then {} else {i}) = ?pos - expanded p ?N"
    unfolding types(3) [symmetric] neg(3) [symmetric] by (auto split: if_splits)
  ultimately obtain t where t: "returns (bindE (liftE (ebitmap_positive_bits types)) (\<lambda>is. foldE (keep_type neg) is ebitmap_init)) (Inr t)" "ebitmap_ok t"
    "ebitmap_bits t = ?pos - expanded p ?N" by auto
  let ?all = "{i. i < ?n \<and> \<not> attrib_at p i}"
  note run = type_set_expand_def [of s p alwaysexpand]
  have done': ?thesis if "returns (if ts_flags s AND TYPE_STAR \<noteq> 0 then foldE (star_type p neg) [0..<?n] ebitmap_init
     else bindE (bindE (liftE (ebitmap_positive_bits types)) (\<lambda>is. foldE (keep_type neg) is ebitmap_init)) (\<lambda>t.
       if ts_flags s AND TYPE_COMP \<noteq> 0 then foldE (comp_type p) [0..<?n] t else returnE t)) (Inr r)"
     "ebitmap_ok r" "ebitmap_bits r = type_set_denotes p s alwaysexpand" for r
  proof -
    have "returns (type_set_expand s p alwaysexpand) (Inr r)"
      unfolding run by (rule returns_bindE_Inr [OF types(1)], rule returns_bindE_Inr [OF neg(1)], rule that(1))
    with that(2,3) show ?thesis by blast
  qed
  consider "ts_flags s AND TYPE_STAR \<noteq> 0" | "ts_flags s AND TYPE_STAR = 0" "ts_flags s AND TYPE_COMP \<noteq> 0"
    | "ts_flags s AND TYPE_STAR = 0" "ts_flags s AND TYPE_COMP = 0" by blast
  then show ?thesis
  proof cases
    case 1
    from star_types_spec [OF assms(1) neg(2)] obtain r where "returns (foldE (star_type p neg) [0..<?n] ebitmap_init) (Inr r)" "ebitmap_ok r"
      "ebitmap_bits r = ?all - ebitmap_bits neg" by blast
    then show ?thesis using 1 neg(3) by (intro done' [of r]) (simp_all add: type_set_denotes_def Let_def)
  next
    case 2
    then have ex: "expands s alwaysexpand" by (auto simp: expands_def)
    then have "\<forall>i \<in> ebitmap_bits t. \<not> attrib_at p i" using t(3) expanded_types [OF assms(1) sets(3)] by auto
    from comp_types_spec [OF assms(1) t(2) this] obtain r where r: "returns (foldE (comp_type p) [0..<?n] t) (Inr r)" "ebitmap_ok r"
      "ebitmap_bits r = (ebitmap_bits t - ?all) \<union> (?all - ebitmap_bits t)" by blast
    have "returns (bindE (bindE (liftE (ebitmap_positive_bits types)) (\<lambda>is. foldE (keep_type neg) is ebitmap_init)) (\<lambda>t. foldE (comp_type p) [0..<?n] t)) (Inr r)"
      by (rule returns_bindE_Inr [OF t(1)], rule r(1))
    then show ?thesis using 2 r(2,3) t(3) by (intro done' [of r]) (simp_all add: type_set_denotes_def Let_def)
  next
    case 3
    then show ?thesis using t by (intro done' [of t]) (simp_all add: type_set_denotes_def Let_def)
  qed
qed

section \<open>What a set of roles denotes\<close>

text \<open>Without flags and mapping the expansion is the set itself.\<close>

lemma role_set_expand_plain:
  assumes "ebitmap_ok (rs_roles x)" "rs_flags x = 0"
  shows "returns (role_set_expand x p None) (Inr (rs_roles x, p))"
proof -
  have cpy: "returns (failE (ebitmap_cpy (rs_roles x)) STATUS_ERR) (Inr (rs_roles x))"
    by (rule returns_failE_Inr [OF returns_yields [OF ebitmap_cpy_yields]]) simp
  have "\<exists>d. returns (bindE (liftE (ebitmap_positive_bits (rs_roles x))) (\<lambda>is. foldE (\<lambda>i r. failE (ebitmap_set_bit r i True) STATUS_ERR) is ebitmap_init)) (Inr d)
      \<and> ebitmap_ok d \<and> ebitmap_bits d = (\<Union>i\<in>ebitmap_bits (rs_roles x). {i})"
  proof (rule positive_fold [OF assms(1)])
    fix i :: u32 and d assume i: "unat i \<in> ebitmap_bits (rs_roles x)" and d: "ebitmap_ok d"
    have "unat i < 2 ^ 32 - 64" using ebitmap_bits_bound [OF assms(1) i] ebitmap_length_le [OF assms(1)] by (simp add: ebitmap_length_def)
    then show "\<exists>d'. returns (failE (ebitmap_set_bit d i True) STATUS_ERR) (Inr d') \<and> ebitmap_ok d' \<and> ebitmap_bits d' = ebitmap_bits d \<union> {unat i}"
      using set_bit_returns [OF d, of i True] by (simp add: bit_settable_def)
  qed
  then obtain d where d: "returns (bindE (liftE (ebitmap_positive_bits (rs_roles x))) (\<lambda>is. foldE (\<lambda>i r. failE (ebitmap_set_bit r i True) STATUS_ERR) is ebitmap_init)) (Inr d)"
    "ebitmap_ok d" "ebitmap_bits d = ebitmap_bits (rs_roles x)" by auto
  have "d = rs_roles x" by (rule ebitmap_ok_eqI [OF d(2) assms(1) d(3)])
  moreover have "returns (role_set_expand x p None) (Inr (d, p))"
    unfolding role_set_expand_def using assms(2) returns_bindE_Inr [OF cpy] returns_bindE_Inr [OF d(1), of "\<lambda>r. returnE (r, p)"]
    by (simp add: bindE_assoc)
  ultimately show ?thesis by simp
qed

text \<open>Expanding \<open>*\<close> fails in every policy with fewer than 64 roles: both sides of the comparison grow, so that the
  loop runs on until no further bit can be set.\<close>

lemma star_roles_fails:
  assumes "unat i + k = 2 ^ 32 - 64" "n = i + m" "m \<noteq> 0" "unat m < 64" "ebitmap_ok r"
  shows "\<exists>b. star_roles i n r a = (Inl STATUS_ERR, b)"
  using assms
proof (induction k arbitrary: i n r a)
  case 0
  then have "\<not> bit_settable i" by (simp add: bit_settable_def)
  moreover have "unat n = unat i + unat m" using 0 by (simp add: unat_word_ariths)
  then have "i < n" using 0 by (simp add: word_less_nat_alt unat_gt_0)
  ultimately show ?case using ebitmap_set_bit_einval by (subst star_roles.simps) (simp add: bindE_def failE_def)
next
  case (Suc k)
  have u: "unat n = unat i + unat m" "unat (i + 1) = unat i + 1" using Suc.prems by (simp_all add: unat_word_ariths)
  then have lt: "i < n" using Suc.prems(3) by (simp add: word_less_nat_alt unat_gt_0)
  have "bit_settable i" using Suc.prems(1) by (simp add: bit_settable_def)
  from ebitmap_set_bit_spec [OF Suc.prems(5) this, of True] obtain r' where
    r': "yields (ebitmap_set_bit r i True) (Inr r')" "ebitmap_ok r'" by blast
  have "unat (i + 1) + k = 2 ^ 32 - 64" "n + 1 = i + 1 + m" using Suc.prems(1,2) u(2) by simp_all
  note IH = Suc.IH [OF this Suc.prems(3,4) r'(2)]
  obtain q a' where q: "ebitmap_set_bit r i True a = (q, a')" by fastforce
  with r'(1) have "q = Inr r' \<or> q = Inl ENOMEM" by (metis fst_conv yields_def)
  then show ?case using lt q IH [of a'] by (subst star_roles.simps) (auto simp: bindE_def failE_def)
qed

lemma role_star_fails:
  assumes "rs_flags x AND ROLE_STAR \<noteq> 0" "nprim (p_roles p) \<noteq> 0" "unat (nprim (p_roles p)) < 64"
  shows "\<exists>b. role_set_expand x p rolemap a = (Inl STATUS_ERR, b)"
  using assms(1) star_roles_fails [of 0 "2 ^ 32 - 64" "nprim (p_roles p)" "nprim (p_roles p)" ebitmap_init a] assms(2,3)
  by (auto simp: role_set_expand_def bindE_def)

section \<open>Expansion as a specification\<close>

text \<open>Claim C26. Expanding a set of types gives, unless an allocation fails, a well-formed bitmap of the types the set denotes:
  attributes are replaced by their members when they are to be expanded, the negated types are removed, and the
  flags for all types and for the complement range over the types that are not attributes.\<close>

theorem type_set_expand_refines:
  assumes "types_ok p" "type_set_ok p s"
  shows "\<exists>t. returns (type_set_expand s p alwaysexpand) (Inr t) \<and> ebitmap_ok t \<and> ebitmap_bits t = type_set_denotes p s alwaysexpand"
  using assms by (rule type_set_expand_spec)

text \<open>Two types and an attribute of the first one; the set \<open>~ attribute\<close>.\<close>

definition expand_db :: policydb where
  "expand_db = policydb_zero\<lparr>p_types := symtab_of [] 3,
     type_val_to_struct := [Some (sample_type 1), Some (sample_type 2), Some \<lparr>td_value = 3, td_primary = 1, td_flavor = TYPE_ATTRIB, td_types = bits_of 1, td_flags = 0, td_bounds = 0\<rparr>]\<rparr>"

definition expand_set :: type_set where
  "expand_set = \<lparr>ts_types = bits_of 4, ts_negset = ebitmap_init, ts_flags = TYPE_COMP\<rparr>"

theorem type_set_expand_refines_witness:
  "types_ok expand_db \<and> type_set_ok expand_db expand_set
   \<and> (\<exists>t. returns (type_set_expand expand_set expand_db False) (Inr t) \<and> ebitmap_ok t \<and> ebitmap_bits t = {1})"
proof -
  have bits: "ebitmap_bits (bits_of w) = set (filter (bit w) [0..<64])" for w by (auto simp: bits_of_def ebitmap_bits_def node_has_def)
  have b: "ebitmap_bits (bits_of 1) = {0}" "ebitmap_bits (bits_of 4) = {2}" unfolding bits by code_simp+
  have ok: "types_ok expand_db" "type_set_ok expand_db expand_set"
    by (auto simp: types_ok_def type_set_ok_def expand_db_def expand_set_def b bits_of_ok attrib_at_def is_attrib_def sample_type_def)
  have "{i. i < unat (nprim (p_types expand_db)) \<and> \<not> attrib_at expand_db i} = set (filter (\<lambda>i. \<not> attrib_at expand_db i) [0..<3])"
    by (auto simp: expand_db_def)
  also have "\<dots> = {0, 1}" by (simp add: upt_rec expand_db_def attrib_at_def is_attrib_def sample_type_def)
  finally have all: "{i. i < unat (nprim (p_types expand_db)) \<and> \<not> attrib_at expand_db i} = {0, 1}" .
  have "expanded expand_db {2} = {0}" "expanded expand_db {} = {}" by (simp_all add: expanded_def members_def expand_db_def b)
  then have "type_set_denotes expand_db expand_set False = {1}"
    unfolding type_set_denotes_def all by (simp add: expand_set_def expands_def b Let_def)
  with ok type_set_expand_refines [OF ok, of False] show ?thesis by auto
qed

end
