(* ===== verification/Policydb_Index.thy ===== *)
theory Policydb_Index
  imports Expand_Sets Contexts Conditional Sidtab
begin

text \<open>
  Indexing a policy database (policydb.c): the tables from values to names and structures, the expanded
  sets of roles and users, and the initial SIDs. The structures of roles and users are shared between the symbol
  tables and the value tables; storing into one stores into both. A slot of a value table that has not been
  written is \<open>None\<close>, whether the array was cleared or not; that every slot is written is part of what is
  proved. The policies are kernel policies: the semantic ranges of users are not expanded.
\<close>

section \<open>Value tables\<close>

definition val_set :: "'a option list \<Rightarrow> u32 \<Rightarrow> 'a \<Rightarrow> 'a option list res" where
  "val_set t v x = (let i = unat (v - 1) in if i < length t then Inr (t[i := Some x]) else Inl Fault)"

definition common_index :: "string \<Rightarrow> common_datum \<Rightarrow> policydb \<Rightarrow> policydb alloc_m" where
  "common_index key d p =
     (if cmd_value d = 0 \<or> cmd_value d > nprim (p_commons p) then throwE EINVAL
      else bindE (liftE (val_set (p_common_val_to_name p) (cmd_value d) key)) (\<lambda>t. returnE (p\<lparr>p_common_val_to_name := t\<rparr>)))"

definition class_index :: "string \<Rightarrow> class_datum \<Rightarrow> policydb \<Rightarrow> policydb alloc_m" where
  "class_index key d p =
     (if cd_value d = 0 \<or> cd_value d > nprim (p_classes p) then throwE EINVAL
      else bindE (liftE (val_set (p_class_val_to_name p) (cd_value d) key)) (\<lambda>t.
        bindE (liftE (val_set (class_val_to_struct p) (cd_value d) d)) (\<lambda>s.
          returnE (p\<lparr>p_class_val_to_name := t, class_val_to_struct := s\<rparr>))))"

definition role_index :: "string \<Rightarrow> role_datum \<Rightarrow> policydb \<Rightarrow> policydb alloc_m" where
  "role_index key d p =
     (if rd_value d = 0 \<or> rd_value d > nprim (p_roles p) then throwE EINVAL
      else bindE (liftE (val_set (p_role_val_to_name p) (rd_value d) key)) (\<lambda>t.
        bindE (liftE (val_set (role_val_to_struct p) (rd_value d) d)) (\<lambda>s.
          returnE (p\<lparr>p_role_val_to_name := t, role_val_to_struct := s\<rparr>))))"

definition type_index :: "string \<Rightarrow> type_datum \<Rightarrow> policydb \<Rightarrow> policydb alloc_m" where
  "type_index key d p =
     (if td_primary d = 0 then returnE p
      else if td_value d = 0 \<or> td_value d > nprim (p_types p) then throwE EINVAL
      else bindE (liftE (val_set (p_type_val_to_name p) (td_value d) key)) (\<lambda>t.
        bindE (liftE (val_set (type_val_to_struct p) (td_value d) d)) (\<lambda>s.
          returnE (p\<lparr>p_type_val_to_name := t, type_val_to_struct := s\<rparr>))))"

definition user_index :: "string \<Rightarrow> user_datum \<Rightarrow> policydb \<Rightarrow> policydb alloc_m" where
  "user_index key d p =
     (if ud_value d = 0 \<or> ud_value d > nprim (p_users p) then throwE EINVAL
      else bindE (liftE (val_set (p_user_val_to_name p) (ud_value d) key)) (\<lambda>t.
        bindE (liftE (val_set (user_val_to_struct p) (ud_value d) d)) (\<lambda>s.
          returnE (p\<lparr>p_user_val_to_name := t, user_val_to_struct := s\<rparr>))))"

definition sens_index :: "string \<Rightarrow> level_datum \<Rightarrow> policydb \<Rightarrow> policydb alloc_m" where
  "sens_index key d p =
     (if ld_isalias d \<noteq> 0 then returnE p
      else if sens (ld_level d) = 0 \<or> sens (ld_level d) > nprim (p_levels p) then throwE EINVAL
      else bindE (liftE (val_set (p_sens_val_to_name p) (sens (ld_level d)) key)) (\<lambda>t. returnE (p\<lparr>p_sens_val_to_name := t\<rparr>)))"

definition cat_index :: "string \<Rightarrow> cat_datum \<Rightarrow> policydb \<Rightarrow> policydb alloc_m" where
  "cat_index key d p =
     (if catd_isalias d \<noteq> 0 then returnE p
      else if catd_value d = 0 \<or> catd_value d > nprim (p_cats p) then throwE EINVAL
      else bindE (liftE (val_set (p_cat_val_to_name p) (catd_value d) key)) (\<lambda>t. returnE (p\<lparr>p_cat_val_to_name := t\<rparr>)))"

text \<open>The Booleans are indexed by conditional.c.\<close>

definition bool_index :: "string \<Rightarrow> cond_bool_datum \<Rightarrow> policydb \<Rightarrow> policydb alloc_m" where
  "bool_index key d p = liftE (cond_index_bool key d p)"

definition policydb_index_classes :: "policydb \<Rightarrow> policydb alloc_m" where
  "policydb_index_classes p =
     bindE (failE malloc STATUS_ERR) (\<lambda>_. let p1 = p\<lparr>p_common_val_to_name := replicate (unat (nprim (p_commons p))) None\<rparr> in
     bindE (failE (hashtab_map (table (p_commons p1)) common_index p1) STATUS_ERR) (\<lambda>p2.
     bindE (failE malloc STATUS_ERR) (\<lambda>_. let p3 = p2\<lparr>class_val_to_struct := replicate (unat (nprim (p_classes p2))) None\<rparr> in
     bindE (failE malloc STATUS_ERR) (\<lambda>_. let p4 = p3\<lparr>p_class_val_to_name := replicate (unat (nprim (p_classes p3))) None\<rparr> in
       failE (hashtab_map (table (p_classes p4)) class_index p4) STATUS_ERR))))"

definition policydb_index_bools :: "policydb \<Rightarrow> policydb alloc_m" where
  "policydb_index_bools p =
     bindE (cond_init_bool_indexes p) (\<lambda>p1.
     bindE (failE malloc STATUS_ERR) (\<lambda>_. let p2 = p1\<lparr>p_bool_val_to_name := replicate (unat (nprim (p_bools p1))) None\<rparr> in
       failE (hashtab_map (table (p_bools p2)) bool_index p2) STATUS_ERR))"

text \<open>One round of the loop over the symbol tables.\<close>

definition index_table ::
  "'d symtab \<Rightarrow> (string option list \<Rightarrow> policydb \<Rightarrow> policydb) \<Rightarrow> (string \<Rightarrow> 'd \<Rightarrow> policydb \<Rightarrow> policydb alloc_m) \<Rightarrow> policydb \<Rightarrow> policydb alloc_m"
where
  "index_table s set_names idx p =
     (if nprim s \<noteq> 0 then bindE (failE malloc STATUS_ERR) (\<lambda>_.
        failE (hashtab_map (table s) idx (set_names (replicate (unat (nprim s)) None) p)) STATUS_ERR)
      else returnE (set_names [] p))"

section \<open>Expanded sets\<close>

text \<open>Writing through the pointer to a datum.\<close>

definition hashtab_store :: "('k, 'd) hashtab_t \<Rightarrow> 'k \<Rightarrow> 'd \<Rightarrow> ('k, 'd) hashtab_t" where
  "hashtab_store hp k d = map_option (\<lambda>h. h\<lparr>htable := map (map (\<lambda>x. if fst x = k then (k, d) else x)) (htable h)\<rparr>) hp"

definition struct_store :: "string option list \<Rightarrow> 'd option list \<Rightarrow> u32 \<Rightarrow> string \<Rightarrow> 'd \<Rightarrow> 'd option list" where
  "struct_store names t v key d = (let i = unat (v - 1) in
     if i < length names \<and> names ! i = Some key then t[i := Some d] else t)"

definition policydb_role_cache :: "string \<Rightarrow> role_datum \<Rightarrow> policydb \<Rightarrow> policydb alloc_m" where
  "policydb_role_cache key role p = bindE (failE (type_set_expand (rd_types role) p True) STATUS_ERR) (\<lambda>cache.
     let role' = role\<lparr>rd_cache := cache\<rparr> in
     returnE (p\<lparr>p_roles := (p_roles p)\<lparr>table := hashtab_store (table (p_roles p)) key role'\<rparr>,
       role_val_to_struct := struct_store (p_role_val_to_name p) (role_val_to_struct p) (rd_value role) key role'\<rparr>))"

definition policydb_user_cache :: "string \<Rightarrow> user_datum \<Rightarrow> policydb \<Rightarrow> policydb alloc_m" where
  "policydb_user_cache key user p = bindE (failE (role_set_expand (ud_roles user) p None) STATUS_ERR) (\<lambda>(cache, p').
     let user' = user\<lparr>ud_cache := cache\<rparr> in
     returnE (p'\<lparr>p_users := (p_users p')\<lparr>table := hashtab_store (table (p_users p')) key user'\<rparr>,
       user_val_to_struct := struct_store (p_user_val_to_name p') (user_val_to_struct p') (ud_value user) key user'\<rparr>))"

section \<open>The whole database\<close>

text \<open>The result of \<open>cond_init_bool_indexes\<close> is ignored; it has freed the old array.\<close>

definition init_bool_indexes :: "policydb \<Rightarrow> policydb alloc_m" where
  "init_bool_indexes p = bindE (tryE (cond_init_bool_indexes p)) (\<lambda>r. case r of
     Inr p' \<Rightarrow> returnE p' | Inl _ \<Rightarrow> returnE (p\<lparr>bool_val_to_struct := []\<rparr>))"

definition policydb_index_others :: "policydb \<Rightarrow> policydb alloc_m" where
  "policydb_index_others p =
     bindE (failE malloc STATUS_ERR) (\<lambda>_. bindE (failE malloc STATUS_ERR) (\<lambda>_. bindE (failE malloc STATUS_ERR) (\<lambda>_.
     let p1 = p\<lparr>role_val_to_struct := replicate (unat (nprim (p_roles p))) None,
                user_val_to_struct := replicate (unat (nprim (p_users p))) None,
                type_val_to_struct := replicate (unat (nprim (p_types p))) None\<rparr> in
     bindE (init_bool_indexes p1) (\<lambda>p2.
     bindE (index_table (p_roles p2) (\<lambda>t p. p\<lparr>p_role_val_to_name := t\<rparr>) role_index p2) (\<lambda>p3.
     bindE (index_table (p_types p3) (\<lambda>t p. p\<lparr>p_type_val_to_name := t\<rparr>) type_index p3) (\<lambda>p4.
     bindE (index_table (p_users p4) (\<lambda>t p. p\<lparr>p_user_val_to_name := t\<rparr>) user_index p4) (\<lambda>p5.
     bindE (index_table (p_bools p5) (\<lambda>t p. p\<lparr>p_bool_val_to_name := t\<rparr>) bool_index p5) (\<lambda>p6.
     bindE (index_table (p_levels p6) (\<lambda>t p. p\<lparr>p_sens_val_to_name := t\<rparr>) sens_index p6) (\<lambda>p7.
     bindE (index_table (p_cats p7) (\<lambda>t p. p\<lparr>p_cat_val_to_name := t\<rparr>) cat_index p7) (\<lambda>p8.
     bindE (failE (hashtab_map (table (p_roles p8)) policydb_role_cache p8) STATUS_ERR) (\<lambda>p9.
       failE (hashtab_map (table (p_users p9)) policydb_user_cache p9) STATUS_ERR)))))))))))"

definition policydb_reindex_users :: "policydb \<Rightarrow> policydb alloc_m" where
  "policydb_reindex_users p =
     bindE (failE malloc STATUS_ERR) (\<lambda>_. bindE (failE malloc STATUS_ERR) (\<lambda>_.
     let p1 = p\<lparr>user_val_to_struct := replicate (unat (nprim (p_users p))) None,
                p_user_val_to_name := replicate (unat (nprim (p_users p))) None\<rparr> in
     bindE (failE (hashtab_map (table (p_users p1)) user_index p1) STATUS_ERR) (\<lambda>p2.
       failE (hashtab_map (table (p_users p2)) policydb_user_cache p2) STATUS_ERR)))"

text \<open>One round of the loop over the initial SIDs.\<close>

definition load_isid :: "ocontext \<Rightarrow> sidtab \<Rightarrow> sidtab alloc_m" where
  "load_isid c s = (if c_user (fst (oc_context c)) = 0 then throwE STATUS_ERR
     else failE (sepol_sidtab_insert s (fst (oc_sid c)) (fst (oc_context c))) STATUS_ERR)"

definition policydb_load_isids :: "policydb \<Rightarrow> sidtab alloc_m" where
  "policydb_load_isids p = bindE (failE sepol_sidtab_init STATUS_ERR) (foldE load_isid (oc_isid p))"

section \<open>Entries of a table\<close>

lemma hashtab_store_spec:
  assumes "hashtab_ok hp"
  shows "hashtab_ok (hashtab_store hp k d)"
    "hashtab_abs (hashtab_store hp k d) = (\<lambda>x. if x = k \<and> hashtab_abs hp k \<noteq> None then Some d else hashtab_abs hp x)"
proof -
  from assms obtain h where h: "hp = Some h" "ht_funs_ok h" "ht_buckets_ok h" "ht_nel h = of_nat (length (ht_entries h))" by (auto simp: hashtab_ok_def)
  let ?f = "\<lambda>x. if fst x = k then (k, d) else x"
  let ?h = "h\<lparr>htable := map (map ?f) (htable h)\<rparr>"
  have fst': "fst (?f x) = fst x" for x :: "'a \<times> 'b" by simp
  have slot: "ht_slot ?h = ht_slot h" by (simp add: ht_slot_def fun_eq_iff)
  have keys: "fst ` set (map ?f c) = fst ` set c" for c :: "('a \<times> 'b) list"
    unfolding set_map image_image fst' ..
  have "chain_sorted (ht_after h) (map ?f c)" if "chain_sorted (ht_after h) c" for c
    using that unfolding chain_sorted_def sorted_wrt_map fst' .
  moreover have "\<forall>k' \<in> fst ` set (htable ?h ! i). ht_slot h k' = i" if "i < length (htable h)" for i
  proof -
    have "fst ` set (htable ?h ! i) = fst ` set (htable h ! i)" using that keys [of "htable h ! i"] by simp
    moreover have "\<forall>k' \<in> fst ` set (htable h ! i). ht_slot h k' = i" using h(3) that by (simp add: ht_buckets_ok_def)
    ultimately show ?thesis by (simp only:)
  qed
  ultimately have "ht_buckets_ok ?h" using h(3) unfolding ht_buckets_ok_def slot by simp
  moreover have "ht_funs_ok ?h" using h(2) unfolding ht_funs_ok_def slot by simp
  moreover have "length (ht_entries ?h) = length (ht_entries h)" by (simp add: ht_entries_def length_concat o_def)
  ultimately show "hashtab_ok (hashtab_store hp k d)" using h(1,4) by (simp add: hashtab_ok_def hashtab_store_def)
  have m: "map_of (map ?f c) x = (if x = k \<and> map_of c k \<noteq> None then Some d else map_of c x)" for c x
    by (induction c) auto
  show "hashtab_abs (hashtab_store hp k d) = (\<lambda>x. if x = k \<and> hashtab_abs hp k \<noteq> None then Some d else hashtab_abs hp x)"
    using ht_index_slot(2) [OF h(2,3)] by (auto simp: fun_eq_iff hashtab_abs_def hashtab_store_def h(1) slot m)
qed

section \<open>The index functions\<close>

text \<open>Names (and structures, where there are any) stand at the value of their symbol.\<close>

definition indexes :: "('d \<Rightarrow> bool) \<Rightarrow> ('d \<Rightarrow> u32) \<Rightarrow> (string \<times> 'd) set \<Rightarrow> string option list \<Rightarrow> 'd option list \<Rightarrow> bool" where
  "indexes indexed val E n s \<longleftrightarrow> (\<forall>i < length n.
     (\<forall>k. n ! i = Some k \<longrightarrow> (\<exists>d. (k, d) \<in> E \<and> indexed d \<and> unat (val d) = Suc i \<and> (s \<noteq> [] \<longrightarrow> s ! i = Some d)))
     \<and> (n ! i = None \<longrightarrow> (\<forall>(k, d) \<in> E. indexed d \<longrightarrow> unat (val d) \<noteq> Suc i)))"

text \<open>The values of the symbols are the numbers from 1 to \<open>n\<close>.\<close>

definition in_range :: "('d \<Rightarrow> bool) \<Rightarrow> ('d \<Rightarrow> u32) \<Rightarrow> u32 \<Rightarrow> 'd \<Rightarrow> bool" where
  "in_range indexed val n d \<longleftrightarrow> (indexed d \<longrightarrow> val d \<noteq> 0 \<and> val d \<le> n)"

definition covers :: "('d \<Rightarrow> bool) \<Rightarrow> ('d \<Rightarrow> u32) \<Rightarrow> u32 \<Rightarrow> (string \<Rightarrow> 'd option) \<Rightarrow> bool" where
  "covers indexed val n M \<longleftrightarrow> (\<forall>k d. M k = Some d \<longrightarrow> in_range indexed val n d)
     \<and> (\<forall>i < unat n. \<exists>k d. M k = Some d \<and> indexed d \<and> unat (val d) = Suc i)"

text \<open>A symbol of an indexed table has a value out of range.\<close>

definition bad_symbol :: "('d \<Rightarrow> bool) \<Rightarrow> ('d \<Rightarrow> u32) \<Rightarrow> 'd symtab \<Rightarrow> bool" where
  "bad_symbol indexed val s \<longleftrightarrow> nprim s \<noteq> 0 \<and> (\<exists>k d. hashtab_abs (table s) k = Some d \<and> \<not> in_range indexed val (nprim s) d)"

text \<open>An operation that refuses when \<open>bad\<close> holds and otherwise updates two value tables.\<close>

definition decides :: "bool \<Rightarrow> policydb alloc_m \<Rightarrow> ('a \<Rightarrow> 'b \<Rightarrow> policydb) \<Rightarrow> bool" where
  "decides bad m x \<longleftrightarrow> (if bad then m [] = (Inl STATUS_ERR, []) else \<exists>n s. m [] = (Inr (x n s), []))"

lemma indexes_insert:
  assumes "indexes indexed val E n s" "indexed d" "unat (val d) = Suc i" "i < length n" "s = [] \<or> length s = length n"
  shows "indexes indexed val (insert (k, d) E) (n[i := Some k]) (s[i := Some d])"
  unfolding indexes_def
proof (intro allI impI)
  fix j assume "j < length (n[i := Some k])"
  then show "(\<forall>k'. n[i := Some k] ! j = Some k' \<longrightarrow> (\<exists>d'. (k', d') \<in> insert (k, d) E \<and> indexed d' \<and> unat (val d') = Suc j \<and> (s[i := Some d] \<noteq> [] \<longrightarrow> s[i := Some d] ! j = Some d')))
     \<and> (n[i := Some k] ! j = None \<longrightarrow> (\<forall>(k', d') \<in> insert (k, d) E. indexed d' \<longrightarrow> unat (val d') \<noteq> Suc j))"
    using assms unfolding indexes_def by (cases "j = i") (fastforce, auto, blast+)
qed

lemma indexes_skip: "indexes indexed val E n s \<Longrightarrow> \<not> indexed d \<Longrightarrow> indexes indexed val (insert (k, d) E) n s"
  unfolding indexes_def by fastforce

lemma indexes_total:
  assumes "indexes indexed val {(k, d). M k = Some d} n s" "covers indexed val b M" "length n = unat b" "s = [] \<or> length s = length n"
  shows "val_total n b" "s \<noteq> [] \<Longrightarrow> val_total s b"
proof -
  have some: "\<exists>k. n ! i = Some k" if i: "i < length n" for i
  proof (rule ccontr)
    assume "\<nexists>k. n ! i = Some k"
    then have "n ! i = None" by auto
    with assms(1) i have "\<forall>(k, d) \<in> {(k, d). M k = Some d}. indexed d \<longrightarrow> unat (val d) \<noteq> Suc i" by (simp add: indexes_def)
    with assms(2,3) i show False by (auto simp: covers_def)
  qed
  then show "val_total n b" using assms(3) by (auto simp: val_total_def in_set_conv_nth)
  have "s ! i \<noteq> None" if "i < length n" "s \<noteq> []" for i
    using some [OF that(1)] assms(1) that unfolding indexes_def by (metis option.distinct(1))
  then show "s \<noteq> [] \<Longrightarrow> val_total s b" using assms(3,4) by (auto simp: val_total_def in_set_conv_nth)
qed

text \<open>A callback that indexes the symbols of one table. \<open>upd\<close> replaces both value tables; a table without
  structures has the empty list.\<close>

locale symbol_index =
  fixes idx :: "string \<Rightarrow> 'd \<Rightarrow> policydb \<Rightarrow> policydb alloc_m"
    and val :: "'d \<Rightarrow> u32"
    and indexed :: "'d \<Rightarrow> bool"
    and bound :: "policydb \<Rightarrow> u32"
    and names :: "policydb \<Rightarrow> string option list"
    and structs :: "policydb \<Rightarrow> 'd option list"
    and upd :: "string option list \<Rightarrow> 'd option list \<Rightarrow> policydb \<Rightarrow> policydb"
    and has_structs :: bool
  assumes idx_run: "length (names p) = unat (bound p) \<Longrightarrow> length (structs p) = (if has_structs then unat (bound p) else 0) \<Longrightarrow>
      idx k d p = (if \<not> indexed d then returnE p else if \<not> (val d \<noteq> 0 \<and> val d \<le> bound p) then throwE EINVAL
        else returnE (upd ((names p)[unat (val d) - 1 := Some k]) ((structs p)[unat (val d) - 1 := Some d]) p))"
    and names_upd: "names (upd n s p) = n"
    and structs_upd: "length s = length (structs p) \<Longrightarrow> structs (upd n s p) = s"
    and bound_upd: "bound (upd n s p) = bound p"
    and upd_upd: "upd n s (upd n' s' p) = upd n s p"
    and upd_same: "upd (names p) (structs p) p = p"
begin

definition ready :: "policydb \<Rightarrow> bool" where
  "ready p \<longleftrightarrow> length (names p) = unat (bound p) \<and> length (structs p) = (if has_structs then unat (bound p) else 0)"

lemma index_entries:
  assumes "ready p" "indexes indexed val E (names p) (structs p)" "\<forall>(k, d) \<in> set xs. in_range indexed val (bound p) d"
  shows "\<exists>n s. foldE (\<lambda>(k, d). idx k d) xs p = returnE (upd n s p) \<and> length n = unat (bound p)
    \<and> length s = length (structs p) \<and> indexes indexed val (E \<union> set xs) n s"
  using assms
proof (induction xs arbitrary: p E)
  case Nil
  then show ?case by (intro exI [of _ "names p"] exI [of _ "structs p"]) (simp add: upd_same ready_def)
next
  case (Cons x xs)
  obtain k d where x: "x = (k, d)" by (cases x)
  have len: "length (names p) = unat (bound p)" "length (structs p) = (if has_structs then unat (bound p) else 0)" using Cons.prems(1) by (simp_all add: ready_def)
  show ?case
  proof (cases "indexed d")
    case False
    have "idx k d p = returnE p" using idx_run [OF len] False by simp
    moreover have "indexes indexed val (insert (k, d) E) (names p) (structs p)" using Cons.prems(2) False by (rule indexes_skip)
    ultimately show ?thesis using Cons.IH [of p "insert (k, d) E"] Cons.prems(1,3) by (simp add: x)
  next
    case True
    then have r: "val d \<noteq> 0" "val d \<le> bound p" using Cons.prems(3) by (simp_all add: x in_range_def)
    define i where "i = unat (val d) - 1"
    have i: "unat (val d) = Suc i" "i < length (names p)"
      using len(1) r unat_gt_0 [of "val d"] by (auto simp: word_le_nat_alt i_def)
    let ?n = "(names p)[i := Some k]" let ?s = "(structs p)[i := Some d]"
    let ?p = "upd ?n ?s p"
    have run: "idx k d p = returnE ?p" using idx_run [OF len] True r by (simp add: i_def)
    have s: "names ?p = ?n" "structs ?p = ?s" "bound ?p = bound p" by (simp_all add: names_upd structs_upd bound_upd)
    have "structs p = [] \<or> length (structs p) = length (names p)" using len by (cases has_structs) simp_all
    from indexes_insert [where k = k, OF Cons.prems(2) True i this] have "indexes indexed val (insert (k, d) E) (names ?p) (structs ?p)" by (simp only: s)
    moreover have "ready ?p" unfolding ready_def s using len by simp
    moreover have "\<forall>(k, d) \<in> set xs. in_range indexed val (bound ?p) d" unfolding s using Cons.prems(3) by simp
    ultimately obtain n' s' where "foldE (\<lambda>(k, d). idx k d) xs ?p = returnE (upd n' s' ?p)" "length n' = unat (bound p)"
      "length s' = length (structs p)" "indexes indexed val (insert (k, d) E \<union> set xs) n' s'"
      using Cons.IH [of ?p "insert (k, d) E"] by (auto simp: s)
    then show ?thesis using run by (intro exI [of _ n'] exI [of _ s']) (simp add: x upd_upd)
  qed
qed

lemma index_refuses:
  assumes "ready p" "\<not> (\<forall>(k, d) \<in> set xs. in_range indexed val (bound p) d)"
  shows "foldE (\<lambda>(k, d). idx k d) xs p = throwE EINVAL"
  using assms
proof (induction xs arbitrary: p)
  case (Cons x xs)
  obtain k d where x: "x = (k, d)" by (cases x)
  have len: "length (names p) = unat (bound p)" "length (structs p) = (if has_structs then unat (bound p) else 0)" using Cons.prems(1) by (simp_all add: ready_def)
  show ?case
  proof (cases "in_range indexed val (bound p) d")
    case False
    then show ?thesis using idx_run [OF len, of k d] by (simp add: x in_range_def)
  next
    case True
    define i where "i = unat (val d) - 1"
    let ?p = "upd ((names p)[i := Some k]) ((structs p)[i := Some d]) p"
    have "ready ?p" "bound ?p = bound p" using len by (simp_all add: ready_def names_upd structs_upd bound_upd)
    moreover have "idx k d p = returnE (if indexed d then ?p else p)" using idx_run [OF len, of k d] True by (simp add: in_range_def i_def)
    ultimately show ?thesis using Cons.IH [of "if indexed d then ?p else p"] Cons.prems True by (auto simp: x)
  qed
qed simp

text \<open>Indexing a whole table into cleared arrays.\<close>

lemma index_map:
  assumes "hashtab_ok t" "names p = replicate (unat (bound p)) None" "structs p = replicate (if has_structs then unat (bound p) else 0) None"
  shows "(\<forall>k d. hashtab_abs t k = Some d \<longrightarrow> in_range indexed val (bound p) d) \<Longrightarrow>
      \<exists>n s. hashtab_map t idx p = returnE (upd n s p) \<and> length n = unat (bound p) \<and> length s = length (structs p)
        \<and> indexes indexed val {(k, d). hashtab_abs t k = Some d} n s"
    and "\<not> (\<forall>k d. hashtab_abs t k = Some d \<longrightarrow> in_range indexed val (bound p) d) \<Longrightarrow> hashtab_map t idx p = throwE EINVAL"
proof -
  from assms(1) obtain h where h: "t = Some h" by (auto simp: hashtab_ok_def)
  have run: "hashtab_map t idx p = foldE (\<lambda>(k, d). idx k d) (ht_entries h) p" using assms(1) unfolding h by (rule hashtab_map_entries)
  have E: "set (ht_entries h) = {(k, d). hashtab_abs t k = Some d}" using ht_entries_abs [of h] assms(1) by (auto simp: h)
  have ready: "ready p" using assms(2,3) by (simp add: ready_def)
  have "indexes indexed val {} (names p) (structs p)" using assms(2) by (simp add: indexes_def)
  from index_entries [OF ready this, of "ht_entries h"] show "\<exists>n s. hashtab_map t idx p = returnE (upd n s p) \<and> length n = unat (bound p) \<and> length s = length (structs p)
        \<and> indexes indexed val {(k, d). hashtab_abs t k = Some d} n s" if "\<forall>k d. hashtab_abs t k = Some d \<longrightarrow> in_range indexed val (bound p) d"
    using that unfolding run E by auto
  show "hashtab_map t idx p = throwE EINVAL" if "\<not> (\<forall>k d. hashtab_abs t k = Some d \<longrightarrow> in_range indexed val (bound p) d)"
    unfolding run by (rule index_refuses [OF ready]) (use that in \<open>auto simp: E\<close>)
qed

lemma index_table_run:
  assumes "hashtab_ok (table s)" "nprim s = bound p" "structs p = replicate (if has_structs then unat (bound p) else 0) None"
    "\<And>t p. set_names t p = upd t (structs p) p" "covers indexed val (bound p) (hashtab_abs (table s))"
  shows "\<exists>n st. returns (index_table s set_names idx p) (Inr (upd n st p)) \<and> val_total n (bound p) \<and> (has_structs \<longrightarrow> val_total st (bound p))
    \<and> indexes indexed val {(k, d). hashtab_abs (table s) k = Some d} n st"
proof (cases "nprim s = 0")
  case True
  then have "index_table s set_names idx p = returnE (upd [] (structs p) p)" by (simp add: index_table_def assms(4))
  then show ?thesis using True assms(2,3) by (intro exI [of _ "[]"] exI [of _ "structs p"]) (simp add: val_total_def indexes_def)
next
  case False
  let ?p = "upd (replicate (unat (bound p)) None) (structs p) p"
  have q: "names ?p = replicate (unat (bound ?p)) None" "structs ?p = replicate (if has_structs then unat (bound ?p) else 0) None" "structs ?p = structs p" "bound ?p = bound p"
    using assms(3) by (simp_all add: names_upd structs_upd bound_upd)
  from index_map(1) [OF assms(1) q(1,2)] assms(5) obtain n st where ns: "hashtab_map (table s) idx ?p = returnE (upd n st ?p)" "length n = unat (bound p)"
    "length st = length (structs p)" "indexes indexed val {(k, d). hashtab_abs (table s) k = Some d} n st" by (auto simp: q(3,4) covers_def)
  have "returns (failE malloc STATUS_ERR) (Inr ())" by (rule returns_failE_Inr [OF returns_yields [OF yields_malloc]]) simp
  moreover have "returns (failE (hashtab_map (table s) idx ?p) STATUS_ERR) (Inr (upd n st p))" by (rule returns_failE_Inr) (simp_all add: ns(1) upd_upd)
  ultimately have "returns (index_table s set_names idx p) (Inr (upd n st p))"
    unfolding index_table_def using False by (auto simp: assms(2,4) intro: returns_bindE_Inr)
  moreover have "st = [] \<or> length st = length n" using ns(2,3) assms(3) by (cases has_structs) simp_all
  then have "val_total n (bound p)" "has_structs \<Longrightarrow> val_total st (bound p)"
    using indexes_total [OF ns(4) assms(5) ns(2)] ns(3) assms(3) by (cases "st = []"; simp add: val_total_def)+
  ultimately show ?thesis using ns(4) by blast
qed

text \<open>A symbol whose value is out of range is refused.\<close>

lemma index_table_step:
  assumes "hashtab_ok (table s)" "nprim s = bound p" "structs p = replicate (if has_structs then unat (bound p) else 0) None"
    "\<And>t p. set_names t p = upd t (structs p) p"
  shows "decides (bad_symbol indexed val s) (index_table s set_names idx p) (\<lambda>n st. upd n st p)"
proof (cases "nprim s = 0")
  case False
  let ?p = "upd (replicate (unat (bound p)) None) (structs p) p"
  have q: "names ?p = replicate (unat (bound ?p)) None" "structs ?p = replicate (if has_structs then unat (bound ?p) else 0) None" "bound ?p = bound p"
    using assms(3) by (simp_all add: names_upd structs_upd bound_upd)
  have run: "index_table s set_names idx p [] = failE (hashtab_map (table s) idx ?p) STATUS_ERR []"
    using False assms(2) by (simp add: index_table_def bindE_def failE_def assms(4))
  show ?thesis
  proof (cases "bad_symbol indexed val s")
    case True
    then have "hashtab_map (table s) idx ?p = throwE EINVAL" using index_map(2) [OF assms(1) q(1,2)] assms(2) by (auto simp: bad_symbol_def q(3))
    then show ?thesis using True by (simp add: decides_def run failE_def throwE_def)
  next
    case bad: False
    then obtain n st where "hashtab_map (table s) idx ?p = returnE (upd n st ?p)"
      using index_map(1) [OF assms(1) q(1,2)] False assms(2) by (auto simp: bad_symbol_def q(3))
    then have "index_table s set_names idx p [] = (Inr (upd n st p), [])" by (simp add: run failE_def returnE_def upd_upd)
    then show ?thesis using bad unfolding decides_def by auto
  qed
qed (auto simp: decides_def bad_symbol_def index_table_def assms(4) returnE_def)

end

section \<open>The eight tables\<close>

lemma val_set_run: "v \<noteq> 0 \<Longrightarrow> v \<le> b \<Longrightarrow> length t = unat b \<Longrightarrow> val_set t v x = Inr (t[unat v - 1 := Some x])"
  using unat_gt_0 [of v] by (auto simp: val_set_def Let_def unat_minus_1 word_le_nat_alt)

lemmas index_defs = common_index_def class_index_def role_index_def type_index_def user_index_def sens_index_def cat_index_def

interpretation ix_common: symbol_index common_index cmd_value "\<lambda>_. True" "\<lambda>p. nprim (p_commons p)" p_common_val_to_name "\<lambda>_. []"
  "\<lambda>n s p. p\<lparr>p_common_val_to_name := n\<rparr>" False
  by unfold_locales (auto simp: index_defs val_set_run not_less)

interpretation ix_class: symbol_index class_index cd_value "\<lambda>_. True" "\<lambda>p. nprim (p_classes p)" p_class_val_to_name class_val_to_struct
  "\<lambda>n s p. p\<lparr>p_class_val_to_name := n, class_val_to_struct := s\<rparr>" True
  by unfold_locales (auto simp: index_defs val_set_run not_less)

interpretation ix_role: symbol_index role_index rd_value "\<lambda>_. True" "\<lambda>p. nprim (p_roles p)" p_role_val_to_name role_val_to_struct
  "\<lambda>n s p. p\<lparr>p_role_val_to_name := n, role_val_to_struct := s\<rparr>" True
  by unfold_locales (auto simp: index_defs val_set_run not_less)

interpretation ix_type: symbol_index type_index td_value "\<lambda>d. td_primary d \<noteq> 0" "\<lambda>p. nprim (p_types p)" p_type_val_to_name type_val_to_struct
  "\<lambda>n s p. p\<lparr>p_type_val_to_name := n, type_val_to_struct := s\<rparr>" True
  by unfold_locales (auto simp: index_defs val_set_run not_less)

interpretation ix_user: symbol_index user_index ud_value "\<lambda>_. True" "\<lambda>p. nprim (p_users p)" p_user_val_to_name user_val_to_struct
  "\<lambda>n s p. p\<lparr>p_user_val_to_name := n, user_val_to_struct := s\<rparr>" True
  by unfold_locales (auto simp: index_defs val_set_run not_less)

interpretation ix_sens: symbol_index sens_index "\<lambda>d. sens (ld_level d)" "\<lambda>d. ld_isalias d = 0" "\<lambda>p. nprim (p_levels p)" p_sens_val_to_name "\<lambda>_. []"
  "\<lambda>n s p. p\<lparr>p_sens_val_to_name := n\<rparr>" False
  by unfold_locales (auto simp: index_defs val_set_run not_less)

interpretation ix_cat: symbol_index cat_index catd_value "\<lambda>d. catd_isalias d = 0" "\<lambda>p. nprim (p_cats p)" p_cat_val_to_name "\<lambda>_. []"
  "\<lambda>n s p. p\<lparr>p_cat_val_to_name := n\<rparr>" False
  by unfold_locales (auto simp: index_defs val_set_run not_less)

interpretation ix_bool: symbol_index bool_index cbd_value "\<lambda>_. True" "\<lambda>p. nprim (p_bools p)" p_bool_val_to_name bool_val_to_struct
  "\<lambda>n s p. p\<lparr>p_bool_val_to_name := n, bool_val_to_struct := s\<rparr>" True
proof unfold_locales
  show "bool_index k d p = (if \<not> True then returnE p else if \<not> (cbd_value d \<noteq> 0 \<and> cbd_value d \<le> nprim (p_bools p)) then throwE EINVAL
      else returnE (p\<lparr>p_bool_val_to_name := (p_bool_val_to_name p)[unat (cbd_value d) - 1 := Some k],
        bool_val_to_struct := (bool_val_to_struct p)[unat (cbd_value d) - 1 := Some d]\<rparr>))"
    if "length (p_bool_val_to_name p) = unat (nprim (p_bools p))" "length (bool_val_to_struct p) = (if True then unat (nprim (p_bools p)) else 0)" for p k d
  proof -
    have lift: "liftE (Inl e) = throwE e" "liftE (Inr v) = returnE v" for e v by (simp_all add: fun_eq_iff liftE_def throwE_def returnE_def)
    show ?thesis
    proof (cases "cbd_value d \<noteq> 0 \<and> cbd_value d \<le> nprim (p_bools p)")
      case True
      then have "unat (cbd_value d) - 1 < unat (nprim (p_bools p))" using unat_gt_0 [of "cbd_value d"] by (auto simp: word_le_nat_alt)
      then show ?thesis using that True by (simp add: bool_index_def cond_index_bool_def Let_def unat_minus_1 lift not_less [symmetric])
    next
      case False
      then show ?thesis by (auto simp: bool_index_def cond_index_bool_def lift)
    qed
  qed
qed auto

section \<open>Caches\<close>

text \<open>The expansion of a set of types reads the types only.\<close>

lemma type_set_expand_cong:
  assumes "type_val_to_struct p' = type_val_to_struct p" "p_types p' = p_types p"
  shows "type_set_expand s p' alwaysexpand = type_set_expand s p alwaysexpand"
proof -
  have eqs: "expand_type p' = expand_type p" "expand_neg p' = expand_neg p" "star_type p' = star_type p" "comp_type p' = comp_type p"
    by (auto simp: fun_eq_iff expand_type_def expand_neg_def star_type_def comp_type_def assms)
  show ?thesis unfolding type_set_expand_def eqs assms(2) ..
qed

text \<open>What storing does to a pair of tables whose names belong to the symbols.\<close>

lemma struct_store_nth:
  assumes "indexes (\<lambda>_. True) val {(k, d). M k = Some d} n s0" "M k = Some d" "val d' = val d" "length t = length n" "i < length n" "n ! i = Some key"
  shows "struct_store n t (val d') k d' ! i = (if key = k then Some d' else t ! i)"
proof -
  from assms(1,5,6) obtain e where e: "M key = Some e" "unat (val e) = Suc i" unfolding indexes_def by blast
  show ?thesis
  proof (cases "key = k")
    case True
    then have u: "unat (val d') = Suc i" using e assms(2,3) by simp
    then have "val d' \<noteq> 0" by auto
    then have "unat (val d' - 1) = i" using u by (simp add: unat_minus_1)
    then show ?thesis using True assms(4-6) by (simp add: struct_store_def)
  next
    case False
    then show ?thesis using assms(5,6) by (cases "unat (val d' - 1) = i") (auto simp: struct_store_def Let_def)
  qed
qed

lemma struct_store_length [simp]: "length (struct_store n t v k d) = length t"
  by (simp add: struct_store_def Let_def)

text \<open>Both tables hold the same structures.\<close>

definition agree :: "string option list \<Rightarrow> 'd option list \<Rightarrow> (string \<Rightarrow> 'd option) \<Rightarrow> bool" where
  "agree n s M \<longleftrightarrow> length s = length n \<and> (\<forall>i < length n. \<forall>k. n ! i = Some k \<longrightarrow> s ! i = M k)"

lemma store_agree:
  assumes "hashtab_ok t" "agree n s (hashtab_abs t)" "indexes (\<lambda>_. True) val {(k, d). M k = Some d} n s0"
    "\<forall>k. map_option val (hashtab_abs t k) = map_option val (M k)" "M k = Some d" "val d' = val d"
  shows "hashtab_ok (hashtab_store t k d')" "hashtab_abs (hashtab_store t k d') = (hashtab_abs t)(k \<mapsto> d')"
    "agree n (struct_store n s (val d') k d') (hashtab_abs (hashtab_store t k d'))"
    "\<forall>x. map_option val (hashtab_abs (hashtab_store t k d') x) = map_option val (M x)"
proof -
  note st = hashtab_store_spec [OF assms(1), of k d']
  show "hashtab_ok (hashtab_store t k d')" by (rule st(1))
  have "hashtab_abs t k \<noteq> None" using assms(4,5) by (metis map_option_is_None option.distinct(1))
  then show eq: "hashtab_abs (hashtab_store t k d') = (hashtab_abs t)(k \<mapsto> d')" unfolding st(2) by (auto simp: fun_eq_iff)
  have "length s = length n" using assms(2) by (simp add: agree_def)
  then show "agree n (struct_store n s (val d') k d') (hashtab_abs (hashtab_store t k d'))"
    using assms(2) struct_store_nth [OF assms(3,5,6)] unfolding eq agree_def by simp
  show "\<forall>x. map_option val (hashtab_abs (hashtab_store t k d') x) = map_option val (M x)" using assms(4-6) by (simp add: eq)
qed

text \<open>A callback that replaces the structure of a symbol, in the symbol table and in the value table. \<open>new p d\<close> is
  the replacement, \<open>fit\<close> says when the callback succeeds.\<close>

locale cached_symbols =
  fixes cache :: "string \<Rightarrow> 'd \<Rightarrow> policydb \<Rightarrow> policydb alloc_m"
    and tab :: "policydb \<Rightarrow> (string, 'd) hashtab_t"
    and names :: "policydb \<Rightarrow> string option list"
    and structs :: "policydb \<Rightarrow> 'd option list"
    and val :: "'d \<Rightarrow> u32"
    and put :: "(string, 'd) hashtab_t \<Rightarrow> 'd option list \<Rightarrow> policydb \<Rightarrow> policydb"
    and new :: "policydb \<Rightarrow> 'd \<Rightarrow> 'd"
    and fit :: "policydb \<Rightarrow> 'd \<Rightarrow> bool"
  assumes cache_run: "fit p d \<Longrightarrow> returns (cache k d p)
      (Inr (put (hashtab_store (tab p) k (new p d)) (struct_store (names p) (structs p) (val (new p d)) k (new p d)) p))"
    and val_new: "val (new p d) = val d"
    and tab_put: "tab (put t s p) = t"
    and structs_put: "structs (put t s p) = s"
    and names_put: "names (put t s p) = names p"
    and put_put: "put t s (put t' s' p) = put t s p"
    and put_same: "put (tab p) (structs p) p = p"
    and fit_put: "fit (put t s p) d = fit p d"
    and new_put: "new (put t s p) d = new p d"
begin

lemma cache_entries:
  assumes "hashtab_ok (tab p)" "agree (names p) (structs p) (hashtab_abs (tab p))" "indexes (\<lambda>_. True) val {(k, d). M k = Some d} (names p) s0"
    "\<forall>k. map_option val (hashtab_abs (tab p) k) = map_option val (M k)" "\<forall>(k, d) \<in> set xs. M k = Some d \<and> fit p d"
  shows "\<exists>t s. returns (foldE (\<lambda>(k, d). cache k d) xs p) (Inr (put t s p)) \<and> hashtab_ok t \<and> agree (names p) s (hashtab_abs t)
    \<and> (\<forall>k. map_option val (hashtab_abs t k) = map_option val (M k))
    \<and> (\<forall>k. hashtab_abs t k = (case map_of xs k of None \<Rightarrow> hashtab_abs (tab p) k | Some _ \<Rightarrow> map_option (new p) (M k)))"
  using assms
proof (induction xs arbitrary: p)
  case Nil
  then show ?case by (intro exI [of _ "tab p"] exI [of _ "structs p"]) (simp add: put_same)
next
  case (Cons x xs)
  obtain k d where x: "x = (k, d)" by (cases x)
  have d: "M k = Some d" "fit p d" using Cons.prems(5) by (simp_all add: x)
  let ?t = "hashtab_store (tab p) k (new p d)" let ?s = "struct_store (names p) (structs p) (val (new p d)) k (new p d)"
  let ?p = "put ?t ?s p"
  note st = store_agree [OF Cons.prems(1-4) d(1) val_new [of p d]]
  have "\<forall>(k, d) \<in> set xs. M k = Some d \<and> fit ?p d" using Cons.prems(5) by (simp add: fit_put)
  moreover have np: "new ?p = new p" by (simp add: fun_eq_iff new_put)
  ultimately obtain t s where ts: "returns (foldE (\<lambda>(k, d). cache k d) xs ?p) (Inr (put t s p))"
    "hashtab_ok t" "agree (names p) s (hashtab_abs t)" "\<forall>k. map_option val (hashtab_abs t k) = map_option val (M k)"
    "\<forall>k. hashtab_abs t k = (case map_of xs k of None \<Rightarrow> hashtab_abs ?t k | Some _ \<Rightarrow> map_option (new p) (M k))"
    using Cons.IH [of ?p, unfolded tab_put structs_put names_put put_put np] st(1,3,4) Cons.prems(3) by blast
  have "returns (foldE (\<lambda>(k, d). cache k d) (x # xs) p) (Inr (put t s p))"
    unfolding x foldE.simps prod.case by (rule returns_bindE_Inr [OF cache_run [OF d(2)]], rule ts(1))
  moreover have "hashtab_abs t j = (case map_of (x # xs) j of None \<Rightarrow> hashtab_abs (tab p) j | Some _ \<Rightarrow> map_option (new p) (M j))" for j
    using ts(5) d(1) by (auto simp: x st(2) split: option.splits)
  ultimately show ?case using ts(2-4) by blast
qed

text \<open>All symbols of a table that has just been indexed.\<close>

lemma cache_map:
  assumes "hashtab_ok (tab p)" "indexes (\<lambda>_. True) val {(k, d). hashtab_abs (tab p) k = Some d} (names p) (structs p)"
    "length (structs p) = length (names p)" "\<forall>k d. hashtab_abs (tab p) k = Some d \<longrightarrow> fit p d"
  shows "\<exists>t s. returns (hashtab_map (tab p) cache p) (Inr (put t s p)) \<and> hashtab_ok t
    \<and> hashtab_abs t = map_option (new p) \<circ> hashtab_abs (tab p) \<and> agree (names p) s (hashtab_abs t)"
proof -
  from assms(1) obtain h where h: "tab p = Some h" by (auto simp: hashtab_ok_def)
  have E: "(k, d) \<in> set (ht_entries h) \<longleftrightarrow> hashtab_abs (tab p) k = Some d" for k d using ht_entries_abs [of h] assms(1) by (simp add: h)
  have ag: "agree (names p) (structs p) (hashtab_abs (tab p))"
    unfolding agree_def
  proof (intro conjI allI impI)
    fix i k assume i: "i < length (names p)" "names p ! i = Some k"
    with assms(3) have "structs p \<noteq> []" by auto
    with assms(2) i show "structs p ! i = hashtab_abs (tab p) k" unfolding indexes_def by (metis (mono_tags, lifting) case_prodD mem_Collect_eq)
  qed (rule assms(3))
  have "\<forall>(k, d) \<in> set (ht_entries h). hashtab_abs (tab p) k = Some d \<and> fit p d" using E assms(4) by auto
  from cache_entries [OF assms(1) ag assms(2) _ this] obtain t s where ts: "returns (foldE (\<lambda>(k, d). cache k d) (ht_entries h) p) (Inr (put t s p))"
    "hashtab_ok t" "agree (names p) s (hashtab_abs t)"
    "\<forall>k. hashtab_abs t k = (case map_of (ht_entries h) k of None \<Rightarrow> hashtab_abs (tab p) k | Some _ \<Rightarrow> map_option (new p) (hashtab_abs (tab p) k))" by auto
  have "hashtab_abs t k = map_option (new p) (hashtab_abs (tab p) k)" for k
  proof (cases "map_of (ht_entries h) k")
    case None
    then have "k \<notin> fst ` set (ht_entries h)" by (simp add: map_of_eq_None_iff)
    then have "hashtab_abs (tab p) k = None" using E [of k] by (cases "hashtab_abs (tab p) k") force+
    then show ?thesis using ts(4) None by simp
  qed (use ts(4) in simp)
  then have "hashtab_abs t = map_option (new p) \<circ> hashtab_abs (tab p)" by (simp add: fun_eq_iff)
  moreover have "hashtab_map (tab p) cache p = foldE (\<lambda>(k, d). cache k d) (ht_entries h) p" using assms(1) unfolding h by (rule hashtab_map_entries)
  ultimately show ?thesis using ts(1-3) by (intro exI [of _ t] exI [of _ s]) simp
qed

end

text \<open>The expanded structures of a role and of a user.\<close>

definition cached_role :: "policydb \<Rightarrow> role_datum \<Rightarrow> role_datum" where
  "cached_role p d = (case fst (type_set_expand (rd_types d) p True []) of Inr c \<Rightarrow> d\<lparr>rd_cache := c\<rparr> | Inl _ \<Rightarrow> d)"

definition cached_user :: "user_datum \<Rightarrow> user_datum" where
  "cached_user d = d\<lparr>ud_cache := rs_roles (ud_roles d)\<rparr>"

lemma cached_role_denotes:
  assumes "types_ok p" "type_set_ok p (rd_types d)"
  shows "ebitmap_ok (rd_cache (cached_role p d))" "ebitmap_bits (rd_cache (cached_role p d)) = type_set_denotes p (rd_types d) True"
proof -
  from type_set_expand_spec [OF assms, of True] obtain c where
    c: "returns (type_set_expand (rd_types d) p True) (Inr c)" "ebitmap_ok c" "ebitmap_bits c = type_set_denotes p (rd_types d) True" by blast
  from c(1) have "cached_role p d = d\<lparr>rd_cache := c\<rparr>" by (simp add: cached_role_def returns_def)
  then show "ebitmap_ok (rd_cache (cached_role p d))" "ebitmap_bits (rd_cache (cached_role p d)) = type_set_denotes p (rd_types d) True"
    using c by simp_all
qed

interpretation cs_role: cached_symbols policydb_role_cache "\<lambda>p. table (p_roles p)" p_role_val_to_name role_val_to_struct rd_value
  "\<lambda>t s p. p\<lparr>p_roles := (p_roles p)\<lparr>table := t\<rparr>, role_val_to_struct := s\<rparr>" cached_role "\<lambda>p d. types_ok p \<and> type_set_ok p (rd_types d)"
proof unfold_locales
  show "returns (policydb_role_cache k d p) (Inr (p\<lparr>p_roles := (p_roles p)\<lparr>table := hashtab_store (table (p_roles p)) k (cached_role p d)\<rparr>,
      role_val_to_struct := struct_store (p_role_val_to_name p) (role_val_to_struct p) (rd_value (cached_role p d)) k (cached_role p d)\<rparr>))"
    if fit: "types_ok p \<and> type_set_ok p (rd_types d)" for p d k
  proof -
    from type_set_expand_spec [of p "rd_types d" True] fit obtain c where c: "returns (type_set_expand (rd_types d) p True) (Inr c)" by blast
    then have new: "cached_role p d = d\<lparr>rd_cache := c\<rparr>" by (simp add: cached_role_def returns_def)
    show ?thesis unfolding policydb_role_cache_def new by (rule returns_bindE_Inr [OF returns_failE_Inr [OF c]]) (simp_all add: Let_def)
  qed
  show "rd_value (cached_role p d) = rd_value d" for p d by (simp add: cached_role_def split: sum.splits)
  show "cached_role (p\<lparr>p_roles := (p_roles p)\<lparr>table := t\<rparr>, role_val_to_struct := s\<rparr>) d = cached_role p d" for t s p d
    by (simp add: cached_role_def type_set_expand_cong [of "p\<lparr>p_roles := (p_roles p)\<lparr>table := t\<rparr>, role_val_to_struct := s\<rparr>" p])
qed (simp_all add: types_ok_def type_set_ok_def attrib_at_def)

interpretation cs_user: cached_symbols policydb_user_cache "\<lambda>p. table (p_users p)" p_user_val_to_name user_val_to_struct ud_value
  "\<lambda>t s p. p\<lparr>p_users := (p_users p)\<lparr>table := t\<rparr>, user_val_to_struct := s\<rparr>" "\<lambda>p. cached_user" "\<lambda>p d. ebitmap_ok (rs_roles (ud_roles d)) \<and> rs_flags (ud_roles d) = 0"
proof unfold_locales
  show "returns (policydb_user_cache k d p) (Inr (p\<lparr>p_users := (p_users p)\<lparr>table := hashtab_store (table (p_users p)) k (cached_user d)\<rparr>,
      user_val_to_struct := struct_store (p_user_val_to_name p) (user_val_to_struct p) (ud_value (cached_user d)) k (cached_user d)\<rparr>))"
    if fit: "ebitmap_ok (rs_roles (ud_roles d)) \<and> rs_flags (ud_roles d) = 0" for p d k
    unfolding policydb_user_cache_def
    by (rule returns_bindE_Inr [OF returns_failE_Inr [OF role_set_expand_plain]]) (use fit in \<open>simp_all add: Let_def cached_user_def\<close>)
qed (simp_all add: cached_user_def)

section \<open>The indexed database\<close>

text \<open>Symbol tables whose values are the numbers from 1 to the number of symbols, with well-formed sets.\<close>

abbreviation primary :: "type_datum \<Rightarrow> bool" where
  "primary d \<equiv> td_primary d \<noteq> 0"

definition tables_ok :: "policydb \<Rightarrow> bool" where
  "tables_ok p \<longleftrightarrow> hashtab_ok (table (p_roles p)) \<and> hashtab_ok (table (p_types p)) \<and> hashtab_ok (table (p_users p))
     \<and> hashtab_ok (table (p_bools p)) \<and> hashtab_ok (table (p_levels p)) \<and> hashtab_ok (table (p_cats p))
     \<and> covers (\<lambda>_. True) rd_value (nprim (p_roles p)) (hashtab_abs (table (p_roles p)))
     \<and> covers primary td_value (nprim (p_types p)) (hashtab_abs (table (p_types p)))
     \<and> covers (\<lambda>_. True) ud_value (nprim (p_users p)) (hashtab_abs (table (p_users p)))
     \<and> covers (\<lambda>_. True) cbd_value (nprim (p_bools p)) (hashtab_abs (table (p_bools p)))
     \<and> covers (\<lambda>d. ld_isalias d = 0) (\<lambda>d. sens (ld_level d)) (nprim (p_levels p)) (hashtab_abs (table (p_levels p)))
     \<and> covers (\<lambda>d. catd_isalias d = 0) catd_value (nprim (p_cats p)) (hashtab_abs (table (p_cats p)))"

definition sets_ok :: "policydb \<Rightarrow> bool" where
  "sets_ok p \<longleftrightarrow> unat (nprim (p_types p)) \<le> 2 ^ 32 - 64
     \<and> (\<forall>k d. hashtab_abs (table (p_types p)) k = Some d \<longrightarrow> td_flavor d = TYPE_ATTRIB \<longrightarrow> ebitmap_ok (td_types d)
          \<and> (\<forall>i \<in> ebitmap_bits (td_types d). i < unat (nprim (p_types p))
               \<and> (\<forall>k' d'. hashtab_abs (table (p_types p)) k' = Some d' \<longrightarrow> unat (td_value d') = Suc i \<longrightarrow> td_flavor d' \<noteq> TYPE_ATTRIB)))
     \<and> (\<forall>k d. hashtab_abs (table (p_roles p)) k = Some d \<longrightarrow> ebitmap_ok (ts_types (rd_types d)) \<and> ebitmap_ok (ts_negset (rd_types d))
          \<and> (\<forall>i \<in> ebitmap_bits (ts_types (rd_types d)) \<union> ebitmap_bits (ts_negset (rd_types d)). i < unat (nprim (p_types p))))
     \<and> (\<forall>k d. hashtab_abs (table (p_users p)) k = Some d \<longrightarrow> ebitmap_ok (rs_roles (ud_roles d)) \<and> rs_flags (ud_roles d) = 0
          \<and> range_ok (ud_exp_range d) \<and> level_ok (ud_exp_dfltlevel d))
     \<and> (\<forall>k d. hashtab_abs (table (p_levels p)) k = Some d \<longrightarrow> level_ok (ld_level d))"

lemma malloc_status [simp]: "failE malloc STATUS_ERR [] = (Inr (), [])"
  by (simp add: failE_def)

lemma init_bool_indexes_run: "init_bool_indexes p [] = (Inr (p\<lparr>bool_val_to_struct := replicate (unat (nprim (p_bools p))) None\<rparr>), [])"
  by (simp add: init_bool_indexes_def cond_init_bool_indexes_def bindE_def tryE_def returnE_def)

lemma returns_status: "returns m (Inr v) \<Longrightarrow> returns (failE m STATUS_ERR) (Inr v)"
  by (rule returns_failE_Inr) simp_all

lemma bindE_nil: "returns m (Inr v) \<Longrightarrow> bindE m f [] = f v []"
  by (simp add: bindE_def returns_no_oom)

lemma bindE_malloc_nil: "bindE (failE malloc STATUS_ERR) f [] = f () []"
  by (simp add: bindE_def)

lemma bindE_bools_nil: "bindE (init_bool_indexes p) f [] = f (p\<lparr>bool_val_to_struct := replicate (unat (nprim (p_bools p))) None\<rparr>) []"
  by (simp add: bindE_def init_bool_indexes_run)

lemma index_symbols:
  assumes "tables_ok p"
  shows "\<exists>nr sr nt st nu su nb sb nl nc. let p8 = p\<lparr>p_role_val_to_name := nr, role_val_to_struct := sr, p_type_val_to_name := nt, type_val_to_struct := st,
      p_user_val_to_name := nu, user_val_to_struct := su, p_bool_val_to_name := nb, bool_val_to_struct := sb, p_sens_val_to_name := nl, p_cat_val_to_name := nc\<rparr> in
    policydb_index_others p [] = bindE (failE (hashtab_map (table (p_roles p8)) policydb_role_cache p8) STATUS_ERR) (\<lambda>p9.
       failE (hashtab_map (table (p_users p9)) policydb_user_cache p9) STATUS_ERR) []
    \<and> val_total nr (nprim (p_roles p)) \<and> val_total sr (nprim (p_roles p)) \<and> indexes (\<lambda>_. True) rd_value {(k, d). hashtab_abs (table (p_roles p)) k = Some d} nr sr
    \<and> val_total nt (nprim (p_types p)) \<and> val_total st (nprim (p_types p)) \<and> indexes primary td_value {(k, d). hashtab_abs (table (p_types p)) k = Some d} nt st
    \<and> val_total nu (nprim (p_users p)) \<and> val_total su (nprim (p_users p)) \<and> indexes (\<lambda>_. True) ud_value {(k, d). hashtab_abs (table (p_users p)) k = Some d} nu su
    \<and> val_total nl (nprim (p_levels p)) \<and> indexes (\<lambda>d. ld_isalias d = 0) (\<lambda>d. sens (ld_level d)) {(k, d). hashtab_abs (table (p_levels p)) k = Some d} nl []"
proof -
  define p2 where "p2 = p\<lparr>role_val_to_struct := replicate (unat (nprim (p_roles p))) None,
                user_val_to_struct := replicate (unat (nprim (p_users p))) None,
                type_val_to_struct := replicate (unat (nprim (p_types p))) None,
                bool_val_to_struct := replicate (unat (nprim (p_bools p))) None\<rparr>"
  note t = assms [unfolded tables_ok_def]
  from ix_role.index_table_run [of "p_roles p2" p2 "\<lambda>t p. p\<lparr>p_role_val_to_name := t\<rparr>"] t obtain nr sr where
    1: "returns (index_table (p_roles p2) (\<lambda>t p. p\<lparr>p_role_val_to_name := t\<rparr>) role_index p2) (Inr (p2\<lparr>p_role_val_to_name := nr, role_val_to_struct := sr\<rparr>))"
      "val_total nr (nprim (p_roles p))" "val_total sr (nprim (p_roles p))" "indexes (\<lambda>_. True) rd_value {(k, d). hashtab_abs (table (p_roles p)) k = Some d} nr sr"
    by (auto simp: p2_def)
  define p3 where "p3 = p2\<lparr>p_role_val_to_name := nr, role_val_to_struct := sr\<rparr>"
  from ix_type.index_table_run [of "p_types p3" p3 "\<lambda>t p. p\<lparr>p_type_val_to_name := t\<rparr>"] t obtain nt st where
    2: "returns (index_table (p_types p3) (\<lambda>t p. p\<lparr>p_type_val_to_name := t\<rparr>) type_index p3) (Inr (p3\<lparr>p_type_val_to_name := nt, type_val_to_struct := st\<rparr>))"
      "val_total nt (nprim (p_types p))" "val_total st (nprim (p_types p))" "indexes primary td_value {(k, d). hashtab_abs (table (p_types p)) k = Some d} nt st"
    by (auto simp: p2_def p3_def)
  define p4 where "p4 = p3\<lparr>p_type_val_to_name := nt, type_val_to_struct := st\<rparr>"
  from ix_user.index_table_run [of "p_users p4" p4 "\<lambda>t p. p\<lparr>p_user_val_to_name := t\<rparr>"] t obtain nu su where
    3: "returns (index_table (p_users p4) (\<lambda>t p. p\<lparr>p_user_val_to_name := t\<rparr>) user_index p4) (Inr (p4\<lparr>p_user_val_to_name := nu, user_val_to_struct := su\<rparr>))"
      "val_total nu (nprim (p_users p))" "val_total su (nprim (p_users p))" "indexes (\<lambda>_. True) ud_value {(k, d). hashtab_abs (table (p_users p)) k = Some d} nu su"
    by (auto simp: p2_def p3_def p4_def)
  define p5 where "p5 = p4\<lparr>p_user_val_to_name := nu, user_val_to_struct := su\<rparr>"
  from ix_bool.index_table_run [of "p_bools p5" p5 "\<lambda>t p. p\<lparr>p_bool_val_to_name := t\<rparr>"] t obtain nb sb where
    4: "returns (index_table (p_bools p5) (\<lambda>t p. p\<lparr>p_bool_val_to_name := t\<rparr>) bool_index p5) (Inr (p5\<lparr>p_bool_val_to_name := nb, bool_val_to_struct := sb\<rparr>))"
    by (auto simp: p2_def p3_def p4_def p5_def)
  define p6 where "p6 = p5\<lparr>p_bool_val_to_name := nb, bool_val_to_struct := sb\<rparr>"
  from ix_sens.index_table_run [of "p_levels p6" p6 "\<lambda>t p. p\<lparr>p_sens_val_to_name := t\<rparr>"] t obtain nl sl where
    5: "returns (index_table (p_levels p6) (\<lambda>t p. p\<lparr>p_sens_val_to_name := t\<rparr>) sens_index p6) (Inr (p6\<lparr>p_sens_val_to_name := nl\<rparr>))"
      "val_total nl (nprim (p_levels p))" "indexes (\<lambda>d. ld_isalias d = 0) (\<lambda>d. sens (ld_level d)) {(k, d). hashtab_abs (table (p_levels p)) k = Some d} nl sl"
    by (auto simp: p2_def p3_def p4_def p5_def p6_def)
  define p7 where "p7 = p6\<lparr>p_sens_val_to_name := nl\<rparr>"
  from ix_cat.index_table_run [of "p_cats p7" p7 "\<lambda>t p. p\<lparr>p_cat_val_to_name := t\<rparr>"] t obtain nc where
    6: "returns (index_table (p_cats p7) (\<lambda>t p. p\<lparr>p_cat_val_to_name := t\<rparr>) cat_index p7) (Inr (p7\<lparr>p_cat_val_to_name := nc\<rparr>))"
    by (auto simp: p2_def p3_def p4_def p5_def p6_def p7_def)
  have nl: "indexes (\<lambda>d. ld_isalias d = 0) (\<lambda>d. sens (ld_level d)) {(k, d). hashtab_abs (table (p_levels p)) k = Some d} nl []"
    using 5(3) unfolding indexes_def by blast
  let ?p8 = "p7\<lparr>p_cat_val_to_name := nc\<rparr>"
  have "policydb_index_others p [] = bindE (failE (hashtab_map (table (p_roles ?p8)) policydb_role_cache ?p8) STATUS_ERR) (\<lambda>p9.
       failE (hashtab_map (table (p_users p9)) policydb_user_cache p9) STATUS_ERR) []"
    unfolding policydb_index_others_def Let_def
    unfolding bindE_malloc_nil bindE_bools_nil
    by (simp add: p2_def [symmetric] bindE_nil [OF 1(1)] p3_def [symmetric] bindE_nil [OF 2(1)] p4_def [symmetric] bindE_nil [OF 3(1)] p5_def [symmetric]
      bindE_nil [OF 4] p6_def [symmetric] bindE_nil [OF 5(1)] p7_def [symmetric] bindE_nil [OF 6])
  moreover have "?p8 = p\<lparr>p_role_val_to_name := nr, role_val_to_struct := sr, p_type_val_to_name := nt, type_val_to_struct := st,
      p_user_val_to_name := nu, user_val_to_struct := su, p_bool_val_to_name := nb, bool_val_to_struct := sb, p_sens_val_to_name := nl, p_cat_val_to_name := nc\<rparr>"
    by (simp add: p2_def p3_def p4_def p5_def p6_def p7_def)
  ultimately show ?thesis using 1(2-4) 2(2-4) 3(2-4) 5(2) nl by (metis (no_types, lifting))
qed

text \<open>The types of the indexed database.\<close>

lemma val_total_nth: "val_total t b \<Longrightarrow> i < length t \<Longrightarrow> \<exists>x. t ! i = Some x"
  by (metis nth_mem option.exhaust val_total_def)

lemma indexes_struct:
  assumes "indexes indexed val {(k, d). M k = Some d} n s" "val_total n b" "val_total s b" "Some d \<in> set s"
  shows "\<exists>k. M k = Some d \<and> indexed d"
proof -
  from assms(4) obtain i where i: "i < length s" "s ! i = Some d" by (auto simp: in_set_conv_nth)
  then have n: "i < length n" using assms(2,3) by (simp add: val_total_def)
  from val_total_nth [OF assms(2) this] obtain k where k: "n ! i = Some k" by blast
  moreover have "s \<noteq> []" using i by auto
  ultimately show ?thesis using assms(1) n i(2) unfolding indexes_def by fastforce
qed

lemma indexes_slot:
  assumes "indexes indexed val {(k, d). M k = Some d} n s" "val_total n b" "val_total s b" "i < unat b"
  shows "\<exists>k d. n ! i = Some k \<and> M k = Some d \<and> s ! i = Some d \<and> unat (val d) = Suc i"
proof -
  have l: "i < length n" "length s = length n" using assms(2-4) by (simp_all add: val_total_def)
  from val_total_nth [OF assms(2) this(1)] obtain k where k: "n ! i = Some k" by blast
  moreover have "s \<noteq> []" using l by auto
  ultimately show ?thesis using assms(1) l unfolding indexes_def by blast
qed

lemma sets_ok_types:
  assumes "sets_ok p" "p_types q = p_types p" "val_total (p_type_val_to_name q) (nprim (p_types p))" "val_total (type_val_to_struct q) (nprim (p_types p))"
    "indexes primary td_value {(k, d). hashtab_abs (table (p_types p)) k = Some d} (p_type_val_to_name q) (type_val_to_struct q)"
  shows "types_ok q" "hashtab_abs (table (p_roles p)) k = Some d \<Longrightarrow> type_set_ok q (rd_types d)"
proof -
  note slot = indexes_slot [OF assms(5,3,4)] and struct = indexes_struct [OF assms(5,3,4)]
  have "\<not> attrib_at q i" if "hashtab_abs (table (p_types p)) k = Some d" "td_flavor d = TYPE_ATTRIB" "i \<in> ebitmap_bits (td_types d)" for k d i
  proof -
    have i: "i < unat (nprim (p_types p))" "\<And>k' d'. hashtab_abs (table (p_types p)) k' = Some d' \<Longrightarrow> unat (td_value d') = Suc i \<Longrightarrow> td_flavor d' \<noteq> TYPE_ATTRIB"
      using assms(1) that unfolding sets_ok_def by blast+
    from slot [OF i(1)] obtain k' d' where "hashtab_abs (table (p_types p)) k' = Some d'" "type_val_to_struct q ! i = Some d'" "unat (td_value d') = Suc i" by blast
    then show ?thesis using i(2) by (simp add: attrib_at_def is_attrib_def)
  qed
  then show "types_ok q" using assms(1,4) struct unfolding types_ok_def sets_ok_def assms(2) val_total_def by metis
  show "type_set_ok q (rd_types d)" if "hashtab_abs (table (p_roles p)) k = Some d"
    using assms(1) that slot unfolding type_set_ok_def sets_ok_def assms(2) by (metis UnCI option.distinct(1))
qed

text \<open>The whole run: the tables of names and structures are total, the tables of roles and users hold the expanded
  structures, and the value tables hold the same ones.\<close>

lemma agree_total:
  assumes "agree n s M" "val_total n b" "\<And>i k. i < length n \<Longrightarrow> n ! i = Some k \<Longrightarrow> \<exists>d. M k = Some d"
  shows "val_total s b" "Some d \<in> set s \<Longrightarrow> \<exists>k. M k = Some d"
proof -
  have s: "\<exists>k d. s ! i = Some d \<and> M k = Some d" if "i < length s" for i
    using assms val_total_nth [OF assms(2)] that unfolding agree_def by metis
  have "length s = unat b" using assms(1,2) by (simp add: agree_def val_total_def)
  then show "val_total s b" using s by (force simp: val_total_def in_set_conv_nth)
  show "\<exists>k. M k = Some d" if "Some d \<in> set s" using s that by (metis in_set_conv_nth option.inject)
qed

text \<open>Nothing else of the database is touched.\<close>

definition reindexed :: "policydb \<Rightarrow> policydb \<Rightarrow> bool" where
  "reindexed p p' \<longleftrightarrow> p' = p\<lparr>p_roles := p_roles p', p_users := p_users p', p_common_val_to_name := p_common_val_to_name p',
     p_class_val_to_name := p_class_val_to_name p', class_val_to_struct := class_val_to_struct p', p_role_val_to_name := p_role_val_to_name p',
     role_val_to_struct := role_val_to_struct p', p_type_val_to_name := p_type_val_to_name p', type_val_to_struct := type_val_to_struct p',
     p_user_val_to_name := p_user_val_to_name p', user_val_to_struct := user_val_to_struct p', p_bool_val_to_name := p_bool_val_to_name p',
     bool_val_to_struct := bool_val_to_struct p', p_sens_val_to_name := p_sens_val_to_name p', p_cat_val_to_name := p_cat_val_to_name p'\<rparr>"

lemma index_classes_run:
  assumes "hashtab_ok (table (p_commons p))" "covers (\<lambda>_. True) cmd_value (nprim (p_commons p)) (hashtab_abs (table (p_commons p)))"
    "hashtab_ok (table (p_classes p))" "covers (\<lambda>_. True) cd_value (nprim (p_classes p)) (hashtab_abs (table (p_classes p)))"
  shows "\<exists>nc n s. policydb_index_classes p [] = (Inr (p\<lparr>p_common_val_to_name := nc, p_class_val_to_name := n, class_val_to_struct := s\<rparr>), [])
    \<and> indexes (\<lambda>_. True) cmd_value {(k, d). hashtab_abs (table (p_commons p)) k = Some d} nc [] \<and> length nc = unat (nprim (p_commons p))
    \<and> indexes (\<lambda>_. True) cd_value {(k, d). hashtab_abs (table (p_classes p)) k = Some d} n s
    \<and> length n = unat (nprim (p_classes p)) \<and> length s = unat (nprim (p_classes p))"
proof -
  define p1 where "p1 = p\<lparr>p_common_val_to_name := replicate (unat (nprim (p_commons p))) None\<rparr>"
  from ix_common.index_map(1) [of "table (p_commons p)" p1] assms(1,2) obtain nc where
    1: "hashtab_map (table (p_commons p)) common_index p1 = returnE (p1\<lparr>p_common_val_to_name := nc\<rparr>)" "length nc = unat (nprim (p_commons p))"
      "\<exists>s. indexes (\<lambda>_. True) cmd_value {(k, d). hashtab_abs (table (p_commons p)) k = Some d} nc s" by (auto simp: p1_def covers_def)
  define p4 where "p4 = p1\<lparr>p_common_val_to_name := nc, class_val_to_struct := replicate (unat (nprim (p_classes p))) None,
     p_class_val_to_name := replicate (unat (nprim (p_classes p))) None\<rparr>"
  from ix_class.index_map(1) [of "table (p_classes p)" p4] assms(3,4) obtain n s where
    2: "hashtab_map (table (p_classes p)) class_index p4 = returnE (p4\<lparr>p_class_val_to_name := n, class_val_to_struct := s\<rparr>)"
      "length n = unat (nprim (p_classes p))" "length s = unat (nprim (p_classes p))"
      "indexes (\<lambda>_. True) cd_value {(k, d). hashtab_abs (table (p_classes p)) k = Some d} n s" by (auto simp: p1_def p4_def covers_def)
  have "policydb_index_classes p [] = (Inr (p4\<lparr>p_class_val_to_name := n, class_val_to_struct := s\<rparr>), [])"
    unfolding policydb_index_classes_def Let_def bindE_malloc_nil p1_def [symmetric] using 1(1) 2(1)
    by (simp add: p1_def p4_def failE_def returnE_def bindE_def)
  moreover have "p4\<lparr>p_class_val_to_name := n, class_val_to_struct := s\<rparr> = p\<lparr>p_common_val_to_name := nc, p_class_val_to_name := n, class_val_to_struct := s\<rparr>"
    by (simp add: p4_def p1_def)
  moreover have "indexes (\<lambda>_. True) cmd_value {(k, d). hashtab_abs (table (p_commons p)) k = Some d} nc []" using 1(3) unfolding indexes_def by blast
  ultimately show ?thesis using 1(2) 2(2-4) by metis
qed

lemma index_others_run:
  assumes "tables_ok p" "sets_ok p"
  shows "\<exists>p'. policydb_index_others p [] = (Inr p', []) \<and> reindexed p p'
    \<and> p_types p' = p_types p \<and> p_levels p' = p_levels p \<and> nprim (p_roles p') = nprim (p_roles p) \<and> nprim (p_users p') = nprim (p_users p)
    \<and> types_ok p' \<and> (\<forall>k d. hashtab_abs (table (p_roles p)) k = Some d \<longrightarrow> type_set_ok p' (rd_types d))
    \<and> val_total (p_type_val_to_name p') (nprim (p_types p))
    \<and> indexes primary td_value {(k, d). hashtab_abs (table (p_types p)) k = Some d} (p_type_val_to_name p') (type_val_to_struct p')
    \<and> val_total (p_sens_val_to_name p') (nprim (p_levels p))
    \<and> indexes (\<lambda>d. ld_isalias d = 0) (\<lambda>d. sens (ld_level d)) {(k, d). hashtab_abs (table (p_levels p)) k = Some d} (p_sens_val_to_name p') []
    \<and> hashtab_ok (table (p_roles p')) \<and> hashtab_abs (table (p_roles p')) = map_option (cached_role p') \<circ> hashtab_abs (table (p_roles p))
    \<and> val_total (p_role_val_to_name p') (nprim (p_roles p)) \<and> agree (p_role_val_to_name p') (role_val_to_struct p') (hashtab_abs (table (p_roles p')))
    \<and> indexes (\<lambda>_. True) rd_value {(k, d). hashtab_abs (table (p_roles p)) k = Some d} (p_role_val_to_name p') []
    \<and> hashtab_ok (table (p_users p')) \<and> hashtab_abs (table (p_users p')) = map_option cached_user \<circ> hashtab_abs (table (p_users p))
    \<and> val_total (p_user_val_to_name p') (nprim (p_users p)) \<and> agree (p_user_val_to_name p') (user_val_to_struct p') (hashtab_abs (table (p_users p')))
    \<and> indexes (\<lambda>_. True) ud_value {(k, d). hashtab_abs (table (p_users p)) k = Some d} (p_user_val_to_name p') []"
proof -
  from index_symbols [OF assms(1)] obtain nr sr nt st nu su nb sb nl nc p8 where
    p8: "p8 = p\<lparr>p_role_val_to_name := nr, role_val_to_struct := sr, p_type_val_to_name := nt, type_val_to_struct := st,
      p_user_val_to_name := nu, user_val_to_struct := su, p_bool_val_to_name := nb, bool_val_to_struct := sb, p_sens_val_to_name := nl, p_cat_val_to_name := nc\<rparr>"
    and run: "policydb_index_others p [] = bindE (failE (hashtab_map (table (p_roles p8)) policydb_role_cache p8) STATUS_ERR) (\<lambda>p9.
       failE (hashtab_map (table (p_users p9)) policydb_user_cache p9) STATUS_ERR) []"
    and r: "val_total nr (nprim (p_roles p))" "val_total sr (nprim (p_roles p))" "indexes (\<lambda>_. True) rd_value {(k, d). hashtab_abs (table (p_roles p)) k = Some d} nr sr"
    and t: "val_total nt (nprim (p_types p))" "val_total st (nprim (p_types p))" "indexes primary td_value {(k, d). hashtab_abs (table (p_types p)) k = Some d} nt st"
    and u: "val_total nu (nprim (p_users p))" "val_total su (nprim (p_users p))" "indexes (\<lambda>_. True) ud_value {(k, d). hashtab_abs (table (p_users p)) k = Some d} nu su"
    and l: "val_total nl (nprim (p_levels p))" "indexes (\<lambda>d. ld_isalias d = 0) (\<lambda>d. sens (ld_level d)) {(k, d). hashtab_abs (table (p_levels p)) k = Some d} nl []"
    unfolding Let_def by blast
  have f8 [simp]: "p_roles p8 = p_roles p" "p_users p8 = p_users p" "p_types p8 = p_types p" "p_levels p8 = p_levels p" "p_type_val_to_name p8 = nt" "type_val_to_struct p8 = st"
    "p_role_val_to_name p8 = nr" "role_val_to_struct p8 = sr" "p_user_val_to_name p8 = nu" "user_val_to_struct p8 = su" "p_sens_val_to_name p8 = nl"
    by (simp_all add: p8)
  have ht: "hashtab_ok (table (p_roles p))" "hashtab_ok (table (p_users p))" using assms(1) by (simp_all add: tables_ok_def)
  have fit: "types_ok p8" "\<And>k d. hashtab_abs (table (p_roles p)) k = Some d \<Longrightarrow> type_set_ok p8 (rd_types d)"
    using sets_ok_types [OF assms(2), of p8] t by simp_all
  from cs_role.cache_map [of p8] ht(1) r fit obtain tr sr' where
    9: "returns (hashtab_map (table (p_roles p8)) policydb_role_cache p8) (Inr (p8\<lparr>p_roles := (p_roles p8)\<lparr>table := tr\<rparr>, role_val_to_struct := sr'\<rparr>))"
      "hashtab_ok tr" "hashtab_abs tr = map_option (cached_role p8) \<circ> hashtab_abs (table (p_roles p))" "agree nr sr' (hashtab_abs tr)"
    by (auto simp: val_total_def)
  define p9 where "p9 = p8\<lparr>p_roles := (p_roles p8)\<lparr>table := tr\<rparr>, role_val_to_struct := sr'\<rparr>"
  have "\<forall>k d. hashtab_abs (table (p_users p9)) k = Some d \<longrightarrow> ebitmap_ok (rs_roles (ud_roles d)) \<and> rs_flags (ud_roles d) = 0"
    using assms(2) by (auto simp: p9_def sets_ok_def)
  from cs_user.cache_map [OF _ _ _ this] ht(2) u obtain tu su' where
    10: "returns (hashtab_map (table (p_users p9)) policydb_user_cache p9) (Inr (p9\<lparr>p_users := (p_users p9)\<lparr>table := tu\<rparr>, user_val_to_struct := su'\<rparr>))"
      "hashtab_ok tu" "hashtab_abs tu = map_option cached_user \<circ> hashtab_abs (table (p_users p))" "agree nu su' (hashtab_abs tu)"
    by (auto simp: p9_def val_total_def)
  define p' where "p' = p9\<lparr>p_users := (p_users p9)\<lparr>table := tu\<rparr>, user_val_to_struct := su'\<rparr>"
  have "policydb_index_others p [] = (Inr p', [])"
    unfolding run bindE_nil [OF returns_status [OF 9(1)]] p9_def [symmetric] p'_def by (rule returns_no_oom [OF returns_status [OF 10(1)]])
  moreover have "reindexed p p'" by (simp add: reindexed_def p'_def p9_def p8)
  moreover have f' [simp]: "p_types p' = p_types p" "type_val_to_struct p' = st" by (simp_all add: p'_def p9_def)
  moreover have "cached_role p' = cached_role p8" by (simp add: fun_eq_iff cached_role_def type_set_expand_cong [of p' p8])
  moreover have "types_ok p'" "\<And>k d. hashtab_abs (table (p_roles p)) k = Some d \<Longrightarrow> type_set_ok p' (rd_types d)"
    using fit by (simp_all add: types_ok_def type_set_ok_def attrib_at_def)
  moreover have "indexes (\<lambda>_. True) rd_value {(k, d). hashtab_abs (table (p_roles p)) k = Some d} nr []"
    "indexes (\<lambda>_. True) ud_value {(k, d). hashtab_abs (table (p_users p)) k = Some d} nu []" using r(3) u(3) unfolding indexes_def by blast+
  ultimately show ?thesis using r t u l 9 10 by (intro exI [of _ p']) (simp add: p'_def p9_def)
qed

text \<open>Claim C24. On symbol tables whose values are the numbers from 1 to the number of symbols, with well-formed sets,
  \<open>policydb_index_others\<close> succeeds when no allocation fails and establishes what the security server relies on: every
  value of a role, a user and a sensitivity has a name and a structure, with well-formed bitmaps.\<close>

theorem policydb_index_establishes:
  assumes "tables_ok p" "sets_ok p"
  shows "\<exists>p'. policydb_index_others p [] = (Inr p', []) \<and> rbac_db_ok p' \<and> mls_db_ok p'"
proof -
  note t = assms(1) [unfolded tables_ok_def] and s = assms(2) [unfolded sets_ok_def]
  from index_others_run [OF assms] obtain p' where run: "policydb_index_others p [] = (Inr p', [])"
    and eqs: "p_levels p' = p_levels p" "nprim (p_roles p') = nprim (p_roles p)" "nprim (p_users p') = nprim (p_users p)"
    and sens: "val_total (p_sens_val_to_name p') (nprim (p_levels p))"
      "indexes (\<lambda>d. ld_isalias d = 0) (\<lambda>d. sens (ld_level d)) {(k, d). hashtab_abs (table (p_levels p)) k = Some d} (p_sens_val_to_name p') []"
    and roles: "hashtab_abs (table (p_roles p')) = map_option (cached_role p') \<circ> hashtab_abs (table (p_roles p))" "val_total (p_role_val_to_name p') (nprim (p_roles p))"
      "agree (p_role_val_to_name p') (role_val_to_struct p') (hashtab_abs (table (p_roles p')))"
      "indexes (\<lambda>_. True) rd_value {(k, d). hashtab_abs (table (p_roles p)) k = Some d} (p_role_val_to_name p') []"
    and users: "hashtab_abs (table (p_users p')) = map_option cached_user \<circ> hashtab_abs (table (p_users p))" "val_total (p_user_val_to_name p') (nprim (p_users p))"
      "agree (p_user_val_to_name p') (user_val_to_struct p') (hashtab_abs (table (p_users p')))"
      "indexes (\<lambda>_. True) ud_value {(k, d). hashtab_abs (table (p_users p)) k = Some d} (p_user_val_to_name p') []"
    and fit: "types_ok p'" "\<forall>k d. hashtab_abs (table (p_roles p)) k = Some d \<longrightarrow> type_set_ok p' (rd_types d)" by blast
  have r: "val_total (role_val_to_struct p') (nprim (p_roles p))" "\<And>d. Some d \<in> set (role_val_to_struct p') \<Longrightarrow> \<exists>k. hashtab_abs (table (p_roles p')) k = Some d"
    using agree_total [OF roles(3,2)] roles(4) by (fastforce simp: roles(1) indexes_def)+
  have u: "val_total (user_val_to_struct p') (nprim (p_users p))" "\<And>d. Some d \<in> set (user_val_to_struct p') \<Longrightarrow> \<exists>k. hashtab_abs (table (p_users p')) k = Some d"
    using agree_total [OF users(3,2)] users(4) by (fastforce simp: users(1) indexes_def)+
  have cr: "ebitmap_ok (rd_cache d)" if "hashtab_abs (table (p_roles p')) k = Some d" for k d
    using that fit cached_role_denotes [OF fit(1)] by (auto simp: roles(1))
  have cu: "ebitmap_ok (ud_cache d) \<and> range_ok (ud_exp_range d) \<and> level_ok (ud_exp_dfltlevel d)" if "hashtab_abs (table (p_users p')) k = Some d" for k d
    using that s by (auto simp: users(1) cached_user_def)
  have "rbac_db_ok p'" using r u cr cu unfolding rbac_db_ok_def eqs by blast
  moreover have "\<exists>ld. hashtab_abs (table (p_levels p)) n = Some ld \<and> level_ok (ld_level ld)" if "Some n \<in> set (p_sens_val_to_name p')" for n
    using that sens(2) s by (fastforce simp: indexes_def in_set_conv_nth)
  then have "mls_db_ok p'" using t sens(1) u cu unfolding mls_db_ok_def eqs by blast
  ultimately show ?thesis using run by blast
qed

text \<open>Each round of the loop fails or leaves the tables of the later rounds alone.\<close>

abbreviation refused :: "policydb res \<times> bool list \<Rightarrow> bool" where
  "refused r \<equiv> r = (Inl STATUS_ERR, [])"

lemma refused_step:
  assumes "decides bad m x" "\<And>n s. \<not> bad \<Longrightarrow> refused (f (x n s) [])"
  shows "refused (bindE m f [])"
  using assms by (cases bad) (auto simp: bindE_def decides_def)

lemma refused_last: "decides bad m x \<Longrightarrow> bad \<Longrightarrow> refused (bindE m f [])"
  by (simp add: bindE_def decides_def)

text \<open>A role, primary type, user, Boolean, sensitivity or category whose value is 0 or greater than the
  number of symbols of its table makes \<open>policydb_index_others\<close> fail; the value is never used as an index.\<close>

theorem policydb_index_refuses:
  assumes "hashtab_ok (table (p_roles p))" "hashtab_ok (table (p_types p))" "hashtab_ok (table (p_users p))"
    "hashtab_ok (table (p_bools p))" "hashtab_ok (table (p_levels p))" "hashtab_ok (table (p_cats p))"
    "bad_symbol (\<lambda>_. True) rd_value (p_roles p) \<or> bad_symbol primary td_value (p_types p) \<or> bad_symbol (\<lambda>_. True) ud_value (p_users p)
     \<or> bad_symbol (\<lambda>_. True) cbd_value (p_bools p) \<or> bad_symbol (\<lambda>d. ld_isalias d = 0) (\<lambda>d. sens (ld_level d)) (p_levels p)
     \<or> bad_symbol (\<lambda>d. catd_isalias d = 0) catd_value (p_cats p)"
  shows "policydb_index_others p [] = (Inl STATUS_ERR, [])"
  unfolding policydb_index_others_def Let_def bindE_malloc_nil bindE_bools_nil
  using assms
  by (intro refused_step [OF ix_role.index_table_step] refused_step [OF ix_type.index_table_step] refused_step [OF ix_user.index_table_step]
      refused_step [OF ix_bool.index_table_step] refused_step [OF ix_sens.index_table_step] refused_last [OF ix_cat.index_table_step]) simp_all

text \<open>Claim C25. After indexing, the table of structures gives for every value of a role the role of that value, named by the
  table of names and shared with the symbol table, whose cache holds exactly the types its set of types denotes.\<close>

theorem policydb_index_role_cache:
  assumes "tables_ok p" "sets_ok p" "policydb_index_others p [] = (Inr p', [])" "v \<noteq> 0" "v \<le> nprim (p_roles p)"
  shows "\<exists>k d d'. hashtab_abs (table (p_roles p)) k = Some d \<and> rd_value d = v
    \<and> val_deref (p_role_val_to_name p') v = Inr k \<and> val_deref (role_val_to_struct p') v = Inr d'
    \<and> hashtab_abs (table (p_roles p')) k = Some d' \<and> rd_value d' = v
    \<and> ebitmap_bits (rd_cache d') = type_set_denotes p' (rd_types d) True"
proof -
  from index_others_run [OF assms(1,2)] assms(3) have
    fit: "types_ok p'" "\<And>k d. hashtab_abs (table (p_roles p)) k = Some d \<Longrightarrow> type_set_ok p' (rd_types d)"
    and roles: "hashtab_abs (table (p_roles p')) = map_option (cached_role p') \<circ> hashtab_abs (table (p_roles p))" "val_total (p_role_val_to_name p') (nprim (p_roles p))"
      "agree (p_role_val_to_name p') (role_val_to_struct p') (hashtab_abs (table (p_roles p')))"
      "indexes (\<lambda>_. True) rd_value {(k, d). hashtab_abs (table (p_roles p)) k = Some d} (p_role_val_to_name p') []" by auto
  define i where "i = unat v - 1"
  have v: "unat v = Suc i" using assms(4) unat_gt_0 [of v] by (simp add: i_def)
  from val_deref_total [OF roles(2) assms(4,5)] obtain k where
    k: "val_deref (p_role_val_to_name p') v = Inr k" "p_role_val_to_name p' ! i = Some k" "i < length (p_role_val_to_name p')" by (auto simp: i_def)
  from roles(4) k(2,3) obtain d where d: "hashtab_abs (table (p_roles p)) k = Some d" "unat (rd_value d) = Suc i" unfolding indexes_def by blast
  then have dv: "rd_value d = v" using v by (metis unsigned_word_eqI)
  let ?d = "cached_role p' d"
  have d': "hashtab_abs (table (p_roles p')) k = Some ?d" using d by (simp add: roles(1))
  then have "role_val_to_struct p' ! i = Some ?d" "i < length (role_val_to_struct p')" using roles(3) k(2,3) by (auto simp: agree_def)
  then have "val_deref (role_val_to_struct p') v = Inr ?d" using v assms(4) by (simp add: val_deref_def val_get_def unat_minus_1)
  then show ?thesis using k(1) d d' dv cached_role_denotes(2) [OF fit(1) fit(2) [OF d(1)]] cs_role.val_new [of p' d] by blast
qed

section \<open>Initial SIDs\<close>

text \<open>An initial SID and its context.\<close>

definition isid_of :: "ocontext \<Rightarrow> u32 \<times> context_struct" where
  "isid_of c = (fst (oc_sid c), fst (oc_context c))"

lemma load_isid_fold:
  assumes "sidtab_ok s" "distinct (map (fst \<circ> oc_sid) cs)" "\<forall>c \<in> set cs. sid_map s (fst (oc_sid c)) = None"
    "\<forall>c \<in> set cs. c_user (fst (oc_context c)) \<noteq> 0 \<and> sid_adm (fst (oc_sid c)) (fst (oc_context c))"
  shows "\<exists>s'. returns (foldE load_isid cs s) (Inr s') \<and> sidtab_ok s' \<and> sid_map s' = sid_map s ++ map_of (map isid_of cs)"
  using assms
proof (induction cs arbitrary: s)
  case (Cons c cs)
  let ?k = "fst (oc_sid c)" let ?d = "fst (oc_context c)"
  from sidm.ins_new [OF Cons.prems(1), of ?k ?d] Cons.prems(3,4) obtain s1 where
    s1: "yields (sepol_sidtab_insert s ?k ?d) (Inr s1)" "sidtab_ok s1" "sid_map s1 = (sid_map s)(?k \<mapsto> ?d)" by auto
  have fresh: "\<forall>c \<in> set cs. sid_map s1 (fst (oc_sid c)) = None" using Cons.prems(2,3) by (simp add: s1(3) image_iff) metis
  from Cons.IH [OF s1(2) _ fresh] Cons.prems(2,4) obtain s2 where
    s2: "returns (foldE load_isid cs s1) (Inr s2)" "sidtab_ok s2" "sid_map s2 = sid_map s1 ++ map_of (map isid_of cs)" by auto
  have "returns (load_isid c s) (Inr s1)" using Cons.prems(4) returns_status [OF returns_yields [OF s1(1)]] by (simp add: load_isid_def)
  from returns_bindE_Inr [OF this, of "foldE load_isid cs"] s2(1) have "returns (foldE load_isid (c # cs) s) (Inr s2)" by simp
  moreover have "map_of (map isid_of cs) ?k = None" using Cons.prems(2) by (force simp: map_of_eq_None_iff isid_of_def)
  then have "sid_map s2 = sid_map s ++ map_of (map isid_of (c # cs))"
    by (auto simp: s2(3) s1(3) isid_of_def fun_eq_iff map_add_def split: option.splits)
  ultimately show ?case using s2(2) by blast
qed simp

text \<open>When the initial SIDs of the policy are distinct and their contexts have a user, loading them fills a well-formed
  SID table with exactly them, or fails for lack of memory.\<close>

theorem policydb_load_isids_fills:
  assumes "distinct (map (fst \<circ> oc_sid) (oc_isid p))"
    "\<forall>c \<in> set (oc_isid p). c_user (fst (oc_context c)) \<noteq> 0 \<and> sid_adm (fst (oc_sid c)) (fst (oc_context c))"
  shows "\<exists>s. returns (policydb_load_isids p) (Inr s) \<and> sidtab_ok s
    \<and> sid_map s = map_of (map isid_of (oc_isid p))"
proof -
  let ?s0 = "\<lparr>st_htable = Some (replicate SIDTAB_SIZE []), st_nel = 0, st_next_sid = 1, st_shutdown = False\<rparr>"
  have "sepol_sidtab_init [] = (Inr ?s0, [])" using returns_no_oom [OF returns_yields [OF sidtab_init_yields]] by simp
  note s0 = sidtab_init_ok [OF this]
  from load_isid_fold [OF s0(1) assms(1) _ assms(2)] obtain s where s: "returns (foldE load_isid (oc_isid p) ?s0) (Inr s)" "sidtab_ok s"
    "sid_map s = map_of (map isid_of (oc_isid p))" by (auto simp: s0(2))
  have "returns (policydb_load_isids p) (Inr s)" unfolding policydb_load_isids_def
    by (rule returns_bindE_Inr [OF returns_status [OF returns_yields [OF sidtab_init_yields]]], rule s(1))
  then show ?thesis using s by blast
qed

section \<open>A policy with an attribute\<close>

text \<open>The sample policy with a fourth type, an attribute of the types \<open>init_t\<close> and \<open>shell_t\<close>, which the process role is allowed.\<close>

definition index_attr :: type_datum where
  "index_attr = \<lparr>td_value = 4, td_primary = 1, td_flavor = TYPE_ATTRIB, td_types = bits_of 5, td_flags = 0, td_bounds = 0\<rparr>"

definition index_sys_r :: role_datum where
  "index_sys_r = sample_sys_r\<lparr>rd_types := \<lparr>ts_types = bits_of 8, ts_negset = ebitmap_init, ts_flags = 0\<rparr>, rd_cache := ebitmap_init\<rparr>"

definition index_db :: policydb where
  "index_db = sample_db\<lparr>
     p_roles := symtab_of [(''object_r'', sample_object_r), (''sys_r'', index_sys_r)] 2,
     p_types := symtab_of [(''domain'', index_attr), (''file_t'', sample_type 2), (''init_t'', sample_type 1), (''shell_t'', sample_type 3)] 4,
     p_bools := symtab_of [] 0\<rparr>"

lemma index_tables [simp]:
  "hashtab_ok (table (p_roles index_db))" "hashtab_ok (table (p_types index_db))" "hashtab_ok (table (p_bools index_db))"
  "hashtab_abs (table (p_roles index_db)) = map_of [(''object_r'', sample_object_r), (''sys_r'', index_sys_r)]"
  "hashtab_abs (table (p_types index_db)) = map_of [(''domain'', index_attr), (''file_t'', sample_type 2), (''init_t'', sample_type 1), (''shell_t'', sample_type 3)]"
  "hashtab_abs (table (p_bools index_db)) = Map.empty"
  "p_users index_db = p_users sample_db" "p_levels index_db = p_levels sample_db" "p_cats index_db = p_cats sample_db"
  "nprim (p_roles index_db) = 2" "nprim (p_types index_db) = 4" "nprim (p_bools index_db) = 0"
  "nprim (p_users sample_db) = 1" "nprim (p_levels sample_db) = 1" "nprim (p_cats sample_db) = 2"
  "hashtab_abs (table (p_cats sample_db)) = map_of [(''c0'', \<lparr>catd_value = 1, catd_isalias = 0\<rparr>), (''c1'', \<lparr>catd_value = 2, catd_isalias = 0\<rparr>)]"
  by (simp_all add: index_db_def sample_db_def symtab_of_ok symcmp_def)

lemma covers_map_of:
  assumes "list_all (\<lambda>(k, d). in_range indexed val n d) xs"
    "list_all (\<lambda>i. list_ex (\<lambda>(k, d). map_of xs k = Some d \<and> indexed d \<and> unat (val d) = Suc i) xs) [0..<unat n]"
  shows "covers indexed val n (map_of xs)"
  using assms unfolding covers_def list_all_iff list_ex_iff by (fastforce dest: map_of_SomeD)

lemmas index_db_defs = in_range_def sample_object_r_def index_sys_r_def sample_sys_r_def index_attr_def sample_type_def sample_user_def
  sample_clear_def sample_level_def sample_range_def

lemma index_db_tables_ok: "tables_ok index_db"
  unfolding tables_ok_def index_tables sample_tables_abs
  by (intro conjI covers_map_of index_tables sample_tables_ok) (simp_all add: index_db_defs upt_rec covers_def)

lemma bits_of_bits: "ebitmap_bits (bits_of w) = set (filter (bit w) [0..<64])"
  by (auto simp: bits_of_def ebitmap_bits_def node_has_def)

lemma index_bits [simp]:
  "ebitmap_bits (bits_of 5) = {0, 2}" "ebitmap_bits (bits_of 7) = {0, 1, 2}" "ebitmap_bits (bits_of 8) = {3}"
  unfolding bits_of_bits by code_simp+

lemma index_db_sets_ok: "sets_ok index_db"
  unfolding sets_ok_def index_tables sample_tables_abs
  by (intro conjI) (auto simp: sample_object_r_def index_sys_r_def sample_sys_r_def index_attr_def sample_type_def sample_user_def bits_of_ok split: if_splits)

lemmas index_db_ok = index_db_tables_ok index_db_sets_ok

theorem policydb_index_establishes_witness:
  "tables_ok index_db \<and> sets_ok index_db
   \<and> (\<exists>p'. policydb_index_others index_db [] = (Inr p', []) \<and> rbac_db_ok p' \<and> mls_db_ok p')"
  using policydb_index_establishes [OF index_db_ok] index_db_ok by blast

text \<open>The process role is the second one; its cache holds the types of the attribute.\<close>

lemma index_db_run: "\<exists>p'. policydb_index_others index_db [] = (Inr p', [])"
  using index_others_run [OF index_db_ok] by blast

theorem policydb_index_role_cache_witness:
  "\<exists>p' k d d'. policydb_index_others index_db [] = (Inr p', []) \<and> hashtab_abs (table (p_roles index_db)) k = Some d \<and> rd_value d = 2
    \<and> val_deref (p_role_val_to_name p') 2 = Inr k \<and> val_deref (role_val_to_struct p') 2 = Inr d'
    \<and> ebitmap_bits (rd_cache d') = type_set_denotes p' (rd_types d) True"
proof -
  from index_db_run obtain p' where run: "policydb_index_others index_db [] = (Inr p', [])" by blast
  have "(2 :: u32) \<noteq> 0" "2 \<le> nprim (p_roles index_db)" by simp_all
  from policydb_index_role_cache [OF index_db_ok run this] run show ?thesis by blast
qed

text \<open>A category whose value is beyond the two of the policy.\<close>

definition bad_db :: policydb where
  "bad_db = index_db\<lparr>p_cats := symtab_of [(''c0'', \<lparr>catd_value = 1, catd_isalias = 0\<rparr>), (''c1'', \<lparr>catd_value = 3, catd_isalias = 0\<rparr>)] 2\<rparr>"

theorem policydb_index_refuses_witness:
  "hashtab_abs (table (p_cats bad_db)) ''c1'' = Some \<lparr>catd_value = 3, catd_isalias = 0\<rparr> \<and> policydb_index_others bad_db [] = (Inl STATUS_ERR, [])"
proof -
  have c: "hashtab_ok (table (p_cats bad_db))" "hashtab_abs (table (p_cats bad_db)) ''c1'' = Some \<lparr>catd_value = 3, catd_isalias = 0\<rparr>"
    "nprim (p_cats bad_db) = 2" by (simp_all add: bad_db_def symtab_of_ok symcmp_def)
  have "bad_symbol (\<lambda>d. catd_isalias d = 0) catd_value (p_cats bad_db)"
    unfolding bad_symbol_def by (intro conjI exI [of _ "''c1''"] exI) (simp_all only: c, simp_all add: in_range_def)
  moreover have "p_roles bad_db = p_roles index_db" "p_types bad_db = p_types index_db" "p_users bad_db = p_users sample_db" "p_bools bad_db = p_bools index_db"
    "p_levels bad_db = p_levels sample_db" by (simp_all add: bad_db_def)
  ultimately show ?thesis using policydb_index_refuses [of bad_db] c by simp
qed

text \<open>Two initial SIDs.\<close>

definition isid_db :: policydb where
  "isid_db = index_db\<lparr>oc_isid := [\<lparr>oc_u = OName ''kernel'', oc_v = 0, oc_context = (sample_context 2 1, context_init), oc_sid = (1, 0)\<rparr>,
     \<lparr>oc_u = OName ''file'', oc_v = 0, oc_context = (sample_context 1 2, context_init), oc_sid = (5, 0)\<rparr>]\<rparr>"

theorem policydb_load_isids_fills_witness:
  "\<exists>s. returns (policydb_load_isids isid_db) (Inr s) \<and> sidtab_ok s \<and> sid_map s 5 = Some (sample_context 1 2) \<and> sid_map s 2 = None"
proof -
  have "c_user (sample_context r t) \<noteq> 0" for r t by (simp add: sample_context_def)
  then have "\<forall>c \<in> set (oc_isid isid_db). c_user (fst (oc_context c)) \<noteq> 0 \<and> sid_adm (fst (oc_sid c)) (fst (oc_context c))"
    "distinct (map (fst \<circ> oc_sid) (oc_isid isid_db))" by (simp_all add: isid_db_def sid_adm_def)
  from policydb_load_isids_fills [OF this(2,1)] show ?thesis by (auto simp: isid_db_def isid_of_def)
qed

end
