(* ===== verification/Policydb_Image.thy ===== *)
theory Policydb_Image
  imports Policydb_Sections Rules_Image Policydb_Index Services
begin

text \<open>
  The image of a kernel policy: \<open>policydb_init\<close> and \<open>policydb_read\<close> (policydb.c), \<open>policydb_write\<close> (write.c). The image is a header, the
  symbol tables, the rules, and, behind the point at which the reader indexes the policy, the labels and the maps between types and
  attributes. Reading a module is an argument; the tables and blocks that only modules use are left out.
\<close>

unbundle bit_operations_syntax

section \<open>Initialization\<close>

definition roles_init :: "policydb \<Rightarrow> policydb alloc_m" where
  "roles_init p = bindE malloc (\<lambda>_. bindE malloc (\<lambda>_.
     let v = nprim (p_roles p) + 1 in
     bindE (hashtab_insert (table (p_roles p)) OBJECT_R \<lparr>rd_value = v, rd_dominates = ebitmap_init,
         rd_types = type_set_init, rd_cache = ebitmap_init, rd_bounds = 0, rd_flavor = 0, rd_roles = ebitmap_init\<rparr>) (\<lambda>t.
       if v \<noteq> OBJECT_R_VAL then throwE EINVAL else returnE (p\<lparr>p_roles := \<lparr>table = t, nprim = v\<rparr>\<rparr>))))"

definition policydb_init :: "bool \<Rightarrow> policydb alloc_m" where
  "policydb_init sc =
     bindE (symtab_init sc 2) (\<lambda>commons. bindE (symtab_init sc 32) (\<lambda>classes. bindE (symtab_init sc 16) (\<lambda>roles.
     bindE (symtab_init sc 512) (\<lambda>types. bindE (symtab_init sc 128) (\<lambda>users. bindE (symtab_init sc 16) (\<lambda>bools.
     bindE (symtab_init sc 16) (\<lambda>levels. bindE (symtab_init sc 16) (\<lambda>cats.
       let p = policydb_zero\<lparr>p_commons := commons, p_classes := classes, p_roles := roles, p_types := types, p_users := users,
         p_bools := bools, p_levels := levels, p_cats := cats, te_avtab := avtab_init avtab_zero\<rparr> in
       bindE (roles_init p) (\<lambda>p1. returnE (cond_policydb_init p1))))))))))"

section \<open>The header\<close>

abbreviation (input) "POLICYDB_MAGIC \<equiv> 0xf97cff8c :: u32"
abbreviation (input) "POLICYDB_MOD_MAGIC \<equiv> 0xf97cff8d :: u32"
abbreviation (input) "POLICYDB_STRING_MAX_LENGTH \<equiv> 32 :: u32"
abbreviation (input) "POLICYDB_CONFIG_MLS \<equiv> 1 :: u32"
abbreviation (input) "POLICYDB_CONFIG_UNKNOWN_MASK \<equiv> 6 :: u32"

text \<open>The number of symbol tables and of lists of object contexts, by version and platform.\<close>

definition policydb_compat :: "((u32 \<times> u32) \<times> nat \<times> nat) list" where
  "policydb_compat = [((24, SEPOL_TARGET_XEN), 8, 5), ((15, SEPOL_TARGET_SELINUX), 5, 6), ((16, SEPOL_TARGET_SELINUX), 6, 6),
     ((17, SEPOL_TARGET_SELINUX), 6, 7), ((18, SEPOL_TARGET_SELINUX), 6, 7), ((19, SEPOL_TARGET_SELINUX), 8, 7), ((20, SEPOL_TARGET_SELINUX), 8, 7),
     ((21, SEPOL_TARGET_SELINUX), 8, 7), ((22, SEPOL_TARGET_SELINUX), 8, 7), ((23, SEPOL_TARGET_SELINUX), 8, 7), ((24, SEPOL_TARGET_SELINUX), 8, 7),
     ((25, SEPOL_TARGET_SELINUX), 8, 7), ((26, SEPOL_TARGET_SELINUX), 8, 7), ((27, SEPOL_TARGET_SELINUX), 8, 7), ((28, SEPOL_TARGET_SELINUX), 8, 7),
     ((29, SEPOL_TARGET_SELINUX), 8, 7)]"

definition policydb_lookup_compat :: "u32 \<Rightarrow> u32 \<Rightarrow> (nat \<times> nat) option" where
  "policydb_lookup_compat version platform = map_of policydb_compat (version, platform)"

definition policydb_target_strings :: "string list" where
  "policydb_target_strings = [''SE Linux'', ''XenFlask'']"

definition policydb_set_target_platform :: "policydb \<Rightarrow> u32 \<Rightarrow> policydb" where
  "policydb_set_target_platform p platform = (if platform = SEPOL_TARGET_SELINUX then p\<lparr>target_platform := SEPOL_TARGET_SELINUX\<rparr>
     else if platform = SEPOL_TARGET_XEN then p\<lparr>target_platform := SEPOL_TARGET_XEN\<rparr> else p)"

definition find_target :: "string \<Rightarrow> u32 option" where
  "find_target s = (if strcmp s (policydb_target_strings ! 0) = 0 then Some 0 else if strcmp s (policydb_target_strings ! 1) = 0 then Some 1 else None)"

text \<open>The version, the configuration and the sizes of the tables; the policy is only changed behind the test of the version.\<close>

definition read_config :: "policydb \<Rightarrow> (policydb \<times> nat \<times> nat) reader" where
  "read_config p = bindP (next_u32s 4) (\<lambda>buf. let r_policyvers = buf ! 0; config = buf ! 1 in
     if r_policyvers < POLICYDB_VERSION_MIN \<or> r_policyvers > POLICYDB_VERSION_MAX then throwP STATUS_ERR
     else let p1 = p\<lparr>policyvers := r_policyvers, p_mls := (config AND POLICYDB_CONFIG_MLS \<noteq> 0), handle_unknown := config AND POLICYDB_CONFIG_UNKNOWN_MASK\<rparr> in
       case policydb_lookup_compat r_policyvers (target_platform p1) of
         None \<Rightarrow> throwP STATUS_ERR
       | Some (sym_num, ocon_num) \<Rightarrow> if buf ! 2 \<noteq> of_nat sym_num \<or> buf ! 3 \<noteq> of_nat ocon_num then throwP STATUS_ERR else returnP (p1, sym_num, ocon_num))"

definition read_identifier :: "u32 \<Rightarrow> string reader" where
  "read_identifier len = (if len > POLICYDB_STRING_MAX_LENGTH then throwP STATUS_ERR else next_key len)"

section \<open>Symbol tables\<close>

definition read_symtab :: "((string, 'd) hashtab_t \<Rightarrow> (string, 'd) hashtab_t reader) \<Rightarrow> 'd symtab \<Rightarrow> 'd symtab reader" where
  "read_symtab rd s = bindP (next_u32s 2) (\<lambda>buf. bindP (repeatP (unat (buf ! 1)) rd (table s)) (\<lambda>t. returnP \<lparr>table = t, nprim = buf ! 0\<rparr>))"

fun read_sym :: "bool \<Rightarrow> nat \<Rightarrow> policydb \<Rightarrow> policydb reader" where
  "read_sym sc 0 p = bindP (read_symtab (common_read sc) (p_commons p)) (\<lambda>s. returnP (p\<lparr>p_commons := s\<rparr>))"
| "read_sym sc (Suc 0) p = bindP (read_symtab (class_read sc p) (p_classes p)) (\<lambda>s. returnP (p\<lparr>p_classes := s\<rparr>))"
| "read_sym sc (Suc (Suc 0)) p = bindP (read_symtab (role_read p) (p_roles p)) (\<lambda>s. returnP (p\<lparr>p_roles := s\<rparr>))"
| "read_sym sc (Suc (Suc (Suc 0))) p = bindP (read_symtab (type_read p) (p_types p)) (\<lambda>s. returnP (p\<lparr>p_types := s\<rparr>))"
| "read_sym sc (Suc (Suc (Suc (Suc 0)))) p = bindP (read_symtab (user_read p) (p_users p)) (\<lambda>s. returnP (p\<lparr>p_users := s\<rparr>))"
| "read_sym sc (Suc (Suc (Suc (Suc (Suc 0))))) p = bindP (read_symtab cond_read_bool (p_bools p)) (\<lambda>s. returnP (p\<lparr>p_bools := s\<rparr>))"
| "read_sym sc (Suc (Suc (Suc (Suc (Suc (Suc 0)))))) p = bindP (read_symtab sens_read (p_levels p)) (\<lambda>s. returnP (p\<lparr>p_levels := s\<rparr>))"
| "read_sym sc (Suc (Suc (Suc (Suc (Suc (Suc (Suc _))))))) p = bindP (read_symtab cat_read (p_cats p)) (\<lambda>s. returnP (p\<lparr>p_cats := s\<rparr>))"

definition write_symtab :: "(string \<Rightarrow> 'd \<Rightarrow> writer) \<Rightarrow> ('d \<Rightarrow> bool) \<Rightarrow> 'd symtab \<Rightarrow> writer" where
  "write_symtab wr uncounted s fp = bindE (liftE (table_nel (table s))) (\<lambda>nel.
     bindE (hashtab_map (table s) (\<lambda>_ d n. returnE (if uncounted d then n - 1 else n)) nel) (\<lambda>n.
       seqW (put_u32s [nprim s, n]) (failW (hashtab_map (table s) wr) STATUS_ERR) fp))"

fun write_sym :: "bool \<Rightarrow> policydb \<Rightarrow> nat \<Rightarrow> writer" where
  "write_sym sc p 0 = write_symtab common_write (\<lambda>_. False) (p_commons p)"
| "write_sym sc p (Suc 0) = write_symtab (class_write sc p) (\<lambda>_. False) (p_classes p)"
| "write_sym sc p (Suc (Suc 0)) = write_symtab (role_write p) (\<lambda>d. rd_flavor d = ROLE_FLAVOR_ATTRIB) (p_roles p)"
| "write_sym sc p (Suc (Suc (Suc 0))) = write_symtab (type_write p) (\<lambda>d. policyvers p < POLICYDB_VERSION_BOUNDARY \<and> td_flavor d = TYPE_ATTRIB) (p_types p)"
| "write_sym sc p (Suc (Suc (Suc (Suc 0)))) = write_symtab (user_write p) (\<lambda>_. False) (p_users p)"
| "write_sym sc p (Suc (Suc (Suc (Suc (Suc 0))))) = write_symtab cond_write_bool (\<lambda>_. False) (p_bools p)"
| "write_sym sc p (Suc (Suc (Suc (Suc (Suc (Suc 0)))))) = write_symtab sens_write (\<lambda>_. False) (p_levels p)"
| "write_sym sc p (Suc (Suc (Suc (Suc (Suc (Suc (Suc _))))))) = write_symtab cat_write (\<lambda>_. False) (p_cats p)"

section \<open>Rules\<close>

definition read_rules :: "policydb \<Rightarrow> policydb reader" where
  "read_rules p = bindP (\<lambda>fp. avtab_read (te_avtab p) fp (policyvers p)) (\<lambda>a. let p1 = p\<lparr>te_avtab := a\<rparr> in
     bindP (if policyvers p \<ge> POLICYDB_VERSION_BOOL then cond_read_list p1 else returnP p1) (\<lambda>p2.
     bindP (role_trans_read p2) (\<lambda>p3. bindP (role_allow_read p3) (\<lambda>p4.
       if policyvers p \<ge> POLICYDB_VERSION_FILENAME_TRANS then filename_trans_read p4 else returnP p4))))"

definition write_rules :: "policydb \<Rightarrow> writer" where
  "write_rules p = seqW (te_avtab_write p (te_avtab p))
     (seqW (if policyvers p < POLICYDB_VERSION_BOOL then returnE else cond_write_list p (cond_list p))
     (seqW (role_trans_write p) (seqW (role_allow_write (role_allows p))
       (if policyvers p \<ge> POLICYDB_VERSION_FILENAME_TRANS then filename_trans_write (p_filename_trans p) else returnE))))"

section \<open>Maps between types and attributes\<close>

text \<open>For every type the bits of its attributes are read, the type is added to each of them and to itself. The bits are not
  compared with the number of types.\<close>

definition add_attr :: "u32 \<Rightarrow> u32 \<Rightarrow> ebitmap list \<Rightarrow> ebitmap list alloc_m" where
  "add_attr i j am = (if i = j then returnE am else bindE (liftE (array_get am (unat j))) (\<lambda>e.
     bindE (ebitmap_set_bit e i True) (\<lambda>e'. returnE (am[unat j := e']))))"

definition read_attrs :: "policydb \<Rightarrow> u32 \<Rightarrow> ebitmap list \<times> ebitmap list \<Rightarrow> (ebitmap list \<times> ebitmap list) reader" where
  "read_attrs p i = (\<lambda>(tm, am). bindP (if policyvers p \<ge> POLICYDB_VERSION_AVTAB then ebitmap_read else returnP ebitmap_init) (\<lambda>e.
     bindP (liftP (bindE (liftE (ebitmap_positive_bits e)) (\<lambda>bs. foldE (add_attr i) bs am))) (\<lambda>am'.
     bindP (liftP (ebitmap_set_bit e i True)) (\<lambda>e'. returnP (tm[unat i := e'], am')))))"

definition read_attr_maps :: "policydb \<Rightarrow> policydb reader" where
  "read_attr_maps p = bindP (liftP malloc) (\<lambda>_. bindP (liftP malloc) (\<lambda>_. let n = unat (nprim (p_types p)) in
     bindP (foldP (read_attrs p) (map of_nat [0..<n]) (replicate n ebitmap_init, replicate n ebitmap_init)) (\<lambda>(tm, am).
       returnP (p\<lparr>type_attr_map := tm, attr_type_map := am\<rparr>))))"

definition write_attr_maps :: "policydb \<Rightarrow> writer" where
  "write_attr_maps p = (if policyvers p \<ge> POLICYDB_VERSION_AVTAB
     then foldE (\<lambda>i fp. bindE (liftE (array_get (type_attr_map p) i)) (\<lambda>e. liftW (ebitmap_write e) fp)) [0..<unat (nprim (p_types p))] else returnE)"

section \<open>The whole image\<close>

text \<open>The declarations of modules are counted and stored; a kernel policy has the block that \<open>policydb_init\<close> made.\<close>

definition policydb_index_decls :: "policydb \<Rightarrow> policydb alloc_m" where
  "policydb_index_decls p = bindE (failE malloc STATUS_ERR) (\<lambda>_. returnE p)"

definition index_image :: "policydb \<Rightarrow> policydb alloc_m" where
  "index_image p = bindE (policydb_index_decls p) (\<lambda>p1. bindE (policydb_index_classes p1) policydb_index_others)"

definition read_labels :: "nat \<Rightarrow> policydb \<Rightarrow> policydb reader" where
  "read_labels ocon_num p = bindP (ocontext_read ocon_num p) (\<lambda>p1. bindP (genfs_read p1) (\<lambda>p2.
     bindP (if policyvers p2 \<ge> POLICYDB_VERSION_MLS then range_read p2 else returnP p2) read_attr_maps))"

definition write_labels :: "nat \<Rightarrow> policydb \<Rightarrow> writer" where
  "write_labels ocon_num p = seqW (ocontext_write ocon_num p) (seqW (genfs_write p)
     (seqW (if policyvers p \<ge> POLICYDB_VERSION_MLS then range_write p else returnE) (write_attr_maps p)))"

definition read_caps :: "policydb \<Rightarrow> policydb reader" where
  "read_caps p = bindP (if policyvers p \<ge> POLICYDB_VERSION_POLCAP then bindP ebitmap_read (\<lambda>e. returnP (p\<lparr>policycaps := e\<rparr>)) else returnP p) (\<lambda>p1.
     if policyvers p \<ge> POLICYDB_VERSION_PERMISSIVE then bindP ebitmap_read (\<lambda>e. returnP (p1\<lparr>permissive_map := e\<rparr>)) else returnP p1)"

definition write_caps :: "policydb \<Rightarrow> writer" where
  "write_caps p = seqW (if policyvers p \<ge> POLICYDB_VERSION_POLCAP then liftW (ebitmap_write (policycaps p)) else returnE)
     (if policyvers p \<ge> POLICYDB_VERSION_PERMISSIVE then liftW (ebitmap_write (permissive_map p)) else returnE)"

definition policydb_read :: "(policydb \<Rightarrow> u32 \<Rightarrow> policydb reader) \<Rightarrow> bool \<Rightarrow> policydb \<Rightarrow> policydb reader" where
  "policydb_read read_module sc p = failP (bindP (next_u32s 2) (\<lambda>buf.
     if buf ! 0 = POLICYDB_MAGIC then
       bindP (read_identifier (buf ! 1)) (\<lambda>s. case find_target s of
         None \<Rightarrow> throwP STATUS_ERR
       | Some platform \<Rightarrow> bindP (read_config (policydb_set_target_platform p platform)) (\<lambda>(p1, sym_num, ocon_num).
           bindP (read_caps p1) (\<lambda>p2. bindP (foldP (read_sym sc) [0..<sym_num] p2) (\<lambda>p3. bindP (read_rules p3) (\<lambda>p4.
           bindP (liftP (index_image p4)) (read_labels ocon_num))))))
     else if buf ! 0 = POLICYDB_MOD_MAGIC then read_module p (buf ! 1)
     else throwP STATUS_ERR)) STATUS_ERR"

text \<open>The warnings about what an old version cannot hold are left out. \<open>POLICYDB_UNSUPPORTED\<close> is \<open>-2\<close>, as \<open>-ENOENT\<close> is.\<close>

definition policydb_write :: "bool \<Rightarrow> policydb \<Rightarrow> writer" where
  "policydb_write sc p = (if unsupported_format p then (\<lambda>_. throwE ENOENT)
     else if p_mls p \<and> policyvers p < POLICYDB_VERSION_MLS then (\<lambda>_. throwE STATUS_ERR)
     else let config = (if p_mls p then POLICYDB_CONFIG_MLS else 0) OR (POLICYDB_CONFIG_UNKNOWN_MASK AND handle_unknown p) in
       (\<lambda>fp. bindE (liftE (array_get policydb_target_strings (unat (target_platform p)))) (\<lambda>policydb_str.
         failW (seqW (put_u32s [POLICYDB_MAGIC, of_nat (length policydb_str)]) (seqW (put_string policydb_str)
           (case policydb_lookup_compat (policyvers p) (target_platform p) of
              None \<Rightarrow> (\<lambda>_. throwE STATUS_ERR)
            | Some (sym_num, ocon_num) \<Rightarrow> seqW (put_u32s [policyvers p, config, of_nat sym_num, of_nat ocon_num])
                (seqW (write_caps p) (seqW (foldE (write_sym sc p) [0..<sym_num]) (seqW (write_rules p) (write_labels ocon_num p))))))) STATUS_ERR fp)))"

end
