(* ===== verification/Image_Roundtrip.thy ===== *)
theory Image_Roundtrip
  imports Policydb_Image
begin

text \<open>
  What is written is what is read: the symbols, the rules, the labels and the whole image of a kernel policy.
\<close>

unbundle bit_operations_syntax

section \<open>Symbol tables: writing and reading\<close>

definition symtab_saved_ok :: "(string \<Rightarrow> 'd \<Rightarrow> bool) \<Rightarrow> (string \<Rightarrow> bool) \<Rightarrow> ('d \<Rightarrow> bool) \<Rightarrow> 'd symtab \<Rightarrow> 'd symtab \<Rightarrow> bool" where
  "symtab_saved_ok ok skip keep s s0 \<longleftrightarrow> hashtab_ok (table s) \<and> (\<forall>t. table s = Some t \<longrightarrow> length (ht_entries t) < 2 ^ 32) \<and> hashtab_ok (table s0)
     \<and> (\<forall>k d. hashtab_abs (table s) k = Some d \<longrightarrow> keep d \<longrightarrow> ok k d \<and> (\<not> skip k \<longrightarrow> hashtab_abs (table s0) k = None))"

definition symtab_loaded :: "('d \<Rightarrow> 'd \<Rightarrow> bool) \<Rightarrow> (string \<Rightarrow> bool) \<Rightarrow> ('d \<Rightarrow> bool) \<Rightarrow> 'd symtab \<Rightarrow> 'd symtab \<Rightarrow> 'd symtab \<Rightarrow> bool" where
  "symtab_loaded same skip keep s s0 s' \<longleftrightarrow> nprim s' = nprim s \<and> loaded same skip (kept keep (hashtab_abs (table s))) (table s0) (table s')"

lemma count_down:
  "foldE (\<lambda>(k, d) n. returnE (if u d then n - 1 else n)) xs (n :: u32) = returnE (n - of_nat (length (filter (\<lambda>(k, d). u d) xs)))"
  by (induction xs arbitrary: n) (auto simp: diff_diff_eq)

context symbol_codec
begin

lemma symtab:
  assumes "symtab_saved_ok ok skip keep s s0"
  shows "code (write_symtab wr (\<lambda>d. \<not> keep d) s) (read_symtab rd s0) (symtab_loaded same skip keep s s0)"
proof -
  note a = assms [unfolded symtab_saved_ok_def]
  obtain t where t: "table s = Some t" using a by (auto simp: hashtab_ok_def)
  have h: "hashtab_ok (Some t)" "length (ht_entries t) < 2 ^ 32" using a t by auto
  let ?n = "length (kept_entries keep t)"
  have "length (filter (\<lambda>(k, d). \<not> keep d) (ht_entries t)) + ?n = length (ht_entries t)"
    unfolding kept_entries_def using sum_length_filter_compl [of "\<lambda>(k, d). keep d" "ht_entries t"] by (simp add: case_prod_unfold)
  then have n: "ht_nel t - of_nat (length (filter (\<lambda>(k, d). \<not> keep d) (ht_entries t))) = of_nat ?n"
    using h(1) by (simp add: hashtab_ok_def) (metis add_diff_cancel_left' of_nat_add)
  have un: "unat (of_nat ?n :: u32) = ?n" by (intro unat_of_nat_u32) (use le_less_trans [OF length_filter_le h(2)] in \<open>simp add: kept_entries_def\<close>)
  have w: "write_symtab wr (\<lambda>d. \<not> keep d) s = seqW (put_u32s [nprim s, of_nat ?n]) (failW (hashtab_map (Some t) wr) STATUS_ERR)"
    unfolding write_symtab_def t by (intro ext) (simp add: table_nel_def deref_def hashtab_map_entries [OF h(1)] count_down n)
  have tab: "code (hashtab_map (Some t) wr) (repeatP ?n rd (table s0)) (loaded same skip (kept keep (hashtab_abs (Some t))) (table s0))"
    using a t by (intro table h(1)) auto
  show ?thesis unfolding w read_symtab_def
    by (rule code_step [OF code_u32s], simp, simp, simp add: un, rule code_end [OF code_failW [OF tab]]) (auto intro!: reads_returnP simp: symtab_loaded_def t)
qed

end

interpretation cls: symbol_codec "class_read sc q" "class_write sc q" "\<lambda>k d. hashtab_ok (table (p_commons q)) \<and> class_saved_ok q k d" "class_same q" no_skip keep_all for sc q
  by unfold_locales (simp_all add: class_code)

text \<open>The writers only look at the version of the policy.\<close>

lemma write_cons_vers:
  assumes "policyvers q = policyvers p"
  shows "write_cons_helper p = write_cons_helper q"
proof -
  have "write_cexpr p = write_cexpr q" using assms by (simp add: fun_eq_iff write_cexpr_def)
  then have "write_cons_node p = write_cons_node q" unfolding write_cons_node_def [abs_def] by simp
  then show ?thesis unfolding write_cons_helper_def [abs_def] by simp
qed

lemma write_vers:
  assumes "policyvers q = policyvers p"
  shows "class_write sc p = class_write sc q" "role_write p = role_write q" "type_write p = type_write q" "user_write p = user_write q"
  using assms by (simp_all add: fun_eq_iff class_write_def role_write_def type_write_def user_write_def policydb_has_boundary_feature_def write_cons_vers [OF assms])

lemma cons_saved_vers: "policyvers q = policyvers p \<Longrightarrow> cons_saved_ok p ax c = cons_saved_ok q ax c"
  by (simp add: cons_saved_ok_def cexpr_saved_ok_def)

lemma class_saved_vers:
  assumes "policyvers q = policyvers p" "\<And>c. hashtab_abs (table (p_commons p)) c \<noteq> None \<Longrightarrow> hashtab_abs (table (p_commons q)) c \<noteq> None" "class_saved_ok p k d"
  shows "class_saved_ok q k d"
  using assms unfolding class_saved_ok_def cons_saved_vers [OF assms(1)] by (auto split: option.splits)

text \<open>What is asked of the symbols that are written (\<open>p\<close>) and of the policy that they are read into (\<open>q\<close>), and what the policy is then
  (\<open>q'\<close>). The role \<open>object_r\<close> is in every policy and is skipped, role attributes are not written, nor are attributes of types before
  version 24.\<close>

definition role_keep :: "role_datum \<Rightarrow> bool" where
  "role_keep d \<longleftrightarrow> rd_flavor d \<noteq> ROLE_FLAVOR_ATTRIB"

definition type_keep :: "policydb \<Rightarrow> type_datum \<Rightarrow> bool" where
  "type_keep p d \<longleftrightarrow> policydb_has_boundary_feature p \<or> td_flavor d \<noteq> TYPE_ATTRIB"

definition syms_saved_ok :: "policydb \<Rightarrow> policydb \<Rightarrow> bool" where
  "syms_saved_ok p q \<longleftrightarrow> policyvers q = policyvers p
     \<and> symtab_saved_ok common_ok no_skip keep_all (p_commons p) (p_commons q)
     \<and> symtab_saved_ok (class_saved_ok p) no_skip keep_all (p_classes p) (p_classes q)
     \<and> symtab_saved_ok role_saved_ok (\<lambda>k. k = OBJECT_R) role_keep (p_roles p) (p_roles q)
     \<and> symtab_saved_ok (\<lambda>k d. name_ok k) no_skip (type_keep p) (p_types p) (p_types q)
     \<and> symtab_saved_ok user_saved_ok no_skip keep_all (p_users p) (p_users q)
     \<and> symtab_saved_ok (\<lambda>k d. name_ok k \<and> bool_isvalid d) no_skip keep_all (p_bools p) (p_bools q)
     \<and> symtab_saved_ok (\<lambda>k d. name_ok k \<and> level_ok (ld_level d)) no_skip keep_all (p_levels p) (p_levels q)
     \<and> symtab_saved_ok (\<lambda>k d. name_ok k) no_skip keep_all (p_cats p) (p_cats q)"

definition syms_same :: "policydb \<Rightarrow> policydb \<Rightarrow> policydb \<Rightarrow> bool" where
  "syms_same p q q' \<longleftrightarrow>
     symtab_loaded common_same no_skip keep_all (p_commons p) (p_commons q) (p_commons q')
     \<and> symtab_loaded (class_same q') no_skip keep_all (p_classes p) (p_classes q) (p_classes q')
     \<and> symtab_loaded (\<lambda>d d'. d' = role_kept p d) (\<lambda>k. k = OBJECT_R) role_keep (p_roles p) (p_roles q) (p_roles q')
     \<and> symtab_loaded (\<lambda>d d'. d' = type_kept p d) no_skip (type_keep p) (p_types p) (p_types q) (p_types q')
     \<and> symtab_loaded (\<lambda>d d'. d' = user_kept p d) no_skip keep_all (p_users p) (p_users q) (p_users q')
     \<and> symtab_loaded (=) no_skip keep_all (p_bools p) (p_bools q) (p_bools q')
     \<and> symtab_loaded (=) no_skip keep_all (p_levels p) (p_levels q) (p_levels q')
     \<and> symtab_loaded (=) no_skip keep_all (p_cats p) (p_cats q) (p_cats q')"

definition syms_loaded :: "policydb \<Rightarrow> policydb \<Rightarrow> policydb \<Rightarrow> bool" where
  "syms_loaded p q q' \<longleftrightarrow>
     q' = q\<lparr>p_commons := p_commons q', p_classes := p_classes q', p_roles := p_roles q', p_types := p_types q', p_users := p_users q',
       p_bools := p_bools q', p_levels := p_levels q', p_cats := p_cats q'\<rparr> \<and> syms_same p q q'"

lemma code_into: "code w r P \<Longrightarrow> (\<And>v. P v \<Longrightarrow> Q (f v)) \<Longrightarrow> code w (bindP r (\<lambda>v. returnP (f v))) Q"
  by (erule code_end) (simp add: reads_returnP)

lemma classes_code:
  assumes "policyvers q = policyvers p" "hashtab_ok (table (p_commons q))"
    and "\<And>c. hashtab_abs (table (p_commons p)) c \<noteq> None \<Longrightarrow> hashtab_abs (table (p_commons q)) c \<noteq> None"
    and "symtab_saved_ok (class_saved_ok p) no_skip keep_all (p_classes p) s0"
  shows "code (write_symtab (class_write sc p) (\<lambda>_. False) (p_classes p)) (read_symtab (class_read sc q) s0)
    (symtab_loaded (class_same q) no_skip keep_all (p_classes p) s0)"
proof -
  have "symtab_saved_ok (\<lambda>k d. hashtab_ok (table (p_commons q)) \<and> class_saved_ok q k d) no_skip keep_all (p_classes p) s0"
    using assms(4) assms(2) class_saved_vers [OF assms(1,3)] unfolding symtab_saved_ok_def by blast
  from cls.symtab [OF this] show ?thesis unfolding write_vers(1) [OF assms(1)] by simp
qed

lemma roles_code:
  assumes "policyvers q = policyvers p" "symtab_saved_ok role_saved_ok (\<lambda>k. k = OBJECT_R) role_keep (p_roles p) s0"
  shows "code (write_symtab (role_write p) (\<lambda>d. rd_flavor d = ROLE_FLAVOR_ATTRIB) (p_roles p)) (read_symtab (role_read q) s0)
    (symtab_loaded (\<lambda>d d'. d' = role_kept p d) (\<lambda>k. k = OBJECT_R) role_keep (p_roles p) s0)"
proof -
  have k: "role_kept q = role_kept p" using assms(1) by (simp add: fun_eq_iff role_kept_def policydb_has_boundary_feature_def)
  have e: "role_keep = (\<lambda>d. rd_flavor d \<noteq> ROLE_FLAVOR_ATTRIB)" by (simp add: fun_eq_iff role_keep_def)
  from role.symtab [OF assms(2) [unfolded e], of q] show ?thesis unfolding write_vers(2) [OF assms(1)] k e by simp
qed

lemma types_code:
  assumes "policyvers q = policyvers p" "symtab_saved_ok (\<lambda>k d. name_ok k) no_skip (type_keep p) (p_types p) s0"
  shows "code (write_symtab (type_write p) (\<lambda>d. policyvers p < POLICYDB_VERSION_BOUNDARY \<and> td_flavor d = TYPE_ATTRIB) (p_types p)) (read_symtab (type_read q) s0)
    (symtab_loaded (\<lambda>d d'. d' = type_kept p d) no_skip (type_keep p) (p_types p) s0)"
proof -
  have k: "type_kept q = type_kept p" using assms(1) by (simp add: fun_eq_iff type_kept_def policydb_has_boundary_feature_def)
  have e: "type_keep p = (\<lambda>d. policydb_has_boundary_feature q \<or> td_flavor d \<noteq> TYPE_ATTRIB)"
    "(\<lambda>d :: type_datum. policyvers p < POLICYDB_VERSION_BOUNDARY \<and> td_flavor d = TYPE_ATTRIB) = (\<lambda>d. \<not> (policydb_has_boundary_feature q \<or> td_flavor d \<noteq> TYPE_ATTRIB))"
    using assms(1) by (auto simp: fun_eq_iff type_keep_def policydb_has_boundary_feature_def)
  show ?thesis unfolding write_vers(3) [OF assms(1)] e k [symmetric] by (rule type.symtab [OF assms(2) [unfolded e]])
qed

lemma users_code:
  assumes "policyvers q = policyvers p" "symtab_saved_ok user_saved_ok no_skip keep_all (p_users p) s0"
  shows "code (write_symtab (user_write p) (\<lambda>_. False) (p_users p)) (read_symtab (user_read q) s0)
    (symtab_loaded (\<lambda>d d'. d' = user_kept p d) no_skip keep_all (p_users p) s0)"
proof -
  have k: "user_kept q = user_kept p" using assms(1) by (simp add: fun_eq_iff user_kept_def policydb_has_boundary_feature_def)
  from user.symtab [OF assms(2), of q] show ?thesis unfolding write_vers(4) [OF assms(1)] k by simp
qed

lemma loaded_bound: "symtab_loaded same no_skip keep_all s s0 s' \<Longrightarrow> hashtab_ok (table s') \<and> (\<forall>c. hashtab_abs (table s) c \<noteq> None \<longrightarrow> hashtab_abs (table s') c \<noteq> None)"
  unfolding symtab_loaded_def loaded_def kept_all by blast

lemma symbols_code:
  assumes "syms_saved_ok p q"
  shows "code (foldE (write_sym sc p) [0..<8]) (foldP (read_sym sc) [0..<8] q) (syms_loaded p q)"
proof -
  note a = assms [unfolded syms_saved_ok_def]
  have v: "policyvers q = policyvers p" using a by simp
  have l: "[0..<8] = [0, Suc 0, Suc (Suc 0), Suc (Suc (Suc 0)), Suc (Suc (Suc (Suc 0))), Suc (Suc (Suc (Suc (Suc 0)))),
    Suc (Suc (Suc (Suc (Suc (Suc 0))))), Suc (Suc (Suc (Suc (Suc (Suc (Suc 0))))))]" by (simp add: upt_rec numeral_eq_Suc)
  have commons: "code (write_symtab common_write (\<lambda>_. False) (p_commons p)) (read_symtab (common_read sc) (p_commons q))
      (symtab_loaded common_same no_skip keep_all (p_commons p) (p_commons q))" using common.symtab [of "p_commons p" "p_commons q"] a by simp
  have bools: "code (write_symtab cond_write_bool (\<lambda>_. False) (p_bools p)) (read_symtab cond_read_bool (p_bools q))
      (symtab_loaded (=) no_skip keep_all (p_bools p) (p_bools q))" using cbool.symtab [of "p_bools p" "p_bools q"] a by simp
  have levels: "code (write_symtab sens_write (\<lambda>_. False) (p_levels p)) (read_symtab sens_read (p_levels q))
      (symtab_loaded (=) no_skip keep_all (p_levels p) (p_levels q))" using sens.symtab [of "p_levels p" "p_levels q"] a by simp
  have cats: "code (write_symtab cat_write (\<lambda>_. False) (p_cats p)) (read_symtab cat_read (p_cats q))
      (symtab_loaded (=) no_skip keep_all (p_cats p) (p_cats q))" using catg.symtab [of "p_cats p" "p_cats q"] a by simp
  have cs: "class_same (q\<lparr>p_commons := v, p_classes := va, p_roles := vb, p_types := vc, p_users := vd, p_bools := ve, p_levels := vf, p_cats := vg\<rparr>) = class_same (q\<lparr>p_commons := v\<rparr>)"
    for v va vb vc vd ve vf vg by (simp add: fun_eq_iff class_same_def)
  show ?thesis unfolding l foldE_seqW seqW_returnE write_sym.simps foldP.simps read_sym.simps bindP_assoc bindP_returnP
    by (rule code_bind [OF commons], rule code_bind [OF classes_code], use v in simp, use loaded_bound in fastforce, use loaded_bound in fastforce, use a in simp,
        rule code_bind [OF roles_code], use v in simp, use a in simp, rule code_bind [OF types_code], use v in simp, use a in simp,
        rule code_bind [OF users_code], use v in simp, use a in simp, simp, rule code_bind [OF bools], rule code_bind [OF levels], rule code_end [OF cats])
      (auto intro!: reads_returnP simp: syms_loaded_def syms_same_def cs)
qed

section \<open>Rules: writing and reading\<close>

definition rules_saved_ok :: "policydb \<Rightarrow> bool" where
  "rules_saved_ok p \<longleftrightarrow> te_saved_ok (te_avtab p) \<and> avtab_ok (te_cond_avtab p)
     \<and> (\<forall>n \<in> set (cond_list p). cond_saved_ok p (te_cond_avtab p) n) \<and> length (cond_list p) < 2 ^ 31
     \<and> length (role_tr p) < 2 ^ 32 \<and> length (role_allows p) < 2 ^ 32
     \<and> length (p_filename_trans p) < 2 ^ 32 \<and> (\<forall>t \<in> set (p_filename_trans p). name_ok (ft_name t))"

definition no_rules :: "policydb \<Rightarrow> bool" where
  "no_rules q \<longleftrightarrow> cond_list q = [] \<and> role_tr q = [] \<and> role_allows q = [] \<and> p_filename_trans q = []"

lemma cond_saved_bools:
  assumes "nprim (p_bools q) = nprim (p_bools p)"
  shows "cond_saved_ok q h n = cond_saved_ok p h n"
  unfolding cond_saved_ok_def expr_isvalid_def assms ..

definition rules_loaded :: "policydb \<Rightarrow> policydb \<Rightarrow> policydb \<Rightarrow> bool" where
  "rules_loaded p q q' \<longleftrightarrow> te_same (te_avtab p) (te_avtab q') \<and> avtab_ok (te_cond_avtab q')
     \<and> list_all2 (cond_same (te_cond_avtab p) (te_cond_avtab q')) (cond_list p) (cond_list q')
     \<and> q' = q\<lparr>te_avtab := te_avtab q', te_cond_avtab := te_cond_avtab q', cond_list := cond_list q', role_tr := kept_role_tr p, role_allows := role_allows p,
         p_filename_trans := (if policyvers p \<ge> POLICYDB_VERSION_FILENAME_TRANS then p_filename_trans p else [])\<rparr>"

lemma te_same_nel:
  assumes "te_saved_ok h" "te_same h h'"
  shows "av_nel h' \<noteq> 0"
proof -
  have ne: "0 < length (av_entries h)" "length (av_entries h) < 2 ^ 32" using assms(1) by (auto simp: te_saved_ok_def)
  have "av_nel h' = of_nat (length (av_entries h'))" using assms(2) by (auto simp: te_same_def elim: avtab_okE)
  then have "unat (av_nel h') = length (av_entries h)" using ne(2) te_same_length [OF assms(2)] by (simp add: unat_of_nat_u32)
  with ne(1) show ?thesis by auto
qed

lemma rules_code:
  assumes v: "20 \<le> policyvers p" "policyvers q = policyvers p" and ok: "rules_saved_ok p" and b: "nprim (p_bools q) = nprim (p_bools p)" and empty: "no_rules q"
  shows "code (write_rules p) (read_rules q) (rules_loaded p q)"
proof -
  note o = ok [unfolded rules_saved_ok_def] empty [unfolded no_rules_def]
  have vs: "\<not> policyvers p < POLICYDB_VERSION_AVTAB" "\<not> policyvers p < POLICYDB_VERSION_BOOL" "policyvers q \<ge> POLICYDB_VERSION_BOOL"
    using v by (auto simp: not_less intro: order_trans [rotated])
  have w: "write_rules p = seqW (liftW (avtab_write (te_avtab p))) (seqW (cond_write_list p (cond_list p)) (seqW (role_trans_write p) (seqW (role_allow_write (role_allows p))
       (if policyvers p \<ge> POLICYDB_VERSION_FILENAME_TRANS then filename_trans_write (p_filename_trans p) else returnE))))"
    using vs by (simp add: write_rules_def te_avtab_write_def)
  have te: "code (liftW (avtab_write (te_avtab p))) (\<lambda>fp. avtab_read (te_avtab q) fp (policyvers q)) (te_same (te_avtab p))"
    using o v by (intro avtab_code) simp_all
  show ?thesis unfolding w read_rules_def if_P [OF vs(3)] Let_def
  proof (rule code_bind [OF te])
    fix a assume a: "te_same (te_avtab p) a"
    let ?q = "q\<lparr>te_avtab := a\<rparr>"
    have "\<forall>n \<in> set (cond_list p). cond_saved_ok ?q (te_cond_avtab p) n" using o(1) cond_saved_bools [of ?q p] b by simp
    then have cond: "code (cond_write_list p (cond_list p)) (cond_read_list ?q)
        (\<lambda>q'. \<exists>c ns. q' = ?q\<lparr>te_cond_avtab := c, cond_list := ns\<rparr> \<and> avtab_ok c \<and> list_all2 (cond_same (te_cond_avtab p) c) (cond_list p) ns)"
      using v o te_same_nel [OF _ a] by (intro cond_list_code) simp_all
    show "code (seqW (cond_write_list p (cond_list p)) (seqW (role_trans_write p) (seqW (role_allow_write (role_allows p))
         (if policyvers p \<ge> POLICYDB_VERSION_FILENAME_TRANS then filename_trans_write (p_filename_trans p) else returnE))))
       (bindP (cond_read_list ?q) (\<lambda>p2. bindP (role_trans_read p2) (\<lambda>p3. bindP (role_allow_read p3) (\<lambda>p4.
          if policyvers q \<ge> POLICYDB_VERSION_FILENAME_TRANS then filename_trans_read p4 else returnP p4)))) (rules_loaded p q)"
    proof (rule code_bind [OF cond], elim exE conjE, hypsubst)
      fix c ns assume c: "avtab_ok c" "list_all2 (cond_same (te_cond_avtab p) c) (cond_list p) ns"
      let ?q2 = "?q\<lparr>te_cond_avtab := c, cond_list := ns\<rparr>"
      let ?q4 = "?q2\<lparr>role_tr := kept_role_tr p, role_allows := role_allows p\<rparr>"
      have fin: "code (if policyvers p \<ge> POLICYDB_VERSION_FILENAME_TRANS then filename_trans_write (p_filename_trans p) else returnE)
          (if policyvers q \<ge> POLICYDB_VERSION_FILENAME_TRANS then filename_trans_read ?q4 else returnP ?q4) (rules_loaded p q)"
      proof (cases "policyvers p \<ge> POLICYDB_VERSION_FILENAME_TRANS")
        case True
        have "code (filename_trans_write (p_filename_trans p)) (filename_trans_read ?q4) ((=) (?q4\<lparr>p_filename_trans := p_filename_trans p\<rparr>))"
          using o by (intro filename_trans_code) simp_all
        then show ?thesis using True a c by (auto simp: v(2) rules_loaded_def elim!: code_weaken)
      next
        case False
        then show ?thesis using a c o by (auto simp: v(2) rules_loaded_def intro!: code_returnP)
      qed
      have rt: "code (role_trans_write p) (role_trans_read ?q2) ((=) (?q2\<lparr>role_tr := kept_role_tr p\<rparr>))" using o v by (intro role_trans_code) simp_all
      have ra: "code (role_allow_write (role_allows p)) (role_allow_read (?q2\<lparr>role_tr := kept_role_tr p\<rparr>)) ((=) ?q4)"
        using role_allow_code [of "?q2\<lparr>role_tr := kept_role_tr p\<rparr>" "role_allows p"] o by simp
      show "code (seqW (role_trans_write p) (seqW (role_allow_write (role_allows p))
           (if policyvers p \<ge> POLICYDB_VERSION_FILENAME_TRANS then filename_trans_write (p_filename_trans p) else returnE)))
         (bindP (role_trans_read ?q2) (\<lambda>p3. bindP (role_allow_read p3) (\<lambda>p4.
            if policyvers q \<ge> POLICYDB_VERSION_FILENAME_TRANS then filename_trans_read p4 else returnP p4))) (rules_loaded p q)"
        by (rule code_step [OF rt], rule code_step [OF ra], rule fin)
    qed
  qed
qed

section \<open>Types and attributes: writing and reading\<close>

text \<open>Every type is among its own attributes, and attributes are types.\<close>

definition attrs_ok :: "policydb \<Rightarrow> bool" where
  "attrs_ok p \<longleftrightarrow> (let n = unat (nprim (p_types p)) in n < 2 ^ 32 - 64 \<and> length (type_attr_map p) = n
     \<and> (\<forall>i < n. ebitmap_ok (type_attr_map p ! i) \<and> i \<in> ebitmap_bits (type_attr_map p ! i) \<and> ebitmap_bits (type_attr_map p ! i) \<subseteq> {..<n}))"

text \<open>The inverse map: the other types that have the attribute.\<close>

definition attr_types :: "ebitmap list \<Rightarrow> nat list \<Rightarrow> nat \<Rightarrow> nat set" where
  "attr_types tm is j = {i \<in> set is. i \<noteq> j \<and> j \<in> ebitmap_bits (tm ! i)}"

definition attr_inverse :: "ebitmap list \<Rightarrow> nat list \<Rightarrow> ebitmap list \<Rightarrow> bool" where
  "attr_inverse tm is am \<longleftrightarrow> (\<forall>j < length am. ebitmap_ok (am ! j) \<and> ebitmap_bits (am ! j) = attr_types tm is j)"

lemma add_attrs:
  assumes "\<forall>j \<in> set bs. unat j < length am" "\<forall>j < length am. ebitmap_ok (am ! j)" "bit_settable i"
  shows "\<exists>am'. foldE (add_attr i) bs am [] = (Inr am', []) \<and> length am' = length am
     \<and> (\<forall>j < length am. ebitmap_ok (am' ! j) \<and> ebitmap_bits (am' ! j) = ebitmap_bits (am ! j) \<union> {k. k = unat i \<and> j \<noteq> k \<and> j \<in> unat ` set bs})"
  using assms
proof (induction bs arbitrary: am)
  case (Cons b bs)
  have b: "unat b < length am" using Cons.prems(1) by simp
  from ebitmap_set_bit_spec [of "am ! unat b" i True] Cons.prems b obtain e where e: "ebitmap_set_bit (am ! unat b) i True [] = (Inr e, [])" "ebitmap_ok e"
    "ebitmap_bits e = insert (unat i) (ebitmap_bits (am ! unat b))" by (auto simp: yields_def)
  define am1 where "am1 = (if i = b then am else am[unat b := e])"
  have s: "add_attr i b am [] = (Inr am1, [])" using b e(1) by (simp add: add_attr_def am1_def array_get_def bindE_def liftE_def returnE_def)
  have l: "length am1 = length am" by (simp add: am1_def)
  have ok: "ebitmap_ok (am1 ! j) \<and> ebitmap_bits (am1 ! j) = ebitmap_bits (am ! j) \<union> {k. k = unat i \<and> j \<noteq> k \<and> j = unat b}" if j: "j < length am" for j
  proof (cases "j = unat b \<and> i \<noteq> b")
    case True
    then show ?thesis using b e(2,3) by (auto simp: am1_def word_unat_eq_iff)
  next
    case False
    then have "am1 ! j = am ! j" by (auto simp: am1_def)
    with False j Cons.prems(2) show ?thesis by auto
  qed
  from Cons.IH [of am1] Cons.prems ok l obtain am' where am': "foldE (add_attr i) bs am1 [] = (Inr am', [])" "length am' = length am"
    "\<forall>j < length am. ebitmap_ok (am' ! j) \<and> ebitmap_bits (am' ! j) = ebitmap_bits (am1 ! j) \<union> {k. k = unat i \<and> j \<noteq> k \<and> j \<in> unat ` set bs}" by auto
  show ?case
  proof (intro exI conjI allI impI)
    show "foldE (add_attr i) (b # bs) am [] = (Inr am', [])" using s am'(1) by (simp add: bindE_def)
    show "ebitmap_ok (am' ! j)" if "j < length am" for j using am'(3) that by simp
    show "ebitmap_bits (am' ! j) = ebitmap_bits (am ! j) \<union> {k. k = unat i \<and> j \<noteq> k \<and> j \<in> unat ` set (b # bs)}" if "j < length am" for j
      using am'(3) ok that by auto
  qed (rule am'(2))
qed (auto simp: returnE_def)

lemma attrs_code:
  assumes v: "20 \<le> policyvers q" and i: "i < n" "n < 2 ^ 32 - 64" and e: "ebitmap_ok e" "i \<in> ebitmap_bits e" "ebitmap_bits e \<subseteq> {..<n}"
    and am: "length am = n" "\<forall>j < n. ebitmap_ok (am ! j)"
  shows "code (liftW (ebitmap_write e)) (read_attrs q (of_nat i) (tm, am)) (\<lambda>(tm', am'). tm' = tm[i := e] \<and> length am' = n
    \<and> (\<forall>j < n. ebitmap_ok (am' ! j) \<and> ebitmap_bits (am' ! j) = ebitmap_bits (am ! j) \<union> {k. k = i \<and> j \<noteq> k \<and> j \<in> ebitmap_bits e}))"
proof -
  have ui: "unat (of_nat i :: u32) = i" using i by (intro unat_of_nat_u32) simp
  then have bs: "bit_settable (of_nat i)" using i by (simp add: bit_settable_def)
  from ebitmap_positive_bits_eq [OF e(1)] obtain bits where bits: "ebitmap_positive_bits e = Inr bits" "unat ` set bits = ebitmap_bits e" by blast
  have lt: "\<forall>j \<in> set bits. unat j < length am" using bits(2) e(3) am(1) by auto
  from add_attrs [OF lt _ bs] am obtain am' where am': "foldE (add_attr (of_nat i)) bits am [] = (Inr am', [])" "length am' = n"
    "\<forall>j < n. ebitmap_ok (am' ! j) \<and> ebitmap_bits (am' ! j) = ebitmap_bits (am ! j) \<union> {k. k = i \<and> j \<noteq> k \<and> j \<in> ebitmap_bits e}" unfolding ui bits(2) by auto
  have "\<exists>e'. ebitmap_set_bit e (of_nat i) True [] = (Inr e', []) \<and> ebitmap_ok e' \<and> ebitmap_bits e' = ebitmap_bits e"
    using ebitmap_set_bit_spec [OF e(1) bs, of True] e(2) by (auto simp: yields_def ui insert_absorb)
  then have self: "ebitmap_set_bit e (of_nat i) True [] = (Inr e, [])" using ebitmap_ok_eqI [OF _ e(1)] by blast
  have m: "bindE (liftE (ebitmap_positive_bits e)) (\<lambda>bs. foldE (add_attr (of_nat i)) bs am) [] = (Inr am', [])" by (simp add: bits(1) am'(1))
  show ?thesis unfolding read_attrs_def prod.case if_P [OF v]
    by (rule code_end [OF eb.codec [OF e(1)]], hypsubst, rule reads_lift, rule m, rule reads_lift, rule self, rule reads_returnP) (simp add: ui am'(2,3))
qed

lemma attr_maps_code:
  assumes v: "20 \<le> policyvers p" "policyvers q = policyvers p" "nprim (p_types q) = nprim (p_types p)" and ok: "attrs_ok p"
  shows "code (write_attr_maps p) (read_attr_maps q) (\<lambda>q'. \<exists>am. q' = q\<lparr>type_attr_map := type_attr_map p, attr_type_map := am\<rparr>
    \<and> length am = unat (nprim (p_types p)) \<and> attr_inverse (type_attr_map p) [0..<unat (nprim (p_types p))] am)"
proof -
  define n where "n = unat (nprim (p_types p))"
  have ok': "n < 2 ^ 32 - 64" "length (type_attr_map p) = n"
    "\<And>i. i < n \<Longrightarrow> ebitmap_ok (type_attr_map p ! i) \<and> i \<in> ebitmap_bits (type_attr_map p ! i) \<and> ebitmap_bits (type_attr_map p ! i) \<subseteq> {..<n}"
    using ok unfolding attrs_ok_def n_def Let_def by auto
  let ?wr = "\<lambda>i fp. bindE (liftE (array_get (type_attr_map p) i)) (\<lambda>e. liftW (ebitmap_write e) fp)"
  let ?I = "\<lambda>is (tm, am). length tm = n \<and> (\<forall>i \<in> set is. tm ! i = type_attr_map p ! i) \<and> length am = n \<and> attr_inverse (type_attr_map p) is am"
  have "code (foldE ?wr [0..<n]) (foldP (read_attrs q) (map of_nat [0..<n]) (replicate n ebitmap_init, replicate n ebitmap_init)) (?I [0..<n])"
  proof (rule code_foldP)
    fix ys i zs s assume xs: "ys @ i # zs = [0..<n]" and I: "?I ys s"
    obtain tm am where s: "s = (tm, am)" by force
    have "i \<in> set [0..<n]" unfolding xs [symmetric] by simp
    then have i: "i < n" by simp
    have w: "?wr i = liftW (ebitmap_write (type_attr_map p ! i))" using i ok'(2) by (simp add: fun_eq_iff array_get_def)
    have am: "length am = n" "\<forall>j < n. ebitmap_ok (am ! j)" using I by (auto simp: s attr_inverse_def)
    have c: "code (liftW (ebitmap_write (type_attr_map p ! i))) (read_attrs q (of_nat i) (tm, am)) (\<lambda>(tm', am'). tm' = tm[i := type_attr_map p ! i] \<and> length am' = n
        \<and> (\<forall>j < n. ebitmap_ok (am' ! j) \<and> ebitmap_bits (am' ! j) = ebitmap_bits (am ! j) \<union> {k. k = i \<and> j \<noteq> k \<and> j \<in> ebitmap_bits (type_attr_map p ! i)}))"
      using v ok'(3) [OF i] by (intro attrs_code [OF _ i ok'(1) _ _ _ am]) simp_all
    show "code (?wr i) (read_attrs q (of_nat i) s) (?I (ys @ [i]))" unfolding w s
      by (rule code_weaken [OF c]) (use I i in \<open>auto simp: s attr_inverse_def attr_types_def nth_list_update\<close>)
  qed (simp add: attr_inverse_def attr_types_def)
  then have c: "code (foldE ?wr [0..<n]) (foldP (read_attrs q) (map of_nat [0..<n]) (replicate n ebitmap_init, replicate n ebitmap_init))
      (\<lambda>(tm, am). tm = type_attr_map p \<and> length am = n \<and> attr_inverse (type_attr_map p) [0..<n] am)"
    by (rule code_weaken) (auto intro!: nth_equalityI simp: ok'(2))
  have w: "write_attr_maps p = foldE ?wr [0..<n]" using v by (simp add: write_attr_maps_def n_def)
  show ?thesis unfolding w read_attr_maps_def Let_def v(3) n_def [symmetric]
    by (rule code_malloc, rule code_malloc, rule code_end [OF c]) (auto intro!: reads_returnP)
qed

section \<open>Labels: writing and reading\<close>

lemma ocons_loaded_ctx [simp]:
  "ctx_saved_ok (ocons_loaded xen p is q) c = ctx_saved_ok q c" "policyvers (ocons_loaded xen p is q) = policyvers q"
  by (induction "is" arbitrary: q) (simp_all add: ocons_loaded_def)

lemma ocon_set_rest [simp]: "p_genfs (ocon_set i l p) = p_genfs p" "range_tr (ocon_set i l p) = range_tr p" "p_types (ocon_set i l p) = p_types p"
  by (cases "(i, l, p)" rule: ocon_set.cases; simp)+

lemma ocons_loaded_rest [simp]:
  "p_genfs (ocons_loaded xen p is q) = p_genfs q" "range_tr (ocons_loaded xen p is q) = range_tr q" "p_types (ocons_loaded xen p is q) = p_types q"
  by (induction "is" arbitrary: q) (simp_all add: ocons_loaded_def)

definition labels_saved_ok :: "nat \<Rightarrow> policydb \<Rightarrow> policydb \<Rightarrow> bool" where
  "labels_saved_ok n p q \<longleftrightarrow> (\<forall>i < n. ocon_list_ok (target_platform p = SEPOL_TARGET_XEN) q p i) \<and> genfs_ok q (p_genfs p)
     \<and> length (range_tr p) < 2 ^ 32 \<and> (\<forall>t \<in> set (range_tr p). range_ok (rtr_target_range t)) \<and> attrs_ok p"

definition labels_loaded :: "nat \<Rightarrow> policydb \<Rightarrow> policydb \<Rightarrow> policydb \<Rightarrow> bool" where
  "labels_loaded n p q q' \<longleftrightarrow> (\<exists>am. q' = (ocons_loaded (target_platform p = SEPOL_TARGET_XEN) p [0..<n] q)
       \<lparr>p_genfs := map genfs_kept (p_genfs p), range_tr := kept_range_tr p, type_attr_map := type_attr_map p, attr_type_map := am\<rparr>
     \<and> length am = unat (nprim (p_types p)) \<and> attr_inverse (type_attr_map p) [0..<unat (nprim (p_types p))] am)"

lemma labels_code:
  assumes v: "20 \<le> policyvers p" "policyvers q = policyvers p" "nprim (p_types q) = nprim (p_types p)"
    and plat: "target_platform q = target_platform p" "target_platform p \<in> {SEPOL_TARGET_SELINUX, SEPOL_TARGET_XEN}"
    and empty: "\<forall>i < n. ocon_get i q = []" "p_genfs q = []" "range_tr q = []" and ok: "labels_saved_ok n p q"
  shows "code (write_labels n p) (read_labels n q) (labels_loaded n p q)"
proof -
  note o = ok [unfolded labels_saved_ok_def]
  let ?q1 = "ocons_loaded (target_platform p = SEPOL_TARGET_XEN) p [0..<n] q"
  let ?q2 = "?q1\<lparr>p_genfs := map genfs_kept (p_genfs p)\<rparr>" let ?q3 = "?q2\<lparr>range_tr := kept_range_tr p\<rparr>"
  have vm: "POLICYDB_VERSION_MLS \<le> policyvers p" using v(1) by (auto intro: order_trans [rotated])
  have 1: "code (ocontext_write n p) (ocontext_read n q) ((=) ?q1)" using v plat empty o by (intro ocontext_code) auto
  have "genfs_ok ?q1 (p_genfs p)" using o by (simp add: genfs_ok_def genfs_head_ok_def)
  then have 2: "code (genfs_write p) (genfs_read ?q1) ((=) ?q2)" using v empty by (intro genfs_code) simp_all
  have 3: "code (range_write p) (range_read ?q2) ((=) ?q3)" using v empty o by (intro range_code) simp_all
  have 4: "code (write_attr_maps p) (read_attr_maps ?q3) (labels_loaded n p q)"
  proof (rule code_weaken, rule attr_maps_code)
    show "attrs_ok p" using o by simp
  qed (use v in \<open>auto simp: labels_loaded_def\<close>)
  have v2: "policyvers ?q2 \<ge> POLICYDB_VERSION_MLS" using vm v by simp
  show ?thesis unfolding write_labels_def read_labels_def if_P [OF vm]
    by (rule code_step [OF 1], rule code_step [OF 2], simp only: if_P [OF v2], rule code_step [OF 3], rule 4)
qed

section \<open>The whole image: writing and reading\<close>

lemma config_bits:
  "((if m then POLICYDB_CONFIG_MLS else 0) OR (POLICYDB_CONFIG_UNKNOWN_MASK AND h)) AND POLICYDB_CONFIG_MLS \<noteq> 0 \<longleftrightarrow> m"
  "((if m then POLICYDB_CONFIG_MLS else 0) OR (POLICYDB_CONFIG_UNKNOWN_MASK AND h)) AND POLICYDB_CONFIG_UNKNOWN_MASK = POLICYDB_CONFIG_UNKNOWN_MASK AND h"
proof -
  have "(6 AND h) AND 1 = h AND (6 AND 1)" "(6 AND h) AND 6 = h AND (6 AND 6)" by (simp_all only: ac_simps)
  then have z: "(6 AND h) AND 1 = 0" "(6 AND h) AND 6 = 6 AND h" by (simp, simp add: and.commute)
  then show "((if m then POLICYDB_CONFIG_MLS else 0) OR (POLICYDB_CONFIG_UNKNOWN_MASK AND h)) AND POLICYDB_CONFIG_MLS \<noteq> 0 \<longleftrightarrow> m"
    "((if m then POLICYDB_CONFIG_MLS else 0) OR (POLICYDB_CONFIG_UNKNOWN_MASK AND h)) AND POLICYDB_CONFIG_UNKNOWN_MASK = POLICYDB_CONFIG_UNKNOWN_MASK AND h"
    by (simp_all add: bit.conj_disj_distrib2)
qed

lemma compat_cases:
  assumes "policydb_lookup_compat v t = Some (s, n)"
  shows "t = 0 \<or> t = 1" "POLICYDB_VERSION_MIN \<le> v" "v \<le> POLICYDB_VERSION_MAX" "n \<le> 7" "s \<le> 8"
  using map_of_SomeD [OF assms [unfolded policydb_lookup_compat_def]] by (auto simp: policydb_compat_def)

lemma code_cond: "(b \<Longrightarrow> code w r Q) \<Longrightarrow> (\<not> b \<Longrightarrow> code w' r' Q) \<Longrightarrow> code (if b then w else w') (if b then r else r') Q"
  by simp

definition caps_loaded :: "policydb \<Rightarrow> policydb \<Rightarrow> policydb" where
  "caps_loaded p q = q\<lparr>policycaps := (if policyvers p \<ge> POLICYDB_VERSION_POLCAP then policycaps p else policycaps q),
     permissive_map := (if policyvers p \<ge> POLICYDB_VERSION_PERMISSIVE then permissive_map p else permissive_map q)\<rparr>"

lemma caps_code:
  assumes "policyvers q = policyvers p" "ebitmap_ok (policycaps p)" "ebitmap_ok (permissive_map p)"
  shows "code (write_caps p) (read_caps q) ((=) (caps_loaded p q))"
proof -
  let ?q = "if policyvers p \<ge> POLICYDB_VERSION_POLCAP then q\<lparr>policycaps := policycaps p\<rparr> else q"
  have 1: "code (if policyvers p \<ge> POLICYDB_VERSION_POLCAP then liftW (ebitmap_write (policycaps p)) else returnE)
      (if policyvers q \<ge> POLICYDB_VERSION_POLCAP then bindP ebitmap_read (\<lambda>e. returnP (q\<lparr>policycaps := e\<rparr>)) else returnP q) ((=) ?q)"
    unfolding assms(1) by (intro code_cond) (auto intro!: code_returnP code_end [OF eb.codec [OF assms(2)]] reads_returnP)
  have 2: "code (if policyvers p \<ge> POLICYDB_VERSION_PERMISSIVE then liftW (ebitmap_write (permissive_map p)) else returnE)
      (if policyvers q \<ge> POLICYDB_VERSION_PERMISSIVE then bindP ebitmap_read (\<lambda>e. returnP (?q\<lparr>permissive_map := e\<rparr>)) else returnP ?q) ((=) (caps_loaded p q))"
    unfolding assms(1) by (intro code_cond) (auto intro!: code_returnP code_end [OF eb.codec [OF assms(3)]] reads_returnP simp: caps_loaded_def)
  show ?thesis unfolding write_caps_def read_caps_def by (rule code_step [OF 1], rule 2)
qed

text \<open>The configuration behind the identifier.\<close>

definition header_loaded :: "policydb \<Rightarrow> policydb \<Rightarrow> policydb" where
  "header_loaded p q = q\<lparr>target_platform := target_platform p, policyvers := policyvers p, p_mls := p_mls p, handle_unknown := POLICYDB_CONFIG_UNKNOWN_MASK AND handle_unknown p\<rparr>"

lemma config_code:
  assumes c: "policydb_lookup_compat (policyvers p) (target_platform p) = Some (s, n)"
  shows "code (put_u32s [policyvers p, (if p_mls p then POLICYDB_CONFIG_MLS else 0) OR (POLICYDB_CONFIG_UNKNOWN_MASK AND handle_unknown p), of_nat s, of_nat n])
    (read_config (q\<lparr>target_platform := target_platform p\<rparr>)) ((=) (header_loaded p q, s, n))"
  unfolding read_config_def
  by (rule code_end [OF code_u32s], simp, simp, hypsubst)
    (use compat_cases [OF c] c in \<open>auto intro!: reads_returnP simp: Let_def header_loaded_def config_bits not_less\<close>)

lemma identifier_code:
  assumes "t = 0 \<or> t = (1 :: u32)"
  shows "code (put_string (policydb_target_strings ! unat t)) (read_identifier (of_nat (length (policydb_target_strings ! unat t)))) ((=) (policydb_target_strings ! unat t))"
    "find_target (policydb_target_strings ! unat t) = Some t" "policydb_set_target_platform q t = q\<lparr>target_platform := t\<rparr>"
    "array_get policydb_target_strings (unat t) = Inr (policydb_target_strings ! unat t)"
proof -
  have s: "policydb_target_strings ! unat t = (if t = 0 then ''SE Linux'' else ''XenFlask'')" using assms by (auto simp: policydb_target_strings_def)
  have n: "name_ok (policydb_target_strings ! unat t)" by (simp add: s name_ok_def)
  show "code (put_string (policydb_target_strings ! unat t)) (read_identifier (of_nat (length (policydb_target_strings ! unat t)))) ((=) (policydb_target_strings ! unat t))"
    using code_key(1) [OF n] by (auto simp: read_identifier_def s)
  show "find_target (policydb_target_strings ! unat t) = Some t" using assms by (auto simp: find_target_def policydb_target_strings_def)
  show "policydb_set_target_platform q t = q\<lparr>target_platform := t\<rparr>" using assms by (auto simp: policydb_set_target_platform_def)
  show "array_get policydb_target_strings (unat t) = Inr (policydb_target_strings ! unat t)" using assms by (auto simp: array_get_def policydb_target_strings_def)
qed

end
