(* ===== verification/Policy_Roundtrip.thy ===== *)
theory Policy_Roundtrip
  imports Image_Roundtrip
begin

text \<open>
  The whole image of a kernel policy: what \<open>policydb_write\<close> writes, \<open>policydb_read\<close> reads into an initialized policy. Between the rules and
  the labels the reader indexes the symbols and then checks the contexts against the index, so that the proof needs the index of the
  symbols that were read and the validity of contexts there.
\<close>

unbundle bit_operations_syntax

section \<open>An initialized policy\<close>

definition object_r_zero :: role_datum where
  "object_r_zero = \<lparr>rd_value = OBJECT_R_VAL, rd_dominates = ebitmap_init, rd_types = type_set_init, rd_cache = ebitmap_init, rd_bounds = 0,
     rd_flavor = 0, rd_roles = ebitmap_init\<rparr>"

definition no_symbols :: "'d symtab \<Rightarrow> bool" where
  "no_symbols s \<longleftrightarrow> hashtab_ok (table s) \<and> hashtab_abs (table s) = Map.empty"

definition fresh_db :: "policydb \<Rightarrow> bool" where
  "fresh_db q \<longleftrightarrow> no_symbols (p_commons q) \<and> no_symbols (p_classes q) \<and> no_symbols (p_types q) \<and> no_symbols (p_users q)
     \<and> no_symbols (p_bools q) \<and> no_symbols (p_levels q) \<and> no_symbols (p_cats q)
     \<and> hashtab_ok (table (p_roles q)) \<and> hashtab_abs (table (p_roles q)) = [OBJECT_R \<mapsto> object_r_zero]
     \<and> cond_list q = [] \<and> role_tr q = [] \<and> role_allows q = [] \<and> p_filename_trans q = [] \<and> (\<forall>i < 7. ocon_get i q = []) \<and> p_genfs q = [] \<and> range_tr q = []"

lemma symtab_fresh:
  assumes "0 < unat sz" "unat sz \<le> 2 ^ 31"
  obtains s :: "'d symtab" where "symtab_init sc sz [] = (Inr s, [])" "no_symbols s" "nprim s = 0"
  using symtab_init_no_oom [OF assms, of sc] by (auto simp: no_symbols_def)

lemma init_fresh: "\<exists>q. policydb_init sc [] = (Inr q, []) \<and> fresh_db q"
proof -
  obtain s0 :: "common_datum symtab" where 0: "symtab_init sc 2 [] = (Inr s0, [])" "no_symbols s0" by (rule symtab_fresh [of 2 sc]) simp_all
  obtain s1 :: "class_datum symtab" where 1: "symtab_init sc 32 [] = (Inr s1, [])" "no_symbols s1" by (rule symtab_fresh [of 32 sc]) simp_all
  obtain s2 :: "role_datum symtab" where 2: "symtab_init sc 16 [] = (Inr s2, [])" "no_symbols s2" "nprim s2 = 0" by (rule symtab_fresh [of 16 sc]) simp_all
  obtain s3 :: "type_datum symtab" where 3: "symtab_init sc 512 [] = (Inr s3, [])" "no_symbols s3" by (rule symtab_fresh [of 512 sc]) simp_all
  obtain s4 :: "user_datum symtab" where 4: "symtab_init sc 128 [] = (Inr s4, [])" "no_symbols s4" by (rule symtab_fresh [of 128 sc]) simp_all
  obtain s5 :: "cond_bool_datum symtab" where 5: "symtab_init sc 16 [] = (Inr s5, [])" "no_symbols s5" by (rule symtab_fresh [of 16 sc]) simp_all
  obtain s6 :: "level_datum symtab" where 6: "symtab_init sc 16 [] = (Inr s6, [])" "no_symbols s6" by (rule symtab_fresh [of 16 sc]) simp_all
  obtain s7 :: "cat_datum symtab" where 7: "symtab_init sc 16 [] = (Inr s7, [])" "no_symbols s7" by (rule symtab_fresh [of 16 sc]) simp_all
  from hashtab_insert_new [of "table s2" OBJECT_R object_r_zero] 2(2) obtain t where
    t: "hashtab_insert (table s2) OBJECT_R object_r_zero [] = (Inr t, [])" "hashtab_ok t" "hashtab_abs t = [OBJECT_R \<mapsto> object_r_zero]"
    by (auto simp: no_symbols_def yields_def)
  let ?p = "policydb_zero\<lparr>p_commons := s0, p_classes := s1, p_roles := s2, p_types := s3, p_users := s4, p_bools := s5, p_levels := s6, p_cats := s7,
     te_avtab := avtab_init avtab_zero\<rparr>"
  have r: "roles_init ?p [] = (Inr (?p\<lparr>p_roles := \<lparr>table = t, nprim = 1\<rparr>\<rparr>), [])"
    using t(1) 2(3) by (simp add: roles_init_def object_r_zero_def bindE_def returnE_def)
  let ?q = "cond_policydb_init (?p\<lparr>p_roles := \<lparr>table = t, nprim = 1\<rparr>\<rparr>)"
  have "policydb_init sc [] = (Inr ?q, [])" using 0(1) 1(1) 2(1) 3(1) 4(1) 5(1) 6(1) 7(1) r by (simp add: policydb_init_def bindE_def returnE_def Let_def)
  moreover have "fresh_db ?q" using 0(2) 1(2) 3(2) 4(2) 5(2) 6(2) 7(2) t(2,3)
    by (auto simp: fresh_db_def cond_policydb_init_def policydb_zero_def dest!: ocon_cases)
  ultimately show ?thesis by blast
qed

section \<open>The symbols that were read\<close>

text \<open>Symbols with the values from 1 on, without role attributes; the sets of the file are over these types.\<close>

definition symbols_ok :: "policydb \<Rightarrow> bool" where
  "symbols_ok p \<longleftrightarrow> tables_ok p
     \<and> hashtab_ok (table (p_commons p)) \<and> covers (\<lambda>_. True) cmd_value (nprim (p_commons p)) (hashtab_abs (table (p_commons p)))
     \<and> hashtab_ok (table (p_classes p)) \<and> covers (\<lambda>_. True) cd_value (nprim (p_classes p)) (hashtab_abs (table (p_classes p)))
     \<and> hashtab_abs (table (p_roles p)) OBJECT_R \<noteq> None \<and> unat (nprim (p_types p)) \<le> 2 ^ 32 - 64
     \<and> (\<forall>k d. hashtab_abs (table (p_types p)) k = Some d \<longrightarrow> type_keep p d)
     \<and> (\<forall>k d. hashtab_abs (table (p_roles p)) k = Some d \<longrightarrow> role_keep d \<and> (\<forall>i \<in> ebitmap_bits (ts_types (rd_types d)). i < unat (nprim (p_types p))))"

lemma kept_all': "(\<And>k d. m k = Some d \<Longrightarrow> keep d) \<Longrightarrow> kept keep m = m"
  by (auto simp: fun_eq_iff kept_def split: option.split)

lemma loaded_rel:
  assumes "symtab_loaded same no_skip keep s s0 s'" "no_symbols s0" "\<And>k d. hashtab_abs (table s) k = Some d \<Longrightarrow> keep d"
  shows "hashtab_ok (table s')" "nprim s' = nprim s" "rel_option same (hashtab_abs (table s) k) (hashtab_abs (table s') k)"
proof -
  have k: "kept keep (hashtab_abs (table s)) = hashtab_abs (table s)" by (rule kept_all', rule assms(3))
  note l = assms(1) [unfolded symtab_loaded_def loaded_def k]
  show "hashtab_ok (table s')" "nprim s' = nprim s" using l by blast+
  show "rel_option same (hashtab_abs (table s) k) (hashtab_abs (table s') k)"
    using l assms(2) by (cases "hashtab_abs (table s) k") (auto simp: no_symbols_def option_rel_Some1)
qed

lemma loaded_table:
  assumes "symtab_loaded (=) no_skip keep_all s s0 s'" "no_symbols s0"
  shows "hashtab_abs (table s') = hashtab_abs (table s)"
  using loaded_rel(3) [OF assms TrueI] by (simp add: fun_eq_iff option.rel_eq)

lemma covers_rel:
  assumes "\<And>k. rel_option same (M k) (M' k)" "\<And>d d'. same d d' \<Longrightarrow> val d' = val d \<and> indexed d' = indexed d" "covers indexed val n M"
  shows "covers indexed val n M'"
proof -
  have r: "M' k = Some d' \<Longrightarrow> \<exists>d. M k = Some d \<and> same d d'" and l: "M k = Some d \<Longrightarrow> \<exists>d'. M' k = Some d' \<and> same d d'" for k d d'
    using assms(1) [of k] by (auto simp: option_rel_Some1 option_rel_Some2)
  have "in_range indexed val n d'" if "M' k = Some d'" for k d' using r [OF that] assms(2,3) by (auto simp: covers_def in_range_def)
  moreover have "\<exists>k d. M' k = Some d \<and> indexed d \<and> unat (val d) = Suc i" if "i < unat n" for i
  proof -
    from assms(3) that obtain k d where d: "M k = Some d" "indexed d" "unat (val d) = Suc i" unfolding covers_def by blast
    from l [OF d(1)] obtain d' where "M' k = Some d'" "same d d'" by blast
    with d(2,3) assms(2) show ?thesis by fastforce
  qed
  ultimately show ?thesis unfolding covers_def by blast
qed

lemma role_rel:
  assumes "symtab_loaded (\<lambda>d d'. d' = role_kept p d) (\<lambda>k. k = OBJECT_R) role_keep s s0 s'" "hashtab_abs (table s0) = [OBJECT_R \<mapsto> object_r_zero]"
    "hashtab_abs (table s) OBJECT_R \<noteq> None" "\<And>k d. hashtab_abs (table s) k = Some d \<Longrightarrow> role_keep d"
  shows "hashtab_ok (table s')" "nprim s' = nprim s" "hashtab_abs (table s') OBJECT_R = Some object_r_zero"
    "k \<noteq> OBJECT_R \<Longrightarrow> hashtab_abs (table s') k = map_option (role_kept p) (hashtab_abs (table s) k)"
proof -
  have k: "kept role_keep (hashtab_abs (table s)) = hashtab_abs (table s)" by (rule kept_all', rule assms(4))
  note l = assms(1) [unfolded symtab_loaded_def loaded_def k]
  show "hashtab_ok (table s')" "nprim s' = nprim s" "hashtab_abs (table s') OBJECT_R = Some object_r_zero" using l assms(2) by auto
  show "k \<noteq> OBJECT_R \<Longrightarrow> hashtab_abs (table s') k = map_option (role_kept p) (hashtab_abs (table s) k)"
    using l assms(2) by (cases "hashtab_abs (table s) k") auto
qed

text \<open>The tables of the policy that was read into can be indexed.\<close>

lemma loaded_tables:
  assumes ok: "symbols_ok p" "syms_saved_ok p q" and fresh: "fresh_db q" and l: "syms_same p q q'"
  shows "tables_ok q'" "covers (\<lambda>_. True) cmd_value (nprim (p_commons q')) (hashtab_abs (table (p_commons q')))" "hashtab_ok (table (p_commons q'))"
    "covers (\<lambda>_. True) cd_value (nprim (p_classes q')) (hashtab_abs (table (p_classes q')))" "hashtab_ok (table (p_classes q'))"
proof -
  note f = fresh [unfolded fresh_db_def] and l = l [unfolded syms_same_def] and o = ok(1) [unfolded symbols_ok_def tables_ok_def]
  have c: "symtab_loaded common_same no_skip keep_all (p_commons p) (p_commons q) (p_commons q')" "no_symbols (p_commons q)" using f l by simp_all
  show "hashtab_ok (table (p_commons q'))" by (rule loaded_rel [OF c]) simp
  show "covers (\<lambda>_. True) cmd_value (nprim (p_commons q')) (hashtab_abs (table (p_commons q')))" unfolding loaded_rel(2) [OF c TrueI]
    by (rule covers_rel [OF loaded_rel(3) [OF c TrueI]]) (use o in \<open>auto simp: common_same_def\<close>)
  have c: "symtab_loaded (class_same q') no_skip keep_all (p_classes p) (p_classes q) (p_classes q')" "no_symbols (p_classes q)" using f l by simp_all
  show "hashtab_ok (table (p_classes q'))" by (rule loaded_rel [OF c]) simp
  show "covers (\<lambda>_. True) cd_value (nprim (p_classes q')) (hashtab_abs (table (p_classes q')))" unfolding loaded_rel(2) [OF c TrueI]
    by (rule covers_rel [OF loaded_rel(3) [OF c TrueI]]) (use o in \<open>auto simp: class_same_def\<close>)
  have roles: "symtab_loaded (\<lambda>d d'. d' = role_kept p d) (\<lambda>k. k = OBJECT_R) role_keep (p_roles p) (p_roles q) (p_roles q')"
    "hashtab_abs (table (p_roles q)) = [OBJECT_R \<mapsto> object_r_zero]" "hashtab_abs (table (p_roles p)) OBJECT_R \<noteq> None" using f l o by simp_all
  have rk: "\<And>k d. hashtab_abs (table (p_roles p)) k = Some d \<Longrightarrow> role_keep d" using o by blast
  have "symtab_saved_ok role_saved_ok (\<lambda>k. k = OBJECT_R) role_keep (p_roles p) (p_roles q)" using ok(2) by (simp add: syms_saved_ok_def)
  then have robj: "\<And>d. hashtab_abs (table (p_roles p)) OBJECT_R = Some d \<Longrightarrow> rd_value d = OBJECT_R_VAL"
    using rk unfolding symtab_saved_ok_def role_saved_ok_def by blast
  have "rel_option (\<lambda>d d'. rd_value d' = rd_value d) (hashtab_abs (table (p_roles p)) k) (hashtab_abs (table (p_roles q')) k)" for k
  proof (cases "k = OBJECT_R")
    case True
    then show ?thesis using role_rel(3) [OF roles rk] robj roles(3) by (auto simp: object_r_zero_def)
  qed (use role_rel(4) [OF roles rk] in \<open>auto simp: role_kept_def option.rel_map option.rel_refl\<close>)
  then have 1: "hashtab_ok (table (p_roles q'))" "covers (\<lambda>_. True) rd_value (nprim (p_roles q')) (hashtab_abs (table (p_roles q')))"
    using role_rel(1,2) [OF roles rk] o by (auto intro: covers_rel)
  have tk: "\<And>k d. hashtab_abs (table (p_types p)) k = Some d \<Longrightarrow> type_keep p d" using o by blast
  have types: "symtab_loaded (\<lambda>d d'. d' = type_kept p d) no_skip (type_keep p) (p_types p) (p_types q) (p_types q')" "no_symbols (p_types q)" using f l by simp_all
  have 2: "hashtab_ok (table (p_types q'))" "covers primary td_value (nprim (p_types q')) (hashtab_abs (table (p_types q')))"
    using loaded_rel(1,2) [OF types tk] covers_rel [where val = td_value and indexed = primary, OF loaded_rel(3) [OF types tk]] o by (auto simp: type_kept_def)
  have users: "symtab_loaded (\<lambda>d d'. d' = user_kept p d) no_skip keep_all (p_users p) (p_users q) (p_users q')" "no_symbols (p_users q)" using f l by simp_all
  have 3: "hashtab_ok (table (p_users q'))" "covers (\<lambda>_. True) ud_value (nprim (p_users q')) (hashtab_abs (table (p_users q')))"
    using loaded_rel(1,2) [OF users TrueI] covers_rel [where val = ud_value and indexed = "\<lambda>_. True", OF loaded_rel(3) [OF users TrueI]] o by (auto simp: user_kept_def)
  have bools: "symtab_loaded (=) no_skip keep_all (p_bools p) (p_bools q) (p_bools q')" "no_symbols (p_bools q)" using f l by simp_all
  have levels: "symtab_loaded (=) no_skip keep_all (p_levels p) (p_levels q) (p_levels q')" "no_symbols (p_levels q)" using f l by simp_all
  have cats: "symtab_loaded (=) no_skip keep_all (p_cats p) (p_cats q) (p_cats q')" "no_symbols (p_cats q)" using f l by simp_all
  have 4: "hashtab_abs (table (p_bools q')) = hashtab_abs (table (p_bools p))" "hashtab_abs (table (p_levels q')) = hashtab_abs (table (p_levels p))"
    "hashtab_abs (table (p_cats q')) = hashtab_abs (table (p_cats p))"
    by (rule loaded_table [OF bools], rule loaded_table [OF levels], rule loaded_table [OF cats])
  show "tables_ok q'" unfolding tables_ok_def
    using 1 2 3 4 o loaded_rel(1,2) [OF bools TrueI] loaded_rel(1,2) [OF levels TrueI] loaded_rel(1,2) [OF cats TrueI] by simp
qed

lemma loaded_sets:
  assumes ok: "symbols_ok p" "syms_saved_ok p q" and fresh: "fresh_db q" and l: "syms_same p q q'" and v: "20 \<le> policyvers p"
  shows "sets_ok q'"
proof -
  note f = fresh [unfolded fresh_db_def] and l = l [unfolded syms_same_def] and o = ok(1) [unfolded symbols_ok_def] and s = ok(2) [unfolded syms_saved_ok_def]
  have tk: "\<And>k d. hashtab_abs (table (p_types p)) k = Some d \<Longrightarrow> type_keep p d" using o by blast
  have types: "symtab_loaded (\<lambda>d d'. d' = type_kept p d) no_skip (type_keep p) (p_types p) (p_types q) (p_types q')" "no_symbols (p_types q)" using f l by simp_all
  have n: "nprim (p_types q') = nprim (p_types p)" by (rule loaded_rel(2) [OF types tk])
  have 1: "td_types d = ebitmap_init" if "hashtab_abs (table (p_types q')) k = Some d" for k d
  proof -
    have "rel_option (\<lambda>d d'. d' = type_kept p d) (hashtab_abs (table (p_types p)) k) (hashtab_abs (table (p_types q')) k)"
      by (rule loaded_rel(3) [OF types], rule tk)
    with that show ?thesis by (auto simp: option_rel_Some2 type_kept_def)
  qed
  have roles: "symtab_loaded (\<lambda>d d'. d' = role_kept p d) (\<lambda>k. k = OBJECT_R) role_keep (p_roles p) (p_roles q) (p_roles q')"
    "hashtab_abs (table (p_roles q)) = [OBJECT_R \<mapsto> object_r_zero]" "hashtab_abs (table (p_roles p)) OBJECT_R \<noteq> None" using f l o by simp_all
  have rk: "\<And>k d. hashtab_abs (table (p_roles p)) k = Some d \<Longrightarrow> role_keep d" using o by blast
  have "symtab_saved_ok role_saved_ok (\<lambda>k. k = OBJECT_R) role_keep (p_roles p) (p_roles q)" using s by simp
  then have r: "ebitmap_ok (ts_types (rd_types d))" "\<forall>i \<in> ebitmap_bits (ts_types (rd_types d)). i < unat (nprim (p_types p))"
    if "hashtab_abs (table (p_roles p)) k = Some d" for k d using rk o that unfolding symtab_saved_ok_def role_saved_ok_def by blast+
  have rl: "x \<noteq> OBJECT_R \<Longrightarrow> hashtab_abs (table (p_roles q')) x = map_option (role_kept p) (hashtab_abs (table (p_roles p)) x)" for x
    by (rule role_rel(4) [OF roles], rule rk)
  have 2: "ebitmap_ok (ts_types (rd_types d)) \<and> ebitmap_ok (ts_negset (rd_types d))
      \<and> (\<forall>i \<in> ebitmap_bits (ts_types (rd_types d)) \<union> ebitmap_bits (ts_negset (rd_types d)). i < unat (nprim (p_types p)))"
    if at: "hashtab_abs (table (p_roles q')) k = Some d" for k d
  proof (cases "k = OBJECT_R")
    case True
    then show ?thesis using at role_rel(3) [OF roles rk] by (auto simp: object_r_zero_def)
  next
    case False
    then obtain d0 where "hashtab_abs (table (p_roles p)) k = Some d0" "d = role_kept p d0" using at rl by auto
    with r show ?thesis by (auto simp: role_kept_def)
  qed
  have users: "symtab_loaded (\<lambda>d d'. d' = user_kept p d) no_skip keep_all (p_users p) (p_users q) (p_users q')" "no_symbols (p_users q)" using f l by simp_all
  have "symtab_saved_ok user_saved_ok no_skip keep_all (p_users p) (p_users q)" using s by simp
  then have u: "user_saved_ok k d" if "hashtab_abs (table (p_users p)) k = Some d" for k d using that unfolding symtab_saved_ok_def by blast
  have vm: "POLICYDB_VERSION_MLS \<le> policyvers p" using v by (auto intro: order_trans [rotated])
  have 3: "ebitmap_ok (rs_roles (ud_roles d)) \<and> rs_flags (ud_roles d) = 0 \<and> range_ok (ud_exp_range d) \<and> level_ok (ud_exp_dfltlevel d)"
    if "hashtab_abs (table (p_users q')) k = Some d" for k d
    using loaded_rel(3) [where k = k, OF users TrueI] that u vm by (auto simp: option_rel_Some2 user_kept_def user_saved_ok_def)
  have levels: "symtab_loaded (=) no_skip keep_all (p_levels p) (p_levels q) (p_levels q')" "no_symbols (p_levels q)" using f l by simp_all
  have "symtab_saved_ok (\<lambda>k d. name_ok k \<and> level_ok (ld_level d)) no_skip keep_all (p_levels p) (p_levels q)" using s by simp
  then have 4: "level_ok (ld_level d)" if "hashtab_abs (table (p_levels q')) k = Some d" for k d
    using that unfolding loaded_table [OF levels] symtab_saved_ok_def by blast
  show ?thesis unfolding sets_ok_def n using 1 2 3 4 o by auto
qed

text \<open>The index of the symbols that were read.\<close>

definition image_indexed :: "policydb \<Rightarrow> policydb \<Rightarrow> bool" where
  "image_indexed p p' \<longleftrightarrow> reindexed p p' \<and> types_ok p' \<and> nprim (p_roles p') = nprim (p_roles p) \<and> nprim (p_users p') = nprim (p_users p)
    \<and> (\<forall>k d. hashtab_abs (table (p_roles p)) k = Some d \<longrightarrow> type_set_ok p' (rd_types d))
    \<and> val_total (p_type_val_to_name p') (nprim (p_types p))
    \<and> indexes primary td_value {(k, d). hashtab_abs (table (p_types p)) k = Some d} (p_type_val_to_name p') (type_val_to_struct p')
    \<and> val_total (p_sens_val_to_name p') (nprim (p_levels p))
    \<and> indexes (\<lambda>d. ld_isalias d = 0) (\<lambda>d. sens (ld_level d)) {(k, d). hashtab_abs (table (p_levels p)) k = Some d} (p_sens_val_to_name p') []
    \<and> hashtab_ok (table (p_roles p')) \<and> hashtab_abs (table (p_roles p')) = map_option (cached_role p') \<circ> hashtab_abs (table (p_roles p))
    \<and> val_total (p_role_val_to_name p') (nprim (p_roles p)) \<and> agree (p_role_val_to_name p') (role_val_to_struct p') (hashtab_abs (table (p_roles p')))
    \<and> indexes (\<lambda>_. True) rd_value {(k, d). hashtab_abs (table (p_roles p)) k = Some d} (p_role_val_to_name p') []
    \<and> hashtab_ok (table (p_users p')) \<and> hashtab_abs (table (p_users p')) = map_option cached_user \<circ> hashtab_abs (table (p_users p))
    \<and> val_total (p_user_val_to_name p') (nprim (p_users p)) \<and> agree (p_user_val_to_name p') (user_val_to_struct p') (hashtab_abs (table (p_users p')))
    \<and> indexes (\<lambda>_. True) ud_value {(k, d). hashtab_abs (table (p_users p)) k = Some d} (p_user_val_to_name p') []"

lemma index_image_run:
  assumes "tables_ok p" "sets_ok p" "hashtab_ok (table (p_commons p))" "covers (\<lambda>_. True) cmd_value (nprim (p_commons p)) (hashtab_abs (table (p_commons p)))"
    "hashtab_ok (table (p_classes p))" "covers (\<lambda>_. True) cd_value (nprim (p_classes p)) (hashtab_abs (table (p_classes p)))"
  shows "\<exists>p'. index_image p [] = (Inr p', []) \<and> image_indexed p p'"
proof -
  from index_classes_run [OF assms(3-6)] obtain nc n s where
    c: "policydb_index_classes p [] = (Inr (p\<lparr>p_common_val_to_name := nc, p_class_val_to_name := n, class_val_to_struct := s\<rparr>), [])" by blast
  let ?p = "p\<lparr>p_common_val_to_name := nc, p_class_val_to_name := n, class_val_to_struct := s\<rparr>"
  have "tables_ok ?p" "sets_ok ?p" using assms(1,2) by (simp_all add: tables_ok_def sets_ok_def)
  from index_others_run [OF this] obtain p' where p': "policydb_index_others ?p [] = (Inr p', [])" "reindexed ?p p' \<longrightarrow> reindexed p p'" "image_indexed ?p p'"
    unfolding image_indexed_def by (auto simp: reindexed_def)
  then have "index_image p [] = (Inr p', [])" using c by (simp add: index_image_def policydb_index_decls_def bindE_def returnE_def)
  moreover have "image_indexed p p'" using p'(2,3) unfolding image_indexed_def by (elim conjE) (simp del: o_apply)
  ultimately show ?thesis by blast
qed

section \<open>Contexts in the index\<close>

text \<open>A context that the symbol tables allow.\<close>

definition level_fits :: "policydb \<Rightarrow> mls_level \<Rightarrow> bool" where
  "level_fits p lv \<longleftrightarrow> sens lv \<noteq> 0 \<and> sens lv \<le> nprim (p_levels p) \<and> (\<forall>i \<in> ebitmap_bits (cat lv). i \<le> unat (nprim (p_cats p)))
     \<and> (\<forall>k ld. hashtab_abs (table (p_levels p)) k = Some ld \<longrightarrow> ld_isalias ld = 0 \<longrightarrow> sens (ld_level ld) = sens lv
          \<longrightarrow> ebitmap_bits (cat lv) \<subseteq> ebitmap_bits (cat (ld_level ld)))"

definition label_valid :: "policydb \<Rightarrow> context_struct \<Rightarrow> bool" where
  "label_valid p c \<longleftrightarrow> context_ok c \<and> c_role c \<noteq> 0 \<and> c_role c \<le> nprim (p_roles p) \<and> c_user c \<noteq> 0 \<and> c_user c \<le> nprim (p_users p)
     \<and> c_type c \<noteq> 0 \<and> c_type c \<le> nprim (p_types p)
     \<and> (\<forall>k d. hashtab_abs (table (p_types p)) k = Some d \<longrightarrow> td_value d = c_type c \<longrightarrow> primary d \<longrightarrow> td_flavor d \<noteq> TYPE_ATTRIB)
     \<and> (c_role c \<noteq> OBJECT_R_VAL \<longrightarrow>
          (\<forall>k d. hashtab_abs (table (p_roles p)) k = Some d \<longrightarrow> rd_value d = c_role c \<longrightarrow> unat (c_type c - 1) \<in> ebitmap_bits (ts_types (rd_types d)))
          \<and> (\<forall>k d. hashtab_abs (table (p_users p)) k = Some d \<longrightarrow> ud_value d = c_user c \<longrightarrow> unat (c_role c - 1) \<in> ebitmap_bits (rs_roles (ud_roles d))))
     \<and> (p_mls p \<longrightarrow> mls_level_dom (high (c_range c)) (low (c_range c)) \<and> level_fits p (low (c_range c)) \<and> level_fits p (high (c_range c))
          \<and> (c_role c \<noteq> OBJECT_R_VAL \<longrightarrow> (\<forall>k d. hashtab_abs (table (p_users p)) k = Some d \<longrightarrow> ud_value d = c_user c \<longrightarrow> mls_range_contains (ud_exp_range d) (c_range c))))"

lemma indexed_at:
  assumes "val_total n b" "indexes indexed val {(k, d). M k = Some d} n s" "v \<noteq> 0" "v \<le> b"
  obtains k d where "M k = Some d" "indexed d" "val d = v" "val_deref n v = Inr k" "unat (v - 1) < length n" "n ! unat (v - 1) = Some k" "s \<noteq> [] \<longrightarrow> s ! unat (v - 1) = Some d"
proof -
  have i: "unat (v - 1) < length n" "Suc (unat (v - 1)) = unat v" using assms(1,3,4) by (simp_all add: val_total_def unat_minus_1 word_le_nat_alt unat_gt_0)
      (metis Suc_pred less_eq_Suc_le order.strict_trans1 unat_gt_0 lessI)+
  from val_total_nth [OF assms(1) i(1)] obtain k where k: "n ! unat (v - 1) = Some k" by blast
  have "\<exists>d. M k = Some d \<and> indexed d \<and> unat (val d) = unat v \<and> (s \<noteq> [] \<longrightarrow> s ! unat (v - 1) = Some d)"
    using assms(2) i(1) k unfolding indexes_def i(2) [symmetric] by auto
  then obtain d where "M k = Some d" "indexed d" "unat (val d) = unat v" "s \<noteq> [] \<longrightarrow> s ! unat (v - 1) = Some d" by blast
  with that k i(1) show ?thesis by (auto simp: val_deref_def val_get_def array_get_def word_unat_eq_iff)
qed

lemma agree_at:
  assumes "agree n s M" "unat (v - 1) < length n" "n ! unat (v - 1) = Some k" "M k = Some d"
  shows "val_get s v = Inr (Some d)" "val_deref s v = Inr d"
  using assms by (simp_all add: agree_def val_deref_def val_get_def array_get_def)

text \<open>What is read and indexed has the structures of the symbols that were written, behind their values.\<close>

definition read_symbols :: "policydb \<Rightarrow> policydb \<Rightarrow> policydb \<Rightarrow> policydb \<Rightarrow> bool" where
  "read_symbols p q q4 q5 \<longleftrightarrow> symbols_ok p \<and> syms_saved_ok p q \<and> fresh_db q \<and> syms_same p q q4 \<and> image_indexed q4 q5 \<and> 20 \<le> policyvers p"

lemma read_frame:
  assumes "image_indexed q4 q5"
  shows "p_types q5 = p_types q4" "p_levels q5 = p_levels q4" "p_cats q5 = p_cats q4" "p_mls q5 = p_mls q4"
proof -
  have r: "reindexed q4 q5" using assms by (simp add: image_indexed_def)
  show "p_types q5 = p_types q4" "p_levels q5 = p_levels q4" "p_cats q5 = p_cats q4" "p_mls q5 = p_mls q4" by (subst r [unfolded reindexed_def], simp)+
qed

lemma type_at:
  assumes "read_symbols p q q4 q5" and v: "v \<noteq> 0" "v \<le> nprim (p_types p)"
  obtains k d where "hashtab_abs (table (p_types p)) k = Some d" "primary d" "td_value d = v" "type_val_to_struct q5 ! unat (v - 1) = Some (type_kept p d)"
proof -
  have ok: "symbols_ok p" "syms_saved_ok p q" and fresh: "fresh_db q" and same: "syms_same p q q4" and ix: "image_indexed q4 q5"
    using assms(1) by (simp_all add: read_symbols_def)
  note s = same [unfolded syms_same_def] and f = fresh [unfolded fresh_db_def] and o = ok(1) [unfolded symbols_ok_def] and x = ix [unfolded image_indexed_def]
  have t: "symtab_loaded (\<lambda>d d'. d' = type_kept p d) no_skip (type_keep p) (p_types p) (p_types q) (p_types q4)" "no_symbols (p_types q)" using s f by simp_all
  have tk: "\<And>k d. hashtab_abs (table (p_types p)) k = Some d \<Longrightarrow> type_keep p d" using o by blast
  have n: "nprim (p_types q4) = nprim (p_types p)" by (rule loaded_rel(2) [OF t tk])
  have rel: "rel_option (\<lambda>d d'. d' = type_kept p d) (hashtab_abs (table (p_types p)) k) (hashtab_abs (table (p_types q4)) k)" for k by (rule loaded_rel(3) [OF t], rule tk)
  have tt: "val_total (p_type_val_to_name q5) (nprim (p_types q4))"
    "indexes primary td_value {(k, d). hashtab_abs (table (p_types q4)) k = Some d} (p_type_val_to_name q5) (type_val_to_struct q5)" using x by blast+
  have len: "length (type_val_to_struct q5) = unat (nprim (p_types p))" using x by (simp add: types_ok_def read_frame [OF ix] n)
  have "0 < unat v" "unat v \<le> unat (nprim (p_types p))" using v by (simp add: unat_gt_0, simp add: word_le_nat_alt)
  with len have "0 < length (type_val_to_struct q5)" by linarith
  then have ne: "type_val_to_struct q5 \<noteq> []" by blast
  obtain k d where d: "hashtab_abs (table (p_types q4)) k = Some d" "primary d" "td_value d = v" "type_val_to_struct q5 \<noteq> [] \<longrightarrow> type_val_to_struct q5 ! unat (v - 1) = Some d"
    by (rule indexed_at [OF tt, of v]) (use v n that in \<open>simp, simp, blast\<close>)
  from rel [of k] d(1) obtain d0 where d0: "hashtab_abs (table (p_types p)) k = Some d0" "d = type_kept p d0" by (auto simp: option_rel_Some2)
  have "primary d0" "td_value d0 = v" using d(2,3) unfolding d0(2) type_kept_def by (simp_all split: if_splits)
  moreover have "type_val_to_struct q5 ! unat (v - 1) = Some (type_kept p d0)" using d(4) ne d0(2) by simp
  ultimately show thesis by (rule that [OF d0(1)])
qed

lemma role_at:
  assumes "read_symbols p q q4 q5" and v: "v \<noteq> 0" "v \<le> nprim (p_roles p)" "v \<noteq> OBJECT_R_VAL"
  obtains k d where "hashtab_abs (table (p_roles p)) k = Some d" "rd_value d = v" "val_deref (role_val_to_struct q5) v = Inr (cached_role q5 (role_kept p d))"
    "types_ok q5" "type_set_ok q5 (rd_types (role_kept p d))"
proof -
  have ok: "symbols_ok p" "syms_saved_ok p q" and fresh: "fresh_db q" and same: "syms_same p q q4" and ix: "image_indexed q4 q5"
    using assms(1) by (simp_all add: read_symbols_def)
  note s = same [unfolded syms_same_def] and f = fresh [unfolded fresh_db_def] and o = ok(1) [unfolded symbols_ok_def] and x = ix [unfolded image_indexed_def]
  have roles: "symtab_loaded (\<lambda>d d'. d' = role_kept p d) (\<lambda>k. k = OBJECT_R) role_keep (p_roles p) (p_roles q) (p_roles q4)"
    "hashtab_abs (table (p_roles q)) = [OBJECT_R \<mapsto> object_r_zero]" "hashtab_abs (table (p_roles p)) OBJECT_R \<noteq> None" using f s o by simp_all
  have rk: "\<And>k d. hashtab_abs (table (p_roles p)) k = Some d \<Longrightarrow> role_keep d" using o by blast
  have n: "nprim (p_roles q4) = nprim (p_roles p)" by (rule role_rel(2) [OF roles rk])
  have rt: "val_total (p_role_val_to_name q5) (nprim (p_roles q4))" "indexes (\<lambda>_. True) rd_value {(k, d). hashtab_abs (table (p_roles q4)) k = Some d} (p_role_val_to_name q5) []"
    "agree (p_role_val_to_name q5) (role_val_to_struct q5) (hashtab_abs (table (p_roles q5)))"
    "hashtab_abs (table (p_roles q5)) = map_option (cached_role q5) \<circ> hashtab_abs (table (p_roles q4))" "types_ok q5"
    "\<forall>k d. hashtab_abs (table (p_roles q4)) k = Some d \<longrightarrow> type_set_ok q5 (rd_types d)" using x by blast+
  obtain k d where d: "hashtab_abs (table (p_roles q4)) k = Some d" "rd_value d = v" "unat (v - 1) < length (p_role_val_to_name q5)" "p_role_val_to_name q5 ! unat (v - 1) = Some k"
    by (rule indexed_at [OF rt(1,2), of v]) (use v n that in \<open>simp, simp, blast\<close>)
  have obj: "hashtab_abs (table (p_roles q4)) OBJECT_R = Some object_r_zero" by (rule role_rel(3) [OF roles], rule rk)
  then have "k \<noteq> OBJECT_R" using d(1,2) v(3) by (auto simp: object_r_zero_def)
  then have "hashtab_abs (table (p_roles q4)) k = map_option (role_kept p) (hashtab_abs (table (p_roles p)) k)" using role_rel(4) [OF roles, of k] rk by blast
  with d(1) obtain d0 where d0: "hashtab_abs (table (p_roles p)) k = Some d0" "d = role_kept p d0" by auto
  have "hashtab_abs (table (p_roles q5)) k = Some (cached_role q5 d)" by (simp add: rt(4) d(1))
  from agree_at(2) [OF rt(3) d(3,4) this] have at: "val_deref (role_val_to_struct q5) v = Inr (cached_role q5 (role_kept p d0))" unfolding d0(2) .
  have "rd_value d0 = v" using d(2) by (simp add: d0(2) role_kept_def)
  moreover have "type_set_ok q5 (rd_types (role_kept p d0))" using rt(6) d(1) unfolding d0(2) by blast
  ultimately show thesis using that [OF d0(1)] at rt(5) by blast
qed

lemma user_at:
  assumes "read_symbols p q q4 q5" and v: "v \<noteq> 0" "v \<le> nprim (p_users p)"
  obtains k d where "hashtab_abs (table (p_users p)) k = Some d" "ud_value d = v" "val_get (user_val_to_struct q5) v = Inr (Some (cached_user (user_kept p d)))"
    "val_deref (user_val_to_struct q5) v = Inr (cached_user (user_kept p d))" "ebitmap_ok (rs_roles (ud_roles d))"
proof -
  have ok: "symbols_ok p" "syms_saved_ok p q" and fresh: "fresh_db q" and same: "syms_same p q q4" and ix: "image_indexed q4 q5"
    using assms(1) by (simp_all add: read_symbols_def)
  note s = same [unfolded syms_same_def] and f = fresh [unfolded fresh_db_def] and o = ok(1) [unfolded symbols_ok_def] and x = ix [unfolded image_indexed_def]
  have users: "symtab_loaded (\<lambda>d d'. d' = user_kept p d) no_skip keep_all (p_users p) (p_users q) (p_users q4)" "no_symbols (p_users q)" using s f by simp_all
  have n: "nprim (p_users q4) = nprim (p_users p)" by (rule loaded_rel(2) [OF users]) simp
  have rel: "rel_option (\<lambda>d d'. d' = user_kept p d) (hashtab_abs (table (p_users p)) k) (hashtab_abs (table (p_users q4)) k)" for k by (rule loaded_rel(3) [OF users]) simp
  have ut: "val_total (p_user_val_to_name q5) (nprim (p_users q4))" "indexes (\<lambda>_. True) ud_value {(k, d). hashtab_abs (table (p_users q4)) k = Some d} (p_user_val_to_name q5) []"
    "agree (p_user_val_to_name q5) (user_val_to_struct q5) (hashtab_abs (table (p_users q5)))"
    "hashtab_abs (table (p_users q5)) = map_option cached_user \<circ> hashtab_abs (table (p_users q4))" using x by blast+
  obtain k d where d: "hashtab_abs (table (p_users q4)) k = Some d" "ud_value d = v" "unat (v - 1) < length (p_user_val_to_name q5)" "p_user_val_to_name q5 ! unat (v - 1) = Some k"
    by (rule indexed_at [OF ut(1,2), of v]) (use v n that in \<open>simp, simp, blast\<close>)
  from rel [of k] d(1) obtain d0 where d0: "hashtab_abs (table (p_users p)) k = Some d0" "d = user_kept p d0" by (auto simp: option_rel_Some2)
  have "symtab_saved_ok user_saved_ok no_skip keep_all (p_users p) (p_users q)" using ok(2) by (simp add: syms_saved_ok_def)
  then have "user_saved_ok k d0" using d0(1) unfolding symtab_saved_ok_def by blast
  moreover have "hashtab_abs (table (p_users q5)) k = Some (cached_user d)" by (simp add: ut(4) d(1))
  moreover have "ud_value d0 = v" using d(2) by (simp add: d0(2) user_kept_def)
  ultimately show thesis using agree_at [OF ut(3) d(3,4)] that [OF d0(1)] unfolding d0(2) user_saved_ok_def by blast
qed

lemma level_valid_loaded:
  assumes "read_symbols p q q4 q5" "level_fits p lv" "level_ok lv"
  shows "level_isvalid q5 lv = Inr True"
proof -
  have ok: "syms_saved_ok p q" and fresh: "fresh_db q" and same: "syms_same p q q4" and ix: "image_indexed q4 q5"
    using assms(1) by (simp_all add: read_symbols_def)
  note l = assms(2) [unfolded level_fits_def]
  have levels: "symtab_loaded (=) no_skip keep_all (p_levels p) (p_levels q) (p_levels q4)" "no_symbols (p_levels q)"
    and cats: "symtab_loaded (=) no_skip keep_all (p_cats p) (p_cats q) (p_cats q4)" "no_symbols (p_cats q)" using same fresh by (simp_all add: syms_same_def fresh_db_def)
  have n: "nprim (p_levels q4) = nprim (p_levels p)" "nprim (p_cats q4) = nprim (p_cats p)" by (rule loaded_rel(2) [OF levels], simp, rule loaded_rel(2) [OF cats], simp)
  have st: "val_total (p_sens_val_to_name q5) (nprim (p_levels q4))"
    "indexes (\<lambda>d. ld_isalias d = 0) (\<lambda>d. sens (ld_level d)) {(k, d). hashtab_abs (table (p_levels q4)) k = Some d} (p_sens_val_to_name q5) []"
    using ix unfolding image_indexed_def by blast+
  obtain k d where d: "hashtab_abs (table (p_levels q4)) k = Some d" "ld_isalias d = 0" "sens (ld_level d) = sens lv" "val_deref (p_sens_val_to_name q5) (sens lv) = Inr k"
    by (rule indexed_at [OF st, of "sens lv"]) (use l n that in \<open>simp, simp, blast\<close>)
  have h: "hashtab_search (table (p_levels q4)) k = Inr (Some d)" using hashtab_search_abs [of "table (p_levels q4)" k] loaded_rel(1) [OF levels] d(1) by simp
  have "symtab_saved_ok (\<lambda>k d. name_ok k \<and> level_ok (ld_level d)) no_skip keep_all (p_levels p) (p_levels q)" using ok by (simp add: syms_saved_ok_def)
  then have lok: "ebitmap_ok (cat (ld_level d))" using d(1) unfolding loaded_table [OF levels] symtab_saved_ok_def level_ok_def by blast
  have fits: "ebitmap_bits (cat lv) \<subseteq> ebitmap_bits (cat (ld_level d))" using l d(1-3) unfolding loaded_table [OF levels] by blast
  from ebitmap_positive_bits_eq [of "cat lv"] assms(3) obtain bs where
    bs: "ebitmap_positive_bits (cat lv) = Inr bs" "unat ` set bs = ebitmap_bits (cat lv)" by (auto simp: level_ok_def)
  have "cats_allowed q5 (cat (ld_level d)) bs" unfolding cats_allowed_iff [OF lok] bs(2) using fits l by (auto simp: read_frame [OF ix] n)
  then show ?thesis using l d(4) h bs(1) by (simp add: level_isvalid_def read_frame [OF ix] n leD)
qed

lemma context_valid_loaded:
  assumes r: "read_symbols p q q4 q5" and mls: "p_mls q4 = p_mls p" and c: "label_valid p c"
  shows "policydb_context_isvalid q5 c = Inr True"
proof -
  have fresh: "fresh_db q" and same: "syms_same p q q4" and ix: "image_indexed q4 q5" and v: "20 \<le> policyvers p" using r by (simp_all add: read_symbols_def)
  have vm: "POLICYDB_VERSION_MLS \<le> policyvers p" using v by (auto intro: order_trans [rotated])
  note c = c [unfolded label_valid_def]
  have n: "nprim (p_roles q5) = nprim (p_roles p)" "nprim (p_users q5) = nprim (p_users p)" "nprim (p_types q5) = nprim (p_types p)"
    using ix same unfolding image_indexed_def syms_same_def symtab_loaded_def by (simp_all add: read_frame [OF ix])
  have tv: "c_type c \<noteq> 0" "c_type c \<le> nprim (p_types p)" and uv: "c_user c \<noteq> 0" "c_user c \<le> nprim (p_users p)" using c by blast+
  from type_at [OF r tv] obtain td kt where t: "hashtab_abs (table (p_types p)) kt = Some td" "primary td" "td_value td = c_type c"
    "type_val_to_struct q5 ! unat (c_type c - 1) = Some (type_kept p td)" by metis
  have "td_flavor td \<noteq> TYPE_ATTRIB" using c t(1-3) by blast
  then have mem: "members q5 (unat (c_type c - 1)) = {unat (c_type c - 1)}" using t(4) by (auto simp: members_def type_kept_def)
  from user_at [OF r uv] obtain ku u where u: "hashtab_abs (table (p_users p)) ku = Some u" "ud_value u = c_user c"
    "val_get (user_val_to_struct q5) (c_user c) = Inr (Some (cached_user (user_kept p u)))"
    "val_deref (user_val_to_struct q5) (c_user c) = Inr (cached_user (user_kept p u))" "ebitmap_ok (rs_roles (ud_roles u))" by metis
  have "level_isvalid q5 (low (c_range c)) = Inr True \<and> level_isvalid q5 (high (c_range c)) = Inr True" if "p_mls p"
    using that c by (auto intro!: level_valid_loaded [OF r] simp: context_ok_def range_ok_def)
  moreover have "mls_range_contains (ud_exp_range u) (c_range c)" if "p_mls p" "c_role c \<noteq> OBJECT_R_VAL" using that c u(1,2) by blast
  ultimately have m: "mls_context_isvalid q5 c = Inr True"
    using c u(4) vm by (auto simp: mls_context_isvalid_def read_frame [OF ix] mls n cached_user_def user_kept_def)
  show ?thesis
  proof (cases "c_role c = OBJECT_R_VAL")
    case True
    then have "nprim (p_roles p) \<noteq> 0" using c by auto
    with True show ?thesis using c m by (simp add: policydb_context_isvalid_def context_is_valid_def n leD)
  next
    case False
    have rv: "c_role c \<noteq> 0" "c_role c \<le> nprim (p_roles p)" using c by blast+
    from role_at [OF r rv False] obtain k d where d: "hashtab_abs (table (p_roles p)) k = Some d" "rd_value d = c_role c"
      "val_deref (role_val_to_struct q5) (c_role c) = Inr (cached_role q5 (role_kept p d))" "types_ok q5" "type_set_ok q5 (rd_types (role_kept p d))" by metis
    have tb: "unat (c_type c - 1) \<in> ebitmap_bits (ts_types (rd_types d))" using c False d(1,2) by blast
    then have "unat (c_type c - 1) \<in> type_set_denotes q5 (rd_types (role_kept p d)) True"
      using mem by (auto simp: type_set_denotes_def role_kept_def expands_def expanded_def)
    then have cb: "ebitmap_get_bit (rd_cache (cached_role q5 (role_kept p d))) (c_type c - 1)"
      using cached_role_denotes [OF d(4,5)] by (simp add: ebitmap_get_bit_iff)
    have "unat (c_role c - 1) \<in> ebitmap_bits (rs_roles (ud_roles u))" using c False u(1,2) by blast
    then have ub: "ebitmap_get_bit (ud_cache (cached_user (user_kept p u))) (c_role c - 1)"
      using u(5) by (simp add: ebitmap_get_bit_iff cached_user_def user_kept_def)
    show ?thesis using c False m cb ub d(3) u(3) by (simp add: policydb_context_isvalid_def context_is_valid_def n leD)
  qed
qed

section \<open>The whole image\<close>

text \<open>The labels of the policy that is written.\<close>

definition contexts_ok :: "policydb \<Rightarrow> nat \<Rightarrow> bool" where
  "contexts_ok p n \<longleftrightarrow> n \<le> 7
     \<and> (\<forall>i < n. length (ocon_get i p) < 2 ^ 32 \<and> (\<forall>c \<in> set (ocon_get i p). let kind = ocon_kind_of (target_platform p = SEPOL_TARGET_XEN) i in
          ocon_key_ok kind (oc_u c) \<and> label_valid p (fst (oc_context c)) \<and> (kind \<in> {OCON_FS, OCON_NETIF} \<longrightarrow> label_valid p (snd (oc_context c)))))
     \<and> sorted_wrt (\<lambda>a b. strcmp (gf_fstype a) (gf_fstype b) < 0) (p_genfs p) \<and> length (p_genfs p) < 2 ^ 32
     \<and> (\<forall>g \<in> set (p_genfs p). name_ok (gf_fstype g) \<and> length (gf_head g) < 2 ^ 32
          \<and> sorted_wrt (\<lambda>a b. length (oc_name b) \<le> length (oc_name a) \<and> \<not> genfs_conflict a b) (gf_head g)
          \<and> (\<forall>c \<in> set (gf_head g). \<exists>s. oc_u c = OName s \<and> name_ok s \<and> label_valid p (fst (oc_context c))))
     \<and> length (range_tr p) < 2 ^ 32 \<and> (\<forall>t \<in> set (range_tr p). range_ok (rtr_target_range t)) \<and> attrs_ok p"

lemma labels_valid_loaded:
  assumes r: "read_symbols p q q4 q5" and mls: "p_mls q4 = p_mls p" and v: "policyvers q5 = policyvers p" and c: "contexts_ok p n"
  shows "labels_saved_ok n p q5"
proof -
  have "20 \<le> policyvers p" using r by (simp add: read_symbols_def)
  then have vm: "\<not> policyvers p < POLICYDB_VERSION_MLS" by (auto simp: not_less intro: order_trans [rotated])
  have ctx: "ctx_saved_ok q5 c" if "label_valid p c" for c
    using context_valid_loaded [OF r mls that] that vm by (simp add: ctx_saved_ok_def v label_valid_def)
  note c = c [unfolded contexts_ok_def Let_def]
  have "ocon_list_ok (target_platform p = SEPOL_TARGET_XEN) q5 p i" if "i < n" for i
    using c that ctx by (auto simp: ocon_list_ok_def ocon_saved_ok_def)
  moreover have "genfs_ok q5 (p_genfs p)" using c ctx unfolding genfs_ok_def genfs_head_ok_def by blast
  ultimately show ?thesis using c unfolding labels_saved_ok_def by blast
qed

definition entries_ok :: "(string \<Rightarrow> 'd \<Rightarrow> bool) \<Rightarrow> 'd symtab \<Rightarrow> bool" where
  "entries_ok ok s \<longleftrightarrow> (\<forall>t. table s = Some t \<longrightarrow> length (ht_entries t) < 2 ^ 32) \<and> (\<forall>k d. hashtab_abs (table s) k = Some d \<longrightarrow> ok k d)"

definition symbols_saved :: "policydb \<Rightarrow> bool" where
  "symbols_saved p \<longleftrightarrow> entries_ok common_ok (p_commons p) \<and> entries_ok (class_saved_ok p) (p_classes p) \<and> entries_ok role_saved_ok (p_roles p)
     \<and> entries_ok (\<lambda>k d. name_ok k) (p_types p) \<and> entries_ok user_saved_ok (p_users p) \<and> entries_ok (\<lambda>k d. name_ok k \<and> bool_isvalid d) (p_bools p)
     \<and> entries_ok (\<lambda>k d. name_ok k \<and> level_ok (ld_level d)) (p_levels p) \<and> entries_ok (\<lambda>k d. name_ok k) (p_cats p)"

definition image_ok :: "nat \<Rightarrow> policydb \<Rightarrow> bool" where
  "image_ok n p \<longleftrightarrow> \<not> unsupported_format p \<and> 20 \<le> policyvers p \<and> policydb_lookup_compat (policyvers p) (target_platform p) = Some (8, n)
     \<and> ebitmap_ok (policycaps p) \<and> ebitmap_ok (permissive_map p) \<and> symbols_ok p \<and> symbols_saved p \<and> rules_saved_ok p \<and> contexts_ok p n"

lemma saved_into:
  assumes "entries_ok ok s" "hashtab_ok (table s)" "hashtab_ok (table s0)" "\<And>k. \<not> skip k \<Longrightarrow> hashtab_abs (table s0) k = None"
  shows "symtab_saved_ok ok skip keep s s0"
  using assms unfolding entries_ok_def symtab_saved_ok_def by blast

lemma syms_fresh:
  assumes "symbols_ok p" "symbols_saved p" "fresh_db q" "policyvers q = policyvers p"
  shows "syms_saved_ok p q"
  unfolding syms_saved_ok_def using assms
  by (intro conjI saved_into) (simp_all add: symbols_ok_def tables_ok_def symbols_saved_def fresh_db_def no_symbols_def)

text \<open>What is read: the symbols and rules, their index, and the labels behind it.\<close>

definition image_read :: "nat \<Rightarrow> policydb \<Rightarrow> policydb \<Rightarrow> policydb \<Rightarrow> bool" where
  "image_read n p q0 q \<longleftrightarrow> (\<exists>q3 q4 q5. let q2 = caps_loaded p (header_loaded p q0) in
     syms_loaded p q2 q3 \<and> rules_loaded p q3 q4 \<and> read_symbols p q2 q4 q5 \<and> labels_loaded n p q5 q)"

lemma ocon_get_upd [simp]:
  "ocon_get i (q\<lparr>target_platform := t, policyvers := v, p_mls := m, handle_unknown := h\<rparr>) = ocon_get i q"
  "ocon_get i (q\<lparr>policycaps := c, permissive_map := c'\<rparr>) = ocon_get i q"
  "ocon_get i (q\<lparr>te_avtab := a, te_cond_avtab := b, cond_list := l, role_tr := rt, role_allows := ra, p_filename_trans := ft\<rparr>) = ocon_get i q"
  "ocon_get i (q\<lparr>p_commons := s0, p_classes := s1, p_roles := s2, p_types := s3, p_users := s4, p_bools := s5, p_levels := s6, p_cats := s7\<rparr>) = ocon_get i q"
  by (cases "(i, q)" rule: ocon_get.cases; simp)+

lemma fresh_header: "fresh_db q \<Longrightarrow> fresh_db (caps_loaded p (header_loaded p q))"
  by (simp add: fresh_db_def caps_loaded_def header_loaded_def)

lemma reindexed_rest:
  assumes "reindexed q q'"
  shows "ocon_get i q' = ocon_get i q" "p_genfs q' = p_genfs q" "range_tr q' = range_tr q" "policyvers q' = policyvers q" "target_platform q' = target_platform q"
    "p_types q' = p_types q" "p_mls q' = p_mls q" "handle_unknown q' = handle_unknown q" "policycaps q' = policycaps q" "permissive_map q' = permissive_map q"
    "p_commons q' = p_commons q" "p_classes q' = p_classes q" "p_bools q' = p_bools q" "p_levels q' = p_levels q" "p_cats q' = p_cats q"
    "te_avtab q' = te_avtab q" "te_cond_avtab q' = te_cond_avtab q" "cond_list q' = cond_list q" "role_tr q' = role_tr q" "role_allows q' = role_allows q"
    "p_filename_trans q' = p_filename_trans q"
  by (subst assms [unfolded reindexed_def], cases "(i, q)" rule: ocon_get.cases; simp) (subst assms [unfolded reindexed_def], simp)+

lemma syms_loaded_rest:
  assumes "syms_loaded p q q'"
  shows "ocon_get i q' = ocon_get i q" "p_genfs q' = p_genfs q" "range_tr q' = range_tr q" "policyvers q' = policyvers q" "target_platform q' = target_platform q" "p_mls q' = p_mls q"
    "no_rules q' = no_rules q" "handle_unknown q' = handle_unknown q" "policycaps q' = policycaps q" "permissive_map q' = permissive_map q"
proof -
  have e: "q' = q\<lparr>p_commons := p_commons q', p_classes := p_classes q', p_roles := p_roles q', p_types := p_types q', p_users := p_users q',
       p_bools := p_bools q', p_levels := p_levels q', p_cats := p_cats q'\<rparr>" using assms by (simp add: syms_loaded_def)
  show "ocon_get i q' = ocon_get i q" "p_genfs q' = p_genfs q" "range_tr q' = range_tr q" "policyvers q' = policyvers q" "target_platform q' = target_platform q" "p_mls q' = p_mls q"
    "no_rules q' = no_rules q" "handle_unknown q' = handle_unknown q" "policycaps q' = policycaps q" "permissive_map q' = permissive_map q" by (subst e, simp add: no_rules_def)+
qed

lemma rules_loaded_rest:
  assumes "rules_loaded p q q'"
  shows "ocon_get i q' = ocon_get i q" "p_genfs q' = p_genfs q" "range_tr q' = range_tr q" "policyvers q' = policyvers q" "target_platform q' = target_platform q" "p_mls q' = p_mls q"
    "p_commons q' = p_commons q" "p_classes q' = p_classes q" "p_roles q' = p_roles q" "p_types q' = p_types q" "p_users q' = p_users q" "p_bools q' = p_bools q"
    "p_levels q' = p_levels q" "p_cats q' = p_cats q" "handle_unknown q' = handle_unknown q" "policycaps q' = policycaps q" "permissive_map q' = permissive_map q"
proof -
  let ?f = "if policyvers p \<ge> POLICYDB_VERSION_FILENAME_TRANS then p_filename_trans p else []"
  have e: "q' = q\<lparr>te_avtab := te_avtab q', te_cond_avtab := te_cond_avtab q', cond_list := cond_list q', role_tr := kept_role_tr p, role_allows := role_allows p,
      p_filename_trans := ?f\<rparr>" using assms by (simp add: rules_loaded_def)
  show "ocon_get i q' = ocon_get i q" "p_genfs q' = p_genfs q" "range_tr q' = range_tr q" "policyvers q' = policyvers q" "target_platform q' = target_platform q" "p_mls q' = p_mls q"
    "p_commons q' = p_commons q" "p_classes q' = p_classes q" "p_roles q' = p_roles q" "p_types q' = p_types q" "p_users q' = p_users q" "p_bools q' = p_bools q"
    "p_levels q' = p_levels q" "p_cats q' = p_cats q" "handle_unknown q' = handle_unknown q" "policycaps q' = policycaps q" "permissive_map q' = permissive_map q" by (subst e, simp)+
qed

lemma syms_same_rules:
  assumes "syms_same p q q3" "rules_loaded p q3 q4"
  shows "syms_same p q q4"
proof -
  have "class_same q4 = class_same q3" by (simp add: fun_eq_iff class_same_def rules_loaded_rest [OF assms(2)])
  then show ?thesis using assms(1) by (simp add: syms_same_def rules_loaded_rest [OF assms(2)])
qed

lemma policy_code:
  assumes ok: "image_ok n p" and fresh: "fresh_db q0"
  shows "code (policydb_write sc p) (policydb_read rm sc q0) (image_read n p q0)"
proof -
  have o: "\<not> unsupported_format p" "20 \<le> policyvers p" "policydb_lookup_compat (policyvers p) (target_platform p) = Some (8, n)" "ebitmap_ok (policycaps p)"
    "ebitmap_ok (permissive_map p)" "symbols_ok p" "symbols_saved p" "rules_saved_ok p" "contexts_ok p n" using ok by (simp_all add: image_ok_def)
  note plat = compat_cases(1) [OF o(3)] note idc = identifier_code [OF plat]
  let ?q2 = "caps_loaded p (header_loaded p q0)"
  let ?str = "policydb_target_strings ! unat (target_platform p)"
  let ?config = "(if p_mls p then POLICYDB_CONFIG_MLS else 0) OR (POLICYDB_CONFIG_UNKNOWN_MASK AND handle_unknown p)"
  have h2: "policyvers ?q2 = policyvers p" "target_platform ?q2 = target_platform p" "p_mls ?q2 = p_mls p" by (simp_all add: caps_loaded_def header_loaded_def)
  have f2: "fresh_db ?q2" by (rule fresh_header [OF fresh])
  have s2: "syms_saved_ok p ?q2" by (rule syms_fresh [OF o(6,7) f2 h2(1)])
  have v: "\<not> (p_mls p \<and> policyvers p < POLICYDB_VERSION_MLS)" using o(2) by (auto simp: not_less intro: order_trans [rotated])
  have w: "policydb_write sc p = failW (seqW (put_u32s [POLICYDB_MAGIC, of_nat (length ?str)]) (seqW (put_string ?str) (seqW (put_u32s [policyvers p, ?config, of_nat 8, of_nat n])
     (seqW (write_caps p) (seqW (foldE (write_sym sc p) [0..<8]) (seqW (write_rules p) (write_labels n p))))))) STATUS_ERR"
    by (simp only: policydb_write_def if_not_P [OF o(1)] if_not_P [OF v] Let_def idc(4) o(3) option.case prod.case) (simp add: fun_eq_iff)
  have labels: "code (write_labels n p) (bindP (liftP (index_image q4)) (read_labels n)) (image_read n p q0)"
    if l: "syms_loaded p ?q2 q3" "rules_loaded p q3 q4" for q3 q4
  proof -
    note e4 = rules_loaded_rest [OF l(2)] syms_loaded_rest [OF l(1)]
    have same: "syms_same p ?q2 q4" by (rule syms_same_rules [OF _ l(2)]) (use l(1) in \<open>simp add: syms_loaded_def\<close>)
    note t = loaded_tables [OF o(6) s2 f2 same] loaded_sets [OF o(6) s2 f2 same o(2)]
    from index_image_run [of q4] t obtain q5 where q5: "index_image q4 [] = (Inr q5, [])" "image_indexed q4 q5" by blast
    have r: "read_symbols p ?q2 q4 q5" using o s2 f2 same q5(2) by (simp add: read_symbols_def)
    have "reindexed q4 q5" using q5(2) by (simp add: image_indexed_def)
    note e5 = reindexed_rest [OF this]
    have nt: "nprim (p_types q3) = nprim (p_types p)" using l(1) by (simp add: syms_loaded_def syms_same_def symtab_loaded_def)
    have lab: "labels_saved_ok n p q5" by (rule labels_valid_loaded [OF r _ _ o(9)]) (simp_all add: e5 e4 h2)
    have "\<forall>i < n. ocon_get i q5 = []" "p_genfs q5 = []" "range_tr q5 = []"
      using f2 compat_cases(4) [OF o(3)] by (auto simp: e5 e4 fresh_db_def)
    then have "code (write_labels n p) (read_labels n q5) (labels_loaded n p q5)"
      using o(2) plat lab by (intro labels_code) (simp_all add: e5 e4 h2 nt)
    then have "code (write_labels n p) (read_labels n q5) (image_read n p q0)"
      by (rule code_weaken) (use l r in \<open>auto simp: image_read_def Let_def\<close>)
    then show ?thesis using code_lift [of "index_image q4" q5] q5(1) by blast
  qed
  have rules: "code (seqW (write_rules p) (write_labels n p)) (bindP (read_rules q3) (\<lambda>q4. bindP (liftP (index_image q4)) (read_labels n))) (image_read n p q0)"
    if l: "syms_loaded p ?q2 q3" for q3
  proof (rule code_bind [OF rules_code labels [OF l]])
    show "nprim (p_bools q3) = nprim (p_bools p)" using l by (simp add: syms_loaded_def syms_same_def symtab_loaded_def)
    have "no_rules ?q2" using f2 by (simp add: fresh_db_def no_rules_def)
    then show "no_rules q3" by (simp only: syms_loaded_rest(7) [OF l])
  qed (use o h2 syms_loaded_rest(4) [OF l] in simp_all)
  show ?thesis unfolding w policydb_read_def
    by (rule code_failP, rule code_failW, rule code_step [OF code_u32s], simp, simp, simp only: nth_Cons_0 nth_Cons_Suc One_nat_def if_True refl simp_thms, rule code_step [OF idc(1)],
        simp only: idc(2,3) option.case, rule code_step [OF config_code [OF o(3)]], simp only: prod.case, rule code_step [OF caps_code], simp add: header_loaded_def,
        rule o(4), rule o(5), rule code_bind [OF symbols_code [OF s2]], rule rules)
qed

text \<open>The two policies. Names of initial SIDs, expanded sets, role attributes and what the version has no room for are not in the image; the
  sets are expanded again by the index.\<close>

definition same_symbols :: "policydb \<Rightarrow> policydb \<Rightarrow> bool" where
  "same_symbols p q \<longleftrightarrow>
     (\<forall>k. rel_option common_same (hashtab_abs (table (p_commons p)) k) (hashtab_abs (table (p_commons q)) k))
     \<and> (\<forall>k. rel_option (class_same q) (hashtab_abs (table (p_classes p)) k) (hashtab_abs (table (p_classes q)) k))
     \<and> (\<forall>k. k \<noteq> OBJECT_R \<longrightarrow> hashtab_abs (table (p_roles q)) k = map_option (cached_role q \<circ> role_kept p) (hashtab_abs (table (p_roles p)) k))
     \<and> (\<forall>k. hashtab_abs (table (p_types q)) k = map_option (type_kept p) (hashtab_abs (table (p_types p)) k))
     \<and> (\<forall>k. hashtab_abs (table (p_users q)) k = map_option (cached_user \<circ> user_kept p) (hashtab_abs (table (p_users p)) k))
     \<and> hashtab_abs (table (p_bools q)) = hashtab_abs (table (p_bools p))
     \<and> hashtab_abs (table (p_levels q)) = hashtab_abs (table (p_levels p)) \<and> hashtab_abs (table (p_cats q)) = hashtab_abs (table (p_cats p))"

definition same_rules :: "policydb \<Rightarrow> policydb \<Rightarrow> bool" where
  "same_rules p q \<longleftrightarrow> te_same (te_avtab p) (te_avtab q) \<and> list_all2 (cond_same (te_cond_avtab p) (te_cond_avtab q)) (cond_list p) (cond_list q)
     \<and> role_tr q = kept_role_tr p \<and> role_allows q = role_allows p
     \<and> (policyvers p \<ge> POLICYDB_VERSION_FILENAME_TRANS \<longrightarrow> p_filename_trans q = p_filename_trans p)"

definition same_labels :: "nat \<Rightarrow> policydb \<Rightarrow> policydb \<Rightarrow> bool" where
  "same_labels n p q \<longleftrightarrow> (\<forall>i < n. ocon_get i q = map (ocon_kept (ocon_kind_of (target_platform p = SEPOL_TARGET_XEN) i)) (ocon_get i p))
     \<and> p_genfs q = map genfs_kept (p_genfs p) \<and> range_tr q = kept_range_tr p \<and> type_attr_map q = type_attr_map p
     \<and> length (attr_type_map q) = unat (nprim (p_types p)) \<and> attr_inverse (type_attr_map p) [0..<unat (nprim (p_types p))] (attr_type_map q)"

definition same_header :: "policydb \<Rightarrow> policydb \<Rightarrow> bool" where
  "same_header p q \<longleftrightarrow> policyvers q = policyvers p \<and> p_mls q = p_mls p \<and> target_platform q = target_platform p
     \<and> handle_unknown q = POLICYDB_CONFIG_UNKNOWN_MASK AND handle_unknown p
     \<and> (policyvers p \<ge> POLICYDB_VERSION_POLCAP \<longrightarrow> policycaps q = policycaps p)
     \<and> (policyvers p \<ge> POLICYDB_VERSION_PERMISSIVE \<longrightarrow> permissive_map q = permissive_map p)"

text \<open>Reading the labels leaves the symbols and the rules alone: the database without its labels.\<close>

definition unlabelled :: "policydb \<Rightarrow> policydb" where
  "unlabelled q = q\<lparr>oc_isid := [], oc_fs := [], oc_port := [], oc_netif := [], oc_node := [], oc_fsuse := [], oc_node6 := [],
     p_genfs := [], range_tr := [], type_attr_map := [], attr_type_map := []\<rparr>"

lemma unlabelled_set: "unlabelled (ocon_set i l q) = unlabelled q"
  by (cases "(i, l, q)" rule: ocon_set.cases) (simp_all add: unlabelled_def)

lemma unlabelled_loaded: "labels_loaded n p q q' \<Longrightarrow> unlabelled q' = unlabelled q"
proof -
  have o: "unlabelled (ocons_loaded xen p is q) = unlabelled q" for xen "is" q
    by (induction "is" arbitrary: q) (simp_all add: ocons_loaded_def unlabelled_set)
  show "labels_loaded n p q q' \<Longrightarrow> unlabelled q' = unlabelled q"
    using o [of "target_platform p = SEPOL_TARGET_XEN" "[0..<n]" q] unfolding labels_loaded_def by (auto simp: unlabelled_def)
qed

lemma unlabelled_fields:
  assumes "unlabelled q' = unlabelled q"
  shows "policyvers q' = policyvers q" "p_mls q' = p_mls q" "target_platform q' = target_platform q" "handle_unknown q' = handle_unknown q"
    "policycaps q' = policycaps q" "permissive_map q' = permissive_map q"
    "p_commons q' = p_commons q" "p_classes q' = p_classes q" "p_roles q' = p_roles q" "p_types q' = p_types q" "p_users q' = p_users q" "p_bools q' = p_bools q"
    "p_levels q' = p_levels q" "p_cats q' = p_cats q" "type_val_to_struct q' = type_val_to_struct q"
    "te_avtab q' = te_avtab q" "te_cond_avtab q' = te_cond_avtab q" "cond_list q' = cond_list q" "role_tr q' = role_tr q" "role_allows q' = role_allows q"
    "p_filename_trans q' = p_filename_trans q"
  using assms unfolding unlabelled_def by (cases q, cases q', simp)+

lemma read_same_symbols:
  assumes r: "read_symbols p q2 q4 q5" and u: "unlabelled q = unlabelled q5" and v: "policyvers q4 = policyvers q5"
  shows "same_symbols p q"
proof -
  have o: "symbols_ok p" and fresh: "fresh_db q2" and same: "syms_same p q2 q4" and ix: "image_indexed q4 q5" using r by (simp_all add: read_symbols_def)
  note s = same [unfolded syms_same_def] and f = fresh [unfolded fresh_db_def] and x = ix [unfolded image_indexed_def] and e = unlabelled_fields [OF u]
  have rk: "\<And>k d. hashtab_abs (table (p_roles p)) k = Some d \<Longrightarrow> role_keep d" and tk: "\<And>k d. hashtab_abs (table (p_types p)) k = Some d \<Longrightarrow> type_keep p d"
    and obj: "hashtab_abs (table (p_roles p)) OBJECT_R \<noteq> None" using o unfolding symbols_ok_def by blast+
  have "reindexed q4 q5" using x by blast
  note e5 = reindexed_rest [OF this]
  have cr: "cached_role q = cached_role q5" by (simp add: fun_eq_iff cached_role_def type_set_expand_cong [of q q5] e)
  have cs: "class_same q = class_same q4" by (simp add: fun_eq_iff class_same_def e e5)
  have t: "rel_option (\<lambda>d d'. d' = type_kept p d) (hashtab_abs (table (p_types p)) k) (hashtab_abs (table (p_types q4)) k)" for k
    by (rule loaded_rel(3) [of _ "type_keep p" _ "p_types q2"]) (use s f tk in auto)
  have us: "rel_option (\<lambda>d d'. d' = user_kept p d) (hashtab_abs (table (p_users p)) k) (hashtab_abs (table (p_users q4)) k)" for k
    by (rule loaded_rel(3) [of _ keep_all _ "p_users q2"]) (use s f in auto)
  have ro: "k \<noteq> OBJECT_R \<Longrightarrow> hashtab_abs (table (p_roles q4)) k = map_option (role_kept p) (hashtab_abs (table (p_roles p)) k)" for k
    by (rule role_rel(4) [of p "p_roles p" "p_roles q2"]) (use s f obj rk in auto)
  have map_rel: "rel_option (\<lambda>d d'. d' = g d) a b \<Longrightarrow> b = map_option g a" for a :: "'x option" and b :: "'y option" and g by (cases a; cases b) auto
  have "\<forall>k. rel_option common_same (hashtab_abs (table (p_commons p)) k) (hashtab_abs (table (p_commons q)) k)"
    unfolding e e5 by (intro allI loaded_rel(3) [of _ keep_all _ "p_commons q2"]) (use s f in auto)
  moreover have "\<forall>k. rel_option (class_same q) (hashtab_abs (table (p_classes p)) k) (hashtab_abs (table (p_classes q)) k)"
    unfolding e e5 cs by (intro allI loaded_rel(3) [of _ keep_all _ "p_classes q2"]) (use s f in auto)
  moreover have "\<forall>k. k \<noteq> OBJECT_R \<longrightarrow> hashtab_abs (table (p_roles q)) k = map_option (cached_role q \<circ> role_kept p) (hashtab_abs (table (p_roles p)) k)"
    using x ro by (simp add: e cr option.map_comp)
  moreover have "\<forall>k. hashtab_abs (table (p_types q)) k = map_option (type_kept p) (hashtab_abs (table (p_types p)) k)"
    unfolding e e5 by (intro allI map_rel t)
  moreover have "\<forall>k. hashtab_abs (table (p_users q)) k = map_option (cached_user \<circ> user_kept p) (hashtab_abs (table (p_users p)) k)"
    using x map_rel [OF us] by (simp add: e option.map_comp)
  moreover have "hashtab_abs (table (p_bools q)) = hashtab_abs (table (p_bools p))" unfolding e e5 by (rule loaded_table [of _ "p_bools q2"]) (use s f in auto)
  moreover have "hashtab_abs (table (p_levels q)) = hashtab_abs (table (p_levels p))" unfolding e e5 by (rule loaded_table [of _ "p_levels q2"]) (use s f in auto)
  moreover have "hashtab_abs (table (p_cats q)) = hashtab_abs (table (p_cats p))" unfolding e e5 by (rule loaded_table [of _ "p_cats q2"]) (use s f in auto)
  ultimately show ?thesis unfolding same_symbols_def by blast
qed

lemma image_read_same:
  assumes "image_read n p q0 q" "n \<le> 7"
  shows "same_header p q \<and> same_symbols p q \<and> same_rules p q \<and> same_labels n p q"
proof -
  let ?q2 = "caps_loaded p (header_loaded p q0)"
  from assms(1) obtain q3 q4 q5 where l: "syms_loaded p ?q2 q3" "rules_loaded p q3 q4" "read_symbols p ?q2 q4 q5" "labels_loaded n p q5 q" unfolding image_read_def Let_def by blast
  note u = unlabelled_loaded [OF l(4)] note e = unlabelled_fields [OF u] note e4 = rules_loaded_rest [OF l(2)] note e3 = syms_loaded_rest [OF l(1)]
  have "reindexed q4 q5" using l(3) by (simp add: read_symbols_def image_indexed_def)
  note e5 = reindexed_rest [OF this]
  have "same_header p q" unfolding same_header_def e e5 e4 e3 by (simp add: caps_loaded_def header_loaded_def)
  moreover have "same_symbols p q" by (rule read_same_symbols [OF l(3) u]) (simp add: e5)
  moreover have "same_rules p q"
  proof -
    let ?f = "if policyvers p \<ge> POLICYDB_VERSION_FILENAME_TRANS then p_filename_trans p else []"
    note r = l(2) [unfolded rules_loaded_def]
    have "role_tr q4 = kept_role_tr p" "role_allows q4 = role_allows p" "p_filename_trans q4 = ?f" by (subst r [THEN conjunct2, THEN conjunct2, THEN conjunct2], simp)+
    then show ?thesis using r unfolding same_rules_def e e5 by simp
  qed
  moreover have "same_labels n p q"
  proof -
    from l(4) obtain am where q: "q = (ocons_loaded (target_platform p = SEPOL_TARGET_XEN) p [0..<n] q5)
        \<lparr>p_genfs := map genfs_kept (p_genfs p), range_tr := kept_range_tr p, type_attr_map := type_attr_map p, attr_type_map := am\<rparr>"
      and am: "length am = unat (nprim (p_types p))" "attr_inverse (type_attr_map p) [0..<unat (nprim (p_types p))] am" unfolding labels_loaded_def by blast
    have upd: "ocon_get i (x\<lparr>p_genfs := a, range_tr := b, type_attr_map := c, attr_type_map := d\<rparr>) = ocon_get i x" for i x a b c d
      by (cases "(i, x)" rule: ocon_get.cases) simp_all
    have "ocon_get i q = map (ocon_kept (ocon_kind_of (target_platform p = SEPOL_TARGET_XEN) i)) (ocon_get i p)" if "i < n" for i
      using that assms(2) unfolding q upd by (subst ocons_loaded_get) auto
    then show ?thesis using am by (simp add: same_labels_def q upd)
  qed
  ultimately show ?thesis by blast
qed

section \<open>Properties\<close>

text \<open>Claim C1. A kernel policy that is well formed is written by \<open>policydb_write\<close> to every file with room for it, and what was written is read by
  \<open>policydb_read\<close> into an initialized policy without an error and without reading further. The policy that is read has the same
  header, the same symbols (with the sets of roles and users expanded again), the same rules and the same labels, all of them
  accepted by the checks of the reader.\<close>

theorem policydb_write_read:
  assumes "image_ok n p"
  shows "\<exists>q0 bs. policydb_init sc [] = (Inr q0, [])
    \<and> (\<forall>fp a. pf_room fp (length bs) \<longrightarrow> (\<exists>fp'. policydb_write sc p fp a = (Inr fp', a) \<and> pf_out fp' = pf_out fp @ bs))
    \<and> (\<forall>rest. \<exists>q fp'. policydb_read rm sc q0 (pf_of_bytes (bs @ rest)) [] = (Inr (q, fp'), []) \<and> pf_reads fp' rest
         \<and> same_header p q \<and> same_symbols p q \<and> same_rules p q \<and> same_labels n p q)"
proof -
  obtain q0 where q0: "policydb_init sc [] = (Inr q0, [])" "fresh_db q0" using init_fresh by blast
  have "n \<le> 7" using assms by (simp add: image_ok_def contexts_ok_def)
  then have "code (policydb_write sc p) (policydb_read rm sc q0) (\<lambda>q. same_header p q \<and> same_symbols p q \<and> same_rules p q \<and> same_labels n p q)"
    by (intro code_weaken [OF policy_code [OF assms q0(2)]]) (rule image_read_same)
  then show ?thesis by (rule code_roundtrip) (use q0(1) in blast)
qed

section \<open>A policy\<close>

text \<open>The sample policy with an initial SID, a label for a file system and a range transition.\<close>

definition image_isid :: ocontext where
  "image_isid = ocontext_zero\<lparr>oc_sid := (1, 0), oc_context := (sample_context 2 1, context_init)\<rparr>"

definition image_genfs :: genfs where
  "image_genfs = \<lparr>gf_fstype = ''proc'', gf_head = [ocontext_zero\<lparr>oc_u := OName ''/'', oc_context := (sample_context 1 2, context_init)\<rparr>]\<rparr>"

definition image_db :: policydb where
  "image_db = sample_db\<lparr>p_commons := symtab_of [] 0, p_bools := symtab_of [] 0, oc_isid := [image_isid], p_genfs := [image_genfs],
     range_tr := [\<lparr>rtr_source_type = 1, rtr_target_type = 2, rtr_target_class = 2, rtr_target_range = sample_range\<rparr>]\<rparr>"

lemma image_tables [simp]:
  "hashtab_ok (table (p_commons image_db))" "hashtab_ok (table (p_bools image_db))" "hashtab_ok (table (p_classes image_db))"
  "hashtab_abs (table (p_commons image_db)) = Map.empty" "hashtab_abs (table (p_bools image_db)) = Map.empty"
  "hashtab_abs (table (p_classes image_db)) = map_of [(''file'', sample_file), (''process'', sample_process)]"
  "p_roles image_db = p_roles sample_db" "p_types image_db = p_types sample_db" "p_users image_db = p_users sample_db" "p_levels image_db = p_levels sample_db"
  "p_cats image_db = p_cats sample_db" "nprim (p_commons image_db) = 0" "nprim (p_bools image_db) = 0" "nprim (p_classes image_db) = 2"
  "nprim (p_roles sample_db) = 2" "nprim (p_types sample_db) = 3" "policyvers image_db = 26"
  by (simp_all add: image_db_def sample_db_def symtab_of_ok symcmp_def)

lemma image_bits [simp]: "ebitmap_bits (bits_of 1) = {0}" "ebitmap_bits (bits_of 2) = {1}" "ebitmap_bits (bits_of 3) = {0, 1}" "ebitmap_bits (bits_of 4) = {2}"
  unfolding bits_of_bits by code_simp+

lemma image_symbols_ok: "symbols_ok image_db"
proof -
  have "tables_ok image_db" unfolding tables_ok_def image_tables index_tables sample_tables_abs
    by (intro conjI covers_map_of image_tables sample_tables_ok) (simp_all add: index_db_defs upt_rec covers_def)
  moreover have "covers (\<lambda>_. True) cd_value 2 (map_of [(''file'', sample_file), (''process'', sample_process)])"
    by (rule covers_map_of) (simp_all add: in_range_def sample_file_def sample_process_def upt_rec)
  ultimately show ?thesis unfolding symbols_ok_def
    by (auto simp: covers_def type_keep_def role_keep_def sample_object_r_def sample_sys_r_def policydb_has_boundary_feature_def split: if_splits)
qed

lemma symtab_of_entries: "table (symtab_of c n) = Some t \<Longrightarrow> ht_entries t = c"
  by (auto simp: symtab_of_def ht_entries_def)

lemma entries_of:
  assumes "chain_sorted (\<lambda>a b. symcmp a b > 0) c" "list_all (\<lambda>(k, d). ok k d) c" "length c < 2 ^ 32"
  shows "entries_ok ok (symtab_of c n)"
  using assms map_of_SomeD [of c] unfolding entries_ok_def symtab_of_ok(2) [OF assms(1)] list_all_iff by (fastforce dest: symtab_of_entries)

lemma perms_of:
  assumes "chain_sorted (\<lambda>a b. symcmp a b > 0) c" "list_all (name_ok \<circ> fst) c" "length c < 2 ^ 32"
  shows "perms_ok (symtab_of c n)"
  using assms map_of_SomeD [of c] unfolding perms_ok_def symtab_of_ok(2) [OF assms(1)] list_all_iff by (fastforce dest: symtab_of_entries intro: symtab_of_ok(1))

lemma image_constraint_ok: "cons_saved_ok image_db b sample_constraint"
  by (simp add: cons_saved_ok_def sample_constraint_def cexpr_saved_ok_def cexpr_op_of_def cexpr_depth_def)

lemma image_symbols_saved: "symbols_saved image_db"
proof -
  have perms: "perms_ok (cd_permissions sample_file)" "perms_ok (cd_permissions sample_process)"
    unfolding sample_file_def sample_process_def by (simp_all add: perms_of symcmp_def name_ok_def)
  have cls: "p_classes image_db = symtab_of [(''file'', sample_file), (''process'', sample_process)] 2" by (simp add: image_db_def sample_db_def)
  have "entries_ok (class_saved_ok image_db) (p_classes image_db)" unfolding cls
    by (rule entries_of; use perms image_constraint_ok in \<open>simp add: symcmp_def name_ok_def class_saved_ok_def sample_file_def sample_process_def\<close>)
  moreover have "entries_ok common_ok (p_commons image_db)" "entries_ok (\<lambda>k d. name_ok k \<and> bool_isvalid d) (p_bools image_db)"
    unfolding image_db_def sample_db_def by (simp_all add: entries_of)
  moreover have "entries_ok role_saved_ok (p_roles image_db)" unfolding image_db_def sample_db_def
    by simp (rule entries_of; simp add: symcmp_def name_ok_def role_saved_ok_def sample_object_r_def sample_sys_r_def bits_of_ok)
  moreover have "entries_ok (\<lambda>k d. name_ok k) (p_types image_db)" "entries_ok (\<lambda>k d. name_ok k) (p_cats image_db)" unfolding image_db_def sample_db_def
    by simp_all (rule entries_of; simp add: symcmp_def name_ok_def)+
  moreover have "entries_ok user_saved_ok (p_users image_db)" "entries_ok (\<lambda>k d. name_ok k \<and> level_ok (ld_level d)) (p_levels image_db)" unfolding image_db_def sample_db_def
    by simp_all (rule entries_of; simp add: symcmp_def name_ok_def user_saved_ok_def sample_user_def bits_of_ok)+
  ultimately show ?thesis unfolding symbols_saved_def by blast
qed

lemma image_rules_ok: "rules_saved_ok image_db"
proof -
  have "te_saved_ok sample_avtab"
    by (auto simp: te_saved_ok_def spec_single_def av_unique_def key_same_def spec_match_def spec_order_def)
  then show ?thesis by (simp add: rules_saved_ok_def image_db_def sample_db_def policydb_zero_def)
qed

lemma image_label_valid: "label_valid image_db (sample_context 2 1)" "label_valid image_db (sample_context 1 2)"
proof -
  have l: "level_fits image_db sample_level" "level_fits image_db sample_clear"
    by (auto simp: level_fits_def sample_level_def sample_clear_def split: if_splits)
  have d: "mls_level_dom sample_clear sample_level" "mls_range_contains sample_range sample_range" by code_simp+
  show "label_valid image_db (sample_context 2 1)" "label_valid image_db (sample_context 1 2)"
    unfolding label_valid_def using l d
    by (auto simp: sample_context_def sample_range_def sample_type_def sample_sys_r_def sample_object_r_def sample_user_def context_ok_def range_ok_def split: if_splits)
qed

lemma image_contexts_ok: "contexts_ok image_db 7"
proof -
  have tm: "type_attr_map image_db = [bits_of 1, bits_of 2, bits_of 4]" by (simp add: image_db_def sample_db_def)
  have n: "unat (nprim (p_types image_db)) = 3" by simp
  have "i = 0 \<or> i = 1 \<or> i = 2" if "i < 3" for i :: nat using that by linarith
  then have "attrs_ok image_db" unfolding attrs_ok_def Let_def n tm by (fastforce simp: bits_of_ok)
  moreover have "oc_fs image_db = []" "oc_port image_db = []" "oc_netif image_db = []" "oc_node image_db = []" "oc_fsuse image_db = []" "oc_node6 image_db = []"
    "oc_isid image_db = [image_isid]" "target_platform image_db = 0" by (simp_all add: image_db_def sample_db_def policydb_zero_def)
  then have "length (ocon_get i image_db) < 2 ^ 32 \<and> (\<forall>c \<in> set (ocon_get i image_db). let kind = ocon_kind_of (target_platform image_db = SEPOL_TARGET_XEN) i in
          ocon_key_ok kind (oc_u c) \<and> label_valid image_db (fst (oc_context c)) \<and> (kind \<in> {OCON_FS, OCON_NETIF} \<longrightarrow> label_valid image_db (snd (oc_context c))))"
    if "i < 7" for i using ocon_cases [OF that] image_label_valid by (auto simp: ocon_kind_of_def image_isid_def)
  moreover have "p_genfs image_db = [image_genfs]" "range_tr image_db = [\<lparr>rtr_source_type = 1, rtr_target_type = 2, rtr_target_class = 2, rtr_target_range = sample_range\<rparr>]"
    by (simp_all add: image_db_def)
  ultimately show ?thesis unfolding contexts_ok_def using image_label_valid(2) by (simp add: image_genfs_def name_ok_def)
qed

lemma image_db_ok: "image_ok 7 image_db"
  using image_symbols_ok image_symbols_saved image_rules_ok image_contexts_ok
  by (simp add: image_ok_def) (simp add: image_db_def sample_db_def policydb_zero_def policydb_lookup_compat_def policydb_compat_def)

theorem policydb_write_read_witness:
  "image_ok 7 image_db \<and> (\<exists>q0 bs. policydb_init True [] = (Inr q0, [])
    \<and> (\<forall>fp a. pf_room fp (length bs) \<longrightarrow> (\<exists>fp'. policydb_write True image_db fp a = (Inr fp', a) \<and> pf_out fp' = pf_out fp @ bs))
    \<and> (\<forall>rest. \<exists>q fp'. policydb_read (\<lambda>_ _. throwP STATUS_ERR) True q0 (pf_of_bytes (bs @ rest)) [] = (Inr (q, fp'), []) \<and> pf_reads fp' rest
         \<and> same_header image_db q \<and> same_symbols image_db q \<and> same_rules image_db q \<and> same_labels 7 image_db q))"
  using policydb_write_read [OF image_db_ok, of True "\<lambda>_ _. throwP STATUS_ERR"] image_db_ok by blast

end
