(* ===== verification/Image_Safety.thy ===== *)
theory Image_Safety
  imports Policy_Roundtrip
begin

text \<open>
  What the reader of a policy image guarantees on bytes that nobody vouches for. The depth that \<open>read_cons_helper\<close> (policydb.c) tracks is a
  type system for constraints: an accepted constraint never leaves the stack of \<open>constraint_expr_eval_reason\<close> (services.c). The readers of the
  symbol tables end with an error code or with well-formed tables. The maps between types and attributes are filled without a bounds check.
\<close>

section \<open>Accepted constraints\<close>

text \<open>The values of the stack, and the atoms that can be decided.\<close>

definition stack_ok :: "int list \<Rightarrow> bool" where
  "stack_ok s \<longleftrightarrow> length s \<le> CEXPR_MAXDEPTH \<and> (\<forall>x \<in> set s. \<exists>b. x = c_bool b)"

definition atom_decided :: "policydb \<Rightarrow> context_struct \<Rightarrow> context_struct \<Rightarrow> context_struct option \<Rightarrow> constraint_expr \<Rightarrow> bool" where
  "atom_decided p sc tc xc e \<longleftrightarrow> (ce_type e = CEXPR_ATTR \<or> ce_type e = CEXPR_NAMES \<longrightarrow> (\<exists>b. atom_res p sc tc xc e = Inr (Some b)))"

text \<open>Progress and preservation of one expression.\<close>

lemma cexpr_step_typed:
  assumes d: "cexpr_depth ax (ce_type e) (ce_attr e) (int (length s) - 1) = Some d" and s: "stack_ok s" and e: "atom_decided p sc tc xc e"
  obtains s' where "cexpr_step p sc tc xc e s = Inr (Some s')" "stack_ok s'" "d = int (length s') - 1"
proof -
  have val: "\<exists>b. x = c_bool b" if "x \<in> set s" for x using s that by (simp add: stack_ok_def)
  show thesis
  proof (cases "ce_type e = CEXPR_ATTR \<or> ce_type e = CEXPR_NAMES")
    case True
    then obtain b where "atom_res p sc tc xc e = Inr (Some b)" using e by (auto simp: atom_decided_def)
    then show thesis using True d s
      by (intro that [of "c_bool b # s"]) (auto simp: cexpr_depth_def cexpr_step_def atom_res_def stack_ok_def split: if_splits)
  next
    case False
    then consider x r where "ce_type e = CEXPR_NOT" "s = x # r" "d = int (length s) - 1"
      | x y r where "ce_type e = CEXPR_AND \<or> ce_type e = CEXPR_OR" "s = y # x # r" "d = int (length r)"
      using d by (cases "ce_type e"; cases s; cases "tl s") (auto simp: cexpr_depth_def split: if_splits)
    then show thesis
    proof cases
      case (1 x r)
      then show thesis using s by (intro that [of "c_bool (x = 0) # r"]) (auto simp: cexpr_step_def stack_ok_def)
    next
      case (2 x y r)
      obtain b c where bc: "x = c_bool b" "y = c_bool c" using val [of x] val [of y] 2(2) by auto
      have "c_bool b AND c_bool c = c_bool (b \<and> c)" "c_bool b OR c_bool c = c_bool (b \<or> c)" by simp_all
      then show thesis using 2 s bc
        by (intro that [of "(if ce_type e = CEXPR_AND then c_bool (b \<and> c) else c_bool (b \<or> c)) # r"]) (auto simp: cexpr_step_def stack_ok_def)
    qed
  qed
qed

lemma cexpr_run_typed:
  assumes "cexprs_depth ax es (int (length s) - 1) = Some d" "stack_ok s" "\<forall>e \<in> set es. atom_decided p sc tc xc e"
  obtains s' where "cexpr_run p sc tc xc k es s = Inr (Some s')" "stack_ok s'" "d = int (length s') - 1"
  using assms
proof (induction es arbitrary: k s thesis)
  case (Cons e es)
  then obtain d1 where d1: "cexpr_depth ax (ce_type e) (ce_attr e) (int (length s) - 1) = Some d1" "cexprs_depth ax es d1 = Some d"
    by (auto simp: bind_eq_Some_conv)
  have "atom_decided p sc tc xc e" using Cons.prems(4) by simp
  from cexpr_step_typed [OF d1(1) Cons.prems(3) this] obtain s1 where
    s1: "cexpr_step p sc tc xc e s = Inr (Some s1)" "stack_ok s1" "d1 = int (length s1) - 1" .
  from Cons.IH [where s = s1 and k = "Suc k"] d1(2) s1(2,3) Cons.prems(4) obtain s' where
    "cexpr_run p sc tc xc (Suc k) es s1 = Inr (Some s')" "stack_ok s'" "d = int (length s') - 1" by auto
  then show ?case using s1(1) by (intro Cons.prems(1)) simp_all
qed simp

lemma cons_balanced_run:
  assumes "cons_balanced ax con" "\<forall>e \<in> set (cn_expr con). atom_decided p sc tc xc e"
  obtains v where "cexpr_run p sc tc xc 0 (cn_expr con) [] = Inr (Some [c_bool v])"
proof -
  from cexpr_run_typed [of ax "cn_expr con" "[]" 0 p sc tc xc 0] assms obtain s where
    s: "cexpr_run p sc tc xc 0 (cn_expr con) [] = Inr (Some s)" "stack_ok s" "length s = 1" by (auto simp: cons_balanced_def stack_ok_def)
  then obtain x where "s = [x]" by (auto simp: length_Suc_conv)
  with s that show thesis by (auto simp: stack_ok_def)
qed

text \<open>A constraint that may not name the third context does not depend on it.\<close>

lemma cexpr_names_third:
  assumes "ce_attr e AND CEXPR_XTARGET = 0"
  shows "cexpr_names p sc tc xc e = cexpr_names p sc tc xc' e"
  using assms by (simp add: cexpr_names_def)

lemma cexpr_loop_third:
  assumes "cexprs_depth False es depth = Some d"
  shows "cexpr_loop p sc tc xc k n es s = cexpr_loop p sc tc xc' k n es s"
  using assms
proof (induction es arbitrary: depth k n s)
  case (Cons e es)
  then obtain d1 where d1: "cexpr_depth False (ce_type e) (ce_attr e) depth = Some d1" "cexprs_depth False es d1 = Some d"
    by (auto simp: bind_eq_Some_conv)
  have "ce_type e = CEXPR_NAMES \<Longrightarrow> ce_attr e AND CEXPR_XTARGET = 0" using d1(1) by (auto simp: cexpr_depth_def split: if_splits)
  then have "cexpr_step p sc tc xc e s = cexpr_step p sc tc xc' e s"
    using cexpr_names_third [of e p sc tc xc xc'] by (auto simp: cexpr_step_def split: cexpr_kind.splits)
  then show ?case unfolding cexpr_loop.simps Cons.IH [OF d1(2)] by simp
qed simp

section \<open>Symbol tables and rules on arbitrary bytes\<close>

definition symtabs_ok :: "policydb \<Rightarrow> bool" where
  "symtabs_ok p \<longleftrightarrow> hashtab_ok (table (p_commons p)) \<and> hashtab_ok (table (p_classes p)) \<and> hashtab_ok (table (p_roles p))
     \<and> hashtab_ok (table (p_types p)) \<and> hashtab_ok (table (p_users p)) \<and> hashtab_ok (table (p_bools p))
     \<and> hashtab_ok (table (p_levels p)) \<and> hashtab_ok (table (p_cats p))"

text \<open>A table of rules is absent or well-formed.\<close>

definition avtab_sane :: "avtab \<Rightarrow> bool" where
  "avtab_sane h \<longleftrightarrow> av_htable h = None \<or> avtab_ok h"

lemma safe_read_symtab:
  assumes "\<And>h. hashtab_ok h \<Longrightarrow> safe (rd h) hashtab_ok" "hashtab_ok (table s)"
  shows "safe (read_symtab rd s) (\<lambda>s'. hashtab_ok (table s'))"
  unfolding read_symtab_def
  by (auto intro!: safe_bindP [OF safe_u32s] safe_bindP [OF safe_repeatP [where I = hashtab_ok]] safe_returnP assms)

text \<open>What one table leaves of the others.\<close>

definition same_others :: "policydb \<Rightarrow> policydb \<Rightarrow> bool" where
  "same_others p q \<longleftrightarrow> policyvers q = policyvers p \<and> te_avtab q = te_avtab p \<and> te_cond_avtab q = te_cond_avtab p"

lemma safe_read_sym:
  assumes "symtabs_ok p"
  shows "safe (read_sym sc i p) (\<lambda>q. symtabs_ok q \<and> same_others p q)"
proof -
  note ok = assms [unfolded symtabs_ok_def]
  note rd = common.reader role.reader type.reader user.reader cbool.reader sens.reader catg.reader
  show ?thesis
    by (cases "(sc, i, p)" rule: read_sym.cases)
      (use ok in \<open>auto simp: symtabs_ok_def same_others_def intro!: safe_bindP [OF safe_read_symtab] safe_returnP rd safe_read_class\<close>)
qed

lemma safe_foldP:
  assumes "I s" "\<And>x s. I s \<Longrightarrow> safe (f x s) I"
  shows "safe (foldP f xs s) I"
  using assms(1)
proof (induction xs arbitrary: s)
  case (Cons x xs)
  then show ?case by (auto intro!: safe_bindP [OF assms(2)])
qed (simp add: safe_returnP)

lemma safe_read_syms:
  assumes "symtabs_ok p"
  shows "safe (foldP (read_sym sc) is p) (\<lambda>q. symtabs_ok q \<and> same_others p q)"
proof (rule safe_foldP)
  show "symtabs_ok p \<and> same_others p p" using assms by (simp add: same_others_def)
next
  fix i q assume "symtabs_ok q \<and> same_others p q"
  then show "safe (read_sym sc i q) (\<lambda>q. symtabs_ok q \<and> same_others p q)"
    by (auto intro!: safe_weaken [OF safe_read_sym] simp: same_others_def)
qed

text \<open>A step that keeps an invariant or ends with an error code, whichever allocations fail.\<close>

definition keeps :: "('s \<Rightarrow> bool) \<Rightarrow> 's alloc_m \<Rightarrow> bool" where
  "keeps I m \<longleftrightarrow> (\<forall>a e b. m a = (Inl e, b) \<longrightarrow> err_code e) \<and> (\<forall>a s b. m a = (Inr s, b) \<longrightarrow> I s)"

lemma safe_keeps: "keeps I m \<Longrightarrow> safe (liftP m) I"
  unfolding keeps_def by (rule safe_liftP) blast+

lemma keeps_yields: "yields m (Inr s) \<Longrightarrow> I s \<Longrightarrow> keeps I m"
  unfolding keeps_def by (auto dest: yields_Inr yields_Inl)

lemma keeps_throwE: "err_code e \<Longrightarrow> keeps I (throwE e)"
  by (simp add: keeps_def throwE_def)

lemma keeps_returnE: "I s \<Longrightarrow> keeps I (returnE s)"
  by (simp add: keeps_def returnE_def)

lemma keeps_bindE:
  assumes "keeps I m" "\<And>s. I s \<Longrightarrow> keeps J (f s)"
  shows "keeps J (bindE m f)"
  using assms unfolding keeps_def bindE_def by (fastforce split: prod.splits sum.splits)

lemma keeps_failE: "keeps I m \<Longrightarrow> err_code e \<Longrightarrow> keeps I (failE m e)"
  unfolding keeps_def failE_def by (fastforce split: prod.splits sum.splits)

lemma safe_read_item:
  assumes "20 \<le> vers" "\<And>k d. keeps I (insertf s k d)"
  shows "safe (\<lambda>fp. avtab_read_item fp vers insertf s) I"
proof -
  have "\<not> vers < 20" using assms(1) by (simp add: not_less)
  then have eq: "(\<lambda>fp. avtab_read_item fp vers insertf s) = bindP (next_bytes 8) (\<lambda>buf.
      let key = \<lparr>source_type = get_le (take 2 buf), target_type = get_le (take 2 (drop 2 buf)),
                 target_class = get_le (take 2 (drop 4 buf)), specified = get_le (drop 6 buf)\<rparr>;
           n = length (filter (\<lambda>sp. specified key AND sp \<noteq> 0) spec_order) in
      if n \<noteq> 1 then throwP STATUS_ERR else bindP (next_bytes 4) (\<lambda>buf2. liftP (insertf s key (get_le buf2))))"
    by (intro ext) (simp add: avtab_read_item_def read_item_new_def bindP_def next_bytes_def throwP_def liftP_def Let_def if_distribR cong: if_cong)
  show ?thesis unfolding eq Let_def
    by (rule safe_bindP [OF safe_bytes]) (auto intro!: safe_throwP safe_bindP [OF safe_bytes] safe_keeps assms(2))
qed

lemma keeps_avtab_insertf:
  assumes "avtab_ok h"
  shows "keeps avtab_ok (avtab_insertf h k d)"
proof (cases "\<exists>n \<in> set (av_entries h). spec_match k (av_key n)")
  case True
  then show ?thesis by (simp add: avtab_insertf_def avtab_insert_dup [OF assms] keeps_throwE)
next
  case False
  with avtab_insert_new [OF assms, of k d] show ?thesis by (auto simp: avtab_insertf_def intro: keeps_yields)
qed

lemma keeps_avtab_alloc:
  assumes "n \<noteq> 0"
  shows "keeps avtab_ok (avtab_alloc h n)"
proof -
  from avtab_alloc_ok [OF assms, of h] have ok: "avtab_ok (h\<lparr>av_htable := Some (replicate (unat (avtab_nslot n)) []), av_nel := 0,
      av_nslot := avtab_nslot n, av_mask := ucast (avtab_nslot n - 1)\<rparr>)"
    using assms by (auto simp: avtab_alloc_def Let_def bindE_def returnE_def failE_def)
  have "keeps (\<lambda>_. True) (failE malloc STATUS_ERR)" by (intro keeps_failE keeps_yields [OF yields_malloc]) simp_all
  then show ?thesis using assms ok
    unfolding avtab_alloc_def Let_def by (simp add: keeps_bindE [where I = "\<lambda>_. True"] keeps_returnE)
qed

lemma safe_avtab_read:
  assumes "20 \<le> vers"
  shows "safe (\<lambda>fp. avtab_read h fp vers) avtab_ok"
proof -
  have items: "safe (\<lambda>fp. avtab_read_items n vers h fp) avtab_ok" if "avtab_ok h" for n h
    using that
  proof (induction n arbitrary: h)
    case (Suc n)
    have "(\<lambda>fp. avtab_read_items (Suc n) vers h fp) = bindP (\<lambda>fp. avtab_read_item fp vers avtab_insertf h) (\<lambda>h' fp. avtab_read_items n vers h' fp)"
      by (intro ext) (simp add: bindP_def)
    then show ?case using Suc by (auto intro!: safe_bindP [OF safe_read_item [OF assms]] keeps_avtab_insertf)
  next
    case (0 h)
    have "(\<lambda>fp. avtab_read_items 0 vers h fp) = returnP h" by (simp add: fun_eq_iff returnP_def)
    then show ?case using 0 by (simp add: safe_returnP)
  qed
  have eq: "(\<lambda>fp. avtab_read h fp vers) = failP (bindP (next_bytes 4) (\<lambda>buf. let nel = get_le buf :: u32 in
      if nel = 0 then throwP STATUS_ERR else bindP (liftP (avtab_alloc h nel)) (\<lambda>h' fp. avtab_read_items (unat nel) vers h' fp))) STATUS_ERR"
    by (intro ext) (simp add: avtab_read_def failP_def bindP_def next_bytes_def throwP_def bindE_liftP Let_def if_distribR cong: if_cong)
  show ?thesis unfolding eq Let_def
    by (rule safe_failP, rule safe_bindP [OF safe_bytes]) (auto intro!: safe_throwP safe_bindP [OF safe_keeps [OF keeps_avtab_alloc]] items)
qed

text \<open>The rules of a conditional node. The table of conditional rules is absent when no rule was counted for it.\<close>

lemma avtab_search_sane: "avtab_sane h \<Longrightarrow> \<exists>r. avtab_search h k = Inr r" "avtab_sane h \<Longrightarrow> \<exists>r. avtab_search_node h k = Inr r"
  by (auto simp: avtab_sane_def avtab_search_def avtab_search_node_def elim!: avtab_okE)

lemma keeps_insert_nonunique:
  assumes "avtab_sane h"
  shows "keeps (\<lambda>(h', _). avtab_sane h') (avtab_insert_nonunique h k d)"
proof (cases "av_htable h")
  case None
  then show ?thesis by (simp add: avtab_insert_nonunique_def keeps_throwE)
next
  case (Some t)
  then have "avtab_ok h" using assms by (simp add: avtab_sane_def)
  from avtab_insert_nonunique_ok [OF this, of k d] show ?thesis by (auto simp: avtab_sane_def intro: keeps_yields)
qed

lemma keeps_liftE: "(\<And>e. r = Inl e \<Longrightarrow> err_code e) \<Longrightarrow> (\<And>v. r = Inr v \<Longrightarrow> I v) \<Longrightarrow> keeps I (liftE r)"
  by (cases r) (auto simp: keeps_def liftE_def)

lemma keeps_malloc: "keeps (\<lambda>_. True) malloc"
  by (intro keeps_yields [OF yields_malloc]) simp

lemma keeps_cond_insertf:
  assumes "avtab_sane te" "avtab_sane (fst s)"
  shows "keeps (\<lambda>s. avtab_sane (fst s)) (cond_insertf te other s k d)"
proof -
  obtain h head where s: "s = (h, head)" by fastforce
  have h: "avtab_sane h" using assms(2) by (simp add: s)
  have search: "keeps (\<lambda>_. True) (liftE (avtab_search h k))" "keeps (\<lambda>_. True) (liftE (avtab_search_node h k))" "keeps (\<lambda>_. True) (liftE (avtab_search te k))"
    using avtab_search_sane [OF h, of k] avtab_search_sane(1) [OF assms(1), of k] by (auto intro: keeps_liftE)
  show ?thesis unfolding cond_insertf_def s split_conv
    by (rule keeps_failE, rule keeps_bindE [where I = "\<lambda>_. True"])
      (auto intro!: keeps_bindE [OF search(1)] keeps_bindE [OF search(2)] keeps_bindE [OF search(3)] keeps_throwE keeps_returnE
        keeps_bindE [OF keeps_insert_nonunique [OF h]] keeps_bindE [OF keeps_malloc] split: list.split)
qed

lemma safe_cond_av_list:
  assumes "20 \<le> vers" "avtab_sane te" "avtab_sane h"
  shows "safe (cond_read_av_list vers te other h) (\<lambda>s. avtab_sane (fst s))"
  unfolding cond_read_av_list_def
  by (rule safe_bindP [OF safe_u32s]) (auto intro!: safe_returnP safe_repeatP [where I = "\<lambda>s. avtab_sane (fst s)"]
    safe_read_item [OF assms(1)] keeps_cond_insertf assms simp: cond_read_rule_def [abs_def])

text \<open>What a section of rules keeps: the symbols and the rules that are there.\<close>

definition rules_sane :: "policydb \<Rightarrow> bool" where
  "rules_sane p \<longleftrightarrow> symtabs_ok p \<and> avtab_ok (te_avtab p) \<and> avtab_sane (te_cond_avtab p) \<and> 20 \<le> policyvers p"

lemma rules_sane_update [simp]:
  "rules_sane (p\<lparr>role_tr := x\<rparr>) = rules_sane p" "rules_sane (p\<lparr>role_allows := y\<rparr>) = rules_sane p"
  "rules_sane (p\<lparr>p_filename_trans := z\<rparr>) = rules_sane p" "rules_sane (p\<lparr>cond_list := c\<rparr>) = rules_sane p"
  by (simp_all add: rules_sane_def symtabs_ok_def)

lemma safe_cond_node:
  assumes "rules_sane p"
  shows "safe (cond_read_node p) (\<lambda>(p', _). rules_sane p')"
proof -
  have te: "20 \<le> policyvers p" "avtab_sane (te_avtab p)" using assms by (simp_all add: rules_sane_def avtab_sane_def)
  have expr: "safe (cond_read_expr p) (\<lambda>_. True)" unfolding cond_read_expr_def Let_def by (auto intro!: safe_reads)
  have "rules_sane (p\<lparr>te_cond_avtab := h\<rparr>)" if "avtab_sane h" for h using assms that by (simp add: rules_sane_def symtabs_ok_def)
  then show ?thesis using assms unfolding cond_read_node_def
    by (intro safe_failP safe_bindP [OF safe_u32s] safe_bindP [OF safe_listP [OF expr]])
      (auto simp: rules_sane_def intro!: safe_bindP [OF safe_cond_av_list [OF te]] safe_returnP)
qed

lemma safe_cond_list:
  assumes "rules_sane p" "av_htable (te_cond_avtab p) = None"
  shows "safe (cond_read_list p) rules_sane"
proof -
  have step: "safe (cond_read_next s) (\<lambda>(p', _). rules_sane p')" if "case s of (p', _) \<Rightarrow> rules_sane p'" for s
    using that by (cases s) (auto simp: cond_read_next_def intro!: safe_malloc safe_bindP [OF safe_cond_node] safe_returnP)
  have alloc: "keeps avtab_sane (avtab_alloc (te_cond_avtab p) (av_nel (te_avtab p)))"
  proof (cases "av_nel (te_avtab p) = 0")
    case True
    then show ?thesis using assms(2) by (simp add: avtab_alloc_def keeps_returnE avtab_sane_def)
  next
    case False
    from keeps_avtab_alloc [OF this, of "te_cond_avtab p"] show ?thesis by (auto simp: keeps_def avtab_sane_def)
  qed
  have nodes: "safe (bindP (repeatP n cond_read_next (p\<lparr>te_cond_avtab := h\<rparr>, [])) (\<lambda>(p', ns). returnP (if ns = [] then p' else p'\<lparr>cond_list := ns\<rparr>))) rules_sane"
    if "avtab_sane h" for n h
  proof (rule safe_bindP)
    show "safe (repeatP n cond_read_next (p\<lparr>te_cond_avtab := h\<rparr>, [])) (\<lambda>(p', _). rules_sane p')"
      by (rule safe_repeatP, use assms that in \<open>simp add: rules_sane_def symtabs_ok_def\<close>) (rule step)
  qed (auto intro!: safe_returnP)
  show ?thesis unfolding cond_read_list_def
    by (intro safe_failP safe_bindP [OF safe_u32s] safe_bindP [OF safe_keeps [OF alloc]] nodes) simp_all
qed

lemma safe_list_section:
  assumes "safe item (\<lambda>_. True)" "\<And>l. Q (if l = [] then p else upd l)"
  shows "safe (failP (bindP (next_u32s 1) (\<lambda>buf. bindP (listP (unat (buf ! 0)) item) (\<lambda>l. returnP (if l = [] then p else upd l)))) STATUS_ERR) Q"
  by (intro safe_failP safe_bindP [OF safe_u32s] safe_bindP [OF safe_listP [OF assms(1)]] safe_returnP assms(2)) simp_all

lemma safe_rule_sections:
  assumes "rules_sane p"
  shows "safe (role_trans_read p) rules_sane" "safe (role_allow_read p) rules_sane" "safe (filename_trans_read p) rules_sane"
proof -
  have "safe (role_trans_item p) (\<lambda>_. True)" unfolding role_trans_item_def
    by (auto intro!: safe_malloc safe_bindP [OF safe_u32s] safe_bindP [OF safe_returnP [where Q = "\<lambda>_. True"]] safe_returnP)
  then show "safe (role_trans_read p) rules_sane" unfolding role_trans_read_def by (rule safe_list_section) (simp add: assms)
  have "safe role_allow_item (\<lambda>_. True)" unfolding role_allow_item_def by (auto intro!: safe_reads)
  then show "safe (role_allow_read p) rules_sane" unfolding role_allow_read_def by (rule safe_list_section) (simp add: assms)
  have "safe filename_trans_item (\<lambda>_. True)" unfolding filename_trans_item_def by (auto intro!: safe_reads)
  then show "safe (filename_trans_read p) rules_sane" unfolding filename_trans_read_def by (rule safe_list_section) (simp add: assms)
qed

lemma safe_read_rules:
  assumes "symtabs_ok p" "20 \<le> policyvers p" "av_htable (te_cond_avtab p) = None"
  shows "safe (read_rules p) rules_sane"
proof -
  have p1: "rules_sane (p\<lparr>te_avtab := h\<rparr>)" if "avtab_ok h" for h
    using assms that by (simp add: rules_sane_def symtabs_ok_def avtab_sane_def)
  have v: "16 \<le> policyvers p" using assms(2) by (rule order_trans [rotated]) simp
  show ?thesis unfolding read_rules_def Let_def
    using v p1 assms(3)
    by (auto intro!: safe_bindP [OF safe_avtab_read [OF assms(2)]] safe_bindP [OF safe_cond_list] safe_bindP [OF safe_rule_sections(1)]
      safe_bindP [OF safe_rule_sections(2)] safe_rule_sections(3) safe_returnP)
qed

section \<open>From a fresh policy to the rules\<close>

text \<open>What \<open>policydb_init\<close> prepares and the header keeps.\<close>

definition fresh_tables :: "policydb \<Rightarrow> bool" where
  "fresh_tables p \<longleftrightarrow> symtabs_ok p \<and> av_htable (te_cond_avtab p) = None"

lemma keeps_symtab_init:
  assumes "0 < unat sz" "unat sz \<le> 2 ^ 31"
  shows "keeps (\<lambda>s :: 'd symtab. hashtab_ok (table s)) (symtab_init sc sz)"
proof -
  from hashtab_create_sym [OF assms, of sc] obtain h :: "(string, 'd) hashtab_val" where
    h: "yields (hashtab_create (symhash sc) symcmp sz) (Inr h)" "hashtab_ok (Some h)" by auto
  from h(1) have "keeps (\<lambda>h :: (string, 'd) hashtab_val. hashtab_ok (Some h)) (hashtab_create (symhash sc) symcmp sz)" by (rule keeps_yields) (rule h(2))
  then show ?thesis unfolding symtab_init_def by (auto intro!: keeps_bindE keeps_failE keeps_returnE)
qed

lemma keeps_insert: "hashtab_ok h \<Longrightarrow> keeps hashtab_ok (hashtab_insert h k d)"
  using hashtab_insert_new [of h k d] hashtab_insert_dup [of h k d] by (cases "hashtab_abs h k") (auto intro: keeps_yields simp: keeps_throwE)

lemma policydb_init_fresh:
  assumes "policydb_init sc a = (Inr p, b)"
  shows "fresh_tables p"
proof -
  have roles: "keeps fresh_tables (roles_init p)" if "fresh_tables p" for p
    unfolding roles_init_def Let_def
    by (rule keeps_bindE [OF keeps_malloc], rule keeps_bindE [OF keeps_malloc], rule keeps_bindE [OF keeps_insert])
      (use that in \<open>auto simp: fresh_tables_def symtabs_ok_def intro!: keeps_throwE keeps_returnE\<close>)
  have "keeps fresh_tables (policydb_init sc)" unfolding policydb_init_def Let_def
    by (intro keeps_bindE [OF keeps_symtab_init] keeps_bindE [OF roles] keeps_returnE)
      (simp_all add: fresh_tables_def symtabs_ok_def cond_policydb_init_def avtab_init_def policydb_zero_def avtab_zero_def)
  with assms show ?thesis unfolding keeps_def by blast
qed

lemma safe_read_config:
  assumes "fresh_tables p"
  shows "safe (read_config p) (\<lambda>(q, _). fresh_tables q)"
  using assms unfolding read_config_def Let_def
  by (auto intro!: safe_bindP [OF safe_u32s] safe_throwP safe_returnP split: option.split simp: fresh_tables_def symtabs_ok_def)

lemma safe_read_caps:
  assumes "fresh_tables p"
  shows "safe (read_caps p) (\<lambda>q. fresh_tables q \<and> policyvers q = policyvers p)"
proof -
  have "safe (if policyvers p \<ge> POLICYDB_VERSION_POLCAP then bindP ebitmap_read (\<lambda>e. returnP (p\<lparr>policycaps := e\<rparr>)) else returnP p)
      (\<lambda>q. fresh_tables q \<and> policyvers q = policyvers p)"
    using assms by (auto intro!: safe_reads simp: fresh_tables_def symtabs_ok_def)
  then show ?thesis unfolding read_caps_def
    by (rule safe_bindP) (auto intro!: safe_reads simp: fresh_tables_def symtabs_ok_def)
qed

lemma safe_read_tables:
  assumes "fresh_tables p" "20 \<le> policyvers p"
  shows "safe (bindP (read_caps p) (\<lambda>p2. bindP (foldP (read_sym sc) is p2) read_rules)) rules_sane"
  by (rule safe_bindP [OF safe_read_caps [OF assms(1)]], rule safe_bindP [OF safe_read_syms])
    (use assms in \<open>auto simp: fresh_tables_def same_others_def intro!: safe_read_rules\<close>)

section \<open>The maps between types and attributes\<close>

lemma add_attr_unchecked:
  assumes "\<forall>e \<in> set am. ebitmap_ok e" "bit_settable i" "j \<in> set bs" "length am \<le> unat j" "unat i < length am"
  shows "foldE (add_attr i) bs am [] = (Inl Fault, [])"
  using assms(1,3-5)
proof (induction bs arbitrary: am)
  case (Cons k bs)
  show ?case
  proof (cases "unat k < length am")
    case False
    then show ?thesis using Cons.prems(4) by (auto simp: add_attr_def array_get_def bindE_def liftE_def throwE_def)
  next
    case True
    then have k: "j \<in> set bs" using Cons.prems(2,3) by auto
    show ?thesis
    proof (cases "i = k")
      case True
      then show ?thesis using Cons.IH [OF Cons.prems(1) k Cons.prems(3,4)] by (simp add: add_attr_def)
    next
      case False
      have "ebitmap_ok (am ! unat k)" using Cons.prems(1) True by simp
      from ebitmap_set_bit_spec [OF this assms(2), of True] obtain e where e: "yields (ebitmap_set_bit (am ! unat k) i True) (Inr e)" "ebitmap_ok e" by blast
      then have "add_attr i k am [] = (Inr (am[unat k := e]), [])" using False True yields_no_oom [OF e(1)]
        by (simp add: add_attr_def array_get_def bindE_def liftE_def returnE_def)
      moreover have "\<forall>x \<in> set (am[unat k := e]). ebitmap_ok x" using Cons.prems(1) e(2) set_update_subset_insert [of am "unat k" e] by blast
      ultimately show ?thesis using Cons.IH [of "am[unat k := e]"] k Cons.prems(3,4) by (simp add: bindE_def)
    qed
  qed
qed simp

section \<open>Properties\<close>

text \<open>Claim C8. Reading the constraints of a class from any file ends with an error code or with constraints that the evaluator can run: from an
  accepted constraint, in any policy and any contexts in which its comparisons can be decided, the evaluation never reads below the stack,
  never exceeds its five cells and returns 0 or 1, or \<open>-ENOMEM\<close> when an allocation of a constraint of at most
  \<open>STACK_LEN\<close> expressions fails. A constraint that may not name a third context does not depend on one.\<close>

theorem read_constraints_typed:
  assumes "pf_sane fp" "read_cons_helper p ncons allowxtarget fp a = (r, b)"
  shows "case r of Inl e \<Rightarrow> err_code e | Inr (cs, _) \<Rightarrow> length cs = unat ncons \<and> (\<forall>con \<in> set cs. \<forall>q sc tc xc tclass.
    class_named q tclass \<longrightarrow> (\<forall>e \<in> set (cn_expr con). atom_decided q sc tc xc e) \<longrightarrow>
      (\<exists>v. constraint_expr_eval_reason q sc tc xc tclass con [] = (Inr (c_bool v), [])
         \<and> (length (cn_expr con) \<le> STACK_LEN \<longrightarrow> (\<forall>c. fst (constraint_expr_eval_reason q sc tc xc tclass con c) \<in> {Inr (c_bool v), Inr (- 12)}))
         \<and> (\<not> allowxtarget \<longrightarrow> (\<forall>xc'. constraint_expr_eval_reason q sc tc xc' tclass con = constraint_expr_eval_reason q sc tc xc tclass con))))"
proof -
  have one: "\<exists>v. constraint_expr_eval_reason q sc tc xc tclass con [] = (Inr (c_bool v), [])
       \<and> (length (cn_expr con) \<le> STACK_LEN \<longrightarrow> (\<forall>c. fst (constraint_expr_eval_reason q sc tc xc tclass con c) \<in> {Inr (c_bool v), Inr (- 12)}))
       \<and> (\<not> allowxtarget \<longrightarrow> (\<forall>xc'. constraint_expr_eval_reason q sc tc xc' tclass con = constraint_expr_eval_reason q sc tc xc tclass con))"
    if con: "cons_balanced allowxtarget con" "class_named q tclass" "\<forall>e \<in> set (cn_expr con). atom_decided q sc tc xc e" for con q sc tc xc tclass
  proof -
    from cons_balanced_run [OF con(1,3)] obtain v where v: "cexpr_run q sc tc xc 0 (cn_expr con) [] = Inr (Some [c_bool v])" .
    have "constraint_expr_eval_reason q sc tc xc' tclass con = constraint_expr_eval_reason q sc tc xc tclass con" if "\<not> allowxtarget" for xc'
      using that con(1) cexpr_loop_third [of "cn_expr con" "- 1" 0 q sc tc xc' 0 0 "[]" xc]
      by (simp add: cons_balanced_def constraint_expr_eval_reason_def)
    then show ?thesis using constraint_eval_run [OF con(2) v] by blast
  qed
  have "err_code e" if "r = Inl e" for e using safe_read_cons [of p ncons allowxtarget] assms that unfolding safe_def by blast
  moreover have "length cs = unat ncons \<and> (\<forall>con \<in> set cs. cons_balanced allowxtarget con)" if "r = Inr (cs, fp')" for cs fp'
    using safe_read_cons [of p ncons allowxtarget] assms that unfolding safe_def by blast
  ultimately show ?thesis using one by (auto split: sum.split)
qed


text \<open>Claim C10. The maps between types and attributes are filled without a bounds check: in a policy of version 20 or later, a bit of the
  attributes of the first type that is not the number of a type makes the reader access a bitmap behind the end of \<open>attr_type_map\<close>.\<close>

theorem read_attr_maps_unchecked:
  assumes "POLICYDB_VERSION_AVTAB \<le> policyvers p" "nprim (p_types p) \<noteq> 0" "ebitmap_read fp [] = (Inr (e, fp'), [])" "ebitmap_ok e"
    "j \<in> ebitmap_bits e" "unat (nprim (p_types p)) \<le> j"
  shows "read_attr_maps p fp [] = (Inl Fault, [])"
proof -
  let ?n = "unat (nprim (p_types p))"
  have n: "0 < ?n" using assms(2) by (simp add: unat_gt_0)
  from ebitmap_positive_bits_eq [OF assms(4)] obtain bs where bs: "ebitmap_positive_bits e = Inr bs" "unat ` set bs = ebitmap_bits e" by blast
  from assms(5) obtain k where k: "k \<in> set bs" "unat k = j" unfolding bs(2) [symmetric] by blast
  have "foldE (add_attr 0) bs (replicate ?n ebitmap_init) [] = (Inl Fault, [])"
    by (rule add_attr_unchecked [OF _ _ k(1)]) (use n k(2) assms(6) in \<open>simp_all add: bit_settable_def\<close>)
  then have "read_attrs p 0 (replicate ?n ebitmap_init, replicate ?n ebitmap_init) fp [] = (Inl Fault, [])"
    using assms(1,3) bs(1) by (simp add: read_attrs_def bindP_def bindE_def liftP_def liftE_def)
  moreover have "map of_nat [0..<?n] = (0 :: u32) # map of_nat [1..<?n]" using n by (simp add: upt_conv_Cons)
  ultimately show ?thesis by (simp add: read_attr_maps_def Let_def bindP_def bindE_def liftP_def returnE_def)
qed

section \<open>Witnesses\<close>

text \<open>The bytes of a constraint \<open>not (u1 == u2)\<close> for the permission 2.\<close>

definition cons_bytes :: "u8 list" where
  "cons_bytes = concat (map (put_le 4) [2, 2, 4, 1, 1, 1, 0, 0 :: u32])"

definition cons_read :: constraint_node where
  "cons_read = \<lparr>cn_permissions = 2, cn_expr = [
     \<lparr>ce_type = CEXPR_ATTR, ce_attr = 1, ce_op = CEXPR_EQ, ce_names = ebitmap_init, ce_type_names = type_set_init\<rparr>,
     \<lparr>ce_type = CEXPR_NOT, ce_attr = 0, ce_op = CEXPR_OP_OTHER 0, ce_names = ebitmap_init, ce_type_names = type_set_init\<rparr>]\<rparr>"

lemma cons_bytes_read: "apfst (map_sum id fst) (read_cons_helper policydb_zero 1 False (pf_of_bytes cons_bytes) []) = (Inr [cons_read], [])"
  by code_simp

lemma cons_read_decided: "atom_decided sample_db (sample_context 2 1) (sample_context 2 3) None e" if "e \<in> set (cn_expr cons_read)"
  using that by (auto simp: cons_read_def atom_decided_def atom_res_def cexpr_attr_def val_ops_def)

lemma pf_sane_bytes: "length bs < 2 ^ 32 - 1 \<Longrightarrow> pf_sane (pf_of_bytes bs)"
  by (simp add: pf_sane_def pf_ok_def pf_of_bytes_def)

theorem read_constraints_typed_witness:
  "\<exists>fp'. read_cons_helper policydb_zero 1 False (pf_of_bytes cons_bytes) [] = (Inr ([cons_read], fp'), [])
     \<and> (\<exists>v. constraint_expr_eval_reason sample_db (sample_context 2 1) (sample_context 2 3) None 2 cons_read [] = (Inr (c_bool v), []))"
proof -
  have "map_sum id fst (fst (read_cons_helper policydb_zero 1 False (pf_of_bytes cons_bytes) [])) = Inr [cons_read]"
    "snd (read_cons_helper policydb_zero 1 False (pf_of_bytes cons_bytes) []) = []" using cons_bytes_read by (simp_all add: apfst_def map_prod_def split: prod.splits)
  then obtain fp' where r: "read_cons_helper policydb_zero 1 False (pf_of_bytes cons_bytes) [] = (Inr ([cons_read], fp'), [])"
    by (cases "read_cons_helper policydb_zero 1 False (pf_of_bytes cons_bytes) []") (auto simp: map_sum_def split: sum.splits)
  have decided: "\<forall>e \<in> set (cn_expr cons_read). atom_decided sample_db (sample_context 2 1) (sample_context 2 3) None e" using cons_read_decided by blast
  have "pf_sane (pf_of_bytes cons_bytes)" by (rule pf_sane_bytes) (simp add: cons_bytes_def)
  from read_constraints_typed [OF this r] have "\<exists>v. constraint_expr_eval_reason sample_db (sample_context 2 1) (sample_context 2 3) None 2 cons_read [] = (Inr (c_bool v), [])"
    using sample_class_named(2) decided by simp blast
  with r show ?thesis by blast
qed

text \<open>A header of version 26 and nothing behind it.\<close>

definition header_bytes :: "u8 list" where
  "header_bytes = image32 [26, 0, 8, 7]"


text \<open>One type, and the attributes of a file that names a second one.\<close>

definition one_type :: policydb where
  "one_type = policydb_zero\<lparr>policyvers := 26, p_types := \<lparr>table = None, nprim = 1\<rparr>\<rparr>"

theorem read_attr_maps_unchecked_witness:
  "read_attr_maps one_type (pf_of_bytes (ebitmap_image (bits_of 2))) [] = (Inl Fault, [])"
proof -
  have ok: "ebitmap_ok (bits_of 2)" by (rule bits_of_ok) simp
  from ebitmap_read_image [OF ok pf_reads_of_bytes, of "[]"] obtain fp' where
    r: "yields (ebitmap_read (pf_of_bytes (ebitmap_image (bits_of 2)))) (Inr (bits_of 2, fp'))" by auto
  have "1 \<in> ebitmap_bits (bits_of 2)" by (auto simp: ebitmap_bits_def bits_of_def node_has_def bit_iff_odd)
  then show ?thesis using read_attr_maps_unchecked [OF _ _ yields_no_oom [OF r] ok, of one_type 1] by (simp add: one_type_def)
qed

end
