(* ===== verification/Ocontexts.thy ===== *)
theory Ocontexts
  imports Services
begin

text \<open>
  The SIDs of objects that are labelled by the policy (services.c): file systems, ports, network
  interfaces, nodes and files of file systems without labels. The entry of the policy that applies
  caches its SIDs, so a lookup may change the policy database as well as the SID table. The address of
  a node is a list of 32-bit words in network order.
\<close>

abbreviation "SECINITSID_FS \<equiv> 4 :: u32"
abbreviation "SECINITSID_FILE \<equiv> 5 :: u32"
abbreviation "SECINITSID_PORT \<equiv> 9 :: u32"
abbreviation "SECINITSID_NETIF \<equiv> 10 :: u32"
abbreviation "SECINITSID_NETMSG \<equiv> 11 :: u32"
abbreviation "SECINITSID_NODE \<equiv> 12 :: u32"
abbreviation "AF_INET \<equiv> 2 :: u16"
abbreviation "AF_INET6 \<equiv> 10 :: u16"
abbreviation "SECCLASS_DIR \<equiv> 7 :: u16"
abbreviation "SECURITY_FS_USE_GENFS \<equiv> 4 :: u32"
abbreviation "SECURITY_FS_USE_NONE \<equiv> 5 :: u32"

text \<open>The first entry that satisfies a test, with its position.\<close>

fun ocon_first :: "(ocontext \<Rightarrow> bool) \<Rightarrow> ocontext list \<Rightarrow> (nat \<times> ocontext) option" where
  "ocon_first t [] = None"
| "ocon_first t (c # cs) = (if t c then Some (0, c) else map_option (\<lambda>(i, c). (Suc i, c)) (ocon_first t cs))"

text \<open>Both SIDs of an entry: \<open>store i c\<close> writes the entry back. A SID that could not be allocated is
  stored as 0.\<close>

definition pair_sids ::
  "(nat \<Rightarrow> ocontext \<Rightarrow> services \<Rightarrow> services) \<Rightarrow> nat \<Rightarrow> ocontext \<Rightarrow> services \<Rightarrow> (services \<times> (u32 \<times> u32) res) alloc_m"
where
  "pair_sids store i c sv =
     (if fst (oc_sid c) = 0 \<or> snd (oc_sid c) = 0 then
        bindE (sid_for sv (fst (oc_context c))) (\<lambda>(sv1, r1). case r1 of
          Inl e \<Rightarrow> returnE (store i (c\<lparr>oc_sid := (0, snd (oc_sid c))\<rparr>) sv1, Inl e)
        | Inr s0 \<Rightarrow>
            let c1 = c\<lparr>oc_sid := (s0, snd (oc_sid c))\<rparr>; sv2 = store i c1 sv1 in
            bindE (sid_for sv2 (snd (oc_context c))) (\<lambda>(sv3, r2). case r2 of
              Inl e \<Rightarrow> returnE (store i (c1\<lparr>oc_sid := (s0, 0)\<rparr>) sv3, Inl e)
            | Inr s1 \<Rightarrow> returnE (store i (c1\<lparr>oc_sid := (s0, s1)\<rparr>) sv3, Inr (s0, s1))))
      else returnE (sv, Inr (oc_sid c)))"

definition one_sid ::
  "(nat \<Rightarrow> ocontext \<Rightarrow> services \<Rightarrow> services) \<Rightarrow> nat \<Rightarrow> ocontext \<Rightarrow> services \<Rightarrow> (services \<times> u32 res) alloc_m"
where
  "one_sid store i c sv =
     (if fst (oc_sid c) = 0 then
        bindE (sid_for sv (fst (oc_context c))) (\<lambda>(sv1, r1). case r1 of
          Inl e \<Rightarrow> returnE (sv1, Inl e)
        | Inr s0 \<Rightarrow> returnE (store i (c\<lparr>oc_sid := (s0, snd (oc_sid c))\<rparr>) sv1, Inr s0))
      else returnE (sv, Inr (fst (oc_sid c))))"

definition store_fs :: "nat \<Rightarrow> ocontext \<Rightarrow> services \<Rightarrow> services" where
  "store_fs i c sv = sv\<lparr>sv_policydb := (sv_policydb sv)\<lparr>oc_fs := (oc_fs (sv_policydb sv))[i := c]\<rparr>\<rparr>"

definition store_port :: "nat \<Rightarrow> ocontext \<Rightarrow> services \<Rightarrow> services" where
  "store_port i c sv = sv\<lparr>sv_policydb := (sv_policydb sv)\<lparr>oc_port := (oc_port (sv_policydb sv))[i := c]\<rparr>\<rparr>"

definition store_netif :: "nat \<Rightarrow> ocontext \<Rightarrow> services \<Rightarrow> services" where
  "store_netif i c sv = sv\<lparr>sv_policydb := (sv_policydb sv)\<lparr>oc_netif := (oc_netif (sv_policydb sv))[i := c]\<rparr>\<rparr>"

definition store_node :: "nat \<Rightarrow> ocontext \<Rightarrow> services \<Rightarrow> services" where
  "store_node i c sv = sv\<lparr>sv_policydb := (sv_policydb sv)\<lparr>oc_node := (oc_node (sv_policydb sv))[i := c]\<rparr>\<rparr>"

definition store_node6 :: "nat \<Rightarrow> ocontext \<Rightarrow> services \<Rightarrow> services" where
  "store_node6 i c sv = sv\<lparr>sv_policydb := (sv_policydb sv)\<lparr>oc_node6 := (oc_node6 (sv_policydb sv))[i := c]\<rparr>\<rparr>"

definition store_fsuse :: "nat \<Rightarrow> ocontext \<Rightarrow> services \<Rightarrow> services" where
  "store_fsuse i c sv = sv\<lparr>sv_policydb := (sv_policydb sv)\<lparr>oc_fsuse := (oc_fsuse (sv_policydb sv))[i := c]\<rparr>\<rparr>"

definition named :: "string \<Rightarrow> ocontext \<Rightarrow> bool" where
  "named nm c = (case oc_u c of OName n \<Rightarrow> strcmp n nm = 0 | _ \<Rightarrow> False)"

definition sepol_fs_sid :: "services \<Rightarrow> string \<Rightarrow> (services \<times> (u32 \<times> u32) res) alloc_m" where
  "sepol_fs_sid sv nm = (case ocon_first (named nm) (oc_fs (sv_policydb sv)) of
     Some (i, c) \<Rightarrow> pair_sids store_fs i c sv
   | None \<Rightarrow> returnE (sv, Inr (SECINITSID_FS, SECINITSID_FILE)))"

definition port_matches :: "u8 \<Rightarrow> u16 \<Rightarrow> ocontext \<Rightarrow> bool" where
  "port_matches protocol port c = (case oc_u c of
     OPort pr lo hi \<Rightarrow> pr = protocol \<and> lo \<le> port \<and> hi \<ge> port | _ \<Rightarrow> False)"

definition sepol_port_sid :: "services \<Rightarrow> u8 \<Rightarrow> u16 \<Rightarrow> (services \<times> u32 res) alloc_m" where
  "sepol_port_sid sv protocol port = (case ocon_first (port_matches protocol port) (oc_port (sv_policydb sv)) of
     Some (i, c) \<Rightarrow> one_sid store_port i c sv
   | None \<Rightarrow> returnE (sv, Inr SECINITSID_PORT))"

definition sepol_netif_sid :: "services \<Rightarrow> string \<Rightarrow> (services \<times> (u32 \<times> u32) res) alloc_m" where
  "sepol_netif_sid sv nm = (case ocon_first (named nm) (oc_netif (sv_policydb sv)) of
     Some (i, c) \<Rightarrow> pair_sids store_netif i c sv
   | None \<Rightarrow> returnE (sv, Inr (SECINITSID_NETIF, SECINITSID_NETMSG)))"

definition match_ipv6_addrmask :: "u32 list \<Rightarrow> u32 list \<Rightarrow> u32 list \<Rightarrow> bool" where
  "match_ipv6_addrmask input addr msk = list_all (\<lambda>i. addr ! i = and (input ! i) (msk ! i)) [0..<4]"

definition node_matches :: "u32 \<Rightarrow> ocontext \<Rightarrow> bool" where
  "node_matches a c = (case oc_u c of ONode addr msk \<Rightarrow> addr = and a msk | _ \<Rightarrow> False)"

definition node6_matches :: "u32 list \<Rightarrow> ocontext \<Rightarrow> bool" where
  "node6_matches a c = (case oc_u c of ONode6 addr msk \<Rightarrow> match_ipv6_addrmask a addr msk | _ \<Rightarrow> False)"

definition sepol_node_sid :: "services \<Rightarrow> u16 \<Rightarrow> u32 list \<Rightarrow> (services \<times> u32 res) alloc_m" where
  "sepol_node_sid sv domain addrp =
     (if domain = AF_INET then
        if length addrp \<noteq> 1 then returnE (sv, Inl EINVAL)
        else (case ocon_first (node_matches (addrp ! 0)) (oc_node (sv_policydb sv)) of
          Some (i, c) \<Rightarrow> one_sid store_node i c sv | None \<Rightarrow> returnE (sv, Inr SECINITSID_NODE))
      else if domain = AF_INET6 then
        if length addrp \<noteq> 4 then returnE (sv, Inl EINVAL)
        else (case ocon_first (node6_matches addrp) (oc_node6 (sv_policydb sv)) of
          Some (i, c) \<Rightarrow> one_sid store_node6 i c sv | None \<Rightarrow> returnE (sv, Inr SECINITSID_NODE))
      else returnE (sv, Inr SECINITSID_NODE))"

text \<open>The file systems are sorted by name; the search ends at the first name that is not smaller.\<close>

fun genfs_find :: "string \<Rightarrow> genfs list \<Rightarrow> (nat \<times> genfs) option" where
  "genfs_find fstype [] = None"
| "genfs_find fstype (g # gs) =
     (let cmp = strcmp fstype (gf_fstype g) in
      if cmp \<le> 0 then (if cmp = 0 then Some (0, g) else None)
      else map_option (\<lambda>(i, g). (Suc i, g)) (genfs_find fstype gs))"

text \<open>\<open>strncmp(c->u.name, path, strlen(c->u.name)) == 0\<close>: the name is a prefix of the path.\<close>

definition genfs_matches :: "string \<Rightarrow> u16 \<Rightarrow> ocontext \<Rightarrow> bool" where
  "genfs_matches path sclass c = (case oc_u c of
     OName n \<Rightarrow> (oc_v c = 0 \<or> ucast sclass = oc_v c) \<and> take (length n) path = n | _ \<Rightarrow> False)"

definition store_genfs :: "nat \<Rightarrow> nat \<Rightarrow> ocontext \<Rightarrow> services \<Rightarrow> services" where
  "store_genfs g i c sv = (let gs = p_genfs (sv_policydb sv) in
     sv\<lparr>sv_policydb := (sv_policydb sv)\<lparr>p_genfs := gs[g := (gs ! g)\<lparr>gf_head := (gf_head (gs ! g))[i := c]\<rparr>]\<rparr>\<rparr>)"

text \<open>The SID is set to the unlabeled one when no entry applies, but the return code is an error.\<close>

definition sepol_genfs_sid :: "services \<Rightarrow> string \<Rightarrow> string \<Rightarrow> u16 \<Rightarrow> (services \<times> u32 res) alloc_m" where
  "sepol_genfs_sid sv fstype path sclass = (case genfs_find fstype (p_genfs (sv_policydb sv)) of
     None \<Rightarrow> returnE (sv, Inl ENOENT)
   | Some (g, gf) \<Rightarrow> (case ocon_first (genfs_matches path sclass) (gf_head gf) of
       None \<Rightarrow> returnE (sv, Inl ENOENT)
     | Some (i, c) \<Rightarrow> one_sid (store_genfs g) i c sv))"

text \<open>The behaviour and the SID. When there is neither a rule nor a genfs entry the SID is the unlabeled
  one; when the SID of a genfs entry cannot be allocated the call succeeds without writing a SID, which is
  \<open>None\<close> here.\<close>

definition sepol_fs_use :: "services \<Rightarrow> string \<Rightarrow> (services \<times> (u32 \<times> u32 option) res) alloc_m" where
  "sepol_fs_use sv fstype = (case ocon_first (named fstype) (oc_fsuse (sv_policydb sv)) of
     Some (i, c) \<Rightarrow> bindE (one_sid store_fsuse i c sv) (\<lambda>(sv', r). case r of
       Inl e \<Rightarrow> returnE (sv', Inl e) | Inr sid \<Rightarrow> returnE (sv', Inr (oc_v c, Some sid)))
   | None \<Rightarrow> bindE (sepol_genfs_sid sv fstype ''/'' SECCLASS_DIR) (\<lambda>(sv', r). case r of
       Inl e \<Rightarrow> returnE (sv', Inr (SECURITY_FS_USE_NONE, if e = ENOENT then Some SECINITSID_UNLABELED else None))
     | Inr sid \<Rightarrow> returnE (sv', Inr (SECURITY_FS_USE_GENFS, Some sid))))"

section \<open>The contexts a user can reach\<close>

text \<open>The state of the two loops: the code \<open>us_rc\<close> of the last call, which the function returns with the
  list, the list, the size of the array, and the error that has ended the loops, if any.\<close>

record user_sids =
  us_sv :: services
  us_rc :: "err option"
  us_mysids :: "u32 list"
  us_maxnel :: nat
  us_stop :: "err option"

definition add_sid :: "u32 \<Rightarrow> user_sids \<Rightarrow> user_sids alloc_m" where
  "add_sid sid s =
     (if length (us_mysids s) < us_maxnel s then returnE (s\<lparr>us_mysids := us_mysids s @ [sid]\<rparr>)
      else bindE (tryE malloc) (\<lambda>r. case r of
        Inl e \<Rightarrow> returnE (s\<lparr>us_stop := Some ENOMEM\<rparr>)
      | Inr _ \<Rightarrow> returnE (s\<lparr>us_mysids := us_mysids s @ [sid], us_maxnel := us_maxnel s + 25\<rparr>)))"

text \<open>One type of one role. Without MLS the range of \<open>usercon\<close> is never written.\<close>

definition user_sids_type :: "context_struct \<Rightarrow> user_datum \<Rightarrow> u32 \<Rightarrow> u32 \<Rightarrow> user_sids \<Rightarrow> user_sids alloc_m" where
  "user_sids_type fromcon user role j s =
     (let sv = us_sv s; p = sv_policydb sv;
          usercon0 = context_init\<lparr>c_user := ud_value user, c_role := role, c_type := j + 1\<rparr> in
      if us_stop s \<noteq> None \<or> j + 1 = c_type fromcon then returnE s
      else (case mls_setup_user_range fromcon user usercon0 (p_mls p) of
        Inl e \<Rightarrow> returnE s
      | Inr usercon \<Rightarrow>
          bindE (tryE (context_struct_compute_av sv fromcon usercon (ucast SECCLASS_PROCESS) PROCESS__TRANSITION)) (\<lambda>r.
          case r of
            Inl e \<Rightarrow> if err_code e then returnE (s\<lparr>us_rc := Some e\<rparr>) else throwE e
          | Inr (avd, reason) \<Rightarrow>
              if and (allowed avd) PROCESS__TRANSITION = 0 then returnE (s\<lparr>us_rc := None\<rparr>)
              else if \<not> p_mls p then throwE Fault
              else bindE (sid_for sv usercon) (\<lambda>(sv1, r1). case r1 of
                Inl e \<Rightarrow> returnE (s\<lparr>us_sv := sv1, us_stop := Some e\<rparr>)
              | Inr sid \<Rightarrow> add_sid sid (s\<lparr>us_sv := sv1, us_rc := None\<rparr>)))))"

definition user_sids_role :: "context_struct \<Rightarrow> user_datum \<Rightarrow> u32 \<Rightarrow> user_sids \<Rightarrow> user_sids alloc_m" where
  "user_sids_role fromcon user i s =
     (if us_stop s \<noteq> None then returnE s
      else bindE (liftE (bindR (array_get (role_val_to_struct (sv_policydb (us_sv s))) (unat i)) deref)) (\<lambda>role.
        bindE (liftE (ebitmap_positive_bits (ts_types (rd_types role)))) (\<lambda>js.
          foldE (user_sids_type fromcon user (i + 1)) js s)))"

definition sepol_get_user_sids ::
  "services \<Rightarrow> u32 \<Rightarrow> string \<Rightarrow> (services \<times> (err option \<times> u32 list) res) alloc_m"
where
  "sepol_get_user_sids sv fromsid username =
     bindE (liftE (sepol_sidtab_search (sv_sidtab sv) fromsid)) (\<lambda>fr. case fr of None \<Rightarrow> throwE EINVAL
     | Some fromcon \<Rightarrow>
     bindE (liftE (hashtab_search (table (p_users (sv_policydb sv))) username)) (\<lambda>ur. case ur of None \<Rightarrow> throwE EINVAL
     | Some user \<Rightarrow>
     bindE malloc (\<lambda>_.
     bindE (liftE (ebitmap_positive_bits (rs_roles (ud_roles user)))) (\<lambda>is.
     bindE (foldE (user_sids_role fromcon user) is
         \<lparr>us_sv = sv, us_rc = None, us_mysids = [], us_maxnel = 25, us_stop = None\<rparr>) (\<lambda>s.
       returnE (us_sv s, case us_stop s of Some e \<Rightarrow> Inl e | None \<Rightarrow> Inr (us_rc s, us_mysids s)))))))"

section \<open>Labelled objects\<close>

text \<open>A list of entries of the policy that the lookups read and write back. The SIDs an entry caches name its
  contexts.\<close>

definition cached :: "sidtab \<Rightarrow> u32 \<Rightarrow> context_struct \<Rightarrow> bool" where
  "cached s sid con \<longleftrightarrow> sid = 0 \<or> sid_map s sid = Some con"

definition ocon_ok :: "sidtab \<Rightarrow> ocontext \<Rightarrow> bool" where
  "ocon_ok s c \<longleftrightarrow> context_ok (fst (oc_context c)) \<and> context_ok (snd (oc_context c))
     \<and> cached s (fst (oc_sid c)) (fst (oc_context c)) \<and> cached s (snd (oc_sid c)) (snd (oc_context c))"

text \<open>A test that does not look at the cached SIDs.\<close>

definition sid_blind :: "(ocontext \<Rightarrow> bool) \<Rightarrow> bool" where
  "sid_blind t \<longleftrightarrow> (\<forall>c sids. t (c\<lparr>oc_sid := sids\<rparr>) = t c)"

lemma ocon_first_Some:
  assumes "ocon_first t cs = Some (i, c)"
  shows "i < length cs \<and> cs ! i = c \<and> t c \<and> (\<forall>j < i. \<not> t (cs ! j))"
  using assms
proof (induction cs arbitrary: i)
  case (Cons x cs)
  then show ?case by (cases i) (auto split: if_splits simp: less_Suc_eq_0_disj)
qed simp

lemma ocon_first_find: "find t cs = map_option snd (ocon_first t cs)"
  by (induction cs) (auto simp: option.map_comp comp_def case_prod_beta)

lemma ocon_first_upd:
  assumes "ocon_first t cs = Some (i, c)" "t c'"
  shows "ocon_first t (cs[i := c']) = Some (i, c')"
  using assms
proof (induction cs arbitrary: i)
  case (Cons x cs)
  then show ?case by (cases i) (auto split: if_splits)
qed simp

lemma sid_for_spec:
  assumes "sidtab_ok (sv_sidtab sv)" "context_ok con" "sid_for sv con a = (Inr (sv', r), b)"
  shows "sv' = sv\<lparr>sv_sidtab := sv_sidtab sv'\<rparr> \<and> (case r of
      Inl e \<Rightarrow> e = ENOMEM \<and> sv' = sv
    | Inr sid \<Rightarrow> sidtab_ok (sv_sidtab sv') \<and> sid_map (sv_sidtab sv') sid = Some con \<and> sid \<noteq> 0
        \<and> (\<forall>x c. sid_map (sv_sidtab sv) x = Some c \<longrightarrow> sid_map (sv_sidtab sv') x = Some c))"
proof -
  from assms(3) obtain s' where s: "sepol_sidtab_context_to_sid (sv_sidtab sv) con a = (Inr (s', r), b)" "sv' = sv\<lparr>sv_sidtab := s'\<rparr>"
    by (auto simp: sid_for_def bindE_eq_Inr)
  from sidtab_intern_spec [OF assms(1,2) s(1)] show ?thesis by (cases r) (simp_all add: s(2))
qed

text \<open>Where such a list lives in the state: reading it and writing an entry back.\<close>

locale ocon_table =
  fixes entries :: "services \<Rightarrow> ocontext list" and store :: "nat \<Rightarrow> ocontext \<Rightarrow> services \<Rightarrow> services"
  assumes entries_store: "i < length (entries sv) \<Longrightarrow> entries (store i c sv) = (entries sv)[i := c]"
    and sidtab_store: "sv_sidtab (store i c sv) = sv_sidtab sv"
    and entries_sidtab: "entries (sv\<lparr>sv_sidtab := s\<rparr>) = entries sv"
begin

text \<open>The SID is that of the context of the first matching entry, and from then on it comes from the
  cache.\<close>

lemma one_sid_labels:
  assumes "sidtab_ok (sv_sidtab sv)" "\<forall>c\<in>set (entries sv). ocon_ok (sv_sidtab sv) c"
    and "ocon_first t (entries sv) = Some (i, c)" "sid_blind t"
    and "one_sid store i c sv a = (Inr (sv', Inr sid), b)"
  shows "sidtab_ok (sv_sidtab sv') \<and> sid_map (sv_sidtab sv') sid = Some (fst (oc_context c)) \<and> sid \<noteq> 0
    \<and> ocon_first t (entries sv') = Some (i, c\<lparr>oc_sid := (sid, snd (oc_sid c))\<rparr>)
    \<and> (\<forall>x d. sid_map (sv_sidtab sv) x = Some d \<longrightarrow> sid_map (sv_sidtab sv') x = Some d)"
proof (cases "fst (oc_sid c) = 0")
  case False
  then have sv': "sv' = sv" "sid = fst (oc_sid c)" using assms(5) by (simp_all add: one_sid_def)
  then have "c\<lparr>oc_sid := (sid, snd (oc_sid c))\<rparr> = c" by simp
  moreover have "ocon_ok (sv_sidtab sv) c" using assms(2) ocon_first_Some [OF assms(3)] nth_mem by metis
  ultimately show ?thesis using False assms(1,3) sv' by (auto simp: ocon_ok_def cached_def)
next
  case True
  note f = ocon_first_Some [OF assms(3)]
  from True assms(5) obtain sv1 where s: "sid_for sv (fst (oc_context c)) a = (Inr (sv1, Inr sid), b)"
    "sv' = store i (c\<lparr>oc_sid := (sid, snd (oc_sid c))\<rparr>) sv1"
    by (auto simp: one_sid_def bindE_eq_Inr split: sum.splits) (metis sum.exhaust)
  have "ocon_ok (sv_sidtab sv) c" using assms(2) f nth_mem by metis
  then have ctx: "context_ok (fst (oc_context c))" by (simp add: ocon_ok_def)
  have sp: "sv1 = sv\<lparr>sv_sidtab := sv_sidtab sv1\<rparr>" "sidtab_ok (sv_sidtab sv1)"
    "sid_map (sv_sidtab sv1) sid = Some (fst (oc_context c))" "sid \<noteq> 0"
    "\<forall>x d. sid_map (sv_sidtab sv) x = Some d \<longrightarrow> sid_map (sv_sidtab sv1) x = Some d"
    using sid_for_spec [OF assms(1) ctx s(1)] by simp_all
  have "entries sv1 = entries sv" by (subst sp(1)) (rule entries_sidtab)
  then have "entries sv' = (entries sv)[i := c\<lparr>oc_sid := (sid, snd (oc_sid c))\<rparr>]" using f s(2) entries_store by simp
  moreover have "t (c\<lparr>oc_sid := (sid, snd (oc_sid c))\<rparr>)" using f assms(4) by (simp add: sid_blind_def)
  ultimately show ?thesis using sp(2-5) ocon_first_upd [OF assms(3)] s(2) sidtab_store by simp
qed

end

interpretation fs: ocon_table "\<lambda>sv. oc_fs (sv_policydb sv)" store_fs
  by unfold_locales (simp_all add: store_fs_def)

interpretation port: ocon_table "\<lambda>sv. oc_port (sv_policydb sv)" store_port
  by unfold_locales (simp_all add: store_port_def)

interpretation netif: ocon_table "\<lambda>sv. oc_netif (sv_policydb sv)" store_netif
  by unfold_locales (simp_all add: store_netif_def)

interpretation node4: ocon_table "\<lambda>sv. oc_node (sv_policydb sv)" store_node
  by unfold_locales (simp_all add: store_node_def)

interpretation node6: ocon_table "\<lambda>sv. oc_node6 (sv_policydb sv)" store_node6
  by unfold_locales (simp_all add: store_node6_def)

interpretation fsuse: ocon_table "\<lambda>sv. oc_fsuse (sv_policydb sv)" store_fsuse
  by unfold_locales (simp_all add: store_fsuse_def)

section \<open>Properties\<close>

lemma port_matches_blind: "sid_blind (port_matches pr po)"
  by (simp add: sid_blind_def port_matches_def)

text \<open>The SID of a port names the context of the first entry of the policy whose protocol and range
  of ports cover it (the initial SID for ports when there is none), no older SID changes its context, and
  the same question is answered from then on with the same SID, without any change and without an
  allocation.\<close>

theorem port_sid_labels:
  assumes "sidtab_ok (sv_sidtab sv)" and "\<forall>c\<in>set (oc_port (sv_policydb sv)). ocon_ok (sv_sidtab sv) c"
    and "sepol_port_sid sv protocol po a = (Inr (sv', Inr sid), b)"
  shows "(case find (port_matches protocol po) (oc_port (sv_policydb sv)) of
      Some c \<Rightarrow> sepol_sidtab_search (sv_sidtab sv') sid = Inr (Some (fst (oc_context c)))
    | None \<Rightarrow> sid = SECINITSID_PORT \<and> sv' = sv)
    \<and> (\<forall>x d. sid_map (sv_sidtab sv) x = Some d \<longrightarrow> sid_map (sv_sidtab sv') x = Some d)
    \<and> (\<forall>a'. sepol_port_sid sv' protocol po a' = (Inr (sv', Inr sid), a'))"
proof (cases "ocon_first (port_matches protocol po) (oc_port (sv_policydb sv))")
  case None
  then show ?thesis using assms(3) by (simp add: sepol_port_sid_def returnE_def ocon_first_find)
next
  case (Some ic)
  obtain i c where ic: "ic = (i, c)" by (cases ic)
  from assms(3) Some ic have run: "one_sid store_port i c sv a = (Inr (sv', Inr sid), b)" by (simp add: sepol_port_sid_def)
  have lab: "sidtab_ok (sv_sidtab sv')" "sid_map (sv_sidtab sv') sid = Some (fst (oc_context c))" "sid \<noteq> 0"
    "ocon_first (port_matches protocol po) (oc_port (sv_policydb sv')) = Some (i, c\<lparr>oc_sid := (sid, snd (oc_sid c))\<rparr>)"
    "\<forall>x d. sid_map (sv_sidtab sv) x = Some d \<longrightarrow> sid_map (sv_sidtab sv') x = Some d"
    using port.one_sid_labels [OF assms(1,2) Some [unfolded ic] port_matches_blind run] by simp_all
  show ?thesis
    using lab sidm.lookup_bound [OF lab(1,2)] Some ic
    by (simp add: sepol_port_sid_def one_sid_def returnE_def ocon_first_find)
qed

section \<open>Witnesses\<close>

definition sample_port :: ocontext where
  "sample_port = \<lparr>oc_u = OPort 6 1 1023, oc_v = 0, oc_context = (sample_context 1 2, context_init), oc_sid = (0, 0)\<rparr>"

theorem port_sid_labels_witness:
  "\<exists>sv'. sepol_port_sid (sample_services\<lparr>sv_policydb := sample_db\<lparr>oc_port := [sample_port]\<rparr>\<rparr>) 6 22 [] = (Inr (sv', Inr 2), [])
     \<and> sepol_sidtab_search (sv_sidtab sv') 2 = Inr (Some (sample_context 1 2))"
proof -
  let ?sv = "sample_services\<lparr>sv_policydb := sample_db\<lparr>oc_port := [sample_port]\<rparr>\<rparr>"
  have "apfst (map_sum id snd) (sepol_port_sid ?sv 6 22 []) = (Inr (Inr 2), [])" by code_simp
  then obtain sv' where r: "sepol_port_sid ?sv 6 22 [] = (Inr (sv', Inr 2), [])"
    by (cases "sepol_port_sid ?sv 6 22 []") (auto simp: map_sum_def split: sum.splits)
  have ok: "sidtab_ok (sv_sidtab ?sv)" "\<forall>c\<in>set (oc_port (sv_policydb ?sv)). ocon_ok (sv_sidtab ?sv) c"
    by (simp_all add: sample_sidtab_ok ocon_ok_def cached_def sample_port_def)
  show ?thesis using port_sid_labels [OF ok r] r by (auto simp: port_matches_def sample_port_def)
qed

end
