(* ===== verification/Policy_Records.thy ===== *)
theory Policy_Records
  imports Ocontexts Policydb_Index
begin

text \<open>
  The record interface of libsepol, through which a policy is customised: ports (ports.c, port_record.c), network interfaces
  (interfaces.c, iface_record.c) and Booleans (booleans.c, boolean_record.c). A record is the caller's copy of an entry, with
  the context as names; \<open>int\<close> fields are integers and are cut to the width of the field of the policy. The keys of a caller
  hold the name by reference, which is its value here. Callbacks of the iterations are arguments that transform a state.
\<close>

section \<open>Copies of contexts\<close>

text \<open>Copies into cleared memory by a caller who goes on with what a failed copy leaves: a level whose categories could not be copied has
  the sensitivity only, and the low level is cleared again when the high one fails. The flag is the success of the copy.\<close>

definition level_cpy_unchecked :: "mls_level \<Rightarrow> (mls_level \<times> bool) alloc_m" where
  "level_cpy_unchecked src = bindE (tryE (mls_level_cpy src)) (\<lambda>r. case r of
     Inl _ \<Rightarrow> returnE (\<lparr>sens = sens src, cat = ebitmap_init\<rparr>, False) | Inr l \<Rightarrow> returnE (l, True))"

definition range_cpy_unchecked :: "mls_range \<Rightarrow> (mls_range \<times> bool) alloc_m" where
  "range_cpy_unchecked src = bindE (level_cpy_unchecked (low src)) (\<lambda>(l0, ok0).
     if \<not> ok0 then returnE (\<lparr>low = l0, high = mls_level_init\<rparr>, False)
     else bindE (level_cpy_unchecked (high src)) (\<lambda>(l1, ok1). returnE (\<lparr>low = (if ok1 then l0 else mls_level_init), high = l1\<rparr>, ok1)))"

definition context_cpy_unchecked :: "context_struct \<Rightarrow> context_struct alloc_m" where
  "context_cpy_unchecked src = bindE (range_cpy_unchecked (c_range src)) (\<lambda>(r, _).
     returnE \<lparr>c_user = c_user src, c_role = c_role src, c_type = c_type src, c_range = r\<rparr>)"

section \<open>Ports\<close>

abbreviation (input) "SEPOL_PROTO_UDP \<equiv> 0 :: int"
abbreviation (input) "SEPOL_PROTO_TCP \<equiv> 1 :: int"
abbreviation (input) "IPPROTO_TCP \<equiv> 6 :: int"
abbreviation (input) "IPPROTO_UDP \<equiv> 17 :: int"

record sepol_port =
  sp_low :: int
  sp_high :: int
  sp_proto :: int
  sp_con :: "sepol_context option"

record sepol_port_key =
  spk_low :: int
  spk_high :: int
  spk_proto :: int

definition sepol_port_key_create :: "int \<Rightarrow> int \<Rightarrow> int \<Rightarrow> sepol_port_key alloc_m" where
  "sepol_port_key_create lo hi proto = bindE (failE malloc STATUS_ERR) (\<lambda>_. returnE \<lparr>spk_low = lo, spk_high = hi, spk_proto = proto\<rparr>)"

definition sepol_port_key_unpack :: "sepol_port_key \<Rightarrow> int \<times> int \<times> int" where
  "sepol_port_key_unpack key = (spk_low key, spk_high key, spk_proto key)"

definition sepol_port_key_extract :: "sepol_port \<Rightarrow> sepol_port_key alloc_m" where
  "sepol_port_key_extract po = failE (sepol_port_key_create (sp_low po) (sp_high po) (sp_proto po)) STATUS_ERR"

definition sepol_port_compare :: "sepol_port \<Rightarrow> sepol_port_key \<Rightarrow> int" where
  "sepol_port_compare po key =
     (if sp_low po = spk_low key \<and> sp_high po = spk_high key \<and> sp_proto po = spk_proto key then 0
      else if sp_low po < spk_low key then -1 else if spk_low key < sp_low po then 1
      else if sp_high po < spk_high key then -1 else if spk_high key < sp_high po then 1
      else if sp_proto po < spk_proto key then -1 else 1)"

definition sepol_port_compare2 :: "sepol_port \<Rightarrow> sepol_port \<Rightarrow> int" where
  "sepol_port_compare2 po po2 =
     (if sp_low po = sp_low po2 \<and> sp_high po = sp_high po2 \<and> sp_proto po = sp_proto po2 then 0
      else if sp_low po < sp_low po2 then -1 else if sp_low po2 < sp_low po then 1
      else if sp_high po < sp_high po2 then -1 else if sp_high po2 < sp_high po then 1
      else if sp_proto po < sp_proto po2 then -1 else 1)"

definition sepol_port_set_port :: "sepol_port \<Rightarrow> int \<Rightarrow> sepol_port" where
  "sepol_port_set_port po n = po\<lparr>sp_low := n, sp_high := n\<rparr>"

definition sepol_port_set_range :: "sepol_port \<Rightarrow> int \<Rightarrow> int \<Rightarrow> sepol_port" where
  "sepol_port_set_range po lo hi = po\<lparr>sp_low := lo, sp_high := hi\<rparr>"

definition sepol_port_get_proto_str :: "int \<Rightarrow> string" where
  "sepol_port_get_proto_str proto = (if proto = SEPOL_PROTO_UDP then ''udp'' else if proto = SEPOL_PROTO_TCP then ''tcp'' else ''???'')"

definition sepol_port_create :: "sepol_port alloc_m" where
  "sepol_port_create = bindE (failE malloc STATUS_ERR) (\<lambda>_.
     returnE \<lparr>sp_low = 0, sp_high = 0, sp_proto = SEPOL_PROTO_UDP, sp_con = None\<rparr>)"

definition sepol_port_clone :: "sepol_port \<Rightarrow> sepol_port alloc_m" where
  "sepol_port_clone po = failE (bindE sepol_port_create (\<lambda>n.
     let n1 = n\<lparr>sp_low := sp_low po, sp_high := sp_high po, sp_proto := sp_proto po\<rparr> in
     if sp_con po = None then returnE n1
     else bindE (sepol_context_clone (sp_con po)) (\<lambda>c. returnE (n1\<lparr>sp_con := c\<rparr>)))) STATUS_ERR"

definition sepol_port_set_con :: "sepol_port \<Rightarrow> sepol_context option \<Rightarrow> sepol_port alloc_m" where
  "sepol_port_set_con po con = bindE (failE (sepol_context_clone con) STATUS_ERR) (\<lambda>c. returnE (po\<lparr>sp_con := c\<rparr>))"

definition sepol2ipproto :: "int \<Rightarrow> int" where
  "sepol2ipproto proto = (if proto = SEPOL_PROTO_TCP then IPPROTO_TCP else if proto = SEPOL_PROTO_UDP then IPPROTO_UDP else -1)"

definition ipproto2sepol :: "int \<Rightarrow> int" where
  "ipproto2sepol proto = (if proto = IPPROTO_TCP then SEPOL_PROTO_TCP else if proto = IPPROTO_UDP then SEPOL_PROTO_UDP else -1)"

text \<open>The numbers of the ports are cut to 16 bits before they are compared.\<close>

definition port_from_record :: "policydb \<Rightarrow> sepol_port \<Rightarrow> ocontext alloc_m" where
  "port_from_record p data = failE (bindE malloc (\<lambda>_.
     let tmp_proto = sepol2ipproto (sp_proto data); lo = word_of_int (sp_low data) :: u16; hi = word_of_int (sp_high data) :: u16 in
     if tmp_proto < 0 then throwE STATUS_ERR
     else if lo > hi then throwE STATUS_ERR
     else bindE (context_from_record p (sp_con data)) (\<lambda>tmp_con. bindE (context_cpy_unchecked tmp_con) (\<lambda>c.
       returnE \<lparr>oc_u = OPort (word_of_int tmp_proto) lo hi, oc_v = 0, oc_context = (c, context_init), oc_sid = (0, 0)\<rparr>)))) STATUS_ERR"

text \<open>The entry of the union; another kind of entry in the list would be read as a port.\<close>

definition port_key :: "ocontext \<Rightarrow> (u8 \<times> u16 \<times> u16) res" where
  "port_key c = (case oc_u c of OPort pr lo hi \<Rightarrow> Inr (pr, lo, hi) | _ \<Rightarrow> Inl Fault)"

definition port_to_record :: "policydb \<Rightarrow> ocontext \<Rightarrow> sepol_port alloc_m" where
  "port_to_record p po = failE (bindE (liftE (port_key po)) (\<lambda>(pr, lo, hi). bindE sepol_port_create (\<lambda>r.
     let rec_proto = ipproto2sepol (uint pr) in
     if rec_proto < 0 then throwE STATUS_ERR
     else bindE (context_to_record p (fst (oc_context po))) (\<lambda>con.
       sepol_port_set_con (sepol_port_set_range (r\<lparr>sp_proto := rec_proto\<rparr>) (uint lo) (uint hi)) (Some con))))) STATUS_ERR"

definition sepol_port_count :: "policydb \<Rightarrow> u32" where
  "sepol_port_count p = of_nat (length (oc_port p))"

definition port_is :: "int \<Rightarrow> int \<Rightarrow> int \<Rightarrow> ocontext \<Rightarrow> bool res" where
  "port_is proto lo hi c = bindR (port_key c) (\<lambda>(pr, lo2, hi2). Inr (proto = uint pr \<and> uint lo2 = lo \<and> uint hi2 = hi))"

fun port_find :: "int \<Rightarrow> int \<Rightarrow> int \<Rightarrow> ocontext list \<Rightarrow> ocontext option res" where
  "port_find proto lo hi [] = Inr None"
| "port_find proto lo hi (c # cs) = bindR (port_is proto lo hi c) (\<lambda>b. if b then Inr (Some c) else port_find proto lo hi cs)"

definition sepol_port_exists :: "policydb \<Rightarrow> sepol_port_key \<Rightarrow> bool res" where
  "sepol_port_exists p key = (let (lo, hi, pr) = sepol_port_key_unpack key; proto = sepol2ipproto pr in
     if proto < 0 then Inl STATUS_ERR else bindR (port_find proto lo hi (oc_port p)) (\<lambda>r. Inr (r \<noteq> None)))"

definition sepol_port_query :: "policydb \<Rightarrow> sepol_port_key \<Rightarrow> sepol_port option alloc_m" where
  "sepol_port_query p key = (let (lo, hi, pr) = sepol_port_key_unpack key; proto = sepol2ipproto pr in
     if proto < 0 then throwE STATUS_ERR
     else bindE (liftE (port_find proto lo hi (oc_port p))) (\<lambda>r. case r of
       None \<Rightarrow> returnE None
     | Some c \<Rightarrow> bindE (failE (port_to_record p c) STATUS_ERR) (\<lambda>r. returnE (Some r))))"

text \<open>Only the protocol of the key is looked at.\<close>

definition sepol_port_modify :: "policydb \<Rightarrow> sepol_port_key \<Rightarrow> sepol_port \<Rightarrow> policydb alloc_m" where
  "sepol_port_modify p key data = (let (lo, hi, pr) = sepol_port_key_unpack key in
     if sepol2ipproto pr < 0 then throwE STATUS_ERR
     else bindE (failE (port_from_record p data) STATUS_ERR) (\<lambda>po. returnE (p\<lparr>oc_port := po # oc_port p\<rparr>)))"

text \<open>An iteration converts each entry, calls the handler and goes on while it returns 0; the result is the state of the handler and
  whether the iteration succeeded.\<close>

fun iterate_entries :: "('c \<Rightarrow> 'r alloc_m) \<Rightarrow> ('r \<Rightarrow> 's \<Rightarrow> int \<times> 's) \<Rightarrow> 'c list \<Rightarrow> 's \<Rightarrow> ('s \<times> bool) alloc_m" where
  "iterate_entries conv fn [] arg = returnE (arg, True)"
| "iterate_entries conv fn (c # cs) arg = bindE (tryE (conv c)) (\<lambda>r. case r of
     Inl e \<Rightarrow> if err_code e then returnE (arg, False) else throwE e
   | Inr rec \<Rightarrow> (case fn rec arg of (status, arg') \<Rightarrow>
       if status < 0 then returnE (arg', False)
       else if status > 0 then returnE (arg', True) else iterate_entries conv fn cs arg'))"

definition sepol_port_iterate :: "policydb \<Rightarrow> (sepol_port \<Rightarrow> 's \<Rightarrow> int \<times> 's) \<Rightarrow> 's \<Rightarrow> ('s \<times> bool) alloc_m" where
  "sepol_port_iterate p fn arg = iterate_entries (port_to_record p) fn (oc_port p) arg"

section \<open>Network interfaces\<close>

record sepol_iface =
  si_name :: "string option"
  si_netif_con :: "sepol_context option"
  si_netmsg_con :: "sepol_context option"

type_synonym sepol_iface_key = string

definition sepol_iface_key_create :: "string \<Rightarrow> sepol_iface_key alloc_m" where
  "sepol_iface_key_create nm = bindE (failE malloc STATUS_ERR) (\<lambda>_. returnE nm)"

definition sepol_iface_compare :: "sepol_iface \<Rightarrow> sepol_iface_key \<Rightarrow> int res" where
  "sepol_iface_compare i key = bindR (deref (si_name i)) (\<lambda>nm. Inr (strcmp nm key))"

definition sepol_iface_compare2 :: "sepol_iface \<Rightarrow> sepol_iface \<Rightarrow> int res" where
  "sepol_iface_compare2 i i2 = bindR (deref (si_name i)) (\<lambda>nm. bindR (deref (si_name i2)) (\<lambda>nm2. Inr (strcmp nm nm2)))"

definition sepol_iface_create :: "sepol_iface alloc_m" where
  "sepol_iface_create = bindE (failE malloc STATUS_ERR) (\<lambda>_. returnE \<lparr>si_name = None, si_netif_con = None, si_netmsg_con = None\<rparr>)"

definition sepol_iface_set_name :: "sepol_iface \<Rightarrow> string option \<Rightarrow> sepol_iface alloc_m" where
  "sepol_iface_set_name i nm = bindE (dup_field nm) (\<lambda>tmp_name. returnE (i\<lparr>si_name := Some tmp_name\<rparr>))"

definition sepol_iface_set_ifcon :: "sepol_iface \<Rightarrow> sepol_context option \<Rightarrow> sepol_iface alloc_m" where
  "sepol_iface_set_ifcon i con = bindE (failE (sepol_context_clone con) STATUS_ERR) (\<lambda>newcon. returnE (i\<lparr>si_netif_con := newcon\<rparr>))"

definition sepol_iface_set_msgcon :: "sepol_iface \<Rightarrow> sepol_context option \<Rightarrow> sepol_iface alloc_m" where
  "sepol_iface_set_msgcon i con = bindE (failE (sepol_context_clone con) STATUS_ERR) (\<lambda>newcon. returnE (i\<lparr>si_netmsg_con := newcon\<rparr>))"

definition sepol_iface_clone :: "sepol_iface \<Rightarrow> sepol_iface alloc_m" where
  "sepol_iface_clone i = failE (bindE sepol_iface_create (\<lambda>n. bindE (sepol_iface_set_name n (si_name i)) (\<lambda>n1.
     bindE (if si_netif_con i = None then returnE n1
            else bindE (sepol_context_clone (si_netif_con i)) (\<lambda>c. returnE (n1\<lparr>si_netif_con := c\<rparr>))) (\<lambda>n2.
       if si_netmsg_con i = None then returnE n2
       else bindE (sepol_context_clone (si_netmsg_con i)) (\<lambda>c. returnE (n2\<lparr>si_netmsg_con := c\<rparr>)))))) STATUS_ERR"

definition iface_from_record :: "policydb \<Rightarrow> sepol_iface \<Rightarrow> ocontext alloc_m" where
  "iface_from_record p rec = failE (bindE malloc (\<lambda>_. bindE (dup_field (si_name rec)) (\<lambda>nm.
     bindE (context_from_record p (si_netif_con rec)) (\<lambda>con0. bindE (context_cpy_unchecked con0) (\<lambda>c0.
     bindE (context_from_record p (si_netmsg_con rec)) (\<lambda>con1. bindE (context_cpy_unchecked con1) (\<lambda>c1.
       returnE \<lparr>oc_u = OName nm, oc_v = 0, oc_context = (c0, c1), oc_sid = (0, 0)\<rparr>))))))) STATUS_ERR"

definition name_key :: "ocontext \<Rightarrow> string res" where
  "name_key c = (case oc_u c of OName nm \<Rightarrow> Inr nm | _ \<Rightarrow> Inl Fault)"

definition iface_to_record :: "policydb \<Rightarrow> ocontext \<Rightarrow> sepol_iface alloc_m" where
  "iface_to_record p i = failE (bindE (liftE (name_key i)) (\<lambda>nm. bindE sepol_iface_create (\<lambda>r. bindE (sepol_iface_set_name r (Some nm)) (\<lambda>r1.
     bindE (context_to_record p (fst (oc_context i))) (\<lambda>con0. bindE (sepol_iface_set_ifcon r1 (Some con0)) (\<lambda>r2.
     bindE (context_to_record p (snd (oc_context i))) (\<lambda>con1. sepol_iface_set_msgcon r2 (Some con1)))))))) STATUS_ERR"

fun iface_find :: "string \<Rightarrow> ocontext list \<Rightarrow> ocontext option res" where
  "iface_find nm [] = Inr None"
| "iface_find nm (c # cs) = bindR (name_key c) (\<lambda>n. if strcmp nm n = 0 then Inr (Some c) else iface_find nm cs)"

definition sepol_iface_exists :: "policydb \<Rightarrow> sepol_iface_key \<Rightarrow> bool res" where
  "sepol_iface_exists p key = bindR (iface_find key (oc_netif p)) (\<lambda>r. Inr (r \<noteq> None))"

definition sepol_iface_query :: "policydb \<Rightarrow> sepol_iface_key \<Rightarrow> sepol_iface option alloc_m" where
  "sepol_iface_query p key = bindE (liftE (iface_find key (oc_netif p))) (\<lambda>r. case r of
     None \<Rightarrow> returnE None
   | Some c \<Rightarrow> bindE (failE (iface_to_record p c) STATUS_ERR) (\<lambda>r. returnE (Some r)))"

text \<open>The first entry with the name of the key is replaced; \<open>None\<close> when there is none.\<close>

fun iface_replace :: "string \<Rightarrow> ocontext \<Rightarrow> ocontext list \<Rightarrow> ocontext list option res" where
  "iface_replace nm i [] = Inr None"
| "iface_replace nm i (c # cs) = bindR (name_key c) (\<lambda>n. if strcmp nm n = 0 then Inr (Some (i # cs))
     else bindR (iface_replace nm i cs) (\<lambda>r. Inr (map_option (Cons c) r)))"

definition sepol_iface_modify :: "policydb \<Rightarrow> sepol_iface_key \<Rightarrow> sepol_iface \<Rightarrow> policydb alloc_m" where
  "sepol_iface_modify p key data = bindE (failE (iface_from_record p data) STATUS_ERR) (\<lambda>i.
     bindE (liftE (iface_replace key i (oc_netif p))) (\<lambda>r. returnE (p\<lparr>oc_netif := (case r of Some cs \<Rightarrow> cs | None \<Rightarrow> i # oc_netif p)\<rparr>)))"

definition sepol_iface_count :: "policydb \<Rightarrow> u32" where
  "sepol_iface_count p = of_nat (length (oc_netif p))"

definition sepol_iface_iterate :: "policydb \<Rightarrow> (sepol_iface \<Rightarrow> 's \<Rightarrow> int \<times> 's) \<Rightarrow> 's \<Rightarrow> ('s \<times> bool) alloc_m" where
  "sepol_iface_iterate p fn arg = iterate_entries (iface_to_record p) fn (oc_netif p) arg"

section \<open>Booleans\<close>

record sepol_bool =
  sb_name :: "string option"
  sb_value :: int

type_synonym sepol_bool_key = string

definition sepol_bool_key_create :: "string \<Rightarrow> sepol_bool_key alloc_m" where
  "sepol_bool_key_create nm = bindE (failE malloc STATUS_ERR) (\<lambda>_. returnE nm)"

definition sepol_bool_compare :: "sepol_bool \<Rightarrow> sepol_bool_key \<Rightarrow> int res" where
  "sepol_bool_compare b key = bindR (deref (sb_name b)) (\<lambda>nm. Inr (strcmp nm key))"

definition sepol_bool_compare2 :: "sepol_bool \<Rightarrow> sepol_bool \<Rightarrow> int res" where
  "sepol_bool_compare2 b b2 = bindR (deref (sb_name b)) (\<lambda>nm. bindR (deref (sb_name b2)) (\<lambda>nm2. Inr (strcmp nm nm2)))"

definition sepol_bool_create :: "sepol_bool alloc_m" where
  "sepol_bool_create = bindE (failE malloc STATUS_ERR) (\<lambda>_. returnE \<lparr>sb_name = None, sb_value = 0\<rparr>)"

definition sepol_bool_set_name :: "sepol_bool \<Rightarrow> string option \<Rightarrow> sepol_bool alloc_m" where
  "sepol_bool_set_name b nm = bindE (dup_field nm) (\<lambda>tmp_name. returnE (b\<lparr>sb_name := Some tmp_name\<rparr>))"

definition sepol_bool_clone :: "sepol_bool \<Rightarrow> sepol_bool alloc_m" where
  "sepol_bool_clone b = failE (bindE sepol_bool_create (\<lambda>n. bindE (sepol_bool_set_name n (sb_name b)) (\<lambda>n1.
     returnE (n1\<lparr>sb_value := sb_value b\<rparr>)))) STATUS_ERR"

text \<open>The datum is shared by the symbol table and the table of structures.\<close>

definition bool_update :: "policydb \<Rightarrow> sepol_bool_key \<Rightarrow> sepol_bool \<Rightarrow> policydb alloc_m" where
  "bool_update p key data = failE (bindE (strdup key) (\<lambda>nm. bindE (liftE (hashtab_search (table (p_bools p)) nm)) (\<lambda>r. case r of
     None \<Rightarrow> throwE STATUS_ERR
   | Some datum \<Rightarrow>
       if sb_value data \<noteq> 0 \<and> sb_value data \<noteq> 1 then throwE STATUS_ERR
       else let datum' = datum\<lparr>cbd_state := sb_value data\<rparr> in
         returnE (p\<lparr>p_bools := (p_bools p)\<lparr>table := hashtab_store (table (p_bools p)) key datum'\<rparr>,
           bool_val_to_struct := struct_store (p_bool_val_to_name p) (bool_val_to_struct p) (cbd_value datum') key datum'\<rparr>)))) STATUS_ERR"

definition bool_to_record :: "policydb \<Rightarrow> u32 \<Rightarrow> sepol_bool alloc_m" where
  "bool_to_record p bool_idx = failE (bindE (liftE (array_get (p_bool_val_to_name p) (unat bool_idx))) (\<lambda>nm.
     bindE (liftE (bindR (array_get (bool_val_to_struct p) (unat bool_idx)) deref)) (\<lambda>booldatum.
     bindE sepol_bool_create (\<lambda>r. bindE (sepol_bool_set_name r nm) (\<lambda>r1. returnE (r1\<lparr>sb_value := cbd_state booldatum\<rparr>)))))) STATUS_ERR"

definition sepol_bool_set :: "policydb \<Rightarrow> sepol_bool_key \<Rightarrow> sepol_bool \<Rightarrow> policydb alloc_m" where
  "sepol_bool_set p key data = bindE (failE (bool_update p key data) STATUS_ERR) (\<lambda>p1. liftE (evaluate_conds p1))"

definition sepol_bool_count :: "policydb \<Rightarrow> u32" where
  "sepol_bool_count p = nprim (p_bools p)"

definition sepol_bool_exists :: "policydb \<Rightarrow> sepol_bool_key \<Rightarrow> bool alloc_m" where
  "sepol_bool_exists p key = bindE (failE (strdup key) STATUS_ERR) (\<lambda>nm.
     bindE (liftE (hashtab_search (table (p_bools p)) nm)) (\<lambda>r. returnE (r \<noteq> None)))"

definition sepol_bool_query :: "policydb \<Rightarrow> sepol_bool_key \<Rightarrow> sepol_bool option alloc_m" where
  "sepol_bool_query p key = bindE (failE (strdup key) STATUS_ERR) (\<lambda>nm.
     bindE (liftE (hashtab_search (table (p_bools p)) nm)) (\<lambda>r. case r of
       None \<Rightarrow> returnE None
     | Some booldatum \<Rightarrow> bindE (failE (bool_to_record p (cbd_value booldatum - 1)) STATUS_ERR) (\<lambda>r. returnE (Some r))))"

definition sepol_bool_iterate :: "policydb \<Rightarrow> (sepol_bool \<Rightarrow> 's \<Rightarrow> int \<times> 's) \<Rightarrow> 's \<Rightarrow> ('s \<times> bool) alloc_m" where
  "sepol_bool_iterate p fn arg = iterate_entries (bool_to_record p) fn (map of_nat [0..<unat (nprim (p_bools p))]) arg"

section \<open>Booleans are switched\<close>

text \<open>Every Boolean has its place in the tables of names and structures.\<close>

definition bools_ok :: "policydb \<Rightarrow> bool" where
  "bools_ok p \<longleftrightarrow> hashtab_ok (table (p_bools p)) \<and> length (bool_val_to_struct p) = length (p_bool_val_to_name p)
     \<and> (\<forall>k d. hashtab_abs (table (p_bools p)) k = Some d \<longrightarrow> cbd_value d \<noteq> 0 \<and> unat (cbd_value d - 1) < length (p_bool_val_to_name p)
          \<and> p_bool_val_to_name p ! unat (cbd_value d - 1) = Some k \<and> bool_val_to_struct p ! unat (cbd_value d - 1) = Some d)"

lemma val_deref_update:
  assumes "v \<noteq> 0" "unat (v - 1) < length t"
  shows "val_deref (t[unat (v - 1) := Some d]) w = (if w = v then Inr d else val_deref t w)"
proof -
  have "unat (w - 1) = unat (v - 1) \<Longrightarrow> w = v" using word_unat_eq_iff [of "w - 1" "v - 1"] by simp
  then show ?thesis using assms by (auto simp: val_deref_def val_get_def array_get_def nth_list_update)
qed

lemma strdup_returns: "returns (strdup s) (Inr s)"
  by (simp add: strdup_def returns_yields yields_malloc)

lemma bool_update_run:
  assumes "bools_ok p" "hashtab_abs (table (p_bools p)) key = Some d" "sb_value data = 0 \<or> sb_value data = 1"
  obtains p1 where "returns (bool_update p key data) (Inr p1)" "bools_ok p1"
    "hashtab_abs (table (p_bools p1)) = (hashtab_abs (table (p_bools p)))(key \<mapsto> d\<lparr>cbd_state := sb_value data\<rparr>)"
    "\<And>w. val_deref (bool_val_to_struct p1) w = (if w = cbd_value d then Inr (d\<lparr>cbd_state := sb_value data\<rparr>) else val_deref (bool_val_to_struct p) w)"
    "p1 = p\<lparr>p_bools := p_bools p1, bool_val_to_struct := bool_val_to_struct p1\<rparr>"
proof -
  let ?d = "d\<lparr>cbd_state := sb_value data\<rparr>" and ?t = "hashtab_store (table (p_bools p)) key (d\<lparr>cbd_state := sb_value data\<rparr>)"
  let ?i = "unat (cbd_value d - 1)"
  let ?p = "p\<lparr>p_bools := (p_bools p)\<lparr>table := ?t\<rparr>, bool_val_to_struct := (bool_val_to_struct p)[?i := Some ?d]\<rparr>"
  note ok = assms(1) [unfolded bools_ok_def]
  have h: "hashtab_ok (table (p_bools p))" using ok by blast
  have d: "cbd_value d \<noteq> 0" "?i < length (p_bool_val_to_name p)" "p_bool_val_to_name p ! ?i = Some key" "?i < length (bool_val_to_struct p)"
    using ok [THEN conjunct2, THEN conjunct2, rule_format, OF assms(2)] ok by simp_all
  have abs: "hashtab_abs ?t = (hashtab_abs (table (p_bools p)))(key \<mapsto> ?d)"
    using hashtab_store_spec(2) [OF h, of key ?d] assms(2) by (auto simp: fun_eq_iff)
  have "returns (bool_update p key data) (Inr ?p)" unfolding bool_update_def
    by (rule returns_failE_Inr, rule returns_bindE_Inr [OF strdup_returns])
      (use assms(2,3) d in \<open>auto simp: hashtab_search_abs [OF h] struct_store_def Let_def\<close>)
  moreover have "bools_ok ?p"
  proof -
    have "cbd_value e \<noteq> 0 \<and> unat (cbd_value e - 1) < length (p_bool_val_to_name p) \<and> p_bool_val_to_name p ! unat (cbd_value e - 1) = Some k
        \<and> (bool_val_to_struct p)[?i := Some ?d] ! unat (cbd_value e - 1) = Some e"
      if "((hashtab_abs (table (p_bools p)))(key \<mapsto> ?d)) k = Some e" for k e
    proof (cases "k = key")
      case True
      then show ?thesis using that d by auto
    next
      case False
      then have e: "hashtab_abs (table (p_bools p)) k = Some e" using that by simp
      then have "p_bool_val_to_name p ! unat (cbd_value e - 1) = Some k" using ok by blast
      then have "unat (cbd_value e - 1) \<noteq> ?i" using d(3) False by auto
      then show ?thesis using e ok by simp
    qed
    then show ?thesis using ok hashtab_store_spec(1) [OF h, of key ?d] by (auto simp: bools_ok_def abs)
  qed
  moreover have "val_deref (bool_val_to_struct ?p) w = (if w = cbd_value d then Inr ?d else val_deref (bool_val_to_struct p) w)" for w
    using val_deref_update [OF d(1,4)] by simp
  ultimately show thesis using abs by (intro that [of ?p]) simp_all
qed

lemma cond_evaluate_expr_cong: "bool_val_to_struct p = bool_val_to_struct q \<Longrightarrow> cond_evaluate_expr p = cond_evaluate_expr q"
  by (simp add: cond_evaluate_expr_def fun_eq_iff)

lemma bool_to_record_run:
  assumes "bools_ok p" "hashtab_abs (table (p_bools p)) key = Some d"
  shows "returns (sepol_bool_query p key) (Inr (Some \<lparr>sb_name = Some key, sb_value = cbd_state d\<rparr>))"
proof -
  note ok = assms(1) [unfolded bools_ok_def]
  have h: "hashtab_ok (table (p_bools p))" using ok by blast
  let ?i = "unat (cbd_value d - 1)"
  have d: "?i < length (p_bool_val_to_name p)" "p_bool_val_to_name p ! ?i = Some key" "?i < length (bool_val_to_struct p)" "bool_val_to_struct p ! ?i = Some d"
    using ok [THEN conjunct2, THEN conjunct2, rule_format, OF assms(2)] ok by simp_all
  have dup: "returns (dup_field (Some key)) (Inr key)" unfolding dup_field_def by (simp add: returns_failE_Inr [OF strdup_returns])
  have mk: "returns sepol_bool_create (Inr \<lparr>sb_name = None, sb_value = 0\<rparr>)" unfolding sepol_bool_create_def
    by (rule returns_bindE_Inr [OF returns_failE_malloc]) simp
  have nm: "returns (sepol_bool_set_name r (Some key)) (Inr (r\<lparr>sb_name := Some key\<rparr>))" for r unfolding sepol_bool_set_name_def
    by (rule returns_bindE_Inr [OF dup]) simp
  have "returns (bindE sepol_bool_create (\<lambda>r. bindE (sepol_bool_set_name r (Some key)) (\<lambda>r1. returnE (r1\<lparr>sb_value := cbd_state d\<rparr>))))
      (Inr \<lparr>sb_name = Some key, sb_value = cbd_state d\<rparr>)"
    by (rule returns_bindE_Inr [OF mk], rule returns_bindE_Inr [OF nm]) simp
  then have "returns (bool_to_record p (cbd_value d - 1)) (Inr \<lparr>sb_name = Some key, sb_value = cbd_state d\<rparr>)"
    unfolding bool_to_record_def by (intro returns_failE_Inr) (use d in \<open>simp_all add: array_get_def\<close>)
  then show ?thesis unfolding sepol_bool_query_def using assms(2)
    by (auto intro!: returns_bindE_Inr [OF returns_failE_Inr [OF strdup_returns]] returns_bindE_Inr [OF returns_failE_Inr] simp: hashtab_search_abs [OF h])
qed

section \<open>Ports are labelled\<close>

lemma level_cpy_unchecked_run: "level_cpy_unchecked l [] = (Inr (l, True), [])"
  using mls_level_cpy_returns [of l] by (simp add: returns_def level_cpy_unchecked_def bindE_def tryE_def returnE_def)

lemma range_cpy_unchecked_run: "range_cpy_unchecked r [] = (Inr (r, True), [])"
  by (simp add: range_cpy_unchecked_def bindE_def level_cpy_unchecked_run returnE_def)

lemma context_cpy_unchecked_run: "context_cpy_unchecked c [] = (Inr c, [])"
  by (simp add: context_cpy_unchecked_def bindE_def range_cpy_unchecked_run returnE_def)

text \<open>The entry for a record whose context denotes \<open>c\<close>.\<close>

definition port_entry :: "sepol_port \<Rightarrow> context_struct \<Rightarrow> ocontext" where
  "port_entry data c = \<lparr>oc_u = OPort (word_of_int (sepol2ipproto (sp_proto data))) (word_of_int (sp_low data)) (word_of_int (sp_high data)),
     oc_v = 0, oc_context = (c, context_init), oc_sid = (0, 0)\<rparr>"

lemma port_modify_run:
  assumes "context_from_record p (sp_con data) [] = (Inr c, [])" "sp_proto data \<in> {0, 1}" "spk_proto key \<in> {0, 1}"
    "(word_of_int (sp_low data) :: u16) \<le> word_of_int (sp_high data)"
  shows "sepol_port_modify p key data [] = (Inr (p\<lparr>oc_port := port_entry data c # oc_port p\<rparr>), [])"
proof -
  have "0 \<le> sepol2ipproto (sp_proto data)" "0 \<le> sepol2ipproto (spk_proto key)" using assms(2,3) by (auto simp: sepol2ipproto_def)
  moreover have "\<not> (word_of_int (sp_high data) :: u16) < word_of_int (sp_low data)" using assms(4) by (simp add: not_less)
  ultimately show ?thesis using assms(1) context_cpy_unchecked_run
    by (simp add: sepol_port_modify_def sepol_port_key_unpack_def port_from_record_def port_entry_def bindE_def failE_def returnE_def Let_def)
qed

section \<open>Interfaces are a map\<close>

lemma iface_find_replace:
  assumes "\<forall>c \<in> set cs. \<exists>n. oc_u c = OName n" "oc_u i = OName key"
  obtains r where "iface_replace key i cs = Inr r" "iface_find key cs = Inr None \<longleftrightarrow> r = None"
    "\<And>ds. r = Some ds \<Longrightarrow> length ds = length cs \<and> (\<forall>nm. iface_find nm ds = (if nm = key then Inr (Some i) else iface_find nm cs))"
  using assms
proof (induction cs arbitrary: thesis)
  case (Cons c cs)
  obtain n where n: "oc_u c = OName n" using Cons.prems(2) by auto
  show ?case
  proof (cases "n = key")
    case True
    then show ?thesis using n Cons.prems(3) by (intro Cons.prems(1) [of "Some (i # cs)"]) (auto simp: name_key_def)
  next
    case False
    obtain r where r: "iface_replace key i cs = Inr r" "iface_find key cs = Inr None \<longleftrightarrow> r = None"
      "\<And>ds. r = Some ds \<Longrightarrow> length ds = length cs \<and> (\<forall>nm. iface_find nm ds = (if nm = key then Inr (Some i) else iface_find nm cs))"
      using Cons.IH [OF _ _ Cons.prems(3)] Cons.prems(2) by auto
    then show ?thesis using False n by (intro Cons.prems(1) [of "map_option (Cons c) r"]) (auto simp: name_key_def)
  qed
qed simp

lemma iface_modify_find:
  assumes "\<forall>c \<in> set (oc_netif p). \<exists>n. oc_u c = OName n" "si_name data = Some key"
    "context_from_record p (si_netif_con data) [] = (Inr c0, [])" "context_from_record p (si_netmsg_con data) [] = (Inr c1, [])"
  shows "\<exists>p' i. sepol_iface_modify p key data [] = (Inr p', []) \<and> p' = p\<lparr>oc_netif := oc_netif p'\<rparr>
    \<and> i = \<lparr>oc_u = OName key, oc_v = 0, oc_context = (c0, c1), oc_sid = (0, 0)\<rparr>
    \<and> (\<forall>nm. iface_find nm (oc_netif p') = (if nm = key then Inr (Some i) else iface_find nm (oc_netif p)))
    \<and> length (oc_netif p') = length (oc_netif p) + (if sepol_iface_exists p key = Inr True then 0 else 1)"
proof -
  let ?i = "\<lparr>oc_u = OName key, oc_v = 0, oc_context = (c0, c1), oc_sid = (0, 0)\<rparr>"
  have run: "iface_from_record p data [] = (Inr ?i, [])"
    using assms(2-4) by (simp add: iface_from_record_def dup_field_def strdup_def bindE_def failE_def returnE_def liftE_def context_cpy_unchecked_run)
  have key: "oc_u ?i = OName key" by simp
  from iface_find_replace [OF assms(1) key] obtain r where r: "iface_replace key ?i (oc_netif p) = Inr r" "iface_find key (oc_netif p) = Inr None \<longleftrightarrow> r = None"
    "\<And>ds. r = Some ds \<Longrightarrow> length ds = length (oc_netif p) \<and> (\<forall>nm. iface_find nm ds = (if nm = key then Inr (Some ?i) else iface_find nm (oc_netif p)))" by blast
  let ?l = "case r of Some cs \<Rightarrow> cs | None \<Rightarrow> ?i # oc_netif p"
  have m: "sepol_iface_modify p key data [] = (Inr (p\<lparr>oc_netif := ?l\<rparr>), [])"
    using run r(1) by (simp add: sepol_iface_modify_def bindE_def failE_def liftE_def returnE_def)
  have f: "iface_find nm ?l = (if nm = key then Inr (Some ?i) else iface_find nm (oc_netif p))" for nm
    using r(3) by (cases r) (auto simp: name_key_def)
  obtain q where q: "iface_find key (oc_netif p) = Inr q"
  proof -
    have "\<exists>q. iface_find key cs = Inr q" if "\<forall>c \<in> set cs. \<exists>n. oc_u c = OName n" for cs using that by (induction cs) (auto simp: name_key_def)
    from this [OF assms(1)] that show thesis by blast
  qed
  have n: "length ?l = length (oc_netif p) + (if sepol_iface_exists p key = Inr True then 0 else 1)"
    using r(2,3) q by (cases r) (auto simp: sepol_iface_exists_def)
  show ?thesis using m f n by (intro exI [of _ "p\<lparr>oc_netif := ?l\<rparr>"] exI [of _ ?i]) simp
qed

section \<open>Properties\<close>

text \<open>Claim C20. Setting a Boolean of the policy to 0 or 1 (through \<open>sepol_bool_set\<close>) ends with the new policy or, for lack of memory, with an
  error code: exactly this Boolean has the new value, in the symbol table and in the table of structures, every conditional has the value of its
  expression under the new values, exactly the rules of its matching branch are switched on, the rules are otherwise the same, and a query
  gives the new value. An unknown Boolean or another value is refused.\<close>

theorem bool_set_switches:
  assumes "bools_ok p" "\<forall>c \<in> set (cond_list p). expr_defined (bool_val_to_struct p) (cn_cond_expr c)"
    "\<forall>c \<in> set (cond_list p). in_sync c (te_cond_avtab p)" "cond_lists_ok (cond_list p)"
  shows "if hashtab_abs (table (p_bools p)) key = None \<or> sb_value data \<notin> {0, 1}
    then \<forall>a. \<exists>b. sepol_bool_set p key data a = (Inl STATUS_ERR, b)
    else \<exists>d p'. hashtab_abs (table (p_bools p)) key = Some d \<and> returns (sepol_bool_set p key data) (Inr p') \<and> bools_ok p'
      \<and> hashtab_abs (table (p_bools p')) = (hashtab_abs (table (p_bools p)))(key \<mapsto> d\<lparr>cbd_state := sb_value data\<rparr>)
      \<and> (\<forall>v. state_of (bool_val_to_struct p') v = (if v = cbd_value d then sb_value data = 1 else state_of (bool_val_to_struct p) v))
      \<and> (\<forall>c \<in> set (cond_list p'). in_sync c (te_cond_avtab p') \<and> cond_evaluate_expr p' (cn_cond_expr c) = Inr (cur_state c))
      \<and> map (\<lambda>c. c\<lparr>cur_state := 0\<rparr>) (cond_list p') = map (\<lambda>c. c\<lparr>cur_state := 0\<rparr>) (cond_list p)
      \<and> map node_rule (av_entries (te_cond_avtab p')) = map node_rule (av_entries (te_cond_avtab p))
      \<and> returns (sepol_bool_query p' key) (Inr (Some \<lparr>sb_name = Some key, sb_value = sb_value data\<rparr>))"
proof (cases "hashtab_abs (table (p_bools p)) key = None \<or> sb_value data \<notin> {0, 1}")
  case True
  have h: "hashtab_ok (table (p_bools p))" using assms(1) by (simp add: bools_ok_def)
  have "\<exists>b. sepol_bool_set p key data a = (Inl STATUS_ERR, b)" for a
    using True malloc_cases [of a]
    by (auto simp: sepol_bool_set_def bool_update_def strdup_def hashtab_search_abs [OF h] bindE_def failE_def returnE_def throwE_def liftE_def
      split: option.split)
  then show ?thesis using True by simp
next
  case False
  then obtain d where d: "hashtab_abs (table (p_bools p)) key = Some d" "sb_value data = 0 \<or> sb_value data = 1" by auto
  from bool_update_run [OF assms(1) d] obtain p1 where p1: "returns (bool_update p key data) (Inr p1)" "bools_ok p1"
    "hashtab_abs (table (p_bools p1)) = (hashtab_abs (table (p_bools p)))(key \<mapsto> d\<lparr>cbd_state := sb_value data\<rparr>)"
    "\<And>w. val_deref (bool_val_to_struct p1) w = (if w = cbd_value d then Inr (d\<lparr>cbd_state := sb_value data\<rparr>) else val_deref (bool_val_to_struct p) w)"
    "p1 = p\<lparr>p_bools := p_bools p1, bool_val_to_struct := bool_val_to_struct p1\<rparr>" by blast
  have same: "cond_list p1 = cond_list p" "te_cond_avtab p1 = te_cond_avtab p" by (subst p1(5), simp)+
  have def: "bool_defined (bool_val_to_struct p1) v" if "bool_defined (bool_val_to_struct p) v" for v
    using that d(2) by (simp add: bool_defined_def p1(4) bool_isvalid_def)
  have "\<forall>c \<in> set (cond_list p1). expr_defined (bool_val_to_struct p1) (cn_cond_expr c)" using assms(2) def by (auto simp: same expr_defined_def)
  from evaluate_conds_correct [OF this] assms(3,4) obtain p' where p': "evaluate_conds p1 = Inr p'"
    "map (\<lambda>c. c\<lparr>cur_state := 0\<rparr>) (cond_list p') = map (\<lambda>c. c\<lparr>cur_state := 0\<rparr>) (cond_list p1)"
    "\<forall>c \<in> set (cond_list p'). in_sync c (te_cond_avtab p') \<and> cond_evaluate_expr p1 (cn_cond_expr c) = Inr (cur_state c)"
    "map node_rule (av_entries (te_cond_avtab p')) = map node_rule (av_entries (te_cond_avtab p1))"
    "p' = p1\<lparr>cond_list := cond_list p', te_cond_avtab := te_cond_avtab p'\<rparr>" by (auto simp: same)
  have eq: "bool_val_to_struct p' = bool_val_to_struct p1" "p_bools p' = p_bools p1" "p_bool_val_to_name p' = p_bool_val_to_name p1"
    by (subst p'(5), simp)+
  have run: "returns (sepol_bool_set p key data) (Inr p')" unfolding sepol_bool_set_def
    by (rule returns_bindE_Inr [OF returns_failE_Inr [OF p1(1)]]) (simp_all add: p'(1))
  have ok: "bools_ok p'" using p1(2) by (simp add: bools_ok_def eq)
  have state: "state_of (bool_val_to_struct p') v = (if v = cbd_value d then sb_value data = 1 else state_of (bool_val_to_struct p) v)" for v
    using d(2) by (auto simp: eq state_of_def p1(4))
  have "hashtab_abs (table (p_bools p')) key = Some (d\<lparr>cbd_state := sb_value data\<rparr>)" by (simp add: eq p1(3))
  from bool_to_record_run [OF ok this] have q: "returns (sepol_bool_query p' key) (Inr (Some \<lparr>sb_name = Some key, sb_value = sb_value data\<rparr>))" by simp
  have ev: "cond_evaluate_expr p' = cond_evaluate_expr p1" by (rule cond_evaluate_expr_cong [OF eq(1)])
  have abs: "hashtab_abs (table (p_bools p')) = (hashtab_abs (table (p_bools p)))(key \<mapsto> d\<lparr>cbd_state := sb_value data\<rparr>)" by (simp add: eq p1(3))
  have sync: "\<forall>c \<in> set (cond_list p'). in_sync c (te_cond_avtab p') \<and> cond_evaluate_expr p' (cn_cond_expr c) = Inr (cur_state c)" using p'(3) by (simp add: ev)
  show ?thesis unfolding if_not_P [OF False]
    using d(1) run ok abs state sync p'(2) [unfolded same] p'(4) [unfolded same] q by blast
qed

text \<open>Claim C21. Loading a port record whose protocol is UDP or TCP, whose range is not empty after its bounds were cut to 16 bits, and whose context
  denotes \<open>c\<close> succeeds without allocation failures and changes only the list of ports. From then on the SID of every port of this protocol in
  the range names the context \<open>c\<close>, and all other ports keep their labels.\<close>

theorem port_modify_labels:
  assumes "context_from_record p (sp_con data) [] = (Inr c, [])" "sp_proto data \<in> {0, 1}" "spk_proto key \<in> {0, 1}"
    "(word_of_int (sp_low data) :: u16) \<le> word_of_int (sp_high data)" "context_ok c"
  shows "\<exists>p'. sepol_port_modify p key data [] = (Inr p', []) \<and> p' = p\<lparr>oc_port := oc_port p'\<rparr>
    \<and> sepol_port_exists p' \<lparr>spk_low = sp_low data mod 2 ^ 16, spk_high = sp_high data mod 2 ^ 16, spk_proto = sp_proto data\<rparr> = Inr True
    \<and> (\<forall>sv proto po a sv' sid b. sidtab_ok (sv_sidtab sv) \<and> (\<forall>d \<in> set (oc_port p). ocon_ok (sv_sidtab sv) d) \<and> sv_policydb sv = p'
        \<and> sepol_port_sid sv proto po a = (Inr (sv', Inr sid), b) \<longrightarrow>
        (if proto = word_of_int (sepol2ipproto (sp_proto data)) \<and> word_of_int (sp_low data) \<le> po \<and> po \<le> word_of_int (sp_high data)
         then sepol_sidtab_search (sv_sidtab sv') sid = Inr (Some c)
         else case find (port_matches proto po) (oc_port p) of
             Some d \<Rightarrow> sepol_sidtab_search (sv_sidtab sv') sid = Inr (Some (fst (oc_context d)))
           | None \<Rightarrow> sid = SECINITSID_PORT))"
proof -
  let ?e = "port_entry data c" let ?p = "p\<lparr>oc_port := ?e # oc_port p\<rparr>"
  have pr: "uint (word_of_int (sepol2ipproto (sp_proto data)) :: u8) = sepol2ipproto (sp_proto data)" "\<not> sepol2ipproto (sp_proto data) < 0"
    using assms(2) by (auto simp: sepol2ipproto_def)
  have ex: "sepol_port_exists ?p \<lparr>spk_low = sp_low data mod 2 ^ 16, spk_high = sp_high data mod 2 ^ 16, spk_proto = sp_proto data\<rparr> = Inr True"
    using pr by (simp add: sepol_port_exists_def sepol_port_key_unpack_def port_is_def port_key_def port_entry_def Let_def unsigned_of_int take_bit_eq_mod)
  have lab: "if proto = word_of_int (sepol2ipproto (sp_proto data)) \<and> word_of_int (sp_low data) \<le> po \<and> po \<le> word_of_int (sp_high data)
         then sepol_sidtab_search (sv_sidtab sv') sid = Inr (Some c)
         else case find (port_matches proto po) (oc_port p) of
             Some d \<Rightarrow> sepol_sidtab_search (sv_sidtab sv') sid = Inr (Some (fst (oc_context d)))
           | None \<Rightarrow> sid = SECINITSID_PORT"
    if sv: "sidtab_ok (sv_sidtab sv)" "\<forall>d \<in> set (oc_port p). ocon_ok (sv_sidtab sv) d" "sv_policydb sv = ?p"
      "sepol_port_sid sv proto po a = (Inr (sv', Inr sid), b)" for sv proto po a sv' sid b
  proof -
    have "\<forall>d \<in> set (oc_port (sv_policydb sv)). ocon_ok (sv_sidtab sv) d"
      using sv(2,3) assms(5) by (simp add: ocon_ok_def cached_def port_entry_def)
    note spec = port_sid_labels [OF sv(1) this sv(4), THEN conjunct1, unfolded sv(3)]
    show ?thesis using spec by (auto simp: port_matches_def port_entry_def split: option.splits)
  qed
  show ?thesis
  proof (intro exI conjI)
    show "sepol_port_modify p key data [] = (Inr ?p, [])" by (rule port_modify_run [OF assms(1-4)])
    show "?p = p\<lparr>oc_port := oc_port ?p\<rparr>" by simp
  qed (use ex lab in blast)+
qed

section \<open>Witnesses\<close>

definition bools_db :: policydb where
  "bools_db = cond_db\<lparr>p_bools := symtab_of [(''a'', \<lparr>cbd_value = 1, cbd_state = 1\<rparr>), (''b'', \<lparr>cbd_value = 2, cbd_state = 0\<rparr>)] 2,
     p_bool_val_to_name := [Some ''a'', Some ''b'']\<rparr>"

lemma bools_db_table:
  "hashtab_ok (table (p_bools bools_db))"
  "hashtab_abs (table (p_bools bools_db)) = [''a'' \<mapsto> \<lparr>cbd_value = 1, cbd_state = 1\<rparr>, ''b'' \<mapsto> \<lparr>cbd_value = 2, cbd_state = 0\<rparr>]"
proof -
  have c: "chain_sorted (\<lambda>a b. symcmp a b > 0) [(''a'', \<lparr>cbd_value = 1, cbd_state = 1\<rparr>), (''b'', \<lparr>cbd_value = 2, cbd_state = 0\<rparr>)]"
    by code_simp
  show "hashtab_ok (table (p_bools bools_db))" using symtab_of_ok(1) [OF c] by (simp add: bools_db_def)
  show "hashtab_abs (table (p_bools bools_db)) = [''a'' \<mapsto> \<lparr>cbd_value = 1, cbd_state = 1\<rparr>, ''b'' \<mapsto> \<lparr>cbd_value = 2, cbd_state = 0\<rparr>]"
    using symtab_of_ok(2) [OF c] by (auto simp: bools_db_def fun_eq_iff)
qed

lemma bools_db_ok: "bools_ok bools_db"
proof -
  have "p_bool_val_to_name bools_db = [Some ''a'', Some ''b'']"
    "bool_val_to_struct bools_db = [Some \<lparr>cbd_value = 1, cbd_state = 1\<rparr>, Some \<lparr>cbd_value = 2, cbd_state = 0\<rparr>]"
    by (simp_all add: bools_db_def cond_db_simps)
  then show ?thesis using bools_db_table by (auto simp: bools_ok_def split: if_splits)
qed

lemma bools_db_conds:
  "\<forall>c \<in> set (cond_list bools_db). expr_defined (bool_val_to_struct bools_db) (cn_cond_expr c)"
  "\<forall>c \<in> set (cond_list bools_db). in_sync c (te_cond_avtab bools_db)" "cond_lists_ok (cond_list bools_db)"
  using cond_db_defined
  by (simp_all add: bools_db_def cond_db_simps expr_defined_def cond_node_of_def cond_expr_a_def in_sync_def node_in_sync_def av_tab_a_entries
      node_enabled_def av_key_a_def cond_lists_ok_def empty_cond_node_def)

theorem bool_set_switches_witness:
  "\<exists>p'. returns (sepol_bool_set bools_db ''b'' \<lparr>sb_name = None, sb_value = 1\<rparr>) (Inr p') \<and> state_of (bool_val_to_struct p') 2
     \<and> (\<forall>c \<in> set (cond_list p'). in_sync c (te_cond_avtab p'))"
proof -
  have "hashtab_abs (table (p_bools bools_db)) ''b'' = Some \<lparr>cbd_value = 2, cbd_state = 0\<rparr>" by (simp add: bools_db_table)
  then show ?thesis using bool_set_switches [OF bools_db_ok bools_db_conds, of "''b''" "\<lparr>sb_name = None, sb_value = 1\<rparr>"] by auto
qed

definition port_record :: sepol_port where
  "port_record = \<lparr>sp_low = 8000, sp_high = 8080, sp_proto = 1,
     sp_con = Some \<lparr>con_user = Some ''user_u'', con_role = Some ''sys_r'', con_type = Some ''shell_t'', con_mls = None\<rparr>\<rparr>"

theorem port_modify_labels_witness:
  "\<exists>p'. sepol_port_modify plain_db \<lparr>spk_low = 8000, spk_high = 8080, spk_proto = 1\<rparr> port_record [] = (Inr p', [])
     \<and> sepol_port_exists p' \<lparr>spk_low = 8000, spk_high = 8080, spk_proto = 1\<rparr> = Inr True"
proof -
  have c: "context_from_record plain_db (sp_con port_record) [] = (Inr plain_context, [])" by code_simp
  have "context_ok plain_context" by (simp add: plain_context_def context_ok_def range_ok_def level_ok_def mls_range_init_def mls_level_init_def)
  from port_modify_labels [OF c _ _ _ this, of "\<lparr>spk_low = 8000, spk_high = 8080, spk_proto = 1\<rparr>"] show ?thesis by (auto simp: port_record_def)
qed

end
