(* ===== verification/User_Records.thy ===== *)
theory User_Records
  imports Policy_Records
begin

text \<open>
  SELinux users in the record interface of libsepol (users.c, user_record.c). \<open>sepol_user_modify\<close> changes the structure of a user in
  place, so that an error leaves it half filled: the operation returns the policy beside its result. Adding a user extends the tables of
  names and structures; changing one does not compute the cache of its roles, which the validity of contexts is decided by.
\<close>

section \<open>Records\<close>

record sepol_user =
  su_name :: "string option"
  su_mls_level :: "string option"
  su_mls_range :: "string option"
  su_roles :: "string list"

type_synonym sepol_user_key = string

definition sepol_user_key_create :: "string \<Rightarrow> sepol_user_key alloc_m" where
  "sepol_user_key_create nm = bindE (failE malloc STATUS_ERR) (\<lambda>_. returnE nm)"

definition sepol_user_compare :: "sepol_user \<Rightarrow> sepol_user_key \<Rightarrow> int res" where
  "sepol_user_compare u key = bindR (deref (su_name u)) (\<lambda>nm. Inr (strcmp nm key))"

definition sepol_user_compare2 :: "sepol_user \<Rightarrow> sepol_user \<Rightarrow> int res" where
  "sepol_user_compare2 u u2 = bindR (deref (su_name u)) (\<lambda>nm. bindR (deref (su_name u2)) (\<lambda>nm2. Inr (strcmp nm nm2)))"

definition sepol_user_set_name :: "sepol_user \<Rightarrow> string option \<Rightarrow> sepol_user alloc_m" where
  "sepol_user_set_name u nm = bindE (dup_field nm) (\<lambda>tmp_name. returnE (u\<lparr>su_name := Some tmp_name\<rparr>))"

definition sepol_user_set_mlslevel :: "sepol_user \<Rightarrow> string \<Rightarrow> sepol_user alloc_m" where
  "sepol_user_set_mlslevel u l = bindE (failE (strdup l) STATUS_ERR) (\<lambda>tmp. returnE (u\<lparr>su_mls_level := Some tmp\<rparr>))"

definition sepol_user_set_mlsrange :: "sepol_user \<Rightarrow> string \<Rightarrow> sepol_user alloc_m" where
  "sepol_user_set_mlsrange u r = bindE (failE (strdup r) STATUS_ERR) (\<lambda>tmp. returnE (u\<lparr>su_mls_range := Some tmp\<rparr>))"

definition sepol_user_has_role :: "sepol_user \<Rightarrow> string \<Rightarrow> bool" where
  "sepol_user_has_role u role = list_ex (\<lambda>r. strcmp r role = 0) (su_roles u)"

text \<open>Both allocations are tried. When only the copy of the name failed, the new array is freed and the user keeps the pointer to it, or to
  the old array that \<open>realloc\<close> has released: freeing the user is then undefined.\<close>

definition sepol_user_add_role :: "sepol_user \<Rightarrow> string \<Rightarrow> sepol_user alloc_m" where
  "sepol_user_add_role u role = (if sepol_user_has_role u role then returnE u
     else bindE (tryE (strdup role)) (\<lambda>role_cp. bindE (tryE malloc) (\<lambda>roles_realloc. case (role_cp, roles_realloc) of
       (Inr r, Inr _) \<Rightarrow> returnE (u\<lparr>su_roles := su_roles u @ [r]\<rparr>)
     | (Inl _, Inr _) \<Rightarrow> if su_roles u = [] then throwE STATUS_ERR else throwE Fault
     | _ \<Rightarrow> throwE STATUS_ERR)))"

definition sepol_user_set_roles :: "sepol_user \<Rightarrow> string list \<Rightarrow> sepol_user alloc_m" where
  "sepol_user_set_roles u roles = failE (if roles = [] then returnE (u\<lparr>su_roles := []\<rparr>)
     else bindE malloc (\<lambda>_. bindE (foldE (\<lambda>r rs. bindE (strdup r) (\<lambda>r'. returnE (rs @ [r']))) roles []) (\<lambda>tmp_roles.
       returnE (u\<lparr>su_roles := tmp_roles\<rparr>)))) STATUS_ERR"

definition sepol_user_get_roles :: "sepol_user \<Rightarrow> string list alloc_m" where
  "sepol_user_get_roles u = bindE (failE malloc STATUS_ERR) (\<lambda>_. returnE (su_roles u))"

text \<open>The last role takes the place of a deleted one and is not looked at there.\<close>

function del_loop :: "string \<Rightarrow> nat \<Rightarrow> string list \<Rightarrow> string list" where
  "del_loop role i roles = (if i < length roles then
     if strcmp (roles ! i) role = 0 then del_loop role (i + 1) (butlast (roles[i := last roles])) else del_loop role (i + 1) roles
   else roles)"
  by auto
termination
  by (relation "measure (\<lambda>(role, i, roles). length roles - i)") auto

declare del_loop.simps [simp del]

definition sepol_user_del_role :: "sepol_user \<Rightarrow> string \<Rightarrow> sepol_user" where
  "sepol_user_del_role u role = u\<lparr>su_roles := del_loop role 0 (su_roles u)\<rparr>"

definition sepol_user_create :: "sepol_user alloc_m" where
  "sepol_user_create = bindE (failE malloc STATUS_ERR) (\<lambda>_. returnE \<lparr>su_name = None, su_mls_level = None, su_mls_range = None, su_roles = []\<rparr>)"

definition sepol_user_clone :: "sepol_user \<Rightarrow> sepol_user alloc_m" where
  "sepol_user_clone u = failE (bindE sepol_user_create (\<lambda>n. bindE (sepol_user_set_name n (su_name u)) (\<lambda>n1.
     bindE (foldE (\<lambda>r n. sepol_user_add_role n r) (su_roles u) n1) (\<lambda>n2.
     bindE (case su_mls_level u of None \<Rightarrow> returnE n2 | Some l \<Rightarrow> sepol_user_set_mlslevel n2 l) (\<lambda>n3.
       case su_mls_range u of None \<Rightarrow> returnE n3 | Some r \<Rightarrow> sepol_user_set_mlsrange n3 r))))) STATUS_ERR"

section \<open>From the policy to a record\<close>

definition user_mls_text :: "policydb \<Rightarrow> user_datum \<Rightarrow> sepol_user \<Rightarrow> sepol_user alloc_m" where
  "user_mls_text p d r = bindE (mls_level_cpy (ud_exp_dfltlevel d)) (\<lambda>l0. bindE (mls_level_cpy (ud_exp_dfltlevel d)) (\<lambda>l1.
     bindE (mls_to_string p (context_init\<lparr>c_range := \<lparr>low = l0, high = l1\<rparr>\<rparr>)) (\<lambda>str. bindE (sepol_user_set_mlslevel r str) (\<lambda>r1.
     bindE (mls_range_cpy (ud_exp_range d)) (\<lambda>rg. bindE (mls_to_string p (context_init\<lparr>c_range := rg\<rparr>)) (\<lambda>str.
       sepol_user_set_mlsrange r1 str))))))"

definition user_to_record :: "policydb \<Rightarrow> u32 \<Rightarrow> sepol_user alloc_m" where
  "user_to_record p user_idx = failE (bindE (liftE (array_get (p_user_val_to_name p) (unat user_idx))) (\<lambda>nm.
     bindE (liftE (bindR (array_get (user_val_to_struct p) (unat user_idx)) deref)) (\<lambda>usrdatum.
     bindE sepol_user_create (\<lambda>r. bindE (sepol_user_set_name r nm) (\<lambda>r1.
     bindE (bindE (liftE (ebitmap_positive_bits (rs_roles (ud_roles usrdatum)))) (\<lambda>bs.
       foldE (\<lambda>b r. bindE (liftE (bindR (array_get (p_role_val_to_name p) (unat b)) deref)) (\<lambda>role. sepol_user_add_role r role)) bs r1)) (\<lambda>r2.
       if p_mls p then user_mls_text p usrdatum r2 else returnE r2)))))) STATUS_ERR"

section \<open>Changing a user\<close>

definition user_datum_init :: user_datum where
  "user_datum_init = \<lparr>ud_value = 0, ud_roles = \<lparr>rs_roles = ebitmap_init, rs_flags = 0\<rparr>, ud_cache = ebitmap_init, ud_exp_range = mls_range_init,
     ud_exp_dfltlevel = mls_level_init, ud_bounds = 0\<rparr>"

text \<open>Filling the structure: the flag is false behind the exits for errors, which leave what has been filled in.\<close>

fun add_dominated :: "u32 list \<Rightarrow> user_datum \<Rightarrow> (user_datum \<times> bool) alloc_m" where
  "add_dominated [] d = returnE (d, True)"
| "add_dominated (b # bs) d = bindE (tryE (ebitmap_set_bit (rs_roles (ud_roles d)) b True)) (\<lambda>r. case r of
     Inl e \<Rightarrow> if err_code e then returnE (d, False) else throwE e
   | Inr e \<Rightarrow> add_dominated bs (d\<lparr>ud_roles := (ud_roles d)\<lparr>rs_roles := e\<rparr>\<rparr>))"

fun add_roles :: "policydb \<Rightarrow> string list \<Rightarrow> user_datum \<Rightarrow> (user_datum \<times> bool) alloc_m" where
  "add_roles p [] d = returnE (d, True)"
| "add_roles p (role # roles) d = bindE (liftE (hashtab_search (table (p_roles p)) role)) (\<lambda>r. case r of
     None \<Rightarrow> returnE (d, False)
   | Some roldatum \<Rightarrow> bindE (liftE (ebitmap_positive_bits (rd_dominates roldatum))) (\<lambda>bs.
       bindE (add_dominated bs d) (\<lambda>(d1, ok). if ok then add_roles p roles d1 else returnE (d1, False))))"

text \<open>A text of a level or a range, copied into the structure by \<open>put\<close>.\<close>

definition user_range :: "policydb \<Rightarrow> string option \<Rightarrow> (mls_range \<Rightarrow> user_datum \<Rightarrow> (user_datum \<times> bool) alloc_m) \<Rightarrow> user_datum \<Rightarrow> (user_datum \<times> bool) alloc_m" where
  "user_range p str put d = (case str of
     None \<Rightarrow> returnE (d, False)
   | Some s \<Rightarrow> bindE (tryE (mls_from_string p s context_init)) (\<lambda>r. case r of
       Inl e \<Rightarrow> if err_code e then returnE (d, False) else throwE e
     | Inr c \<Rightarrow> put (c_range c) d))"

definition put_level :: "mls_range \<Rightarrow> user_datum \<Rightarrow> (user_datum \<times> bool) alloc_m" where
  "put_level r d = bindE (level_cpy_unchecked (low r)) (\<lambda>(l, ok). returnE (d\<lparr>ud_exp_dfltlevel := l\<rparr>, ok))"

definition put_range :: "mls_range \<Rightarrow> user_datum \<Rightarrow> (user_datum \<times> bool) alloc_m" where
  "put_range r d = bindE (range_cpy_unchecked r) (\<lambda>(rg, ok). returnE (d\<lparr>ud_exp_range := rg\<rparr>, ok))"

definition fill_user :: "policydb \<Rightarrow> sepol_user \<Rightarrow> string list \<Rightarrow> user_datum \<Rightarrow> (user_datum \<times> bool) alloc_m" where
  "fill_user p user roles d = bindE (add_roles p roles d) (\<lambda>(d1, ok).
     if \<not> ok then returnE (d1, False)
     else if p_mls p then bindE (user_range p (su_mls_level user) put_level d1) (\<lambda>(d2, ok).
       if ok then user_range p (su_mls_range user) put_range d2 else returnE (d2, False))
     else returnE (d1, su_mls_level user = None \<and> su_mls_range user = None))"

text \<open>\<open>realloc\<close> of a table to one more entry than there are users; the new entry is not initialised.\<close>

definition grow :: "u32 \<Rightarrow> 'a option list \<Rightarrow> 'a option list" where
  "grow n t = take (unat (n + 1)) (t @ replicate (unat (n + 1) - length t) None)"

text \<open>The datum is freed when its roles cannot be expanded, although the tables hold it: a later use is undefined.\<close>

definition new_user :: "policydb \<Rightarrow> sepol_user_key \<Rightarrow> user_datum \<Rightarrow> (policydb \<times> unit res) alloc_m" where
  "new_user p cname d = (let n = nprim (p_users p) in
     bindE (tryE malloc) (\<lambda>r0. if r0 \<noteq> Inr () then returnE (p, Inl STATUS_ERR) else
     let p1 = p\<lparr>user_val_to_struct := grow n (user_val_to_struct p)\<rparr> in
     bindE (tryE malloc) (\<lambda>r1. if r1 \<noteq> Inr () then returnE (p1, Inl STATUS_ERR) else
     let p2 = p1\<lparr>p_user_val_to_name := grow n (p_user_val_to_name p1)\<rparr> in
     bindE (tryE (strdup cname)) (\<lambda>r2. if r2 = Inl ENOMEM then returnE (p2, Inl STATUS_ERR) else
     let v = n + 1; d1 = d\<lparr>ud_value := v\<rparr>; p3 = p2\<lparr>p_users := (p_users p2)\<lparr>nprim := v\<rparr>\<rparr> in
     bindE (tryE (hashtab_insert (table (p_users p3)) cname d1)) (\<lambda>r3. case r3 of
       Inl e \<Rightarrow> if err_code e then returnE (p3, Inl STATUS_ERR) else throwE e
     | Inr t \<Rightarrow>
         bindE (liftE (val_set (p_user_val_to_name p3) v cname)) (\<lambda>names. bindE (liftE (val_set (user_val_to_struct p3) v d1)) (\<lambda>structs.
         let p4 = p3\<lparr>p_users := (p_users p3)\<lparr>table := t\<rparr>, p_user_val_to_name := names, user_val_to_struct := structs\<rparr> in
         bindE (tryE (role_set_expand (ud_roles d1) p4 None)) (\<lambda>r4. case r4 of
           Inl _ \<Rightarrow> throwE Fault
         | Inr (cache, p5) \<Rightarrow>
             let d2 = d1\<lparr>ud_cache := cache\<rparr> in
             returnE (p5\<lparr>p_users := (p_users p5)\<lparr>table := hashtab_store (table (p_users p5)) cname d2\<rparr>,
               user_val_to_struct := struct_store (p_user_val_to_name p5) (user_val_to_struct p5) (ud_value d2) cname d2\<rparr>, Inr ())))))))))"

definition sepol_user_modify :: "policydb \<Rightarrow> sepol_user_key \<Rightarrow> sepol_user \<Rightarrow> (policydb \<times> unit res) alloc_m" where
  "sepol_user_modify p cname user = bindE (tryE (sepol_user_get_roles user)) (\<lambda>rr. case rr of
     Inl _ \<Rightarrow> returnE (p, Inl STATUS_ERR)
   | Inr roles \<Rightarrow> bindE (liftE (hashtab_search (table (p_users p)) cname)) (\<lambda>r. case r of
       Some usrdatum \<Rightarrow> bindE (fill_user p user roles (user_datum_init\<lparr>ud_value := ud_value usrdatum\<rparr>)) (\<lambda>(d, ok).
         returnE (p\<lparr>p_users := (p_users p)\<lparr>table := hashtab_store (table (p_users p)) cname d\<rparr>,
           user_val_to_struct := struct_store (p_user_val_to_name p) (user_val_to_struct p) (ud_value d) cname d\<rparr>,
           if ok then Inr () else Inl STATUS_ERR))
     | None \<Rightarrow> bindE (tryE malloc) (\<lambda>m. if m \<noteq> Inr () then returnE (p, Inl STATUS_ERR)
         else bindE (fill_user p user roles user_datum_init) (\<lambda>(d, ok). if ok then new_user p cname d else returnE (p, Inl STATUS_ERR)))))"

definition sepol_user_exists :: "policydb \<Rightarrow> sepol_user_key \<Rightarrow> bool res" where
  "sepol_user_exists p cname = bindR (hashtab_search (table (p_users p)) cname) (\<lambda>r. Inr (r \<noteq> None))"

definition sepol_user_count :: "policydb \<Rightarrow> u32" where
  "sepol_user_count p = nprim (p_users p)"

definition sepol_user_query :: "policydb \<Rightarrow> sepol_user_key \<Rightarrow> sepol_user option alloc_m" where
  "sepol_user_query p cname = bindE (liftE (hashtab_search (table (p_users p)) cname)) (\<lambda>r. case r of
     None \<Rightarrow> returnE None
   | Some usrdatum \<Rightarrow> bindE (failE (user_to_record p (ud_value usrdatum - 1)) STATUS_ERR) (\<lambda>r. returnE (Some r)))"

definition sepol_user_iterate :: "policydb \<Rightarrow> (sepol_user \<Rightarrow> 's \<Rightarrow> int \<times> 's) \<Rightarrow> 's \<Rightarrow> ('s \<times> bool) alloc_m" where
  "sepol_user_iterate p fn arg = iterate_entries (user_to_record p) fn (map of_nat [0..<unat (nprim (p_users p))]) arg"

section \<open>What filling a structure does\<close>

text \<open>The roles that the roles of a record dominate.\<close>

definition dominated :: "policydb \<Rightarrow> string set \<Rightarrow> nat set" where
  "dominated p R = (\<Union>role \<in> R. case hashtab_abs (table (p_roles p)) role of Some d \<Rightarrow> ebitmap_bits (rd_dominates d) | None \<Rightarrow> {})"

definition roles_dom_ok :: "policydb \<Rightarrow> bool" where
  "roles_dom_ok p \<longleftrightarrow> hashtab_ok (table (p_roles p)) \<and> (\<forall>k d. hashtab_abs (table (p_roles p)) k = Some d \<longrightarrow> ebitmap_ok (rd_dominates d))"

text \<open>A structure that differs from another one in the set of its roles.\<close>

definition with_roles :: "user_datum \<Rightarrow> ebitmap \<Rightarrow> user_datum" where
  "with_roles d e = d\<lparr>ud_roles := (ud_roles d)\<lparr>rs_roles := e\<rparr>\<rparr>"

lemma with_roles_simps [simp]:
  "rs_roles (ud_roles (with_roles d e)) = e" "with_roles (with_roles d e) e' = with_roles d e'" "ud_cache (with_roles d e) = ud_cache d"
  "ud_value (with_roles d e) = ud_value d" "rs_flags (ud_roles (with_roles d e)) = rs_flags (ud_roles d)" "with_roles d (rs_roles (ud_roles d)) = d"
  by (simp_all add: with_roles_def)

lemma add_dominated_spec:
  assumes "add_dominated bs d a = (Inr (d', ok), b)" "ebitmap_ok (rs_roles (ud_roles d))"
  shows "\<exists>e. d' = with_roles d e \<and> ebitmap_ok e \<and> (ok \<longrightarrow> ebitmap_bits e = ebitmap_bits (rs_roles (ud_roles d)) \<union> unat ` set bs)"
  using assms
proof (induction bs arbitrary: d a)
  case Nil
  then show ?case by (intro exI [of _ "rs_roles (ud_roles d)"]) (simp add: returnE_def)
next
  case (Cons i bs)
  obtain r a1 where r: "ebitmap_set_bit (rs_roles (ud_roles d)) i True a = (r, a1)" by fastforce
  show ?case
  proof (cases r)
    case (Inl e)
    then have "d' = d" "\<not> ok" using Cons.prems(1) r by (auto simp: bindE_def tryE_def returnE_def throwE_def split: if_splits)
    then show ?thesis using Cons.prems(2) by (intro exI [of _ "rs_roles (ud_roles d)"]) simp
  next
    case (Inr e)
    then have "bit_settable i" using r ebitmap_set_bit_einval [of i "rs_roles (ud_roles d)" True a] by (cases "bit_settable i") auto
    from ebitmap_set_bit_spec [OF Cons.prems(2) this, of True] obtain e' where
      e': "yields (ebitmap_set_bit (rs_roles (ud_roles d)) i True) (Inr e')" "ebitmap_ok e'" "ebitmap_bits e' = insert (unat i) (ebitmap_bits (rs_roles (ud_roles d)))"
      by auto
    have "e' = e" using yields_Inr [OF e'(1), of a e a1] r Inr by simp
    then have e: "ebitmap_ok e" "ebitmap_bits e = ebitmap_bits (rs_roles (ud_roles d)) \<union> {unat i}" using e'(2,3) by auto
    have "add_dominated bs (with_roles d e) a1 = (Inr (d', ok), b)" using Cons.prems(1) r Inr by (simp add: bindE_def tryE_def with_roles_def)
    from Cons.IH [OF this] e show ?thesis by auto
  qed
qed

lemma add_roles_spec:
  assumes "add_roles p roles d a = (Inr (d', ok), b)" "ebitmap_ok (rs_roles (ud_roles d))" "roles_dom_ok p"
  shows "\<exists>e. d' = with_roles d e \<and> ebitmap_ok e \<and> (ok \<longrightarrow> ebitmap_bits e = ebitmap_bits (rs_roles (ud_roles d)) \<union> dominated p (set roles))"
  using assms(1,2)
proof (induction roles arbitrary: d a)
  case Nil
  then show ?case by (intro exI [of _ "rs_roles (ud_roles d)"]) (simp add: returnE_def dominated_def)
next
  case (Cons role roles)
  have h: "hashtab_ok (table (p_roles p))" using assms(3) by (simp add: roles_dom_ok_def)
  show ?case
  proof (cases "hashtab_abs (table (p_roles p)) role")
    case None
    then have "d' = d" "\<not> ok" using Cons.prems(1) by (auto simp: hashtab_search_abs [OF h] returnE_def)
    then show ?thesis using Cons.prems(2) by (intro exI [of _ "rs_roles (ud_roles d)"]) simp
  next
    case (Some rd)
    then have "ebitmap_ok (rd_dominates rd)" using assms(3) by (simp add: roles_dom_ok_def)
    from ebitmap_positive_bits_eq [OF this] obtain bs where bs: "ebitmap_positive_bits (rd_dominates rd) = Inr bs" "unat ` set bs = ebitmap_bits (rd_dominates rd)" by blast
    obtain d1 ok1 a1 where d1: "add_dominated bs d a = (Inr (d1, ok1), a1)"
      "(if ok1 then add_roles p roles d1 else returnE (d1, False)) a1 = (Inr (d', ok), b)"
      using Cons.prems(1) Some bs(1) by (auto simp: hashtab_search_abs [OF h] bindE_eq_Inr)
    from add_dominated_spec [OF d1(1) Cons.prems(2)] obtain e where e: "d1 = with_roles d e" "ebitmap_ok e"
      "ok1 \<longrightarrow> ebitmap_bits e = ebitmap_bits (rs_roles (ud_roles d)) \<union> ebitmap_bits (rd_dominates rd)" by (auto simp: bs(2))
    show ?thesis
    proof (cases ok1)
      case True
      then have run: "add_roles p roles d1 a1 = (Inr (d', ok), b)" using d1(2) by simp
      have "dominated p (set (role # roles)) = ebitmap_bits (rd_dominates rd) \<union> dominated p (set roles)" using Some by (simp add: dominated_def)
      then show ?thesis using Cons.IH [OF run] e True by auto
    next
      case False
      then show ?thesis using d1(2) e by (auto simp: returnE_def)
    qed
  qed
qed

text \<open>What filling leaves alone.\<close>

definition same_user :: "user_datum \<Rightarrow> user_datum \<Rightarrow> bool" where
  "same_user d d' \<longleftrightarrow> ud_value d' = ud_value d \<and> ud_cache d' = ud_cache d \<and> ud_roles d' = ud_roles d"

lemma user_range_same:
  assumes "user_range p str put d a = (Inr (d', ok), b)" "\<And>r d a d' ok b. put r d a = (Inr (d', ok), b) \<Longrightarrow> same_user d d'"
  shows "same_user d d'"
proof (cases str)
  case None
  then show ?thesis using assms(1) by (simp add: user_range_def returnE_def same_user_def)
next
  case (Some s)
  obtain r a1 where r: "mls_from_string p s context_init a = (r, a1)" by fastforce
  then show ?thesis using assms(1) assms(2) Some
    by (cases r) (auto simp: user_range_def bindE_def tryE_def returnE_def throwE_def same_user_def split: if_splits)
qed

lemma put_same:
  "put_level r d a = (Inr (d', ok), b) \<Longrightarrow> same_user d d'" "put_range r d a = (Inr (d', ok), b) \<Longrightarrow> same_user d d'"
  by (auto simp: put_level_def put_range_def bindE_eq_Inr returnE_def same_user_def)

lemma fill_user_spec:
  assumes "fill_user p user roles d a = (Inr (d', ok), b)" "ebitmap_ok (rs_roles (ud_roles d))" "roles_dom_ok p"
  shows "ud_value d' = ud_value d \<and> ud_cache d' = ud_cache d \<and> ebitmap_ok (rs_roles (ud_roles d')) \<and> rs_flags (ud_roles d') = rs_flags (ud_roles d)
    \<and> (ok \<longrightarrow> ebitmap_bits (rs_roles (ud_roles d')) = ebitmap_bits (rs_roles (ud_roles d)) \<union> dominated p (set roles))"
proof -
  obtain d1 ok1 a1 where d1: "add_roles p roles d a = (Inr (d1, ok1), a1)"
    and rest: "(if \<not> ok1 then returnE (d1, False) else if p_mls p then bindE (user_range p (su_mls_level user) put_level d1) (\<lambda>(d2, ok).
       if ok then user_range p (su_mls_range user) put_range d2 else returnE (d2, False))
     else returnE (d1, su_mls_level user = None \<and> su_mls_range user = None)) a1 = (Inr (d', ok), b)"
    using assms(1) by (auto simp: fill_user_def bindE_eq_Inr)
  from add_roles_spec [OF d1 assms(2,3)] obtain e where e: "d1 = with_roles d e" "ebitmap_ok e"
    "ok1 \<longrightarrow> ebitmap_bits e = ebitmap_bits (rs_roles (ud_roles d)) \<union> dominated p (set roles)" by blast
  have "same_user d1 d' \<and> (ok \<longrightarrow> ok1)"
  proof (cases "ok1 \<and> p_mls p")
    case True
    then obtain d2 ok2 a2 where d2: "user_range p (su_mls_level user) put_level d1 a1 = (Inr (d2, ok2), a2)"
      "(if ok2 then user_range p (su_mls_range user) put_range d2 else returnE (d2, False)) a2 = (Inr (d', ok), b)"
      using rest by (auto simp: bindE_eq_Inr)
    have "same_user d1 d2" by (rule user_range_same [OF d2(1)]) (rule put_same)
    moreover have "same_user d2 d'"
    proof (cases ok2)
      case True
      then have "user_range p (su_mls_range user) put_range d2 a2 = (Inr (d', ok), b)" using d2(2) by simp
      then show ?thesis by (rule user_range_same) (rule put_same)
    qed (use d2(2) in \<open>simp add: returnE_def same_user_def\<close>)
    ultimately show ?thesis using True by (simp add: same_user_def)
  qed (use rest in \<open>auto simp: returnE_def same_user_def split: if_splits\<close>)
  then show ?thesis using e by (auto simp: same_user_def)
qed

section \<open>The tables of users\<close>

definition users_ok :: "policydb \<Rightarrow> bool" where
  "users_ok p \<longleftrightarrow> hashtab_ok (table (p_users p)) \<and> length (p_user_val_to_name p) = unat (nprim (p_users p))
     \<and> length (user_val_to_struct p) = unat (nprim (p_users p))
     \<and> (\<forall>k d. hashtab_abs (table (p_users p)) k = Some d \<longrightarrow> ud_value d \<noteq> 0 \<and> unat (ud_value d - 1) < unat (nprim (p_users p))
          \<and> p_user_val_to_name p ! unat (ud_value d - 1) = Some k \<and> user_val_to_struct p ! unat (ud_value d - 1) = Some d)"

text \<open>Writing through the pointer to the structure of a user.\<close>

definition user_stored :: "policydb \<Rightarrow> string \<Rightarrow> user_datum \<Rightarrow> policydb" where
  "user_stored p k d = p\<lparr>p_users := (p_users p)\<lparr>table := hashtab_store (table (p_users p)) k d\<rparr>,
     user_val_to_struct := struct_store (p_user_val_to_name p) (user_val_to_struct p) (ud_value d) k d\<rparr>"

lemma user_stored_ok:
  assumes "users_ok p" "hashtab_abs (table (p_users p)) k = Some d" "ud_value d' = ud_value d"
  shows "users_ok (user_stored p k d')" "hashtab_abs (table (p_users (user_stored p k d'))) = (hashtab_abs (table (p_users p)))(k \<mapsto> d')"
    "val_get (user_val_to_struct (user_stored p k d')) (ud_value d) = Inr (Some d')"
proof -
  note ok = assms(1) [unfolded users_ok_def]
  let ?i = "unat (ud_value d - 1)"
  have h: "hashtab_ok (table (p_users p))" using ok by blast
  have d: "ud_value d \<noteq> 0" "?i < length (p_user_val_to_name p)" "p_user_val_to_name p ! ?i = Some k" "?i < length (user_val_to_struct p)"
    using ok [THEN conjunct2, THEN conjunct2, THEN conjunct2, rule_format, OF assms(2)] ok by simp_all
  have str: "struct_store (p_user_val_to_name p) (user_val_to_struct p) (ud_value d') k d' = (user_val_to_struct p)[?i := Some d']"
    using d assms(3) by (simp add: struct_store_def Let_def)
  have abs: "hashtab_abs (hashtab_store (table (p_users p)) k d') = (hashtab_abs (table (p_users p)))(k \<mapsto> d')"
    using hashtab_store_spec(2) [OF h, of k d'] assms(2) by (auto simp: fun_eq_iff)
  then show "hashtab_abs (table (p_users (user_stored p k d'))) = (hashtab_abs (table (p_users p)))(k \<mapsto> d')" by (simp add: user_stored_def)
  show "val_get (user_val_to_struct (user_stored p k d')) (ud_value d) = Inr (Some d')" using d by (simp add: user_stored_def str val_get_def array_get_def)
  have "ud_value e \<noteq> 0 \<and> unat (ud_value e - 1) < unat (nprim (p_users p)) \<and> p_user_val_to_name p ! unat (ud_value e - 1) = Some x
      \<and> (user_val_to_struct p)[?i := Some d'] ! unat (ud_value e - 1) = Some e"
    if "((hashtab_abs (table (p_users p)))(k \<mapsto> d')) x = Some e" for x e
  proof (cases "x = k")
    case True
    then show ?thesis using that d assms(3) ok by auto
  next
    case False
    then have e: "hashtab_abs (table (p_users p)) x = Some e" using that by simp
    then have "p_user_val_to_name p ! unat (ud_value e - 1) = Some x" using ok by blast
    then have "unat (ud_value e - 1) \<noteq> ?i" using d(3) False by auto
    then show ?thesis using e ok by simp
  qed
  then show "users_ok (user_stored p k d')" using ok hashtab_store_spec(1) [OF h, of k d'] by (auto simp: users_ok_def user_stored_def abs str)
qed

section \<open>Properties\<close>

text \<open>Claim C22. Changing a user of the policy gives it the roles that the roles of the record dominate, but leaves the cache of its roles empty: when
  \<open>sepol_user_modify\<close> reports success, no context of this user with another role than the object role is valid any more.\<close>

theorem user_modify_drops_cache:
  assumes "users_ok p" "roles_dom_ok p" "hashtab_abs (table (p_users p)) key = Some d" "sepol_user_modify p key user a = (Inr (p', Inr ()), b)"
  shows "\<exists>d'. users_ok p' \<and> hashtab_abs (table (p_users p')) = (hashtab_abs (table (p_users p)))(key \<mapsto> d') \<and> ud_value d' = ud_value d
    \<and> ebitmap_bits (rs_roles (ud_roles d')) = dominated p (set (su_roles user))
    \<and> (\<forall>c. c_user c = ud_value d \<and> c_role c \<noteq> OBJECT_R_VAL \<longrightarrow> context_is_valid p' c \<noteq> Inr True)"
proof -
  have h: "hashtab_ok (table (p_users p))" using assms(1) by (simp add: users_ok_def)
  let ?d0 = "user_datum_init\<lparr>ud_value := ud_value d\<rparr>"
  obtain roles a1 where roles: "sepol_user_get_roles user a = (Inr roles, a1)" "roles = su_roles user"
    using assms(4) malloc_cases [of a] by (auto simp: sepol_user_modify_def sepol_user_get_roles_def bindE_def tryE_def failE_def returnE_def)
  then obtain d' where d': "fill_user p user roles ?d0 a1 = (Inr (d', True), b)" "p' = user_stored p key d'"
    using assms(3,4) by (auto simp: sepol_user_modify_def user_stored_def hashtab_search_abs [OF h] bindE_def tryE_def returnE_def split: prod.splits sum.splits if_splits)
  have "ebitmap_ok (rs_roles (ud_roles ?d0))" by (simp add: user_datum_init_def)
  note f = fill_user_spec [OF d'(1) this assms(2)]
  have v: "ud_value d' = ud_value d" "ud_cache d' = ebitmap_init" "ebitmap_bits (rs_roles (ud_roles d')) = dominated p (set (su_roles user))"
    using f roles(2) by (simp_all add: user_datum_init_def)
  note st = user_stored_ok [OF assms(1,3) v(1)]
  have "context_is_valid p' c \<noteq> Inr True" if "c_user c = ud_value d" "c_role c \<noteq> OBJECT_R_VAL" for c
    using that st(3) v(2) by (auto simp: d'(2) context_is_valid_def bindR_eq_Inr ebitmap_get_bit_def ebitmap_init_def split: if_splits)
  then show ?thesis using st(1,2) v d'(2) by blast
qed

text \<open>Claim C23. A user with a new name, whose record can be converted, is added when no allocation fails: it gets the next value, the roles that the
  roles of the record dominate, and a cache with exactly these roles; the tables of names and structures grow by it and keep all other users.\<close>

theorem user_modify_adds:
  assumes "users_ok p" "roles_dom_ok p" "hashtab_abs (table (p_users p)) key = None" "nprim (p_users p) \<noteq> - 1"
    "fill_user p user (su_roles user) user_datum_init [] = (Inr (d, True), [])"
  shows "\<exists>p' d'. sepol_user_modify p key user [] = (Inr (p', Inr ()), []) \<and> users_ok p' \<and> nprim (p_users p') = nprim (p_users p) + 1
    \<and> hashtab_abs (table (p_users p')) = (hashtab_abs (table (p_users p)))(key \<mapsto> d') \<and> ud_value d' = nprim (p_users p')
    \<and> ebitmap_bits (rs_roles (ud_roles d')) = dominated p (set (su_roles user)) \<and> ud_cache d' = rs_roles (ud_roles d')"
proof -
  note ok = assms(1) [unfolded users_ok_def]
  have h: "hashtab_ok (table (p_users p))" using ok by blast
  let ?n = "nprim (p_users p)" let ?v = "?n + 1" let ?d1 = "d\<lparr>ud_value := ?v\<rparr>"
  have "ebitmap_ok (rs_roles (ud_roles user_datum_init))" by (simp add: user_datum_init_def)
  note f = fill_user_spec [OF assms(5) this assms(2)]
  have d: "ebitmap_ok (rs_roles (ud_roles d))" "rs_flags (ud_roles d) = 0" "ebitmap_bits (rs_roles (ud_roles d)) = dominated p (set (su_roles user))"
    using f by (simp_all add: user_datum_init_def)
  have nv: "?v \<noteq> 0" using assms(4) by (metis add_eq_0_iff2)
  have v: "unat ?v = Suc (unat ?n)" using nv unat_minus_1 [of ?v] by (metis Suc_pred' add_diff_cancel_right' unat_gt_0)
  have len: "length (user_val_to_struct p) = unat ?n" "length (p_user_val_to_name p) = unat ?n" using ok by simp_all
  then have g: "grow ?n (user_val_to_struct p) = user_val_to_struct p @ [None]" "grow ?n (p_user_val_to_name p) = p_user_val_to_name p @ [None]"
    by (simp_all add: grow_def v)
  have vs: "val_set (user_val_to_struct p @ [None]) ?v ?d1 = Inr (user_val_to_struct p @ [Some ?d1])"
    "val_set (p_user_val_to_name p @ [None]) ?v key = Inr (p_user_val_to_name p @ [Some key])"
    using len by (simp_all add: val_set_def Let_def list_update_append)
  from hashtab_insert_new [OF h assms(3), of ?d1] obtain t where t: "yields (hashtab_insert (table (p_users p)) key ?d1) (Inr t)" "hashtab_ok t"
    "hashtab_abs t = (hashtab_abs (table (p_users p)))(key \<mapsto> ?d1)" by blast
  let ?p4 = "p\<lparr>p_users := (p_users p)\<lparr>nprim := ?v, table := t\<rparr>, p_user_val_to_name := p_user_val_to_name p @ [Some key], user_val_to_struct := user_val_to_struct p @ [Some ?d1]\<rparr>"
  let ?d2 = "?d1\<lparr>ud_cache := rs_roles (ud_roles d)\<rparr>"
  have p4: "users_ok ?p4"
  proof -
    have "ud_value e \<noteq> 0 \<and> unat (ud_value e - 1) < unat ?v \<and> (p_user_val_to_name p @ [Some key]) ! unat (ud_value e - 1) = Some x
        \<and> (user_val_to_struct p @ [Some ?d1]) ! unat (ud_value e - 1) = Some e" if "((hashtab_abs (table (p_users p)))(key \<mapsto> ?d1)) x = Some e" for x e
    proof (cases "x = key")
      case True
      then have "e = ?d1" using that by simp
      then show ?thesis using True nv v len by (simp add: nth_append)
    next
      case False
      then have "hashtab_abs (table (p_users p)) x = Some e" using that by simp
      from ok [THEN conjunct2, THEN conjunct2, THEN conjunct2, rule_format, OF this] show ?thesis using v len by (simp add: nth_append)
    qed
    then show ?thesis using t(2) len v by (auto simp: users_ok_def t(3))
  qed
  have ex: "role_set_expand (ud_roles ?d1) ?p4 None [] = (Inr (rs_roles (ud_roles d), ?p4), [])"
    using role_set_expand_plain [of "ud_roles ?d1" ?p4] d(1,2) by (simp add: returns_def)
  have "new_user p key d [] = (Inr (user_stored ?p4 key ?d2, Inr ()), [])"
    using yields_no_oom [OF t(1)] ex
    by (simp add: new_user_def Let_def bindE_def tryE_def returnE_def strdup_def g vs user_stored_def liftE_def)
  then have run: "sepol_user_modify p key user [] = (Inr (user_stored ?p4 key ?d2, Inr ()), [])"
    using assms(3,5) by (simp add: sepol_user_modify_def sepol_user_get_roles_def hashtab_search_abs [OF h] bindE_def tryE_def failE_def returnE_def)
  have "hashtab_abs (table (p_users ?p4)) key = Some ?d1" by (simp add: t(3))
  note st = user_stored_ok(1,2) [OF p4 this, of ?d2]
  have "hashtab_abs (table (p_users (user_stored ?p4 key ?d2))) = (hashtab_abs (table (p_users p)))(key \<mapsto> ?d2)" using st(2) t(3) by simp
  moreover have "nprim (p_users (user_stored ?p4 key ?d2)) = ?v" by (simp add: user_stored_def)
  ultimately show ?thesis using run st(1) d(3) by (intro exI [of _ "user_stored ?p4 key ?d2"] exI [of _ ?d2]) simp
qed

section \<open>Witnesses\<close>

definition user_record :: sepol_user where
  "user_record = \<lparr>su_name = None, su_mls_level = None, su_mls_range = None, su_roles = [''sys_r'']\<rparr>"

lemma plain_db_users: "users_ok plain_db" "roles_dom_ok plain_db"
proof -
  have u: "hashtab_abs (table (p_users plain_db)) = map_of [(''user_u'', sample_user)]" "hashtab_ok (table (p_users plain_db))"
    "hashtab_abs (table (p_roles plain_db)) = map_of [(''object_r'', sample_object_r), (''sys_r'', sample_sys_r)]" "hashtab_ok (table (p_roles plain_db))"
    by (simp_all add: plain_db_def)
  have "p_user_val_to_name plain_db = [Some ''user_u'']" "user_val_to_struct plain_db = [Some sample_user]" "nprim (p_users plain_db) = 1"
    by (simp_all add: plain_db_def sample_db_def)
  moreover have "ud_value sample_user = 1" by (simp add: sample_user_def)
  ultimately show "users_ok plain_db" using u by (simp add: users_ok_def)
  have "ebitmap_ok (rd_dominates sample_object_r)" "ebitmap_ok (rd_dominates sample_sys_r)" by (simp_all add: sample_object_r_def sample_sys_r_def bits_of_ok)
  then show "roles_dom_ok plain_db" using u by (simp add: roles_dom_ok_def)
qed

lemma bits_of_2: "ebitmap_positive_bits (bits_of 2) = Inr [1]"
proof -
  have "bit (2 :: u64) n \<longleftrightarrow> n = 1" for n using bit_exp_iff [of 1 n, where 'a = "64 word"] by auto
  then have b: "ebitmap_bits (bits_of 2) = {1}" by (auto simp: ebitmap_bits_def nodes_bits_def bits_of_def node_has_def)
  have "ebitmap_ok (bits_of 2)" by (rule bits_of_ok) simp
  from ebitmap_positive_bits_eq [OF this] obtain bs where bs: "ebitmap_positive_bits (bits_of 2) = Inr bs" "unat ` set bs = {1}" "sorted_wrt (<) bs"
    unfolding b by blast
  have "x = 1" if "x \<in> set bs" for x
    using bs(2) that word_unat_eq_iff [of x 1] by auto
  then show ?thesis using bs by (cases bs; cases "tl bs") auto
qed

lemma user_record_fill:
  assumes "ud_roles d = ud_roles user_datum_init"
  shows "fill_user plain_db user_record (su_roles user_record) d [] = (Inr (with_roles d (bits_of 2), True), [])"
proof -
  have e: "ebitmap_set_bit ebitmap_init 1 True [] = (Inr (bits_of 2), [])" by code_simp
  have "hashtab_search (table (p_roles plain_db)) ''sys_r'' = Inr (Some sample_sys_r)" "rd_dominates sample_sys_r = bits_of 2" "\<not> p_mls plain_db"
    by (simp_all add: plain_db_def hashtab_search_abs sample_sys_r_def)
  then show ?thesis using assms e bits_of_2
    by (simp add: fill_user_def user_record_def user_datum_init_def bindE_def tryE_def returnE_def with_roles_def)
qed

theorem user_modify_drops_cache_witness:
  "\<exists>p'. sepol_user_modify plain_db ''user_u'' user_record [] = (Inr (p', Inr ()), [])
     \<and> context_is_valid plain_db plain_context = Inr True \<and> context_is_valid p' plain_context \<noteq> Inr True"
proof -
  have f: "fill_user plain_db user_record (su_roles user_record) (user_datum_init\<lparr>ud_value := 1\<rparr>) []
      = (Inr (with_roles (user_datum_init\<lparr>ud_value := 1\<rparr>) (bits_of 2), True), [])" by (rule user_record_fill) simp
  have h: "hashtab_ok (table (p_users plain_db))" "hashtab_abs (table (p_users plain_db)) ''user_u'' = Some sample_user" "ud_value sample_user = 1"
    by (simp_all add: plain_db_def sample_user_def)
  obtain p' where r: "sepol_user_modify plain_db ''user_u'' user_record [] = (Inr (p', Inr ()), [])"
    using f h by (simp add: sepol_user_modify_def sepol_user_get_roles_def hashtab_search_abs bindE_def tryE_def failE_def returnE_def)
  have "hashtab_abs (table (p_users plain_db)) ''user_u'' = Some sample_user" by (simp add: plain_db_def)
  from user_modify_drops_cache [OF plain_db_users this r] have "context_is_valid p' plain_context \<noteq> Inr True"
    by (auto simp: plain_context_def sample_user_def)
  then show ?thesis using r plain_db_valid by blast
qed

theorem user_modify_adds_witness:
  "\<exists>p'. sepol_user_modify plain_db ''new_u'' user_record [] = (Inr (p', Inr ()), []) \<and> users_ok p' \<and> nprim (p_users p') = 2"
proof -
  have f: "fill_user plain_db user_record (su_roles user_record) user_datum_init [] = (Inr (with_roles user_datum_init (bits_of 2), True), [])" by (rule user_record_fill) simp
  have n: "hashtab_abs (table (p_users plain_db)) ''new_u'' = None" "nprim (p_users plain_db) = 1" by (simp_all add: plain_db_def)
  have "nprim (p_users plain_db) \<noteq> - 1" by (simp add: n(2))
  from user_modify_adds [OF plain_db_users n(1) this f] show ?thesis by (auto simp: n(2))
qed

end
