(* ===== verification/Spec2Isabelle.thy ===== *)
theory Spec2Isabelle
  imports Load_Policy Avc_Coherence Avc_Mapping Image_Safety User_Records
begin

text \<open>
  A verification development for the SELinux libraries that are built into the busybox package:
  src/libs/libsepol-2.2 and src/libs/libselinux-2.2.2. It models the security server of libsepol
  (services.c) down to the containers that it is written on, the reader and writer of policy images
  (policydb.c, write.c), and the userspace access vector cache of libselinux (avc.c), through which programs ask for
  decisions.

  \<^bold>\<open>The program.\<close> A kernel policy is a \<open>policydb\<close>: symbol tables of classes, roles, types, users, Booleans,
  sensitivities and categories, access vector tables with the type enforcement rules, conditional rules,
  role rules, constraints of the classes, and lists of labelled objects. A security context (user, role,
  type and a range of MLS levels) is named by a SID; the SID table interns contexts. The security server
  answers access decisions about two SIDs and a class, computes the SIDs of new objects, looks up the
  SIDs of ports, nodes, interfaces and file systems, and switches to a new policy. The userspace cache
  interns contexts in a SID table of its own and keeps the decisions of the kernel by pair of SIDs and class;
  messages of the kernel about a new policy or mode empty it.

  \<^bold>\<open>How C is modelled.\<close> Machine integers are words of their width. A function that can fail returns a
  sum: \<open>Inl\<close> an error (the error codes, \<open>Fault\<close> for undefined behaviour such as a read out of bounds or
  through a null pointer, \<open>Diverge\<close> for a loop that does not end), \<open>Inr\<close> a result. A function that
  allocates also threads the allocator, a list that says which of the next allocations fail (an empty list:
  none does). Arrays are lists whose access out of range is \<open>Fault\<close>, linked lists are lists, hash buckets
  are lists of lists; nodes of the access vector table carry an address, since conditional rules
  point at them. Freeing memory has no effect. Strings have no null character inside.

  \<^bold>\<open>Theories.\<close>
  \<^item> \<open>Sepol_Prelude\<close>: result and allocator types, their combinators, the relations \<open>yields\<close> and \<open>returns\<close> that
    separate what a function computes from failed allocations, lemmas on lists and words.
  \<^item> \<open>Policy_File\<close> (services.c): \<open>next_entry\<close> and \<open>put_entry\<close> on the three kinds of policy file.
  \<^item> \<open>Ebitmap\<close> (ebitmap.c, ebitmap.h, write.c): sparse bitmaps. A well-formed bitmap is determined by its set
    of bits; every operation is the set operation; iteration ends; writing and reading are inverse.
  \<^item> \<open>Hashtab\<close> (hashtab.c, symtab.c): chained hash tables over an arbitrary key order (locale \<open>key_order\<close>),
    the finite-map interface (locales \<open>map_store\<close> and its extension) and its interpretations.
  \<^item> \<open>Avtab\<close> (avtab.c, write.c): the access vector table, insertion, lookup, both file formats.
  \<^item> \<open>Context_Struct\<close> (mls_types.h, context.h): levels, ranges, contexts; dominance (locale \<open>dominance\<close>).
  \<^item> \<open>Policydb\<close> (policydb.h, conditional.h, constraint.h): the data of a policy. \<open>Sample_Policy\<close>: a small
    policy on which the statements are instantiated.
  \<^item> \<open>Mls\<close> (mls.c): text form, validity, computation and conversion of ranges.
  \<^item> \<open>Sidtab\<close> (sidtab.c): the SID table as a state machine; interning; cloning and converting a table.
  \<^item> \<open>Conditional\<close> (conditional.c): Boolean expressions, switching of rules, normal form.
  \<^item> \<open>Contexts\<close> (context.c, context_record.c): validity of contexts, texts and records.
  \<^item> \<open>Expand_Sets\<close> (expand.c, policydb.c): sets of types and roles with attributes, negation, \<open>*\<close> and complement, and
    their expansion to bitmaps.
  \<^item> \<open>Policydb_Index\<close> (policydb.c): the tables from values to names and structures (locale \<open>symbol_index\<close>, one
    interpretation for each kind of symbol), the caches of roles and users (locale \<open>cached_symbols\<close>), the initial SIDs.
  \<^item> \<open>Services\<close> (services.c): constraints, access decisions, names, texts of SIDs, SIDs of new objects.
  \<^item> \<open>Ocontexts\<close> (services.c): SIDs of labelled objects (locale \<open>ocon_table\<close>), SIDs a user can reach.
  \<^item> \<open>Load_Policy\<close> (services.c): the policy switch.
  \<^item> \<open>Policy_Records\<close> (ports.c, interfaces.c, booleans.c and their record files): the interface through which ports,
    interfaces and Booleans of a policy are looked up and changed. \<open>User_Records\<close> (users.c, user_record.c): the same for users.
  \<^item> \<open>Policy_Codec\<close>: readers and writers as state transformers of a policy file; \<open>code\<close> relates a writer to the reader that
    takes its bytes back (locale \<open>codec\<close>), \<open>safe\<close> says what a reader does on arbitrary bytes.
  \<^item> \<open>Policydb_Symbols\<close> (policydb.c, write.c): the symbols of an image with their sets and constraints (locales
    \<open>codec\<close> and \<open>symbol_reader\<close>, one interpretation for each kind of symbol).
  \<^item> \<open>Avtab_Expand\<close> (expand.c, write.c): the expansion of attributes in rules and the writer of the rule format before
    version 20. \<open>Rules_Image\<close> (conditional.c, write.c): the rule tables and the conditional section of an image.
  \<^item> \<open>Policydb_Sections\<close> (policydb.c, write.c): role rules, file name and range transitions, object contexts, file
    system labels.
  \<^item> \<open>Policydb_Image\<close> (policydb.c, write.c): \<open>policydb_init\<close>, \<open>policydb_read\<close> and \<open>policydb_write\<close>.
    \<open>Image_Roundtrip\<close> and \<open>Policy_Roundtrip\<close>: each section, then the whole image, is read back as it was written.
    \<open>Image_Safety\<close>: the readers on arbitrary bytes.
  \<^item> \<open>Avc_Sidtab\<close> (libselinux avc_sidtab.c): the SID table of the userspace cache.
  \<^item> \<open>Avc\<close> (libselinux avc.c, avc_internal.c): the cache, checks, auditing, revocation, messages, life cycle.
    \<open>Avc_Cache\<close>: the invariant of the cache and what its operations do. \<open>Avc_Coherence\<close>: checks against the
    kernel's answers, the client operations as a step relation and the invariant of the reachable states.
  \<^item> \<open>Avc_Mapping\<close> (libselinux mapping.c): an application's own numbers of classes and permissions.

  \<^bold>\<open>What is shown.\<close> An access decision grants exactly what the rules say (type enforcement over the
  attributes of both types, conditional rules while switched on, constraints, role changes), the SIDs
  computed in enforcing mode name valid contexts, a policy switch keeps only SIDs whose contexts are valid
  under the new policy and only happens when classes and permissions keep their numbers, the labels of
  objects are cached consistently, and the containers below refine sets and maps. A check through the
  userspace cache answers as the kernel would, also after a policy change that is announced but not yet
  read, whatever stale reference the caller holds. An application that uses numbers of its own gets the kernel's decisions. Indexing a policy whose symbols are numbered from 1 establishes
  the well-formedness that the security server relies on, and refuses a value out of range. A kernel policy that is
  written and read back has the same header, symbols, rules and labels. On arbitrary bytes the symbols and rules of an
  image (version 20 or later) are refused or give well-formed tables, and a constraint that is accepted cannot leave
  the stack of its evaluator. Setting a Boolean switches exactly the rules it controls, loading a port labels exactly its
  range, and adding a user extends the tables. Where the code does
  not do what it means to, a theorem states what it does: constraints are skipped when memory runs out,
  validating a transition reads before a table, an unknown class name is searched past the end of a table,
  the text of a level bridges gaps between categories, two different conditionals compare equal, the role set
  \<open>*\<close> cannot be expanded, an attribute of an image that is no type is used as an index,
  changing a user makes its contexts invalid.

  \<^bold>\<open>Bounds.\<close> Constraint evaluation has a stack of five cells and conditional evaluation one of ten, as
  in the code; the theorems give the stack need of an expression. Loops are structural recursions or
  have a measure; a count of the file bounds the loop that it controls. Files are smaller than the largest 32-bit
  number where a reader is shown safe. The iteration over a bitmap is a \<open>partial_function\<close> with a proof that it returns.

  \<^bold>\<open>Not modelled.\<close> The module language (module.c, link.c, the rest of
  expand.c, avrule_block.c, assertion.c, hierarchy.c) and its variants of the image readers and writers (the reader of a
  module is an argument of \<open>policydb_read\<close>), the records of network nodes (nodes.c, node_record.c, which convert
  addresses with the C library), the files of Booleans and users (genbools.c, genusers.c), the text that explains why a constraint failed,
  freeing of memory, the rest of libselinux (mostly system calls on /proc and /sys; what the cache needs
  of the kernel, of the socket and of the application's callbacks are arguments), locks and threads (the
  operations of the cache run one after the other), the vendored libraries pcre and wolfssl, which are
  third-party code, and the shell scripts that build and install the package.
\<close>

end
